(* ===== verification/Prelude.thy ===== *)
theory Prelude
  imports Complex_Main "HOL-Library.List_Lexorder" "HOL-Library.Char_ord"
begin

text \<open>
  Shared vocabulary of the development: the exceptions of the program as values, Python
  values, strings, transactions over an explicit store, and keyed tables (the SQLite tables
  of the program as lists of rows in insertion order).

  Conventions.
  \<^item> A \<open>char\<close> stands for a code point below 256, a \<open>string\<close> for a Python \<open>str\<close> over
    such code points; \<open>lower\<close> and \<open>is_space\<close> follow Python on that range.
  \<^item> A raised exception is \<open>Inl\<close> of its class; messages are not kept.
  \<^item> A function that runs against a store returns the result and the new store; a
    transaction that raises gives back the store it started from.
  \<^item> The record \<open>pylib\<close> holds the standard-library functions the program calls and the
    theorems do not depend on in detail (SHA-256, ISO parsing, \<open>json.loads\<close>,
    \<open>float.__repr__\<close>).
\<close>

named_theorems result_simps \<open>evaluation of results, guards and transactions\<close>
named_theorems table_simps \<open>lookups in updated keyed tables\<close>

section \<open>Exceptions and results\<close>

datatype exn =
    ValueError | TypeError | KeyError | OverflowError | IntegrityError
  | ControlStoreError | UnknownKindError | DeliveryForbiddenError
  | ClaimMismatchError | PayloadConflictError | ScheduleError
  | DeliveryRejected | DeliveryAmbiguous | DeliveryConflict
  | OtherError string

type_synonym 'a result = "exn + 'a"

text \<open>
  \<open>ControlStoreError\<close> is the base class of the control store's errors; an
  \<open>except ControlStoreError\<close> clause catches the subclasses too.
\<close>

fun is_control_store_error :: "exn \<Rightarrow> bool" where
  "is_control_store_error ControlStoreError = True"
| "is_control_store_error UnknownKindError = True"
| "is_control_store_error DeliveryForbiddenError = True"
| "is_control_store_error ClaimMismatchError = True"
| "is_control_store_error PayloadConflictError = True"
| "is_control_store_error _ = False"

text \<open>\<open>type(exc).__name__\<close>.\<close>

fun exn_name :: "exn \<Rightarrow> string" where
  "exn_name ValueError = ''ValueError''"
| "exn_name TypeError = ''TypeError''"
| "exn_name KeyError = ''KeyError''"
| "exn_name OverflowError = ''OverflowError''"
| "exn_name IntegrityError = ''IntegrityError''"
| "exn_name ControlStoreError = ''ControlStoreError''"
| "exn_name UnknownKindError = ''UnknownKindError''"
| "exn_name DeliveryForbiddenError = ''DeliveryForbiddenError''"
| "exn_name ClaimMismatchError = ''ClaimMismatchError''"
| "exn_name PayloadConflictError = ''PayloadConflictError''"
| "exn_name ScheduleError = ''ScheduleError''"
| "exn_name DeliveryRejected = ''DeliveryRejected''"
| "exn_name DeliveryAmbiguous = ''DeliveryAmbiguous''"
| "exn_name DeliveryConflict = ''DeliveryConflict''"
| "exn_name (OtherError name) = name"

fun bind_result :: "'e + 'a \<Rightarrow> ('a \<Rightarrow> 'e + 'b) \<Rightarrow> 'e + 'b" where
  "bind_result (Inl e) f = Inl e"
| "bind_result (Inr x) f = f x"

fun map_result :: "('a \<Rightarrow> 'e + 'b) \<Rightarrow> 'a list \<Rightarrow> 'e + 'b list" where
  "map_result f [] = Inr []"
| "map_result f (x # xs) =
     (case f x of Inl e \<Rightarrow> Inl e
      | Inr y \<Rightarrow> (case map_result f xs of Inl e \<Rightarrow> Inl e | Inr ys \<Rightarrow> Inr (y # ys)))"

definition guard :: "bool \<Rightarrow> 'e \<Rightarrow> 'e + unit" where
  "guard b e = (if b then Inr () else Inl e)"

lemma guard_simps [simp, result_simps]:
  "guard True e = Inr ()" "guard False e = Inl e"
  by (simp_all add: guard_def)

lemma guard_Inr [simp]: "guard b e = Inr u \<longleftrightarrow> b"
  by (simp add: guard_def)

lemma guard_Inl [simp]: "guard b e = Inl e' \<longleftrightarrow> \<not> b \<and> e' = e"
  by (auto simp: guard_def)

lemma bind_result_Inr [simp]:
  "bind_result r f = Inr y \<longleftrightarrow> (\<exists>x. r = Inr x \<and> f x = Inr y)"
  by (cases r) auto

lemma bind_result_Inl:
  "bind_result r f = Inl e \<longleftrightarrow> r = Inl e \<or> (\<exists>x. r = Inr x \<and> f x = Inl e)"
  by (cases r) auto

lemma map_result_Inr_length: "map_result f xs = Inr ys \<Longrightarrow> length ys = length xs"
  by (induction xs arbitrary: ys) (auto split: sum.splits)

lemma map_result_Inr_iff:
  "map_result f xs = Inr ys \<longleftrightarrow> list_all2 (\<lambda>x y. f x = Inr y) xs ys"
proof (induction xs arbitrary: ys)
  case Nil
  then show ?case by auto
next
  case (Cons x xs)
  have "map_result f (x # xs) = Inr ys \<longleftrightarrow>
      (\<exists>z zs. ys = z # zs \<and> f x = Inr z \<and> map_result f xs = Inr zs)"
    by (auto split: sum.splits)
  with Cons.IH show ?case by (simp add: list_all2_Cons1)
qed

lemma map_result_cong [fundef_cong]:
  "xs = ys \<Longrightarrow> (\<And>x. x \<in> set ys \<Longrightarrow> f x = g x) \<Longrightarrow> map_result f xs = map_result g ys"
  by (induction xs arbitrary: ys) (auto split: sum.splits)

lemma map_result_same:
  "map_result f xs = Inr xs \<longleftrightarrow> (\<forall>x \<in> set xs. f x = Inr x)"
  by (induction xs) (auto split: sum.splits)

lemma map_result_Inl:
  assumes "map_result f xs = Inl e"
  obtains x where "x \<in> set xs" "f x = Inl e"
  using assms by (induction xs) (auto split: sum.splits)

section \<open>Stores and transactions\<close>

type_synonym ('s, 'a) tx = "'s \<Rightarrow> 'a result \<times> 's"

text \<open>
  \<open>BEGIN IMMEDIATE\<close>, then the body, then \<open>COMMIT\<close>, or \<open>ROLLBACK\<close> and the exception
  again when the body raises.
\<close>

definition immediate_tx :: "('s \<Rightarrow> ('e + 'a) \<times> 's) \<Rightarrow> 's \<Rightarrow> ('e + 'a) \<times> 's" where
  "immediate_tx body s =
     (case body s of
        (Inl e, s') \<Rightarrow> (Inl e, s)
      | (Inr x, s') \<Rightarrow> (Inr x, s'))"

lemma immediate_tx_Inr:
  "immediate_tx body s = (Inr x, t) \<longleftrightarrow> body s = (Inr x, t)"
  by (auto simp: immediate_tx_def split: prod.splits sum.splits)

lemma immediate_tx_Inl:
  "immediate_tx body s = (Inl e, t) \<longleftrightarrow> t = s \<and> (\<exists>s'. body s = (Inl e, s'))"
  by (auto simp: immediate_tx_def split: prod.splits sum.splits)

lemma fst_immediate_tx [simp]: "fst (immediate_tx body s) = fst (body s)"
  by (auto simp: immediate_tx_def split: prod.splits sum.splits)

lemma snd_immediate_tx:
  "snd (immediate_tx body s) = (case fst (body s) of Inl e \<Rightarrow> s | Inr x \<Rightarrow> snd (body s))"
  by (auto simp: immediate_tx_def split: prod.splits sum.splits)

text \<open>A sequence of operations, each run against the store the previous one left.\<close>

fun run_ops :: "('op \<Rightarrow> 's \<Rightarrow> ('e + 'r) \<times> 's) \<Rightarrow> 'op list \<Rightarrow> 's \<Rightarrow> 's" where
  "run_ops exec [] s = s"
| "run_ops exec (c # cs) s = run_ops exec cs (snd (exec c s))"

lemma run_ops_append: "run_ops exec (xs @ ys) s = run_ops exec ys (run_ops exec xs s)"
  by (induction xs arbitrary: s) auto

text \<open>
  The contract every store of the program has: an operation that raises leaves the store as
  it was, and every operation keeps the store's invariant.
\<close>

locale transactional_store =
  fixes exec :: "'op \<Rightarrow> 's \<Rightarrow> ('e + 'r) \<times> 's"
    and inv :: "'s \<Rightarrow> bool"
  assumes rollback: "fst (exec c s) = Inl e \<Longrightarrow> snd (exec c s) = s"
    and preserves: "inv s \<Longrightarrow> inv (snd (exec c s))"
begin

lemma run_inv: "inv s \<Longrightarrow> inv (run_ops exec cs s)"
  by (induction cs arbitrary: s) (auto intro: preserves)

text \<open>Failed operations may be dropped from a run without changing where it ends.\<close>

lemma run_drop_failed:
  assumes "fst (exec c (run_ops exec xs s)) = Inl e"
  shows "run_ops exec (xs @ c # ys) s = run_ops exec (xs @ ys) s"
  using rollback [OF assms] by (simp add: run_ops_append)

text \<open>A measure no operation lowers is not lowered by a run.\<close>

lemma run_mono:
  fixes m :: "'s \<Rightarrow> 'm::preorder"
  assumes step: "\<And>c s. inv s \<Longrightarrow> m s \<le> m (snd (exec c s))" and "inv s"
  shows "m s \<le> m (run_ops exec cs s)"
  using \<open>inv s\<close>
proof (induction cs arbitrary: s)
  case Nil
  then show ?case by simp
next
  case (Cons c cs)
  have "m s \<le> m (snd (exec c s))" by (rule step [OF Cons.prems])
  also have "\<dots> \<le> m (run_ops exec cs (snd (exec c s)))"
    by (rule Cons.IH) (rule preserves [OF Cons.prems])
  finally show ?case by simp
qed

text \<open>A property every operation keeps, given the invariant, holds along a run.\<close>

lemma run_stable:
  assumes step: "\<And>c s. inv s \<Longrightarrow> P s \<Longrightarrow> P (snd (exec c s))" and "inv s" and "P s"
  shows "P (run_ops exec cs s)"
  using \<open>inv s\<close> \<open>P s\<close>
proof (induction cs arbitrary: s)
  case Nil
  then show ?case by simp
next
  case (Cons c cs)
  then show ?case by (simp add: preserves step)
qed

end

section \<open>Keyed tables\<close>

text \<open>A table is its rows in insertion order; \<open>key\<close> reads the primary key of a row.\<close>

definition tbl_find :: "('r \<Rightarrow> 'k) \<Rightarrow> 'k \<Rightarrow> 'r list \<Rightarrow> 'r option" where
  "tbl_find key k rows = find (\<lambda>r. key r = k) rows"

definition tbl_insert :: "'r \<Rightarrow> 'r list \<Rightarrow> 'r list" where
  "tbl_insert r rows = rows @ [r]"

definition tbl_update :: "('r \<Rightarrow> 'k) \<Rightarrow> 'k \<Rightarrow> ('r \<Rightarrow> 'r) \<Rightarrow> 'r list \<Rightarrow> 'r list" where
  "tbl_update key k f rows = map (\<lambda>r. if key r = k then f r else r) rows"

definition tbl_delete :: "('r \<Rightarrow> 'k) \<Rightarrow> 'k \<Rightarrow> 'r list \<Rightarrow> 'r list" where
  "tbl_delete key k rows = filter (\<lambda>r. key r \<noteq> k) rows"

definition tbl_keyed :: "('r \<Rightarrow> 'k) \<Rightarrow> 'r list \<Rightarrow> bool" where
  "tbl_keyed key rows = distinct (map key rows)"

lemma tbl_find_Nil [simp]: "tbl_find key k [] = None"
  by (simp add: tbl_find_def)

lemma tbl_find_Cons [simp]:
  "tbl_find key k (r # rows) = (if key r = k then Some r else tbl_find key k rows)"
  by (simp add: tbl_find_def)

lemma tbl_find_None: "tbl_find key k rows = None \<longleftrightarrow> k \<notin> key ` set rows"
  by (induction rows) auto

lemma tbl_find_SomeD: "tbl_find key k rows = Some r \<Longrightarrow> r \<in> set rows \<and> key r = k"
  by (induction rows) (auto split: if_splits)

lemma tbl_find_Some:
  "tbl_keyed key rows \<Longrightarrow> tbl_find key k rows = Some r \<longleftrightarrow> r \<in> set rows \<and> key r = k"
  by (induction rows) (auto simp: tbl_keyed_def image_iff)

lemma tbl_find_insert [table_simps]:
  "tbl_find key k (tbl_insert r rows) =
     (case tbl_find key k rows of Some q \<Rightarrow> Some q
      | None \<Rightarrow> if key r = k then Some r else None)"
  by (induction rows) (auto simp: tbl_insert_def)

lemma tbl_find_update [table_simps]:
  assumes "\<And>r. key (f r) = key r"
  shows "tbl_find key k' (tbl_update key k f rows) =
     (if k' = k then map_option f (tbl_find key k rows) else tbl_find key k' rows)"
  using assms by (induction rows) (auto simp: tbl_update_def)

lemma tbl_find_delete [table_simps]:
  "tbl_find key k' (tbl_delete key k rows) = (if k' = k then None else tbl_find key k' rows)"
  by (induction rows) (auto simp: tbl_delete_def)

lemma tbl_keyed_Nil [simp]: "tbl_keyed key []"
  by (simp add: tbl_keyed_def)

lemma tbl_keyed_insert:
  "tbl_keyed key rows \<Longrightarrow> tbl_find key (key r) rows = None \<Longrightarrow> tbl_keyed key (tbl_insert r rows)"
  by (auto simp: tbl_keyed_def tbl_insert_def tbl_find_None)

lemma tbl_keyed_update:
  assumes "\<And>r. key (f r) = key r"
  shows "tbl_keyed key (tbl_update key k f rows) = tbl_keyed key rows"
proof -
  have "map key (tbl_update key k f rows) = map key rows"
    using assms by (auto simp: tbl_update_def)
  then show ?thesis by (simp add: tbl_keyed_def)
qed

lemma tbl_keyed_delete: "tbl_keyed key rows \<Longrightarrow> tbl_keyed key (tbl_delete key k rows)"
  by (simp add: tbl_keyed_def tbl_delete_def distinct_map_filter)

lemma tbl_find_map: "(\<And>r. key (f r) = key r) \<Longrightarrow> tbl_find key k (map f rows) = map_option f (tbl_find key k rows)"
  by (induction rows) auto

lemma set_tbl_insert [simp]: "set (tbl_insert r rows) = insert r (set rows)"
  by (auto simp: tbl_insert_def)

lemma set_tbl_update:
  "set (tbl_update key k f rows) = (\<lambda>r. if key r = k then f r else r) ` set rows"
  by (simp add: tbl_update_def)

lemma set_tbl_delete [simp]: "set (tbl_delete key k rows) = {r \<in> set rows. key r \<noteq> k}"
  by (auto simp: tbl_delete_def)

text \<open>
  What a client may rely on about a table, whatever its representation: the laws of a finite
  map. Every table of the program interprets this contract.
\<close>

locale keyed_table =
  fixes lookup :: "'k \<Rightarrow> 't \<Rightarrow> 'r option"
    and ins :: "'r \<Rightarrow> 't \<Rightarrow> 't"
    and upd :: "'k \<Rightarrow> ('r \<Rightarrow> 'r) \<Rightarrow> 't \<Rightarrow> 't"
    and key :: "'r \<Rightarrow> 'k"
    and wf :: "'t \<Rightarrow> bool"
  assumes lookup_key: "lookup k t = Some r \<Longrightarrow> key r = k"
    and lookup_ins: "lookup (key r) t = None \<Longrightarrow>
          lookup k (ins r t) = (if k = key r then Some r else lookup k t)"
    and lookup_upd: "(\<And>r. key (f r) = key r) \<Longrightarrow>
          lookup k' (upd k f t) = (if k' = k then map_option f (lookup k t) else lookup k' t)"
    and wf_ins: "wf t \<Longrightarrow> lookup (key r) t = None \<Longrightarrow> wf (ins r t)"
    and wf_upd: "wf t \<Longrightarrow> (\<And>r. key (f r) = key r) \<Longrightarrow> wf (upd k f t)"
begin

text \<open>An upsert: update the row when the key is there, insert it otherwise.\<close>

definition upsert :: "'r \<Rightarrow> ('r \<Rightarrow> 'r) \<Rightarrow> 't \<Rightarrow> 't" where
  "upsert r f t = (if lookup (key r) t = None then ins r t else upd (key r) f t)"

lemma lookup_upsert:
  assumes "\<And>q. key (f q) = key q"
  shows "lookup k (upsert r f t) =
     (if k = key r then (case lookup k t of None \<Rightarrow> Some r | Some q \<Rightarrow> Some (f q))
      else lookup k t)"
  using assms by (auto simp: upsert_def lookup_ins lookup_upd split: option.splits)

lemma wf_upsert: "wf t \<Longrightarrow> (\<And>q. key (f q) = key q) \<Longrightarrow> wf (upsert r f t)"
  by (simp add: upsert_def wf_ins wf_upd)

end

text \<open>The row lists of the model meet the contract, for every choice of key column.\<close>

lemma keyed_table_rows:
  "keyed_table (tbl_find key) tbl_insert (tbl_update key) key (tbl_keyed key)"
proof
  show "\<And>k t r. tbl_find key k t = Some r \<Longrightarrow> key r = k"
    by (blast dest: tbl_find_SomeD)
  show "\<And>r t k. tbl_find key (key r) t = None \<Longrightarrow>
      tbl_find key k (tbl_insert r t) = (if k = key r then Some r else tbl_find key k t)"
    by (auto simp: tbl_find_insert split: option.splits)
  show "\<And>f k' k t. (\<And>r. key (f r) = key r) \<Longrightarrow>
      tbl_find key k' (tbl_update key k f t) =
      (if k' = k then map_option f (tbl_find key k t) else tbl_find key k' t)"
    by (rule tbl_find_update)
  show "\<And>t r. tbl_keyed key t \<Longrightarrow> tbl_find key (key r) t = None \<Longrightarrow>
      tbl_keyed key (tbl_insert r t)"
    by (rule tbl_keyed_insert)
  show "\<And>t f k. tbl_keyed key t \<Longrightarrow> (\<And>r. key (f r) = key r) \<Longrightarrow>
      tbl_keyed key (tbl_update key k f t)"
    by (simp add: tbl_keyed_update)
qed

end
