(* ===== verification/PyValues.thy ===== *)
theory PyValues
  imports Prelude
begin

text \<open>
  Python values as the program's payloads use them (JSON and TOML data), the string methods
  the code calls, and \<open>json.dumps\<close> in the canonical form used throughout the repository
  (sorted keys, separators without spaces, no ASCII escaping).
\<close>

section \<open>Strings\<close>

definition starts_with :: "string \<Rightarrow> string \<Rightarrow> bool" where
  "starts_with p s = (take (length p) s = p)"

definition ends_with :: "string \<Rightarrow> string \<Rightarrow> bool" where
  "ends_with p s = starts_with (rev p) (rev s)"

fun contains :: "string \<Rightarrow> string \<Rightarrow> bool" where
  "contains p [] = (p = [])"
| "contains p (c # s) = (starts_with p (c # s) \<or> contains p s)"

text \<open>\<open>str.lower\<close> and the white space of \<open>str.strip\<close>, on code points below 256.\<close>

definition to_lower :: "char \<Rightarrow> char" where
  "to_lower c = (let n = (of_char c :: nat) in
     if 65 \<le> n \<and> n \<le> 90 \<or> 192 \<le> n \<and> n \<le> 222 \<and> n \<noteq> 215 then char_of (n + 32) else c)"

definition lower :: "string \<Rightarrow> string" where
  "lower s = map to_lower s"

definition is_space :: "char \<Rightarrow> bool" where
  "is_space c = (let n = (of_char c :: nat) in
     9 \<le> n \<and> n \<le> 13 \<or> 28 \<le> n \<and> n \<le> 32 \<or> n = 133 \<or> n = 160)"

definition strip :: "string \<Rightarrow> string" where
  "strip s = rev (dropWhile is_space (rev (dropWhile is_space s)))"

definition blank :: "string \<Rightarrow> bool" where
  "blank s = (strip s = [])"

lemma blank_iff: "blank s \<longleftrightarrow> list_all is_space s"
proof
  assume "blank s"
  then have "dropWhile is_space (rev (dropWhile is_space s)) = []"
    by (simp add: blank_def strip_def)
  then have all: "list_all is_space (dropWhile is_space s)"
    by (simp add: dropWhile_eq_Nil_conv list_all_iff)
  show "list_all is_space s"
  proof (cases "dropWhile is_space s")
    case Nil
    then show ?thesis by (simp add: dropWhile_eq_Nil_conv list_all_iff)
  next
    case (Cons c cs)
    then have "\<not> is_space c" by (metis hd_dropWhile list.distinct(1) list.sel(1))
    with all Cons show ?thesis by simp
  qed
next
  assume "list_all is_space s"
  then have "dropWhile is_space s = []" by (simp add: list_all_iff dropWhile_eq_Nil_conv)
  then show "blank s" by (simp only: blank_def strip_def rev.simps dropWhile.simps)
qed

lemma blank_Nil [simp]: "blank []"
  by (simp add: blank_iff)

lemma ends_with_append [simp]: "ends_with p (s @ p)"
  by (simp add: ends_with_def starts_with_def)

lemma ends_with_single: "ends_with [c] s \<longleftrightarrow> s \<noteq> [] \<and> last s = c"
  by (cases s rule: rev_cases) (auto simp: ends_with_def starts_with_def)

text \<open>Decimal digits and \<open>str(n)\<close>.\<close>

definition digit :: "nat \<Rightarrow> char" where
  "digit d = char_of (48 + d)"

definition is_digit :: "char \<Rightarrow> bool" where
  "is_digit c = (let n = (of_char c :: nat) in 48 \<le> n \<and> n \<le> 57)"

definition digit_val :: "char \<Rightarrow> nat" where
  "digit_val c = of_char c - 48"

fun show_nat :: "nat \<Rightarrow> string" where
  "show_nat n = (if n < 10 then [digit n] else show_nat (n div 10) @ [digit (n mod 10)])"

declare show_nat.simps [simp del]

definition show_int :: "int \<Rightarrow> string" where
  "show_int i = (if i < 0 then ''-'' @ show_nat (nat (- i)) else show_nat (nat i))"

lemma of_char_digit [simp]: "d < 10 \<Longrightarrow> of_char (digit d) = 48 + d"
  by (simp add: digit_def)

lemma is_digit_digit [simp]: "d < 10 \<Longrightarrow> is_digit (digit d)"
  by (simp add: is_digit_def)

lemma digit_val_digit [simp]: "d < 10 \<Longrightarrow> digit_val (digit d) = d"
  by (simp add: digit_val_def)

lemma digit_less: "a < 10 \<Longrightarrow> b < 10 \<Longrightarrow> digit a < digit b \<longleftrightarrow> a < b"
  by (simp add: less_char_def)

lemma digit_inject: "a < 10 \<Longrightarrow> b < 10 \<Longrightarrow> digit a = digit b \<longleftrightarrow> a = b"
  by (metis digit_val_digit)

section \<open>Values\<close>

datatype pyfloat = Finite rat | NegZero | Infinity bool | NotANumber

datatype pyval =
    PNone
  | PBool bool
  | PInt int
  | PFloat pyfloat
  | PStr string
  | PList "pyval list"
  | PTuple "pyval list"
  | PDict "(string \<times> pyval) list"

type_synonym pydict = "(string \<times> pyval) list"

text \<open>\<open>bool(v)\<close>.\<close>

fun truthy :: "pyval \<Rightarrow> bool" where
  "truthy PNone = False"
| "truthy (PBool b) = b"
| "truthy (PInt i) = (i \<noteq> 0)"
| "truthy (PFloat f) = (f \<noteq> Finite 0 \<and> f \<noteq> NegZero)"
| "truthy (PStr s) = (s \<noteq> [])"
| "truthy (PList vs) = (vs \<noteq> [])"
| "truthy (PTuple vs) = (vs \<noteq> [])"
| "truthy (PDict kvs) = (kvs \<noteq> [])"

fun as_str :: "pyval \<Rightarrow> string option" where
  "as_str (PStr s) = Some s"
| "as_str _ = None"

text \<open>A dict lists its keys once, in insertion order; \<open>d.get(k)\<close> is \<open>map_of d k\<close>.\<close>

definition dict_ok :: "pydict \<Rightarrow> bool" where
  "dict_ok d = distinct (map fst d)"

section \<open>The standard library functions taken as parameters\<close>

text \<open>
  \<^item> \<open>sha256_hexdigest s\<close>: \<open>hashlib.sha256(s.encode("utf-8")).hexdigest()\<close>.
  \<^item> \<open>fromisoformat_utc s\<close>: \<open>datetime.fromisoformat(s).astimezone(UTC)\<close> as microseconds
    since 0001-01-01 00:00 UTC, \<open>None\<close> where it raises \<open>ValueError\<close>.
  \<^item> \<open>json_loads s\<close>: \<open>json.loads(s)\<close>, \<open>None\<close> where it raises \<open>JSONDecodeError\<close>.
  \<^item> \<open>float_repr f\<close>: \<open>repr\<close> of a float, which \<open>json.dumps\<close> prints.
  \<^item> \<open>container_str v\<close>: \<open>str\<close> of a list, tuple, dict or float, which only error texts
    and notes use.
\<close>

record pylib =
  sha256_hexdigest :: "string \<Rightarrow> string"
  fromisoformat_utc :: "string \<Rightarrow> int option"
  json_loads :: "string \<Rightarrow> pyval option"
  float_repr :: "pyfloat \<Rightarrow> string"
  container_str :: "pyval \<Rightarrow> string"

text \<open>\<open>str(v)\<close>.\<close>

definition py_str :: "pylib \<Rightarrow> pyval \<Rightarrow> string" where
  "py_str L v =
     (case v of PStr s \<Rightarrow> s | PInt i \<Rightarrow> show_int i | PNone \<Rightarrow> ''None''
      | PBool b \<Rightarrow> (if b then ''True'' else ''False'') | _ \<Rightarrow> container_str L v)"

text \<open>What \<open>hashlib\<close> documents of a SHA-256 hex digest: 64 lower-case hexadecimal digits.\<close>

definition is_hex :: "char \<Rightarrow> bool" where
  "is_hex c = (let n = (of_char c :: nat) in 48 \<le> n \<and> n \<le> 57 \<or> 97 \<le> n \<and> n \<le> 102)"

definition digest_contract :: "pylib \<Rightarrow> bool" where
  "digest_contract L \<longleftrightarrow> (\<forall>s. length (sha256_hexdigest L s) = 64 \<and> list_all is_hex (sha256_hexdigest L s))"

lemma is_hex_not_space: "is_hex c \<Longrightarrow> \<not> is_space c"
  by (auto simp: is_hex_def is_space_def Let_def)

section \<open>Canonical JSON\<close>

definition hex_digit :: "nat \<Rightarrow> char" where
  "hex_digit d = (if d < 10 then char_of (48 + d) else char_of (87 + d))"

definition json_char :: "char \<Rightarrow> string" where
  "json_char c = (let n = (of_char c :: nat) in
     if n = 34 then [char_of (92 :: nat), char_of (34 :: nat)]
     else if n = 92 then [char_of (92 :: nat), char_of (92 :: nat)]
     else if n = 10 then char_of (92 :: nat) # ''n''
     else if n = 13 then char_of (92 :: nat) # ''r''
     else if n = 9 then char_of (92 :: nat) # ''t''
     else if n = 12 then char_of (92 :: nat) # ''f''
     else if n = 8 then char_of (92 :: nat) # ''b''
     else if n < 32 then char_of (92 :: nat) # ''u00'' @ [hex_digit (n div 16), hex_digit (n mod 16)]
     else [c])"

definition json_str :: "string \<Rightarrow> string" where
  "json_str s = char_of (34 :: nat) # concat (map json_char s) @ [char_of (34 :: nat)]"

fun join :: "string \<Rightarrow> string list \<Rightarrow> string" where
  "join sep [] = []"
| "join sep [x] = x"
| "join sep (x # y # xs) = x @ sep @ join sep (y # xs)"

text \<open>\<open>json.dumps(v, ensure_ascii=False, separators=(",", ":"), sort_keys=True)\<close>.\<close>

fun json_dumps :: "pylib \<Rightarrow> pyval \<Rightarrow> string" where
  "json_dumps L PNone = ''null''"
| "json_dumps L (PBool b) = (if b then ''true'' else ''false'')"
| "json_dumps L (PInt i) = show_int i"
| "json_dumps L (PFloat f) =
     (case f of NotANumber \<Rightarrow> ''NaN''
      | Infinity neg \<Rightarrow> (if neg then ''-Infinity'' else ''Infinity'')
      | _ \<Rightarrow> float_repr L f)"
| "json_dumps L (PStr s) = json_str s"
| "json_dumps L (PList vs) = ''['' @ join '','' (map (json_dumps L) vs) @ '']''"
| "json_dumps L (PTuple vs) = ''['' @ join '','' (map (json_dumps L) vs) @ '']''"
| "json_dumps L (PDict kvs) =
     ''{'' @ join '','' (map (\<lambda>(k, s). json_str k @ '':'' @ s)
       (sort_key fst (map (\<lambda>(k, v). (k, json_dumps L v)) kvs))) @ ''}''"

text \<open>
  \<open>json.dumps(list, separators=(",", ":"))\<close> of a list of strings, where non-ASCII characters
  are escaped.
\<close>

definition json_char_ascii :: "char \<Rightarrow> string" where
  "json_char_ascii c = (let n = (of_char c :: nat) in
     if n < 128 then json_char c
     else char_of (92 :: nat) # ''u00'' @ [hex_digit (n div 16), hex_digit (n mod 16)])"

definition json_list_ascii :: "string list \<Rightarrow> string" where
  "json_list_ascii xs = ''['' @ join '','' (map (\<lambda>s. char_of (34 :: nat) #
     concat (map json_char_ascii s) @ [char_of (34 :: nat)]) xs) @ '']''"

text \<open>The order in which a dict was built does not show in its canonical form.\<close>

lemma sort_key_fst_perm:
  assumes "set xs = set ys" and "distinct (map fst xs)" and "distinct (map fst ys)"
  shows "sort_key fst xs = sort_key fst (ys :: ('k::linorder \<times> 'v) list)"
proof (rule map_sorted_distinct_set_unique [where f = fst])
  show "inj_on fst (set (sort_key fst xs) \<union> set (sort_key fst ys))"
    using assms by (simp add: distinct_map)
  have perm: "distinct (map fst (sort_key fst zs))" if "distinct (map fst zs)"
    for zs :: "('k \<times> 'v) list"
    using that by (simp add: distinct_map)
  show "distinct (map fst (sort_key fst xs))" "distinct (map fst (sort_key fst ys))"
    using perm assms by blast+
qed (use assms in simp_all)

lemma json_dumps_dict_order:
  assumes "set d = set d'" and "dict_ok d" and "dict_ok d'"
  shows "json_dumps L (PDict d) = json_dumps L (PDict d')"
proof -
  have fsts: "fst \<circ> (\<lambda>(k, v). (k, json_dumps L v)) = fst" by auto
  have "sort_key fst (map (\<lambda>(k, v). (k, json_dumps L v)) d) =
      sort_key fst (map (\<lambda>(k, v). (k, json_dumps L v)) d')"
    using assms by (intro sort_key_fst_perm) (simp_all add: fsts dict_ok_def)
  then show ?thesis by simp
qed

text \<open>The canonical text of a dict whose keys are listed in order.\<close>

lemma json_dumps_sorted:
  assumes "set d = set d'" "dict_ok d" "dict_ok d'" "sorted (map fst d')"
  shows "json_dumps L (PDict d) = ''{'' @ join '','' (map (\<lambda>(k, v). json_str k @ '':'' @ json_dumps L v) d') @ ''}''"
proof -
  let ?kv = "map (\<lambda>(k, v). (k, json_dumps L v)) d'"
  have "map fst ?kv = map fst d'" by (simp add: comp_def case_prod_beta)
  then have "sort_key fst ?kv = ?kv" using assms(4) by (metis sort_key_id_if_sorted)
  then have "json_dumps L (PDict d') = ''{'' @ join '','' (map (\<lambda>(k, v). json_str k @ '':'' @ json_dumps L v) d') @ ''}''"
    by (simp add: comp_def case_prod_unfold)
  then show ?thesis using json_dumps_dict_order [OF assms(1-3)] by simp
qed

section \<open>The size of canonical texts\<close>

lemma length_json_char: "length (json_char c) \<le> 6"
  by (simp add: json_char_def Let_def)

lemma length_json_str: "length (json_str s) \<le> 6 * length s + 2"
proof -
  have "length (concat (map json_char s)) \<le> 6 * length s"
  proof (induction s)
    case (Cons c s)
    then show ?case using length_json_char [of c] by simp
  qed simp
  then show ?thesis by (simp add: json_str_def)
qed

lemma length_show_nat: "n < 10 ^ Suc k \<Longrightarrow> length (show_nat n) \<le> Suc k"
proof (induction k arbitrary: n)
  case 0
  then show ?case by (simp add: show_nat.simps)
next
  case (Suc k)
  then have "n div 10 < 10 ^ Suc k" by (simp only: less_mult_imp_div_less power_Suc2)
  then show ?case using Suc.IH [of "n div 10"] by (subst show_nat.simps) simp
qed

lemma length_join: "xs \<noteq> [] \<Longrightarrow> length (join sep xs) = sum_list (map length xs) + (length xs - 1) * length sep"
  by (induction sep xs rule: join.induct) auto

lemma sum_list_sort_key: "sum_list (map f (sort_key k xs)) = sum_list (map f xs)" for f :: "'a \<Rightarrow> nat"
proof (induction xs)
  case (Cons x xs)
  have ins: "sum_list (map f (insort_key k x ys)) = f x + sum_list (map f ys)" for ys
    by (induction ys) auto
  show ?case using Cons ins by simp
qed simp

lemma length_json_dict:
  assumes "kvs \<noteq> []"
  shows "length (json_dumps L (PDict kvs)) =
    2 + (length kvs - 1) + sum_list (map (\<lambda>(k, v). length (json_str k) + 1 + length (json_dumps L v)) kvs)"
proof -
  let ?items = "map (\<lambda>(k, v). (k, json_dumps L v)) kvs"
  have "sort_key fst ?items \<noteq> []" using assms by (metis length_0_conv length_map length_sort)
  then have "length (join '','' (map (\<lambda>(k, s). json_str k @ '':'' @ s) (sort_key fst ?items))) =
      sum_list (map (\<lambda>(k, s). length (json_str k) + 1 + length s) (sort_key fst ?items)) + (length kvs - 1)"
    by (simp add: length_join comp_def case_prod_unfold)
  also have "sum_list (map (\<lambda>(k, s). length (json_str k) + 1 + length s) (sort_key fst ?items)) =
      sum_list (map (\<lambda>(k, v). length (json_str k) + 1 + length (json_dumps L v)) kvs)"
    unfolding sum_list_sort_key by (simp add: comp_def case_prod_unfold)
  finally show ?thesis by simp
qed

section \<open>UTF-8\<close>

text \<open>\<open>s.encode("utf-8")\<close>, on code points below 256.\<close>

definition utf8_char :: "char \<Rightarrow> string" where
  "utf8_char c = (let n = (of_char c :: nat) in
     if n < 128 then [c] else [char_of (192 + n div 64), char_of (128 + n mod 64)])"

definition utf8_encode :: "string \<Rightarrow> string" where
  "utf8_encode s = concat (map utf8_char s)"

lemma length_utf8_encode: "length s \<le> length (utf8_encode s)"
proof (induction s)
  case (Cons c s)
  have "1 \<le> length (utf8_char c)" by (simp add: utf8_char_def Let_def)
  then show ?case using Cons by (simp add: utf8_encode_def)
qed simp

lemma length_utf8: "length (utf8_encode s) \<le> 2 * length s"
proof (induction s)
  case (Cons c s)
  have "length (utf8_char c) \<le> 2" by (simp add: utf8_char_def Let_def)
  then show ?case using Cons by (simp add: utf8_encode_def)
qed (simp add: utf8_encode_def)

text \<open>A decoder for the encoding of the code points below 256.\<close>

fun narrow_utf8_decode :: "string \<Rightarrow> string option" where
  "narrow_utf8_decode [] = Some []"
| "narrow_utf8_decode (c # s) =
     (if (of_char c :: nat) < 128 then map_option (Cons c) (narrow_utf8_decode s)
      else (case s of
          [] \<Rightarrow> None
        | d # s' \<Rightarrow> map_option (Cons (char_of (((of_char c :: nat) - 192) * 64 + ((of_char d :: nat) - 128)))) (narrow_utf8_decode s')))"

lemma narrow_utf8 [simp]: "narrow_utf8_decode (utf8_encode s) = Some s"
proof -
  have "narrow_utf8_decode (utf8_char c @ s) = map_option (Cons c) (narrow_utf8_decode s)" for c s
  proof (cases "(of_char c :: nat) < 128")
    case False
    define n :: nat where "n = of_char c"
    have n: "128 \<le> n" "n < 256" using False by (simp_all add: n_def)
    then have "(192 + n div 64) mod 256 = 192 + n div 64" "(128 + n mod 64) mod 256 = 128 + n mod 64" by auto
    moreover have "n div 64 * 64 + n mod 64 = n" by simp
    moreover have "char_of n = c" by (simp add: n_def)
    ultimately show ?thesis using n by (simp add: utf8_char_def Let_def n_def [symmetric] of_char_of)
  qed (simp add: utf8_char_def)
  then show ?thesis
    by (induction s) (simp_all add: utf8_encode_def)
qed

end
