(* ===== verification/Timestamps.thy ===== *)
theory Timestamps
  imports PyValues
begin

text \<open>
  UTC timestamps. An instant is the number of microseconds since 0001-01-01 00:00 UTC, the
  origin of \<open>datetime\<close>. The calendar follows \<open>datetime\<close>'s own day arithmetic; the texts
  are those of \<open>_utc_now_iso\<close> (control store, six fraction digits) and \<open>_format_utc_z\<close>
  (scheduler, whole seconds). The main results are that both texts order like the instants
  they stand for, which is what the lexicographic comparisons of the program rest on, and
  that a parser for exactly these texts exists (the instance of the parsing contract). Both are
  written with \<open>strftime\<close>, which does not pad the year; the order and the parsing are shown for the
  years 1000 to 9999, \<open>text_range\<close>, where that makes no difference.
\<close>

type_synonym instant = int

section \<open>The proleptic Gregorian calendar\<close>

definition is_leap :: "int \<Rightarrow> bool" where
  "is_leap y = (y mod 4 = 0 \<and> (y mod 100 \<noteq> 0 \<or> y mod 400 = 0))"

definition days_before_year :: "int \<Rightarrow> int" where
  "days_before_year y =
     (y - 1) * 365 + (y - 1) div 4 - (y - 1) div 100 + (y - 1) div 400"

definition month_lengths :: "int \<Rightarrow> int list" where
  "month_lengths y =
     [31, if is_leap y then 29 else 28, 31, 30, 31, 30, 31, 31, 30, 31, 30, 31]"

definition year_of_day :: "int \<Rightarrow> int" where
  "year_of_day n =
     (let n400 = n div 146097; r = n mod 146097;
          n100 = r div 36524; r = r mod 36524;
          n4 = r div 1461; r = r mod 1461;
          n1 = r div 365;
          y = 400 * n400 + 100 * n100 + 4 * n4 + n1
      in if n1 = 4 \<or> n100 = 4 then y else y + 1)"

fun month_walk :: "int list \<Rightarrow> int \<Rightarrow> int \<Rightarrow> int \<times> int" where
  "month_walk [] m n = (m, n + 1)"
| "month_walk (l # ls) m n = (if n < l then (m, n + 1) else month_walk ls (m + 1) (n - l))"

text \<open>Year, month and day of a day number (0 is 0001-01-01).\<close>

definition civil :: "int \<Rightarrow> int \<times> int \<times> int" where
  "civil n = (let y = year_of_day n;
                  (m, d) = month_walk (month_lengths y) 1 (n - days_before_year y)
              in (y, m, d))"

definition us_per_day :: int where
  "us_per_day = 86400000000"

text \<open>The last instant of year 9999, and the first of year 1000 (four-digit years).\<close>

definition max_instant :: instant where
  "max_instant = 315537897599999999"

definition min_text_instant :: instant where
  "min_text_instant = 31525372800000000"

definition text_range :: "instant set" where
  "text_range = {min_text_instant..max_instant}"

section \<open>Texts\<close>

fun pad :: "nat \<Rightarrow> nat \<Rightarrow> string" where
  "pad 0 n = []"
| "pad (Suc w) n = pad w (n div 10) @ [digit (n mod 10)]"

definition date_fields :: "instant \<Rightarrow> int list" where
  "date_fields t = (case civil (t div us_per_day) of (y, m, d) \<Rightarrow> [y, m, d])"

definition time_fields :: "instant \<Rightarrow> int list" where
  "time_fields t =
     (let r = t mod us_per_day in
      [r div 3600000000, r div 60000000 mod 60, r div 1000000 mod 60])"

definition micro_field :: "instant \<Rightarrow> int" where
  "micro_field t = t mod 1000000"

fun render :: "(nat \<times> string) list \<Rightarrow> int list \<Rightarrow> string" where
  "render ((w, sep) # ws) (v # vs) = pad w (nat v) @ sep @ render ws vs"
| "render _ _ = []"

definition layout_s :: "(nat \<times> string) list" where
  "layout_s = [(4, ''-''), (2, ''-''), (2, ''T''), (2, '':''), (2, '':''), (2, [])]"

definition layout_us :: "(nat \<times> string) list" where
  "layout_us = [(4, ''-''), (2, ''-''), (2, ''T''), (2, '':''), (2, '':''), (2, ''.''), (6, [])]"

definition iso_s :: "instant \<Rightarrow> string" where
  "iso_s t = render layout_s (date_fields t @ time_fields t)"

definition iso_us :: "instant \<Rightarrow> string" where
  "iso_us t = render layout_us (date_fields t @ time_fields t @ [micro_field t])"

text \<open>
  \<open>isoformat\<close> pads the year to four digits, \<open>strftime\<close> with \<open>%Y\<close> does not (glibc). The two agree from
  the year 1000 on.
\<close>

definition unpad_year :: "instant \<Rightarrow> string \<Rightarrow> string" where
  "unpad_year t s = show_int (hd (date_fields t)) @ drop 4 s"

text \<open>\<open>value.replace(microsecond=0).isoformat().replace("+00:00", "Z")\<close> on a UTC datetime.\<close>

definition iso_z :: "instant \<Rightarrow> string" where
  "iso_z t = iso_s t @ ''Z''"

text \<open>\<open>when.strftime("%Y-%m-%dT%H:%M:%S.%fZ")\<close> on a UTC datetime.\<close>

definition utc_now_iso :: "instant \<Rightarrow> string" where
  "utc_now_iso t = unpad_year t (iso_us t) @ ''Z''"

text \<open>\<open>value.astimezone(UTC).strftime("%Y-%m-%dT%H:%M:%SZ")\<close>.\<close>

definition format_utc_z :: "instant \<Rightarrow> string" where
  "format_utc_z t = unpad_year t (iso_s t) @ ''Z''"

definition parse_utc_iso :: "pylib \<Rightarrow> string \<Rightarrow> instant result" where
  "parse_utc_iso L v =
     (if \<not> ends_with ''Z'' v then Inl ValueError
      else case fromisoformat_utc L (butlast v @ ''+00:00'') of
             None \<Rightarrow> Inl ValueError
           | Some t \<Rightarrow> Inr t)"

definition parse_utc_z :: "pylib \<Rightarrow> string \<Rightarrow> instant result" where
  "parse_utc_z L v =
     (if \<not> ends_with ''Z'' v then Inl ValueError
      else case fromisoformat_utc L (butlast v @ ''+00:00'') of
             None \<Rightarrow> Inl ValueError
           | Some t \<Rightarrow> Inr t)"

text \<open>\<open>when + timedelta(seconds=seconds)\<close>, which raises outside the years 1 to 9999.\<close>

definition shift_seconds :: "instant \<Rightarrow> int \<Rightarrow> instant result" where
  "shift_seconds t secs =
     (let t' = t + secs * 1000000 in
      if 0 \<le> t' \<and> t' \<le> max_instant then Inr t' else Inl OverflowError)"

section \<open>The calendar is monotone\<close>

lemma div_step:
  assumes "0 < (k::int)"
  shows "y div k = (y - 1) div k + of_bool (y mod k = 0)"
proof -
  define q where "q = (y - 1) div k"
  define r where "r = (y - 1) mod k"
  have y: "y = k * q + (r + 1)" and r: "0 \<le> r" "r < k"
    using assms by (simp_all add: q_def r_def)
  show ?thesis
  proof (cases "r + 1 = k")
    case True
    then have "y = (q + 1) * k" using y by (simp add: algebra_simps)
    then have "y div k = q + 1" "y mod k = 0" using assms by simp_all
    then show ?thesis unfolding q_def [symmetric] by simp
  next
    case False
    then have "y div k = q" "y mod k = r + 1"
      using r y by (auto intro: int_div_pos_eq int_mod_pos_eq)
    then show ?thesis using r unfolding q_def [symmetric] by simp
  qed
qed

lemma mod_100_4: "(y::int) mod 100 = 0 \<Longrightarrow> y mod 4 = 0"
  unfolding mod_eq_0_iff_dvd by (rule dvd_trans [of 4 100]) simp_all

lemma mod_400_100: "(y::int) mod 400 = 0 \<Longrightarrow> y mod 100 = 0"
  unfolding mod_eq_0_iff_dvd by (rule dvd_trans [of 100 400]) simp_all

lemma days_before_year_parts:
  assumes "0 \<le> b" "b \<le> 3" "0 \<le> c" "c \<le> 24" "0 \<le> d" "d \<le> (3::int)"
  shows "days_before_year (400 * a + 100 * b + 4 * c + d + 1) =
     146097 * a + 36524 * b + 1461 * c + 365 * d"
proof -
  let ?p = "400 * a + 100 * b + 4 * c + d"
  have "?p div 4 = 100 * a + 25 * b + c"
    using assms by (intro int_div_pos_eq [where r = d]) simp_all
  moreover have "?p div 100 = 4 * a + b"
    using assms by (intro int_div_pos_eq [where r = "4 * c + d"]) simp_all
  moreover have "?p div 400 = a"
    using assms by (intro int_div_pos_eq [where r = "100 * b + 4 * c + d"]) simp_all
  ultimately show ?thesis by (simp add: days_before_year_def)
qed

lemma leap_day_count:
  "(C \<longrightarrow> B) \<Longrightarrow> (B \<longrightarrow> A) \<Longrightarrow>
     (of_bool A - of_bool B + of_bool C :: int) = of_bool (A \<and> (\<not> B \<or> C))"
  by (cases A; cases B; cases C) simp_all

lemma days_before_year_next:
  "days_before_year (y + 1) = days_before_year y + sum_list (month_lengths y)"
proof -
  have "days_before_year (y + 1) = days_before_year y + 365 +
      (of_bool (y mod 4 = 0) - of_bool (y mod 100 = 0) + of_bool (y mod 400 = 0))"
    unfolding days_before_year_def add_diff_cancel_right'
    by (subst (1) div_step [of 4], simp, subst (1) div_step [of 100], simp,
        subst (1) div_step [of 400], simp, simp)
  also have "(of_bool (y mod 4 = 0) - of_bool (y mod 100 = 0) + of_bool (y mod 400 = 0) :: int) =
      of_bool (is_leap y)"
    unfolding is_leap_def by (intro leap_day_count impI) (erule mod_400_100, erule mod_100_4)
  also have "days_before_year y + 365 + of_bool (is_leap y) =
      days_before_year y + sum_list (month_lengths y)"
    by (simp add: month_lengths_def)
  finally show ?thesis .
qed

lemma days_before_year_Suc: "days_before_year y + 365 \<le> days_before_year (y + 1)"
  by (simp add: days_before_year_next month_lengths_def)

lemma days_before_year_mono: "y \<le> y' \<Longrightarrow> days_before_year y \<le> days_before_year y'"
proof (induction y' rule: int_ge_induct)
  case base
  then show ?case by simp
next
  case (step i)
  then show ?case using days_before_year_Suc [of i] by linarith
qed

lemma year_of_day_bounds:
  "days_before_year (year_of_day n) \<le> n \<and> n < days_before_year (year_of_day n + 1)"
proof -
  define a where "a = n div 146097"
  define r where "r = n mod 146097"
  define b where "b = r div 36524"
  define s where "s = r mod 36524"
  define c where "c = s div 1461"
  define u where "u = s mod 1461"
  define d where "d = u div 365"
  have n: "n = 146097 * a + 36524 * b + 1461 * c + u" "0 \<le> u" "u < 1461" "0 \<le> s" "s < 36524"
      "s = 1461 * c + u" "0 \<le> r" "r < 146097" "r = 36524 * b + s"
  proof -
    have "n = 146097 * a + r" "r = 36524 * b + s" "s = 1461 * c + u"
      by (simp_all add: a_def r_def b_def s_def c_def u_def)
    then show "n = 146097 * a + 36524 * b + 1461 * c + u" "s = 1461 * c + u" "r = 36524 * b + s"
      by simp_all
  qed (simp_all add: r_def s_def u_def)
  have ud: "365 * d \<le> u" "u < 365 * d + 365"
    using mult_div_mod_eq [of 365 u] pos_mod_bound [of 365 u] pos_mod_sign [of 365 u]
    unfolding d_def by linarith+
  have bnd: "0 \<le> b" "b \<le> 4" "0 \<le> c" "c \<le> 24" "0 \<le> d" "d \<le> 4"
    using n ud by linarith+
  have y: "year_of_day n = (let y = 400 * a + 100 * b + 4 * c + d in
      if d = 4 \<or> b = 4 then y else y + 1)"
    by (simp add: year_of_day_def Let_def a_def r_def b_def s_def c_def u_def d_def)
  consider (b4) "b = 4" | (d4) "b < 4" "d = 4" | (reg) "b < 4" "d < 4"
    using bnd by linarith
  then show ?thesis
  proof cases
    case b4
    with n have "s = 0" by linarith
    with n bnd have z: "c = 0" "u = 0" by linarith+
    then have "d = 0" using ud by linarith
    have "days_before_year (400 * a + 100 * 3 + 4 * 24 + 3 + 1) =
        146097 * a + 36524 * 3 + 1461 * 24 + 365 * 3"
      by (rule days_before_year_parts) simp_all
    moreover have "days_before_year (400 * (a + 1) + 100 * 0 + 4 * 0 + 0 + 1) =
        146097 * (a + 1) + 36524 * 0 + 1461 * 0 + 365 * 0"
      by (rule days_before_year_parts) simp_all
    moreover have "year_of_day n = 400 * a + 400" using b4 z \<open>d = 0\<close> by (simp add: y)
    moreover have "n = 146097 * a + 146096" using n b4 z by simp
    ultimately show ?thesis by (simp add: add.commute)
  next
    case d4
    then have u: "u = 1460" using ud n by linarith
    then have c: "c \<le> 23" using n by linarith
    have "days_before_year (400 * a + 100 * b + 4 * c + 3 + 1) =
        146097 * a + 36524 * b + 1461 * c + 365 * 3"
      using bnd d4 c by (intro days_before_year_parts) simp_all
    moreover have "days_before_year (400 * a + 100 * b + 4 * (c + 1) + 0 + 1) =
        146097 * a + 36524 * b + 1461 * (c + 1) + 365 * 0"
      using bnd d4 c by (intro days_before_year_parts) simp_all
    moreover have "year_of_day n = 400 * a + 100 * b + 4 * c + 3 + 1" using d4 by (simp add: y)
    ultimately show ?thesis using u n by (simp add: algebra_simps)
  next
    case reg
    have "days_before_year (400 * a + 100 * b + 4 * c + d + 1) =
        146097 * a + 36524 * b + 1461 * c + 365 * d"
      using bnd reg by (intro days_before_year_parts) simp_all
    moreover have "days_before_year (400 * a + 100 * b + 4 * c + d + 1) + 365 \<le>
        days_before_year (400 * a + 100 * b + 4 * c + d + 1 + 1)"
      by (rule days_before_year_Suc)
    moreover have yv: "year_of_day n = 400 * a + 100 * b + 4 * c + d + 1" using reg by (simp add: y)
    ultimately show ?thesis using ud n(1) unfolding yv by (intro conjI) linarith+
  qed
qed

lemma year_of_day_mono: "n \<le> n' \<Longrightarrow> year_of_day n \<le> year_of_day n'"
proof (rule ccontr)
  assume "n \<le> n'" "\<not> year_of_day n \<le> year_of_day n'"
  then have "days_before_year (year_of_day n' + 1) \<le> days_before_year (year_of_day n)"
    by (intro days_before_year_mono) simp
  then show False
    using year_of_day_bounds [of n] year_of_day_bounds [of n'] \<open>n \<le> n'\<close> by linarith
qed

lemma month_walk_ge: "m \<le> fst (month_walk ls m n)"
proof (induction ls m n rule: month_walk.induct)
  case (2 l ls m n)
  then show ?case by (cases "n < l") auto
qed simp

lemma month_walk_less:
  "n < n' \<Longrightarrow> fst (month_walk ls m n) < fst (month_walk ls m n') \<or>
     fst (month_walk ls m n) = fst (month_walk ls m n') \<and>
     snd (month_walk ls m n) < snd (month_walk ls m n')"
proof (induction ls arbitrary: m n n')
  case (Cons l ls)
  show ?case
  proof (cases "n < l \<and> \<not> n' < l")
    case True
    then show ?thesis using month_walk_ge [of "m + 1" ls "n' - l"] by auto
  next
    case False
    then show ?thesis using Cons.prems Cons.IH [of "n - l" "n' - l" "m + 1"] by auto
  qed
qed simp

lemma month_walk_correct:
  assumes "0 \<le> n" "n < sum_list ls" "month_walk ls m n = (m', d)"
  shows "m \<le> m' \<and> nat (m' - m) < length ls \<and> 1 \<le> d \<and> d \<le> ls ! nat (m' - m) \<and>
     n = sum_list (take (nat (m' - m)) ls) + d - 1"
  using assms
proof (induction ls arbitrary: m n)
  case (Cons l ls)
  show ?case
  proof (cases "n < l")
    case True
    with Cons.prems show ?thesis by auto
  next
    case False
    have "m + 1 \<le> m' \<and> nat (m' - (m + 1)) < length ls \<and> 1 \<le> d \<and>
        d \<le> ls ! nat (m' - (m + 1)) \<and>
        n - l = sum_list (take (nat (m' - (m + 1))) ls) + d - 1"
      using Cons.prems False by (intro Cons.IH) auto
    moreover have "nat (m' - m) = Suc (nat (m' - (m + 1)))" if "m + 1 \<le> m'"
      using that by simp
    ultimately show ?thesis by auto
  qed
qed simp

section \<open>Texts order like instants\<close>

lemma less_append_iff:
  "length xs = length ys \<Longrightarrow> xs @ us < ys @ vs \<longleftrightarrow> xs < ys \<or> xs = ys \<and> us < vs"
  for xs ys us vs :: "'a::linorder list"
proof (induction xs ys rule: list_induct2)
  case (Cons x xs y ys)
  then show ?case by (cases "x = y") simp_all
qed simp

lemma div_mod_less_nat_iff:
  "0 < (c::nat) \<Longrightarrow> a < b \<longleftrightarrow> a div c < b div c \<or> a div c = b div c \<and> a mod c < b mod c"
proof -
  assume c: "0 < c"
  have le: "x < y" if "x div c < y div c" for x y
    using that c div_le_mono [of y x c] by (meson linorder_not_less)
  show ?thesis
  proof (cases "a div c = b div c")
    case True
    define k where "k = c * (b div c)"
    have "a = k + a mod c" unfolding k_def True [symmetric] by simp
    moreover have "b = k + b mod c" unfolding k_def by simp
    ultimately have "a < b \<longleftrightarrow> a mod c < b mod c" by (metis add_less_cancel_left)
    with True show ?thesis by simp
  next
    case False
    then have "a div c < b div c \<or> b div c < a div c" by linarith
    then show ?thesis using le [of a b] le [of b a] by fastforce
  qed
qed

lemma div_mod_less_iff:
  "0 < (c::int) \<Longrightarrow> a < b \<longleftrightarrow> a div c < b div c \<or> a div c = b div c \<and> a mod c < b mod c"
proof -
  assume c: "0 < c"
  have le: "x < y" if "x div c < y div c" for x y
    using that c zdiv_mono1 [of y x c] by (meson linorder_not_less)
  show ?thesis
  proof (cases "a div c = b div c")
    case True
    define k where "k = c * (b div c)"
    have "a = k + a mod c" unfolding k_def True [symmetric] by simp
    moreover have "b = k + b mod c" unfolding k_def by simp
    ultimately have "a < b \<longleftrightarrow> a mod c < b mod c" by (metis add_less_cancel_left)
    with True show ?thesis by simp
  next
    case False
    then have "a div c < b div c \<or> b div c < a div c" by linarith
    then show ?thesis using le [of a b] le [of b a] by fastforce
  qed
qed

lemma length_pad [simp]: "length (pad w n) = w"
  by (induction w arbitrary: n) auto

lemma pad_less_iff: "a < 10 ^ w \<Longrightarrow> b < 10 ^ w \<Longrightarrow> pad w a < pad w b \<longleftrightarrow> a < b"
proof (induction w arbitrary: a b)
  case (Suc w)
  have IH: "pad w (x div 10) < pad w (y div 10) \<longleftrightarrow> x div 10 < y div 10"
    if "x < 10 ^ Suc w" "y < 10 ^ Suc w" for x y
    using that by (intro Suc.IH) (simp_all only: less_mult_imp_div_less power_Suc2)
  have eq: "pad w (a div 10) = pad w (b div 10) \<longleftrightarrow> a div 10 = b div 10"
  proof (cases "a div 10" "b div 10" rule: linorder_cases)
    case less
    with IH [of a b] Suc.prems have "pad w (a div 10) < pad w (b div 10)" by simp
    with less show ?thesis by simp
  next
    case greater
    with IH [of b a] Suc.prems have "pad w (b div 10) < pad w (a div 10)" by simp
    with greater show ?thesis by simp
  qed simp
  have "pad (Suc w) a < pad (Suc w) b \<longleftrightarrow>
      a div 10 < b div 10 \<or> a div 10 = b div 10 \<and> a mod 10 < b mod 10"
    unfolding pad.simps
    by (subst less_append_iff) (simp_all add: IH [OF Suc.prems] eq digit_less)
  then show ?case using div_mod_less_nat_iff [of 10 a b] by simp
qed simp

lemma pad_eq_iff: "a < 10 ^ w \<Longrightarrow> b < 10 ^ w \<Longrightarrow> pad w a = pad w b \<longleftrightarrow> a = b"
  using pad_less_iff [of a w b] pad_less_iff [of b w a]
  by (cases a b rule: linorder_cases) auto

definition fits :: "(nat \<times> string) list \<Rightarrow> int list \<Rightarrow> bool" where
  "fits ws vs = list_all2 (\<lambda>(w, sep) v. 0 \<le> v \<and> v < 10 ^ w) ws vs"

lemma render_less_iff:
  "fits ws xs \<Longrightarrow> fits ws ys \<Longrightarrow> render ws xs < render ws ys \<longleftrightarrow> xs < ys"
proof (induction ws arbitrary: xs ys)
  case Nil
  then show ?case by (simp add: fits_def)
next
  case (Cons wsep ws)
  obtain w sep where wsep: "wsep = (w, sep)" by (cases wsep)
  from Cons.prems obtain x xs' y ys' where xy: "xs = x # xs'" "ys = y # ys'"
      "fits ws xs'" "fits ws ys'" "0 \<le> x" "x < 10 ^ w" "0 \<le> y" "y < 10 ^ w"
    by (auto simp: fits_def list_all2_Cons1 wsep)
  have "nat x < 10 ^ w" "nat y < 10 ^ w" using xy by (simp_all add: nat_less_iff)
  then show ?case
    using xy Cons.IH [OF xy(3,4)] by (auto simp: wsep less_append_iff pad_less_iff pad_eq_iff)
qed

lemma civil_less:
  assumes "n < n'" and "civil n = (y, m, d)" and "civil n' = (y', m', d')"
  shows "y < y' \<or> y = y' \<and> (m < m' \<or> m = m' \<and> d < d')"
proof -
  from assms have y: "y = year_of_day n" "y' = year_of_day n'"
    and md: "month_walk (month_lengths y) 1 (n - days_before_year y) = (m, d)"
      "month_walk (month_lengths y') 1 (n' - days_before_year y') = (m', d')"
    by (auto simp: civil_def Let_def split: prod.splits)
  show ?thesis
  proof (cases "y = y'")
    case True
    then show ?thesis
      using md month_walk_less [of "n - days_before_year y" "n' - days_before_year y"
          "month_lengths y" 1] \<open>n < n'\<close> by simp
  next
    case False
    then show ?thesis using year_of_day_mono [of n n'] \<open>n < n'\<close> y by simp
  qed
qed

lemma hms_less:
  assumes "a < (b::int)"
  shows "[a div 60 div 60, a div 60 mod 60, a mod 60] < [b div 60 div 60, b div 60 mod 60, b mod 60]"
proof -
  have "a div 60 < b div 60 \<or> a div 60 = b div 60 \<and> a mod 60 < b mod 60"
    using assms div_mod_less_iff [of 60 a b] by simp
  moreover have "a div 60 < b div 60 \<longleftrightarrow>
      a div 60 div 60 < b div 60 div 60 \<or>
      a div 60 div 60 = b div 60 div 60 \<and> a div 60 mod 60 < b div 60 mod 60"
    by (rule div_mod_less_iff) simp
  ultimately show ?thesis by (simp only: Cons_less_Cons simp_thms) metis
qed

lemma time_fields_less:
  assumes "s mod us_per_day < t mod us_per_day"
  shows "time_fields s @ [micro_field s] < time_fields t @ [micro_field t]"
proof -
  define a where "a = s mod us_per_day"
  define b where "b = t mod us_per_day"
  have ms: "micro_field s = a mod 1000000" "micro_field t = b mod 1000000"
    unfolding micro_field_def a_def b_def us_per_day_def
    by (simp_all add: mod_mod_cancel)
  have hms: "time_fields s = [a div 1000000 div 60 div 60, a div 1000000 div 60 mod 60,
        a div 1000000 mod 60]"
      "time_fields t = [b div 1000000 div 60 div 60, b div 1000000 div 60 mod 60,
        b div 1000000 mod 60]"
    by (simp_all add: time_fields_def Let_def a_def b_def flip: zdiv_zmult2_eq)
  have "a < b" using assms by (simp add: a_def b_def)
  then consider "a div 1000000 < b div 1000000"
    | "a div 1000000 = b div 1000000" "a mod 1000000 < b mod 1000000"
    using div_mod_less_iff [of 1000000 a b] by auto
  then show ?thesis
  proof cases
    case 1
    then have "time_fields s < time_fields t" unfolding hms by (rule hms_less)
    moreover have "length (time_fields s) = length (time_fields t)" by (simp add: hms)
    ultimately show ?thesis by (simp only: less_append_iff simp_thms)
  next
    case 2
    then show ?thesis by (simp add: ms hms)
  qed
qed

lemma date_fields_less:
  assumes "s div us_per_day < t div us_per_day"
  shows "date_fields s < date_fields t"
proof -
  obtain y m d where c: "civil (s div us_per_day) = (y, m, d)" by (cases "civil (s div us_per_day)")
  obtain y' m' d' where c': "civil (t div us_per_day) = (y', m', d')"
    by (cases "civil (t div us_per_day)")
  show ?thesis using civil_less [OF assms c c'] by (auto simp: date_fields_def c c')
qed

lemma length_date_fields [simp]: "length (date_fields t) = 3"
  by (simp add: date_fields_def split: prod.splits)

lemma length_time_fields [simp]: "length (time_fields t) = 3"
  by (simp add: time_fields_def Let_def)

lemma fields_less:
  assumes "s < t"
  shows "date_fields s @ time_fields s @ [micro_field s] <
    date_fields t @ time_fields t @ [micro_field t]"
proof (cases "s div us_per_day = t div us_per_day")
  case True
  then have "s mod us_per_day < t mod us_per_day" "date_fields s = date_fields t"
    using div_mod_less_iff [of us_per_day s t] assms
    by (simp_all add: us_per_day_def date_fields_def)
  then show ?thesis using time_fields_less [of s t] by (simp add: less_append_iff)
next
  case False
  then have "s div us_per_day < t div us_per_day"
    using div_mod_less_iff [of us_per_day s t] assms by (simp add: us_per_day_def)
  then show ?thesis by (simp add: less_append_iff date_fields_less)
qed

text \<open>The fields of an instant in the text range have the widths of the layouts.\<close>

lemma sum_month_lengths: "sum_list (month_lengths y) \<le> 366" "365 \<le> sum_list (month_lengths y)"
  by (simp_all add: month_lengths_def)

lemma civil_valid:
  assumes "civil n = (y, m, d)"
  shows "y = year_of_day n" "1 \<le> m" "m \<le> 12" "1 \<le> d" "d \<le> month_lengths y ! nat (m - 1)"
    "n = days_before_year y + sum_list (take (nat (m - 1)) (month_lengths y)) + d - 1"
proof -
  from assms have y: "y = year_of_day n"
    and md: "month_walk (month_lengths y) 1 (n - days_before_year y) = (m, d)"
    by (auto simp: civil_def Let_def split: prod.splits)
  have r: "0 \<le> n - days_before_year y" "n - days_before_year y < sum_list (month_lengths y)"
    using year_of_day_bounds [of n] days_before_year_next [of y] y by auto
  have len: "length (month_lengths y) = 12" by (simp add: month_lengths_def)
  note w = month_walk_correct [OF r md]
  show "y = year_of_day n" by (rule y)
  show "1 \<le> m" "1 \<le> d" "d \<le> month_lengths y ! nat (m - 1)" using w by auto
  show "m \<le> 12" using w len by linarith
  show "n = days_before_year y + sum_list (take (nat (m - 1)) (month_lengths y)) + d - 1"
    using w by linarith
qed

lemma month_length_le: "i < 12 \<Longrightarrow> month_lengths y ! i \<le> 31"
  by (auto simp: month_lengths_def less_Suc_eq numeral_eq_Suc nth_Cons')

lemma year_in_range:
  assumes "t \<in> text_range"
  shows "1000 \<le> year_of_day (t div us_per_day)" "year_of_day (t div us_per_day) \<le> 9999"
proof -
  from assms have "min_text_instant div us_per_day \<le> t div us_per_day"
      "t div us_per_day \<le> max_instant div us_per_day"
    by (auto simp: text_range_def us_per_day_def intro: zdiv_mono1)
  moreover have "year_of_day (min_text_instant div us_per_day) = 1000"
      "year_of_day (max_instant div us_per_day) = 9999"
    by (simp_all add: year_of_day_def min_text_instant_def max_instant_def us_per_day_def)
  ultimately show "1000 \<le> year_of_day (t div us_per_day)" "year_of_day (t div us_per_day) \<le> 9999"
    by (metis year_of_day_mono)+
qed

lemma time_fields_range:
  assumes "time_fields t = [h, mi, sec]"
  shows "0 \<le> h \<and> h < 24 \<and> 0 \<le> mi \<and> mi < 60 \<and> 0 \<le> sec \<and> sec < 60"
proof -
  define r where "r = t mod us_per_day"
  have r: "0 \<le> r" "r \<le> 86399999999"
    using pos_mod_bound [of us_per_day t] pos_mod_sign [of us_per_day t]
    by (simp_all add: r_def us_per_day_def)
  have e: "h = r div 3600000000" "mi = r div 60000000 mod 60" "sec = r div 1000000 mod 60"
    using assms by (simp_all add: time_fields_def Let_def r_def)
  have "r div 3600000000 \<le> 86399999999 div 3600000000" by (rule zdiv_mono1) (use r in simp_all)
  then have "h < 24" by (simp add: e(1))
  moreover have "0 \<le> h" unfolding e(1) using r by (simp add: pos_imp_zdiv_nonneg_iff)
  moreover have "0 \<le> x mod 60" "x mod 60 < (60::int)" for x by simp_all
  ultimately show ?thesis unfolding e(2,3) by blast
qed

lemma fits_fields:
  assumes "t \<in> text_range"
  shows "fits layout_s (date_fields t @ time_fields t)"
    "fits layout_us (date_fields t @ time_fields t @ [micro_field t])"
proof -
  obtain y m d where c: "civil (t div us_per_day) = (y, m, d)" by (cases "civil (t div us_per_day)")
  obtain h mi sec where tf: "time_fields t = [h, mi, sec]"
    by (simp add: time_fields_def Let_def)
  have "1000 \<le> y" "y \<le> 9999" using year_in_range [OF assms] civil_valid(1) [OF c] by auto
  moreover have m: "1 \<le> m" "m \<le> 12" "1 \<le> d" using civil_valid [OF c] by blast+
  moreover have "nat (m - 1) < 12" using m by simp
  then have "d \<le> 31" using order_trans [OF civil_valid(5) [OF c] month_length_le] by simp
  moreover note time_fields_range [OF tf]
  moreover have "0 \<le> micro_field t" "micro_field t < 1000000" by (simp_all add: micro_field_def)
  ultimately show "fits layout_s (date_fields t @ time_fields t)"
      "fits layout_us (date_fields t @ time_fields t @ [micro_field t])"
    by (simp_all add: fits_def layout_s_def layout_us_def date_fields_def c tf)
qed

lemma pad_show_nat: "1000 \<le> n \<Longrightarrow> n < 10000 \<Longrightarrow> pad 4 n = show_nat n"
proof -
  assume n: "1000 \<le> n" "n < 10000"
  then have d: "\<not> n div 10 < 10" "\<not> n div 100 < 10" "n div 1000 < 10" by linarith+
  have "show_nat n = show_nat (n div 10) @ [digit (n mod 10)]" using n by (subst show_nat.simps) simp
  moreover have "show_nat (n div 10) = show_nat (n div 100) @ [digit (n div 10 mod 10)]"
    using d by (subst show_nat.simps) (simp add: div_mult2_eq [symmetric])
  moreover have "show_nat (n div 100) = show_nat (n div 1000) @ [digit (n div 100 mod 10)]"
    using d by (subst show_nat.simps) (simp add: div_mult2_eq [symmetric])
  moreover have "show_nat (n div 1000) = [digit (n div 1000 mod 10)]"
    using d by (subst show_nat.simps) simp
  moreover have "(4::nat) = Suc (Suc (Suc (Suc 0)))" by simp
  then have "pad 4 n = pad (Suc (Suc (Suc (Suc 0)))) n" by (simp only:)
  ultimately show ?thesis by (simp add: div_mult2_eq [symmetric])
qed

lemma unpad_year_id:
  assumes "t \<in> text_range"
  shows "unpad_year t (iso_us t) = iso_us t" "unpad_year t (iso_s t) = iso_s t"
proof -
  obtain y m d where c: "civil (t div us_per_day) = (y, m, d)" by (cases "civil (t div us_per_day)")
  have "1000 \<le> y" "y \<le> 9999" using year_in_range [OF assms] civil_valid(1) [OF c] by auto
  then have "show_int y = pad 4 (nat y)" using pad_show_nat [of "nat y"] by (simp add: show_int_def)
  then show "unpad_year t (iso_us t) = iso_us t" "unpad_year t (iso_s t) = iso_s t"
    by (simp_all add: unpad_year_def date_fields_def c iso_us_def iso_s_def layout_us_def layout_s_def)
qed

lemma utc_now_iso_padded: "t \<in> text_range \<Longrightarrow> utc_now_iso t = iso_us t @ ''Z''"
  by (simp add: utc_now_iso_def unpad_year_id)

lemma format_utc_z_padded: "t \<in> text_range \<Longrightarrow> format_utc_z t = iso_z t"
  by (simp add: format_utc_z_def iso_z_def unpad_year_id)

text \<open>
  A text clock: a rendering of instants whose lexicographic order is the order of time. The
  clients of the two formats use the facts proved here once.
\<close>

locale text_clock =
  fixes fmt :: "instant \<Rightarrow> string"
    and dom :: "instant set"
  assumes fmt_less: "s \<in> dom \<Longrightarrow> t \<in> dom \<Longrightarrow> s < t \<Longrightarrow> fmt s < fmt t"
begin

lemma fmt_less_iff: "s \<in> dom \<Longrightarrow> t \<in> dom \<Longrightarrow> fmt s < fmt t \<longleftrightarrow> s < t"
  using fmt_less [of s t] fmt_less [of t s] by (cases s t rule: linorder_cases) auto

lemma fmt_le_iff: "s \<in> dom \<Longrightarrow> t \<in> dom \<Longrightarrow> fmt s \<le> fmt t \<longleftrightarrow> s \<le> t"
  using fmt_less_iff [of t s] by (simp add: linorder_not_less [symmetric])

lemma fmt_eq_iff: "s \<in> dom \<Longrightarrow> t \<in> dom \<Longrightarrow> fmt s = fmt t \<longleftrightarrow> s = t"
  using fmt_less [of s t] fmt_less [of t s] by (cases s t rule: linorder_cases) auto

lemma inj_fmt: "inj_on fmt dom"
  by (simp add: inj_on_def fmt_eq_iff)

end

lemma iso_us_less:
  assumes "s \<in> text_range" "t \<in> text_range" "s < t"
  shows "iso_us s < iso_us t"
  using fits_fields(2) [OF assms(1)] fits_fields(2) [OF assms(2)] fields_less [OF assms(3)]
  by (simp add: iso_us_def render_less_iff)

lemma length_render: "fits ws vs \<Longrightarrow> length (render ws vs) = sum_list (map (\<lambda>(w, sep). w + length sep) ws)"
proof (induction ws arbitrary: vs)
  case (Cons wsep ws)
  then show ?case by (cases wsep) (auto simp: fits_def list_all2_Cons1)
qed (simp add: fits_def)

interpretation us_clock: text_clock utc_now_iso text_range
proof
  fix s t assume a: "s \<in> text_range" "t \<in> text_range" "s < t"
  have "length (iso_us s) = length (iso_us t)"
    using fits_fields(2) a by (simp add: iso_us_def length_render)
  then show "utc_now_iso s < utc_now_iso t"
    using iso_us_less [OF a] a by (simp add: utc_now_iso_padded less_append_iff)
qed

definition whole_seconds :: "instant set" where
  "whole_seconds = {t \<in> text_range. t mod 1000000 = 0}"

interpretation sec_clock: text_clock iso_z whole_seconds
proof
  fix s t assume a: "s \<in> whole_seconds" "t \<in> whole_seconds" "s < t"
  then have r: "s \<in> text_range" "t \<in> text_range" and m: "micro_field s = micro_field t"
    by (simp_all add: whole_seconds_def micro_field_def)
  have "date_fields s @ time_fields s < date_fields t @ time_fields t"
    using fields_less [OF a(3)] m less_append_iff [of "date_fields s @ time_fields s"
        "date_fields t @ time_fields t" "[micro_field s]" "[micro_field t]"] by simp
  then have "iso_s s < iso_s t"
    using fits_fields(1) [OF r(1)] fits_fields(1) [OF r(2)] by (simp add: iso_s_def render_less_iff)
  moreover have "length (iso_s s) = length (iso_s t)"
    using fits_fields(1) r by (simp add: iso_s_def length_render)
  ultimately show "iso_z s < iso_z t"
    by (simp add: iso_z_def less_append_iff)
qed

lemma whole_seconds_range: "t \<in> whole_seconds \<Longrightarrow> t \<in> text_range"
  by (simp add: whole_seconds_def)

interpretation slot_clock: text_clock format_utc_z whole_seconds
  by standard (simp add: format_utc_z_padded whole_seconds_range sec_clock.fmt_less)

section \<open>Parsing back\<close>

text \<open>
  The contract of \<open>datetime.fromisoformat\<close> the program relies on: it reads back the two
  texts the program writes. The documentation of \<open>fromisoformat\<close> promises this for every
  text \<open>isoformat\<close> can produce; nothing else about it is assumed.
\<close>

definition iso_contract :: "pylib \<Rightarrow> bool" where
  "iso_contract L \<longleftrightarrow>
     (\<forall>t \<in> text_range. fromisoformat_utc L (iso_us t @ ''+00:00'') = Some t) \<and>
     (\<forall>t \<in> whole_seconds. fromisoformat_utc L (iso_s t @ ''+00:00'') = Some t)"

lemma parse_utc_now_iso:
  "iso_contract L \<Longrightarrow> t \<in> text_range \<Longrightarrow> parse_utc_iso L (utc_now_iso t) = Inr t"
  by (simp add: parse_utc_iso_def utc_now_iso_padded iso_contract_def)

lemma parse_format_utc_z:
  assumes "iso_contract L" "t \<in> whole_seconds"
  shows "parse_utc_z L (format_utc_z t) = Inr t" "parse_utc_iso L (format_utc_z t) = Inr t"
  using assms by (simp_all add: parse_utc_z_def parse_utc_iso_def format_utc_z_padded iso_z_def whole_seconds_range iso_contract_def)

text \<open>A parser for exactly these two texts, the concrete instance of the contract.\<close>

definition num :: "string \<Rightarrow> nat" where
  "num s = foldl (\<lambda>a c. 10 * a + digit_val c) 0 s"

fun unrender :: "(nat \<times> string) list \<Rightarrow> string \<Rightarrow> int list option" where
  "unrender [] s = (if s = [] then Some [] else None)"
| "unrender ((w, sep) # ws) s =
     (if w \<le> length s \<and> list_all is_digit (take w s) \<and> starts_with sep (drop w s)
      then map_option (Cons (int (num (take w s)))) (unrender ws (drop (length sep) (drop w s)))
      else None)"

fun instant_of :: "int list \<Rightarrow> instant option" where
  "instant_of [y, m, d, h, mi, sec, us] =
     (if 1 \<le> y \<and> y \<le> 9999 \<and> 1 \<le> m \<and> m \<le> 12 \<and> 1 \<le> d \<and> d \<le> month_lengths y ! nat (m - 1) \<and>
         h < 24 \<and> mi < 60 \<and> sec < 60
      then Some ((days_before_year y + sum_list (take (nat (m - 1)) (month_lengths y)) + d - 1)
             * us_per_day + h * 3600000000 + mi * 60000000 + sec * 1000000 + us)
      else None)"
| "instant_of _ = None"

definition strict_fromiso :: "string \<Rightarrow> instant option" where
  "strict_fromiso s =
     (if \<not> ends_with ''+00:00'' s then None
      else let b = take (length s - 6) s in
        case unrender layout_us b of
          Some vs \<Rightarrow> instant_of vs
        | None \<Rightarrow> (case unrender layout_s b of Some vs \<Rightarrow> instant_of (vs @ [0]) | None \<Rightarrow> None))"

lemma show_nat_digits: "list_all is_digit (show_nat n)"
  by (induction n rule: show_nat.induct) (subst show_nat.simps, simp)

lemma num_snoc: "num (s @ [c]) = 10 * num s + digit_val c"
  by (simp add: num_def)

lemma num_show_nat: "num (show_nat n) = n"
  by (induction n rule: show_nat.induct) (subst show_nat.simps, simp add: num_snoc, simp add: num_def)

lemma show_nat_inject: "show_nat m = show_nat n \<longleftrightarrow> m = n"
  by (metis num_show_nat)

lemma num_pad: "n < 10 ^ w \<Longrightarrow> num (pad w n) = n"
proof (induction w arbitrary: n)
  case (Suc w)
  have "n div 10 < 10 ^ w" using Suc.prems by (simp only: less_mult_imp_div_less power_Suc2)
  then show ?case using Suc.IH [of "n div 10"] by (simp add: num_def)
qed (simp add: num_def)

lemma digits_pad: "list_all is_digit (pad w n)"
  by (induction w arbitrary: n) auto

lemma unrender_render: "fits ws vs \<Longrightarrow> unrender ws (render ws vs) = Some vs"
proof (induction ws arbitrary: vs)
  case (Cons wsep ws)
  obtain w sep where wsep: "wsep = (w, sep)" by (cases wsep)
  from Cons.prems obtain v vs' where v: "vs = v # vs'" "fits ws vs'" "0 \<le> v" "v < 10 ^ w"
    by (auto simp: fits_def list_all2_Cons1 wsep)
  have "nat v < 10 ^ w" using v by (simp add: nat_less_iff)
  then show ?case
    using v Cons.IH [OF v(2)] by (simp add: wsep digits_pad num_pad starts_with_def)
qed (simp add: fits_def)

lemma unrender_length:
  "unrender ws s = Some vs \<Longrightarrow> length s = sum_list (map (\<lambda>(w, sep). w + length sep) ws)"
proof (induction ws arbitrary: s vs)
  case (Cons wsep ws)
  obtain w sep where wsep: "wsep = (w, sep)" by (cases wsep)
  with Cons.prems obtain vs' where a: "w \<le> length s" "starts_with sep (drop w s)"
      "unrender ws (drop (length sep) (drop w s)) = Some vs'"
    by (auto split: if_splits)
  have "length sep \<le> length (drop w s)"
    using a(2) unfolding starts_with_def by (metis length_take min.cobounded1)
  then show ?case using Cons.IH [OF a(3)] a(1) by (simp add: wsep)
qed (simp split: if_splits)

lemma time_of_day_split:
  "r div 3600000000 * 3600000000 + r div 60000000 mod 60 * 60000000 +
     r div 1000000 mod 60 * 1000000 + r mod 1000000 = (r::int)"
proof -
  define a b c u v w where defs: "a = r div 1000000" "b = a div 60" "c = b div 60"
    "u = r mod 1000000" "v = a mod 60" "w = b mod 60"
  have "r div 60000000 = b" "r div 3600000000 = c"
    by (simp_all add: defs flip: zdiv_zmult2_eq)
  moreover have "a * 1000000 + u = r" "b * 60 + v = a" "c * 60 + w = b"
    unfolding defs by (rule div_mult_mod_eq)+
  then have "c * 3600000000 + w * 60000000 + v * 1000000 + u = r" by linarith
  ultimately show ?thesis by (simp flip: defs)
qed

lemma instant_of_fields:
  assumes "t \<in> text_range"
  shows "instant_of (date_fields t @ time_fields t @ [micro_field t]) = Some t"
proof -
  define r where "r = t mod us_per_day"
  obtain y m d where c: "civil (t div us_per_day) = (y, m, d)" by (cases "civil (t div us_per_day)")
  obtain h mi sec where tf: "time_fields t = [h, mi, sec]"
    by (simp add: time_fields_def Let_def)
  have y: "1000 \<le> y" "y \<le> 9999" using year_in_range [OF assms] civil_valid(1) [OF c] by auto
  have hms: "h = r div 3600000000" "mi = r div 60000000 mod 60" "sec = r div 1000000 mod 60"
      "micro_field t = r mod 1000000"
    using tf by (simp_all add: time_fields_def Let_def r_def micro_field_def us_per_day_def
        mod_mod_cancel)
  have "t = (t div us_per_day) * us_per_day + r" by (simp add: r_def)
  also have "r = h * 3600000000 + mi * 60000000 + sec * 1000000 + micro_field t"
    using time_of_day_split [of r] by (simp add: hms)
  finally have t: "(t div us_per_day) * us_per_day +
      h * 3600000000 + mi * 60000000 + sec * 1000000 + micro_field t = t"
    by (simp only: add.assoc [symmetric])
  have "date_fields t = [y, m, d]" by (simp add: date_fields_def c)
  moreover have "1 \<le> y" using y by simp
  ultimately show ?thesis
    using civil_valid(2-5) [OF c] y time_fields_range [OF tf] t [unfolded civil_valid(6) [OF c]]
    by (simp only: tf append.simps instant_of.simps simp_thms if_True)
qed

lemma strict_fromiso_us: "t \<in> text_range \<Longrightarrow> strict_fromiso (iso_us t @ ''+00:00'') = Some t"
  using fits_fields(2) [of t] instant_of_fields [of t]
  by (simp add: strict_fromiso_def iso_us_def unrender_render)

lemma strict_fromiso_s:
  assumes "t \<in> whole_seconds"
  shows "strict_fromiso (iso_s t @ ''+00:00'') = Some t"
proof -
  from assms have t: "t \<in> text_range" and m: "micro_field t = 0"
    by (simp_all add: whole_seconds_def micro_field_def)
  have "length (iso_s t) = 19"
    using fits_fields(1) [OF t] by (simp add: iso_s_def length_render layout_s_def)
  moreover have "sum_list (map (\<lambda>(w, sep). w + length sep) layout_us) = 26"
    by (simp add: layout_us_def)
  ultimately have "unrender layout_us (iso_s t) = None"
    using unrender_length [of layout_us "iso_s t"] by (cases "unrender layout_us (iso_s t)") auto
  moreover have "unrender layout_s (iso_s t) = Some (date_fields t @ time_fields t)"
    using fits_fields(1) [OF t] by (simp add: iso_s_def unrender_render)
  moreover have "instant_of ((date_fields t @ time_fields t) @ [0]) = Some t"
    using instant_of_fields [OF t] m by simp
  ultimately show ?thesis by (simp only: strict_fromiso_def ends_with_append not_True_eq_False if_False Let_def
        length_append list.size take_append option.case) simp
qed

lemma iso_contract_strict: "fromisoformat_utc L = strict_fromiso \<Longrightarrow> iso_contract L"
  by (simp add: iso_contract_def strict_fromiso_us strict_fromiso_s)

end
