(* ===== verification/InvestigationContract.thy ===== *)
theory InvestigationContract
  imports Timestamps
begin

text \<open>
  The pure part of \<open>news_pipeline/investigation.py\<close>: the investigation job record and its
  validation, the retry-stable identity, the queue payload and its validator. The control
  store calls the validator when it enqueues or retries an \<open>investigate\<close> task.
\<close>

definition CATEGORY_VALUES :: "string list" where
  "CATEGORY_VALUES = [''ai'', ''world'', ''audio_engineering'', ''hardware'', ''fantasy_novel'',
     ''audiovisual'', ''av_corporate'', ''our_setup'']"

definition MAX_INVESTIGATION_ROUNDS :: int where
  "MAX_INVESTIGATION_ROUNDS = 2"

definition INVESTIGATION_STATES :: "string list" where
  "INVESTIGATION_STATES = [''pending'', ''running'', ''complete'', ''failed'', ''blocked'']"

definition TERMINAL_STATES :: "string list" where
  "TERMINAL_STATES = [''complete'', ''failed'', ''blocked'']"

text \<open>
  \<open>stable_id\<close>: the parts as a JSON array, hashed, cut to \<open>length\<close> digits. A part is a
  string or \<open>None\<close> by its type here.
\<close>

definition stable_id :: "pylib \<Rightarrow> string option list \<Rightarrow> nat option \<Rightarrow> string result" where
  "stable_id L parts len =
     (if parts = [] then Inl ValueError
      else if (case len of None \<Rightarrow> False | Some n \<Rightarrow> \<not> (1 \<le> n \<and> n \<le> 64)) then Inl ValueError
      else let payload = json_dumps L (PTuple
                 (map (\<lambda>p. case p of None \<Rightarrow> PNone | Some s \<Rightarrow> PStr s) parts));
               digest = sha256_hexdigest L payload
           in Inr (case len of None \<Rightarrow> digest | Some n \<Rightarrow> take n digest))"

definition investigation_id :: "pylib \<Rightarrow> string \<Rightarrow> string \<Rightarrow> string \<Rightarrow> string" where
  "investigation_id L candidate lane plan =
     (case stable_id L [Some ''investigation'', Some candidate, Some lane, Some plan] (Some 64) of
        Inr s \<Rightarrow> s | Inl e \<Rightarrow> [])"

lemma investigation_id_stable_id:
  "stable_id L [Some ''investigation'', Some c, Some l, Some p] (Some 64) =
     Inr (investigation_id L c l p)"
  by (simp add: investigation_id_def stable_id_def Let_def)

record investigation_job =
  j_investigation_id :: string
  j_candidate_id :: string
  j_feed_lane_id :: string
  j_query_plan_id :: string
  j_category :: string
  j_round_number :: int
  j_state :: string
  j_terminal_state :: "string option"
  j_targeted_query_ids :: "string list"
  j_created_at :: string
  j_updated_at :: string

text \<open>\<open>InvestigationJob.__post_init__\<close>, which raises \<open>ValueError\<close> or accepts the job.\<close>

definition job_post_init :: "investigation_job \<Rightarrow> unit result" where
  "job_post_init j =
     (if list_ex blank [j_investigation_id j, j_candidate_id j, j_feed_lane_id j,
           j_query_plan_id j, j_category j, j_created_at j, j_updated_at j] then Inl ValueError
      else if j_category j \<notin> set CATEGORY_VALUES then Inl ValueError
      else if \<not> (0 \<le> j_round_number j \<and> j_round_number j < MAX_INVESTIGATION_ROUNDS)
        then Inl ValueError
      else if j_state j \<notin> set INVESTIGATION_STATES then Inl ValueError
      else if j_state j \<in> set TERMINAL_STATES \<and> j_terminal_state j \<noteq> Some (j_state j)
        then Inl ValueError
      else if j_state j \<notin> set TERMINAL_STATES \<and> j_terminal_state j \<noteq> None then Inl ValueError
      else if list_ex blank (j_targeted_query_ids j) then Inl ValueError
      else if \<not> distinct (j_targeted_query_ids j) then Inl ValueError
      else Inr ())"

definition job_ok :: "investigation_job \<Rightarrow> bool" where
  "job_ok j = (job_post_init j = Inr ())"

definition make_investigation_job ::
  "pylib \<Rightarrow> string \<Rightarrow> string \<Rightarrow> string \<Rightarrow> string \<Rightarrow> string \<Rightarrow> int \<Rightarrow> string \<Rightarrow> string option \<Rightarrow>
     string list \<Rightarrow> investigation_job result" where
  "make_investigation_job L candidate lane plan category evaluated_at rnd st terminal targeted =
     (let j = \<lparr>j_investigation_id = investigation_id L candidate lane plan,
               j_candidate_id = candidate, j_feed_lane_id = lane, j_query_plan_id = plan,
               j_category = category, j_round_number = rnd, j_state = st,
               j_terminal_state = terminal, j_targeted_query_ids = targeted,
               j_created_at = evaluated_at, j_updated_at = evaluated_at\<rparr>
      in bind_result (job_post_init j) (\<lambda>_. Inr j))"

definition investigation_payload :: "investigation_job \<Rightarrow> pydict" where
  "investigation_payload j =
     [(''investigation_id'', PStr (j_investigation_id j)),
      (''candidate_id'', PStr (j_candidate_id j)),
      (''feed_lane_id'', PStr (j_feed_lane_id j)),
      (''query_plan_id'', PStr (j_query_plan_id j)),
      (''category'', PStr (j_category j)),
      (''round_number'', PInt (j_round_number j))]"

definition payload_text_fields :: "string list" where
  "payload_text_fields =
     [''investigation_id'', ''candidate_id'', ''feed_lane_id'', ''query_plan_id'', ''category'']"

definition payload_fields :: "string list" where
  "payload_fields = payload_text_fields @ [''round_number'']"

definition text_of :: "pydict \<Rightarrow> string \<Rightarrow> string" where
  "text_of d k = (case map_of d k of Some (PStr s) \<Rightarrow> s | _ \<Rightarrow> [])"

definition int_of :: "pydict \<Rightarrow> string \<Rightarrow> int" where
  "int_of d k = (case map_of d k of Some (PInt i) \<Rightarrow> i | _ \<Rightarrow> 0)"

definition validate_investigation_payload :: "pylib \<Rightarrow> pydict \<Rightarrow> pydict result" where
  "validate_investigation_payload L d =
     (if \<exists>k \<in> set (map fst d). k \<notin> set payload_fields then Inl ValueError
      else if \<exists>k \<in> set payload_fields. map_of d k = None then Inl ValueError
      else if \<exists>k \<in> set payload_text_fields.
                (case map_of d k of Some (PStr s) \<Rightarrow> blank s | _ \<Rightarrow> True) then Inl ValueError
      else if text_of d ''category'' \<notin> set CATEGORY_VALUES then Inl ValueError
      else if (case map_of d ''round_number'' of
                 Some (PInt n) \<Rightarrow> \<not> (0 \<le> n \<and> n < MAX_INVESTIGATION_ROUNDS) | _ \<Rightarrow> True)
        then Inl ValueError
      else if text_of d ''investigation_id'' \<noteq>
                investigation_id L (text_of d ''candidate_id'') (text_of d ''feed_lane_id'')
                  (text_of d ''query_plan_id'') then Inl ValueError
      else Inr d)"

section \<open>Facts\<close>

lemma validate_investigation_payload_same:
  "validate_investigation_payload L d = Inr d' \<Longrightarrow> d' = d"
  by (auto simp: validate_investigation_payload_def split: if_splits)

lemma validated_round:
  "validate_investigation_payload L d = Inr d' \<Longrightarrow>
     map_of d ''round_number'' = Some (PInt (int_of d ''round_number'')) \<and>
     0 \<le> int_of d ''round_number'' \<and> int_of d ''round_number'' < 2"
  by (auto simp: validate_investigation_payload_def int_of_def MAX_INVESTIGATION_ROUNDS_def
      split: if_splits option.splits pyval.splits)

lemma validated_id:
  "validate_investigation_payload L d = Inr d' \<Longrightarrow>
     text_of d ''investigation_id'' =
       investigation_id L (text_of d ''candidate_id'') (text_of d ''feed_lane_id'')
         (text_of d ''query_plan_id'') \<and> \<not> blank (text_of d ''investigation_id'')"
  by (auto simp: validate_investigation_payload_def payload_text_fields_def text_of_def
      split: if_splits option.splits pyval.splits)

text \<open>
  Every job the constructor accepts with its own identity gives a queue payload the
  validator accepts unchanged, so what \<open>enqueue_candidate_investigations\<close> builds is never
  refused by the control store's own check.
\<close>

theorem investigation_payload_accepted:
  assumes "make_investigation_job L candidate lane plan category when rnd st terminal targeted = Inr j"
  shows "validate_investigation_payload L (investigation_payload j) = Inr (investigation_payload j)"
  using assms
  by (auto simp: make_investigation_job_def Let_def job_post_init_def validate_investigation_payload_def
      investigation_payload_def payload_fields_def payload_text_fields_def text_of_def
      split: if_splits)

end
