(* ===== verification/ControlStore.thy ===== *)
theory ControlStore
  imports InvestigationContract "HOL-Library.Product_Lexorder"
begin

text \<open>
  \<open>news_container/control_store.py\<close>: the runtime-control database the scheduler and the
  workers share. Tasks, lease claims and run outcomes are tables of an explicit store; each
  public operation of the module is one definition. The clock is an argument: where the code
  reads \<open>datetime.now(UTC)\<close> when \<open>now\<close> is omitted, the model takes the instant as given.
\<close>

section \<open>The store\<close>

definition ALLOWED_KINDS :: "string list" where
  "ALLOWED_KINDS = [''ingest'', ''investigate'', ''process'', ''validate'', ''report'']"

definition DELIVERY_KIND_FORBIDDEN :: string where
  "DELIVERY_KIND_FORBIDDEN = ''delivery''"

datatype task_state = Pending | Claimed | Completed | Failed

record task_row =
  t_task_id :: string
  t_kind :: string
  t_due_slot_utc :: string
  t_job_key :: string
  t_payload_json :: string
  t_state :: task_state
  t_generation :: int
  t_created_at :: string

record claim_row =
  c_task_id :: string
  c_owner :: string
  c_generation :: int
  c_attempt :: int
  c_expires_at_utc :: string
  c_claimed_at_utc :: string

record run_row =
  r_run_id :: int
  r_task_id :: string
  r_owner :: string
  r_generation :: int
  r_started_at_utc :: string
  r_finished_at_utc :: string
  r_status :: task_state
  r_exit_code :: "int option"
  r_stdout_hash :: "string option"
  r_error_class :: "string option"
  r_error_message :: "string option"
  r_canary_root :: "string option"

text \<open>
  \<open>db_run_seq\<close> is the AUTOINCREMENT counter of \<open>runs\<close>. \<open>db_schema_meta\<close> lists the rows of
  \<open>schema_meta\<close>; \<open>db_has_job_key\<close> says whether the \<open>tasks\<close> table already has the
  \<open>job_key\<close> column (a version-1 file does not, and its rows' \<open>t_job_key\<close> means nothing).
\<close>

record control_db =
  db_tasks :: "task_row list"
  db_claims :: "claim_row list"
  db_runs :: "run_row list"
  db_run_seq :: int
  db_schema_meta :: "(int \<times> string) list"
  db_has_job_key :: bool

definition find_task :: "string \<Rightarrow> control_db \<Rightarrow> task_row option" where
  "find_task tid db = tbl_find t_task_id tid (db_tasks db)"

definition find_claim :: "string \<Rightarrow> control_db \<Rightarrow> claim_row option" where
  "find_claim tid db = tbl_find c_task_id tid (db_claims db)"

definition task_slot :: "task_row \<Rightarrow> string \<times> string \<times> string" where
  "task_slot t = (t_kind t, t_due_slot_utc t, t_job_key t)"

text \<open>The SQL writes, with the constraints of the schema.\<close>

definition insert_task :: "task_row \<Rightarrow> (control_db, unit) tx" where
  "insert_task t db =
     (if find_task (t_task_id t) db \<noteq> None \<or> task_slot t \<in> set (map task_slot (db_tasks db))
      then (Inl IntegrityError, db)
      else (Inr (), db\<lparr>db_tasks := tbl_insert t (db_tasks db)\<rparr>))"

definition insert_claim :: "claim_row \<Rightarrow> (control_db, unit) tx" where
  "insert_claim c db =
     (if find_claim (c_task_id c) db \<noteq> None \<or> find_task (c_task_id c) db = None
      then (Inl IntegrityError, db)
      else (Inr (), db\<lparr>db_claims := tbl_insert c (db_claims db)\<rparr>))"

definition insert_run :: "run_row \<Rightarrow> (control_db, unit) tx" where
  "insert_run r db =
     (if find_task (r_task_id r) db = None then (Inl IntegrityError, db)
      else (Inr (), db\<lparr>db_runs := db_runs db @ [r\<lparr>r_run_id := db_run_seq db + 1\<rparr>],
                       db_run_seq := db_run_seq db + 1\<rparr>))"

definition update_task :: "string \<Rightarrow> (task_row \<Rightarrow> task_row) \<Rightarrow> control_db \<Rightarrow> control_db" where
  "update_task tid f db = db\<lparr>db_tasks := tbl_update t_task_id tid f (db_tasks db)\<rparr>"

definition update_claim :: "string \<Rightarrow> (claim_row \<Rightarrow> claim_row) \<Rightarrow> control_db \<Rightarrow> control_db" where
  "update_claim tid f db = db\<lparr>db_claims := tbl_update c_task_id tid f (db_claims db)\<rparr>"

definition delete_claim :: "string \<Rightarrow> control_db \<Rightarrow> control_db" where
  "delete_claim tid db = db\<lparr>db_claims := tbl_delete c_task_id tid (db_claims db)\<rparr>"

section \<open>Schema bootstrap\<close>

definition SCHEMA_VERSION :: int where
  "SCHEMA_VERSION = 2"

definition empty_file :: control_db where
  "empty_file = \<lparr>db_tasks = [], db_claims = [], db_runs = [], db_run_seq = 0,
     db_schema_meta = [], db_has_job_key = True\<rparr>"

definition schema_version :: "control_db \<Rightarrow> int" where
  "schema_version db =
     (if db_schema_meta db = [] then 0 else Max (set (map fst (db_schema_meta db))))"

definition upgrade_v1_to_v2 :: "instant \<Rightarrow> (control_db, unit) tx" where
  "upgrade_v1_to_v2 now db =
     (if db_has_job_key db then
        (Inr (), if SCHEMA_VERSION \<in> set (map fst (db_schema_meta db)) then db
                 else db\<lparr>db_schema_meta := db_schema_meta db @ [(SCHEMA_VERSION, utc_now_iso now)]\<rparr>)
      else immediate_tx (\<lambda>db.
        let rebuilt = map (\<lambda>t. t\<lparr>t_job_key := []\<rparr>) (db_tasks db) in
        if \<not> distinct (map task_slot rebuilt) \<or> SCHEMA_VERSION \<in> set (map fst (db_schema_meta db))
        then (Inl IntegrityError, db)
        else (Inr (), db\<lparr>db_tasks := rebuilt, db_has_job_key := True,
                db_schema_meta := db_schema_meta db @ [(SCHEMA_VERSION, utc_now_iso now)]\<rparr>)) db)"

definition bootstrap_schema :: "instant \<Rightarrow> (control_db, unit) tx" where
  "bootstrap_schema now db =
     (if db_schema_meta db = [] then
        (Inr (), db\<lparr>db_schema_meta := [(SCHEMA_VERSION, utc_now_iso now)]\<rparr>)
      else if schema_version db = 1 then upgrade_v1_to_v2 now db
      else if schema_version db > SCHEMA_VERSION then (Inl ControlStoreError, db)
      else (Inr (), db))"

section \<open>Validation\<close>

definition validate_kind :: "string \<Rightarrow> string result" where
  "validate_kind kind =
     (if kind \<in> {DELIVERY_KIND_FORBIDDEN} then Inl DeliveryForbiddenError
      else if kind \<notin> set ALLOWED_KINDS then Inl UnknownKindError
      else Inr kind)"

definition delivery_text :: "string \<Rightarrow> bool" where
  "delivery_text s = (let lowered = lower s in
     contains ''delivery'' lowered \<and>
     (contains ''enable_live_delivery'' lowered \<or> strip lowered = ''delivery''))"

definition delivery_entry :: "string \<Rightarrow> pyval \<Rightarrow> bool" where
  "delivery_entry key sub =
     (lower key = ''delivery'' \<or> lower key = ''enable_live_delivery'' \<and> truthy sub)"

fun scrub_delivery :: "pyval \<Rightarrow> pyval result" where
  "scrub_delivery (PStr s) =
     (if delivery_text s then Inl DeliveryForbiddenError else Inr (PStr s))"
| "scrub_delivery (PDict kvs) =
     (case map_result (\<lambda>(key, sub).
             if delivery_entry key sub then Inl DeliveryForbiddenError
             else case scrub_delivery sub of Inl e \<Rightarrow> Inl e | Inr sub' \<Rightarrow> Inr (key, sub')) kvs of
        Inl e \<Rightarrow> Inl e | Inr cleaned \<Rightarrow> Inr (PDict cleaned))"
| "scrub_delivery (PList vs) =
     (case map_result scrub_delivery vs of Inl e \<Rightarrow> Inl e | Inr ws \<Rightarrow> Inr (PList ws))"
| "scrub_delivery (PTuple vs) =
     (case map_result scrub_delivery vs of Inl e \<Rightarrow> Inl e | Inr ws \<Rightarrow> Inr (PTuple ws))"
| "scrub_delivery v = Inr v"

definition validate_payload :: "pydict \<Rightarrow> pydict result" where
  "validate_payload payload =
     (case scrub_delivery (PDict payload) of
        Inl e \<Rightarrow> Inl e | Inr (PDict d) \<Rightarrow> Inr d | Inr v \<Rightarrow> Inl TypeError)"

definition validate_due_slot :: "pylib \<Rightarrow> string \<Rightarrow> string result" where
  "validate_due_slot L slot =
     (if \<not> ends_with ''Z'' slot then Inl ValueError
      else bind_result (parse_utc_iso L slot) (\<lambda>_. Inr slot))"

definition deterministic_task_id :: "pylib \<Rightarrow> string \<Rightarrow> string \<Rightarrow> string option \<Rightarrow> string result" where
  "deterministic_task_id L kind slot job_key =
     bind_result (validate_kind kind) (\<lambda>_.
     bind_result (validate_due_slot L slot) (\<lambda>_.
       if (case job_key of None \<Rightarrow> False | Some k \<Rightarrow> blank k) then Inl ValueError
       else let material = (case job_key of None \<Rightarrow> kind @ ''|'' @ slot
                            | Some k \<Rightarrow> kind @ ''|'' @ slot @ ''|'' @ k)
            in Inr (take 16 (sha256_hexdigest L material))))"

section \<open>Enqueue and selection\<close>

text \<open>The checks of \<open>enqueue\<close> before its transaction: payload, job key and task id.\<close>

definition enqueue_args :: "pylib \<Rightarrow> string \<Rightarrow> string \<Rightarrow> pydict \<Rightarrow> (pydict \<times> string \<times> string) result" where
  "enqueue_args L kind slot payload =
     bind_result (validate_kind kind) (\<lambda>_.
     bind_result (validate_due_slot L slot) (\<lambda>_.
     bind_result (validate_payload payload) (\<lambda>payload.
     bind_result (if kind = ''investigate''
                  then bind_result (validate_investigation_payload L payload)
                         (\<lambda>_. Inr (text_of payload ''investigation_id''))
                  else Inr []) (\<lambda>job_key.
     bind_result (deterministic_task_id L kind slot
                    (if job_key = [] then None else Some job_key)) (\<lambda>tid.
       Inr (payload, job_key, tid))))))"

definition enqueue :: "pylib \<Rightarrow> string \<Rightarrow> string \<Rightarrow> pydict \<Rightarrow> instant \<Rightarrow> (control_db, string \<times> bool) tx" where
  "enqueue L kind slot payload now db =
     (case enqueue_args L kind slot payload of
        Inl e \<Rightarrow> (Inl e, db)
      | Inr (payload, job_key, tid) \<Rightarrow>
          let payload_json = json_dumps L (PDict payload); ts = utc_now_iso now in
          immediate_tx (\<lambda>db.
            case find_task tid db of
              Some existing \<Rightarrow>
                if t_payload_json existing \<noteq> payload_json then (Inl PayloadConflictError, db)
                else (Inr (tid, False), db)
            | None \<Rightarrow>
                (case insert_task \<lparr>t_task_id = tid, t_kind = kind, t_due_slot_utc = slot,
                        t_job_key = job_key, t_payload_json = payload_json, t_state = Pending,
                        t_generation = 0, t_created_at = ts\<rparr> db of
                   (Inl e, db') \<Rightarrow> (Inl e, db')
                 | (Inr _, db') \<Rightarrow> (Inr (tid, True), db'))) db)"

definition slot_order :: "task_row \<Rightarrow> string \<times> string" where
  "slot_order t = (t_due_slot_utc t, t_task_id t)"

text \<open>\<open>LIMIT n\<close> of SQL (none when negative) and the slice \<open>xs[:n]\<close> of Python.\<close>

definition sql_limit :: "int option \<Rightarrow> 'a list \<Rightarrow> 'a list" where
  "sql_limit limit xs =
     (case limit of None \<Rightarrow> xs | Some n \<Rightarrow> if n < 0 then xs else take (nat n) xs)"

definition slice_to :: "int option \<Rightarrow> 'a list \<Rightarrow> 'a list" where
  "slice_to limit xs =
     (case limit of None \<Rightarrow> xs
      | Some n \<Rightarrow> if 0 \<le> n then take (nat n) xs else take (nat (int (length xs) + n)) xs)"

definition pending_tasks :: "int option \<Rightarrow> control_db \<Rightarrow> task_row list" where
  "pending_tasks limit db =
     sql_limit limit (sort_key slot_order (filter (\<lambda>t. t_state t = Pending) (db_tasks db)))"

definition selectable_tasks ::
  "string \<Rightarrow> instant \<Rightarrow> int option \<Rightarrow> control_db \<Rightarrow> (task_row \<times> claim_row option) list result" where
  "selectable_tasks kind now limit db =
     bind_result (validate_kind kind) (\<lambda>_.
       let rows = map (\<lambda>t. (t, find_claim (t_task_id t) db))
                    (sort_key slot_order (filter (\<lambda>t. t_kind t = kind \<and>
                       (t_state t = Pending \<or>
                        t_state t = Claimed \<and> find_claim (t_task_id t) db \<noteq> None)) (db_tasks db)));
           cutoff = utc_now_iso now;
           eligible = filter (\<lambda>(t, c). t_state t = Pending \<or>
                        (case c of None \<Rightarrow> False | Some c \<Rightarrow> c_expires_at_utc c \<le> cutoff)) rows
       in Inr (slice_to limit eligible))"

section \<open>Leases\<close>

definition renew_claim ::
  "pylib \<Rightarrow> string \<Rightarrow> string \<Rightarrow> int \<Rightarrow> int \<Rightarrow> instant \<Rightarrow> (control_db, string) tx" where
  "renew_claim L tid owner generation ttl now db =
     (if ttl \<le> 0 then (Inl ValueError, db)
      else case shift_seconds now ttl of Inl e \<Rightarrow> (Inl e, db) | Inr later \<Rightarrow>
        let new_expiry = utc_now_iso later; ts = utc_now_iso now in
        immediate_tx (\<lambda>db.
          case find_claim tid db of None \<Rightarrow> (Inl ClaimMismatchError, db)
          | Some c \<Rightarrow>
              if c_owner c \<noteq> owner then (Inl ClaimMismatchError, db)
              else if c_generation c \<noteq> generation then (Inl ClaimMismatchError, db)
              else (case parse_utc_iso L (c_expires_at_utc c) of Inl e \<Rightarrow> (Inl e, db)
                | Inr expiry \<Rightarrow>
                    if expiry \<le> now then (Inl ClaimMismatchError, db)
                    else (Inr new_expiry, update_claim tid
                      (\<lambda>c. c\<lparr>c_expires_at_utc := new_expiry, c_claimed_at_utc := ts\<rparr>) db))) db)"

definition claim ::
  "pylib \<Rightarrow> string \<Rightarrow> string \<Rightarrow> int \<Rightarrow> instant \<Rightarrow> (control_db, int \<times> int \<times> string) tx" where
  "claim L tid owner ttl now db =
     (if ttl \<le> 0 then (Inl ValueError, db)
      else case shift_seconds now ttl of Inl e \<Rightarrow> (Inl e, db) | Inr later \<Rightarrow>
        let ts = utc_now_iso now; expires_at = utc_now_iso later in
        immediate_tx (\<lambda>db.
          case find_task tid db of None \<Rightarrow> (Inl ControlStoreError, db)
          | Some task \<Rightarrow>
            if t_state task \<notin> {Pending, Claimed} then (Inl ControlStoreError, db)
            else (case find_claim tid db of
              None \<Rightarrow>
                let new_generation = t_generation task + 1; attempt = 1 in
                (case insert_claim \<lparr>c_task_id = tid, c_owner = owner, c_generation = new_generation,
                         c_attempt = attempt, c_expires_at_utc = expires_at, c_claimed_at_utc = ts\<rparr> db of
                   (Inl e, db') \<Rightarrow> (Inl e, db')
                 | (Inr _, db') \<Rightarrow>
                     (Inr (new_generation, attempt, expires_at),
                      update_task tid (\<lambda>t. t\<lparr>t_state := Claimed, t_generation := new_generation\<rparr>) db'))
            | Some c \<Rightarrow>
                (case parse_utc_iso L (c_expires_at_utc c) of Inl e \<Rightarrow> (Inl e, db)
                 | Inr expiry \<Rightarrow>
                   if expiry \<le> now then
                     let new_generation = c_generation c + 1; attempt = c_attempt c + 1 in
                     (Inr (new_generation, attempt, expires_at),
                      update_task tid (\<lambda>t. t\<lparr>t_state := Claimed, t_generation := new_generation\<rparr>)
                        (update_claim tid (\<lambda>c. c\<lparr>c_owner := owner, c_generation := new_generation,
                           c_attempt := attempt, c_expires_at_utc := expires_at,
                           c_claimed_at_utc := ts\<rparr>) db))
                   else if c_owner c \<noteq> owner then (Inl ControlStoreError, db)
                   else (Inr (c_generation c, c_attempt c, c_expires_at_utc c), db)))) db)"

fun status_of :: "string \<Rightarrow> task_state result" where
  "status_of s = (if s = ''completed'' then Inr Completed
                  else if s = ''failed'' then Inr Failed else Inl ValueError)"

record outcome =
  o_exit_code :: "int option"
  o_stdout_hash :: "string option"
  o_error_class :: "string option"
  o_error_message :: "string option"
  o_canary_root :: "string option"

definition complete ::
  "pylib \<Rightarrow> string \<Rightarrow> string \<Rightarrow> int \<Rightarrow> string \<Rightarrow> outcome \<Rightarrow> instant \<Rightarrow> (control_db, unit) tx" where
  "complete L tid owner generation status res now db =
     (case status_of status of Inl e \<Rightarrow> (Inl e, db) | Inr st \<Rightarrow>
        let finished_at = utc_now_iso now in
        immediate_tx (\<lambda>db.
          case find_claim tid db of None \<Rightarrow> (Inl ClaimMismatchError, db)
          | Some c \<Rightarrow>
              if c_owner c \<noteq> owner then (Inl ClaimMismatchError, db)
              else if c_generation c \<noteq> generation then (Inl ClaimMismatchError, db)
              else (case parse_utc_iso L (c_expires_at_utc c) of Inl e \<Rightarrow> (Inl e, db)
                | Inr expiry \<Rightarrow>
                    if expiry \<le> now then (Inl ClaimMismatchError, db)
                    else (case insert_run \<lparr>r_run_id = 0, r_task_id = tid, r_owner = owner,
                             r_generation = generation, r_started_at_utc = finished_at,
                             r_finished_at_utc = finished_at, r_status = st,
                             r_exit_code = o_exit_code res, r_stdout_hash = o_stdout_hash res,
                             r_error_class = o_error_class res, r_error_message = o_error_message res,
                             r_canary_root = o_canary_root res\<rparr> db of
                        (Inl e, db') \<Rightarrow> (Inl e, db')
                      | (Inr _, db') \<Rightarrow>
                          (Inr (), delete_claim tid (update_task tid (\<lambda>t. t\<lparr>t_state := st\<rparr>) db'))))) db)"

definition assert_claim ::
  "pylib \<Rightarrow> string \<Rightarrow> string \<Rightarrow> int \<Rightarrow> instant \<Rightarrow> control_db \<Rightarrow> unit result" where
  "assert_claim L tid owner generation now db =
     (case find_claim tid db of None \<Rightarrow> Inl ClaimMismatchError
      | Some c \<Rightarrow>
          if c_owner c \<noteq> owner then Inl ClaimMismatchError
          else if c_generation c \<noteq> generation then Inl ClaimMismatchError
          else (case parse_utc_iso L (c_expires_at_utc c) of Inl e \<Rightarrow> Inl e
            | Inr expiry \<Rightarrow> if expiry \<le> now then Inl ClaimMismatchError else Inr ()))"

definition retry_args :: "pylib \<Rightarrow> pydict \<Rightarrow> pydict result" where
  "retry_args L payload =
     bind_result (validate_kind ''investigate'') (\<lambda>_.
     bind_result (validate_payload payload) (\<lambda>payload.
     bind_result (validate_investigation_payload L payload) (\<lambda>_. Inr payload)))"

definition retry_investigation :: "pylib \<Rightarrow> string \<Rightarrow> pydict \<Rightarrow> (control_db, unit) tx" where
  "retry_investigation L tid payload db =
     (case retry_args L payload of
        Inl e \<Rightarrow> (Inl e, db)
      | Inr payload \<Rightarrow>
          let job_key = text_of payload ''investigation_id'' in
          immediate_tx (\<lambda>db.
            case find_task tid db of None \<Rightarrow> (Inl ControlStoreError, db)
            | Some row \<Rightarrow>
              if t_kind row \<noteq> ''investigate'' then (Inl ControlStoreError, db)
              else (case deterministic_task_id L ''investigate'' (t_due_slot_utc row) (Some job_key) of
                Inl e \<Rightarrow> (Inl e, db)
              | Inr expected \<Rightarrow>
                if expected \<noteq> tid then (Inl PayloadConflictError, db)
                else if t_state row \<noteq> Failed then (Inl ControlStoreError, db)
                else (case json_loads L (t_payload_json row) of
                  Some (PDict previous) \<Rightarrow>
                    (case validate_investigation_payload L previous of Inl e \<Rightarrow> (Inl e, db)
                     | Inr _ \<Rightarrow>
                       if \<exists>k \<in> set payload_text_fields. map_of previous k \<noteq> map_of payload k
                         then (Inl PayloadConflictError, db)
                       else if int_of payload ''round_number'' \<noteq> int_of previous ''round_number'' + 1
                         then (Inl ControlStoreError, db)
                       else (Inr (), update_task tid (\<lambda>t. t\<lparr>t_state := Pending,
                               t_payload_json := json_dumps L (PDict payload)\<rparr>) db))
                | Some _ \<Rightarrow> (Inl ValueError, db)
                | None \<Rightarrow> (Inl ControlStoreError, db)))) db)"

section \<open>Diagnostics\<close>

text \<open>\<open>int(text)\<close>: white space around an optional sign and digits, single underscores inside.\<close>

fun digit_groups :: "string \<Rightarrow> bool" where
  "digit_groups [] = False"
| "digit_groups [c] = is_digit c"
| "digit_groups (c # d # s) =
     (is_digit c \<and> (if d = CHR ''_'' then s \<noteq> [] \<and> digit_groups s else digit_groups (d # s)))"

definition py_int :: "string \<Rightarrow> int result" where
  "py_int text =
     (let s = strip text;
          neg = starts_with ''-'' s;
          body = (if neg \<or> starts_with ''+'' s then tl s else s)
      in if digit_groups body
         then Inr ((if neg then -1 else 1) * int (num (filter is_digit body)))
         else Inl ValueError)"

text \<open>
  The rows of \<open>PRAGMA foreign_key_check\<close> are given by SQLite: the name of the referencing
  table, the rowid (or null), the referenced table, and the index of the constraint.
\<close>

definition foreign_key_check ::
  "(string \<times> int option \<times> string \<times> int) list \<Rightarrow> (int \<times> string \<times> string) list result" where
  "foreign_key_check rows =
     map_result (\<lambda>(table, rowid, parent, fkid).
       bind_result (py_int table) (\<lambda>n.
         Inr (n, (case rowid of None \<Rightarrow> ''None'' | Some i \<Rightarrow> show_int i), parent))) rows"

definition zero_delivery_check :: "control_db \<Rightarrow> nat \<times> string list" where
  "zero_delivery_check db =
     (let kinds = map t_kind (filter (\<lambda>t. t_kind t = DELIVERY_KIND_FORBIDDEN) (db_tasks db))
      in (length kinds, kinds))"

definition kept_char :: "char \<Rightarrow> bool" where
  "kept_char c = (let n = (of_char c :: nat) in n = 10 \<or> n = 9 \<or> 32 \<le> n \<and> n < 127 \<or> 128 \<le> n)"

definition sanitize_error_message :: "string option \<Rightarrow> int \<Rightarrow> string option" where
  "sanitize_error_message message max_length =
     (case message of None \<Rightarrow> None
      | Some m \<Rightarrow>
          let cleaned = filter kept_char m in
          Some (if int (length cleaned) > max_length
                then slice_to (Some (max_length - 3)) cleaned @ ''...'' else cleaned))"

definition SANITIZED_ERROR_CLASSES :: "string list" where
  "SANITIZED_ERROR_CLASSES =
     [''RuntimeError'', ''ValueError'', ''TimeoutError'', ''FileNotFoundError'',
      ''PermissionError'', ''ProcessLookupError'', ''OSError'', ''sqlite3.OperationalError'',
      ''sqlite3.DatabaseError'', ''sqlite3.IntegrityError'', ''DeliveryForbiddenError'',
      ''UnknownKindError'', ''ClaimMismatchError'', ''ControlStoreError'', ''ConfigurationError'',
      ''ScheduleError'', ''PathEscapeError'', ''SymlinkForbiddenError'']"

definition sanitize_error_class :: "string option \<Rightarrow> string option" where
  "sanitize_error_class cls =
     (case cls of None \<Rightarrow> None
      | Some c \<Rightarrow> if c \<in> set SANITIZED_ERROR_CLASSES then Some c else Some ''ControlStoreError'')"

definition iter_runs :: "string option \<Rightarrow> control_db \<Rightarrow> run_row list" where
  "iter_runs tid db =
     rev (sort_key r_run_id
       (filter (\<lambda>r. case tid of None \<Rightarrow> True | Some i \<Rightarrow> r_task_id r = i) (db_runs db)))"

section \<open>Validation: what is refused and what passes unchanged\<close>

inductive subvalue :: "pyval \<Rightarrow> pyval \<Rightarrow> bool" where
  subvalue_refl: "subvalue v v"
| subvalue_list: "w \<in> set vs \<Longrightarrow> subvalue u w \<Longrightarrow> subvalue u (PList vs)"
| subvalue_tuple: "w \<in> set vs \<Longrightarrow> subvalue u w \<Longrightarrow> subvalue u (PTuple vs)"
| subvalue_dict: "(k, w) \<in> set kvs \<Longrightarrow> subvalue u w \<Longrightarrow> subvalue u (PDict kvs)"

inductive_simps subvalue_list_iff: "subvalue u (PList vs)"
inductive_simps subvalue_tuple_iff: "subvalue u (PTuple vs)"
inductive_simps subvalue_dict_iff: "subvalue u (PDict kvs)"
inductive_simps subvalue_atom_iff [simp]:
  "subvalue u PNone" "subvalue u (PBool b)" "subvalue u (PInt i)" "subvalue u (PFloat f)" "subvalue u (PStr s)"

fun mentions_delivery :: "pyval \<Rightarrow> bool" where
  "mentions_delivery (PStr s) = delivery_text s"
| "mentions_delivery (PDict kvs) = (\<exists>(k, v) \<in> set kvs. delivery_entry k v)"
| "mentions_delivery _ = False"

lemma scrub_delivery_Inl: "scrub_delivery v = Inl e \<Longrightarrow> e = DeliveryForbiddenError"
proof (induction v rule: scrub_delivery.induct)
  case (2 kvs)
  then show ?case
    by (auto split: sum.splits if_splits elim!: map_result_Inl)
qed (auto split: sum.splits if_splits elim!: map_result_Inl)

lemma scrub_delivery_same: "scrub_delivery v = Inr w \<Longrightarrow> w = v"
proof (induction v arbitrary: w rule: scrub_delivery.induct)
  case (2 kvs)
  let ?f = "\<lambda>(key, sub). if delivery_entry key sub then Inl DeliveryForbiddenError
      else case scrub_delivery sub of Inl e \<Rightarrow> Inl e | Inr sub' \<Rightarrow> Inr (key, sub')"
  from "2.prems" obtain cleaned where c: "map_result ?f kvs = Inr cleaned" "w = PDict cleaned"
    by (auto split: sum.splits)
  have "list_all2 (\<lambda>x y. y = x) kvs cleaned"
    using c(1) unfolding map_result_Inr_iff
    by (rule list.rel_mono_strong) (use "2.IH" in \<open>auto split: if_splits sum.splits\<close>)
  then have "cleaned = kvs" by (simp add: list_all2_eq [symmetric] eq_commute list.rel_eq)
  then show ?case using c by simp
next
  case (3 vs)
  then obtain ws where c: "map_result scrub_delivery vs = Inr ws" "w = PList ws"
    by (auto split: sum.splits)
  have "list_all2 (=) vs ws"
    using c(1) unfolding map_result_Inr_iff
    by (rule list.rel_mono_strong) (use "3.IH" in auto)
  then show ?case using c by (simp add: list.rel_eq)
next
  case (4 vs)
  then obtain ws where c: "map_result scrub_delivery vs = Inr ws" "w = PTuple ws"
    by (auto split: sum.splits)
  have "list_all2 (=) vs ws"
    using c(1) unfolding map_result_Inr_iff
    by (rule list.rel_mono_strong) (use "4.IH" in auto)
  then show ?case using c by (simp add: list.rel_eq)
qed (auto split: if_splits)

lemma scrub_delivery_Inr_iff:
  "scrub_delivery v = Inr v \<longleftrightarrow> (\<forall>u. subvalue u v \<longrightarrow> \<not> mentions_delivery u)"
proof (induction v rule: scrub_delivery.induct)
  case (2 kvs)
  let ?f = "\<lambda>(key, sub). if delivery_entry key sub then Inl DeliveryForbiddenError
      else case scrub_delivery sub of Inl e \<Rightarrow> Inl e | Inr sub' \<Rightarrow> Inr (key, sub')"
  have "scrub_delivery (PDict kvs) = Inr (PDict kvs) \<longleftrightarrow> map_result ?f kvs = Inr kvs"
    by (auto split: sum.splits)
  also have "\<dots> \<longleftrightarrow> (\<forall>(k, v) \<in> set kvs. \<not> delivery_entry k v \<and> scrub_delivery v = Inr v)"
  proof -
    have "?f (k, v) = Inr (k, v) \<longleftrightarrow> \<not> delivery_entry k v \<and> scrub_delivery v = Inr v" for k v
      by (auto split: sum.splits)
    then show ?thesis unfolding map_result_same by fast
  qed
  also have "\<dots> \<longleftrightarrow> (\<forall>(k, v) \<in> set kvs. \<not> delivery_entry k v \<and>
      (\<forall>u. subvalue u v \<longrightarrow> \<not> mentions_delivery u))"
    using 2 by fastforce
  also have "\<dots> \<longleftrightarrow> \<not> mentions_delivery (PDict kvs) \<and>
      (\<forall>k v u. (k, v) \<in> set kvs \<longrightarrow> subvalue u v \<longrightarrow> \<not> mentions_delivery u)"
    by auto
  also have "\<dots> \<longleftrightarrow> (\<forall>u. subvalue u (PDict kvs) \<longrightarrow> \<not> mentions_delivery u)"
    unfolding subvalue_dict_iff by metis
  finally show ?case .
next
  case (3 vs)
  have "scrub_delivery (PList vs) = Inr (PList vs) \<longleftrightarrow> (\<forall>v \<in> set vs. scrub_delivery v = Inr v)"
    by (auto simp: map_result_same [symmetric] split: sum.splits)
  with 3 show ?case by (auto simp: subvalue_list_iff)
next
  case (4 vs)
  have "scrub_delivery (PTuple vs) = Inr (PTuple vs) \<longleftrightarrow> (\<forall>v \<in> set vs. scrub_delivery v = Inr v)"
    by (auto simp: map_result_same [symmetric] split: sum.splits)
  with 4 show ?case by (auto simp: subvalue_tuple_iff)
qed auto

lemma validate_payload_same: "validate_payload p = Inr q \<Longrightarrow> q = p"
  using scrub_delivery_same [of "PDict p"]
  by (cases "scrub_delivery (PDict p)") (auto simp: validate_payload_def simp del: scrub_delivery.simps)

text \<open>
  The payload validator accepts exactly the payloads in which no string, key or flag at
  any depth names delivery, returns an accepted payload unchanged, and refuses the others
  with \<open>DeliveryForbiddenError\<close>.
\<close>

theorem validate_payload_exact:
  "validate_payload p =
     (if \<exists>u. subvalue u (PDict p) \<and> mentions_delivery u then Inl DeliveryForbiddenError else Inr p)"
proof (cases "scrub_delivery (PDict p)")
  case (Inl e)
  then have "scrub_delivery (PDict p) \<noteq> Inr (PDict p)" by simp
  then show ?thesis
    using Inl scrub_delivery_Inl [OF Inl] unfolding scrub_delivery_Inr_iff
    by (auto simp: validate_payload_def)
next
  case (Inr w)
  then have "w = PDict p" by (rule scrub_delivery_same)
  with Inr have "scrub_delivery (PDict p) = Inr (PDict p)" by simp
  then show ?thesis
    using scrub_delivery_Inr_iff [of "PDict p"] by (auto simp: validate_payload_def)
qed

section \<open>Lookups after the SQL writes\<close>

interpretation task_table: keyed_table "tbl_find t_task_id" tbl_insert "tbl_update t_task_id"
  t_task_id "tbl_keyed t_task_id"
  by (rule keyed_table_rows)

interpretation claim_table: keyed_table "tbl_find c_task_id" tbl_insert "tbl_update c_task_id"
  c_task_id "tbl_keyed c_task_id"
  by (rule keyed_table_rows)

lemma find_task_id: "find_task tid db = Some t \<Longrightarrow> t_task_id t = tid"
  by (simp add: find_task_def task_table.lookup_key)

lemma find_claim_id: "find_claim tid db = Some c \<Longrightarrow> c_task_id c = tid"
  by (simp add: find_claim_def claim_table.lookup_key)

lemma find_task_update [table_simps]:
  "(\<And>t. t_task_id (f t) = t_task_id t) \<Longrightarrow>
     find_task k (update_task tid f db) =
       (if k = tid then map_option f (find_task tid db) else find_task k db)"
  by (simp add: find_task_def update_task_def task_table.lookup_upd)

lemma find_claim_update [table_simps]:
  "(\<And>c. c_task_id (f c) = c_task_id c) \<Longrightarrow>
     find_claim k (update_claim tid f db) =
       (if k = tid then map_option f (find_claim tid db) else find_claim k db)"
  by (simp add: find_claim_def update_claim_def claim_table.lookup_upd)

lemma find_other_table [table_simps]:
  "find_task k (update_claim tid f db) = find_task k db"
  "find_task k (delete_claim tid db) = find_task k db"
  "find_claim k (update_task tid g db) = find_claim k db"
  "find_claim k (delete_claim tid db) = (if k = tid then None else find_claim k db)"
  by (simp_all add: find_task_def find_claim_def update_task_def update_claim_def delete_claim_def
      tbl_find_delete)

lemma insert_task_Inr:
  "insert_task t db = (Inr u, db') \<longleftrightarrow>
     find_task (t_task_id t) db = None \<and> task_slot t \<notin> set (map task_slot (db_tasks db)) \<and>
     db' = db\<lparr>db_tasks := tbl_insert t (db_tasks db)\<rparr>"
  by (auto simp: insert_task_def)

lemma insert_claim_Inr:
  "insert_claim c db = (Inr u, db') \<longleftrightarrow>
     find_claim (c_task_id c) db = None \<and> find_task (c_task_id c) db \<noteq> None \<and>
     db' = db\<lparr>db_claims := tbl_insert c (db_claims db)\<rparr>"
  by (auto simp: insert_claim_def)

lemma insert_run_Inr:
  "insert_run r db = (Inr u, db') \<longleftrightarrow>
     find_task (r_task_id r) db \<noteq> None \<and>
     db' = db\<lparr>db_runs := db_runs db @ [r\<lparr>r_run_id := db_run_seq db + 1\<rparr>],
              db_run_seq := db_run_seq db + 1\<rparr>"
  by (auto simp: insert_run_def)

section \<open>When the operations succeed\<close>

text \<open>The three ways a claim is granted, and what each does to the store.\<close>

definition grant_new :: "string \<Rightarrow> string \<Rightarrow> int \<Rightarrow> string \<Rightarrow> string \<Rightarrow> control_db \<Rightarrow> control_db" where
  "grant_new tid owner g e ts db =
     update_task tid (\<lambda>t. t\<lparr>t_state := Claimed, t_generation := g\<rparr>)
       (db\<lparr>db_claims := tbl_insert \<lparr>c_task_id = tid, c_owner = owner, c_generation = g,
          c_attempt = 1, c_expires_at_utc = e, c_claimed_at_utc = ts\<rparr> (db_claims db)\<rparr>)"

definition take_over :: "string \<Rightarrow> string \<Rightarrow> int \<Rightarrow> int \<Rightarrow> string \<Rightarrow> string \<Rightarrow> control_db \<Rightarrow> control_db" where
  "take_over tid owner g a e ts db =
     update_task tid (\<lambda>t. t\<lparr>t_state := Claimed, t_generation := g\<rparr>)
       (update_claim tid (\<lambda>c. c\<lparr>c_owner := owner, c_generation := g, c_attempt := a,
          c_expires_at_utc := e, c_claimed_at_utc := ts\<rparr>) db)"

lemma claim_Inr_cases:
  assumes "claim L tid owner ttl now db = (Inr (g, a, e), db')"
  obtains
    (new) t later where "find_task tid db = Some t" "t_state t \<in> {Pending, Claimed}"
      "find_claim tid db = None" "0 < ttl" "shift_seconds now ttl = Inr later"
      "g = t_generation t + 1" "a = 1" "e = utc_now_iso later"
      "db' = grant_new tid owner g e (utc_now_iso now) db"
  | (takeover) t c expiry later where "find_task tid db = Some t" "t_state t \<in> {Pending, Claimed}"
      "find_claim tid db = Some c" "parse_utc_iso L (c_expires_at_utc c) = Inr expiry" "expiry \<le> now"
      "0 < ttl" "shift_seconds now ttl = Inr later"
      "g = c_generation c + 1" "a = c_attempt c + 1" "e = utc_now_iso later"
      "db' = take_over tid owner g a e (utc_now_iso now) db"
  | (reclaim) t c expiry where "find_task tid db = Some t" "t_state t \<in> {Pending, Claimed}"
      "find_claim tid db = Some c" "parse_utc_iso L (c_expires_at_utc c) = Inr expiry" "now < expiry"
      "c_owner c = owner" "g = c_generation c" "a = c_attempt c" "e = c_expires_at_utc c" "db' = db"
  using assms
  by (auto simp: claim_def immediate_tx_Inr insert_claim_Inr Let_def grant_new_def take_over_def
      split: if_splits sum.splits option.splits prod.splits)

lemma renew_claim_Inr_cases:
  assumes "renew_claim L tid owner g ttl now db = (Inr e, db')"
  obtains c expiry later where "find_claim tid db = Some c" "c_owner c = owner" "c_generation c = g"
    "parse_utc_iso L (c_expires_at_utc c) = Inr expiry" "now < expiry" "0 < ttl"
    "shift_seconds now ttl = Inr later" "e = utc_now_iso later"
    "db' = update_claim tid (\<lambda>c. c\<lparr>c_expires_at_utc := e, c_claimed_at_utc := utc_now_iso now\<rparr>) db"
  using assms
  by (auto simp: renew_claim_def immediate_tx_Inr Let_def
      split: if_splits sum.splits option.splits)

definition run_entry :: "string \<Rightarrow> string \<Rightarrow> int \<Rightarrow> task_state \<Rightarrow> outcome \<Rightarrow> string \<Rightarrow> int \<Rightarrow> run_row" where
  "run_entry tid owner g st res ts rid =
     \<lparr>r_run_id = rid, r_task_id = tid, r_owner = owner, r_generation = g, r_started_at_utc = ts,
      r_finished_at_utc = ts, r_status = st, r_exit_code = o_exit_code res,
      r_stdout_hash = o_stdout_hash res, r_error_class = o_error_class res,
      r_error_message = o_error_message res, r_canary_root = o_canary_root res\<rparr>"

definition finish :: "string \<Rightarrow> string \<Rightarrow> int \<Rightarrow> task_state \<Rightarrow> outcome \<Rightarrow> string \<Rightarrow> control_db \<Rightarrow> control_db" where
  "finish tid owner g st res ts db =
     delete_claim tid (update_task tid (\<lambda>t. t\<lparr>t_state := st\<rparr>)
       (db\<lparr>db_runs := db_runs db @ [run_entry tid owner g st res ts (db_run_seq db + 1)],
           db_run_seq := db_run_seq db + 1\<rparr>))"

lemma complete_Inr_cases:
  assumes "complete L tid owner g status res now db = (Inr u, db')"
  obtains c expiry st where "status_of status = Inr st" "find_claim tid db = Some c"
    "c_owner c = owner" "c_generation c = g" "parse_utc_iso L (c_expires_at_utc c) = Inr expiry"
    "now < expiry" "find_task tid db \<noteq> None"
    "db' = finish tid owner g st res (utc_now_iso now) db"
  using assms
  by (auto simp: complete_def immediate_tx_Inr insert_run_Inr Let_def finish_def run_entry_def
      simp del: status_of.simps split: if_splits sum.splits option.splits prod.splits)

lemma assert_claim_Inr_iff:
  "assert_claim L tid owner g now db = Inr u \<longleftrightarrow>
     (\<exists>c expiry. find_claim tid db = Some c \<and> c_owner c = owner \<and> c_generation c = g \<and>
        parse_utc_iso L (c_expires_at_utc c) = Inr expiry \<and> now < expiry)"
  by (auto simp: assert_claim_def split: option.splits sum.splits)

lemma enqueue_args_Inr:
  assumes "enqueue_args L kind slot payload = Inr (p, job_key, tid)"
  shows "p = payload" "validate_kind kind = Inr kind" "validate_payload payload = Inr payload"
    "kind = ''investigate'' \<Longrightarrow> validate_investigation_payload L payload = Inr payload"
    "deterministic_task_id L kind slot (if job_key = [] then None else Some job_key) = Inr tid"
  using assms
  by (auto simp: enqueue_args_def validate_kind_def
      dest: validate_payload_same validate_investigation_payload_same split: if_splits)

lemma enqueue_Inr_cases:
  assumes "enqueue L kind slot payload now db = (Inr (tid, created), db')"
  obtains
    (old) job_key t where "enqueue_args L kind slot payload = Inr (payload, job_key, tid)"
      "find_task tid db = Some t" "t_payload_json t = json_dumps L (PDict payload)"
      "created = False" "db' = db"
  | (fresh) job_key t where "enqueue_args L kind slot payload = Inr (payload, job_key, tid)"
      "find_task tid db = None" "created = True"
      "t = \<lparr>t_task_id = tid, t_kind = kind, t_due_slot_utc = slot, t_job_key = job_key,
         t_payload_json = json_dumps L (PDict payload), t_state = Pending, t_generation = 0,
         t_created_at = utc_now_iso now\<rparr>"
      "task_slot t \<notin> set (map task_slot (db_tasks db))"
      "db' = db\<lparr>db_tasks := tbl_insert t (db_tasks db)\<rparr>"
proof (cases "enqueue_args L kind slot payload")
  case (Inl e)
  with assms show ?thesis by (simp add: enqueue_def)
next
  case (Inr r)
  obtain p job_key tid' where r: "r = (p, job_key, tid')" by (cases r)
  have p: "p = payload" using enqueue_args_Inr(1) Inr r by blast
  show ?thesis
  proof (cases "find_task tid' db")
    case (Some t)
    with assms Inr show ?thesis
      by (intro old) (auto simp: enqueue_def immediate_tx_Inr Let_def r p split: if_splits)
  next
    case None
    with assms Inr show ?thesis
      by (intro fresh) (auto simp: enqueue_def immediate_tx_Inr Let_def r p insert_task_Inr
          split: prod.splits sum.splits)
  qed
qed

lemma retry_args_Inr:
  "retry_args L payload = Inr p \<Longrightarrow> p = payload \<and> validate_investigation_payload L payload = Inr payload"
  by (auto simp: retry_args_def dest: validate_payload_same validate_investigation_payload_same)

lemma retry_Inr_cases:
  assumes "retry_investigation L tid payload db = (Inr u, db')"
  obtains t previous where "find_task tid db = Some t" "t_kind t = ''investigate''"
    "t_state t = Failed" "json_loads L (t_payload_json t) = Some (PDict previous)"
    "validate_investigation_payload L previous = Inr previous"
    "validate_investigation_payload L payload = Inr payload"
    "\<forall>k \<in> set payload_text_fields. map_of previous k = map_of payload k"
    "int_of payload ''round_number'' = int_of previous ''round_number'' + 1"
    "db' = update_task tid (\<lambda>t. t\<lparr>t_state := Pending,
        t_payload_json := json_dumps L (PDict payload)\<rparr>) db"
proof (cases "retry_args L payload")
  case (Inl e)
  with assms show ?thesis by (simp add: retry_investigation_def)
next
  case (Inr p)
  note p = retry_args_Inr [OF Inr]
  with assms Inr that show ?thesis
    by (auto simp: retry_investigation_def immediate_tx_Inr Let_def
        dest: validate_investigation_payload_same
        split: if_splits sum.splits option.splits pyval.splits)
qed

section \<open>The store invariant\<close>

definition tasks_ok :: "control_db \<Rightarrow> bool" where
  "tasks_ok db \<longleftrightarrow> tbl_keyed t_task_id (db_tasks db) \<and> distinct (map task_slot (db_tasks db)) \<and>
     (\<forall>t \<in> set (db_tasks db). 0 \<le> t_generation t \<and> t_kind t \<in> set ALLOWED_KINDS)"

definition leases_ok :: "control_db \<Rightarrow> bool" where
  "leases_ok db \<longleftrightarrow> tbl_keyed c_task_id (db_claims db) \<and>
     (\<forall>tid c. find_claim tid db = Some c \<longrightarrow> 1 \<le> c_generation c \<and> 1 \<le> c_attempt c \<and>
        (\<exists>t. find_task tid db = Some t \<and> t_state t = Claimed \<and> t_generation t = c_generation c)) \<and>
     (\<forall>tid t. find_task tid db = Some t \<longrightarrow> t_state t = Claimed \<longrightarrow> find_claim tid db \<noteq> None)"

definition runs_ok :: "control_db \<Rightarrow> bool" where
  "runs_ok db \<longleftrightarrow> distinct (map (\<lambda>r. (r_task_id r, r_generation r)) (db_runs db)) \<and>
     (\<forall>r \<in> set (db_runs db). r_run_id r \<le> db_run_seq db \<and>
        (\<exists>t. find_task (r_task_id r) db = Some t \<and> r_generation r \<le> t_generation t \<and>
           (t_state t = Claimed \<longrightarrow> r_generation r < t_generation t)))"

definition store_inv :: "control_db \<Rightarrow> bool" where
  "store_inv db \<longleftrightarrow> tasks_ok db \<and> leases_ok db \<and> runs_ok db"

lemma store_inv_empty: "store_inv empty_file"
  by (simp add: store_inv_def tasks_ok_def leases_ok_def runs_ok_def empty_file_def
      find_claim_def find_task_def)

lemma leases_okD:
  assumes "leases_ok db" "find_claim tid db = Some c"
  obtains t where "find_task tid db = Some t" "t_state t = Claimed" "t_generation t = c_generation c"
    "1 \<le> c_generation c" "1 \<le> c_attempt c"
  using assms unfolding leases_ok_def by blast

lemma leases_ok_claimed:
  "leases_ok db \<Longrightarrow> find_task tid db = Some t \<Longrightarrow> t_state t = Claimed \<Longrightarrow> find_claim tid db \<noteq> None"
  unfolding leases_ok_def by blast

lemma find_task_mem: "find_task tid db = Some t \<Longrightarrow> t \<in> set (db_tasks db)"
  by (auto simp: find_task_def dest: tbl_find_SomeD)

lemma task_slot_update:
  "(\<And>t. task_slot (f t) = task_slot t) \<Longrightarrow>
     map task_slot (tbl_update t_task_id tid f ts) = map task_slot ts"
  by (simp add: tbl_update_def)

lemma tasks_ok_update:
  assumes "tasks_ok db" "\<And>t. t_task_id (f t) = t_task_id t" "\<And>t. task_slot (f t) = task_slot t"
    "\<And>t. find_task tid db = Some t \<Longrightarrow> 0 \<le> t_generation (f t)"
  shows "tasks_ok (update_task tid f db)"
proof -
  have "0 \<le> t_generation (f t)" if "t \<in> set (db_tasks db)" "t_task_id t = tid" for t
    using assms(1,4) that by (auto simp: tasks_ok_def find_task_def tbl_find_Some)
  moreover have "t_kind (f t) = t_kind t" for t using assms(3) [of t] by (simp add: task_slot_def)
  ultimately show ?thesis
    using assms(1-3)
    by (auto simp: tasks_ok_def update_task_def tbl_keyed_update task_slot_update set_tbl_update)
qed

lemma tasks_ok_frame: "db_tasks db' = db_tasks db \<Longrightarrow> tasks_ok db \<Longrightarrow> tasks_ok db'"
  by (simp add: tasks_ok_def)

lemma find_task_frame: "db_tasks db' = db_tasks db \<Longrightarrow> find_task k db' = find_task k db"
  by (simp add: find_task_def)

lemma find_claim_frame: "db_claims db' = db_claims db \<Longrightarrow> find_claim k db' = find_claim k db"
  by (simp add: find_claim_def)

lemmas frame_simps = update_task_def update_claim_def delete_claim_def

section \<open>Every operation keeps the invariant\<close>

lemma inv_grant_new:
  assumes inv: "store_inv db" and t: "find_task tid db = Some t" and c: "find_claim tid db = None"
    and g: "g = t_generation t + 1"
  shows "store_inv (grant_new tid owner g e ts db)"
proof -
  let ?db = "grant_new tid owner g e ts db"
  have gen: "0 \<le> t_generation t" using inv find_task_mem [OF t] by (simp add: store_inv_def tasks_ok_def)
  have nc: "t_state t \<noteq> Claimed" using inv t c leases_ok_claimed unfolding store_inv_def by blast
  have ft: "find_task k ?db = (if k = tid then Some (t\<lparr>t_state := Claimed, t_generation := g\<rparr>)
      else find_task k db)" for k
    using t by (simp add: grant_new_def find_task_update) (simp add: find_task_def)
  have fc: "find_claim k ?db = (if k = tid then Some \<lparr>c_task_id = tid, c_owner = owner,
      c_generation = g, c_attempt = 1, c_expires_at_utc = e, c_claimed_at_utc = ts\<rparr>
      else find_claim k db)" for k
    using c by (auto simp: grant_new_def update_task_def find_claim_def claim_table.lookup_ins)
  have "tasks_ok ?db"
    unfolding grant_new_def
    by (rule tasks_ok_update) (use inv gen g in \<open>auto simp: store_inv_def task_slot_def intro: tasks_ok_frame\<close>)
  moreover have "tbl_keyed c_task_id (db_claims ?db)"
    using inv c by (auto simp: grant_new_def update_task_def store_inv_def leases_ok_def find_claim_def
        intro: tbl_keyed_insert)
  then have "leases_ok ?db"
    using inv g gen unfolding leases_ok_def ft fc store_inv_def by auto
  moreover have "runs_ok ?db"
  proof -
    have "db_runs ?db = db_runs db" "db_run_seq ?db = db_run_seq db"
      by (simp_all add: grant_new_def update_task_def)
    then show ?thesis using inv t g nc unfolding runs_ok_def ft store_inv_def
      by (auto split: if_splits)
  qed
  ultimately show ?thesis by (simp add: store_inv_def)
qed

lemma inv_take_over:
  assumes inv: "store_inv db" and c: "find_claim tid db = Some c"
    and g: "g = c_generation c + 1" and a: "a = c_attempt c + 1"
  shows "store_inv (take_over tid owner g a e ts db)"
proof -
  let ?db = "take_over tid owner g a e ts db"
  from inv c obtain t where t: "find_task tid db = Some t" "t_state t = Claimed"
      "t_generation t = c_generation c" "1 \<le> c_generation c" "1 \<le> c_attempt c"
    by (auto simp: store_inv_def elim: leases_okD)
  have ft: "find_task k ?db = (if k = tid then Some (t\<lparr>t_state := Claimed, t_generation := g\<rparr>)
      else find_task k db)" for k
    using t by (simp add: take_over_def find_task_update find_other_table)
  have fc: "find_claim k ?db = (if k = tid then Some (c\<lparr>c_owner := owner, c_generation := g,
      c_attempt := a, c_expires_at_utc := e, c_claimed_at_utc := ts\<rparr>) else find_claim k db)" for k
    using c by (simp add: take_over_def find_claim_update find_other_table)
  have "tasks_ok ?db"
    unfolding take_over_def
    by (rule tasks_ok_update) (use inv t g in \<open>auto simp: store_inv_def task_slot_def update_claim_def
        intro: tasks_ok_frame\<close>)
  moreover have "tbl_keyed c_task_id (db_claims ?db)"
    using inv by (simp add: take_over_def frame_simps store_inv_def leases_ok_def tbl_keyed_update)
  then have "leases_ok ?db"
    using inv g a t unfolding leases_ok_def ft fc store_inv_def by auto
  moreover have "runs_ok ?db"
  proof -
    have "db_runs ?db = db_runs db" "db_run_seq ?db = db_run_seq db"
      by (simp_all add: take_over_def frame_simps)
    then show ?thesis using inv t g unfolding runs_ok_def ft store_inv_def
      by (auto split: if_splits)
  qed
  ultimately show ?thesis by (simp add: store_inv_def)
qed

lemma inv_renew:
  assumes inv: "store_inv db"
  shows "store_inv (update_claim tid (\<lambda>c. c\<lparr>c_expires_at_utc := e, c_claimed_at_utc := ts\<rparr>) db)"
proof -
  let ?f = "\<lambda>c. c\<lparr>c_expires_at_utc := e, c_claimed_at_utc := ts\<rparr>"
  let ?db = "update_claim tid ?f db"
  have ft: "find_task k ?db = find_task k db" for k by (simp add: find_other_table)
  have fc: "find_claim k ?db = (if k = tid then map_option ?f (find_claim tid db)
      else find_claim k db)" for k
    by (simp add: find_claim_update)
  have "tbl_keyed c_task_id (db_claims ?db)"
    using inv by (simp add: frame_simps store_inv_def leases_ok_def tbl_keyed_update)
  then have "leases_ok ?db" using inv unfolding leases_ok_def ft fc store_inv_def by auto
  moreover have "runs_ok ?db" using inv unfolding runs_ok_def ft store_inv_def
    by (simp add: update_claim_def)
  moreover have "tasks_ok ?db" using inv by (simp add: store_inv_def update_claim_def tasks_ok_def)
  ultimately show ?thesis by (simp add: store_inv_def)
qed

lemma find_finish:
  "find_task k (finish tid owner g st res ts db) =
     (if k = tid then map_option (\<lambda>t. t\<lparr>t_state := st\<rparr>) (find_task tid db) else find_task k db)"
  "find_claim k (finish tid owner g st res ts db) = (if k = tid then None else find_claim k db)"
  by (simp_all add: finish_def frame_simps find_task_def find_claim_def table_simps)

lemma inv_finish:
  assumes inv: "store_inv db" and c: "find_claim tid db = Some c" and g: "c_generation c = g"
    and st: "st \<noteq> Claimed"
  shows "store_inv (finish tid owner g st res ts db)"
proof -
  let ?db = "finish tid owner g st res ts db"
  from inv c obtain t where t: "find_task tid db = Some t" "t_state t = Claimed"
      "t_generation t = c_generation c" "1 \<le> c_generation c"
    by (auto simp: store_inv_def elim: leases_okD)
  have ft: "find_task k ?db = (if k = tid then Some (t\<lparr>t_state := st\<rparr>) else find_task k db)" for k
    using t by (simp add: find_finish)
  have fc: "find_claim k ?db = (if k = tid then None else find_claim k db)" for k
    by (simp add: find_finish)
  have "tasks_ok (update_task tid (\<lambda>t. t\<lparr>t_state := st\<rparr>)
      (db\<lparr>db_runs := db_runs db @ [run_entry tid owner g st res ts (db_run_seq db + 1)],
          db_run_seq := db_run_seq db + 1\<rparr>))"
    by (rule tasks_ok_update) (use inv find_task_mem in \<open>auto simp: store_inv_def task_slot_def tasks_ok_def
        find_task_def dest: tbl_find_SomeD\<close>)
  then have "tasks_ok ?db" by (simp add: finish_def delete_claim_def tasks_ok_def)
  moreover have "tbl_keyed c_task_id (db_claims ?db)"
    using inv by (simp add: finish_def frame_simps store_inv_def leases_ok_def tbl_keyed_delete)
  then have "leases_ok ?db"
    using inv st unfolding leases_ok_def ft fc store_inv_def by auto
  moreover have "runs_ok ?db"
  proof -
    have runs: "db_runs ?db = db_runs db @ [run_entry tid owner g st res ts (db_run_seq db + 1)]"
        "db_run_seq ?db = db_run_seq db + 1"
      by (simp_all add: finish_def frame_simps)
    have "(tid, g) \<notin> (\<lambda>r. (r_task_id r, r_generation r)) ` set (db_runs db)"
      using inv t g by (auto simp: store_inv_def runs_ok_def)
    then show ?thesis
      using inv t g st unfolding runs_ok_def ft runs store_inv_def
      by (auto simp: run_entry_def split: if_splits)
  qed
  ultimately show ?thesis by (simp add: store_inv_def)
qed

section \<open>Operations as a transactional store\<close>

datatype control_op =
    Enqueue string string pydict instant
  | Claim string string int instant
  | Renew string string int int instant
  | Complete string string int string outcome instant
  | Retry string pydict

datatype control_result =
    Enqueued string bool
  | Granted int int string
  | Renewed string
  | Done

definition as_result :: "('a \<Rightarrow> control_result) \<Rightarrow> 'a result \<times> control_db \<Rightarrow> control_result result \<times> control_db" where
  "as_result f p = (case p of (Inl e, db) \<Rightarrow> (Inl e, db) | (Inr x, db) \<Rightarrow> (Inr (f x), db))"

fun control_exec :: "pylib \<Rightarrow> control_op \<Rightarrow> (control_db, control_result) tx" where
  "control_exec L (Enqueue kind slot payload now) db =
     as_result (\<lambda>(tid, created). Enqueued tid created) (enqueue L kind slot payload now db)"
| "control_exec L (Claim tid owner ttl now) db =
     as_result (\<lambda>(g, a, e). Granted g a e) (claim L tid owner ttl now db)"
| "control_exec L (Renew tid owner g ttl now) db =
     as_result Renewed (renew_claim L tid owner g ttl now db)"
| "control_exec L (Complete tid owner g status res now) db =
     as_result (\<lambda>_. Done) (complete L tid owner g status res now db)"
| "control_exec L (Retry tid payload) db =
     as_result (\<lambda>_. Done) (retry_investigation L tid payload db)"

lemma as_result_Inr: "as_result f p = (Inr y, db) \<longleftrightarrow> (\<exists>x. p = (Inr x, db) \<and> y = f x)"
  by (auto simp: as_result_def split: prod.splits sum.splits)

lemma as_result_Inl: "as_result f p = (Inl e, db) \<longleftrightarrow> p = (Inl e, db)"
  by (auto simp: as_result_def split: prod.splits sum.splits)

lemma fst_as_result_Inl [simp]: "fst (as_result f p) = Inl e \<longleftrightarrow> fst p = Inl e"
  by (auto simp: as_result_def split: prod.splits sum.splits)

lemma snd_as_result [simp]: "snd (as_result f p) = snd p"
  by (auto simp: as_result_def split: prod.splits sum.splits)

lemma immediate_tx_rollback: "fst (immediate_tx b db) = Inl e \<Longrightarrow> snd (immediate_tx b db) = db"
  by (simp add: snd_immediate_tx)

lemma enqueue_rollback: "fst (enqueue L k sl p now db) = Inl e \<Longrightarrow> snd (enqueue L k sl p now db) = db"
  by (auto simp: enqueue_def Let_def immediate_tx_rollback simp del: fst_immediate_tx
      split: sum.splits prod.splits)

lemma claim_rollback: "fst (claim L tid ow ttl now db) = Inl e \<Longrightarrow> snd (claim L tid ow ttl now db) = db"
  by (auto simp: claim_def Let_def immediate_tx_rollback simp del: fst_immediate_tx
      split: sum.splits if_splits)

lemma renew_rollback:
  "fst (renew_claim L tid ow g ttl now db) = Inl e \<Longrightarrow> snd (renew_claim L tid ow g ttl now db) = db"
  by (auto simp: renew_claim_def Let_def immediate_tx_rollback simp del: fst_immediate_tx
      split: sum.splits if_splits)

lemma complete_rollback:
  "fst (complete L tid ow g st res now db) = Inl e \<Longrightarrow> snd (complete L tid ow g st res now db) = db"
  by (auto simp: complete_def Let_def immediate_tx_rollback simp del: fst_immediate_tx status_of.simps
      split: sum.splits)

lemma retry_rollback:
  "fst (retry_investigation L tid p db) = Inl e \<Longrightarrow> snd (retry_investigation L tid p db) = db"
  by (auto simp: retry_investigation_def Let_def immediate_tx_rollback simp del: fst_immediate_tx
      split: sum.splits)

lemmas control_rollback = enqueue_rollback claim_rollback renew_rollback complete_rollback retry_rollback

lemma control_exec_rollback: "fst (control_exec L c db) = Inl e \<Longrightarrow> snd (control_exec L c db) = db"
  by (cases c) (auto intro: control_rollback)

text \<open>Only a successful operation can change the store, so preservation is about those.\<close>

lemma control_exec_inv_by_success:
  assumes "P db" "\<And>y db'. control_exec L c db = (Inr y, db') \<Longrightarrow> P db'"
  shows "P (snd (control_exec L c db))"
proof (cases "fst (control_exec L c db)")
  case (Inl e)
  then show ?thesis using assms(1) control_exec_rollback by simp
next
  case (Inr y)
  then show ?thesis using assms(2) by (metis prod.collapse)
qed

lemma inv_enqueue:
  assumes inv: "store_inv db" and "find_task (t_task_id t) db = None"
    and "task_slot t \<notin> set (map task_slot (db_tasks db))" and "t_state t = Pending"
    and "t_generation t = 0" and "t_kind t \<in> set ALLOWED_KINDS"
  shows "store_inv (db\<lparr>db_tasks := tbl_insert t (db_tasks db)\<rparr>)"
proof -
  let ?db = "db\<lparr>db_tasks := tbl_insert t (db_tasks db)\<rparr>"
  have ft: "find_task k ?db = (if k = t_task_id t then Some t else find_task k db)" for k
    using assms(2) by (simp add: find_task_def task_table.lookup_ins)
  have fc: "find_claim k ?db = find_claim k db" for k by (simp add: find_claim_def)
  have no: "find_claim (t_task_id t) db = None"
    using inv assms(2) unfolding store_inv_def leases_ok_def by (metis option.distinct(1) option.exhaust)
  have "tasks_ok ?db"
    using assms tbl_keyed_insert [of t_task_id "db_tasks db" t]
    by (auto simp: store_inv_def tasks_ok_def find_task_def tbl_insert_def)
  moreover have "leases_ok ?db"
    using inv no assms(4) unfolding leases_ok_def ft fc store_inv_def by auto
  moreover have "runs_ok ?db"
    using inv assms(2) unfolding runs_ok_def ft store_inv_def by fastforce
  ultimately show ?thesis by (simp add: store_inv_def)
qed

lemma inv_retry:
  assumes inv: "store_inv db" and t: "find_task tid db = Some t" "t_state t = Failed"
  shows "store_inv (update_task tid (\<lambda>t. t\<lparr>t_state := Pending, t_payload_json := pj\<rparr>) db)"
proof -
  let ?db = "update_task tid (\<lambda>t. t\<lparr>t_state := Pending, t_payload_json := pj\<rparr>) db"
  have ft: "find_task k ?db = (if k = tid then Some (t\<lparr>t_state := Pending, t_payload_json := pj\<rparr>)
      else find_task k db)" for k
    using t by (simp add: find_task_update)
  have fc: "find_claim k ?db = find_claim k db" for k by (simp add: find_other_table)
  have no: "find_claim tid db = None"
    using inv t unfolding store_inv_def leases_ok_def
    by (metis option.exhaust option.inject task_state.distinct(9))
  have "tasks_ok ?db"
    by (rule tasks_ok_update) (use inv find_task_mem [OF t(1)] t in
      \<open>auto simp: store_inv_def tasks_ok_def task_slot_def\<close>)
  moreover have "leases_ok ?db"
    using inv no unfolding leases_ok_def ft fc store_inv_def by (auto simp: update_task_def)
  moreover have "runs_ok ?db"
    using inv t unfolding runs_ok_def ft store_inv_def by (fastforce simp: update_task_def)
  ultimately show ?thesis by (simp add: store_inv_def)
qed

lemma status_of_not_claimed: "status_of s = Inr st \<Longrightarrow> st \<noteq> Claimed"
  by (auto split: if_splits)

lemma validate_kind_allowed: "validate_kind k = Inr k' \<Longrightarrow> k' = k \<and> k \<in> set ALLOWED_KINDS"
  by (auto simp: validate_kind_def split: if_splits)

lemma control_exec_inv:
  assumes inv: "store_inv db"
  shows "store_inv (snd (control_exec L c db))"
proof (rule control_exec_inv_by_success [where P = store_inv, OF inv])
  fix y db' assume ex: "control_exec L c db = (Inr y, db')"
  show "store_inv db'"
  proof (cases c)
    case (Enqueue kind slot payload now)
    with ex obtain tid created where "enqueue L kind slot payload now db = (Inr (tid, created), db')"
      by (auto simp: as_result_Inr)
    then show ?thesis
    proof (cases rule: enqueue_Inr_cases)
      case (fresh job_key t)
      then show ?thesis
        using enqueue_args_Inr(2) [OF fresh(1)] validate_kind_allowed
        by (simp only: fresh(6)) (intro inv_enqueue inv, auto)
    qed (simp add: inv)
  next
    case (Claim tid owner ttl now)
    with ex obtain g a e where "claim L tid owner ttl now db = (Inr (g, a, e), db')"
      by (auto simp: as_result_Inr)
    then show ?thesis
      by (cases rule: claim_Inr_cases) (auto simp: inv intro: inv_grant_new inv_take_over)
  next
    case (Renew tid owner g ttl now)
    with ex obtain e where "renew_claim L tid owner g ttl now db = (Inr e, db')"
      by (auto simp: as_result_Inr)
    then show ?thesis by (cases rule: renew_claim_Inr_cases) (auto intro: inv_renew inv)
  next
    case (Complete tid owner g status res now)
    with ex have "complete L tid owner g status res now db = (Inr (), db')"
      by (auto simp: as_result_Inr)
    then show ?thesis
      by (cases rule: complete_Inr_cases) (use inv status_of_not_claimed in \<open>auto intro!: inv_finish\<close>)
  next
    case (Retry tid payload)
    with ex have "retry_investigation L tid payload db = (Inr (), db')"
      by (auto simp: as_result_Inr)
    then show ?thesis by (cases rule: retry_Inr_cases) (auto intro: inv_retry inv)
  qed
qed

interpretation control: transactional_store "control_exec L" store_inv for L
  by unfold_locales (fact control_exec_rollback, fact control_exec_inv)

end
