(* ===== verification/ControlProperties.thy ===== *)
theory ControlProperties
  imports ControlStore
begin

text \<open>
  What the control store promises its clients: leases are exclusive and fenced, a lease is
  completed at most once, enqueueing is idempotent, and no delivery task ever exists.
\<close>

section \<open>Properties: leases\<close>

text \<open>
  C16: Starting from an empty file, every sequence of control-store operations, failed ones
  included, ends in a store where task ids and slots are unique, a claim row exists exactly
  for the tasks in state \<open>claimed\<close> and carries the task's generation, and no generation of a
  task has two runs or a run while it is still claimed.
\<close>

theorem control_store_invariant: "store_inv (run_ops (control_exec L) cs empty_file)"
  by (rule control.run_inv [OF store_inv_empty])

text \<open>What is known for ever about a lease once it was granted.\<close>

definition lease_known :: "string \<Rightarrow> string \<Rightarrow> int \<Rightarrow> control_db \<Rightarrow> bool" where
  "lease_known tid owner g db \<longleftrightarrow>
     (\<exists>t. find_task tid db = Some t \<and> g \<le> t_generation t) \<and>
     (\<forall>c. find_claim tid db = Some c \<longrightarrow> c_generation c = g \<longrightarrow> c_owner c = owner)"

lemma claim_effect:
  assumes "store_inv db" "claim L tid owner ttl now db = (Inr (g, a, e), db')"
  shows "\<exists>t c. find_task tid db' = Some t \<and> t_generation t = g \<and> find_claim tid db' = Some c \<and>
     c_generation c = g \<and> c_owner c = owner"
    and "k \<noteq> tid \<Longrightarrow> find_task k db' = find_task k db \<and> find_claim k db' = find_claim k db"
  using assms(2)
proof (atomize (full), cases rule: claim_Inr_cases)
  case (new t later)
  then show "(\<exists>t c. find_task tid db' = Some t \<and> t_generation t = g \<and> find_claim tid db' = Some c \<and>
       c_generation c = g \<and> c_owner c = owner) \<and>
     (k \<noteq> tid \<longrightarrow> find_task k db' = find_task k db \<and> find_claim k db' = find_claim k db)"
    by (auto simp: grant_new_def update_task_def find_task_def find_claim_def
        task_table.lookup_upd claim_table.lookup_ins)
next
  case (takeover t c expiry later)
  then show "(\<exists>t c. find_task tid db' = Some t \<and> t_generation t = g \<and> find_claim tid db' = Some c \<and>
       c_generation c = g \<and> c_owner c = owner) \<and>
     (k \<noteq> tid \<longrightarrow> find_task k db' = find_task k db \<and> find_claim k db' = find_claim k db)"
    by (auto simp: take_over_def table_simps)
next
  case (reclaim t c expiry)
  moreover have "t_generation t = c_generation c"
    using assms(1) reclaim(1,3) by (auto simp: store_inv_def elim!: leases_okD)
  ultimately show "(\<exists>t c. find_task tid db' = Some t \<and> t_generation t = g \<and> find_claim tid db' = Some c \<and>
       c_generation c = g \<and> c_owner c = owner) \<and>
     (k \<noteq> tid \<longrightarrow> find_task k db' = find_task k db \<and> find_claim k db' = find_claim k db)"
    by auto
qed

text \<open>
  How one operation may move a task's row and claim: generations never fall, and a claim that
  keeps its generation keeps its owner.
\<close>

definition task_advances :: "string \<Rightarrow> control_db \<Rightarrow> control_db \<Rightarrow> bool" where
  "task_advances tid db db' \<longleftrightarrow>
     (\<forall>t. find_task tid db = Some t \<longrightarrow>
        (\<exists>t'. find_task tid db' = Some t' \<and> t_generation t \<le> t_generation t')) \<and>
     (\<forall>c'. find_claim tid db' = Some c' \<longrightarrow>
        (\<exists>c. find_claim tid db = Some c \<and> c_generation c = c_generation c' \<and> c_owner c = c_owner c') \<or>
        (\<forall>t. find_task tid db = Some t \<longrightarrow> t_generation t < c_generation c'))"

lemma task_advances_refl [simp]: "task_advances tid db db"
  by (auto simp: task_advances_def)

lemma claim_advances:
  assumes inv: "store_inv db" and cl: "claim L tid owner ttl now db = (Inr (g, a, e), db')"
  shows "task_advances k db db'"
proof (cases "k = tid")
  case False
  then show ?thesis using claim_effect(2) [OF inv cl] by (simp add: task_advances_def)
next
  case True
  from claim_effect(1) [OF inv cl] obtain t' c' where e: "find_task tid db' = Some t'"
      "t_generation t' = g" "find_claim tid db' = Some c'" "c_generation c' = g" "c_owner c' = owner"
    by blast
  from cl show ?thesis
  proof (cases rule: claim_Inr_cases)
    case (new t later)
    then show ?thesis using e True by (auto simp: task_advances_def)
  next
    case (takeover t c expiry later)
    moreover have "t_generation t = c_generation c"
      using inv takeover(1,3) by (auto simp: store_inv_def elim!: leases_okD)
    ultimately show ?thesis using e True by (auto simp: task_advances_def)
  next
    case (reclaim t c expiry)
    then show ?thesis by simp
  qed
qed

lemma control_exec_advances:
  assumes inv: "store_inv db"
  shows "task_advances k db (snd (control_exec L c db))"
proof (rule control_exec_inv_by_success [where P = "task_advances k db"])
  show "task_advances k db db" by simp
  fix y db' assume ex: "control_exec L c db = (Inr y, db')"
  show "task_advances k db db'"
  proof (cases c)
    case (Enqueue kind slot payload now)
    with ex obtain tid created where "enqueue L kind slot payload now db = (Inr (tid, created), db')"
      by (auto simp: as_result_Inr)
    then show ?thesis
      by (cases rule: enqueue_Inr_cases)
        (auto simp: task_advances_def find_task_def find_claim_def tbl_find_insert split: option.splits)
  next
    case (Claim tid owner ttl now)
    with ex obtain g a e where "claim L tid owner ttl now db = (Inr (g, a, e), db')"
      by (auto simp: as_result_Inr)
    then show ?thesis by (rule claim_advances [OF inv])
  next
    case (Renew tid owner g ttl now)
    with ex obtain e where "renew_claim L tid owner g ttl now db = (Inr e, db')"
      by (auto simp: as_result_Inr)
    then show ?thesis
      by (cases rule: renew_claim_Inr_cases) (auto simp: task_advances_def table_simps split: if_splits)
  next
    case (Complete tid owner g status res now)
    with ex have "complete L tid owner g status res now db = (Inr (), db')"
      by (auto simp: as_result_Inr)
    then show ?thesis
      by (cases rule: complete_Inr_cases)
        (auto simp: task_advances_def find_finish split: if_splits)
  next
    case (Retry tid payload)
    with ex have "retry_investigation L tid payload db = (Inr (), db')"
      by (auto simp: as_result_Inr)
    then show ?thesis
      by (cases rule: retry_Inr_cases) (auto simp: task_advances_def table_simps split: if_splits)
  qed
qed

lemma lease_known_stable:
  assumes "store_inv db" "lease_known tid owner g db"
  shows "lease_known tid owner g (run_ops (control_exec L) cs db)"
proof (rule control.run_stable [where P = "lease_known tid owner g", OF _ assms])
  fix c and s :: control_db
  assume "store_inv s" and kn: "lease_known tid owner g s"
  note adv = control_exec_advances [OF \<open>store_inv s\<close>, of tid L c]
  from kn obtain t where t: "find_task tid s = Some t" "g \<le> t_generation t"
    by (auto simp: lease_known_def)
  with adv obtain t' where "find_task tid (snd (control_exec L c s)) = Some t'"
      "t_generation t \<le> t_generation t'"
    by (auto simp: task_advances_def)
  moreover have "c_owner c' = owner"
    if "find_claim tid (snd (control_exec L c s)) = Some c'" "c_generation c' = g" for c'
    using adv kn t that unfolding task_advances_def lease_known_def by (metis leD)
  ultimately show "lease_known tid owner g (snd (control_exec L c s))"
    using t by (auto simp: lease_known_def)
qed

lemma claim_lease_known:
  "store_inv db \<Longrightarrow> claim L tid owner ttl now db = (Inr (g, a, e), db') \<Longrightarrow> lease_known tid owner g db'"
  using claim_effect(1) by (fastforce simp: lease_known_def)

lemma claim_inv: "store_inv db \<Longrightarrow> claim L tid owner ttl now db = (r, db') \<Longrightarrow> store_inv db'"
  using control_exec_inv [of db L "Claim tid owner ttl now"] by simp

lemma claim_generation_ge:
  assumes inv: "store_inv db" and cl: "claim L tid owner ttl now db = (Inr (g, a, e), db')"
    and t: "find_task tid db = Some t"
  shows "t_generation t \<le> g"
  using claim_advances [OF inv cl, of tid] claim_effect(1) [OF inv cl] t
  by (auto simp: task_advances_def)

text \<open>
  C2: A generation of a task is never held by two owners: if a claim grants generation \<open>g\<close> to
  one owner and, after any further operations of anybody, another claim on the same task
  returns the same generation, both owners are the same.
\<close>

theorem lease_exclusive:
  assumes "store_inv s"
    and "claim L tid owner ttl now s = (Inr (g, a, e), s1)"
    and "claim L tid owner' ttl' now' (run_ops (control_exec L) cs s1) = (Inr (g, a', e'), s2)"
  shows "owner' = owner"
proof -
  let ?s = "run_ops (control_exec L) cs s1"
  have inv1: "store_inv s1" using claim_inv assms(1,2) by blast
  have inv: "store_inv ?s" using control.run_inv inv1 .
  have kn: "lease_known tid owner g ?s"
    using lease_known_stable [OF inv1 claim_lease_known [OF assms(1,2)]] .
  from assms(3) show ?thesis
  proof (cases rule: claim_Inr_cases)
    case (new t later)
    then show ?thesis using kn by (auto simp: lease_known_def)
  next
    case (takeover t c expiry later)
    moreover have "t_generation t = c_generation c"
      using inv takeover(1,3) by (auto simp: store_inv_def elim!: leases_okD)
    ultimately show ?thesis using kn by (auto simp: lease_known_def)
  next
    case (reclaim t c expiry)
    then show ?thesis using kn by (auto simp: lease_known_def)
  qed
qed

lemma stale_generation_refused:
  assumes "\<And>c. find_claim tid db = Some c \<Longrightarrow> c_generation c \<noteq> g"
  shows "status_of status = Inr st \<Longrightarrow>
      complete L tid owner g status res now db = (Inl ClaimMismatchError, db)"
    and "0 < ttl \<Longrightarrow> shift_seconds now ttl = Inr later \<Longrightarrow>
      renew_claim L tid owner g ttl now db = (Inl ClaimMismatchError, db)"
    and "assert_claim L tid owner g now db = Inl ClaimMismatchError"
  using assms
  by (auto simp: complete_def renew_claim_def assert_claim_def Let_def immediate_tx_Inl
      simp del: status_of.simps split: option.splits)

lemma superseded_no_claim:
  assumes inv: "store_inv s"
    and c1: "claim L tid owner ttl now s = (Inr (g, a, e), s1)"
    and c2: "claim L tid owner' ttl' now' (run_ops (control_exec L) cs s1) = (Inr (g', a', e'), s2)"
    and ne: "g' \<noteq> g" and s3: "s3 = run_ops (control_exec L) cs' s2"
    and c: "find_claim tid s3 = Some c"
  shows "c_generation c \<noteq> g"
proof -
  let ?s = "run_ops (control_exec L) cs s1"
  have inv1: "store_inv s1" using claim_inv inv c1 by blast
  have invs: "store_inv ?s" using control.run_inv inv1 .
  have inv2: "store_inv s2" using claim_inv invs c2 by blast
  have "lease_known tid owner g ?s"
    using lease_known_stable [OF inv1 claim_lease_known [OF inv c1]] .
  then obtain t where "find_task tid ?s = Some t" "g \<le> t_generation t"
    by (auto simp: lease_known_def)
  then have less: "g < g'" using claim_generation_ge [OF invs c2] ne by force
  have inv3: "store_inv s3" unfolding s3 using control.run_inv inv2 .
  have "lease_known tid owner' g' s3"
    unfolding s3 using lease_known_stable [OF inv2 claim_lease_known [OF invs c2]] .
  then obtain t3 where t3: "find_task tid s3 = Some t3" "g' \<le> t_generation t3"
    by (auto simp: lease_known_def)
  then show ?thesis using inv3 c less by (auto simp: store_inv_def elim!: leases_okD)
qed

text \<open>
  C17: Once a lease of generation \<open>g\<close> has been superseded by a grant of another generation,
  its holder is fenced for ever: whatever operations follow, completing, renewing or asserting
  the old lease raises \<open>ClaimMismatchError\<close> and changes nothing.
\<close>

theorem superseded_lease_fenced:
  assumes inv: "store_inv s"
    and c1: "claim L tid owner ttl now s = (Inr (g, a, e), s1)"
    and c2: "claim L tid owner' ttl' now' (run_ops (control_exec L) cs s1) = (Inr (g', a', e'), s2)"
    and ne: "g' \<noteq> g" and s3: "s3 = run_ops (control_exec L) cs' s2"
    and st: "status \<in> {''completed'', ''failed''}"
    and ttl: "0 < ttl3" "shift_seconds now3 ttl3 = Inr later"
  shows "complete L tid owner g status res now3 s3 = (Inl ClaimMismatchError, s3) \<and>
    renew_claim L tid owner g ttl3 now3 s3 = (Inl ClaimMismatchError, s3) \<and>
    assert_claim L tid owner g now3 s3 = Inl ClaimMismatchError"
proof -
  note old = superseded_no_claim [OF inv c1 c2 ne s3]
  obtain st' where "status_of status = Inr st'" using st by auto
  then show ?thesis using stale_generation_refused [OF old] ttl by simp
qed

section \<open>Properties: completion\<close>

lemma runs_grow:
  assumes "r \<in> set (db_runs db)"
  shows "r \<in> set (db_runs (snd (control_exec L c db)))"
proof (rule control_exec_inv_by_success [where P = "\<lambda>d. r \<in> set (db_runs d)", OF assms])
  fix y db' assume ex: "control_exec L c db = (Inr y, db')"
  show "r \<in> set (db_runs db')"
  proof (cases c)
    case (Enqueue kind slot payload now)
    with ex obtain tid created where "enqueue L kind slot payload now db = (Inr (tid, created), db')"
      by (auto simp: as_result_Inr)
    then show ?thesis by (cases rule: enqueue_Inr_cases) (auto simp: assms)
  next
    case (Claim tid owner ttl now)
    with ex obtain g a e where "claim L tid owner ttl now db = (Inr (g, a, e), db')"
      by (auto simp: as_result_Inr)
    then show ?thesis
      by (cases rule: claim_Inr_cases) (auto simp: assms grant_new_def take_over_def frame_simps)
  next
    case (Renew tid owner g ttl now)
    with ex obtain e where "renew_claim L tid owner g ttl now db = (Inr e, db')"
      by (auto simp: as_result_Inr)
    then show ?thesis by (cases rule: renew_claim_Inr_cases) (auto simp: assms frame_simps)
  next
    case (Complete tid owner g status res now)
    with ex have "complete L tid owner g status res now db = (Inr (), db')"
      by (auto simp: as_result_Inr)
    then show ?thesis
      by (cases rule: complete_Inr_cases) (auto simp: assms finish_def frame_simps)
  next
    case (Retry tid payload)
    with ex have "retry_investigation L tid payload db = (Inr (), db')"
      by (auto simp: as_result_Inr)
    then show ?thesis by (cases rule: retry_Inr_cases) (auto simp: assms frame_simps)
  qed
qed

text \<open>
  C3: A lease is completed at most once, and only while it is live: a successful \<open>complete\<close>
  happens strictly before the claim's expiry, records exactly one run for its generation, and
  no later \<open>complete\<close> of that generation succeeds, whatever happens in between.
\<close>

theorem complete_at_most_once:
  assumes inv: "store_inv s" and co: "complete L tid owner g status res now s = (Inr (), s1)"
  shows "(\<exists>c expiry. find_claim tid s = Some c \<and> c_owner c = owner \<and> c_generation c = g \<and>
        parse_utc_iso L (c_expires_at_utc c) = Inr expiry \<and> now < expiry) \<and>
     length (db_runs s1) = Suc (length (db_runs s)) \<and>
     length (filter (\<lambda>r. r_task_id r = tid \<and> r_generation r = g) (db_runs s1)) = 1 \<and>
     (\<forall>cs owner' status' res' now'. \<exists>e.
        fst (complete L tid owner' g status' res' now' (run_ops (control_exec L) cs s1)) = Inl e)"
proof -
  from co obtain c expiry st where c: "status_of status = Inr st" "find_claim tid s = Some c"
      "c_owner c = owner" "c_generation c = g" "parse_utc_iso L (c_expires_at_utc c) = Inr expiry"
      "now < expiry" and s1: "s1 = finish tid owner g st res (utc_now_iso now) s"
    by (rule complete_Inr_cases)
  define r where "r = run_entry tid owner g st res (utc_now_iso now) (db_run_seq s + 1)"
  have runs: "db_runs s1 = db_runs s @ [r]" by (simp add: s1 finish_def frame_simps r_def)
  have rk: "r_task_id r = tid" "r_generation r = g" by (simp_all add: r_def run_entry_def)
  have inv1: "store_inv s1" using s1 inv_finish [OF inv c(2,4) status_of_not_claimed [OF c(1)]] by simp
  have "(tid, g) \<notin> (\<lambda>r. (r_task_id r, r_generation r)) ` set (db_runs s)"
    using inv1 rk by (auto simp: store_inv_def runs_ok_def runs)
  then have none: "filter (\<lambda>r. r_task_id r = tid \<and> r_generation r = g) (db_runs s) = []"
    by (auto simp: filter_empty_conv)
  have "\<exists>e. fst (complete L tid owner' g status' res' now' (run_ops (control_exec L) cs s1)) = Inl e"
    for cs owner' status' res' now'
  proof -
    let ?s = "run_ops (control_exec L) cs s1"
    have invs: "store_inv ?s" using control.run_inv inv1 .
    have "r \<in> set (db_runs ?s)"
      by (rule control.run_stable [where P = "\<lambda>d. r \<in> set (db_runs d)"])
        (auto intro: runs_grow inv1 simp: runs)
    then obtain t where t: "find_task tid ?s = Some t" "t_state t = Claimed \<longrightarrow> g < t_generation t"
      using invs rk by (auto simp: store_inv_def runs_ok_def)
    have "c_generation c \<noteq> g" if "find_claim tid ?s = Some c" for c
      using invs that t by (auto simp: store_inv_def elim!: leases_okD)
    then show ?thesis
      using stale_generation_refused(1) [of tid ?s g status' _ L owner' res' now']
      by (cases "status_of status'") (auto simp: complete_def simp del: status_of.simps)
  qed
  then show ?thesis using c none rk by (auto simp: runs)
qed

section \<open>Properties: enqueue\<close>

definition task_fixed :: "string \<Rightarrow> string \<Rightarrow> string \<Rightarrow> control_db \<Rightarrow> bool" where
  "task_fixed tid kind pj db \<longleftrightarrow>
     (\<exists>t. find_task tid db = Some t \<and> t_kind t = kind \<and> t_payload_json t = pj)"

lemma task_fixed_exec:
  assumes "kind \<noteq> ''investigate''" "task_fixed tid kind pj db"
  shows "task_fixed tid kind pj (snd (control_exec L c db))"
proof (rule control_exec_inv_by_success [where P = "task_fixed tid kind pj", OF assms(2)])
  fix y db' assume ex: "control_exec L c db = (Inr y, db')"
  show "task_fixed tid kind pj db'"
  proof (cases c)
    case (Enqueue k slot payload now)
    with ex obtain i created where "enqueue L k slot payload now db = (Inr (i, created), db')"
      by (auto simp: as_result_Inr)
    then show ?thesis
      by (cases rule: enqueue_Inr_cases)
        (use assms(2) in \<open>auto simp: task_fixed_def find_task_def tbl_find_insert split: option.splits\<close>)
  next
    case (Claim i owner ttl now)
    with ex obtain g a e where "claim L i owner ttl now db = (Inr (g, a, e), db')"
      by (auto simp: as_result_Inr)
    then show ?thesis
      by (cases rule: claim_Inr_cases)
        (use assms(2) in \<open>auto simp: task_fixed_def grant_new_def take_over_def find_task_def
          frame_simps table_simps split: option.splits if_splits\<close>)
  next
    case (Renew i owner g ttl now)
    with ex obtain e where "renew_claim L i owner g ttl now db = (Inr e, db')"
      by (auto simp: as_result_Inr)
    then show ?thesis
      by (cases rule: renew_claim_Inr_cases) (use assms(2) in \<open>auto simp: task_fixed_def table_simps\<close>)
  next
    case (Complete i owner g status res now)
    with ex have "complete L i owner g status res now db = (Inr (), db')"
      by (auto simp: as_result_Inr)
    then show ?thesis
      by (cases rule: complete_Inr_cases)
        (use assms(2) in \<open>auto simp: task_fixed_def find_finish split: if_splits\<close>)
  next
    case (Retry i payload)
    with ex have "retry_investigation L i payload db = (Inr (), db')"
      by (auto simp: as_result_Inr)
    then show ?thesis
      by (cases rule: retry_Inr_cases)
        (use assms in \<open>auto simp: task_fixed_def table_simps split: if_splits\<close>)
  qed
qed

lemma enqueue_present:
  assumes "enqueue_args L kind slot payload = Inr (payload, job_key, tid)"
    and "find_task tid db = Some t"
  shows "enqueue L kind slot payload now db =
    (if t_payload_json t = json_dumps L (PDict payload) then Inr (tid, False)
     else Inl PayloadConflictError, db)"
  using assms by (auto simp: enqueue_def Let_def immediate_tx_def)

text \<open>The task id does not depend on the payload, except for investigations.\<close>

lemma enqueue_args_payload:
  assumes "enqueue_args L kind slot p = Inr (p, jk, tid)" "kind \<noteq> ''investigate''"
    "validate_payload q = Inr q"
  shows "enqueue_args L kind slot q = Inr (q, jk, tid)"
  using assms by (auto simp: enqueue_args_def)

text \<open>
  Enqueueing is idempotent for ever: after a scheduled (non-investigation) task was
  enqueued, and whatever workers and schedulers did since, enqueueing the same slot with the
  same payload reports "not created" and changes nothing, while an acceptable payload with a
  different canonical form raises \<open>PayloadConflictError\<close> and changes nothing.
\<close>

theorem enqueue_replay:
  assumes inv: "store_inv s" and kind: "kind \<noteq> ''investigate''"
    and en: "enqueue L kind slot payload now s = (Inr (tid, True), s1)"
    and s2: "s2 = run_ops (control_exec L) cs s1"
    and ok: "validate_payload payload' = Inr payload'"
  shows "enqueue L kind slot payload' now' s2 =
    (if json_dumps L (PDict payload') = json_dumps L (PDict payload) then Inr (tid, False)
     else Inl PayloadConflictError, s2)"
proof -
  have inv1: "store_inv s1" using control_exec_inv [OF inv, of L "Enqueue kind slot payload now"] en by simp
  from en obtain jk where args: "enqueue_args L kind slot payload = Inr (payload, jk, tid)"
    and fx: "task_fixed tid kind (json_dumps L (PDict payload)) s1"
    by (cases rule: enqueue_Inr_cases)
      (auto simp: task_fixed_def find_task_def tbl_find_insert)
  have "task_fixed tid kind (json_dumps L (PDict payload)) s2"
    unfolding s2 by (rule control.run_stable [where P = "task_fixed tid kind (json_dumps L (PDict payload))"])
      (rule task_fixed_exec [OF kind], assumption, rule inv1, rule fx)
  then obtain t where t: "find_task tid s2 = Some t" "t_payload_json t = json_dumps L (PDict payload)"
    by (auto simp: task_fixed_def)
  show ?thesis using enqueue_present [OF enqueue_args_payload [OF args kind ok] t(1)] t(2) by auto
qed

text \<open>
  No sequence of operations on an empty file ever stores a delivery task: the validation
  query for delivery rows always reports zero.
\<close>

theorem zero_delivery: "zero_delivery_check (run_ops (control_exec L) cs empty_file) = (0, [])"
proof -
  have "store_inv (run_ops (control_exec L) cs empty_file)"
    by (rule control.run_inv [OF store_inv_empty])
  then have "t_kind t \<noteq> DELIVERY_KIND_FORBIDDEN"
    if "t \<in> set (db_tasks (run_ops (control_exec L) cs empty_file))" for t
    using that by (fastforce simp: store_inv_def tasks_ok_def ALLOWED_KINDS_def DELIVERY_KIND_FORBIDDEN_def)
  then show ?thesis by (simp add: zero_delivery_check_def Let_def filter_empty_conv)
qed

section \<open>Properties: selection agrees with claiming\<close>

text \<open>The clock reading of an operation, and the expiry texts the operations leave.\<close>

fun op_clock_ok :: "control_op \<Rightarrow> bool" where
  "op_clock_ok (Enqueue kind slot payload now) = True"
| "op_clock_ok (Claim tid owner ttl now) = (now \<in> text_range)"
| "op_clock_ok (Renew tid owner g ttl now) = (now \<in> text_range)"
| "op_clock_ok (Complete tid owner g status res now) = True"
| "op_clock_ok (Retry tid payload) = True"

definition expiries_ok :: "control_db \<Rightarrow> bool" where
  "expiries_ok db \<longleftrightarrow> (\<forall>tid c. find_claim tid db = Some c \<longrightarrow>
     (\<exists>x \<in> text_range. c_expires_at_utc c = utc_now_iso x))"

lemma shift_seconds_range:
  "now \<in> text_range \<Longrightarrow> 0 < ttl \<Longrightarrow> shift_seconds now ttl = Inr later \<Longrightarrow> later \<in> text_range"
  by (auto simp: shift_seconds_def text_range_def Let_def split: if_splits)

lemma find_claim_grant:
  "find_claim k (grant_new tid owner g e ts db) =
     (case find_claim k db of Some c \<Rightarrow> Some c
      | None \<Rightarrow> if k = tid then Some \<lparr>c_task_id = tid, c_owner = owner, c_generation = g,
          c_attempt = 1, c_expires_at_utc = e, c_claimed_at_utc = ts\<rparr> else None)"
  by (simp add: grant_new_def find_other_table) (simp add: find_claim_def tbl_find_insert split: option.splits)

lemma find_claim_take_over:
  "find_claim k (take_over tid owner g a e ts db) =
     (if k = tid then map_option (\<lambda>c. c\<lparr>c_owner := owner, c_generation := g, c_attempt := a,
          c_expires_at_utc := e, c_claimed_at_utc := ts\<rparr>) (find_claim tid db) else find_claim k db)"
  by (simp add: take_over_def find_other_table find_claim_update)

lemma expiries_ok_grant:
  assumes "expiries_ok db" "x \<in> text_range"
  shows "expiries_ok (grant_new tid owner g (utc_now_iso x) ts db)"
    and "expiries_ok (take_over tid owner g a (utc_now_iso x) ts db)"
    and "expiries_ok (update_claim tid (\<lambda>c. c\<lparr>c_expires_at_utc := utc_now_iso x, c_claimed_at_utc := ts\<rparr>) db)"
  using assms unfolding expiries_ok_def find_claim_grant find_claim_take_over
  by (auto simp: find_claim_update split: option.splits if_splits)

lemma expiries_ok_exec:
  assumes ok: "expiries_ok db" and clock: "op_clock_ok c"
  shows "expiries_ok (snd (control_exec L c db))"
proof (rule control_exec_inv_by_success [where P = expiries_ok, OF ok])
  fix y db' assume ex: "control_exec L c db = (Inr y, db')"
  show "expiries_ok db'"
  proof (cases c)
    case (Enqueue k slot payload now)
    with ex obtain i created where "enqueue L k slot payload now db = (Inr (i, created), db')"
      by (auto simp: as_result_Inr)
    then show ?thesis
      by (cases rule: enqueue_Inr_cases) (use ok in \<open>auto simp: expiries_ok_def find_claim_def\<close>)
  next
    case (Claim i owner ttl now)
    with ex obtain g a e where "claim L i owner ttl now db = (Inr (g, a, e), db')"
      by (auto simp: as_result_Inr)
    then show ?thesis
      by (cases rule: claim_Inr_cases)
        (use ok clock Claim in \<open>auto intro: expiries_ok_grant shift_seconds_range\<close>)
  next
    case (Renew i owner g ttl now)
    with ex obtain e where "renew_claim L i owner g ttl now db = (Inr e, db')"
      by (auto simp: as_result_Inr)
    then show ?thesis
    proof (cases rule: renew_claim_Inr_cases)
      case (1 c' expiry later)
      have "later \<in> text_range" using clock Renew shift_seconds_range [OF _ 1(6,7)] by simp
      then show ?thesis unfolding 1(8,9) by (rule expiries_ok_grant(3) [OF ok])
    qed
  next
    case (Complete i owner g status res now)
    with ex have "complete L i owner g status res now db = (Inr (), db')"
      by (auto simp: as_result_Inr)
    then show ?thesis
      by (cases rule: complete_Inr_cases)
        (use ok in \<open>auto simp: expiries_ok_def find_finish split: if_splits\<close>)
  next
    case (Retry i payload)
    with ex have "retry_investigation L i payload db = (Inr (), db')"
      by (auto simp: as_result_Inr)
    then show ?thesis
      by (cases rule: retry_Inr_cases) (use ok in \<open>auto simp: expiries_ok_def table_simps\<close>)
  qed
qed

lemma expiries_ok_run:
  "expiries_ok db \<Longrightarrow> list_all op_clock_ok cs \<Longrightarrow> expiries_ok (run_ops (control_exec L) cs db)"
  by (induction cs arbitrary: db) (auto intro: expiries_ok_exec)

lemma claim_by_stranger:
  assumes inv: "store_inv db" and ok: "expiries_ok db" and iso: "iso_contract L"
    and t: "find_task tid db = Some t" and now: "now \<in> text_range"
    and ttl: "0 < ttl" "shift_seconds now ttl = Inr later"
    and strange: "\<forall>c. find_claim tid db = Some c \<longrightarrow> c_owner c \<noteq> owner"
  shows "(\<exists>r. fst (claim L tid owner ttl now db) = Inr r) \<longleftrightarrow>
    t_state t = Pending \<or> t_state t = Claimed \<and>
      (\<exists>c. find_claim tid db = Some c \<and> c_expires_at_utc c \<le> utc_now_iso now)"
proof (cases "find_claim tid db")
  case None
  then have "t_state t \<noteq> Claimed" using inv t leases_ok_claimed unfolding store_inv_def by blast
  then show ?thesis
    using None t ttl by (auto simp: claim_def Let_def insert_claim_def)
next
  case (Some c)
  then obtain x where x: "x \<in> text_range" "c_expires_at_utc c = utc_now_iso x"
    using ok by (auto simp: expiries_ok_def)
  have "t_state t = Claimed" using inv t Some by (auto simp: store_inv_def elim!: leases_okD)
  then show ?thesis
    using Some t ttl strange x
    by (auto simp: claim_def Let_def parse_utc_now_iso [OF iso] us_clock.fmt_le_iff now)
qed

text \<open>
  C32: The scheduler's selection is exact: in every store reachable with clock readings in the
  years 1000 to 9999, the tasks listed as selectable at an instant are precisely those of the kind
  that an owner holding no claim could claim at that instant; textual comparison of expiry
  stamps and the parsed comparison in \<open>claim\<close> never disagree.
\<close>

theorem selectable_exact:
  assumes iso: "iso_contract L" and clocks: "list_all op_clock_ok cs"
    and s: "s = run_ops (control_exec L) cs empty_file"
    and kind: "kind \<in> set ALLOWED_KINDS" and now: "now \<in> text_range"
    and ttl: "0 < ttl" "shift_seconds now ttl = Inr later"
    and strange: "\<forall>c \<in> set (db_claims s). c_owner c \<noteq> owner"
  shows "\<exists>rows. selectable_tasks kind now None s = Inr rows \<and>
    set (map fst rows) = {t \<in> set (db_tasks s). t_kind t = kind \<and>
      (\<exists>r. fst (claim L (t_task_id t) owner ttl now s) = Inr r)}"
proof -
  have inv: "store_inv s" unfolding s by (rule control.run_inv [OF store_inv_empty])
  have ok: "expiries_ok s"
    unfolding s by (rule expiries_ok_run [OF _ clocks]) (simp add: expiries_ok_def find_claim_def empty_file_def)
  have vk: "validate_kind kind = Inr kind"
    using kind by (auto simp: validate_kind_def ALLOWED_KINDS_def DELIVERY_KIND_FORBIDDEN_def)
  have st: "(\<exists>r. fst (claim L (t_task_id t) owner ttl now s) = Inr r) \<longleftrightarrow>
    t_state t = Pending \<or> t_state t = Claimed \<and>
      (\<exists>c. find_claim (t_task_id t) s = Some c \<and> c_expires_at_utc c \<le> utc_now_iso now)"
    if "t \<in> set (db_tasks s)" for t
  proof (rule claim_by_stranger [OF inv ok iso _ now ttl])
    show "find_task (t_task_id t) s = Some t"
      using inv that by (auto simp: store_inv_def tasks_ok_def find_task_def tbl_find_Some)
    show "\<forall>c. find_claim (t_task_id t) s = Some c \<longrightarrow> c_owner c \<noteq> owner"
      using strange by (auto simp: find_claim_def dest: tbl_find_SomeD)
  qed
  let ?q = "\<lambda>t. t_kind t = kind \<and> (t_state t = Pending \<or>
      t_state t = Claimed \<and> find_claim (t_task_id t) s \<noteq> None)"
  let ?e = "\<lambda>t. t_state t = Pending \<or> (case find_claim (t_task_id t) s of None \<Rightarrow> False
      | Some c \<Rightarrow> c_expires_at_utc c \<le> utc_now_iso now)"
  let ?g = "\<lambda>t. t_kind t = kind \<and> (\<exists>r. fst (claim L (t_task_id t) owner ttl now s) = Inr r)"
  have sel: "?q t \<and> ?e t \<longleftrightarrow> ?g t" if "t \<in> set (db_tasks s)" for t
    unfolding st [OF that] by (auto split: option.splits)
  have "\<exists>rows. selectable_tasks kind now None s = Inr rows \<and>
      set (map fst rows) = {t \<in> set (db_tasks s). ?q t \<and> ?e t}"
    by (simp add: selectable_tasks_def vk Let_def slice_to_def filter_map o_def image_image
        del: split_paired_Ex)
  moreover have "{t \<in> set (db_tasks s). ?q t \<and> ?e t} = {t \<in> set (db_tasks s). ?g t}"
    using sel by blast
  ultimately show ?thesis by simp
qed

section \<open>Properties: retries\<close>

text \<open>A task whose stored payload parses to a given round and that round is the last one.\<close>

definition last_round :: "pylib \<Rightarrow> string \<Rightarrow> control_db \<Rightarrow> bool" where
  "last_round L tid db \<longleftrightarrow> (\<exists>t d. find_task tid db = Some t \<and>
     json_loads L (t_payload_json t) = Some (PDict d) \<and> int_of d ''round_number'' = 1)"

lemma retry_refused_last_round:
  assumes "last_round L tid db"
  shows "\<exists>e. fst (retry_investigation L tid payload db) = Inl e"
proof (rule ccontr)
  assume "\<not> ?thesis"
  then obtain u where "fst (retry_investigation L tid payload db) = Inr u"
    by (cases "fst (retry_investigation L tid payload db)") auto
  then have "retry_investigation L tid payload db = (Inr u, snd (retry_investigation L tid payload db))"
    by (metis prod.collapse)
  then show False
  proof (cases rule: retry_Inr_cases)
    case (1 t previous)
    then show False using assms validated_round [OF 1(6)] by (auto simp: last_round_def)
  qed
qed

lemma last_round_exec:
  assumes "last_round L tid db"
  shows "last_round L tid (snd (control_exec L c db))"
proof (rule control_exec_inv_by_success [where P = "last_round L tid", OF assms])
  obtain t where t: "find_task tid db = Some t"
    "\<exists>d. json_loads L (t_payload_json t) = Some (PDict d) \<and> int_of d ''round_number'' = 1"
    using assms by (auto simp: last_round_def)
  fix y db' assume ex: "control_exec L c db = (Inr y, db')"
  have "\<exists>t'. find_task tid db' = Some t' \<and> t_payload_json t' = t_payload_json t"
  proof (cases c)
    case (Enqueue k slot payload now)
    with ex obtain i created where "enqueue L k slot payload now db = (Inr (i, created), db')"
      by (auto simp: as_result_Inr)
    then show ?thesis
      by (cases rule: enqueue_Inr_cases) (use t in \<open>auto simp: find_task_def tbl_find_insert\<close>)
  next
    case (Claim i owner ttl now)
    with ex obtain g a e where "claim L i owner ttl now db = (Inr (g, a, e), db')"
      by (auto simp: as_result_Inr)
    then show ?thesis
      by (cases rule: claim_Inr_cases)
        (use t in \<open>auto simp: grant_new_def take_over_def find_task_def frame_simps table_simps\<close>)
  next
    case (Renew i owner g ttl now)
    with ex obtain e where "renew_claim L i owner g ttl now db = (Inr e, db')"
      by (auto simp: as_result_Inr)
    then show ?thesis by (cases rule: renew_claim_Inr_cases) (use t in \<open>auto simp: table_simps\<close>)
  next
    case (Complete i owner g status res now)
    with ex have "complete L i owner g status res now db = (Inr (), db')"
      by (auto simp: as_result_Inr)
    then show ?thesis by (cases rule: complete_Inr_cases) (use t in \<open>auto simp: find_finish\<close>)
  next
    case (Retry i payload)
    with ex have r: "retry_investigation L i payload db = (Inr (), db')" by (auto simp: as_result_Inr)
    then have "i \<noteq> tid"
      using retry_refused_last_round [OF assms, of payload] by auto
    with r show ?thesis by (cases rule: retry_Inr_cases) (use t in \<open>auto simp: table_simps\<close>)
  qed
  then show "last_round L tid db'" using t(2) unfolding last_round_def by metis
qed

text \<open>
  An investigation is retried at most once: a retry that succeeds took a failed task of
  round 0 to round 1, and no later retry of that task succeeds, whatever workers do in
  between. The JSON parser is only assumed to read back the payload that was written.
\<close>

theorem retry_at_most_once:
  assumes inv: "store_inv s" and re: "retry_investigation L tid payload s = (Inr (), s1)"
    and json: "json_loads L (json_dumps L (PDict payload)) = Some (PDict payload')"
    and same: "map_of payload' = map_of payload"
  shows "int_of payload ''round_number'' = 1 \<and>
    (\<exists>t. find_task tid s = Some t \<and> t_state t = Failed) \<and>
    (\<exists>t. find_task tid s1 = Some t \<and> t_state t = Pending) \<and>
    (\<forall>cs payload''. \<exists>e.
       fst (retry_investigation L tid payload'' (run_ops (control_exec L) cs s1)) = Inl e)"
  using re
proof (cases rule: retry_Inr_cases)
  case (1 t previous)
  have rnd: "int_of payload ''round_number'' = 1"
    using validated_round [OF 1(5)] validated_round [OF 1(6)] 1(8) by linarith
  have inv1: "store_inv s1" using control_exec_inv [OF inv, of L "Retry tid payload"] re
    by (simp add: as_result_def)
  have t1: "find_task tid s1 = Some (t\<lparr>t_state := Pending, t_payload_json := json_dumps L (PDict payload)\<rparr>)"
    using 1(1) unfolding 1(9) by (simp add: find_task_update del: json_dumps.simps)
  have "int_of payload' ''round_number'' = 1" using rnd same by (simp add: int_of_def)
  then have last: "last_round L tid s1"
    using t1 json unfolding last_round_def by (auto simp del: json_dumps.simps)
  have "last_round L tid (run_ops (control_exec L) cs s1)" for cs
    by (rule control.run_stable [where P = "last_round L tid"])
      (rule last_round_exec, assumption, rule inv1, rule last)
  then show ?thesis using rnd 1(1,3) t1 retry_refused_last_round by auto
qed

section \<open>Properties: diagnostics\<close>

text \<open>
  \<open>foreign_key_check\<close> cannot report a violation: the first column of a violation row is
  the name of the referencing table, and converting \<open>claims\<close> or \<open>runs\<close> (the only
  tables of the schema with a foreign key) to an integer raises \<open>ValueError\<close>.
\<close>

theorem foreign_key_check_raises:
  "foreign_key_check ((''claims'', rowid, parent, fkid) # rows) = Inl ValueError \<and>
   foreign_key_check ((''runs'', rowid, parent, fkid) # rows) = Inl ValueError \<and>
   foreign_key_check [] = Inr []"
  by (simp add: foreign_key_check_def py_int_def strip_def is_space_def starts_with_def is_digit_def)

text \<open>
  A sanitized error message holds no control character but newline and tab and is at most
  \<open>max_length\<close> characters long (for a bound of at least three), a message that already is
  within both limits is kept as it is, and sanitizing twice changes nothing more.
\<close>

theorem sanitize_error_message_bounded:
  assumes "3 \<le> max_length" "sanitize_error_message (Some m) max_length = Some r"
  shows "int (length r) \<le> max_length \<and> list_all kept_char r \<and>
    (list_all kept_char m \<and> int (length m) \<le> max_length \<longrightarrow> r = m) \<and>
    sanitize_error_message (Some r) max_length = Some r"
proof -
  let ?c = "filter kept_char m"
  have dots: "list_all kept_char ''...''" by (simp add: kept_char_def)
  have r: "r = (if int (length ?c) > max_length then take (nat (max_length - 3)) ?c @ ''...'' else ?c)"
    using assms by (auto simp: sanitize_error_message_def slice_to_def Let_def)
  have len: "int (length r) \<le> max_length" using assms(1) by (auto simp: r)
  have kept: "list_all kept_char r"
    using dots by (auto simp: r list_all_iff dest: in_set_takeD)
  have "filter kept_char r = r" using kept by (simp add: list_all_iff)
  moreover have "r = m" if "list_all kept_char m" "int (length m) \<le> max_length"
    using that by (simp add: r list_all_iff filter_id_conv)
  ultimately show ?thesis using len kept by (simp add: sanitize_error_message_def)
qed

section \<open>Properties: schema upgrade\<close>

lemma schema_version_snoc:
  "schema_version (db\<lparr>db_schema_meta := ms @ [m]\<rparr>) = (if ms = [] then fst m else max (Max (fst ` set ms)) (fst m))"
  by (auto simp: schema_version_def max.commute)

text \<open>
  Opening a file upgrades it once and loses nothing: when \<open>bootstrap_schema\<close> succeeds,
  claims and runs are untouched, every task row is kept up to its job key, a new or version-1
  file ends at the current version, and opening the result again changes nothing.
\<close>

theorem bootstrap_keeps_data:
  assumes "bootstrap_schema now db = (Inr (), db1)"
  shows "db_claims db1 = db_claims db \<and> db_runs db1 = db_runs db \<and>
    map (\<lambda>t. t\<lparr>t_job_key := []\<rparr>) (db_tasks db1) = map (\<lambda>t. t\<lparr>t_job_key := []\<rparr>) (db_tasks db) \<and>
    (db_schema_meta db = [] \<or> schema_version db = 1 \<longrightarrow> schema_version db1 = SCHEMA_VERSION) \<and>
    bootstrap_schema now' db1 = (Inr (), db1)"
proof -
  consider (new) "db_schema_meta db = []" "db1 = db\<lparr>db_schema_meta := [] @ [(SCHEMA_VERSION, utc_now_iso now)]\<rparr>"
    | (old) "schema_version db = 1" "upgrade_v1_to_v2 now db = (Inr (), db1)" "db_schema_meta db \<noteq> []"
    | (same) "db1 = db" "schema_version db \<noteq> 1" "\<not> schema_version db > SCHEMA_VERSION"
        "db_schema_meta db \<noteq> []"
    using assms by (auto simp: bootstrap_schema_def split: if_splits)
  then show ?thesis
  proof cases
    case new
    then show ?thesis by (simp add: bootstrap_schema_def schema_version_snoc SCHEMA_VERSION_def
          schema_version_def)
  next
    case old
    have mx: "Max (fst ` set (db_schema_meta db)) = 1"
      using old by (simp add: schema_version_def)
    have no2: "SCHEMA_VERSION \<notin> set (map fst (db_schema_meta db))"
    proof
      assume "SCHEMA_VERSION \<in> set (map fst (db_schema_meta db))"
      then have "SCHEMA_VERSION \<le> Max (fst ` set (db_schema_meta db))" by (intro Max_ge) auto
      then show False using mx by (simp add: SCHEMA_VERSION_def)
    qed
    obtain ts b where db1: "db1 = db\<lparr>db_tasks := ts, db_has_job_key := b,
        db_schema_meta := db_schema_meta db @ [(SCHEMA_VERSION, utc_now_iso now)]\<rparr>"
      and ts: "map (\<lambda>t. t\<lparr>t_job_key := []\<rparr>) ts = map (\<lambda>t. t\<lparr>t_job_key := []\<rparr>) (db_tasks db)"
    proof (cases "db_has_job_key db")
      case True
      then show ?thesis
        using old(2) no2 that [of True "db_tasks db"] by (auto simp: upgrade_v1_to_v2_def)
    next
      case False
      then show ?thesis
        using old(2) no2 that [of True "map (\<lambda>t. t\<lparr>t_job_key := []\<rparr>) (db_tasks db)"]
        by (auto simp: upgrade_v1_to_v2_def immediate_tx_Inr Let_def split: if_splits)
    qed
    have v: "schema_version db1 = SCHEMA_VERSION"
      using old(3) mx by (simp add: db1 schema_version_snoc SCHEMA_VERSION_def)
    then have "bootstrap_schema now' db1 = (Inr (), db1)"
      by (simp add: bootstrap_schema_def SCHEMA_VERSION_def) (simp add: db1)
    then show ?thesis using v ts by (simp add: db1)
  next
    case same
    then show ?thesis using assms by (auto simp: bootstrap_schema_def)
  qed
qed

section \<open>A concrete run\<close>

text \<open>
  One pending task, two workers, and an investigation task that failed in its first round. The
  library functions are concrete: the strict time parser, an identity digest, and a JSON reader
  that knows the two payloads of the run.
\<close>

definition demo_lib0 :: pylib where
  "demo_lib0 = \<lparr>sha256_hexdigest = (\<lambda>s. s), fromisoformat_utc = strict_fromiso,
     json_loads = (\<lambda>s. None), float_repr = (\<lambda>f. ''0.0''),
     container_str = (\<lambda>v. ''...'')\<rparr>"

definition demo_payload :: "int \<Rightarrow> pydict" where
  "demo_payload rnd =
     [(''investigation_id'', PStr (investigation_id demo_lib0 ''c'' ''l'' ''p'')),
      (''candidate_id'', PStr ''c''), (''feed_lane_id'', PStr ''l''), (''query_plan_id'', PStr ''p''),
      (''category'', PStr ''ai''), (''round_number'', PInt rnd)]"

definition demo_lib :: pylib where
  "demo_lib = demo_lib0\<lparr>json_loads := (\<lambda>s.
     if s = json_dumps demo_lib0 (PDict (demo_payload 0)) then Some (PDict (demo_payload 0))
     else if s = json_dumps demo_lib0 (PDict (demo_payload 1)) then Some (PDict (demo_payload 1))
     else None)\<rparr>"

definition demo_now :: instant where
  "demo_now = 63900000000000000"

definition demo_task :: task_row where
  "demo_task = \<lparr>t_task_id = ''t1'', t_kind = ''ingest'', t_due_slot_utc = ''slot'', t_job_key = [],
     t_payload_json = ''{}'', t_state = Pending, t_generation = 0, t_created_at = ''x''\<rparr>"

definition demo_db :: control_db where
  "demo_db = empty_file\<lparr>db_tasks := [demo_task]\<rparr>"

lemma demo_iso: "iso_contract demo_lib"
  by (rule iso_contract_strict) (simp add: demo_lib_def demo_lib0_def)

lemma demo_times [simp]:
  "demo_now \<in> text_range" "demo_now + 60000000 \<in> text_range" "demo_now + 120000000 \<in> text_range"
  "shift_seconds demo_now 60 = Inr (demo_now + 60000000)"
  "shift_seconds (demo_now + 60000000) 60 = Inr (demo_now + 120000000)"
  by (simp_all add: demo_now_def text_range_def min_text_instant_def max_instant_def shift_seconds_def)

lemma demo_parse [simp]: "t \<in> text_range \<Longrightarrow> parse_utc_iso demo_lib (utc_now_iso t) = Inr t"
  by (rule parse_utc_now_iso [OF demo_iso])

lemma demo_find [simp]: "find_task ''t1'' demo_db = Some demo_task" "find_claim k demo_db = None"
  by (simp_all add: find_task_def find_claim_def demo_db_def demo_task_def empty_file_def)

lemma demo_db_inv: "store_inv demo_db"
  by (auto simp: store_inv_def tasks_ok_def leases_ok_def runs_ok_def demo_db_def demo_task_def
      empty_file_def find_task_def find_claim_def ALLOWED_KINDS_def tbl_keyed_def)

definition demo_db1 :: control_db where
  "demo_db1 = grant_new ''t1'' ''w1'' 1 (utc_now_iso (demo_now + 60000000)) (utc_now_iso demo_now) demo_db"

lemma demo_claim:
  "claim demo_lib ''t1'' ''w1'' 60 demo_now demo_db =
     (Inr (1, 1, utc_now_iso (demo_now + 60000000)), demo_db1)"
proof -
  have "t_state demo_task = Pending" "t_generation demo_task = 0" by (simp_all add: demo_task_def)
  then show ?thesis
    by (simp add: claim_def insert_claim_def immediate_tx_def demo_db1_def grant_new_def Let_def)
qed

lemma demo_find1 [simp]:
  "find_claim ''t1'' demo_db1 = Some \<lparr>c_task_id = ''t1'', c_owner = ''w1'', c_generation = 1,
     c_attempt = 1, c_expires_at_utc = utc_now_iso (demo_now + 60000000),
     c_claimed_at_utc = utc_now_iso demo_now\<rparr>"
  "find_task ''t1'' demo_db1 = Some (demo_task\<lparr>t_state := Claimed, t_generation := 1\<rparr>)"
proof -
  show "find_claim ''t1'' demo_db1 = Some \<lparr>c_task_id = ''t1'', c_owner = ''w1'', c_generation = 1,
     c_attempt = 1, c_expires_at_utc = utc_now_iso (demo_now + 60000000),
     c_claimed_at_utc = utc_now_iso demo_now\<rparr>"
    by (simp add: demo_db1_def find_claim_grant)
  show "find_task ''t1'' demo_db1 = Some (demo_task\<lparr>t_state := Claimed, t_generation := 1\<rparr>)"
    by (simp add: demo_db1_def grant_new_def find_task_update)
      (simp add: find_task_def demo_db_def demo_task_def empty_file_def)
qed

lemma demo_reclaim:
  "claim demo_lib ''t1'' ''w1'' 60 demo_now demo_db1 =
     (Inr (1, 1, utc_now_iso (demo_now + 60000000)), demo_db1)"
  by (simp add: claim_def immediate_tx_def Let_def)

definition demo_db2 :: control_db where
  "demo_db2 = take_over ''t1'' ''w2'' 2 2 (utc_now_iso (demo_now + 120000000))
     (utc_now_iso (demo_now + 60000000)) demo_db1"

lemma demo_takeover:
  "claim demo_lib ''t1'' ''w2'' 60 (demo_now + 60000000) demo_db1 =
     (Inr (2, 2, utc_now_iso (demo_now + 120000000)), demo_db2)"
  by (simp add: claim_def immediate_tx_def demo_db2_def take_over_def Let_def)

definition demo_outcome :: outcome where
  "demo_outcome = \<lparr>o_exit_code = Some 0, o_stdout_hash = None, o_error_class = None,
     o_error_message = None, o_canary_root = None\<rparr>"

lemma demo_complete:
  "complete demo_lib ''t1'' ''w1'' 1 ''completed'' demo_outcome demo_now demo_db1 =
     (Inr (), finish ''t1'' ''w1'' 1 Completed demo_outcome (utc_now_iso demo_now) demo_db1)"
  by (simp add: complete_def immediate_tx_def insert_run_def finish_def run_entry_def Let_def)

lemma demo_db1_inv: "store_inv demo_db1"
  by (rule claim_inv [OF demo_db_inv demo_claim])

theorem lease_exclusive_witness:
  "fst (claim demo_lib ''t1'' ''w1'' 60 demo_now demo_db1) =
     Inr (1, 1, utc_now_iso (demo_now + 60000000)) \<and> ''w1'' = ''w1''"
  using lease_exclusive [OF demo_db_inv demo_claim, of "''w1''" 60 demo_now "[]"] demo_reclaim by simp

theorem superseded_lease_fenced_witness:
  "complete demo_lib ''t1'' ''w1'' 1 ''completed'' demo_outcome demo_now demo_db2 =
     (Inl ClaimMismatchError, demo_db2)"
  using superseded_lease_fenced [OF demo_db_inv demo_claim, of "''w2''" 60 "demo_now + 60000000" "[]"
      2 2 "utc_now_iso (demo_now + 120000000)" demo_db2 demo_db2 "[]" "''completed''" 60 demo_now
      "demo_now + 60000000" demo_outcome] demo_takeover
  by simp

theorem complete_at_most_once_witness:
  "length (db_runs (finish ''t1'' ''w1'' 1 Completed demo_outcome (utc_now_iso demo_now) demo_db1)) =
     Suc (length (db_runs demo_db1))"
  using complete_at_most_once [OF demo_db1_inv demo_complete] by blast

definition demo_slot :: string where
  "demo_slot = utc_now_iso demo_now"

lemma demo_slot_ok: "validate_due_slot demo_lib demo_slot = Inr demo_slot"
  by (simp add: validate_due_slot_def demo_slot_def) (simp add: utc_now_iso_def)

lemma demo_sha: "sha256_hexdigest demo_lib s = s"
  by (simp add: demo_lib_def demo_lib0_def)

lemma demo_enqueue_args:
  "enqueue_args demo_lib ''ingest'' demo_slot [] = Inr ([], [], take 16 (''ingest|'' @ demo_slot))"
  by (simp add: enqueue_args_def demo_slot_ok validate_kind_def DELIVERY_KIND_FORBIDDEN_def
      ALLOWED_KINDS_def validate_payload_def deterministic_task_id_def demo_sha
      del: take_append)
 
lemma demo_enqueue:
  "\<exists>s. enqueue demo_lib ''ingest'' demo_slot [] demo_now empty_file =
     (Inr (take 16 (''ingest|'' @ demo_slot), True), s)"
  by (simp add: enqueue_def demo_enqueue_args immediate_tx_def insert_task_def Let_def
      find_task_def empty_file_def del: take_append)

theorem enqueue_replay_witness:
  "\<exists>s. enqueue demo_lib ''ingest'' demo_slot [] demo_now empty_file =
     (Inr (take 16 (''ingest|'' @ demo_slot), True), s) \<and>
   fst (enqueue demo_lib ''ingest'' demo_slot [(''a'', PNone)] demo_now s) = Inl PayloadConflictError"
proof -
  obtain s where s: "enqueue demo_lib ''ingest'' demo_slot [] demo_now empty_file =
     (Inr (take 16 (''ingest|'' @ demo_slot), True), s)"
    using demo_enqueue by blast
  have "validate_payload [(''a'', PNone)] = Inr [(''a'', PNone)]"
    by (simp add: validate_payload_def delivery_entry_def lower_def to_lower_def)
  then show ?thesis
    using s enqueue_replay [OF store_inv_empty _ s, of s "[]" "[(''a'', PNone)]" demo_now] by simp
qed

theorem selectable_exact_witness:
  "\<exists>rows. selectable_tasks ''ingest'' demo_now None
       (run_ops (control_exec demo_lib) [Enqueue ''ingest'' demo_slot [] demo_now] empty_file) = Inr rows"
  using selectable_exact [OF demo_iso, of "[Enqueue ''ingest'' demo_slot [] demo_now]" _ "''ingest''" demo_now
      60 "demo_now + 60000000" "''w''"]
  by (auto simp: ALLOWED_KINDS_def as_result_def enqueue_def demo_enqueue_args immediate_tx_def
      insert_task_def Let_def find_task_def empty_file_def simp del: take_append)

lemma demo_investigation_id:
  "investigation_id demo_lib ''c'' ''l'' ''p'' = investigation_id demo_lib0 ''c'' ''l'' ''p''"
  "\<not> blank (investigation_id demo_lib0 ''c'' ''l'' ''p'')"
  "investigation_id demo_lib0 ''c'' ''l'' ''p'' \<noteq> []"
  by (simp_all add: investigation_id_def stable_id_def demo_lib_def demo_lib0_def json_str_def blank_iff
     is_space_def Let_def)

lemma demo_payload_ok:
  "rnd \<in> {0, 1} \<Longrightarrow> validate_investigation_payload demo_lib (demo_payload rnd) = Inr (demo_payload rnd)"
  using demo_investigation_id
  by (auto simp: validate_investigation_payload_def demo_payload_def payload_fields_def
      payload_text_fields_def text_of_def CATEGORY_VALUES_def MAX_INVESTIGATION_ROUNDS_def blank_iff is_space_def)

lemma demo_json_same: "json_dumps demo_lib v = json_dumps demo_lib0 v"
  by (induction v) (auto simp: demo_lib_def demo_lib0_def intro!: arg_cong [where f = "join _"] arg_cong [where f = "map _"]
      arg_cong [where f = "sort_key _"] split: pyfloat.splits)


lemma demo_json_differs:
  "json_dumps demo_lib0 (PDict (demo_payload 1)) \<noteq> json_dumps demo_lib0 (PDict (demo_payload 0))"
  by code_simp

definition demo_tid :: string where
  "demo_tid = take 16 (''investigate|'' @ demo_slot @ ''|'' @ investigation_id demo_lib0 ''c'' ''l'' ''p'')"

definition demo_failed :: control_db where
  "demo_failed = empty_file\<lparr>db_tasks := [\<lparr>t_task_id = demo_tid, t_kind = ''investigate'',
     t_due_slot_utc = demo_slot, t_job_key = investigation_id demo_lib0 ''c'' ''l'' ''p'',
     t_payload_json = json_dumps demo_lib0 (PDict (demo_payload 0)), t_state = Failed,
     t_generation = 1, t_created_at = ''x''\<rparr>]\<rparr>"

lemma demo_failed_inv: "store_inv demo_failed"
  by (auto simp: store_inv_def tasks_ok_def leases_ok_def runs_ok_def demo_failed_def
      empty_file_def find_task_def find_claim_def ALLOWED_KINDS_def tbl_keyed_def)

lemma demo_retry_args: "retry_args demo_lib (demo_payload 1) = Inr (demo_payload 1)"
proof -
  have "validate_payload (demo_payload 1) = Inr (demo_payload 1)" by code_simp
  then show ?thesis
    using demo_payload_ok [of 1] by (simp add: retry_args_def validate_kind_def DELIVERY_KIND_FORBIDDEN_def ALLOWED_KINDS_def)
qed

lemma demo_loads:
  "json_loads demo_lib (json_dumps demo_lib (PDict (demo_payload 0))) = Some (PDict (demo_payload 0))"
  "json_loads demo_lib (json_dumps demo_lib (PDict (demo_payload 1))) = Some (PDict (demo_payload 1))"
  unfolding demo_json_same using demo_json_differs by (simp_all add: demo_lib_def del: json_dumps.simps)

lemma demo_retry: "\<exists>s. retry_investigation demo_lib demo_tid (demo_payload 1) demo_failed = (Inr (), s)"
proof -
  have id: "text_of (demo_payload 1) ''investigation_id'' = investigation_id demo_lib0 ''c'' ''l'' ''p''"
    by (simp add: demo_payload_def text_of_def)
  have tid: "deterministic_task_id demo_lib ''investigate'' demo_slot
      (Some (investigation_id demo_lib0 ''c'' ''l'' ''p'')) = Inr demo_tid"
    using demo_investigation_id(2)
    by (simp add: deterministic_task_id_def validate_kind_def DELIVERY_KIND_FORBIDDEN_def ALLOWED_KINDS_def
        demo_slot_ok demo_sha demo_tid_def del: take_append)
  have find: "find_task demo_tid demo_failed = Some \<lparr>t_task_id = demo_tid, t_kind = ''investigate'',
     t_due_slot_utc = demo_slot, t_job_key = investigation_id demo_lib0 ''c'' ''l'' ''p'',
     t_payload_json = json_dumps demo_lib (PDict (demo_payload 0)), t_state = Failed,
     t_generation = 1, t_created_at = ''x''\<rparr>"
    by (simp add: find_task_def demo_failed_def demo_json_same del: json_dumps.simps)
  have same: "\<forall>k \<in> set payload_text_fields. map_of (demo_payload 0) k = map_of (demo_payload 1) k"
    by (simp add: payload_text_fields_def demo_payload_def)
  have rnd: "int_of (demo_payload r) ''round_number'' = r" for r
    by (simp add: int_of_def demo_payload_def)
  show ?thesis
    by (simp add: retry_investigation_def demo_retry_args id tid find demo_loads demo_payload_ok same rnd
        immediate_tx_def Let_def del: json_dumps.simps)
qed

theorem retry_at_most_once_witness:
  "\<exists>s. retry_investigation demo_lib demo_tid (demo_payload 1) demo_failed = (Inr (), s) \<and>
     (\<exists>e. fst (retry_investigation demo_lib demo_tid (demo_payload 1) s) = Inl e)"
proof -
  obtain s where s: "retry_investigation demo_lib demo_tid (demo_payload 1) demo_failed = (Inr (), s)"
    using demo_retry by blast
  have "\<exists>e. fst (retry_investigation demo_lib demo_tid (demo_payload 1)
      (run_ops (control_exec demo_lib) [] s)) = Inl e"
    using retry_at_most_once [OF demo_failed_inv s demo_loads(2) refl] by blast
  then show ?thesis using s by auto
qed

theorem sanitize_error_message_bounded_witness:
  "sanitize_error_message (Some ''abcdef'') 5 = Some ''ab...'' \<and> int (length ''ab...'') \<le> 5"
proof -
  have "sanitize_error_message (Some ''abcdef'') 5 = Some ''ab...''" by code_simp
  then show ?thesis using sanitize_error_message_bounded [of 5 "''abcdef''" "''ab...''"] by simp
qed

theorem bootstrap_keeps_data_witness:
  "schema_version (snd (bootstrap_schema demo_now (demo_db\<lparr>db_schema_meta := [(1, ''x'')], db_has_job_key := False\<rparr>))) = 2"
proof -
  let ?old = "demo_db\<lparr>db_schema_meta := [(1, ''x'')], db_has_job_key := False\<rparr>"
  have v: "schema_version ?old = 1" by (simp add: schema_version_def)
  obtain db1 where "bootstrap_schema demo_now ?old = (Inr (), db1)"
    by (simp add: bootstrap_schema_def schema_version_def upgrade_v1_to_v2_def immediate_tx_def
        demo_db_def SCHEMA_VERSION_def Let_def)
  then show ?thesis using bootstrap_keeps_data [of demo_now ?old db1 demo_now] v by (simp add: SCHEMA_VERSION_def)
qed

theorem investigation_payload_accepted_witness:
  "\<exists>j. make_investigation_job demo_lib0 ''c'' ''l'' ''p'' ''ai'' ''now'' 0 ''pending'' None [] = Inr j \<and>
     validate_investigation_payload demo_lib0 (investigation_payload j) = Inr (investigation_payload j)"
proof -
  obtain j where j: "make_investigation_job demo_lib0 ''c'' ''l'' ''p'' ''ai'' ''now'' 0 ''pending'' None [] = Inr j"
    using demo_investigation_id(2)
    by (auto simp: make_investigation_job_def job_post_init_def CATEGORY_VALUES_def TERMINAL_STATES_def
        INVESTIGATION_STATES_def MAX_INVESTIGATION_ROUNDS_def blank_iff is_space_def)
  then show ?thesis using investigation_payload_accepted [OF j] by blast
qed

end
