(* ===== verification/Scheduler.thy ===== *)
theory Scheduler
  imports ControlProperties
begin

text \<open>
  \<open>news_container/scheduler.py\<close>: the schedule file, the sweep that turns it into due slots,
  and the driver that enqueues them. The time zone is a parameter: its two conversions are what
  \<open>zoneinfo\<close> provides. A local datetime is its wall-clock reading (microseconds since
  0001-01-01 00:00 local) with its fold.
\<close>

section \<open>The schedule file\<close>

record schedule_block =
  b_block_id :: string
  b_kind :: string
  b_local_hours :: "int list"
  b_local_minutes :: "int list"
  b_weekdays :: "int list"
  b_enabled :: bool
  b_notes :: string
  b_payload :: pydict

definition WEEKDAY_NAMES :: "(string \<times> int) list" where
  "WEEKDAY_NAMES = [(''mon'', 0), (''tue'', 1), (''wed'', 2), (''thu'', 3), (''fri'', 4),
     (''sat'', 5), (''sun'', 6)]"

definition parse_clock_set :: "pyval option \<Rightarrow> int \<Rightarrow> int list result" where
  "parse_clock_set raw upper =
     (case raw of
        Some (PStr s) \<Rightarrow> if s = ''all'' then Inr [0..upper] else Inl ScheduleError
      | Some (PList vs) \<Rightarrow>
          if vs = [] then Inl ScheduleError
          else map_result (\<lambda>v. case v of
                 PInt i \<Rightarrow> if 0 \<le> i \<and> i \<le> upper then Inr i else Inl ScheduleError
               | _ \<Rightarrow> Inl ScheduleError) vs
      | _ \<Rightarrow> Inl ScheduleError)"

definition parse_weekdays :: "pyval \<Rightarrow> int list result" where
  "parse_weekdays raw =
     (case raw of
        PList vs \<Rightarrow>
          if vs = [] then Inl ScheduleError
          else map_result (\<lambda>v. case v of
                 PStr s \<Rightarrow> (case map_of WEEKDAY_NAMES (lower s) of
                    Some d \<Rightarrow> Inr d | None \<Rightarrow> Inl ScheduleError)
               | _ \<Rightarrow> Inl ScheduleError) vs
      | _ \<Rightarrow> Inl ScheduleError)"

text \<open>\<open>text.split(":", 1)\<close>: the text before the first colon and the text after it, if any.\<close>

definition split_colon :: "string \<Rightarrow> string \<times> string option" where
  "split_colon s =
     (let rest = dropWhile (\<lambda>c. c \<noteq> CHR '':'') s in
      (takeWhile (\<lambda>c. c \<noteq> CHR '':'') s, if rest = [] then None else Some (tl rest)))"

definition parse_due_local :: "string \<Rightarrow> (int \<times> int) result" where
  "parse_due_local s =
     (case split_colon s of
        (h, None) \<Rightarrow> Inl ScheduleError
      | (h, Some m) \<Rightarrow>
          (case (py_int h, py_int m) of
             (Inr hour, Inr minute) \<Rightarrow>
               if 0 \<le> hour \<and> hour \<le> 23 \<and> 0 \<le> minute \<and> minute \<le> 59
               then Inr (hour, minute) else Inl ScheduleError
           | _ \<Rightarrow> Inl ScheduleError))"

text \<open>The local hours and minutes of one block, from \<open>due_local\<close> or the two sets.\<close>

definition parse_due_time :: "pydict \<Rightarrow> (int list \<times> int list) result" where
  "parse_due_time body =
     (let due_local = (case map_of body ''due_local'' of Some PNone \<Rightarrow> None | v \<Rightarrow> v);
          has_sets = (map_of body ''hours'' \<noteq> None \<or> map_of body ''minutes'' \<noteq> None) in
      case due_local of
        Some v \<Rightarrow>
          if has_sets then Inl ScheduleError
          else (case v of
             PStr s \<Rightarrow> bind_result (parse_due_local s) (\<lambda>(h, m). Inr ([h], [m]))
           | _ \<Rightarrow> Inl ScheduleError)
      | None \<Rightarrow>
          if has_sets then
            bind_result (parse_clock_set (map_of body ''hours'') 23) (\<lambda>hs.
            bind_result (parse_clock_set (map_of body ''minutes'') 59) (\<lambda>ms. Inr (hs, ms)))
          else Inl ScheduleError)"

text \<open>\<open>except ControlStoreError as exc: raise ScheduleError(str(exc))\<close>.\<close>

definition as_schedule_error :: "'a result \<Rightarrow> 'a result" where
  "as_schedule_error r =
     (case r of Inl e \<Rightarrow> Inl (if is_control_store_error e then ScheduleError else e) | Inr x \<Rightarrow> Inr x)"

definition all_days :: pyval where
  "all_days = PList (map (\<lambda>(d, _). PStr d) WEEKDAY_NAMES)"

definition get_or :: "pydict \<Rightarrow> string \<Rightarrow> pyval \<Rightarrow> pyval" where
  "get_or d k v = (case map_of d k of None \<Rightarrow> v | Some w \<Rightarrow> w)"

definition parse_block :: "pylib \<Rightarrow> string \<Rightarrow> pyval \<Rightarrow> schedule_block result" where
  "parse_block L block_id v =
     (case v of PDict body \<Rightarrow>
        (case map_of body ''kind'' of
           Some (PStr kind) \<Rightarrow>
             bind_result (as_schedule_error (validate_kind kind)) (\<lambda>_.
             bind_result (parse_due_time body) (\<lambda>(hours, minutes).
             bind_result (parse_weekdays (get_or body ''weekdays'' all_days)) (\<lambda>weekdays.
               (case get_or body ''payload'' (PDict []) of
                  PDict raw \<Rightarrow>
                    bind_result (as_schedule_error (validate_payload raw)) (\<lambda>payload.
                      Inr \<lparr>b_block_id = block_id, b_kind = kind, b_local_hours = hours,
                        b_local_minutes = minutes, b_weekdays = weekdays,
                        b_enabled = truthy (get_or body ''enabled'' (PBool True)),
                        b_notes = py_str L (get_or body ''notes'' (PStr [])),
                        b_payload = payload\<rparr>)
                | _ \<Rightarrow> Inl ScheduleError))))
         | _ \<Rightarrow> Inl ScheduleError)
      | _ \<Rightarrow> Inl ScheduleError)"

text \<open>\<open>loads\<close> is \<open>tomllib.loads\<close>, which gives a table or raises.\<close>

definition parse_schedule_toml ::
  "pylib \<Rightarrow> (string \<Rightarrow> pydict result) \<Rightarrow> string \<Rightarrow> schedule_block list result" where
  "parse_schedule_toml L loads text =
     bind_result (loads text) (\<lambda>raw.
       case map_of raw ''schedule'' of
         Some (PDict table) \<Rightarrow>
           if table = [] then Inl ScheduleError
           else map_result (\<lambda>(block_id, body). parse_block L block_id body) table
       | _ \<Rightarrow> Inl ScheduleError)"

section \<open>The sweep\<close>

type_synonym local_time = "int \<times> bool"

record zone =
  z_local :: "instant \<Rightarrow> local_time"
  z_utc :: "local_time \<Rightarrow> instant"

definition us_per_minute :: int where
  "us_per_minute = 60000000"

definition weekday_of :: "int \<Rightarrow> int" where
  "weekday_of w = (w div us_per_day) mod 7"

definition hour_of :: "int \<Rightarrow> int" where
  "hour_of w = (w mod us_per_day) div 3600000000"

definition minute_of :: "int \<Rightarrow> int" where
  "minute_of w = (w mod us_per_day) div us_per_minute mod 60"

text \<open>The block is enabled and the wall clock shows one of its local times.\<close>

definition block_due :: "schedule_block \<Rightarrow> int \<Rightarrow> bool" where
  "block_due b w \<longleftrightarrow> b_enabled b \<and> weekday_of w \<in> set (b_weekdays b) \<and>
     hour_of w \<in> set (b_local_hours b) \<and> minute_of w \<in> set (b_local_minutes b)"

text \<open>The blocks at one minute. \<open>seen\<close> is \<open>last_emitted\<close>.\<close>

fun sweep_minute ::
  "zone \<Rightarrow> instant \<Rightarrow> instant \<Rightarrow> local_time \<Rightarrow> schedule_block list \<Rightarrow>
     (string \<times> int) list \<times> (string \<times> string) list \<Rightarrow> (string \<times> int) list \<times> (string \<times> string) list" where
  "sweep_minute Z lo hi cursor [] acc = acc"
| "sweep_minute Z lo hi cursor (b # bs) (seen, slots) =
     sweep_minute Z lo hi cursor bs
       (if \<not> block_due b (fst cursor) then (seen, slots)
        else if (b_kind b, fst cursor) \<in> set seen then (seen, slots)
        else let seen' = seen @ [(b_kind b, fst cursor)]; due = z_utc Z cursor in
          if due < lo then (seen', slots)
          else if due > hi then (seen', slots)
          else (seen', slots @ [(b_kind b, format_utc_z due)]))"

text \<open>
  The loop. Comparing two datetimes of one zone compares their wall clocks; adding a minute
  adds to the wall clock and resets the fold, and \<open>astimezone\<close> to the same zone changes
  nothing.
\<close>

function sweep ::
  "zone \<Rightarrow> instant \<Rightarrow> instant \<Rightarrow> int \<Rightarrow> schedule_block list \<Rightarrow> local_time \<Rightarrow>
     (string \<times> int) list \<times> (string \<times> string) list \<Rightarrow> (string \<times> string) list result" where
  "sweep Z lo hi upper blocks cursor acc =
     (if fst cursor \<le> upper then
        (if fst cursor + us_per_minute > max_instant then Inl OverflowError
         else sweep Z lo hi upper blocks (fst cursor + us_per_minute, False)
                (sweep_minute Z lo hi cursor blocks acc))
      else Inr (snd acc))"
  by pat_completeness auto

termination sweep
  by (relation "measure (\<lambda>(Z, lo, hi, upper, blocks, cursor, acc). nat (upper + 1 - fst cursor))")
    (auto simp: us_per_minute_def)

definition compute_due_slots ::
  "zone \<Rightarrow> instant \<Rightarrow> schedule_block list \<Rightarrow> int \<Rightarrow> (string \<times> string) list result" where
  "compute_due_slots Z now blocks horizon =
     (if horizon < 0 then Inl ValueError
      else bind_result (shift_seconds now (60 * horizon)) (\<lambda>later.
        let upper_local = z_local Z later; lower_local = z_local Z now;
            cursor = (fst lower_local - fst lower_local mod us_per_minute, snd lower_local) in
        bind_result (sweep Z (z_utc Z lower_local) (z_utc Z upper_local) (fst upper_local) blocks
                       cursor ([], [])) (\<lambda>slots.
          Inr (sort_key (\<lambda>(kind, due). (due, kind)) slots))))"

definition next_due_slot ::
  "pylib \<Rightarrow> zone \<Rightarrow> instant \<Rightarrow> schedule_block list \<Rightarrow> (string \<times> string) option result" where
  "next_due_slot L Z now blocks =
     bind_result (compute_due_slots Z now blocks (60 * 24 * 14)) (\<lambda>slots.
     bind_result (map_result (\<lambda>(kind, due). bind_result (parse_utc_z L due)
                    (\<lambda>t. Inr (now < t, (kind, due)))) slots) (\<lambda>marked.
       Inr (case map snd (filter fst marked) of [] \<Rightarrow> None | x # _ \<Rightarrow> Some x)))"

section \<open>The driver\<close>

definition payload_for_slot ::
  "pylib \<Rightarrow> zone \<Rightarrow> string \<Rightarrow> string \<Rightarrow> schedule_block list \<Rightarrow> pydict result" where
  "payload_for_slot L Z kind due_slot blocks =
     bind_result (parse_utc_z L due_slot) (\<lambda>t.
       let w = fst (z_local Z t);
           matches = map b_payload (filter (\<lambda>b. b_kind b = kind \<and> block_due b w) blocks) in
       if matches = [] then Inl ScheduleError
       else if length (remdups (map (\<lambda>p. json_dumps L (PDict p)) matches)) \<noteq> 1
         then Inl ScheduleError
       else Inr (hd matches))"

text \<open>
  The slots are enqueued one transaction each, so an error leaves the earlier ones stored. The
  \<open>i\<close>-th enqueue reads the clock as \<open>tick i\<close>.
\<close>

fun enqueue_slots ::
  "pylib \<Rightarrow> zone \<Rightarrow> schedule_block list \<Rightarrow> (nat \<Rightarrow> instant) \<Rightarrow> nat \<Rightarrow> (string \<times> string) list \<Rightarrow>
     (control_db, (string \<times> string \<times> bool) list) tx" where
  "enqueue_slots L Z blocks tick i [] db = (Inr [], db)"
| "enqueue_slots L Z blocks tick i ((kind, due) # slots) db =
     (case payload_for_slot L Z kind due blocks of
        Inl e \<Rightarrow> (Inl e, db)
      | Inr payload \<Rightarrow>
          (case enqueue L kind due payload (tick i) db of
             (Inl e, db') \<Rightarrow> (Inl e, db')
           | (Inr (tid, created), db') \<Rightarrow>
               (case enqueue_slots L Z blocks tick (Suc i) slots db' of
                  (Inl e, db'') \<Rightarrow> (Inl e, db'')
                | (Inr rows, db'') \<Rightarrow> (Inr ((kind, due, created) # rows), db''))))"

definition enqueue_due_slots ::
  "pylib \<Rightarrow> zone \<Rightarrow> schedule_block list \<Rightarrow> (nat \<Rightarrow> instant) \<Rightarrow> instant \<Rightarrow> int \<Rightarrow>
     (control_db, (string \<times> string \<times> bool) list) tx" where
  "enqueue_due_slots L Z blocks tick now horizon db =
     (case compute_due_slots Z now blocks horizon of
        Inl e \<Rightarrow> (Inl e, db)
      | Inr slots \<Rightarrow> enqueue_slots L Z blocks tick 0 slots db)"

text \<open>How long the loop sleeps after a sweep, in seconds (as an exact rational).\<close>

definition sleep_for ::
  "pylib \<Rightarrow> zone \<Rightarrow> instant \<Rightarrow> schedule_block list \<Rightarrow> rat \<Rightarrow> rat result" where
  "sleep_for L Z now blocks cap =
     bind_result (next_due_slot L Z now blocks) (\<lambda>nxt.
       case nxt of None \<Rightarrow> Inr cap
       | Some (kind, due) \<Rightarrow>
           bind_result (parse_utc_z L due) (\<lambda>t.
             Inr (max (1/2) (min cap (of_int (t - now) / 1000000)))))"

text \<open>
  The recurring loop on the successive readings of the clock, as far as they are given: it
  ends with 0 after \<open>max_iterations\<close> sweeps (never when that is 0), with an exception, or
  it is still running when the readings end (\<open>None\<close>). The sleeps taken are returned too.
\<close>

fun run_loop ::
  "pylib \<Rightarrow> zone \<Rightarrow> schedule_block list \<Rightarrow> (nat \<Rightarrow> instant) \<Rightarrow> int \<Rightarrow> rat \<Rightarrow> int \<Rightarrow> instant list \<Rightarrow>
     control_db \<Rightarrow> int result option \<times> rat list \<times> control_db" where
  "run_loop L Z blocks tick max_iterations cap iterations [] db = (None, [], db)"
| "run_loop L Z blocks tick max_iterations cap iterations (now # readings) db =
     (if cap \<le> 0 then (Some (Inl ValueError), [], db)
      else case enqueue_due_slots L Z blocks tick now 0 db of
        (Inl e, db') \<Rightarrow> (Some (Inl e), [], db')
      | (Inr rows, db') \<Rightarrow>
          if max_iterations \<noteq> 0 \<and> iterations + 1 \<ge> max_iterations then (Some (Inr 0), [], db')
          else (case sleep_for L Z now blocks cap of
             Inl e \<Rightarrow> (Some (Inl e), [], db')
           | Inr secs \<Rightarrow>
               (case run_loop L Z blocks tick max_iterations cap (iterations + 1) readings db' of
                  (r, sleeps, db'') \<Rightarrow> (r, secs # sleeps, db''))))"

declare sweep.simps [simp del]

section \<open>What one minute contributes\<close>

definition due_kinds :: "schedule_block list \<Rightarrow> int \<Rightarrow> string set" where
  "due_kinds blocks w = {b_kind b |b. b \<in> set blocks \<and> block_due b w}"

lemma due_kinds_Cons:
  "due_kinds (b # bs) w = (if block_due b w then {b_kind b} else {}) \<union> due_kinds bs w"
  by (auto simp: due_kinds_def)

lemma finite_due_kinds [simp]: "finite (due_kinds blocks w)"
  by (simp add: due_kinds_def)

lemma sweep_minute_eq:
  "sweep_minute Z lo hi (w, f) bs (seen, slots) = (seen', slots') \<Longrightarrow>
     \<exists>ks. distinct ks \<and> set ks = due_kinds bs w - {k. (k, w) \<in> set seen} \<and>
       seen' = seen @ map (\<lambda>k. (k, w)) ks \<and>
       slots' = slots @ (if lo \<le> z_utc Z (w, f) \<and> z_utc Z (w, f) \<le> hi
         then map (\<lambda>k. (k, format_utc_z (z_utc Z (w, f)))) ks else [])"
proof (induction bs arbitrary: seen slots)
  case Nil
  then show ?case by (intro exI [of _ "[]"]) (auto simp: due_kinds_def)
next
  case (Cons b bs)
  show ?case
  proof (cases "block_due b w \<and> (b_kind b, w) \<notin> set seen")
    case False
    then have "sweep_minute Z lo hi (w, f) bs (seen, slots) = (seen', slots')"
      using Cons.prems by (auto split: if_splits)
    then obtain ks where "distinct ks" "set ks = due_kinds bs w - {k. (k, w) \<in> set seen}"
      "seen' = seen @ map (\<lambda>k. (k, w)) ks"
      "slots' = slots @ (if lo \<le> z_utc Z (w, f) \<and> z_utc Z (w, f) \<le> hi
         then map (\<lambda>k. (k, format_utc_z (z_utc Z (w, f)))) ks else [])"
      using Cons.IH by blast
    moreover have "due_kinds (b # bs) w - {k. (k, w) \<in> set seen} = due_kinds bs w - {k. (k, w) \<in> set seen}"
      using False by (auto simp: due_kinds_Cons)
    ultimately show ?thesis by metis
  next
    case True
    let ?on = "lo \<le> z_utc Z (w, f) \<and> z_utc Z (w, f) \<le> hi"
    let ?s = "\<lambda>k. (k, format_utc_z (z_utc Z (w, f)))"
    have "sweep_minute Z lo hi (w, f) bs (seen @ [(b_kind b, w)],
        slots @ (if ?on then [?s (b_kind b)] else [])) = (seen', slots')"
      using Cons.prems True by (auto simp: Let_def split: if_splits)
    then obtain ks where ks: "distinct ks" "set ks = due_kinds bs w - {k. (k, w) \<in> set (seen @ [(b_kind b, w)])}"
      "seen' = (seen @ [(b_kind b, w)]) @ map (\<lambda>k. (k, w)) ks"
      "slots' = (slots @ (if ?on then [?s (b_kind b)] else [])) @ (if ?on then map ?s ks else [])"
      using Cons.IH by blast
    show ?thesis
      by (rule exI [of _ "b_kind b # ks"]) (use ks True in \<open>auto simp: due_kinds_Cons\<close>)
  qed
qed

section \<open>What the sweep collects\<close>

text \<open>The minutes a sweep visits: the first keeps its fold, the later ones have fold 0.\<close>

definition visited :: "int \<Rightarrow> local_time \<Rightarrow> local_time set" where
  "visited upper cursor =
     {(fst cursor + int i * us_per_minute, snd cursor \<and> i = 0) |i. fst cursor + int i * us_per_minute \<le> upper}"

lemma visited_stop: "upper < fst cursor \<Longrightarrow> visited upper cursor = {}"
proof (rule ccontr)
  assume "upper < fst cursor" "visited upper cursor \<noteq> {}"
  then obtain i where "fst cursor + int i * us_per_minute \<le> upper" by (auto simp: visited_def)
  moreover have "0 \<le> int i * us_per_minute" by (simp add: us_per_minute_def)
  ultimately show False using \<open>upper < fst cursor\<close> by linarith
qed

lemma visited_step:
  assumes "fst cursor \<le> upper"
  shows "visited upper cursor = insert cursor (visited upper (fst cursor + us_per_minute, False))"
proof -
  have "visited upper cursor \<subseteq> insert cursor (visited upper (fst cursor + us_per_minute, False))"
  proof
    fix c assume "c \<in> visited upper cursor"
    then obtain i where i: "c = (fst cursor + int i * us_per_minute, snd cursor \<and> i = 0)"
      "fst cursor + int i * us_per_minute \<le> upper" by (auto simp: visited_def)
    show "c \<in> insert cursor (visited upper (fst cursor + us_per_minute, False))"
    proof (cases i)
      case 0
      then show ?thesis using i by simp
    next
      case (Suc j)
      then have "fst c = fst cursor + us_per_minute + int j * us_per_minute" using i
        by (simp add: algebra_simps)
      then show ?thesis using i Suc by (auto simp: visited_def intro!: exI [of _ j])
    qed
  qed
  moreover have "cursor \<in> visited upper cursor"
    using assms by (auto simp: visited_def intro!: exI [of _ 0] prod_eqI)
  moreover have "visited upper (fst cursor + us_per_minute, False) \<subseteq> visited upper cursor"
  proof
    fix c assume "c \<in> visited upper (fst cursor + us_per_minute, False)"
    then obtain j where "c = (fst cursor + us_per_minute + int j * us_per_minute, False)"
      "fst cursor + us_per_minute + int j * us_per_minute \<le> upper" by (auto simp: visited_def)
    then show "c \<in> visited upper cursor"
      unfolding visited_def by (intro CollectI exI [of _ "Suc j"]) (simp add: algebra_simps)
  qed
  ultimately show ?thesis by blast
qed

definition slots_at :: "zone \<Rightarrow> instant \<Rightarrow> instant \<Rightarrow> schedule_block list \<Rightarrow> local_time \<Rightarrow> (string \<times> string) set" where
  "slots_at Z lo hi blocks c =
     (if lo \<le> z_utc Z c \<and> z_utc Z c \<le> hi
      then (\<lambda>k. (k, format_utc_z (z_utc Z c))) ` due_kinds blocks (fst c) else {})"

lemma sweep_set:
  assumes "sweep Z lo hi upper blocks cursor (seen, slots) = Inr out"
    and "\<forall>(k, w) \<in> set seen. w < fst cursor"
  shows "set out = set slots \<union> (\<Union>c \<in> visited upper cursor. slots_at Z lo hi blocks c)"
  using assms
proof (induction Z lo hi upper blocks cursor "(seen, slots)" arbitrary: seen slots rule: sweep.induct)
  case (1 Z lo hi upper blocks cursor)
  show ?case
  proof (cases "fst cursor \<le> upper")
    case False
    then show ?thesis using 1(2) by (subst (asm) sweep.simps) (simp add: visited_stop)
  next
    case True
    obtain seen' slots' where m: "sweep_minute Z lo hi cursor blocks (seen, slots) = (seen', slots')"
      by fastforce
    have fin: "fst cursor + us_per_minute \<le> max_instant"
      and rec: "sweep Z lo hi upper blocks (fst cursor + us_per_minute, False) (seen', slots') = Inr out"
      using 1(2) True m by (subst (asm) sweep.simps, simp split: if_splits)+
    obtain w f where c: "cursor = (w, f)" by fastforce
    from sweep_minute_eq [OF m [unfolded c]] obtain ks where
      ks: "set ks = due_kinds blocks w - {k. (k, w) \<in> set seen}" "seen' = seen @ map (\<lambda>k. (k, w)) ks"
      "slots' = slots @ (if lo \<le> z_utc Z (w, f) \<and> z_utc Z (w, f) \<le> hi
         then map (\<lambda>k. (k, format_utc_z (z_utc Z (w, f)))) ks else [])"
      by blast
    have none: "{k. (k, w) \<in> set seen} = {}" using 1(3) c by fastforce
    have "\<forall>(k, w') \<in> set seen'. w' < fst (fst cursor + us_per_minute, False)"
      using 1(3) ks(2) c by (fastforce simp: us_per_minute_def)
    then have "set out = set slots' \<union>
        (\<Union>c \<in> visited upper (fst cursor + us_per_minute, False). slots_at Z lo hi blocks c)"
      using 1(1) [OF True _ m rec] fin by auto
    moreover have "set slots' = set slots \<union> slots_at Z lo hi blocks cursor"
      using ks none c by (auto simp: slots_at_def)
    ultimately show ?thesis using visited_step [OF True] by auto
  qed
qed

lemma sweep_total:
  "upper + us_per_minute \<le> max_instant \<Longrightarrow> \<exists>out. sweep Z lo hi upper blocks cursor acc = Inr out"
proof (induction Z lo hi upper blocks cursor acc rule: sweep.induct)
  case (1 Z lo hi upper blocks cursor acc)
  then show ?case by (subst sweep.simps) auto
qed

lemma slots_at_iff:
  "p \<in> slots_at Z lo hi blocks c \<longleftrightarrow> (\<exists>b. p = (b_kind b, format_utc_z (z_utc Z c)) \<and>
     b \<in> set blocks \<and> block_due b (fst c) \<and> lo \<le> z_utc Z c \<and> z_utc Z c \<le> hi)"
  by (auto simp: slots_at_def due_kinds_def)

lemma compute_due_slots_eq:
  assumes "0 \<le> horizon" "shift_seconds now (60 * horizon) = Inr later"
    and "fst (z_local Z later) + us_per_minute \<le> max_instant"
  shows "\<exists>out. compute_due_slots Z now blocks horizon = Inr (sort_key (\<lambda>(kind, due). (due, kind)) out) \<and>
     sweep Z (z_utc Z (z_local Z now)) (z_utc Z (z_local Z later)) (fst (z_local Z later)) blocks
       (fst (z_local Z now) - fst (z_local Z now) mod us_per_minute, snd (z_local Z now)) ([], []) = Inr out"
proof -
  obtain out where "sweep Z (z_utc Z (z_local Z now)) (z_utc Z (z_local Z later)) (fst (z_local Z later)) blocks
       (fst (z_local Z now) - fst (z_local Z now) mod us_per_minute, snd (z_local Z now)) ([], []) = Inr out"
    using sweep_total [OF assms(3)] by blast
  then show ?thesis using assms(1,2) by (simp add: compute_due_slots_def Let_def)
qed

lemma visited_later: "c \<in> visited upper (w + us_per_minute, f) \<Longrightarrow> w < fst c"
  by (auto simp: visited_def us_per_minute_def intro: le_less_trans)

text \<open>A sweep emits no slot twice if different minutes have different slots.\<close>

lemma sweep_distinct:
  assumes "sweep Z lo hi upper blocks cursor (seen, slots) = Inr out"
    and "\<forall>(k, w) \<in> set seen. w < fst cursor" and "distinct slots"
    and "\<forall>c \<in> visited upper cursor. set slots \<inter> slots_at Z lo hi blocks c = {}"
    and "\<forall>c \<in> visited upper cursor. \<forall>c' \<in> visited upper cursor. c \<noteq> c' \<longrightarrow> slots_at Z lo hi blocks c \<inter> slots_at Z lo hi blocks c' = {}"
  shows "distinct out"
  using assms
proof (induction Z lo hi upper blocks cursor "(seen, slots)" arbitrary: seen slots rule: sweep.induct)
  case (1 Z lo hi upper blocks cursor)
  show ?case
  proof (cases "fst cursor \<le> upper")
    case False
    then show ?thesis using 1(2,4) by (subst (asm) sweep.simps) simp
  next
    case True
    obtain seen' slots' where m: "sweep_minute Z lo hi cursor blocks (seen, slots) = (seen', slots')"
      by fastforce
    have fin: "\<not> fst cursor + us_per_minute > max_instant"
      and rec: "sweep Z lo hi upper blocks (fst cursor + us_per_minute, False) (seen', slots') = Inr out"
      using 1(2) True m by (subst (asm) sweep.simps, simp split: if_splits)+
    obtain w f where c: "cursor = (w, f)" by fastforce
    obtain ks where ks: "distinct ks" "set ks = due_kinds blocks w - {k. (k, w) \<in> set seen}" "seen' = seen @ map (\<lambda>k. (k, w)) ks"
        "slots' = slots @ (if lo \<le> z_utc Z (w, f) \<and> z_utc Z (w, f) \<le> hi
           then map (\<lambda>k. (k, format_utc_z (z_utc Z (w, f)))) ks else [])" (is "_ = slots @ ?new")
      using sweep_minute_eq [OF m [unfolded c]] by blast
    have none: "{k. (k, w) \<in> set seen} = {}" using 1(3) c by fastforce
    have new: "set ?new = slots_at Z lo hi blocks cursor" "distinct ?new"
      using ks(1,2) none c by (auto simp: slots_at_def distinct_map inj_on_def)
    have vis: "visited upper cursor = insert cursor (visited upper (fst cursor + us_per_minute, False))"
      by (rule visited_step [OF True])
    have fresh: "cursor \<notin> visited upper (fst cursor + us_per_minute, False)" using visited_later by blast
    show ?thesis
    proof (rule 1(1) [OF True fin m rec])
      show "\<forall>(k, w') \<in> set seen'. w' < fst (fst cursor + us_per_minute, False)"
        using 1(3) ks(3) c by (fastforce simp: us_per_minute_def)
      show "distinct slots'" using 1(4,5) new ks(4) vis by auto
      show "\<forall>c \<in> visited upper (fst cursor + us_per_minute, False). set slots' \<inter> slots_at Z lo hi blocks c = {}"
        using 1(5,6) new(1) ks(4) vis fresh by (auto simp del: Int_iff)
      show "\<forall>c \<in> visited upper (fst cursor + us_per_minute, False). \<forall>c' \<in> visited upper (fst cursor + us_per_minute, False).
          c \<noteq> c' \<longrightarrow> slots_at Z lo hi blocks c \<inter> slots_at Z lo hi blocks c' = {}"
        using 1(6) vis by blast
    qed
  qed
qed

text \<open>
  A window in which the local clock is no obstacle: its offsets are whole minutes, it shows no time twice and never
  runs back, and no block is due at a local minute that it skips.
\<close>

definition clear_window :: "zone \<Rightarrow> schedule_block list \<Rightarrow> instant \<Rightarrow> instant \<Rightarrow> bool" where
  "clear_window Z blocks now later \<longleftrightarrow>
     (\<forall>t. now - us_per_minute < t \<and> t \<le> later \<longrightarrow>
        \<not> snd (z_local Z t) \<and> z_utc Z (z_local Z t) = t \<and> fst (z_local Z t) mod us_per_minute = t mod us_per_minute \<and>
        (\<forall>u. t \<le> u \<and> u \<le> later \<longrightarrow> fst (z_local Z t) \<le> fst (z_local Z u))) \<and>
     (\<forall>b \<in> set blocks. \<forall>w. block_due b w \<and> w mod us_per_minute = 0 \<and>
        fst (z_local Z now) - us_per_minute < w \<and> w \<le> fst (z_local Z later) \<longrightarrow>
        (\<exists>t. now - us_per_minute < t \<and> t \<le> later \<and> z_local Z t = (w, False)))"

lemma clear_window_back:
  "clear_window Z blocks now later \<Longrightarrow> now - us_per_minute < t \<Longrightarrow> t \<le> later \<Longrightarrow> z_utc Z (z_local Z t) = t"
  unfolding clear_window_def by blast

lemma clear_minutes:
  assumes "clear_window Z blocks now later" "now \<le> later"
    and "block_due b (fst c)" "b \<in> set blocks"
  shows "c \<in> visited (fst (z_local Z later)) (fst (z_local Z now) - fst (z_local Z now) mod us_per_minute, snd (z_local Z now)) \<and>
      z_utc Z (z_local Z now) \<le> z_utc Z c \<and> z_utc Z c \<le> z_utc Z (z_local Z later) \<longleftrightarrow>
    (\<exists>t. now \<le> t \<and> t \<le> later \<and> t mod us_per_minute = 0 \<and> c = z_local Z t)"
  (is "c \<in> ?V \<and> _ \<longleftrightarrow> _")
proof
  have pos: "0 < us_per_minute" by (simp add: us_per_minute_def)
  note win = assms(1) [unfolded clear_window_def]
  have inside: "\<not> snd (z_local Z t)" "z_utc Z (z_local Z t) = t" "fst (z_local Z t) mod us_per_minute = t mod us_per_minute"
    if "now - us_per_minute < t" "t \<le> later" for t
    using win that by blast+
  have mono: "fst (z_local Z t) \<le> fst (z_local Z u)" if "now \<le> t" "t \<le> u" "u \<le> later" for t u
  proof -
    have "now - us_per_minute < t \<and> t \<le> later" using that pos by linarith
    then show ?thesis using win that by blast
  qed
  have now: "\<not> snd (z_local Z now)" "z_utc Z (z_local Z now) = now" "z_utc Z (z_local Z later) = later"
    using inside [of now] inside [of later] assms(2) pos by simp_all
  let ?floor = "fst (z_local Z now) - fst (z_local Z now) mod us_per_minute"
  have floor: "fst (z_local Z now) - us_per_minute < ?floor" "?floor \<le> fst (z_local Z now)" "?floor mod us_per_minute = 0"
    using pos by (simp_all add: mod_diff_eq)
  {
    assume c: "c \<in> ?V \<and> z_utc Z (z_local Z now) \<le> z_utc Z c \<and> z_utc Z c \<le> z_utc Z (z_local Z later)"
    then obtain i where i: "c = (?floor + int i * us_per_minute, False)" "?floor + int i * us_per_minute \<le> fst (z_local Z later)"
      using now(1) by (auto simp: visited_def)
    have "0 \<le> int i * us_per_minute" using pos by simp
    then have "fst (z_local Z now) - us_per_minute < fst c" using i floor(1) by simp
    moreover have "fst c mod us_per_minute = 0" using i floor(3) by simp
    moreover have "c = (fst c, False)" "fst c \<le> fst (z_local Z later)" using i by simp_all
    ultimately obtain t where t: "now - us_per_minute < t" "t \<le> later" "z_local Z t = c"
      using win assms(3,4) by metis
    then have "z_utc Z c = t" "t mod us_per_minute = 0"
      using inside [OF t(1,2)] \<open>fst c mod us_per_minute = 0\<close> by simp_all
    then show "\<exists>t. now \<le> t \<and> t \<le> later \<and> t mod us_per_minute = 0 \<and> c = z_local Z t"
      using c t now by auto
  }
  assume "\<exists>t. now \<le> t \<and> t \<le> later \<and> t mod us_per_minute = 0 \<and> c = z_local Z t"
  then obtain t where "now \<le> t \<and> t \<le> later \<and> t mod us_per_minute = 0 \<and> c = z_local Z t" ..
  then have t: "now \<le> t" "t \<le> later" "t mod us_per_minute = 0" "c = z_local Z t" by simp_all
  then have w: "\<not> snd c" "z_utc Z c = t" "fst c mod us_per_minute = 0" "fst c \<le> fst (z_local Z later)"
    using inside [of t] mono [of t later] pos by simp_all
  have "fst (z_local Z now) \<le> fst c" using mono [of now t] t by simp
  then have "?floor \<le> fst c" using floor(2) by linarith
  moreover have "(fst c - ?floor) mod us_per_minute = (0 - 0) mod us_per_minute"
    by (rule mod_diff_cong) (simp_all add: w(3) floor(3))
  moreover define j where "j = (fst c - ?floor) div us_per_minute"
  ultimately have j: "fst c = ?floor + j * us_per_minute" "0 \<le> j"
    using pos minus_mod_eq_div_mult [of "fst c - ?floor" us_per_minute] by (simp_all add: pos_imp_zdiv_nonneg_iff)
  then have "c \<in> ?V" using w now(1) unfolding visited_def
    by (intro CollectI exI [of _ "nat j"]) (auto intro: prod_eqI)
  then show "c \<in> ?V \<and> z_utc Z (z_local Z now) \<le> z_utc Z c \<and> z_utc Z c \<le> z_utc Z (z_local Z later)"
    using now w(2) t(1,2) by simp
qed

text \<open>
  C29: The sweep of a window is exact wherever the local clock is: if the window holds no repeated local time and no
  block is due at a skipped one, the result is the list, sorted by due time and kind and without repetition, of every
  kind with every whole minute between the ends of the window at which an enabled block of that kind is due by the
  local clock, and of nothing else.
\<close>

theorem due_slots_exact:
  assumes "0 \<le> horizon" "shift_seconds now (60 * horizon) = Inr later" "min_text_instant \<le> now"
    and "clear_window Z blocks now later" and "fst (z_local Z later) + us_per_minute \<le> max_instant"
  shows "\<exists>slots. compute_due_slots Z now blocks horizon = Inr slots \<and>
    sorted (map (\<lambda>(kind, due). (due, kind)) slots) \<and> distinct slots \<and>
    set slots = {(b_kind b, format_utc_z t) |b t. b \<in> set blocks \<and> now \<le> t \<and> t \<le> later \<and>
      t mod us_per_minute = 0 \<and> block_due b (fst (z_local Z t))}"
proof -
  let ?cursor = "(fst (z_local Z now) - fst (z_local Z now) mod us_per_minute, snd (z_local Z now))"
  let ?V = "visited (fst (z_local Z later)) ?cursor"
  let ?at = "slots_at Z (z_utc Z (z_local Z now)) (z_utc Z (z_local Z later)) blocks"
  obtain out where out: "compute_due_slots Z now blocks horizon = Inr (sort_key (\<lambda>(kind, due). (due, kind)) out)"
    and sw: "sweep Z (z_utc Z (z_local Z now)) (z_utc Z (z_local Z later)) (fst (z_local Z later)) blocks ?cursor ([], []) = Inr out"
    using compute_due_slots_eq [OF assms(1,2,5)] by blast
  have later: "now \<le> later" "later \<le> max_instant"
    using assms(1,2) by (auto simp: shift_seconds_def Let_def split: if_splits)
  note minutes = clear_minutes [OF assms(4) later(1)]
  have at: "p \<in> ?at c \<and> c \<in> ?V \<longleftrightarrow> (\<exists>b t. p = (b_kind b, format_utc_z t) \<and> b \<in> set blocks \<and> block_due b (fst c) \<and>
      now \<le> t \<and> t \<le> later \<and> t mod us_per_minute = 0 \<and> c = z_local Z t)" for p c
  proof
    assume "p \<in> ?at c \<and> c \<in> ?V"
    then obtain b where b: "p = (b_kind b, format_utc_z (z_utc Z c))" "b \<in> set blocks" "block_due b (fst c)"
      "c \<in> ?V \<and> z_utc Z (z_local Z now) \<le> z_utc Z c \<and> z_utc Z c \<le> z_utc Z (z_local Z later)"
      unfolding slots_at_iff by blast
    have "\<exists>t. now \<le> t \<and> t \<le> later \<and> t mod us_per_minute = 0 \<and> c = z_local Z t"
      by (rule iffD1 [OF minutes [OF b(3,2)] b(4)])
    then obtain t where "now \<le> t \<and> t \<le> later \<and> t mod us_per_minute = 0 \<and> c = z_local Z t" ..
    then have t: "now \<le> t" "t \<le> later" "t mod us_per_minute = 0" "c = z_local Z t" by simp_all
    have "now - us_per_minute < t" using t(1) by (simp add: us_per_minute_def)
    then have "z_utc Z c = t" using clear_window_back [OF assms(4)] t(2,4) by simp
    then show "\<exists>b t. p = (b_kind b, format_utc_z t) \<and> b \<in> set blocks \<and> block_due b (fst c) \<and>
        now \<le> t \<and> t \<le> later \<and> t mod us_per_minute = 0 \<and> c = z_local Z t"
      using b t by - (rule exI [of _ b], rule exI [of _ t], simp)
  next
    assume "\<exists>b t. p = (b_kind b, format_utc_z t) \<and> b \<in> set blocks \<and> block_due b (fst c) \<and>
        now \<le> t \<and> t \<le> later \<and> t mod us_per_minute = 0 \<and> c = z_local Z t"
    then obtain b t where bt: "p = (b_kind b, format_utc_z t) \<and> b \<in> set blocks \<and> block_due b (fst c) \<and>
        now \<le> t \<and> t \<le> later \<and> t mod us_per_minute = 0 \<and> c = z_local Z t" by (elim exE)
    then have b: "p = (b_kind b, format_utc_z t)" "b \<in> set blocks" "block_due b (fst c)"
      and t: "now \<le> t" "t \<le> later" "t mod us_per_minute = 0" "c = z_local Z t" by - (elim conjE, assumption)+
    have "now - us_per_minute < t" using t(1) by (simp add: us_per_minute_def)
    then have "z_utc Z c = t" using clear_window_back [OF assms(4)] t(2,4) by simp
    moreover have "c \<in> ?V \<and> z_utc Z (z_local Z now) \<le> z_utc Z c \<and> z_utc Z c \<le> z_utc Z (z_local Z later)"
      by (rule iffD2 [OF minutes [OF b(3,2)]]) (rule exI [of _ t], use t in simp)
    ultimately show "p \<in> ?at c \<and> c \<in> ?V" unfolding slots_at_iff using b by auto
  qed
  have second: "t \<in> whole_seconds" if "now \<le> t" "t \<le> later" "t mod us_per_minute = 0" for t
  proof -
    have "(1000000 :: int) dvd us_per_minute" by (simp add: us_per_minute_def)
    then have "t mod 1000000 = 0" using that(3) by (meson dvd_trans mod_0_imp_dvd dvd_imp_mod_0)
    then show ?thesis using that assms(3) later(2) by (simp add: whole_seconds_def text_range_def)
  qed
  have "set out = (\<Union>c \<in> ?V. ?at c)" using sweep_set [OF sw] by simp
  also have "\<dots> = {(b_kind b, format_utc_z t) |b t. b \<in> set blocks \<and> now \<le> t \<and> t \<le> later \<and>
      t mod us_per_minute = 0 \<and> block_due b (fst (z_local Z t))}"
  proof (rule set_eqI)
    fix p
    have "p \<in> (\<Union>c \<in> ?V. ?at c) \<longleftrightarrow> (\<exists>c. p \<in> ?at c \<and> c \<in> ?V)" by blast
    also have "\<dots> \<longleftrightarrow> (\<exists>b t. p = (b_kind b, format_utc_z t) \<and> b \<in> set blocks \<and> now \<le> t \<and> t \<le> later \<and>
        t mod us_per_minute = 0 \<and> block_due b (fst (z_local Z t)))"
      unfolding at by metis
    finally show "p \<in> (\<Union>c \<in> ?V. ?at c) \<longleftrightarrow> p \<in> {(b_kind b, format_utc_z t) |b t. b \<in> set blocks \<and> now \<le> t \<and> t \<le> later \<and>
        t mod us_per_minute = 0 \<and> block_due b (fst (z_local Z t))}"
      by simp
  qed
  finally have set: "set out = \<dots>" .
  have "?at c \<inter> ?at c' = {}" if cv: "c \<in> ?V" "c' \<in> ?V" "c \<noteq> c'" for c c'
  proof (rule ccontr)
    assume "?at c \<inter> ?at c' \<noteq> {}"
    then obtain p where p: "p \<in> ?at c" "p \<in> ?at c'" by blast
    have "\<exists>t. snd p = format_utc_z t \<and> t \<in> whole_seconds \<and> d = z_local Z t" if "p \<in> ?at d \<and> d \<in> ?V" for d
      using that unfolding at
      by (elim exE conjE) (rule exI, intro conjI, erule ssubst, rule snd_conv, rule second, assumption+)
    then obtain t t' where t: "snd p = format_utc_z t" "snd p = format_utc_z t'" "t \<in> whole_seconds" "t' \<in> whole_seconds"
        "c = z_local Z t" "c' = z_local Z t'"
      using p cv(1,2) by metis
    then have "format_utc_z t = format_utc_z t'" by simp
    then have "t = t'" using inj_onD [OF slot_clock.inj_fmt] t(3,4) by blast
    then show False using t cv(3) by simp
  qed
  then have "distinct out" by (intro sweep_distinct [OF sw]) auto
  then show ?thesis
    using set by (intro exI [of _ "sort_key (\<lambda>(kind, due). (due, kind)) out"]) (simp add: out sorted_sort_key)
qed

section \<open>The zero-horizon sweep\<close>

text \<open>
  What the sweep needs of the zone at one instant: converting to local time and back gives the
  instant again, the wall clock shows the instant's seconds, and the minute of the instant lies
  on one side of a transition. \<open>zoneinfo\<close> has this for every zone whose offsets are whole
  minutes, as those of Europe/London since 1847.
\<close>

definition minute_zone :: "zone \<Rightarrow> instant \<Rightarrow> bool" where
  "minute_zone Z t \<longleftrightarrow> z_utc Z (z_local Z t) = t \<and>
     fst (z_local Z t) mod us_per_minute = t mod us_per_minute \<and>
     z_utc Z (fst (z_local Z t) - fst (z_local Z t) mod us_per_minute, snd (z_local Z t)) =
       t - t mod us_per_minute"

lemma visited_one_minute:
  "visited w (w - w mod us_per_minute, f) = {(w - w mod us_per_minute, f)}"
proof -
  have "w mod us_per_minute < us_per_minute" by (simp add: us_per_minute_def)
  then have "visited w (fst (w - w mod us_per_minute, f) + us_per_minute, False) = {}"
    by (intro visited_stop) simp
  moreover have "w - w mod us_per_minute \<le> w" by (simp add: us_per_minute_def)
  ultimately show ?thesis using visited_step [of "(w - w mod us_per_minute, f)" w] by simp
qed

lemma wall_fields:
  "weekday_of w = (w div us_per_minute) div 1440 mod 7"
  "hour_of w = (w div us_per_minute) mod 1440 div 60"
  "minute_of w = (w div us_per_minute) mod 1440 mod 60"
proof -
  have day: "us_per_day = us_per_minute * 1440" by (simp add: us_per_day_def us_per_minute_def)
  have pos: "0 < us_per_minute" by (simp add: us_per_minute_def)
  have m: "w mod us_per_day div us_per_minute = (w div us_per_minute) mod 1440"
    unfolding day using pos by (simp add: zmod_zmult2_eq)
  have "w div us_per_day = w div us_per_minute div 1440" unfolding day by (simp add: zdiv_zmult2_eq)
  then show "weekday_of w = (w div us_per_minute) div 1440 mod 7" by (simp add: weekday_of_def)
  have "w mod us_per_day div 3600000000 = w mod us_per_day div (us_per_minute * 60)"
    by (simp add: us_per_minute_def)
  then show "hour_of w = (w div us_per_minute) mod 1440 div 60"
    unfolding hour_of_def using m by (simp add: zdiv_zmult2_eq)
  show "minute_of w = (w div us_per_minute) mod 1440 mod 60" unfolding minute_of_def m ..
qed

lemma block_due_floor: "block_due b (w - w mod us_per_minute) = block_due b w"
proof -
  have "(w - w mod us_per_minute) div us_per_minute = w div us_per_minute"
    by (simp add: minus_mod_eq_mult_div us_per_minute_def)
  then show ?thesis by (simp add: block_due_def wall_fields)
qed

lemma sort_slots_unique:
  fixes d :: string and ks :: "string list"
  assumes "distinct ks"
  shows "sort_key (\<lambda>(kind, due). (due, kind)) (map (\<lambda>k. (k, d)) ks) = map (\<lambda>k. (k, d)) (sorted_list_of_set (set ks))"
proof (rule map_sorted_distinct_set_unique [where f = "\<lambda>(kind, due). (due, kind)"])
  let ?f = "\<lambda>(kind :: string, due :: string). (due, kind)"
  have inj: "inj ?f" by (auto simp: inj_def)
  show "inj_on ?f (set (sort_key ?f (map (\<lambda>k. (k, d)) ks)) \<union> set (map (\<lambda>k. (k, d)) (sorted_list_of_set (set ks))))"
    using inj by (rule inj_on_subset) simp
  show "sorted (map ?f (map (\<lambda>k. (k, d)) (sorted_list_of_set (set ks))))"
    by (simp add: o_def sorted_map sorted_wrt_map)
  have "distinct (map (\<lambda>k. (k, d)) ks)" using assms by (simp add: distinct_map inj_on_def)
  then show "distinct (map ?f (sort_key ?f (map (\<lambda>k. (k, d)) ks)))"
    using inj by (simp add: distinct_map inj_on_subset [OF inj])
  show "distinct (map ?f (map (\<lambda>k. (k, d)) (sorted_list_of_set (set ks))))"
    by (simp add: distinct_map inj_on_def o_def)
qed (use assms in simp_all)

lemma zero_horizon_sweep:
  assumes zone: "minute_zone Z now" and "0 \<le> now" "now \<le> max_instant"
    and fin: "fst (z_local Z now) + us_per_minute \<le> max_instant"
  shows "compute_due_slots Z now blocks 0 =
    Inr (if now mod us_per_minute = 0
         then map (\<lambda>k. (k, format_utc_z now)) (sorted_list_of_set (due_kinds blocks (fst (z_local Z now))))
         else [])"
proof -
  let ?w = "fst (z_local Z now)" and ?f = "snd (z_local Z now)"
  let ?c = "(?w - ?w mod us_per_minute, ?f)"
  have sh: "shift_seconds now (60 * 0) = Inr now" using assms(2,3) by (simp add: shift_seconds_def)
  obtain seen slots where m: "sweep_minute Z now now ?c blocks ([], []) = (seen, slots)" by fastforce
  from sweep_minute_eq [OF m] obtain ks where ks: "distinct ks"
      "set ks = due_kinds blocks (?w - ?w mod us_per_minute)"
      "slots = (if now \<le> z_utc Z ?c \<and> z_utc Z ?c \<le> now then map (\<lambda>k. (k, format_utc_z (z_utc Z ?c))) ks else [])"
    by auto
  have ks2: "set ks = due_kinds blocks ?w" using ks(2) by (simp add: due_kinds_def block_due_floor)
  have le: "?w - ?w mod us_per_minute \<le> ?w" and gt: "?w < ?w - ?w mod us_per_minute + us_per_minute"
    by (simp_all add: us_per_minute_def)
  have "sweep Z now now ?w blocks ?c ([], []) = Inr slots"
    using le gt fin m by (subst sweep.simps) (subst sweep.simps, simp)
  then have "compute_due_slots Z now blocks 0 = Inr (sort_key (\<lambda>(kind, due). (due, kind)) slots)"
    using sh zone by (simp add: compute_due_slots_def minute_zone_def Let_def)
  moreover have "z_utc Z ?c = now - now mod us_per_minute" using zone unfolding minute_zone_def by blast
  moreover have "0 \<le> now mod us_per_minute" by (simp add: us_per_minute_def)
  ultimately show ?thesis
    using ks(1,3) ks2 sort_slots_unique [OF ks(1), of "format_utc_z now"] by (cases "now mod us_per_minute = 0") auto
qed

text \<open>
  A sweep with horizon zero emits slots only when the clock stands exactly on a minute:
  then one slot per kind that has an enabled block due at the local time, in order, stamped with
  the instant; at any other instant, even one microsecond later, it emits nothing.
\<close>

theorem zero_horizon_exact:
  assumes "minute_zone Z now" "0 \<le> now" "now \<le> max_instant"
    and "fst (z_local Z now) + us_per_minute \<le> max_instant"
  shows "compute_due_slots Z now blocks 0 =
    Inr (if now mod us_per_minute = 0
         then map (\<lambda>k. (k, format_utc_z now)) (sorted_list_of_set
                {b_kind b |b. b \<in> set blocks \<and> block_due b (fst (z_local Z now))})
         else [])"
  using zero_horizon_sweep [OF assms] unfolding due_kinds_def .

definition off_minute :: "zone \<Rightarrow> instant \<Rightarrow> bool" where
  "off_minute Z now \<longleftrightarrow> minute_zone Z now \<and> 0 \<le> now \<and> now \<le> max_instant \<and>
     fst (z_local Z now) + us_per_minute \<le> max_instant \<and> now mod us_per_minute \<noteq> 0"

text \<open>
  The recurring loop stores nothing unless a clock reading falls exactly on a minute: for
  any readings off the minute, any number of iterations and any schedule, the control store at
  the end is the one at the start. A loop that sleeps until a slot is due and then reads the
  clock wakes after it, so its slots are lost.
\<close>

theorem run_loop_off_minute:
  assumes "\<forall>now \<in> set readings. off_minute Z now"
  shows "snd (snd (run_loop L Z blocks tick max_iterations cap iterations readings db)) = db"
  using assms
proof (induction readings arbitrary: iterations)
  case (Cons now readings)
  have "enqueue_due_slots L Z blocks tick now 0 db = (Inr [], db)"
    using Cons.prems zero_horizon_sweep [of Z now blocks] by (simp add: enqueue_due_slots_def off_minute_def)
  moreover have "snd (snd (run_loop L Z blocks tick max_iterations cap (iterations + 1) readings db)) = db"
    using Cons.IH Cons.prems by simp
  ultimately show ?case by (simp add: case_prod_unfold split: sum.split)
qed simp

section \<open>Sweeping again\<close>

fun is_retry :: "control_op \<Rightarrow> bool" where
  "is_retry (Retry tid payload) = True"
| "is_retry _ = False"

definition stored_as :: "string \<Rightarrow> string \<Rightarrow> control_db \<Rightarrow> bool" where
  "stored_as tid pj db \<longleftrightarrow> (\<exists>t. find_task tid db = Some t \<and> t_payload_json t = pj)"

lemma stored_as_exec:
  assumes "\<not> is_retry c" and st: "stored_as tid pj db"
  shows "stored_as tid pj (snd (control_exec L c db))"
proof (rule control_exec_inv_by_success [where P = "stored_as tid pj", OF st])
  obtain t where t: "find_task tid db = Some t" "t_payload_json t = pj"
    using st by (auto simp: stored_as_def)
  fix y db' assume ex: "control_exec L c db = (Inr y, db')"
  have "\<exists>t'. find_task tid db' = Some t' \<and> t_payload_json t' = t_payload_json t"
  proof (cases c)
    case (Enqueue k slot payload now)
    with ex obtain i created where "enqueue L k slot payload now db = (Inr (i, created), db')"
      by (auto simp: as_result_Inr)
    then show ?thesis
      by (cases rule: enqueue_Inr_cases) (use t in \<open>auto simp: find_task_def tbl_find_insert\<close>)
  next
    case (Claim i owner ttl now)
    with ex obtain g a e where "claim L i owner ttl now db = (Inr (g, a, e), db')"
      by (auto simp: as_result_Inr)
    then show ?thesis
      by (cases rule: claim_Inr_cases)
        (use t in \<open>auto simp: grant_new_def take_over_def find_task_def frame_simps table_simps\<close>)
  next
    case (Renew i owner g ttl now)
    with ex obtain e where "renew_claim L i owner g ttl now db = (Inr e, db')"
      by (auto simp: as_result_Inr)
    then show ?thesis by (cases rule: renew_claim_Inr_cases) (use t in \<open>auto simp: table_simps\<close>)
  next
    case (Complete i owner g status res now)
    with ex have "complete L i owner g status res now db = (Inr (), db')"
      by (auto simp: as_result_Inr)
    then show ?thesis by (cases rule: complete_Inr_cases) (use t in \<open>auto simp: find_finish\<close>)
  qed (use assms(1) in simp)
  then show "stored_as tid pj db'" using t(2) by (simp add: stored_as_def)
qed

lemma stored_as_run:
  "list_all (\<lambda>c. \<not> is_retry c) cs \<Longrightarrow> stored_as tid pj db \<Longrightarrow> stored_as tid pj (run_ops (control_exec L) cs db)"
  by (induction cs arbitrary: db) (auto intro: stored_as_exec)

text \<open>A slot whose task is stored with the payload the schedule gives it.\<close>

definition slot_stored :: "pylib \<Rightarrow> zone \<Rightarrow> schedule_block list \<Rightarrow> control_db \<Rightarrow> string \<times> string \<Rightarrow> bool" where
  "slot_stored L Z blocks db p \<longleftrightarrow> (\<exists>payload jk tid.
     payload_for_slot L Z (fst p) (snd p) blocks = Inr payload \<and>
     enqueue_args L (fst p) (snd p) payload = Inr (payload, jk, tid) \<and>
     stored_as tid (json_dumps L (PDict payload)) db)"

lemma slot_stored_run:
  "list_all (\<lambda>c. \<not> is_retry c) cs \<Longrightarrow> slot_stored L Z blocks db p \<Longrightarrow>
     slot_stored L Z blocks (run_ops (control_exec L) cs db) p"
  unfolding slot_stored_def using stored_as_run by blast

lemma enqueue_slots_stores:
  "enqueue_slots L Z blocks tick i slots db = (Inr rows, db') \<Longrightarrow>
     map (\<lambda>(k, d, c). (k, d)) rows = slots \<and>
     (\<exists>cs. list_all (\<lambda>c. \<not> is_retry c) cs \<and> db' = run_ops (control_exec L) cs db) \<and>
     (\<forall>p \<in> set slots. slot_stored L Z blocks db' p)"
proof (induction slots arbitrary: i db rows)
  case Nil
  then show ?case by (auto intro: exI [of _ "[]"])
next
  case (Cons p slots)
  obtain kind due where p: "p = (kind, due)" by fastforce
  from Cons.prems obtain payload tid created db1 rows1 where
    pay: "payload_for_slot L Z kind due blocks = Inr payload"
    and en: "enqueue L kind due payload (tick i) db = (Inr (tid, created), db1)"
    and rest: "enqueue_slots L Z blocks tick (Suc i) slots db1 = (Inr rows1, db')"
    and rows: "rows = (kind, due, created) # rows1"
    unfolding p by (auto split: sum.splits prod.splits)
  from en obtain jk where "enqueue_args L kind due payload = Inr (payload, jk, tid)"
    and "stored_as tid (json_dumps L (PDict payload)) db1"
    by (cases rule: enqueue_Inr_cases)
      (auto simp: stored_as_def find_task_def tbl_find_insert simp del: json_dumps.simps)
  then have st: "slot_stored L Z blocks db1 p" using pay by (auto simp: slot_stored_def p)
  from Cons.IH [OF rest] obtain cs where cs: "list_all (\<lambda>c. \<not> is_retry c) cs"
    "db' = run_ops (control_exec L) cs db1" by blast
  have "db' = run_ops (control_exec L) (Enqueue kind due payload (tick i) # cs) db"
    using cs(2) en by (simp add: as_result_def)
  then show ?case
    using Cons.IH [OF rest] cs slot_stored_run [OF cs(1) st] rows p
    by (auto intro!: exI [of _ "Enqueue kind due payload (tick i) # cs"])
qed

lemma enqueue_slots_replay:
  "\<forall>p \<in> set slots. slot_stored L Z blocks db p \<Longrightarrow>
     enqueue_slots L Z blocks tick i slots db = (Inr (map (\<lambda>(k, d). (k, d, False)) slots), db)"
proof (induction slots arbitrary: i)
  case (Cons p slots)
  then obtain payload jk tid t where
    "payload_for_slot L Z (fst p) (snd p) blocks = Inr payload"
    "enqueue_args L (fst p) (snd p) payload = Inr (payload, jk, tid)"
    "find_task tid db = Some t" "t_payload_json t = json_dumps L (PDict payload)"
    by (auto simp: slot_stored_def stored_as_def)
  then show ?case
    using Cons by (cases p) (simp add: enqueue_present del: json_dumps.simps)
qed simp

text \<open>
  Re-running a sweep is harmless: after a sweep succeeded and other schedulers and workers
  enqueued, claimed, renewed or completed anything, the same sweep again succeeds, reports
  every one of its slots as already stored, and leaves the store as it is.
\<close>

theorem sweep_replay:
  assumes "enqueue_due_slots L Z blocks tick now horizon s = (Inr rows, s1)"
    and "list_all (\<lambda>c. \<not> is_retry c) cs" and "s2 = run_ops (control_exec L) cs s1"
  shows "enqueue_due_slots L Z blocks tick' now horizon s2 =
    (Inr (map (\<lambda>(kind, due, created). (kind, due, False)) rows), s2)"
proof -
  from assms(1) obtain slots where sl: "compute_due_slots Z now blocks horizon = Inr slots"
    "enqueue_slots L Z blocks tick 0 slots s = (Inr rows, s1)"
    by (auto simp: enqueue_due_slots_def split: sum.splits)
  note st = enqueue_slots_stores [OF sl(2)]
  have "slot_stored L Z blocks s2 p" if "p \<in> set slots" for p
    using st that slot_stored_run [OF assms(2)] assms(3) by blast
  then have "enqueue_slots L Z blocks tick' 0 slots s2 = (Inr (map (\<lambda>(k, d). (k, d, False)) slots), s2)"
    by (intro enqueue_slots_replay) blast
  moreover have "map (\<lambda>(k, d). (k, d, False)) slots = map (\<lambda>(kind, due, created). (kind, due, False)) rows"
  proof -
    have "slots = map (\<lambda>(k, d, c). (k, d)) rows" using st by simp
    then show ?thesis by (simp add: o_def case_prod_unfold)
  qed
  ultimately show ?thesis using sl(1) by (simp add: enqueue_due_slots_def)
qed

section \<open>The loop's sleep\<close>

text \<open>
  Every sleep of the recurring loop lasts at least the smaller of the cap and half a second,
  and at most the larger of the two, so the loop neither spins nor blocks beyond its cap
  (half a second when the cap is smaller).
\<close>

theorem run_loop_sleeps_bounded:
  assumes "0 < cap"
  shows "\<forall>secs \<in> set (fst (snd (run_loop L Z blocks tick max_iterations cap iterations readings db))).
    min cap (1/2) \<le> secs \<and> secs \<le> max cap (1/2)"
proof -
  have one: "min cap (1/2) \<le> secs \<and> secs \<le> max cap (1/2)" if "sleep_for L Z now blocks cap = Inr secs" for now secs
    using that by (auto simp: sleep_for_def split: option.splits)
  show ?thesis
  proof (induction readings arbitrary: iterations db max_iterations)
    case (Cons now readings)
    show ?case
      using assms by (auto simp: case_prod_unfold split: sum.splits dest: one Cons.IH [rule_format])
  qed simp
qed

section \<open>What the parser accepts\<close>

definition block_ok :: "schedule_block \<Rightarrow> bool" where
  "block_ok b \<longleftrightarrow> b_kind b \<in> set ALLOWED_KINDS \<and> validate_payload (b_payload b) = Inr (b_payload b) \<and>
     b_local_hours b \<noteq> [] \<and> set (b_local_hours b) \<subseteq> {0..23} \<and>
     b_local_minutes b \<noteq> [] \<and> set (b_local_minutes b) \<subseteq> {0..59} \<and>
     b_weekdays b \<noteq> [] \<and> set (b_weekdays b) \<subseteq> {0..6}"

lemma map_result_set:
  assumes "map_result f xs = Inr ys" "\<And>x y. f x = Inr y \<Longrightarrow> P y"
  shows "\<forall>y \<in> set ys. P y"
  using assms(1) by (induction xs arbitrary: ys) (auto split: sum.splits dest: assms(2))

lemma map_result_Nil: "map_result f xs = Inr [] \<Longrightarrow> xs = []"
  using map_result_Inr_length by fastforce

lemma parse_clock_set_ok:
  assumes "parse_clock_set raw upper = Inr hs" "0 \<le> upper"
  shows "hs \<noteq> [] \<and> set hs \<subseteq> {0..upper}"
proof -
  consider (all) "hs = [0..upper]"
    | (some) vs where "vs \<noteq> []" "map_result (\<lambda>v. case v of
                 PInt i \<Rightarrow> if 0 \<le> i \<and> i \<le> upper then Inr i else Inl ScheduleError
               | _ \<Rightarrow> Inl ScheduleError) vs = Inr hs"
    using assms(1) by (auto simp: parse_clock_set_def split: option.splits pyval.splits if_splits)
  then show ?thesis
  proof cases
    case all
    then show ?thesis using assms(2) by auto
  next
    case some
    then have "hs \<noteq> []" using map_result_Nil by blast
    moreover have "\<forall>h \<in> set hs. 0 \<le> h \<and> h \<le> upper"
      by (rule map_result_set [OF some(2)]) (auto split: pyval.splits if_splits)
    ultimately show ?thesis by auto
  qed
qed

lemma weekday_range: "map_of WEEKDAY_NAMES k = Some d \<Longrightarrow> 0 \<le> d \<and> d \<le> 6"
  by (drule map_of_SomeD) (auto simp: WEEKDAY_NAMES_def)

lemma parse_weekdays_ok:
  assumes "parse_weekdays raw = Inr ds"
  shows "ds \<noteq> [] \<and> set ds \<subseteq> {0..6}"
proof -
  obtain vs where vs: "vs \<noteq> []" "map_result (\<lambda>v. case v of
                 PStr s \<Rightarrow> (case map_of WEEKDAY_NAMES (lower s) of
                    Some d \<Rightarrow> Inr d | None \<Rightarrow> Inl ScheduleError)
               | _ \<Rightarrow> Inl ScheduleError) vs = Inr ds"
    using assms by (auto simp: parse_weekdays_def split: pyval.splits if_splits)
  have "\<forall>d \<in> set ds. 0 \<le> d \<and> d \<le> 6"
    by (rule map_result_set [OF vs(2)])
      (auto split: pyval.splits option.splits dest: weekday_range)
  then show ?thesis using vs map_result_Nil by fastforce
qed

lemma parse_due_time_ok:
  assumes "parse_due_time body = Inr (hs, ms)"
  shows "hs \<noteq> [] \<and> set hs \<subseteq> {0..23} \<and> ms \<noteq> [] \<and> set ms \<subseteq> {0..59}"
proof -
  consider (single) h m s where "parse_due_local s = Inr (h, m)" "hs = [h]" "ms = [m]"
    | (sets) "parse_clock_set (map_of body ''hours'') 23 = Inr hs"
        "parse_clock_set (map_of body ''minutes'') 59 = Inr ms"
    using assms by (auto simp: parse_due_time_def Let_def split: option.splits pyval.splits if_splits)
  then show ?thesis
  proof cases
    case single
    then show ?thesis
      by (auto simp: parse_due_local_def split: prod.splits option.splits sum.splits if_splits)
  next
    case sets
    then show ?thesis using parse_clock_set_ok by force
  qed
qed

lemma as_schedule_error_Inr [simp]: "as_schedule_error r = Inr x \<longleftrightarrow> r = Inr x"
  by (auto simp: as_schedule_error_def split: sum.splits)

lemma parse_block_ok:
  assumes "parse_block L block_id v = Inr b"
  shows "block_ok b \<and> b_block_id b = block_id"
proof -
  obtain body kind where v: "v = PDict body" "map_of body ''kind'' = Some (PStr kind)"
    using assms by (auto simp: parse_block_def split: pyval.splits option.splits)
  obtain raw where raw: "get_or body ''payload'' (PDict []) = PDict raw"
    using assms v by (cases "get_or body ''payload'' (PDict [])") (auto simp: parse_block_def)
  obtain k hours minutes weekdays payload where
    b: "validate_kind kind = Inr k" "parse_due_time body = Inr (hours, minutes)"
    "parse_weekdays (get_or body ''weekdays'' all_days) = Inr weekdays"
    "validate_payload raw = Inr payload"
    "b = \<lparr>b_block_id = block_id, b_kind = kind, b_local_hours = hours,
        b_local_minutes = minutes, b_weekdays = weekdays,
        b_enabled = truthy (get_or body ''enabled'' (PBool True)),
        b_notes = py_str L (get_or body ''notes'' (PStr [])), b_payload = payload\<rparr>"
    using assms v raw by (auto simp: parse_block_def split: prod.splits)
  have "validate_payload payload = Inr payload" using validate_payload_same [OF b(4)] b(4) by simp
  then show ?thesis
    using parse_due_time_ok [OF b(2)] parse_weekdays_ok [OF b(3)] validate_kind_allowed [OF b(1)]
    by (simp add: b(5) block_ok_def)
qed

text \<open>
  A schedule the parser accepts has at least one block, and each block names an allowed
  kind (never delivery), local hours, minutes and weekdays that exist, and a payload the
  control store's own validation accepts.
\<close>

theorem parse_schedule_blocks_ok:
  assumes "parse_schedule_toml L loads text = Inr blocks"
  shows "blocks \<noteq> [] \<and> (\<forall>b \<in> set blocks. b_kind b \<in> set ALLOWED_KINDS \<and>
     b_kind b \<noteq> DELIVERY_KIND_FORBIDDEN \<and> validate_payload (b_payload b) = Inr (b_payload b) \<and>
     b_local_hours b \<noteq> [] \<and> set (b_local_hours b) \<subseteq> {0..23} \<and>
     b_local_minutes b \<noteq> [] \<and> set (b_local_minutes b) \<subseteq> {0..59} \<and>
     b_weekdays b \<noteq> [] \<and> set (b_weekdays b) \<subseteq> {0..6})"
proof -
  obtain raw where raw: "loads text = Inr raw"
    using assms by (auto simp: parse_schedule_toml_def)
  obtain table where table: "map_of raw ''schedule'' = Some (PDict table)"
    using assms raw by (auto simp: parse_schedule_toml_def split: option.splits pyval.splits)
  have t: "table \<noteq> []" "map_result (\<lambda>(block_id, body). parse_block L block_id body) table = Inr blocks"
    using assms raw table by (simp_all add: parse_schedule_toml_def split: if_splits)
  have "\<forall>b \<in> set blocks. block_ok b"
    by (rule map_result_set [OF t(2)], unfold case_prod_unfold, drule parse_block_ok, blast)
  moreover have "blocks \<noteq> []" using t map_result_Nil by blast
  moreover have "k \<noteq> DELIVERY_KIND_FORBIDDEN" if "k \<in> set ALLOWED_KINDS" for k
    using that by (auto simp: ALLOWED_KINDS_def DELIVERY_KIND_FORBIDDEN_def)
  ultimately show ?thesis unfolding block_ok_def by blast
qed

section \<open>A spring transition\<close>

text \<open>Europe/London around 2026-03-29 01:00 UTC, where the wall clock jumps from 01:00 to 02:00.\<close>

definition spring_jump :: instant where
  "spring_jump = 63910342800000000"

definition spring_zone :: zone where
  "spring_zone = \<lparr>z_local = (\<lambda>t. (if t < spring_jump then t else t + 3600000000, False)),
     z_utc = (\<lambda>(w, f). if w < spring_jump \<or> w < spring_jump + 3600000000 \<and> \<not> f then w else w - 3600000000)\<rparr>"

definition gap_block :: schedule_block where
  "gap_block = \<lparr>b_block_id = ''gap'', b_kind = ''ingest'', b_local_hours = [1], b_local_minutes = [30],
     b_weekdays = [0..6], b_enabled = True, b_notes = [], b_payload = []\<rparr>"

lemma gap_block_due: "block_due gap_block (spring_jump + 1800000000)"
  by (simp add: block_due_def gap_block_def spring_jump_def weekday_of_def hour_of_def minute_of_def
      us_per_day_def us_per_minute_def)

text \<open>
  A sweep over a spring-forward transition emits a slot for a local time that does not
  exist: with a block at 01:30 and the wall clock jumping from 01:00 to 02:00, no instant has
  the local time 01:30 that day, yet the window that contains the jump yields a slot, and the
  driver then finds no block that owns it.
\<close>

theorem gap_slot_emitted:
  "(\<forall>t. fst (z_local spring_zone t) \<noteq> spring_jump + 1800000000) \<and>
   (\<exists>slots. compute_due_slots spring_zone (spring_jump - 60000000) [gap_block] 31 = Inr slots \<and>
      (''ingest'', format_utc_z (spring_jump + 1800000000)) \<in> set slots) \<and>
   (iso_contract L \<longrightarrow> payload_for_slot L spring_zone ''ingest'' (format_utc_z (spring_jump + 1800000000)) [gap_block]
      = Inl ScheduleError)"
proof (intro conjI impI)
  show "\<forall>t. fst (z_local spring_zone t) \<noteq> spring_jump + 1800000000"
    by (auto simp: spring_zone_def)
  have sh: "shift_seconds (spring_jump - 60000000) (60 * 31) = Inr (spring_jump + 1800000000)"
    by (simp add: shift_seconds_def spring_jump_def max_instant_def)
  have c: "fst (z_local spring_zone (spring_jump - 60000000)) -
      fst (z_local spring_zone (spring_jump - 60000000)) mod us_per_minute = spring_jump - 60000000"
    by (simp add: spring_zone_def spring_jump_def us_per_minute_def)
  have up: "z_local spring_zone (spring_jump + 1800000000) = (spring_jump + 5400000000, False)"
    by (simp add: spring_zone_def)
  have fin: "fst (z_local spring_zone (spring_jump + 1800000000)) + us_per_minute \<le> max_instant"
    unfolding up by (simp add: spring_jump_def us_per_minute_def max_instant_def)
  have vis: "(spring_jump + 1800000000, False) \<in> visited (spring_jump + 5400000000)
      (spring_jump - 60000000, snd (z_local spring_zone (spring_jump - 60000000)))"
    unfolding visited_def by (rule CollectI, rule exI [of _ 31]) (simp add: us_per_minute_def)
  obtain out where out: "compute_due_slots spring_zone (spring_jump - 60000000) [gap_block] 31 =
      Inr (sort_key (\<lambda>(kind, due). (due, kind)) out)"
    and sw: "sweep spring_zone (z_utc spring_zone (z_local spring_zone (spring_jump - 60000000)))
      (z_utc spring_zone (z_local spring_zone (spring_jump + 1800000000)))
      (fst (z_local spring_zone (spring_jump + 1800000000))) [gap_block]
      (fst (z_local spring_zone (spring_jump - 60000000)) -
         fst (z_local spring_zone (spring_jump - 60000000)) mod us_per_minute,
       snd (z_local spring_zone (spring_jump - 60000000))) ([], []) = Inr out"
    using compute_due_slots_eq [OF _ sh fin, of "[gap_block]"] by auto
  have "(''ingest'', format_utc_z (spring_jump + 1800000000)) \<in> slots_at spring_zone
      (z_utc spring_zone (z_local spring_zone (spring_jump - 60000000)))
      (z_utc spring_zone (z_local spring_zone (spring_jump + 1800000000))) [gap_block]
      (spring_jump + 1800000000, False)"
    unfolding slots_at_iff using gap_block_due by (simp add: spring_zone_def) (simp add: gap_block_def)
  then have "(''ingest'', format_utc_z (spring_jump + 1800000000)) \<in> set out"
    using sweep_set [OF sw] vis unfolding c up by auto
  then show "\<exists>slots. compute_due_slots spring_zone (spring_jump - 60000000) [gap_block] 31 = Inr slots \<and>
      (''ingest'', format_utc_z (spring_jump + 1800000000)) \<in> set slots"
    using out by simp
next
  assume "iso_contract L"
  moreover have "spring_jump + 1800000000 \<in> whole_seconds"
    by (simp add: spring_jump_def whole_seconds_def text_range_def min_text_instant_def max_instant_def)
  ultimately have "parse_utc_z L (format_utc_z (spring_jump + 1800000000)) = Inr (spring_jump + 1800000000)"
    by (rule parse_format_utc_z(1))
  moreover have "\<not> block_due gap_block (spring_jump + 5400000000)"
    by (simp add: block_due_def gap_block_def spring_jump_def hour_of_def us_per_day_def)
  ultimately show "payload_for_slot L spring_zone ''ingest'' (format_utc_z (spring_jump + 1800000000)) [gap_block]
      = Inl ScheduleError"
    by (simp add: payload_for_slot_def spring_zone_def Let_def add.commute)
qed

section \<open>A concrete schedule\<close>

definition demo_block :: schedule_block where
  "demo_block = gap_block\<lparr>b_local_hours := [8], b_local_minutes := [0]\<rparr>"

lemma demo_zone [simp]:
  "z_local spring_zone demo_now = (demo_now, False)"
  "z_local spring_zone (demo_now + 1) = (demo_now + 1, False)"
  "z_utc spring_zone (demo_now, False) = demo_now"
  by (simp_all add: spring_zone_def demo_now_def spring_jump_def)

lemma demo_minute_zone: "minute_zone spring_zone demo_now" "minute_zone spring_zone (demo_now + 1)"
  by (simp_all add: minute_zone_def spring_zone_def demo_now_def spring_jump_def us_per_minute_def)

lemma demo_bounds:
  "0 \<le> demo_now" "demo_now \<le> max_instant" "demo_now + us_per_minute \<le> max_instant"
  "demo_now mod us_per_minute = 0" "demo_now \<in> whole_seconds" "off_minute spring_zone (demo_now + 1)"
  using demo_minute_zone(2)
  by (simp_all add: demo_now_def max_instant_def us_per_minute_def whole_seconds_def text_range_def
      min_text_instant_def off_minute_def spring_zone_def spring_jump_def)

lemma demo_due: "block_due demo_block demo_now"
  by (simp add: block_due_def demo_block_def gap_block_def demo_now_def weekday_of_def hour_of_def
      minute_of_def us_per_day_def us_per_minute_def)

lemma demo_kinds: "due_kinds [demo_block] demo_now = {''ingest''}"
  using demo_due by (auto simp: due_kinds_def demo_block_def gap_block_def)

lemma demo_slots:
  "compute_due_slots spring_zone demo_now [demo_block] 0 = Inr [(''ingest'', format_utc_z demo_now)]"
  using zero_horizon_sweep [OF demo_minute_zone(1), of "[demo_block]"]
  by (simp add: demo_bounds demo_kinds)

text \<open>The jump of a spring zone is no obstacle for a block that is due after it.\<close>

lemma spring_window:
  assumes "b = gap_block\<lparr>b_local_hours := [2], b_local_minutes := [0]\<rparr>"
  shows "clear_window spring_zone [b] (spring_jump - 60000000) (spring_jump + 1800000000)"
proof -
  have only: "w = spring_jump + 3600000000"
    if due: "block_due b w" and w: "spring_jump - 120000000 < w" "w \<le> spring_jump + 5400000000" "w mod us_per_minute = 0" for w
  proof -
    define x where "x = w - (spring_jump - 3600000000)"
    have x: "0 \<le> x" "x < us_per_day" using w by (simp_all add: x_def us_per_day_def)
    have "w mod us_per_day = (x + (spring_jump - 3600000000)) mod us_per_day" by (simp add: x_def)
    also have "\<dots> = (x + 0) mod us_per_day"
      by (rule mod_add_cong) (simp_all add: spring_jump_def us_per_day_def)
    finally have day: "w mod us_per_day = x" using x by simp
    have "x mod us_per_minute = (w - (spring_jump - 3600000000)) mod us_per_minute" by (simp add: x_def)
    also have "\<dots> = (0 - 0) mod us_per_minute"
      by (rule mod_diff_cong) (simp_all add: w(3), simp add: spring_jump_def us_per_minute_def)
    finally have "x = us_per_minute * (x div us_per_minute)" by (simp add: minus_mod_eq_mult_div [symmetric])
    moreover have "x div 3600000000 = 2" "x div us_per_minute mod 60 = 0"
      using due day unfolding assms block_due_def hour_of_def minute_of_def by (simp_all add: gap_block_def)
    moreover have "x div 3600000000 = x div us_per_minute div 60" by (simp add: us_per_minute_def zdiv_zmult2_eq [symmetric])
    ultimately have "x = us_per_minute * 120" by (metis mult_div_mod_eq add.right_neutral mult_2 numeral_Bit0 mult.commute numeral_times_numeral)
    then show ?thesis by (simp add: x_def us_per_minute_def)
  qed
  then have "\<forall>w. block_due b w \<and> w mod us_per_minute = 0 \<and> spring_jump - 120000000 < w \<and> w \<le> spring_jump + 5400000000 \<longrightarrow>
      (\<exists>t. spring_jump - 120000000 < t \<and> t \<le> spring_jump + 1800000000 \<and> z_local spring_zone t = (w, False))"
  proof (intro allI impI exI [of _ spring_jump])
    fix w assume "block_due b w \<and> w mod us_per_minute = 0 \<and> spring_jump - 120000000 < w \<and> w \<le> spring_jump + 5400000000"
    then have "w = spring_jump + 3600000000" by (elim conjE) (rule only)
    then show "spring_jump - 120000000 < spring_jump \<and> spring_jump \<le> spring_jump + 1800000000 \<and> z_local spring_zone spring_jump = (w, False)"
      by (simp add: spring_zone_def)
  qed
  moreover have "\<not> snd (z_local spring_zone t) \<and> z_utc spring_zone (z_local spring_zone t) = t \<and>
      fst (z_local spring_zone t) mod us_per_minute = t mod us_per_minute \<and>
      (\<forall>u. t \<le> u \<longrightarrow> fst (z_local spring_zone t) \<le> fst (z_local spring_zone u))" for t
    using mod_mult_self1 [of t 60 60000000] by (auto simp: spring_zone_def us_per_minute_def)
  ultimately show ?thesis
    unfolding clear_window_def by (auto simp: spring_zone_def us_per_minute_def)
qed

theorem due_slots_exact_witness:
  "\<exists>slots. compute_due_slots spring_zone (spring_jump - 60000000) [gap_block\<lparr>b_local_hours := [2], b_local_minutes := [0]\<rparr>] 31 = Inr slots \<and>
     (''ingest'', format_utc_z spring_jump) \<in> set slots"
proof -
  let ?b = "gap_block\<lparr>b_local_hours := [2], b_local_minutes := [0]\<rparr>"
  have sh: "shift_seconds (spring_jump - 60000000) (60 * 31) = Inr (spring_jump + 1800000000)" and lo: "min_text_instant \<le> spring_jump - 60000000"
    and fin: "fst (z_local spring_zone (spring_jump + 1800000000)) + us_per_minute \<le> max_instant"
    by (simp_all add: shift_seconds_def spring_zone_def spring_jump_def max_instant_def min_text_instant_def us_per_minute_def)
  have "block_due ?b (fst (z_local spring_zone spring_jump))" "spring_jump mod us_per_minute = 0" "b_kind ?b = ''ingest''"
    by (simp_all add: block_due_def gap_block_def spring_zone_def spring_jump_def weekday_of_def hour_of_def minute_of_def us_per_day_def us_per_minute_def)
  moreover obtain slots where "compute_due_slots spring_zone (spring_jump - 60000000) [?b] 31 = Inr slots"
    "set slots = {(b_kind b, format_utc_z t) |b t. b \<in> set [?b] \<and> spring_jump - 60000000 \<le> t \<and> t \<le> spring_jump + 1800000000 \<and>
      t mod us_per_minute = 0 \<and> block_due b (fst (z_local spring_zone t))}"
    using due_slots_exact [OF _ sh lo spring_window [OF refl] fin] by auto
  moreover have "spring_jump - 60000000 \<le> spring_jump" "spring_jump \<le> spring_jump + 1800000000" "?b \<in> set [?b]" by simp_all
  ultimately show ?thesis by (intro exI [of _ slots]) (simp only: mem_Collect_eq, metis)
qed

theorem zero_horizon_exact_witness:
  "compute_due_slots spring_zone (demo_now + 1) [demo_block] 0 = Inr []"
  using zero_horizon_exact [OF demo_minute_zone(2), of "[demo_block]"] demo_bounds(6)
  by (simp add: off_minute_def)

theorem run_loop_off_minute_witness:
  "snd (snd (run_loop demo_lib spring_zone [demo_block] (\<lambda>_. demo_now) 5 60 0
     [demo_now + 1, demo_now + 1] demo_db)) = demo_db"
  by (rule run_loop_off_minute) (simp add: demo_bounds)

theorem run_loop_sleeps_bounded_witness:
  "list_all (\<lambda>secs. min 60 (1/2) \<le> secs \<and> secs \<le> max 60 (1/2))
     (fst (snd (run_loop demo_lib spring_zone [demo_block] (\<lambda>_. demo_now) 5 60 0
       [demo_now + 1, demo_now + 1] demo_db)))"
  unfolding list_all_iff by (rule run_loop_sleeps_bounded) simp

lemma demo_payload_for_slot:
  "payload_for_slot demo_lib spring_zone ''ingest'' (format_utc_z demo_now) [demo_block] = Inr []"
  using demo_due parse_format_utc_z(1) [OF demo_iso demo_bounds(5)]
  by (simp add: payload_for_slot_def demo_block_def gap_block_def)

lemma demo_slot_args: "\<exists>tid. enqueue_args demo_lib ''ingest'' (format_utc_z demo_now) [] = Inr ([], [], tid)"
proof -
  have "validate_due_slot demo_lib (format_utc_z demo_now) = Inr (format_utc_z demo_now)"
    using parse_format_utc_z(2) [OF demo_iso demo_bounds(5)]
    by (simp add: validate_due_slot_def) (simp add: format_utc_z_def)
  then show ?thesis
    by (simp add: enqueue_args_def validate_kind_def DELIVERY_KIND_FORBIDDEN_def
      ALLOWED_KINDS_def validate_payload_def deterministic_task_id_def del: take_append)
qed

lemma demo_sweep:
  "\<exists>s1. enqueue_due_slots demo_lib spring_zone [demo_block] (\<lambda>_. demo_now) demo_now 0 empty_file =
     (Inr [(''ingest'', format_utc_z demo_now, True)], s1)"
  using demo_slot_args
  by (auto simp: enqueue_due_slots_def demo_slots demo_payload_for_slot enqueue_def immediate_tx_def
      insert_task_def Let_def find_task_def empty_file_def)

theorem sweep_replay_witness:
  "\<exists>s1. enqueue_due_slots demo_lib spring_zone [demo_block] (\<lambda>_. demo_now) demo_now 0 empty_file =
     (Inr [(''ingest'', format_utc_z demo_now, True)], s1) \<and>
   enqueue_due_slots demo_lib spring_zone [demo_block] (\<lambda>_. demo_now) demo_now 0 s1 =
     (Inr [(''ingest'', format_utc_z demo_now, False)], s1)"
proof -
  obtain s1 where s1: "enqueue_due_slots demo_lib spring_zone [demo_block] (\<lambda>_. demo_now) demo_now 0 empty_file =
     (Inr [(''ingest'', format_utc_z demo_now, True)], s1)"
    using demo_sweep by blast
  show ?thesis using s1 sweep_replay [OF s1, of "[]" s1 "\<lambda>_. demo_now"] by simp
qed

theorem parse_schedule_blocks_ok_witness:
  "\<exists>blocks. parse_schedule_toml demo_lib (\<lambda>_. Inr [(''schedule'', PDict [(''a'', PDict
      [(''kind'', PStr ''ingest''), (''due_local'', PStr ''06:30'')])])]) ''text'' = Inr blocks \<and> blocks \<noteq> []"
proof -
  obtain blocks where b: "parse_schedule_toml demo_lib (\<lambda>_. Inr [(''schedule'', PDict [(''a'', PDict
      [(''kind'', PStr ''ingest''), (''due_local'', PStr ''06:30'')])])]) ''text'' = Inr blocks"
  proof -
    have "parse_due_time [(''kind'', PStr ''ingest''), (''due_local'', PStr ''06:30'')] = Inr ([6], [30])"
      by code_simp
    moreover have "parse_weekdays all_days = Inr [0..6]" by code_simp
    ultimately show ?thesis
      using that by (simp add: parse_schedule_toml_def parse_block_def validate_kind_def get_or_def
          DELIVERY_KIND_FORBIDDEN_def ALLOWED_KINDS_def as_schedule_error_def validate_payload_def)
  qed
  then show ?thesis using parse_schedule_blocks_ok by blast
qed

theorem gap_slot_emitted_witness:
  "payload_for_slot demo_lib spring_zone ''ingest'' (format_utc_z (spring_jump + 1800000000)) [gap_block]
     = Inl ScheduleError"
  using gap_slot_emitted [of demo_lib] demo_iso by simp

end
