(* ===== verification/QueryPlanner.thy ===== *)
theory QueryPlanner
  imports Timestamps InvestigationContract
begin

text \<open>
  \<open>news_pipeline/query_planner.py\<close>: the bounded search queries planned for one category or one
  candidate, with \<open>QueryPlanContract\<close> of \<open>live_contracts.py\<close>. Texts are sequences of code
  points below 256; the regular expressions are written out as functions on them.
\<close>

section \<open>Text helpers\<close>

text \<open>
  \<open>str.casefold\<close> on these code points. (The micro sign folds to a letter above them and is
  left as it is; it is a word character either way.)
\<close>

definition casefold :: "string \<Rightarrow> string" where
  "casefold s = concat (map (\<lambda>c. if of_char c = (223 :: nat) then ''ss'' else [to_lower c]) s)"

text \<open>\<open>\w\<close>, and the tail class of the term pattern (an apostrophe or a hyphen too).\<close>

definition word_char :: "char \<Rightarrow> bool" where
  "word_char c = (let n = (of_char c :: nat) in
     48 \<le> n \<and> n \<le> 57 \<or> 65 \<le> n \<and> n \<le> 90 \<or> n = 95 \<or> 97 \<le> n \<and> n \<le> 122 \<or> n = 170 \<or>
     n = 178 \<or> n = 179 \<or> n = 181 \<or> n = 185 \<or> n = 186 \<or> 188 \<le> n \<and> n \<le> 190 \<or>
     192 \<le> n \<and> n \<noteq> 215 \<and> n \<noteq> 247)"

definition tail_char :: "char \<Rightarrow> bool" where
  "tail_char c = (word_char c \<or> of_char c = (39 :: nat) \<or> c = CHR ''-'')"

text \<open>\<open>re.findall\<close> of a word character followed by at least two tail characters.\<close>

function find_words :: "string \<Rightarrow> string list" where
  "find_words [] = []"
| "find_words (c # s) =
     (if word_char c \<and> 2 \<le> length (takeWhile tail_char s)
      then (c # takeWhile tail_char s) # find_words (dropWhile tail_char s)
      else find_words s)"
  by pat_completeness auto

termination find_words
  by (relation "measure length") (auto intro: le_imp_less_Suc length_dropWhile_le)

text \<open>\<open>tuple(dict.fromkeys(xs))\<close>: the first occurrence of each element, in order.\<close>

fun dedupe :: "'a list \<Rightarrow> 'a list" where
  "dedupe [] = []"
| "dedupe (x # xs) = x # dedupe (filter (\<lambda>y. y \<noteq> x) xs)"

lemma set_dedupe [simp]: "set (dedupe xs) = set xs"
  by (induction xs rule: dedupe.induct) auto

lemma distinct_dedupe [simp]: "distinct (dedupe xs)"
  by (induction xs rule: dedupe.induct) auto

lemma dedupe_Nil [simp]: "dedupe xs = [] \<longleftrightarrow> xs = []"
  by (cases xs) auto

definition rstrip :: "string \<Rightarrow> string" where
  "rstrip s = rev (dropWhile is_space (rev s))"

definition replace_char :: "char \<Rightarrow> char \<Rightarrow> string \<Rightarrow> string" where
  "replace_char a b s = map (\<lambda>c. if c = a then b else c) s"

section \<open>Planning\<close>

definition MAX_EXPANSION_ROUNDS :: nat where
  "MAX_EXPANSION_ROUNDS = 2"

definition MAX_QUERY_LENGTH :: nat where
  "MAX_QUERY_LENGTH = 256"

definition EXPANSION_REASON :: string where
  "EXPANSION_REASON = ''low_novelty_expansion''"

definition INVESTIGATION_REASON :: string where
  "INVESTIGATION_REASON = ''event_specific_investigation''"

definition STOP_WORDS :: "string list" where
  "STOP_WORDS = [''a'', ''an'', ''and'', ''are'', ''at'', ''by'', ''for'', ''from'', ''in'', ''is'', ''of'',
     ''on'', ''the'', ''to'', ''with'', ''www'', ''http'', ''https'', ''com'', ''reddit'']"

definition query_terms :: "string \<Rightarrow> string list" where
  "query_terms title = dedupe (filter (\<lambda>w. w \<notin> set STOP_WORDS) (find_words (casefold title)))"

definition query_text :: "string \<Rightarrow> string" where
  "query_text seed =
     (let words = query_terms seed;
          base = join '' '' (take 6 words);
          text = (if base \<noteq> [] then base @ '' official update'' else ''official update'')
      in if length text > MAX_QUERY_LENGTH then rstrip (take MAX_QUERY_LENGTH text) else text)"

record query_plan =
  q_query_plan_id :: string
  q_source_id :: string
  q_query_text :: string
  q_category :: string
  q_reason_selected :: string
  q_cooldown_seconds :: int
  q_max_rounds :: int
  q_created_at :: string
  q_topic :: "string option"
  q_entity :: "string option"
  q_feed_lane_id :: "string option"

definition text_field :: "string \<Rightarrow> unit result" where
  "text_field s = guard (\<not> blank s) ValueError"

definition optional_text :: "string option \<Rightarrow> unit result" where
  "optional_text v = (case v of None \<Rightarrow> Inr () | Some s \<Rightarrow> text_field s)"

definition category_field :: "string \<Rightarrow> unit result" where
  "category_field s = guard (s \<in> set CATEGORY_VALUES) ValueError"

text \<open>\<open>_timestamp\<close>: a text ending in Z that \<open>fromisoformat\<close> reads with offset +00:00.\<close>

definition timestamp_field :: "pylib \<Rightarrow> string \<Rightarrow> unit result" where
  "timestamp_field L s =
     bind_result (text_field s) (\<lambda>_.
       if \<not> ends_with ''Z'' s then Inl ValueError
       else case fromisoformat_utc L (butlast s @ ''+00:00'') of None \<Rightarrow> Inl ValueError | Some _ \<Rightarrow> Inr ())"

definition stable_feed_lane_id :: "pylib \<Rightarrow> string \<Rightarrow> string \<Rightarrow> string \<Rightarrow> string list \<Rightarrow> string result" where
  "stable_feed_lane_id L source_id category text categories =
     bind_result (text_field source_id) (\<lambda>_.
     bind_result (category_field category) (\<lambda>_.
     bind_result (text_field text) (\<lambda>_.
     bind_result (guard (list_all (\<lambda>s. \<not> blank s) categories \<and> distinct categories) ValueError) (\<lambda>_.
       stable_id L [Some ''feed-lane'', Some source_id, Some category, Some text,
         Some (join [char_of (31 :: nat)] categories)] (Some 64)))))"

text \<open>\<open>QueryPlanContract.__post_init__\<close>, which fills in a missing feed lane.\<close>

definition plan_post_init :: "pylib \<Rightarrow> query_plan \<Rightarrow> query_plan result" where
  "plan_post_init L p =
     bind_result (text_field (q_query_plan_id p)) (\<lambda>_.
     bind_result (text_field (q_source_id p)) (\<lambda>_.
     bind_result (text_field (q_query_text p)) (\<lambda>_.
     bind_result (text_field (q_reason_selected p)) (\<lambda>_.
     bind_result (category_field (q_category p)) (\<lambda>_.
     bind_result (guard (0 \<le> q_cooldown_seconds p) ValueError) (\<lambda>_.
     bind_result (guard (1 \<le> q_max_rounds p) ValueError) (\<lambda>_.
     bind_result (timestamp_field L (q_created_at p)) (\<lambda>_.
     bind_result (optional_text (q_topic p)) (\<lambda>_.
     bind_result (optional_text (q_entity p)) (\<lambda>_.
       case q_feed_lane_id p of
         None \<Rightarrow> bind_result (stable_feed_lane_id L (q_source_id p) (q_category p) (q_query_text p) [])
                  (\<lambda>lane. Inr (p\<lparr>q_feed_lane_id := Some lane\<rparr>))
       | Some lane \<Rightarrow> bind_result (text_field lane) (\<lambda>_. Inr p)))))))))))"

text \<open>The search for a direct URL or a Reddit host, ignoring case.\<close>

definition names_url :: "string \<Rightarrow> bool" where
  "names_url s = (\<exists>p \<in> set [''http://'', ''https://'', ''www.'', ''reddit.com'', ''redd.it'']. contains p (lower s))"

definition has_break :: "string \<Rightarrow> bool" where
  "has_break s = list_ex (\<lambda>c. of_char c \<in> {13, 10, 9 :: nat}) s"

text \<open>\<open>authority.rpartition(":")\<close>: what stands before and after the last colon, if there is one.\<close>

definition rpartition_colon :: "string \<Rightarrow> (string \<times> string) option" where
  "rpartition_colon s =
     (if CHR '':'' \<notin> set s then None
      else Some (rev (tl (dropWhile (\<lambda>c. c \<noteq> CHR '':'') (rev s))),
                 rev (takeWhile (\<lambda>c. c \<noteq> CHR '':'') (rev s))))"

definition host_port :: "string \<Rightarrow> (string \<times> string) result" where
  "host_port authority =
     (if starts_with ''['' authority then
        let inside = takeWhile (\<lambda>c. c \<noteq> CHR '']'') (tl authority);
            after = drop (length inside + 2) authority in
        if CHR '']'' \<notin> set authority \<or> after \<noteq> [] \<and> \<not> starts_with '':'' after then Inl ValueError
        else Inr (inside, if starts_with '':'' after then tl after else [])
      else case rpartition_colon authority of None \<Rightarrow> Inr (authority, []) | Some hp \<Rightarrow> Inr hp)"

definition rstrip_char :: "char \<Rightarrow> string \<Rightarrow> string" where
  "rstrip_char a s = rev (dropWhile (\<lambda>c. c = a) (rev s))"

definition validate_searxng_query_target :: "string \<Rightarrow> string result" where
  "validate_searxng_query_target target =
     (if target \<noteq> strip target \<or> has_break target then Inl ValueError
      else if \<not> (starts_with ''http://'' target \<or> starts_with ''https://'' target) then Inl ValueError
      else let rest = drop (if starts_with ''http://'' target then 7 else 8) target;
               stop = (\<lambda>c. c \<in> {CHR ''/'', CHR ''?'', CHR ''#''} \<or> is_space c);
               authority = takeWhile (\<lambda>c. \<not> stop c) rest;
               path = dropWhile (\<lambda>c. \<not> stop c) rest in
        if authority = [] \<or> \<not> starts_with ''/'' path \<or>
           list_ex (\<lambda>c. c \<in> {CHR ''?'', CHR ''#''} \<or> is_space c) path then Inl ValueError
        else if CHR ''@'' \<in> set authority then Inl ValueError
        else bind_result (host_port authority) (\<lambda>(host, port).
          if host = [] then Inl ValueError
          else if port \<noteq> [] \<and> (\<not> list_all is_digit port \<or> num port < 1 \<or> 65535 < num port)
            then Inl ValueError
          else let normalized = rstrip_char (CHR ''.'') (casefold host);
                   route = rstrip_char (CHR ''/'') path in
            if normalized \<in> {''reddit.com'', ''redd.it'', ''www.redd.it''} \<or>
               ends_with ''.reddit.com'' normalized then Inl ValueError
            else if route \<noteq> ''/search'' \<and> \<not> ends_with ''/search'' route then Inl ValueError
            else Inr target))"

definition validate_query_plan :: "query_plan \<Rightarrow> string option \<Rightarrow> query_plan result" where
  "validate_query_plan plan target =
     (if q_reason_selected plan \<notin> {EXPANSION_REASON, INVESTIGATION_REASON} then Inl ValueError
      else if q_max_rounds plan \<noteq> int MAX_EXPANSION_ROUNDS then Inl ValueError
      else if length (q_query_text plan) > MAX_QUERY_LENGTH \<or> has_break (q_query_text plan) then Inl ValueError
      else if names_url (q_query_text plan) then Inl ValueError
      else bind_result (case target of None \<Rightarrow> Inr [] | Some t \<Rightarrow> validate_searxng_query_target t)
             (\<lambda>_. Inr plan))"

text \<open>A plan is constructed (and checked by the contract), then validated.\<close>

definition make_plan :: "pylib \<Rightarrow> string option list \<Rightarrow> query_plan \<Rightarrow> query_plan result" where
  "make_plan L identity p =
     bind_result (stable_id L identity (Some 32)) (\<lambda>pid. plan_post_init L (p\<lparr>q_query_plan_id := pid\<rparr>))"

definition build_expansion_queries ::
  "pylib \<Rightarrow> string \<Rightarrow> string \<Rightarrow> string \<Rightarrow> string list \<Rightarrow> string option \<Rightarrow> string option \<Rightarrow> int \<Rightarrow>
     query_plan list result" where
  "build_expansion_queries L source_id category evaluated_at titles category_label target cooldown =
     bind_result (case target of None \<Rightarrow> Inr [] | Some t \<Rightarrow> validate_searxng_query_target t) (\<lambda>_.
       let named = filter (\<lambda>t. query_terms t \<noteq> []) titles;
           label = (case category_label of
             Some l \<Rightarrow> if l \<noteq> [] then l else replace_char (CHR ''_'') (CHR '' '') category
           | None \<Rightarrow> replace_char (CHR ''_'') (CHR '' '') category);
           seeds = (if named = [] then [label] else named);
           texts = take MAX_EXPANSION_ROUNDS (dedupe (map query_text seeds)) in
       bind_result (map_result (\<lambda>text. make_plan L
           [Some ''query-plan'', Some source_id, Some category, Some text, Some category]
           \<lparr>q_query_plan_id = [], q_source_id = source_id, q_query_text = text, q_category = category,
            q_reason_selected = EXPANSION_REASON, q_cooldown_seconds = cooldown,
            q_max_rounds = int MAX_EXPANSION_ROUNDS, q_created_at = evaluated_at, q_topic = None,
            q_entity = None, q_feed_lane_id = None\<rparr>) texts) (\<lambda>plans.
         map_result (\<lambda>p. validate_query_plan p target) plans))"

definition build_investigation_queries ::
  "pylib \<Rightarrow> string \<Rightarrow> string \<Rightarrow> string \<Rightarrow> string \<Rightarrow> string option \<Rightarrow> string \<Rightarrow> int \<Rightarrow> query_plan list result" where
  "build_investigation_queries L candidate_id feed_lane_id category title publisher_host evaluated_at rnd =
     (if blank candidate_id then Inl ValueError
      else if blank feed_lane_id then Inl ValueError
      else if rnd < 0 \<or> rnd \<ge> int MAX_EXPANSION_ROUNDS then Inl ValueError
      else let seeds = title # (case publisher_host of
                 Some host \<Rightarrow> if host \<noteq> [] then [title @ '' '' @
                   replace_char (CHR ''-'') (CHR '' '') (replace_char (CHR ''.'') (CHR '' '') host)] else []
               | None \<Rightarrow> []);
               texts = take MAX_EXPANSION_ROUNDS (dedupe (map query_text seeds)) in
       bind_result (map_result (\<lambda>text. make_plan L
           [Some ''investigation-query'', Some candidate_id, Some feed_lane_id, Some (show_int rnd), Some text]
           \<lparr>q_query_plan_id = [], q_source_id = feed_lane_id, q_query_text = text, q_category = category,
            q_reason_selected = INVESTIGATION_REASON, q_cooldown_seconds = 0,
            q_max_rounds = int MAX_EXPANSION_ROUNDS, q_created_at = evaluated_at, q_topic = None,
            q_entity = Some candidate_id, q_feed_lane_id = Some feed_lane_id\<rparr>) texts) (\<lambda>plans.
         map_result (\<lambda>p. validate_query_plan p None) plans))"

declare find_words.simps [simp del]

section \<open>What planned queries look like\<close>

definition plain_char :: "char \<Rightarrow> bool" where
  "plain_char c \<longleftrightarrow> tail_char c \<or> c = CHR '' ''"

lemma find_words_chars: "w \<in> set (find_words s) \<Longrightarrow> w \<noteq> [] \<and> word_char (hd w) \<and> list_all tail_char w"
proof (induction s rule: find_words.induct)
  case (2 c s)
  then show ?case
    by (auto simp: find_words.simps(2) list_all_iff tail_char_def [of c] dest: set_takeWhileD split: if_splits)
qed (simp add: find_words.simps)

lemma query_terms_chars: "w \<in> set (query_terms t) \<Longrightarrow> w \<noteq> [] \<and> word_char (hd w) \<and> list_all tail_char w"
  by (auto simp: query_terms_def dest: find_words_chars)

lemma join_chars:
  "(\<And>w. w \<in> set ws \<Longrightarrow> list_all tail_char w) \<Longrightarrow> list_all plain_char (join '' '' ws)"
  by (induction "'' ''" ws rule: join.induct) (auto simp: plain_char_def list_all_iff)

lemma join_hd: "ws \<noteq> [] \<Longrightarrow> hd ws \<noteq> [] \<Longrightarrow> join sep ws \<noteq> [] \<and> hd (join sep ws) = hd (hd ws)"
  by (cases "(sep, ws)" rule: join.cases) auto

lemma word_char_not_space: "word_char c \<Longrightarrow> \<not> is_space c"
  by (auto simp: word_char_def is_space_def Let_def)

lemma rstrip_hd: "s \<noteq> [] \<Longrightarrow> \<not> is_space (hd s) \<Longrightarrow> rstrip s \<noteq> [] \<and> hd (rstrip s) = hd s"
proof -
  assume a: "s \<noteq> []" "\<not> is_space (hd s)"
  then obtain c t where s: "s = c # t" "\<not> is_space c" by (cases s) auto
  then have "dropWhile is_space (rev t @ [c]) = dropWhile is_space (rev t) @ [c]"
    by (simp add: dropWhile_append dropWhile_eq_Nil_conv)
  then show ?thesis by (simp add: rstrip_def s)
qed

lemma set_rstrip: "set (rstrip s) \<subseteq> set s"
  by (auto simp: rstrip_def dest: set_dropWhileD)

lemma length_rstrip: "length (rstrip s) \<le> length s"
  by (simp add: rstrip_def) (metis length_dropWhile_le length_rev)

lemma query_text_raw:
  assumes "text = (if join '' '' (take 6 (query_terms seed)) \<noteq> [] then join '' '' (take 6 (query_terms seed)) @ '' official update''
     else ''official update'')"
  shows "list_all plain_char text \<and> text \<noteq> [] \<and> \<not> is_space (hd text)"
proof -
  let ?ws = "take 6 (query_terms seed)"
  have ws: "w \<noteq> [] \<and> word_char (hd w) \<and> list_all tail_char w" if "w \<in> set ?ws" for w
    using that query_terms_chars by (blast dest: in_set_takeD)
  have off: "list_all plain_char '' official update''" "list_all plain_char ''official update''"
    by (simp_all add: plain_char_def tail_char_def word_char_def)
  have base: "list_all plain_char (join '' '' ?ws)" using ws by (intro join_chars) blast
  show ?thesis
  proof (cases "join '' '' ?ws = []")
    case True
    then show ?thesis using assms off by (simp add: is_space_def)
  next
    case False
    then have ne: "?ws \<noteq> []" by (cases ?ws) auto
    then have "hd ?ws \<in> set ?ws" by (rule hd_in_set)
    then have "hd (join '' '' ?ws) = hd (hd ?ws)" "word_char (hd (hd ?ws))"
      using join_hd [OF ne] ws by blast+
    then show ?thesis using False assms off base word_char_not_space by simp
  qed
qed

lemma query_text_ok:
  "list_all plain_char (query_text seed)" "length (query_text seed) \<le> MAX_QUERY_LENGTH" "\<not> blank (query_text seed)"
proof -
  define raw where "raw = (if join '' '' (take 6 (query_terms seed)) \<noteq> [] then join '' '' (take 6 (query_terms seed)) @ '' official update''
     else ''official update'')"
  have t: "list_all plain_char raw \<and> raw \<noteq> [] \<and> \<not> is_space (hd raw)"
    by (rule query_text_raw [OF raw_def])
  have q: "query_text seed = (if length raw > MAX_QUERY_LENGTH then rstrip (take MAX_QUERY_LENGTH raw) else raw)"
    by (simp add: query_text_def raw_def Let_def)
  have cut: "take MAX_QUERY_LENGTH raw \<noteq> []" "hd (take MAX_QUERY_LENGTH raw) = hd raw"
    using t by (simp_all add: MAX_QUERY_LENGTH_def)
  have hd: "query_text seed \<noteq> [] \<and> hd (query_text seed) = hd raw"
    using rstrip_hd [OF cut(1)] cut(2) t by (auto simp: q)
  have "length (rstrip (take MAX_QUERY_LENGTH raw)) \<le> MAX_QUERY_LENGTH"
    using length_rstrip [of "take MAX_QUERY_LENGTH raw"] by simp
  then show "length (query_text seed) \<le> MAX_QUERY_LENGTH" by (simp add: q)
  show "list_all plain_char (query_text seed)"
    using t set_rstrip [of "take MAX_QUERY_LENGTH raw"] by (auto simp: q list_all_iff dest: in_set_takeD)
  show "\<not> blank (query_text seed)"
    using hd t by (cases "query_text seed") (auto simp: blank_iff)
qed

lemma contains_chars: "contains p s \<Longrightarrow> set p \<subseteq> set s"
proof (induction s)
  case (Cons c s)
  show ?case
  proof (cases "starts_with p (c # s)")
    case True
    then have "set p = set (take (length p) (c # s))" by (simp add: starts_with_def)
    then show ?thesis using set_take_subset by fast
  next
    case False
    then show ?thesis using Cons by auto
  qed
qed simp

lemma of_char_to_lower:
  "of_char (to_lower c) = (let n = (of_char c :: nat) in
     if 65 \<le> n \<and> n \<le> 90 \<or> 192 \<le> n \<and> n \<le> 222 \<and> n \<noteq> 215 then n + 32 else n)"
  by (auto simp: to_lower_def Let_def)

lemma plain_not:
  assumes "plain_char c"
  shows "to_lower c \<noteq> CHR ''.''" "to_lower c \<noteq> CHR '':''" "of_char c \<notin> {13, 10, 9 :: nat}"
proof -
  have n: "(of_char c :: nat) \<notin> {46, 58, 14, 26, 13, 10, 9}"
    using assms by (auto simp: plain_char_def tail_char_def word_char_def Let_def)
  have "of_char (to_lower c) \<noteq> (46 :: nat)" "of_char (to_lower c) \<noteq> (58 :: nat)"
    using n by (auto simp: of_char_to_lower Let_def split: if_splits)
  then show "to_lower c \<noteq> CHR ''.''" "to_lower c \<noteq> CHR '':''" by auto
  show "of_char c \<notin> {13, 10, 9 :: nat}" using n by simp
qed

lemma plain_text_safe: "list_all plain_char s \<Longrightarrow> \<not> names_url s \<and> \<not> has_break s"
proof
  assume p: "list_all plain_char s"
  have "CHR ''.'' \<notin> set (lower s)" "CHR '':'' \<notin> set (lower s)"
    using p plain_not(1,2) by (auto simp: lower_def list_all_iff) metis+
  then show "\<not> names_url s" by (auto simp: names_url_def dest!: contains_chars)
  show "\<not> has_break s" using p plain_not(3) by (auto simp: has_break_def list_ex_iff list_all_iff)
qed

lemma stable_id_ok:
  assumes "digest_contract L" "parts \<noteq> []"
  shows "\<exists>i. stable_id L parts (Some 32) = Inr i \<and> length i = 32 \<and> \<not> blank i"
proof -
  let ?d = "\<lambda>s. sha256_hexdigest L s"
  have "length (take 32 (?d s)) = 32 \<and> \<not> blank (take 32 (?d s))" for s
  proof -
    have d: "length (?d s) = 64" "list_all is_hex (?d s)" using assms(1) by (auto simp: digest_contract_def)
    then obtain c t where c: "?d s = c # t" "is_hex c" by (cases "?d s") auto
    then show ?thesis using d is_hex_not_space [of c] by (simp add: blank_iff)
  qed
  then show ?thesis using assms(2) by (simp add: stable_id_def Let_def)
qed

lemma make_plan_ok:
  assumes "digest_contract L" "identity \<noteq> []" "\<not> blank (q_source_id p)" "\<not> blank (q_query_text p)"
    "\<not> blank (q_reason_selected p)" "q_category p \<in> set CATEGORY_VALUES" "0 \<le> q_cooldown_seconds p"
    "1 \<le> q_max_rounds p" "timestamp_field L (q_created_at p) = Inr ()"
    "optional_text (q_topic p) = Inr ()" "optional_text (q_entity p) = Inr ()"
    "q_feed_lane_id p = Some lane" "\<not> blank lane"
  shows "\<exists>pid. make_plan L identity p = Inr (p\<lparr>q_query_plan_id := pid\<rparr>) \<and> \<not> blank pid"
proof -
  obtain pid where "stable_id L identity (Some 32) = Inr pid" "\<not> blank pid"
    using stable_id_ok [OF assms(1,2)] by blast
  then show ?thesis
    using assms by (intro exI [of _ pid]) (simp add: make_plan_def plan_post_init_def text_field_def category_field_def)
qed

lemma map_result_all:
  "(\<And>x. x \<in> set xs \<Longrightarrow> \<exists>y. f x = Inr y \<and> P x y) \<Longrightarrow>
     \<exists>ys. map_result f xs = Inr ys \<and> list_all2 P xs ys"
proof (induction xs)
  case (Cons x xs)
  from Cons.prems [of x] obtain y where y: "f x = Inr y" "P x y" by auto
  from Cons obtain ys where "map_result f xs = Inr ys" "list_all2 P xs ys" by auto
  then show ?case using y by simp
qed simp

text \<open>
  Planning the queries of one candidate never fails on its own output and stays within its
  bounds: for a named candidate and lane, a known category, a valid time stamp and round 0 or 1,
  and whatever the title and the publisher host contain, it yields one or two plans with
  distinct texts of at most 256 characters, none of which names a URL or a Reddit host or holds
  a line break, all bound to the candidate and its lane.
\<close>

theorem investigation_queries_bounded:
  assumes "digest_contract L" "\<not> blank candidate" "\<not> blank lane" "category \<in> set CATEGORY_VALUES"
    "timestamp_field L when = Inr ()" "rnd \<in> {0, 1}"
  shows "\<exists>plans. build_investigation_queries L candidate lane category title host when rnd = Inr plans \<and>
    1 \<le> length plans \<and> length plans \<le> 2 \<and> distinct (map q_query_text plans) \<and>
    (\<forall>p \<in> set plans. length (q_query_text p) \<le> MAX_QUERY_LENGTH \<and> \<not> names_url (q_query_text p) \<and>
       \<not> has_break (q_query_text p) \<and> \<not> blank (q_query_plan_id p) \<and>
       q_entity p = Some candidate \<and> q_feed_lane_id p = Some lane)"
proof -
  define texts where "texts = take MAX_EXPANSION_ROUNDS (dedupe (map query_text (title # (case host of
      Some h \<Rightarrow> if h \<noteq> [] then [title @ '' '' @
        replace_char (CHR ''-'') (CHR '' '') (replace_char (CHR ''.'') (CHR '' '') h)] else [] | None \<Rightarrow> []))))"
  define p where "p = (\<lambda>t. \<lparr>q_query_plan_id = [], q_source_id = lane, q_query_text = t, q_category = category,
      q_reason_selected = INVESTIGATION_REASON, q_cooldown_seconds = 0,
      q_max_rounds = int MAX_EXPANSION_ROUNDS, q_created_at = when, q_topic = None,
      q_entity = Some candidate, q_feed_lane_id = Some lane\<rparr>)"
  define mk where "mk = (\<lambda>t. make_plan L
      [Some ''investigation-query'', Some candidate, Some lane, Some (show_int rnd), Some t] (p t))"
  define ok where "ok = (\<lambda>t q. \<exists>pid. q = (p t)\<lparr>q_query_plan_id := pid\<rparr> \<and> \<not> blank pid)"
  have tx: "list_all plain_char t \<and> length t \<le> MAX_QUERY_LENGTH \<and> \<not> blank t" if "t \<in> set texts" for t
    using that query_text_ok by (auto simp: texts_def dest!: in_set_takeD)
  have "\<exists>q. mk t = Inr q \<and> ok t q" if "t \<in> set texts" for t
  proof -
    have "\<not> blank INVESTIGATION_REASON" by (simp add: INVESTIGATION_REASON_def blank_iff is_space_def)
    then have "\<exists>pid. mk t = Inr ((p t)\<lparr>q_query_plan_id := pid\<rparr>) \<and> \<not> blank pid"
      unfolding mk_def using tx [OF that] assms
      by (intro make_plan_ok [where lane = lane]) (simp_all add: p_def optional_text_def text_field_def MAX_EXPANSION_ROUNDS_def)
    then show ?thesis by (auto simp: ok_def)
  qed
  then obtain plans where plans: "map_result mk texts = Inr plans" and rel: "list_all2 ok texts plans"
    using map_result_all [of texts mk ok] by blast
  have texts: "map q_query_text plans = texts"
    using rel by (auto simp: list_all2_conv_all_nth ok_def p_def intro!: nth_equalityI)
  have each: "\<exists>t \<in> set texts. ok t q" if "q \<in> set plans" for q
    using rel that by (auto simp: list_all2_conv_all_nth in_set_conv_nth) (metis nth_mem)
  have good: "length (q_query_text q) \<le> MAX_QUERY_LENGTH \<and> \<not> names_url (q_query_text q) \<and>
       \<not> has_break (q_query_text q) \<and> \<not> blank (q_query_plan_id q) \<and>
       q_entity q = Some candidate \<and> q_feed_lane_id q = Some lane \<and>
       q_reason_selected q = INVESTIGATION_REASON \<and> q_max_rounds q = int MAX_EXPANSION_ROUNDS"
    if "q \<in> set plans" for q
    using each [OF that] tx plain_text_safe by (auto simp: ok_def p_def)
  have "map_result (\<lambda>q. validate_query_plan q None) plans = Inr plans"
    using good by (simp add: map_result_same validate_query_plan_def leD)
  then have "build_investigation_queries L candidate lane category title host when rnd = Inr plans"
    using plans assms unfolding mk_def p_def texts_def
    by (auto simp: build_investigation_queries_def Let_def MAX_EXPANSION_ROUNDS_def)
  moreover have "length plans = length texts" using rel by (simp add: list_all2_lengthD)
  moreover have "texts \<noteq> []" "length texts \<le> 2" by (auto simp: texts_def MAX_EXPANSION_ROUNDS_def)
  moreover have "distinct (map q_query_text plans)" unfolding texts by (simp add: texts_def)
  ultimately show ?thesis
    using good by (intro exI [of _ plans]) (simp add: Suc_le_eq)
qed

text \<open>Concrete library functions for the planner: a constant digest and the strict time parser.\<close>

definition planner_lib :: pylib where
  "planner_lib = \<lparr>sha256_hexdigest = (\<lambda>s. replicate 64 (CHR ''a'')), fromisoformat_utc = strict_fromiso,
     json_loads = (\<lambda>s. None), float_repr = (\<lambda>f. ''0.0''), container_str = (\<lambda>v. ''...'')\<rparr>"

definition planner_stamp :: string where
  "planner_stamp = ''2026-01-02T03:04:05Z''"

lemma planner_lib_digest: "digest_contract planner_lib"
  by (simp add: digest_contract_def planner_lib_def is_hex_def list_all_iff)

lemma planner_stamp_ok: "timestamp_field planner_lib planner_stamp = Inr ()"
  by code_simp

theorem investigation_queries_bounded_witness:
  "\<exists>plans. build_investigation_queries planner_lib ''c1'' ''lane'' ''ai'' ''New chips at www.reddit.com''
     (Some ''example.com'') planner_stamp 1 = Inr plans \<and> length plans \<le> 2"
  using investigation_queries_bounded [OF planner_lib_digest _ _ _ planner_stamp_ok, of "''c1''" "''lane''" "''ai''"
      1 "''New chips at www.reddit.com''" "Some ''example.com''"]
  by (auto simp: blank_iff is_space_def CATEGORY_VALUES_def)

end
