(* ===== verification/Investigation.thy ===== *)
theory Investigation
  imports ControlProperties QueryPlanner
begin

text \<open>
  The stateful part of \<open>news_pipeline/investigation.py\<close>: the investigations table and its
  monotonic state policy, the enqueueing of new candidates, and the run of one investigation.
  The network is a parameter (what each targeted query returns), and so are the outcomes of the
  lease check the worker passes in.
\<close>

section \<open>The state database as investigations use it\<close>

record lane_row =
  l_source_item_id :: string
  l_feed_lane_id :: string
  l_query_plan_id :: string
  l_category :: string

record inv_row =
  i_investigation_id :: string
  i_candidate_id :: string
  i_feed_lane_id :: string
  i_query_plan_id :: string
  i_category :: string
  i_round_number :: int
  i_state :: string
  i_terminal_state :: "string option"
  i_targeted_query_ids_json :: string
  i_created_at :: string
  i_updated_at :: string

text \<open>
  \<open>iv_items\<close> gives the title and the canonical URL of a source item, \<open>iv_plans\<close> the source
  of a query plan, \<open>iv_lanes\<close> and \<open>iv_rows\<close> the two tables of schema 8.
\<close>

record inv_db =
  iv_items :: "(string \<times> string option \<times> string option) list"
  iv_plans :: "(string \<times> string) list"
  iv_lanes :: "lane_row list"
  iv_rows :: "inv_row list"

definition find_inv :: "string \<Rightarrow> inv_db \<Rightarrow> inv_row option" where
  "find_inv candidate db = tbl_find i_candidate_id candidate (iv_rows db)"

definition find_lane :: "string \<Rightarrow> string \<Rightarrow> string \<Rightarrow> inv_db \<Rightarrow> lane_row option" where
  "find_lane item lane plan db =
     tbl_find (\<lambda>r. (l_source_item_id r, l_feed_lane_id r, l_query_plan_id r)) (item, lane, plan) (iv_lanes db)"

text \<open>\<open>INSERT ... ON CONFLICT(candidate_id) DO UPDATE\<close>: five columns change, the rest stay.\<close>

definition upsert_inv :: "inv_row \<Rightarrow> (inv_db, unit) tx" where
  "upsert_inv r db =
     (if find_inv (i_candidate_id r) db \<noteq> None then
        (Inr (), db\<lparr>iv_rows := tbl_update i_candidate_id (i_candidate_id r) (\<lambda>old. old\<lparr>
           i_round_number := i_round_number r, i_state := i_state r,
           i_terminal_state := i_terminal_state r,
           i_targeted_query_ids_json := i_targeted_query_ids_json r,
           i_updated_at := i_updated_at r\<rparr>) (iv_rows db)\<rparr>)
      else if i_investigation_id r \<in> set (map i_investigation_id (iv_rows db)) then (Inl IntegrityError, db)
      else (Inr (), db\<lparr>iv_rows := tbl_insert r (iv_rows db)\<rparr>))"

definition targeted_json :: "pylib \<Rightarrow> string list \<Rightarrow> string" where
  "targeted_json L ids = json_dumps L (PTuple (map PStr ids))"

text \<open>\<open>tuple(json.loads(text))\<close>, with both ways it can fail turned into \<open>ValueError\<close>.\<close>

definition targeted_of_json :: "pylib \<Rightarrow> string \<Rightarrow> pyval list result" where
  "targeted_of_json L s =
     (case json_loads L s of
        Some (PList vs) \<Rightarrow> Inr vs
      | Some (PTuple vs) \<Rightarrow> Inr vs
      | Some (PStr t) \<Rightarrow> Inr (map (\<lambda>c. PStr [c]) t)
      | Some (PDict d) \<Rightarrow> Inr (map (\<lambda>(k, v). PStr k) d)
      | _ \<Rightarrow> Inl ValueError)"

section \<open>Persisting one investigation\<close>

definition allowed_next :: "string \<Rightarrow> string list" where
  "allowed_next st =
     (if st = ''pending'' then ''pending'' # ''running'' # TERMINAL_STATES
      else if st = ''running'' then ''running'' # TERMINAL_STATES else [])"

text \<open>
  The checks inside the transaction: \<open>Inr True\<close> to write the job, \<open>Inr False\<close> for the
  replay of a terminal row.
\<close>

definition persist_decide :: "pylib \<Rightarrow> investigation_job \<Rightarrow> inv_row option \<Rightarrow> bool result" where
  "persist_decide L job existing =
     (case existing of None \<Rightarrow> Inr True
      | Some r \<Rightarrow>
          if (i_investigation_id r, i_feed_lane_id r, i_query_plan_id r, i_category r) \<noteq>
             (j_investigation_id job, j_feed_lane_id job, j_query_plan_id job, j_category job)
            then Inl ValueError
          else if j_round_number job < i_round_number r then Inl ValueError
          else bind_result (targeted_of_json L (i_targeted_query_ids_json r)) (\<lambda>targeted.
            if j_round_number job = i_round_number r then
              (if targeted \<noteq> map PStr (j_targeted_query_ids job) then Inl ValueError
               else if i_state r \<in> set TERMINAL_STATES then
                 (if j_state job \<noteq> i_state r \<or> j_terminal_state job \<noteq> i_terminal_state r
                  then Inl ValueError else Inr False)
               else if j_state job \<notin> set (allowed_next (i_state r)) then Inl ValueError
               else Inr True)
            else if j_round_number job \<noteq> i_round_number r + 1 \<or>
                    i_state r \<notin> {''failed'', ''blocked''} \<or>
                    j_state job \<notin> {''pending'', ''running''} then Inl ValueError
            else Inr True))"

definition row_of_job :: "pylib \<Rightarrow> investigation_job \<Rightarrow> inv_row" where
  "row_of_job L job =
     \<lparr>i_investigation_id = j_investigation_id job, i_candidate_id = j_candidate_id job,
      i_feed_lane_id = j_feed_lane_id job, i_query_plan_id = j_query_plan_id job,
      i_category = j_category job, i_round_number = j_round_number job, i_state = j_state job,
      i_terminal_state = j_terminal_state job,
      i_targeted_query_ids_json = targeted_json L (j_targeted_query_ids job),
      i_created_at = j_created_at job, i_updated_at = j_updated_at job\<rparr>"

text \<open>\<open>fence i\<close> is the outcome of the \<open>i\<close>-th call of the fence check.\<close>

definition persist_investigation ::
  "pylib \<Rightarrow> (nat \<Rightarrow> unit result) \<Rightarrow> investigation_job \<Rightarrow> (inv_db, bool) tx" where
  "persist_investigation L fence job db =
     (case bind_result (job_post_init job) (\<lambda>_. fence 0) of
        Inl e \<Rightarrow> (Inl e, db)
      | Inr _ \<Rightarrow>
          (case find_lane (j_candidate_id job) (j_feed_lane_id job) (j_query_plan_id job) db of
             None \<Rightarrow> (Inl ValueError, db)
           | Some lane \<Rightarrow>
               if l_category lane \<noteq> j_category job then (Inl ValueError, db)
               else immediate_tx (\<lambda>db.
                 case persist_decide L job (find_inv (j_candidate_id job) db) of
                   Inl e \<Rightarrow> (Inl e, db)
                 | Inr False \<Rightarrow> (Inr False, db)
                 | Inr True \<Rightarrow>
                     (case fence 1 of Inl e \<Rightarrow> (Inl e, db)
                      | Inr _ \<Rightarrow>
                        (case upsert_inv (row_of_job L job) db of
                           (Inl e, db') \<Rightarrow> (Inl e, db')
                         | (Inr _, db') \<Rightarrow>
                             (case fence 2 of Inl e \<Rightarrow> (Inl e, db') | Inr _ \<Rightarrow> (Inr True, db'))))) db))"

section \<open>Enqueueing candidates\<close>

definition lane_key :: "lane_row \<Rightarrow> string \<times> string \<times> string" where
  "lane_key r = (l_source_item_id r, l_feed_lane_id r, l_query_plan_id r)"

text \<open>The read-only query: candidates without an investigation, each with its first lane.\<close>

definition candidate_lanes :: "inv_db \<Rightarrow> lane_row list" where
  "candidate_lanes db =
     sort_key lane_key (filter (\<lambda>c.
       \<not> list_ex (\<lambda>i. i_candidate_id i = l_source_item_id c) (iv_rows db) \<and>
       \<not> list_ex (\<lambda>prior. l_source_item_id prior = l_source_item_id c \<and>
           (l_feed_lane_id prior < l_feed_lane_id c \<or>
            l_feed_lane_id prior = l_feed_lane_id c \<and> l_query_plan_id prior < l_query_plan_id c))
         (iv_lanes db)) (iv_lanes db))"

fun enqueue_candidates ::
  "pylib \<Rightarrow> string \<Rightarrow> (nat \<Rightarrow> instant) \<Rightarrow> nat \<Rightarrow> lane_row list \<Rightarrow> (control_db, (string \<times> bool) list) tx" where
  "enqueue_candidates L slot tick n [] db = (Inr [], db)"
| "enqueue_candidates L slot tick n (c # cs) db =
     (case make_investigation_job L (l_source_item_id c) (l_feed_lane_id c) (l_query_plan_id c)
             (l_category c) slot 0 ''pending'' None [] of
        Inl e \<Rightarrow> (Inl e, db)
      | Inr job \<Rightarrow>
          (case enqueue L ''investigate'' slot (investigation_payload job) (tick n) db of
             (Inl e, db') \<Rightarrow> (Inl e, db')
           | (Inr r, db') \<Rightarrow>
               (case enqueue_candidates L slot tick (Suc n) cs db' of
                  (Inl e, db'') \<Rightarrow> (Inl e, db'')
                | (Inr rs, db'') \<Rightarrow> (Inr (r # rs), db''))))"

definition enqueue_candidate_investigations ::
  "pylib \<Rightarrow> inv_db \<Rightarrow> string \<Rightarrow> (nat \<Rightarrow> instant) \<Rightarrow> (control_db, (string \<times> bool) list) tx" where
  "enqueue_candidate_investigations L state_db slot tick db =
     enqueue_candidates L slot tick 0 (candidate_lanes state_db) db"

section \<open>Running one investigation\<close>

record query_result =
  qr_query_plan_id :: string
  qr_source_id :: string
  qr_status :: string
  qr_http_status :: "int option"
  qr_returned_count :: int
  qr_item_ids :: "string list"
  qr_error_class :: "string option"

text \<open>\<open>InvestigationQueryResult.__post_init__\<close>.\<close>

definition query_result_post_init :: "query_result \<Rightarrow> query_result result" where
  "query_result_post_init q =
     (if qr_status q \<notin> {''success'', ''failed''} then Inl ValueError
      else if qr_returned_count q < 0 then Inl ValueError
      else if [] \<in> set (qr_item_ids q) then Inl ValueError
      else if \<not> distinct (qr_item_ids q) then Inl ValueError
      else if qr_status q = ''success'' \<and> qr_error_class q \<noteq> None then Inl ValueError
      else if qr_status q = ''failed'' \<and> (case qr_error_class q of None \<Rightarrow> True | Some s \<Rightarrow> s = [])
        then Inl ValueError
      else Inr q)"

record search_source =
  ss_source_id :: string
  ss_searxng :: bool
  ss_category_scope :: "string list"

text \<open>
  An enabled row of the source registry: its id and what \<open>source_from_row\<close> makes of it.
\<close>

type_synonym registry_row = "string \<times> search_source result"

definition search_source_of :: "registry_row list \<Rightarrow> string \<Rightarrow> string \<Rightarrow> search_source result" where
  "search_source_of rows preferred category =
     (let ordered = sort_key (\<lambda>(sid, _). (sid \<noteq> preferred, sid)) rows;
          pick = (\<lambda>xs. case dropWhile (\<lambda>(sid, src). case src of
                    Inl e \<Rightarrow> False
                  | Inr s \<Rightarrow> \<not> (ss_searxng s \<and> category \<in> set (ss_category_scope s))) xs of
              [] \<Rightarrow> Inl ValueError | (sid, src) # _ \<Rightarrow> src)
      in pick ordered)"

text \<open>
  What the adapter gives for one plan: the class of an exception it raised, or the HTTP status,
  the class of the error it reports, if any, and the ids of the items it found.
\<close>

datatype fetch_outcome =
    Raised string
  | Fetched "int option" "string option" "string list"

definition query_result_of :: "string \<Rightarrow> query_plan \<Rightarrow> fetch_outcome \<Rightarrow> query_result result" where
  "query_result_of source_id plan out =
     query_result_post_init (case out of
        Raised cls \<Rightarrow> \<lparr>qr_query_plan_id = q_query_plan_id plan, qr_source_id = source_id,
          qr_status = ''failed'', qr_http_status = None, qr_returned_count = 0, qr_item_ids = [],
          qr_error_class = Some cls\<rparr>
      | Fetched http (Some cls) items \<Rightarrow> \<lparr>qr_query_plan_id = q_query_plan_id plan, qr_source_id = source_id,
          qr_status = ''failed'', qr_http_status = http, qr_returned_count = 0, qr_item_ids = [],
          qr_error_class = Some cls\<rparr>
      | Fetched http None items \<Rightarrow> \<lparr>qr_query_plan_id = q_query_plan_id plan, qr_source_id = source_id,
          qr_status = ''success'', qr_http_status = http, qr_returned_count = int (length items),
          qr_item_ids = items, qr_error_class = None\<rparr>)"

text \<open>
  The network as one investigation meets it: the transport factory, if one was given (which may
  raise, or give no transport), and the outcome of every fetch.
\<close>

record network =
  nw_factory :: "(search_source \<Rightarrow> bool result) option"
  nw_fetch :: "search_source \<Rightarrow> query_plan \<Rightarrow> fetch_outcome"

definition fetch_targeted_queries ::
  "network \<Rightarrow> (search_source \<Rightarrow> bool result) \<Rightarrow> search_source \<Rightarrow> query_plan list \<Rightarrow> query_result list result" where
  "fetch_targeted_queries N factory source targeted =
     bind_result (factory source) (\<lambda>some_transport.
       if \<not> some_transport then Inl ValueError
       else map_result (\<lambda>plan. query_result_of (ss_source_id source) plan (nw_fetch N source plan)) targeted)"

text \<open>The fetching part of the run, with whether the network was used before it failed.\<close>

definition investigate_network ::
  "network \<Rightarrow> registry_row list \<Rightarrow> string \<Rightarrow> string \<Rightarrow> query_plan list \<Rightarrow> bool \<times> query_result list result" where
  "investigate_network N rows preferred category targeted =
     (case nw_factory N of None \<Rightarrow> (False, Inl ValueError)
      | Some factory \<Rightarrow>
          (case search_source_of rows preferred category of
             Inl e \<Rightarrow> (False, Inl e)
           | Inr source \<Rightarrow> (True, fetch_targeted_queries N factory source targeted)))"

record investigation_result =
  ir_job :: investigation_job
  ir_targeted_queries :: "query_plan list"
  ir_query_results :: "query_result list"
  ir_network_used :: bool

definition job_from_row :: "pylib \<Rightarrow> inv_row \<Rightarrow> investigation_job result" where
  "job_from_row L r =
     bind_result (targeted_of_json L (i_targeted_query_ids_json r)) (\<lambda>vs.
     bind_result (map_result (\<lambda>v. case v of PStr s \<Rightarrow> Inr s | _ \<Rightarrow> Inl ValueError) vs) (\<lambda>targeted.
       let job = \<lparr>j_investigation_id = i_investigation_id r, j_candidate_id = i_candidate_id r,
            j_feed_lane_id = i_feed_lane_id r, j_query_plan_id = i_query_plan_id r,
            j_category = i_category r, j_round_number = i_round_number r, j_state = i_state r,
            j_terminal_state = i_terminal_state r, j_targeted_query_ids = targeted,
            j_created_at = i_created_at r, j_updated_at = i_updated_at r\<rparr>
       in bind_result (job_post_init job) (\<lambda>_. Inr job)))"

text \<open>The candidate with its lane and plan: title, URL and the source of the plan.\<close>

definition candidate_row :: "string \<Rightarrow> string \<Rightarrow> string \<Rightarrow> string \<Rightarrow> inv_db \<Rightarrow>
    (string option \<times> string option \<times> string) option" where
  "candidate_row candidate lane plan category db =
     (case (map_of (iv_items db) candidate, find_lane candidate lane plan db, map_of (iv_plans db) plan) of
        (Some (title, url), Some l, Some source) \<Rightarrow>
          if l_category l = category then Some (title, url, source) else None
      | _ \<Rightarrow> None)"

text \<open>
  Whether a stored investigation ends the run at once (\<open>Some\<close>, the replay of a terminal row),
  lets it go on (\<open>None\<close>) or refuses it.
\<close>

definition existing_outcome ::
  "pylib \<Rightarrow> string \<Rightarrow> string \<Rightarrow> string \<Rightarrow> string \<Rightarrow> int \<Rightarrow> string list \<Rightarrow> inv_row option \<Rightarrow>
     investigation_job option result" where
  "existing_outcome L candidate lane plan category rnd targeted_ids existing =
     (case existing of None \<Rightarrow> Inr None
      | Some r \<Rightarrow>
          bind_result (job_from_row L r) (\<lambda>job.
            if j_investigation_id job \<noteq> investigation_id L candidate lane plan \<or>
               j_feed_lane_id job \<noteq> lane \<or> j_query_plan_id job \<noteq> plan \<or> j_category job \<noteq> category
              then Inl ValueError
            else if rnd < j_round_number job then Inl ValueError
            else if j_state job \<in> set TERMINAL_STATES \<and> rnd = j_round_number job then
              (if j_targeted_query_ids job \<noteq> targeted_ids then Inl ValueError else Inr (Some job))
            else if rnd \<noteq> j_round_number job \<and>
                    (rnd \<noteq> j_round_number job + 1 \<or> j_state job \<notin> {''failed'', ''blocked''})
              then Inl ValueError
            else Inr None))"

definition failed_results :: "string \<Rightarrow> string \<Rightarrow> query_plan list \<Rightarrow> query_result list" where
  "failed_results source failure targeted =
     map (\<lambda>plan. \<lparr>qr_query_plan_id = q_query_plan_id plan, qr_source_id = source, qr_status = ''failed'',
       qr_http_status = None, qr_returned_count = 0, qr_item_ids = [], qr_error_class = Some failure\<rparr>) targeted"

text \<open>
  Everything before the stored row is read: the payload check, the candidate, and its targeted
  queries. \<open>hostname\<close> is \<open>urlsplit(url).hostname\<close>.
\<close>

definition prepare_investigation ::
  "pylib \<Rightarrow> (string \<Rightarrow> string option result) \<Rightarrow> string \<Rightarrow> string \<Rightarrow> string \<Rightarrow> string \<Rightarrow> string \<Rightarrow> int \<Rightarrow>
     inv_db \<Rightarrow> (string \<times> query_plan list) result" where
  "prepare_investigation L hostname candidate lane plan category evaluated_at rnd db =
     bind_result (validate_investigation_payload L
             [(''investigation_id'', PStr (investigation_id L candidate lane plan)),
              (''candidate_id'', PStr candidate), (''feed_lane_id'', PStr lane),
              (''query_plan_id'', PStr plan), (''category'', PStr category), (''round_number'', PInt rnd)]) (\<lambda>_.
       case candidate_row candidate lane plan category db of
         None \<Rightarrow> Inl ValueError
       | Some (title_opt, url_opt, source) \<Rightarrow>
           let label = replace_char (CHR ''_'') (CHR '' '') category;
               title = (case title_opt of Some t \<Rightarrow> if t \<noteq> [] then t else label | None \<Rightarrow> label) in
           bind_result (hostname (case url_opt of Some u \<Rightarrow> u | None \<Rightarrow> [])) (\<lambda>host.
           bind_result (build_investigation_queries L candidate lane category title host evaluated_at rnd)
             (\<lambda>targeted. Inr (source, targeted))))"

text \<open>The fetching part: whether the network was used, the final state, and the results.\<close>

definition investigation_outcome ::
  "network \<Rightarrow> registry_row list \<Rightarrow> string \<Rightarrow> string \<Rightarrow> query_plan list \<Rightarrow> bool \<times> string \<times> query_result list" where
  "investigation_outcome N registry source category targeted =
     (case investigate_network N registry source category targeted of
        (used, Inl e) \<Rightarrow> (used, ''failed'', failed_results source (exn_name e) targeted)
      | (used, Inr qs) \<Rightarrow>
          (used, if qs \<noteq> [] \<and> list_all (\<lambda>q. qr_status q = ''success'') qs then ''complete'' else ''failed'', qs))"

text \<open>
  \<open>run_investigation\<close>. \<open>lease\<close> and \<open>lease'\<close> are the outcomes of the lease check during the
  first and the second write.
\<close>

definition run_investigation ::
  "pylib \<Rightarrow> (string \<Rightarrow> string option result) \<Rightarrow> network \<Rightarrow> registry_row list \<Rightarrow>
     (nat \<Rightarrow> unit result) \<Rightarrow> (nat \<Rightarrow> unit result) \<Rightarrow>
     string \<Rightarrow> string \<Rightarrow> string \<Rightarrow> string \<Rightarrow> string \<Rightarrow> int \<Rightarrow> (inv_db, investigation_result) tx" where
  "run_investigation L hostname N registry lease lease' candidate lane plan category evaluated_at rnd db =
     (case prepare_investigation L hostname candidate lane plan category evaluated_at rnd db of
        Inl e \<Rightarrow> (Inl e, db)
      | Inr (source, targeted) \<Rightarrow>
     (let targeted_ids = map q_query_plan_id targeted in
      case existing_outcome L candidate lane plan category rnd targeted_ids (find_inv candidate db) of
        Inl e \<Rightarrow> (Inl e, db)
      | Inr (Some job) \<Rightarrow> (Inr \<lparr>ir_job = job, ir_targeted_queries = targeted, ir_query_results = [],
                             ir_network_used = False\<rparr>, db)
      | Inr None \<Rightarrow>
     (case make_investigation_job L candidate lane plan category evaluated_at rnd ''running'' None targeted_ids of
        Inl e \<Rightarrow> (Inl e, db)
      | Inr running \<Rightarrow>
     (case persist_investigation L lease running db of
        (Inl e, db') \<Rightarrow> (Inl e, db')
      | (Inr _, db') \<Rightarrow>
     (let (used, state, query_results) = investigation_outcome N registry source category targeted in
      case make_investigation_job L candidate lane plan category evaluated_at rnd state (Some state) targeted_ids of
        Inl e \<Rightarrow> (Inl e, db')
      | Inr completed \<Rightarrow>
     (case persist_investigation L lease' completed db' of
        (Inl e, db'') \<Rightarrow> (Inl e, db'')
      | (Inr _, db'') \<Rightarrow>
          (Inr \<lparr>ir_job = completed, ir_targeted_queries = targeted, ir_query_results = query_results,
             ir_network_used = used\<rparr>, db'')))))))"

section \<open>The investigations table\<close>

interpretation inv_table: keyed_table "tbl_find i_candidate_id" tbl_insert "tbl_update i_candidate_id"
  i_candidate_id "tbl_keyed i_candidate_id"
  by (rule keyed_table_rows)

text \<open>The CHECK constraints of the table, and its two uniqueness constraints.\<close>

definition inv_row_ok :: "inv_row \<Rightarrow> bool" where
  "inv_row_ok r \<longleftrightarrow> 0 \<le> i_round_number r \<and> i_round_number r < MAX_INVESTIGATION_ROUNDS \<and>
     i_state r \<in> set INVESTIGATION_STATES \<and>
     i_terminal_state r = (if i_state r \<in> set TERMINAL_STATES then Some (i_state r) else None)"

definition investigations_ok :: "inv_db \<Rightarrow> bool" where
  "investigations_ok db \<longleftrightarrow> tbl_keyed i_candidate_id (iv_rows db) \<and>
     distinct (map i_investigation_id (iv_rows db)) \<and> list_all inv_row_ok (iv_rows db)"

lemma job_ok_row: "job_post_init job = Inr () \<Longrightarrow> inv_row_ok (row_of_job L job)"
  by (auto simp: job_post_init_def inv_row_ok_def row_of_job_def split: if_splits)

definition written :: "inv_row \<Rightarrow> inv_row \<Rightarrow> inv_row" where
  "written r old = old\<lparr>i_round_number := i_round_number r, i_state := i_state r,
     i_terminal_state := i_terminal_state r, i_targeted_query_ids_json := i_targeted_query_ids_json r,
     i_updated_at := i_updated_at r\<rparr>"

lemma upsert_inv_Inr_cases:
  assumes "upsert_inv r db = (Inr u, db')"
  obtains
    (update) old where "find_inv (i_candidate_id r) db = Some old"
      "db' = db\<lparr>iv_rows := tbl_update i_candidate_id (i_candidate_id r) (written r) (iv_rows db)\<rparr>"
  | (insert) "find_inv (i_candidate_id r) db = None" "i_investigation_id r \<notin> set (map i_investigation_id (iv_rows db))"
      "db' = db\<lparr>iv_rows := tbl_insert r (iv_rows db)\<rparr>"
  using assms by (auto simp: upsert_inv_def written_def [abs_def] split: if_splits)

lemma find_upsert_inv:
  assumes "upsert_inv r db = (Inr u, db')"
  shows "find_inv k db' = (if k = i_candidate_id r then
     Some (case find_inv k db of None \<Rightarrow> r | Some old \<Rightarrow> written r old) else find_inv k db)"
  using assms
  by (cases rule: upsert_inv_Inr_cases)
    (auto simp: find_inv_def inv_table.lookup_upd inv_table.lookup_ins written_def split: option.splits)

lemma investigations_ok_upsert:
  assumes ok: "investigations_ok db" and r: "inv_row_ok r" and up: "upsert_inv r db = (Inr u, db')"
  shows "investigations_ok db'"
  using up
proof (cases rule: upsert_inv_Inr_cases)
  case (update old)
  have "inv_row_ok (written r x)" for x using r by (simp add: inv_row_ok_def written_def)
  moreover have "map i_investigation_id (tbl_update i_candidate_id k (written r) xs) = map i_investigation_id xs" for k xs
    by (simp add: tbl_update_def written_def)
  ultimately show ?thesis
    using ok update
    by (auto simp: investigations_ok_def list_all_iff set_tbl_update tbl_keyed_update written_def)
next
  case insert
  then show ?thesis
    using ok r tbl_keyed_insert [of i_candidate_id "iv_rows db" r]
    by (auto simp: investigations_ok_def find_inv_def tbl_insert_def list_all_iff)
qed

lemma persist_Inr_cases:
  assumes "persist_investigation L fence job db = (Inr b, db')"
  obtains
    (replay) r where "\<not> b" "db' = db" "find_inv (j_candidate_id job) db = Some r"
      "i_round_number r = j_round_number job" "i_state r = j_state job" "i_terminal_state r = j_terminal_state job"
      "i_state r \<in> set TERMINAL_STATES" "fence 0 = Inr ()"
  | (wrote) "b" "job_post_init job = Inr ()" "fence 0 = Inr ()" "fence 1 = Inr ()" "fence 2 = Inr ()"
      "persist_decide L job (find_inv (j_candidate_id job) db) = Inr True"
      "upsert_inv (row_of_job L job) db = (Inr (), db')"
proof -
  have f: "job_post_init job = Inr ()" "fence 0 = Inr ()"
    using assms by (auto simp: persist_investigation_def split: sum.splits)
  from assms obtain d where d: "persist_decide L job (find_inv (j_candidate_id job) db) = Inr d"
    by (auto simp: persist_investigation_def immediate_tx_Inr split: sum.splits option.splits if_splits)
  show ?thesis
  proof (cases d)
    case True
    then have "b \<and> fence 1 = Inr () \<and> fence 2 = Inr () \<and> upsert_inv (row_of_job L job) db = (Inr (), db')"
      using assms f d
      by (auto simp: persist_investigation_def immediate_tx_Inr split: sum.splits option.splits if_splits prod.splits)
    then show ?thesis using wrote f d True by simp
  next
    case False
    then have "\<not> b \<and> db' = db"
      using assms f d
      by (auto simp: persist_investigation_def immediate_tx_Inr split: sum.splits option.splits if_splits)
    moreover obtain r where "find_inv (j_candidate_id job) db = Some r"
      "i_round_number r = j_round_number job" "i_state r = j_state job" "i_terminal_state r = j_terminal_state job"
      "i_state r \<in> set TERMINAL_STATES"
      using d False by (auto simp: persist_decide_def split: option.splits if_splits)
    ultimately show ?thesis using replay f by blast
  qed
qed

lemma persist_rollback:
  assumes "fst (persist_investigation L fence job db) = Inl e"
  shows "snd (persist_investigation L fence job db) = db"
  using assms by (auto simp: persist_investigation_def snd_immediate_tx split: sum.splits option.splits if_splits)

datatype inv_op = Persist "nat \<Rightarrow> unit result" investigation_job

fun inv_exec :: "pylib \<Rightarrow> inv_op \<Rightarrow> (inv_db, bool) tx" where
  "inv_exec L (Persist fence job) db = persist_investigation L fence job db"

lemma inv_exec_by_success:
  assumes "P db" "\<And>fence job b db'. c = Persist fence job \<Longrightarrow> persist_investigation L fence job db = (Inr b, db') \<Longrightarrow> P db'"
  shows "P (snd (inv_exec L c db))"
proof (cases c)
  case (Persist fence job)
  show ?thesis
  proof (cases "fst (persist_investigation L fence job db)")
    case (Inl e)
    then show ?thesis using assms(1) persist_rollback Persist by simp
  next
    case (Inr b)
    then have "persist_investigation L fence job db = (Inr b, snd (inv_exec L c db))"
      using Persist by (simp add: prod_eq_iff)
    then show ?thesis using assms(2) Persist by blast
  qed
qed

interpretation investigations: transactional_store "inv_exec L" investigations_ok for L
proof unfold_locales
  show "snd (inv_exec L c s) = s" if "fst (inv_exec L c s) = Inl e" for c s e
    using that persist_rollback by (cases c) simp
  show "investigations_ok (snd (inv_exec L c s))" if "investigations_ok s" for c s
  proof (rule inv_exec_by_success [where P = investigations_ok, OF that])
    fix fence job b db' assume "persist_investigation L fence job s = (Inr b, db')"
    then show "investigations_ok db'"
      by (cases rule: persist_Inr_cases) (auto simp: that intro: investigations_ok_upsert [OF that job_ok_row])
  qed
qed

section \<open>Investigations only move forward\<close>

definition phase :: "string \<Rightarrow> nat" where
  "phase st = (if st = ''pending'' then 0 else if st = ''running'' then 1 else 2)"

definition inv_identity :: "inv_row \<Rightarrow> string list" where
  "inv_identity r = [i_investigation_id r, i_candidate_id r, i_feed_lane_id r, i_query_plan_id r,
     i_category r, i_created_at r]"

definition row_le :: "inv_row \<Rightarrow> inv_row \<Rightarrow> bool" where
  "row_le r r' \<longleftrightarrow> inv_identity r' = inv_identity r \<and>
     (i_round_number r, phase (i_state r)) \<le> (i_round_number r', phase (i_state r')) \<and>
     (i_state r \<in> set TERMINAL_STATES \<longrightarrow> i_round_number r' = i_round_number r \<longrightarrow> r' = r) \<and>
     (i_state r = ''complete'' \<longrightarrow> r' = r)"

lemma row_le_refl [simp]: "row_le r r"
  by (simp add: row_le_def)

lemma row_le_trans: "row_le r s \<Longrightarrow> row_le s t \<Longrightarrow> row_le r t"
  unfolding row_le_def by (auto simp: less_eq_prod_def)

lemma decide_write_le:
  assumes "persist_decide L job (Some old) = Inr True"
  shows "row_le old (written (row_of_job L job) old)"
proof -
  let ?new = "written (row_of_job L job) old"
  have id: "inv_identity ?new = inv_identity old" by (simp add: inv_identity_def written_def)
  have new: "i_round_number ?new = j_round_number job" "i_state ?new = j_state job"
    by (simp_all add: written_def row_of_job_def)
  from assms consider
    (same) "j_round_number job = i_round_number old" "i_state old \<notin> set TERMINAL_STATES"
      "j_state job \<in> set (allowed_next (i_state old))"
  | (advance) "j_round_number job = i_round_number old + 1" "i_state old \<in> {''failed'', ''blocked''}"
    by (auto simp: persist_decide_def split: if_splits)
  then show ?thesis
  proof cases
    case same
    then have "phase (i_state old) \<le> phase (j_state job)"
      by (auto simp: allowed_next_def phase_def TERMINAL_STATES_def split: if_splits)
    moreover have "i_state old \<noteq> ''complete''" using same by (auto simp: TERMINAL_STATES_def)
    ultimately show ?thesis using same id new by (simp add: row_le_def)
  next
    case advance
    then show ?thesis using id new by (auto simp: row_le_def)
  qed
qed

lemma persist_row_le:
  assumes "find_inv k db = Some r" "persist_investigation L fence job db = (Inr b, db')"
  shows "\<exists>r'. find_inv k db' = Some r' \<and> row_le r r'"
  using assms(2)
proof (cases rule: persist_Inr_cases)
  case (replay old)
  then show ?thesis using assms(1) by auto
next
  case wrote
  show ?thesis
  proof (cases "k = j_candidate_id job")
    case True
    then show ?thesis
      using wrote(6) assms(1) decide_write_le find_upsert_inv [OF wrote(7), of k]
      by (auto simp: row_of_job_def)
  next
    case False
    then show ?thesis using assms(1) find_upsert_inv [OF wrote(7), of k] by (simp add: row_of_job_def)
  qed
qed

text \<open>
  C18: Investigations only move forward: whatever writes follow, valid or refused, fenced or not,
  a stored investigation keeps its identity and its creation time, its round and its phase
  (pending, running, terminal) never go back, a terminal row changes only by entering a later
  round, and a complete row never changes again.
\<close>

theorem investigation_monotonic:
  assumes "investigations_ok db" "find_inv candidate db = Some r"
  shows "\<exists>r'. find_inv candidate (run_ops (inv_exec L) cs db) = Some r' \<and>
     inv_identity r' = inv_identity r \<and>
     (i_round_number r < i_round_number r' \<or>
      i_round_number r = i_round_number r' \<and> phase (i_state r) \<le> phase (i_state r')) \<and>
     (i_state r \<in> set TERMINAL_STATES \<longrightarrow> i_round_number r' = i_round_number r \<longrightarrow> r' = r) \<and>
     (i_state r = ''complete'' \<longrightarrow> r' = r) \<and>
     0 \<le> i_round_number r' \<and> i_round_number r' < MAX_INVESTIGATION_ROUNDS"
proof -
  let ?P = "\<lambda>d. \<exists>r'. find_inv candidate d = Some r' \<and> row_le r r'"
  have "?P (run_ops (inv_exec L) cs db)"
  proof (rule investigations.run_stable [where P = ?P, OF _ assms(1)])
    fix c s assume s: "?P s"
    show "?P (snd (inv_exec L c s))"
    proof (rule inv_exec_by_success [where P = ?P, OF s])
      fix fence job b db' assume "persist_investigation L fence job s = (Inr b, db')"
      then show "?P db'" using s persist_row_le row_le_trans by meson
    qed
  qed (use assms(2) in simp)
  then obtain r' where r': "find_inv candidate (run_ops (inv_exec L) cs db) = Some r'" "row_le r r'" by blast
  have "investigations_ok (run_ops (inv_exec L) cs db)" by (rule investigations.run_inv [OF assms(1)])
  then have "inv_row_ok r'"
    using r'(1) by (auto simp: investigations_ok_def find_inv_def list_all_iff dest: tbl_find_SomeD)
  then show ?thesis using r' by (auto simp: row_le_def inv_row_ok_def)
qed

lemma persist_fence_error:
  assumes "i < 3" "fence i = Inl e"
  shows "snd (persist_investigation L fence job db) = db \<and>
    fst (persist_investigation L fence job db) \<noteq> Inr True"
proof (cases "fst (persist_investigation L fence job db)")
  case (Inl err)
  then show ?thesis using persist_rollback by simp
next
  case (Inr b)
  then have "persist_investigation L fence job db = (Inr b, snd (persist_investigation L fence job db))"
    by (simp add: prod_eq_iff)
  then show ?thesis
  proof (cases rule: persist_Inr_cases)
    case (replay r)
    then show ?thesis using Inr by simp
  next
    case wrote
    have "i = 0 \<or> i = 1 \<or> i = 2" using assms(1) by auto
    then show ?thesis using wrote assms(2) by auto
  qed
qed

text \<open>
  C12: A write that loses its lease publishes nothing: if any of the three calls of the fence
  check fails, before the transaction, before the write or just before the commit, the
  investigations table is unchanged and the write is not reported as made; a reported write has
  passed all three.
\<close>

theorem persist_fenced:
  assumes "i < 3" "fence i = Inl e"
  shows "snd (persist_investigation L fence job db) = db \<and>
    fst (persist_investigation L fence job db) \<noteq> Inr True"
  using assms by (rule persist_fence_error)

text \<open>
  C19: A superseded worker cannot publish: when the fence check asserts a control-store lease of
  generation \<open>g\<close> and, by the last check, the task was granted in another generation, the
  write fails and the investigations table keeps its rows.
\<close>

theorem stale_worker_cannot_publish:
  assumes inv: "store_inv s"
    and c1: "claim L tid owner ttl now s = (Inr (g, a, e), s1)"
    and c2: "claim L tid owner' ttl' now' (run_ops (control_exec L) cs s1) = (Inr (g', a', e'), s2)"
    and ne: "g' \<noteq> g" and s3: "s3 = run_ops (control_exec L) cs' s2"
    and fence: "fence 2 = assert_claim L tid owner g now3 s3"
  shows "snd (persist_investigation L fence job db) = db \<and>
    fst (persist_investigation L fence job db) \<noteq> Inr True"
proof -
  have "fence 2 = Inl ClaimMismatchError"
    unfolding fence by (rule stale_generation_refused(3) [OF superseded_no_claim [OF inv c1 c2 ne s3]])
  then show ?thesis using persist_fence_error [of 2 fence] by simp
qed

section \<open>Which candidates are enqueued\<close>

text \<open>
  The enqueueing query names every candidate once: its rows are sorted, no candidate occurs
  twice, the candidates are exactly those that have a feed lane and no investigation yet, and
  each comes with its lexicographically first lane and plan.
\<close>

theorem candidate_lanes_exact:
  assumes "distinct (map lane_key (iv_lanes db))"
  shows "sorted (map lane_key (candidate_lanes db)) \<and>
    distinct (map l_source_item_id (candidate_lanes db)) \<and>
    l_source_item_id ` set (candidate_lanes db) =
      {l_source_item_id c |c. c \<in> set (iv_lanes db) \<and> find_inv (l_source_item_id c) db = None} \<and>
    (\<forall>c \<in> set (candidate_lanes db). \<forall>d \<in> set (iv_lanes db).
       l_source_item_id d = l_source_item_id c \<longrightarrow> lane_key c \<le> lane_key d)"
proof -
  define new :: "lane_row \<Rightarrow> bool" where "new = (\<lambda>c. find_inv (l_source_item_id c) db = None)"
  define first :: "lane_row \<Rightarrow> bool" where "first = (\<lambda>c. \<forall>d \<in> set (iv_lanes db). l_source_item_id d = l_source_item_id c \<longrightarrow> lane_key c \<le> lane_key d)"
  have key: "lane_key d < lane_key c \<longleftrightarrow> l_feed_lane_id d < l_feed_lane_id c \<or>
      l_feed_lane_id d = l_feed_lane_id c \<and> l_query_plan_id d < l_query_plan_id c"
    if "l_source_item_id d = l_source_item_id c" for c d
    using that by (auto simp: lane_key_def less_prod_def le_less)
  have set: "set (candidate_lanes db) = {c \<in> set (iv_lanes db). new c \<and> first c}"
  proof -
    have "(\<not> list_ex (\<lambda>prior. l_source_item_id prior = l_source_item_id c \<and>
           (l_feed_lane_id prior < l_feed_lane_id c \<or>
            l_feed_lane_id prior = l_feed_lane_id c \<and> l_query_plan_id prior < l_query_plan_id c))
         (iv_lanes db)) = first c" for c
      unfolding first_def list_ex_iff using key by (auto simp: not_less [symmetric])
    moreover have "(\<not> list_ex (\<lambda>i. i_candidate_id i = l_source_item_id c) (iv_rows db)) = new c" for c
      by (auto simp: new_def find_inv_def tbl_find_None list_ex_iff image_iff)
    ultimately show ?thesis unfolding candidate_lanes_def by simp
  qed
  have uniq: "c = d" if "c \<in> set (candidate_lanes db)" "d \<in> set (candidate_lanes db)"
      "l_source_item_id c = l_source_item_id d" for c d
  proof -
    have "lane_key c = lane_key d" using that set by (auto simp: first_def intro: order.antisym)
    then show ?thesis using that set assms by (auto simp: distinct_map inj_on_def)
  qed
  have "distinct (candidate_lanes db)"
    using assms by (simp add: candidate_lanes_def distinct_map)
  then have "distinct (map l_source_item_id (candidate_lanes db))"
    using uniq by (simp add: distinct_map inj_on_def)
  moreover have "l_source_item_id ` set (candidate_lanes db) =
      {l_source_item_id c |c. c \<in> set (iv_lanes db) \<and> find_inv (l_source_item_id c) db = None}"
  proof (intro equalityI subsetI)
    fix k assume "k \<in> {l_source_item_id c |c. c \<in> set (iv_lanes db) \<and> find_inv (l_source_item_id c) db = None}"
    then obtain c where c: "c \<in> set (iv_lanes db)" "l_source_item_id c = k" "new c" by (auto simp: new_def)
    let ?S = "{d \<in> set (iv_lanes db). l_source_item_id d = k}"
    have fin: "finite ?S" "?S \<noteq> {}" using c by auto
    obtain m where m: "m \<in> ?S" "\<forall>d \<in> ?S. lane_key m \<le> lane_key d"
      using ex_min_if_finite [of "lane_key ` ?S"] fin by (auto simp: not_less)
    then have "m \<in> set (candidate_lanes db)" using c by (auto simp: set first_def new_def)
    then show "k \<in> l_source_item_id ` set (candidate_lanes db)" using m by auto
  qed (auto simp: set new_def)
  ultimately show ?thesis by (simp add: set first_def) (simp add: candidate_lanes_def)
qed

section \<open>The run of one investigation\<close>

lemma outcome_state:
  "investigation_outcome N registry source category targeted = (used, state, qs) \<Longrightarrow>
     state = (if qs \<noteq> [] \<and> list_all (\<lambda>q. qr_status q = ''success'') qs then ''complete'' else ''failed'')"
  by (cases targeted)
    (auto simp: investigation_outcome_def failed_results_def split: prod.splits sum.splits)

lemma make_job_fields:
  "make_investigation_job L candidate lane plan category when rnd st terminal targeted = Inr j \<Longrightarrow>
     j = \<lparr>j_investigation_id = investigation_id L candidate lane plan, j_candidate_id = candidate,
       j_feed_lane_id = lane, j_query_plan_id = plan, j_category = category, j_round_number = rnd,
       j_state = st, j_terminal_state = terminal, j_targeted_query_ids = targeted,
       j_created_at = when, j_updated_at = when\<rparr> \<and> job_post_init j = Inr ()"
  by (auto simp: make_investigation_job_def Let_def)

lemmas run_eval = sum.case prod.case option.case Let_def

lemma run_Inr_cases:
  assumes "run_investigation L hostname N registry lease lease' candidate lane plan category when rnd db = (Inr res, db')"
  obtains
    (replay) source targeted job where
      "prepare_investigation L hostname candidate lane plan category when rnd db = Inr (source, targeted)"
      "existing_outcome L candidate lane plan category rnd (map q_query_plan_id targeted) (find_inv candidate db) = Inr (Some job)"
      "res = \<lparr>ir_job = job, ir_targeted_queries = targeted, ir_query_results = [], ir_network_used = False\<rparr>"
      "db' = db"
  | (ran) source targeted running completed db1 b b' used st qs where
      "prepare_investigation L hostname candidate lane plan category when rnd db = Inr (source, targeted)"
      "existing_outcome L candidate lane plan category rnd (map q_query_plan_id targeted) (find_inv candidate db) = Inr None"
      "make_investigation_job L candidate lane plan category when rnd ''running'' None (map q_query_plan_id targeted) = Inr running"
      "persist_investigation L lease running db = (Inr b, db1)"
      "st = (if qs \<noteq> [] \<and> list_all (\<lambda>q. qr_status q = ''success'') qs then ''complete'' else ''failed'')"
      "make_investigation_job L candidate lane plan category when rnd st (Some st) (map q_query_plan_id targeted) = Inr completed"
      "persist_investigation L lease' completed db1 = (Inr b', db')"
      "res = \<lparr>ir_job = completed, ir_targeted_queries = targeted, ir_query_results = qs, ir_network_used = used\<rparr>"
proof -
  obtain source targeted where
    pre: "prepare_investigation L hostname candidate lane plan category when rnd db = Inr (source, targeted)"
  proof (cases "prepare_investigation L hostname candidate lane plan category when rnd db")
    case (Inl e)
    then show ?thesis using assms unfolding run_investigation_def by (simp only: run_eval) simp
  next
    case (Inr p)
    then show ?thesis using that by (cases p) blast
  qed
  let ?ids = "map q_query_plan_id targeted"
  obtain ex where ex: "existing_outcome L candidate lane plan category rnd ?ids (find_inv candidate db) = Inr ex"
  proof (cases "existing_outcome L candidate lane plan category rnd ?ids (find_inv candidate db)")
    case (Inl e)
    then show ?thesis using assms pre unfolding run_investigation_def by (simp only: run_eval) simp
  qed (rule that)
  obtain used st qs where out: "investigation_outcome N registry source category targeted = (used, st, qs)"
    by (cases "investigation_outcome N registry source category targeted") auto
  show ?thesis
  proof (cases ex)
    case (Some job)
    have "res = \<lparr>ir_job = job, ir_targeted_queries = targeted, ir_query_results = [],
        ir_network_used = False\<rparr> \<and> db' = db"
      using assms pre ex Some unfolding run_investigation_def by (simp only: run_eval) simp
    then show ?thesis using pre ex Some replay by simp
  next
    case None
    note go = assms [unfolded run_investigation_def]
    obtain running where
      run: "make_investigation_job L candidate lane plan category when rnd ''running'' None ?ids = Inr running"
    proof (cases "make_investigation_job L candidate lane plan category when rnd ''running'' None ?ids")
      case (Inl e)
      then show ?thesis using go pre ex None by (simp only: run_eval) simp
    qed (rule that)
    obtain b db1 where p1: "persist_investigation L lease running db = (Inr b, db1)"
    proof (cases "persist_investigation L lease running db")
      case (Pair r1 db1)
      then show ?thesis using go pre ex None run that by (cases r1) (simp_all only: run_eval, simp)
    qed
    obtain completed where
      comp: "make_investigation_job L candidate lane plan category when rnd st (Some st) ?ids = Inr completed"
    proof (cases "make_investigation_job L candidate lane plan category when rnd st (Some st) ?ids")
      case (Inl e)
      then show ?thesis using go pre ex None run p1 out by (simp only: run_eval) simp
    qed (rule that)
    obtain b' db2 where p2: "persist_investigation L lease' completed db1 = (Inr b', db2)"
    proof (cases "persist_investigation L lease' completed db1")
      case (Pair r2 db2)
      then show ?thesis using go pre ex None run p1 out comp that by (cases r2) (simp_all only: run_eval, simp)
    qed
    have "res = \<lparr>ir_job = completed, ir_targeted_queries = targeted, ir_query_results = qs,
        ir_network_used = used\<rparr> \<and> db' = db2"
      using go pre ex None run p1 out comp p2 by (simp only: run_eval) simp
    then show ?thesis
      using ran [OF pre _ run p1 outcome_state [OF out] comp] ex None p2 by simp
  qed
qed

lemma persist_stores_state:
  assumes "persist_investigation L fence job db = (Inr b, db')"
  shows "\<exists>r. find_inv (j_candidate_id job) db' = Some r \<and> i_state r = j_state job \<and>
    i_round_number r = j_round_number job \<and> i_terminal_state r = j_terminal_state job"
  using assms
proof (cases rule: persist_Inr_cases)
  case wrote
  then show ?thesis
    using find_upsert_inv [OF wrote(7), of "j_candidate_id job"]
    by (auto simp: row_of_job_def written_def split: option.splits)
qed auto

lemma job_from_row_fields:
  "job_from_row L r = Inr j \<Longrightarrow> j_state j = i_state r \<and> j_round_number j = i_round_number r"
  by (auto simp: job_from_row_def Let_def)

text \<open>
  A run that returns leaves a receipt: the candidate's row is terminal, in the requested
  round, in the state of the returned job; and when the network was used, that state is complete
  exactly if there was at least one query and every query succeeded.
\<close>

theorem run_investigation_receipt:
  assumes "run_investigation L hostname N registry lease lease' candidate lane plan category when rnd db = (Inr res, db')"
  shows "\<exists>r. find_inv candidate db' = Some r \<and> i_state r = j_state (ir_job res) \<and>
      i_state r \<in> set TERMINAL_STATES \<and> i_round_number r = rnd \<and>
      (ir_network_used res \<longrightarrow>
         (i_state r = ''complete'' \<longleftrightarrow> ir_query_results res \<noteq> [] \<and>
            list_all (\<lambda>q. qr_status q = ''success'') (ir_query_results res)))"
  using assms
proof (cases rule: run_Inr_cases)
  case (replay source targeted job)
  then show ?thesis
    by (auto simp: existing_outcome_def dest!: job_from_row_fields split: option.splits if_splits)
next
  case (ran source targeted running completed db1 b b' used st qs)
  have c: "j_candidate_id completed = candidate" "j_state completed = st" "j_round_number completed = rnd"
    using make_job_fields [OF ran(6)] by simp_all
  show ?thesis
    using persist_stores_state [OF ran(7)] ran(5,8) c by (auto simp: TERMINAL_STATES_def)
qed

lemma persist_frame:
  assumes "persist_investigation L fence job db = (Inr b, db')"
  shows "iv_items db' = iv_items db" "iv_plans db' = iv_plans db" "iv_lanes db' = iv_lanes db"
  using assms
  by (cases rule: persist_Inr_cases; auto elim!: upsert_inv_Inr_cases)+

lemma prepare_frame:
  "iv_items db' = iv_items db \<Longrightarrow> iv_plans db' = iv_plans db \<Longrightarrow> iv_lanes db' = iv_lanes db \<Longrightarrow>
     prepare_investigation L hostname candidate lane plan category when rnd db' =
       prepare_investigation L hostname candidate lane plan category when rnd db"
  by (simp add: prepare_investigation_def candidate_row_def find_lane_def)

lemma map_result_PStr:
  "map_result (\<lambda>v. case v of PStr s \<Rightarrow> Inr s | _ \<Rightarrow> Inl ValueError) (map PStr ids) = Inr ids"
  by (induction ids) auto

lemma job_row_round_trip:
  assumes "json_loads L (targeted_json L (j_targeted_query_ids job)) = Some (PList (map PStr (j_targeted_query_ids job)))"
    and "job_post_init job = Inr ()"
  shows "job_from_row L (row_of_job L job) = Inr job"
  using assms by (cases job) (simp add: job_from_row_def row_of_job_def targeted_of_json_def map_result_PStr Let_def)

lemma fresh_run_row:
  assumes run: "run_investigation L hostname N registry lease lease' candidate lane plan category when rnd db = (Inr res, db')"
    and fresh: "find_inv candidate db = None"
  shows "find_inv candidate db' = Some (row_of_job L (ir_job res)) \<and> job_post_init (ir_job res) = Inr () \<and>
    (\<exists>source. prepare_investigation L hostname candidate lane plan category when rnd db' = Inr (source, ir_targeted_queries res)) \<and>
    j_targeted_query_ids (ir_job res) = map q_query_plan_id (ir_targeted_queries res) \<and>
    j_investigation_id (ir_job res) = investigation_id L candidate lane plan \<and>
    j_feed_lane_id (ir_job res) = lane \<and> j_query_plan_id (ir_job res) = plan \<and>
    j_category (ir_job res) = category \<and> j_round_number (ir_job res) = rnd \<and>
    j_state (ir_job res) \<in> set TERMINAL_STATES"
  using run
proof (cases rule: run_Inr_cases)
  case (replay source targeted job)
  then show ?thesis using fresh by (simp add: existing_outcome_def)
next
  case (ran source targeted running completed db1 b b' used st qs)
  note r = make_job_fields [OF ran(3)] and c = make_job_fields [OF ran(6)]
  have fin: "j_state completed \<in> set TERMINAL_STATES" using c ran(5) by (auto simp: TERMINAL_STATES_def)
  have row1: "find_inv candidate db1 = Some (row_of_job L running)"
    using ran(4)
  proof (cases rule: persist_Inr_cases)
    case (replay x)
    then show ?thesis using fresh r by simp
  next
    case wrote
    then show ?thesis using fresh r find_upsert_inv [OF wrote(7), of candidate] by (simp add: row_of_job_def)
  qed
  have row2: "find_inv candidate db' = Some (row_of_job L completed)"
    using ran(7)
  proof (cases rule: persist_Inr_cases)
    case (replay x)
    then show ?thesis using row1 r c by (auto simp: row_of_job_def TERMINAL_STATES_def)
  next
    case wrote
    have "written (row_of_job L completed) (row_of_job L running) = row_of_job L completed"
      using r c by (simp add: written_def row_of_job_def)
    then show ?thesis using row1 c find_upsert_inv [OF wrote(7), of candidate] by (simp add: row_of_job_def)
  qed
  have pre: "prepare_investigation L hostname candidate lane plan category when rnd db' = Inr (source, targeted)"
    using ran(1) prepare_frame [of db' db] persist_frame [OF ran(4)] persist_frame [OF ran(7)] by simp
  have "j_targeted_query_ids completed = map q_query_plan_id targeted" "j_investigation_id completed = investigation_id L candidate lane plan"
    "j_feed_lane_id completed = lane" "j_query_plan_id completed = plan" "j_category completed = category"
    "j_round_number completed = rnd"
    using c by simp_all
  then show ?thesis using row2 pre conjunct2 [OF c] fin unfolding ran(8) by simp
qed

text \<open>
  Running an investigation again is a replay: after a first run of a new candidate
  returned, the same call, with any network, any source registry and any lease outcomes, returns
  the same job and queries without using the network and changes nothing. The JSON parser is
  only assumed to read back the list of query ids that was written.
\<close>

theorem run_investigation_replay:
  assumes run: "run_investigation L hostname N registry lease lease' candidate lane plan category when rnd db = (Inr res, db')"
    and fresh: "find_inv candidate db = None"
    and json: "json_loads L (json_dumps L (PTuple (map (\<lambda>p. PStr (q_query_plan_id p)) (ir_targeted_queries res)))) =
      Some (PList (map (\<lambda>p. PStr (q_query_plan_id p)) (ir_targeted_queries res)))"
  shows "run_investigation L hostname N' registry' lease'' lease''' candidate lane plan category when rnd db' =
    (Inr (res\<lparr>ir_query_results := [], ir_network_used := False\<rparr>), db')"
proof -
  note f = fresh_run_row [OF run fresh]
  obtain source where pre: "prepare_investigation L hostname candidate lane plan category when rnd db' =
      Inr (source, ir_targeted_queries res)" using f by blast
  let ?ids = "map q_query_plan_id (ir_targeted_queries res)"
  have "json_loads L (targeted_json L ?ids) = Some (PList (map PStr ?ids))"
    using json by (simp add: targeted_json_def o_def del: json_dumps.simps)
  then have "job_from_row L (row_of_job L (ir_job res)) = Inr (ir_job res)"
    using f by (intro job_row_round_trip) simp_all
  then have "existing_outcome L candidate lane plan category rnd ?ids (find_inv candidate db') = Inr (Some (ir_job res))"
    using f by (simp add: existing_outcome_def)
  then show ?thesis
    using pre unfolding run_investigation_def by (simp only: run_eval) simp
qed

section \<open>A concrete investigation\<close>

definition inv_lib :: pylib where
  "inv_lib = planner_lib\<lparr>json_loads := (\<lambda>s. Some (PList [PStr (replicate 32 (CHR ''a''))]))\<rparr>"

definition inv_demo_db :: inv_db where
  "inv_demo_db = \<lparr>iv_items = [(''c1'', Some ''New chips'', None)], iv_plans = [(''p1'', ''src'')],
     iv_lanes = [\<lparr>l_source_item_id = ''c1'', l_feed_lane_id = ''lane'', l_query_plan_id = ''p1'', l_category = ''ai''\<rparr>],
     iv_rows = []\<rparr>"

definition inv_demo_net :: network where
  "inv_demo_net = \<lparr>nw_factory = Some (\<lambda>_. Inr True), nw_fetch = (\<lambda>_ _. Fetched (Some 200) None [''x1''])\<rparr>"

definition inv_demo_registry :: "registry_row list" where
  "inv_demo_registry = [(''src'', Inr \<lparr>ss_source_id = ''src'', ss_searxng = True, ss_category_scope = [''ai'']\<rparr>)]"

definition inv_demo_run :: "investigation_result result \<times> inv_db" where
  "inv_demo_run = run_investigation inv_lib (\<lambda>_. Inr None) inv_demo_net inv_demo_registry (\<lambda>_. Inr ()) (\<lambda>_. Inr ())
     ''c1'' ''lane'' ''p1'' ''ai'' planner_stamp 0 inv_demo_db"

lemma inv_demo_run_ok:
  "case inv_demo_run of (Inr res, db') \<Rightarrow>
     map q_query_plan_id (ir_targeted_queries res) = [replicate 32 (CHR ''a'')] \<and>
     j_state (ir_job res) = ''complete'' | _ \<Rightarrow> False"
  by code_simp

lemma inv_demo_run_Inr:
  obtains res db' where "inv_demo_run = (Inr res, db')"
    "map q_query_plan_id (ir_targeted_queries res) = [replicate 32 (CHR ''a'')]" "j_state (ir_job res) = ''complete''"
  using inv_demo_run_ok by (auto split: prod.splits sum.splits)

theorem run_investigation_receipt_witness:
  "\<exists>res db'. inv_demo_run = (Inr res, db') \<and> (\<exists>r. find_inv ''c1'' db' = Some r \<and> i_state r = ''complete'')"
proof -
  obtain res db' where r: "inv_demo_run = (Inr res, db')" "j_state (ir_job res) = ''complete''"
    by (rule inv_demo_run_Inr)
  then show ?thesis using run_investigation_receipt [OF r(1) [unfolded inv_demo_run_def]] by auto
qed

theorem run_investigation_replay_witness:
  "\<exists>res db'. inv_demo_run = (Inr res, db') \<and>
     fst (run_investigation inv_lib (\<lambda>_. Inr None) \<lparr>nw_factory = None, nw_fetch = nw_fetch inv_demo_net\<rparr> []
       (\<lambda>_. Inl ClaimMismatchError) (\<lambda>_. Inr ()) ''c1'' ''lane'' ''p1'' ''ai'' planner_stamp 0 db') =
     Inr (res\<lparr>ir_query_results := [], ir_network_used := False\<rparr>)"
proof -
  obtain res db' where r: "inv_demo_run = (Inr res, db')"
      "map q_query_plan_id (ir_targeted_queries res) = [replicate 32 (CHR ''a'')]"
    by (rule inv_demo_run_Inr)
  have ids: "map (\<lambda>p. PStr (q_query_plan_id p)) (ir_targeted_queries res) = [PStr (replicate 32 (CHR ''a''))]"
    using arg_cong [OF r(2), of "map PStr"] by (simp add: o_def)
  have "find_inv ''c1'' inv_demo_db = None" by (simp add: find_inv_def inv_demo_db_def)
  then have "fst (run_investigation inv_lib (\<lambda>_. Inr None) \<lparr>nw_factory = None, nw_fetch = nw_fetch inv_demo_net\<rparr> []
       (\<lambda>_. Inl ClaimMismatchError) (\<lambda>_. Inr ()) ''c1'' ''lane'' ''p1'' ''ai'' planner_stamp 0 db') =
     Inr (res\<lparr>ir_query_results := [], ir_network_used := False\<rparr>)"
    using run_investigation_replay [OF r(1) [unfolded inv_demo_run_def]] ids
    by (simp add: inv_lib_def del: json_dumps.simps replicate.simps)
  then show ?thesis using r(1) by blast
qed

definition inv_demo_row :: inv_row where
  "inv_demo_row = \<lparr>i_investigation_id = ''i'', i_candidate_id = ''c1'', i_feed_lane_id = ''lane'', i_query_plan_id = ''p1'',
     i_category = ''ai'', i_round_number = 0, i_state = ''complete'', i_terminal_state = Some ''complete'',
     i_targeted_query_ids_json = ''[]'', i_created_at = ''t'', i_updated_at = ''t''\<rparr>"

lemma inv_demo_row_ok: "investigations_ok (inv_demo_db\<lparr>iv_rows := [inv_demo_row]\<rparr>)"
  by (simp add: investigations_ok_def inv_demo_row_def inv_row_ok_def tbl_keyed_def MAX_INVESTIGATION_ROUNDS_def
      INVESTIGATION_STATES_def TERMINAL_STATES_def)

theorem investigation_monotonic_witness:
  "find_inv ''c1'' (run_ops (inv_exec inv_lib) [Persist (\<lambda>_. Inr ()) \<lparr>j_investigation_id = ''i'', j_candidate_id = ''c1'',
     j_feed_lane_id = ''lane'', j_query_plan_id = ''p1'', j_category = ''ai'', j_round_number = 1, j_state = ''running'',
     j_terminal_state = None, j_targeted_query_ids = [], j_created_at = ''u'', j_updated_at = ''u''\<rparr>]
     (inv_demo_db\<lparr>iv_rows := [inv_demo_row]\<rparr>)) = Some inv_demo_row"
proof -
  have f: "find_inv ''c1'' (inv_demo_db\<lparr>iv_rows := [inv_demo_row]\<rparr>) = Some inv_demo_row"
    by (simp add: find_inv_def inv_demo_row_def)
  have "i_state inv_demo_row = ''complete''" by (simp add: inv_demo_row_def)
  then show ?thesis using investigation_monotonic [OF inv_demo_row_ok f] by blast
qed

theorem persist_fenced_witness:
  "snd (persist_investigation inv_lib (\<lambda>i. if i = 2 then Inl ClaimMismatchError else Inr ())
     \<lparr>j_investigation_id = ''i'', j_candidate_id = ''c1'',
     j_feed_lane_id = ''lane'', j_query_plan_id = ''p1'', j_category = ''ai'', j_round_number = 0, j_state = ''running'',
     j_terminal_state = None, j_targeted_query_ids = [], j_created_at = ''u'', j_updated_at = ''u''\<rparr> inv_demo_db) = inv_demo_db"
  using persist_fenced [of 2 "\<lambda>i. if i = 2 then Inl ClaimMismatchError else Inr ()" ClaimMismatchError] by simp

theorem stale_worker_cannot_publish_witness:
  "snd (persist_investigation demo_lib (\<lambda>i. assert_claim demo_lib ''t1'' ''w1'' 1 demo_now demo_db2)
     \<lparr>j_investigation_id = ''i'', j_candidate_id = ''c1'',
     j_feed_lane_id = ''lane'', j_query_plan_id = ''p1'', j_category = ''ai'', j_round_number = 0, j_state = ''running'',
     j_terminal_state = None, j_targeted_query_ids = [], j_created_at = ''u'', j_updated_at = ''u''\<rparr> inv_demo_db) = inv_demo_db"
  using stale_worker_cannot_publish [OF demo_db_inv demo_claim, of "''w2''" 60 "demo_now + 60000000" "[]"
      2 2 "utc_now_iso (demo_now + 120000000)" demo_db2 demo_db2 "[]"
      "\<lambda>i. assert_claim demo_lib ''t1'' ''w1'' 1 demo_now demo_db2" demo_now] demo_takeover
  by simp

theorem candidate_lanes_exact_witness:
  "distinct (map l_source_item_id (candidate_lanes inv_demo_db))"
  using candidate_lanes_exact [of inv_demo_db] by (simp add: inv_demo_db_def)

end
