(* ===== verification/SubjectDelivery.thy ===== *)
theory SubjectDelivery
  imports Timestamps
begin

text \<open>
  \<open>news_pipeline/subject_delivery.py\<close>: the outbox of subject reports, the delivery attempts and
  their receipts (the tables of \<open>schema_v9.py\<close>). A private adapter sends a report between
  \<open>start_subject_delivery\<close> and \<open>complete_subject_delivery\<close>; this module only keeps the books.

  Where the code reads the database before it begins its transaction, the model takes that
  earlier reading as a store of its own, so that other connections may write in between.
\<close>

section \<open>Rows\<close>

datatype delivery_state = DPrepared | DSent | DFailed | DAmbiguous | DSkipped

record report_row =
  sr_subject_report_id :: string
  sr_parent_report_id :: string
  sr_subject_id :: string
  sr_revision :: int
  sr_content_sha256 :: string
  sr_story_count :: int
  sr_created_at :: string

record outbox_row =
  ob_subject_report_id :: string
  ob_idempotency_key :: string
  ob_channel :: "string option"
  ob_recipient_hash :: "string option"
  ob_content_sha256 :: string
  ob_state :: delivery_state
  ob_current_attempt_id :: "string option"
  ob_created_at :: string
  ob_updated_at :: string

record attempt_row =
  at_attempt_id :: string
  at_subject_report_id :: string
  at_ordinal :: int
  at_state :: delivery_state
  at_recipient_hash :: string
  at_content_sha256 :: string
  at_prepared_at :: string
  at_completed_at :: "string option"
  at_message_ids_json :: "string option"
  at_error_code :: "string option"
  at_error_detail :: "string option"

text \<open>\<open>sd_parents\<close> gives the generation status of each parent report.\<close>

record delivery_db =
  sd_parents :: "(string \<times> string) list"
  sd_reports :: "report_row list"
  sd_outbox :: "outbox_row list"
  sd_attempts :: "attempt_row list"

record snapshot =
  sn_report :: report_row
  sn_outbox :: outbox_row
  sn_attempt :: "(attempt_row \<times> string list) option"

section \<open>Field checks\<close>

definition SUBJECTS :: "string list" where
  "SUBJECTS = [''ai'', ''world'', ''audio_engineering'', ''professional_av'', ''hardware'', ''fantasy_novel'', ''our_setup'']"

definition control_char :: "char \<Rightarrow> bool" where
  "control_char c = (let n = (of_char c :: nat) in
     n \<le> 8 \<or> n = 11 \<or> n = 12 \<or> 14 \<le> n \<and> n \<le> 31 \<or> n = 127)"

definition clean_text :: "string \<Rightarrow> nat \<Rightarrow> bool" where
  "clean_text s maximum \<longleftrightarrow> \<not> blank s \<and> length s \<le> maximum \<and> \<not> list_ex control_char s"

definition subject_of :: "string \<Rightarrow> string result" where
  "subject_of s = (if s \<in> set SUBJECTS then Inr s else Inl ValueError)"

definition nonempty :: "string \<Rightarrow> string result" where
  "nonempty s = (if clean_text s 256 then Inr s else Inl ValueError)"

definition hash_ok :: "string \<Rightarrow> bool" where
  "hash_ok s \<longleftrightarrow> length s = 64 \<and> list_all is_hex s"

definition hash_of :: "string \<Rightarrow> string result" where
  "hash_of s = (if hash_ok s then Inr s else Inl ValueError)"

definition identifier_char :: "char \<Rightarrow> bool" where
  "identifier_char c = (let n = (of_char c :: nat) in 48 \<le> n \<and> n \<le> 57 \<or> 97 \<le> n \<and> n \<le> 122)"

text \<open>\<open>[a-z0-9][a-z0-9_-]{0,31}\<close> and \<open>[a-z0-9][a-z0-9_]{0,63}\<close>.\<close>

definition channel_ok :: "string \<Rightarrow> bool" where
  "channel_ok s \<longleftrightarrow> s \<noteq> [] \<and> identifier_char (hd s) \<and> length s \<le> 32 \<and>
     list_all (\<lambda>c. identifier_char c \<or> c = CHR ''_'' \<or> c = CHR ''-'') (tl s)"

definition error_code_ok :: "string \<Rightarrow> bool" where
  "error_code_ok s \<longleftrightarrow> s \<noteq> [] \<and> identifier_char (hd s) \<and> length s \<le> 64 \<and>
     list_all (\<lambda>c. identifier_char c \<or> c = CHR ''_'') (tl s)"

text \<open>\<open>parsed.isoformat(...)\<close> with microseconds only if there are any.\<close>

definition canonical_z :: "instant \<Rightarrow> string" where
  "canonical_z t = (if micro_field t \<noteq> 0 then iso_us t else iso_s t) @ ''Z''"

definition canonical_timestamp :: "pylib \<Rightarrow> string \<Rightarrow> string result" where
  "canonical_timestamp L v =
     (if \<not> ends_with ''Z'' v then Inl ValueError
      else case fromisoformat_utc L (butlast v @ ''+00:00'') of
        None \<Rightarrow> Inl ValueError
      | Some t \<Rightarrow> if canonical_z t \<noteq> v then Inl ValueError else Inr v)"

definition nul :: string where
  "nul = [char_of (0 :: nat)]"

definition subject_report_id :: "pylib \<Rightarrow> string \<Rightarrow> string \<Rightarrow> string \<Rightarrow> string result" where
  "subject_report_id L parent subject content =
     bind_result (nonempty parent) (\<lambda>_.
     bind_result (subject_of subject) (\<lambda>_.
     bind_result (hash_of content) (\<lambda>_.
       Inr (''subject-report-'' @ sha256_hexdigest L
         (''subject-report-v1'' @ nul @ parent @ nul @ subject @ nul @ content)))))"

definition subject_idempotency_key :: "pylib \<Rightarrow> string \<Rightarrow> string \<Rightarrow> string \<Rightarrow> string result" where
  "subject_idempotency_key L subject report content =
     bind_result (subject_of subject) (\<lambda>_.
     bind_result (nonempty report) (\<lambda>_.
     bind_result (hash_of content) (\<lambda>_.
       Inr (sha256_hexdigest L (''subject-delivery-v1'' @ nul @ subject @ nul @ report @ nul @ content)))))"

definition attempt_id_of :: "pylib \<Rightarrow> string \<Rightarrow> int \<Rightarrow> string" where
  "attempt_id_of L key ordinal = sha256_hexdigest L (''subject-attempt-v1'' @ nul @ key @ nul @ show_int ordinal)"

definition message_ids :: "pylib \<Rightarrow> string option \<Rightarrow> string list result" where
  "message_ids L v =
     (case v of None \<Rightarrow> Inr []
      | Some s \<Rightarrow>
          (case json_loads L s of
             Some (PList vs) \<Rightarrow>
               map_result (\<lambda>x. case x of
                   PStr m \<Rightarrow> if m = [] \<or> length m > 256 \<or> list_ex control_char m then Inl DeliveryConflict else Inr m
                 | _ \<Rightarrow> Inl DeliveryConflict) vs
           | _ \<Rightarrow> Inl DeliveryConflict))"

section \<open>Reading a row back\<close>

definition report_record :: "pylib \<Rightarrow> report_row \<Rightarrow> report_row result" where
  "report_record L r =
     bind_result (nonempty (sr_parent_report_id r)) (\<lambda>_.
     bind_result (subject_of (sr_subject_id r)) (\<lambda>_.
     bind_result (hash_of (sr_content_sha256 r)) (\<lambda>_.
     bind_result (guard (1 \<le> sr_revision r) DeliveryConflict) (\<lambda>_.
     bind_result (guard (0 \<le> sr_story_count r) DeliveryConflict) (\<lambda>_.
     bind_result (canonical_timestamp L (sr_created_at r)) (\<lambda>_.
     bind_result (subject_report_id L (sr_parent_report_id r) (sr_subject_id r) (sr_content_sha256 r)) (\<lambda>expected.
       if sr_subject_report_id r \<noteq> expected then Inl DeliveryConflict else Inr r)))))))"

definition outbox_record :: "pylib \<Rightarrow> report_row \<Rightarrow> outbox_row \<Rightarrow> outbox_row result" where
  "outbox_record L report ob =
     (if ob_subject_report_id ob \<noteq> sr_subject_report_id report then Inl DeliveryConflict
      else bind_result (subject_idempotency_key L (sr_subject_id report) (sr_subject_report_id report)
             (sr_content_sha256 report)) (\<lambda>key.
        if ob_idempotency_key ob \<noteq> key then Inl DeliveryConflict
        else if ob_content_sha256 ob \<noteq> sr_content_sha256 report then Inl DeliveryConflict
        else if (case ob_channel ob of None \<Rightarrow> False | Some c \<Rightarrow> \<not> channel_ok c) then Inl DeliveryConflict
        else bind_result (case ob_recipient_hash ob of None \<Rightarrow> Inr [] | Some h \<Rightarrow> hash_of h) (\<lambda>_.
          bind_result (case ob_current_attempt_id ob of None \<Rightarrow> Inr [] | Some a \<Rightarrow> nonempty a) (\<lambda>_.
          bind_result (canonical_timestamp L (ob_created_at ob)) (\<lambda>_.
          bind_result (canonical_timestamp L (ob_updated_at ob)) (\<lambda>_. Inr ob))))))"

definition attempt_record :: "pylib \<Rightarrow> report_row \<Rightarrow> attempt_row \<Rightarrow> (attempt_row \<times> string list) result" where
  "attempt_record L report a =
     bind_result (nonempty (at_attempt_id a)) (\<lambda>_.
       if at_subject_report_id a \<noteq> sr_subject_report_id report then Inl DeliveryConflict
       else if at_ordinal a < 1 then Inl DeliveryConflict
       else if at_state a = DSkipped then Inl DeliveryConflict
       else bind_result (hash_of (at_recipient_hash a)) (\<lambda>_.
         if at_content_sha256 a \<noteq> sr_content_sha256 report then Inl DeliveryConflict
         else bind_result (case at_completed_at a of None \<Rightarrow> Inr [] | Some t \<Rightarrow> canonical_timestamp L t) (\<lambda>_.
           if (case at_error_code a of None \<Rightarrow> False | Some c \<Rightarrow> \<not> error_code_ok c) then Inl DeliveryConflict
           else bind_result (case at_error_detail a of None \<Rightarrow> Inr [] | Some d \<Rightarrow> nonempty d) (\<lambda>_.
             bind_result (canonical_timestamp L (at_prepared_at a)) (\<lambda>_.
             bind_result (message_ids L (at_message_ids_json a)) (\<lambda>ids. Inr (a, ids)))))))"

definition find_report :: "string \<Rightarrow> delivery_db \<Rightarrow> report_row option" where
  "find_report rid db = tbl_find sr_subject_report_id rid (sd_reports db)"

definition find_outbox :: "string \<Rightarrow> delivery_db \<Rightarrow> outbox_row option" where
  "find_outbox rid db = tbl_find ob_subject_report_id rid (sd_outbox db)"

definition find_attempt :: "string \<Rightarrow> delivery_db \<Rightarrow> attempt_row option" where
  "find_attempt aid db = tbl_find at_attempt_id aid (sd_attempts db)"

text \<open>The current attempt of an outbox row, checked against the row.\<close>

definition current_attempt ::
  "pylib \<Rightarrow> report_row \<Rightarrow> outbox_row \<Rightarrow> delivery_db \<Rightarrow> (attempt_row \<times> string list) option result" where
  "current_attempt L report ob db =
     (case ob_current_attempt_id ob of None \<Rightarrow> Inr None
      | Some aid \<Rightarrow>
          (case find_attempt aid db of None \<Rightarrow> Inl DeliveryConflict
           | Some row \<Rightarrow>
               bind_result (attempt_record L report row) (\<lambda>(a, ids).
                 if at_attempt_id a \<noteq> aid then Inl DeliveryConflict
                 else if at_state a \<noteq> ob_state ob then Inl DeliveryConflict
                 else if Some (at_recipient_hash a) \<noteq> ob_recipient_hash ob then Inl DeliveryConflict
                 else Inr (Some (a, ids)))))"

definition load_snapshot :: "pylib \<Rightarrow> string \<Rightarrow> delivery_db \<Rightarrow> snapshot result" where
  "load_snapshot L rid db =
     (case find_report rid db of None \<Rightarrow> Inl DeliveryRejected
      | Some row \<Rightarrow>
          bind_result (report_record L row) (\<lambda>report.
            case find_outbox rid db of None \<Rightarrow> Inl DeliveryConflict
            | Some orow \<Rightarrow>
                bind_result (outbox_record L report orow) (\<lambda>ob.
                bind_result (current_attempt L report ob db) (\<lambda>attempt.
                  if sr_story_count report = 0 \<and> (ob_state ob \<noteq> DSkipped \<or> attempt \<noteq> None) then Inl DeliveryConflict
                  else if sr_story_count report \<noteq> 0 \<and> ob_state ob = DSkipped then Inl DeliveryConflict
                  else if ob_state ob \<in> {DSent, DFailed, DAmbiguous} \<and> attempt = None then Inl DeliveryConflict
                  else if ob_state ob = DPrepared \<and> attempt = None \<and>
                          (ob_channel ob \<noteq> None \<or> ob_recipient_hash ob \<noteq> None) then Inl DeliveryConflict
                  else if attempt \<noteq> None \<and> (ob_channel ob = None \<or> ob_recipient_hash ob = None) then Inl DeliveryConflict
                  else Inr \<lparr>sn_report = report, sn_outbox = ob, sn_attempt = attempt\<rparr>))))"

definition load_subject_delivery :: "pylib \<Rightarrow> string \<Rightarrow> delivery_db \<Rightarrow> snapshot result" where
  "load_subject_delivery L rid db = bind_result (nonempty rid) (\<lambda>rid. load_snapshot L rid db)"

section \<open>Preparing a report\<close>

record prepared_report =
  pr_report_id :: string
  pr_key :: string
  pr_content :: string

definition prepare_args ::
  "pylib \<Rightarrow> string \<Rightarrow> string \<Rightarrow> string \<Rightarrow> int \<Rightarrow> string \<Rightarrow> prepared_report result" where
  "prepare_args L parent subject rendered story_count created_at =
     bind_result (nonempty parent) (\<lambda>_.
     bind_result (subject_of subject) (\<lambda>_.
       if story_count < 0 then Inl ValueError
       else if story_count = 0 \<and> rendered \<noteq> [] then Inl ValueError
       else if story_count > 0 \<and> rendered = [] then Inl ValueError
       else bind_result (canonical_timestamp L created_at) (\<lambda>_.
         let content = sha256_hexdigest L rendered in
         bind_result (subject_report_id L parent subject content) (\<lambda>rid.
         bind_result (subject_idempotency_key L subject rid content) (\<lambda>key.
           Inr \<lparr>pr_report_id = rid, pr_key = key, pr_content = content\<rparr>)))))"

definition same_content :: "string \<Rightarrow> string \<Rightarrow> string \<Rightarrow> delivery_db \<Rightarrow> report_row option" where
  "same_content parent subject content db =
     tbl_find (\<lambda>r. (sr_parent_report_id r, sr_subject_id r, sr_content_sha256 r)) (parent, subject, content) (sd_reports db)"

definition next_revision :: "string \<Rightarrow> string \<Rightarrow> delivery_db \<Rightarrow> int" where
  "next_revision parent subject db =
     Max (insert 0 (set (map sr_revision (filter (\<lambda>r. sr_parent_report_id r = parent \<and> sr_subject_id r = subject)
       (sd_reports db))))) + 1"

definition insert_report :: "report_row \<Rightarrow> (delivery_db, unit) tx" where
  "insert_report r db =
     (if map_of (sd_parents db) (sr_parent_report_id r) = None \<or>
         find_report (sr_subject_report_id r) db \<noteq> None \<or>
         (sr_parent_report_id r, sr_subject_id r, sr_revision r) \<in>
            set (map (\<lambda>r. (sr_parent_report_id r, sr_subject_id r, sr_revision r)) (sd_reports db)) \<or>
         same_content (sr_parent_report_id r) (sr_subject_id r) (sr_content_sha256 r) db \<noteq> None
      then (Inl IntegrityError, db)
      else (Inr (), db\<lparr>sd_reports := tbl_insert r (sd_reports db)\<rparr>))"

definition insert_outbox :: "outbox_row \<Rightarrow> (delivery_db, unit) tx" where
  "insert_outbox ob db =
     (if find_outbox (ob_subject_report_id ob) db \<noteq> None \<or>
         ob_idempotency_key ob \<in> set (map ob_idempotency_key (sd_outbox db)) \<or>
         find_report (ob_subject_report_id ob) db = None
      then (Inl IntegrityError, db)
      else (Inr (), db\<lparr>sd_outbox := tbl_insert ob (sd_outbox db)\<rparr>))"

text \<open>
  The transaction of \<open>prepare_subject_report\<close>: it finds the report a concurrent writer stored
  in the meantime, or inserts the report and its outbox row.
\<close>

definition prepare_tx ::
  "pylib \<Rightarrow> string \<Rightarrow> string \<Rightarrow> prepared_report \<Rightarrow> int \<Rightarrow> string \<Rightarrow> (delivery_db, unit) tx" where
  "prepare_tx L parent subject p story_count created =
     immediate_tx (\<lambda>db.
       case same_content parent subject (pr_content p) db of
         Some existing \<Rightarrow>
           if sr_subject_report_id existing \<noteq> pr_report_id p \<or> sr_story_count existing \<noteq> story_count
           then (Inl DeliveryConflict, db) else (Inr (), db)
       | None \<Rightarrow>
           (case insert_report \<lparr>sr_subject_report_id = pr_report_id p, sr_parent_report_id = parent,
                   sr_subject_id = subject, sr_revision = next_revision parent subject db,
                   sr_content_sha256 = pr_content p, sr_story_count = story_count, sr_created_at = created\<rparr> db of
              (Inl e, db') \<Rightarrow> (Inl e, db')
            | (Inr _, db') \<Rightarrow>
                insert_outbox \<lparr>ob_subject_report_id = pr_report_id p, ob_idempotency_key = pr_key p,
                  ob_channel = None, ob_recipient_hash = None, ob_content_sha256 = pr_content p,
                  ob_state = (if story_count = 0 then DSkipped else DPrepared),
                  ob_current_attempt_id = None, ob_created_at = created, ob_updated_at = created\<rparr> db'))"

definition prepare_subject_report ::
  "pylib \<Rightarrow> string \<Rightarrow> string \<Rightarrow> string \<Rightarrow> int \<Rightarrow> string \<Rightarrow> delivery_db \<Rightarrow> (delivery_db, snapshot) tx" where
  "prepare_subject_report L parent subject rendered story_count created_at before db =
     (case prepare_args L parent subject rendered story_count created_at of
        Inl e \<Rightarrow> (Inl e, db)
      | Inr p \<Rightarrow>
          if map_of (sd_parents before) parent \<noteq> Some ''complete'' then (Inl DeliveryRejected, db)
          else (case same_content parent subject (pr_content p) before of
             Some existing \<Rightarrow>
               if sr_subject_report_id existing \<noteq> pr_report_id p \<or> sr_story_count existing \<noteq> story_count
               then (Inl DeliveryConflict, db) else (load_snapshot L (pr_report_id p) before, db)
           | None \<Rightarrow>
               (case prepare_tx L parent subject p story_count created_at db of
                  (Inl e, db') \<Rightarrow> (Inl e, db')
                | (Inr _, db') \<Rightarrow> (load_snapshot L (pr_report_id p) db', db'))))"

section \<open>Starting an attempt\<close>

definition next_ordinal :: "string \<Rightarrow> delivery_db \<Rightarrow> int" where
  "next_ordinal rid db =
     Max (insert 0 (set (map at_ordinal (filter (\<lambda>a. at_subject_report_id a = rid) (sd_attempts db))))) + 1"

definition insert_attempt :: "attempt_row \<Rightarrow> (delivery_db, unit) tx" where
  "insert_attempt a db =
     (if find_attempt (at_attempt_id a) db \<noteq> None \<or>
         (at_subject_report_id a, at_ordinal a) \<in>
            set (map (\<lambda>a. (at_subject_report_id a, at_ordinal a)) (sd_attempts db)) \<or>
         find_outbox (at_subject_report_id a) db = None
      then (Inl IntegrityError, db)
      else (Inr (), db\<lparr>sd_attempts := tbl_insert a (sd_attempts db)\<rparr>))"

text \<open>What the first reading decides: nothing to do (\<open>Inr True\<close>), go on, or refuse.\<close>

definition start_decide :: "string \<Rightarrow> string \<Rightarrow> bool \<Rightarrow> snapshot \<Rightarrow> bool result" where
  "start_decide recipient channel retry_failed s =
     (let ob = sn_outbox s in
      if ob_state ob \<in> {DSent, DSkipped} then Inr True
      else if ob_state ob = DAmbiguous then Inl DeliveryAmbiguous
      else if ob_state ob = DPrepared \<and> sn_attempt s \<noteq> None then Inl DeliveryAmbiguous
      else if ob_state ob = DFailed \<and> \<not> retry_failed then Inl DeliveryRejected
      else if ob_channel ob \<noteq> None \<and> ob_channel ob \<noteq> Some channel then Inl DeliveryConflict
      else if ob_recipient_hash ob \<noteq> None \<and> ob_recipient_hash ob \<noteq> Some recipient then Inl DeliveryConflict
      else Inr False)"

definition start_tx ::
  "pylib \<Rightarrow> string \<Rightarrow> string \<Rightarrow> string \<Rightarrow> string \<Rightarrow> snapshot \<Rightarrow> (delivery_db, unit) tx" where
  "start_tx L rid recipient channel prepared initial =
     immediate_tx (\<lambda>db.
       case load_snapshot L rid db of Inl e \<Rightarrow> (Inl e, db)
       | Inr current \<Rightarrow>
           if current \<noteq> initial then (Inl DeliveryConflict, db)
           else
             let ordinal = next_ordinal rid db;
                 aid = attempt_id_of L (ob_idempotency_key (sn_outbox current)) ordinal in
             (case insert_attempt \<lparr>at_attempt_id = aid, at_subject_report_id = rid, at_ordinal = ordinal,
                     at_state = DPrepared, at_recipient_hash = recipient,
                     at_content_sha256 = sr_content_sha256 (sn_report current), at_prepared_at = prepared,
                     at_completed_at = None, at_message_ids_json = Some ''[]'', at_error_code = None,
                     at_error_detail = None\<rparr> db of
                (Inl e, db') \<Rightarrow> (Inl e, db')
              | (Inr _, db') \<Rightarrow>
                  if \<not> list_ex (\<lambda>ob. ob_subject_report_id ob = rid \<and> ob_state ob = ob_state (sn_outbox current) \<and>
                         ob_current_attempt_id ob = ob_current_attempt_id (sn_outbox current)) (sd_outbox db')
                  then (Inl DeliveryConflict, db')
                  else (Inr (), db'\<lparr>sd_outbox := map (\<lambda>ob.
                    if ob_subject_report_id ob = rid \<and> ob_state ob = ob_state (sn_outbox current) \<and>
                       ob_current_attempt_id ob = ob_current_attempt_id (sn_outbox current)
                    then ob\<lparr>ob_channel := Some channel, ob_recipient_hash := Some recipient, ob_state := DPrepared,
                           ob_current_attempt_id := Some aid, ob_updated_at := prepared\<rparr>
                    else ob) (sd_outbox db')\<rparr>)))"

definition start_args :: "pylib \<Rightarrow> string \<Rightarrow> string \<Rightarrow> string \<Rightarrow> string \<Rightarrow> unit result" where
  "start_args L rid recipient channel prepared_at =
     bind_result (nonempty rid) (\<lambda>_.
     bind_result (hash_of recipient) (\<lambda>_.
     bind_result (guard (channel_ok channel) ValueError) (\<lambda>_.
     bind_result (canonical_timestamp L prepared_at) (\<lambda>_. Inr ()))))"

definition start_subject_delivery ::
  "pylib \<Rightarrow> string \<Rightarrow> string \<Rightarrow> string \<Rightarrow> string \<Rightarrow> bool \<Rightarrow> delivery_db \<Rightarrow> (delivery_db, snapshot) tx" where
  "start_subject_delivery L rid recipient channel prepared_at retry_failed before db =
     (case bind_result (start_args L rid recipient channel prepared_at) (\<lambda>_. load_snapshot L rid before) of
        Inl e \<Rightarrow> (Inl e, db)
      | Inr initial \<Rightarrow>
          (case start_decide recipient channel retry_failed initial of
             Inl e \<Rightarrow> (Inl e, db)
           | Inr True \<Rightarrow> (Inr initial, db)
           | Inr False \<Rightarrow>
               (case start_tx L rid recipient channel prepared_at initial db of
                  (Inl e, db') \<Rightarrow> (Inl e, db')
                | (Inr _, db') \<Rightarrow> (load_snapshot L rid db', db'))))"

section \<open>Completing an attempt\<close>

definition completion_fields ::
  "pylib \<Rightarrow> string \<Rightarrow> string list \<Rightarrow> string option \<Rightarrow> string option \<Rightarrow>
     (delivery_state \<times> string \<times> string option \<times> string option) result" where
  "completion_fields L state ids error_code error_detail =
     bind_result (if state = ''sent'' then Inr DSent else if state = ''failed'' then Inr DFailed
                  else if state = ''ambiguous'' then Inr DAmbiguous else Inl ValueError) (\<lambda>st.
     bind_result (message_ids L (Some (json_list_ascii ids))) (\<lambda>encoded.
       let text = json_list_ascii encoded in
       if st = DSent then
         (if encoded = [] then Inl ValueError
          else if error_code \<noteq> None \<or> error_detail \<noteq> None then Inl ValueError
          else Inr (st, text, None, None))
       else (case error_code of None \<Rightarrow> Inl ValueError
         | Some code \<Rightarrow>
             if \<not> error_code_ok code then Inl ValueError
             else (case error_detail of None \<Rightarrow> Inl ValueError
               | Some d \<Rightarrow> bind_result (nonempty d) (\<lambda>d. Inr (st, text, Some code, Some d))))))"

definition complete_tx ::
  "pylib \<Rightarrow> string \<Rightarrow> string \<Rightarrow> string \<Rightarrow> delivery_state \<times> string \<times> string option \<times> string option \<Rightarrow>
     (delivery_db, unit) tx" where
  "complete_tx L rid aid completed final =
     immediate_tx (\<lambda>db.
       case load_snapshot L rid db of Inl e \<Rightarrow> (Inl e, db)
       | Inr current \<Rightarrow>
         (case sn_attempt current of None \<Rightarrow> (Inl DeliveryConflict, db)
          | Some (attempt, ids) \<Rightarrow>
            let (st, text, code, detail) = final; content = sr_content_sha256 (sn_report current);
                hit = (\<lambda>a. at_attempt_id a = aid \<and> at_subject_report_id a = rid \<and> at_state a = DPrepared \<and>
                         at_content_sha256 a = content);
                hit' = (\<lambda>ob. ob_subject_report_id ob = rid \<and> ob_state ob = DPrepared \<and>
                         ob_current_attempt_id ob = Some aid \<and> ob_content_sha256 ob = content) in
            if ob_state (sn_outbox current) \<noteq> DPrepared \<or> at_attempt_id attempt \<noteq> aid \<or> at_state attempt \<noteq> DPrepared
              then (Inl DeliveryConflict, db)
            else if at_content_sha256 attempt \<noteq> content then (Inl DeliveryConflict, db)
            else if length (filter hit (sd_attempts db)) \<noteq> 1 then (Inl DeliveryConflict, db)
            else
              let db' = db\<lparr>sd_attempts := map (\<lambda>a. if hit a then a\<lparr>at_state := st, at_completed_at := Some completed,
                    at_message_ids_json := Some text, at_error_code := code, at_error_detail := detail\<rparr> else a)
                    (sd_attempts db)\<rparr> in
              if length (filter hit' (sd_outbox db')) \<noteq> 1 then (Inl DeliveryConflict, db')
              else (Inr (), db'\<lparr>sd_outbox := map (\<lambda>ob. if hit' ob then ob\<lparr>ob_state := st, ob_updated_at := completed\<rparr> else ob)
                      (sd_outbox db')\<rparr>)))"

definition complete_subject_delivery ::
  "pylib \<Rightarrow> string \<Rightarrow> string \<Rightarrow> string \<Rightarrow> string \<Rightarrow> string list \<Rightarrow> string option \<Rightarrow> string option \<Rightarrow>
     (delivery_db, snapshot) tx" where
  "complete_subject_delivery L rid aid state completed_at ids error_code error_detail db =
     (case bind_result (nonempty rid) (\<lambda>_. bind_result (nonempty aid) (\<lambda>_.
             bind_result (canonical_timestamp L completed_at) (\<lambda>_.
               completion_fields L state ids error_code error_detail))) of
        Inl e \<Rightarrow> (Inl e, db)
      | Inr final \<Rightarrow>
          (case complete_tx L rid aid completed_at final db of
             (Inl e, db') \<Rightarrow> (Inl e, db')
           | (Inr _, db') \<Rightarrow> (load_snapshot L rid db', db')))"

section \<open>Effects of the transactions\<close>

interpretation outbox_table: keyed_table "tbl_find ob_subject_report_id" tbl_insert "tbl_update ob_subject_report_id"
  ob_subject_report_id "tbl_keyed ob_subject_report_id"
  by (rule keyed_table_rows)

interpretation attempt_table: keyed_table "tbl_find at_attempt_id" tbl_insert "tbl_update at_attempt_id"
  at_attempt_id "tbl_keyed at_attempt_id"
  by (rule keyed_table_rows)

lemma guarded_update:
  assumes "tbl_keyed key rows" "tbl_find key k rows = Some r" "P r"
  shows "map (\<lambda>x. if key x = k \<and> P x then f x else x) rows = tbl_update key k f rows"
proof -
  have "P x" if "x \<in> set rows" "key x = k" for x
    using assms that tbl_find_Some [OF assms(1)] by (metis option.inject)
  then show ?thesis by (auto simp: tbl_update_def)
qed

lemma report_record_Inr: "report_record L r = Inr r' \<Longrightarrow> r' = r"
  by (auto simp: report_record_def split: if_splits)

lemma outbox_record_Inr:
  "outbox_record L report ob = Inr ob' \<Longrightarrow> ob' = ob \<and> ob_content_sha256 ob = sr_content_sha256 report"
  by (auto simp: outbox_record_def split: if_splits)

lemma attempt_record_Inr:
  "attempt_record L report a = Inr (a', ids) \<Longrightarrow>
     a' = a \<and> at_subject_report_id a = sr_subject_report_id report \<and> at_content_sha256 a = sr_content_sha256 report"
  by (auto simp: attempt_record_def split: if_splits)

lemma current_attempt_Inr:
  assumes "current_attempt L report ob db = Inr att"
  shows "att = None \<longleftrightarrow> ob_current_attempt_id ob = None"
    and "att = Some (a, ids) \<Longrightarrow> ob_current_attempt_id ob = Some (at_attempt_id a) \<and>
           find_attempt (at_attempt_id a) db = Some a \<and> at_subject_report_id a = sr_subject_report_id report \<and>
           at_state a = ob_state ob \<and> ob_recipient_hash ob = Some (at_recipient_hash a) \<and>
           at_content_sha256 a = sr_content_sha256 report"
  using assms
  by (auto simp: current_attempt_def split: option.splits if_splits dest!: attempt_record_Inr)

lemma find_report_id: "find_report rid db = Some r \<Longrightarrow> sr_subject_report_id r = rid"
  by (auto simp: find_report_def dest: tbl_find_SomeD)

lemma load_snapshot_Inr:
  assumes "load_snapshot L rid db = Inr s"
  shows "find_report rid db = Some (sn_report s)" "find_outbox rid db = Some (sn_outbox s)"
    and "ob_content_sha256 (sn_outbox s) = sr_content_sha256 (sn_report s)"
    and "current_attempt L (sn_report s) (sn_outbox s) db = Inr (sn_attempt s)"
    and "sn_attempt s \<noteq> None \<Longrightarrow> ob_channel (sn_outbox s) \<noteq> None"
proof -
  obtain row where row: "find_report rid db = Some row"
    using assms by (cases "find_report rid db") (auto simp: load_snapshot_def)
  have rr: "report_record L row = Inr row"
    using assms row report_record_Inr by (cases "report_record L row") (auto simp: load_snapshot_def)
  obtain orow where orow: "find_outbox rid db = Some orow"
    using assms row rr by (cases "find_outbox rid db") (auto simp: load_snapshot_def)
  have oo: "outbox_record L row orow = Inr orow" "ob_content_sha256 orow = sr_content_sha256 row"
    using assms row rr orow outbox_record_Inr
    by (cases "outbox_record L row orow"; auto simp: load_snapshot_def)+
  obtain att where att: "current_attempt L row orow db = Inr att"
    using assms row rr orow oo by (cases "current_attempt L row orow db") (auto simp: load_snapshot_def)
  have s: "s = \<lparr>sn_report = row, sn_outbox = orow, sn_attempt = att\<rparr>" "att \<noteq> None \<Longrightarrow> ob_channel orow \<noteq> None"
    using assms row rr orow oo att by (auto simp: load_snapshot_def split: if_splits)
  show "find_report rid db = Some (sn_report s)" "find_outbox rid db = Some (sn_outbox s)"
    "ob_content_sha256 (sn_outbox s) = sr_content_sha256 (sn_report s)"
    "current_attempt L (sn_report s) (sn_outbox s) db = Inr (sn_attempt s)"
    "sn_attempt s \<noteq> None \<Longrightarrow> ob_channel (sn_outbox s) \<noteq> None"
    using row orow oo att s by auto
qed

lemma snapshot_attempt:
  assumes "load_snapshot L rid db = Inr s"
  shows "sn_attempt s = None \<longleftrightarrow> ob_current_attempt_id (sn_outbox s) = None"
    and "sn_attempt s = Some (a, ids) \<Longrightarrow> ob_current_attempt_id (sn_outbox s) = Some (at_attempt_id a) \<and>
           find_attempt (at_attempt_id a) db = Some a \<and> at_subject_report_id a = rid \<and>
           at_state a = ob_state (sn_outbox s) \<and> ob_recipient_hash (sn_outbox s) = Some (at_recipient_hash a) \<and>
           at_content_sha256 a = sr_content_sha256 (sn_report s)"
  using current_attempt_Inr [OF load_snapshot_Inr(4) [OF assms]] find_report_id [OF load_snapshot_Inr(1) [OF assms]]
  by auto

text \<open>What a successful start writes: one new attempt, and the outbox row bound to it.\<close>

definition bind_attempt :: "string \<Rightarrow> string \<Rightarrow> string \<Rightarrow> string \<Rightarrow> outbox_row \<Rightarrow> outbox_row" where
  "bind_attempt channel recipient aid prepared ob =
     ob\<lparr>ob_channel := Some channel, ob_recipient_hash := Some recipient, ob_state := DPrepared,
        ob_current_attempt_id := Some aid, ob_updated_at := prepared\<rparr>"

lemma start_tx_Inr:
  assumes "start_tx L rid recipient channel prepared initial db = (Inr u, db')"
    and keyed: "tbl_keyed ob_subject_report_id (sd_outbox db)"
  obtains a where "load_snapshot L rid db = Inr initial" "find_attempt (at_attempt_id a) db = None"
    "at_subject_report_id a = rid" "at_ordinal a = next_ordinal rid db" "at_state a = DPrepared"
    "at_recipient_hash a = recipient" "at_content_sha256 a = sr_content_sha256 (sn_report initial)"
    "at_message_ids_json a = Some ''[]''" "at_error_code a = None" "at_error_detail a = None" "at_completed_at a = None"
    "at_prepared_at a = prepared"
    "at_attempt_id a = attempt_id_of L (ob_idempotency_key (sn_outbox initial)) (next_ordinal rid db)"
    "db' = db\<lparr>sd_attempts := tbl_insert a (sd_attempts db),
       sd_outbox := tbl_update ob_subject_report_id rid (bind_attempt channel recipient (at_attempt_id a) prepared) (sd_outbox db)\<rparr>"
proof -
  let ?aid = "attempt_id_of L (ob_idempotency_key (sn_outbox initial)) (next_ordinal rid db)"
  define a where "a = \<lparr>at_attempt_id = ?aid, at_subject_report_id = rid, at_ordinal = next_ordinal rid db,
      at_state = DPrepared, at_recipient_hash = recipient,
      at_content_sha256 = sr_content_sha256 (sn_report initial), at_prepared_at = prepared,
      at_completed_at = None, at_message_ids_json = Some ''[]'', at_error_code = None, at_error_detail = None\<rparr>"
  have ld: "load_snapshot L rid db = Inr initial"
    using assms(1) by (cases "load_snapshot L rid db") (auto simp: start_tx_def immediate_tx_Inr split: if_splits)
  have ins: "insert_attempt a db = (Inr (), db\<lparr>sd_attempts := tbl_insert a (sd_attempts db)\<rparr>)" "find_attempt ?aid db = None"
    using assms(1) ld
    by (cases "insert_attempt a db"; cases "fst (insert_attempt a db)";
        auto simp: start_tx_def immediate_tx_Inr Let_def a_def insert_attempt_def split: if_splits)+
  let ?P = "\<lambda>ob. ob_state ob = ob_state (sn_outbox initial) \<and> ob_current_attempt_id ob = ob_current_attempt_id (sn_outbox initial)"
  have "db' = db\<lparr>sd_attempts := tbl_insert a (sd_attempts db),
      sd_outbox := map (\<lambda>ob. if ob_subject_report_id ob = rid \<and> ?P ob
        then bind_attempt channel recipient ?aid prepared ob else ob) (sd_outbox db)\<rparr>"
    using assms(1) ld ins(1)
    by (auto simp: start_tx_def immediate_tx_Inr Let_def a_def bind_attempt_def split: if_splits)
  moreover have "map (\<lambda>ob. if ob_subject_report_id ob = rid \<and> ?P ob
        then bind_attempt channel recipient ?aid prepared ob else ob) (sd_outbox db) =
      tbl_update ob_subject_report_id rid (bind_attempt channel recipient ?aid prepared) (sd_outbox db)"
    by (rule guarded_update [OF keyed, of _ "sn_outbox initial"])
      (use load_snapshot_Inr(2) [OF ld] in \<open>auto simp: find_outbox_def\<close>)
  ultimately show ?thesis using that [of a] ld ins(2) by (simp add: a_def)
qed

definition settle_attempt :: "delivery_state \<times> string \<times> string option \<times> string option \<Rightarrow> string \<Rightarrow> attempt_row \<Rightarrow> attempt_row" where
  "settle_attempt final completed a = (case final of (st, text, code, detail) \<Rightarrow>
     a\<lparr>at_state := st, at_completed_at := Some completed, at_message_ids_json := Some text,
       at_error_code := code, at_error_detail := detail\<rparr>)"

definition settle_outbox :: "delivery_state \<Rightarrow> string \<Rightarrow> outbox_row \<Rightarrow> outbox_row" where
  "settle_outbox st completed ob = ob\<lparr>ob_state := st, ob_updated_at := completed\<rparr>"

lemma complete_tx_Inr:
  assumes "complete_tx L rid aid completed final db = (Inr u, db')"
    and keyed: "tbl_keyed ob_subject_report_id (sd_outbox db)" "tbl_keyed at_attempt_id (sd_attempts db)"
  obtains s a ids where "load_snapshot L rid db = Inr s" "sn_attempt s = Some (a, ids)"
    "ob_state (sn_outbox s) = DPrepared" "at_attempt_id a = aid"
    "db' = db\<lparr>sd_attempts := tbl_update at_attempt_id aid (settle_attempt final completed) (sd_attempts db),
       sd_outbox := tbl_update ob_subject_report_id rid (settle_outbox (fst final) completed) (sd_outbox db)\<rparr>"
proof -
  obtain st body code detail where f: "final = (st, body, code, detail)" by (cases final)
  obtain s where s: "load_snapshot L rid db = Inr s"
    using assms(1) by (cases "load_snapshot L rid db") (auto simp: complete_tx_def immediate_tx_Inr)
  obtain a ids where a: "sn_attempt s = Some (a, ids)"
    using assms(1) s by (cases "sn_attempt s") (auto simp: complete_tx_def immediate_tx_Inr)
  note sa = snapshot_attempt(2) [OF s a]
  let ?c = "sr_content_sha256 (sn_report s)"
  let ?P = "\<lambda>a. at_subject_report_id a = rid \<and> at_state a = DPrepared \<and> at_content_sha256 a = ?c"
  let ?Q = "\<lambda>ob. ob_state ob = DPrepared \<and> ob_current_attempt_id ob = Some aid \<and> ob_content_sha256 ob = ?c"
  have g: "ob_state (sn_outbox s) = DPrepared" "at_attempt_id a = aid" "at_state a = DPrepared"
    using assms(1) s a by (auto simp: complete_tx_def immediate_tx_Inr Let_def f split: if_splits)
  have "db' = db\<lparr>sd_attempts := map (\<lambda>a. if at_attempt_id a = aid \<and> ?P a then settle_attempt final completed a else a) (sd_attempts db),
      sd_outbox := map (\<lambda>ob. if ob_subject_report_id ob = rid \<and> ?Q ob then settle_outbox st completed ob else ob) (sd_outbox db)\<rparr>"
    using assms(1) s a by (auto simp: complete_tx_def immediate_tx_Inr Let_def f settle_attempt_def settle_outbox_def split: if_splits)
  moreover have "map (\<lambda>a. if at_attempt_id a = aid \<and> ?P a then settle_attempt final completed a else a) (sd_attempts db) =
      tbl_update at_attempt_id aid (settle_attempt final completed) (sd_attempts db)"
    by (rule guarded_update [OF keyed(2), of _ a]) (use sa g in \<open>auto simp: find_attempt_def\<close>)
  moreover have "map (\<lambda>ob. if ob_subject_report_id ob = rid \<and> ?Q ob then settle_outbox st completed ob else ob) (sd_outbox db) =
      tbl_update ob_subject_report_id rid (settle_outbox st completed) (sd_outbox db)"
    by (rule guarded_update [OF keyed(1), of _ "sn_outbox s"])
      (use sa g load_snapshot_Inr(2,3) [OF s] in \<open>auto simp: find_outbox_def\<close>)
  ultimately show ?thesis using that [OF s a g(1,2)] f by simp
qed

lemma prepare_tx_Inr:
  assumes "prepare_tx L parent subject p story_count created db = (Inr u, db')"
  obtains
    (found) existing where "same_content parent subject (pr_content p) db = Some existing"
      "sr_subject_report_id existing = pr_report_id p" "sr_story_count existing = story_count" "db' = db"
  | (stored) r ob where "same_content parent subject (pr_content p) db = None"
      "find_report (pr_report_id p) db = None" "find_outbox (pr_report_id p) db = None"
      "r = \<lparr>sr_subject_report_id = pr_report_id p, sr_parent_report_id = parent,
           sr_subject_id = subject, sr_revision = next_revision parent subject db,
           sr_content_sha256 = pr_content p, sr_story_count = story_count, sr_created_at = created\<rparr>"
      "ob = \<lparr>ob_subject_report_id = pr_report_id p, ob_idempotency_key = pr_key p,
           ob_channel = None, ob_recipient_hash = None, ob_content_sha256 = pr_content p,
           ob_state = (if story_count = 0 then DSkipped else DPrepared),
           ob_current_attempt_id = None, ob_created_at = created, ob_updated_at = created\<rparr>"
      "db' = db\<lparr>sd_reports := tbl_insert r (sd_reports db), sd_outbox := tbl_insert ob (sd_outbox db)\<rparr>"
proof (cases "same_content parent subject (pr_content p) db")
  case (Some existing)
  then show ?thesis
    using assms found by (auto simp: prepare_tx_def immediate_tx_Inr split: if_splits)
next
  case None
  let ?r = "\<lparr>sr_subject_report_id = pr_report_id p, sr_parent_report_id = parent,
           sr_subject_id = subject, sr_revision = next_revision parent subject db,
           sr_content_sha256 = pr_content p, sr_story_count = story_count, sr_created_at = created\<rparr>"
  have i: "insert_report ?r db = (Inr (), db\<lparr>sd_reports := tbl_insert ?r (sd_reports db)\<rparr>)" "find_report (pr_report_id p) db = None"
    using assms None
    by (cases "insert_report ?r db"; cases "fst (insert_report ?r db)";
        auto simp: prepare_tx_def immediate_tx_Inr insert_report_def split: if_splits)+
  show ?thesis
    by (rule stored [OF None i(2) _ refl refl])
      (use assms None i(1) in \<open>auto simp: prepare_tx_def immediate_tx_Inr insert_outbox_def find_outbox_def split: if_splits\<close>)
qed

section \<open>The outbox invariant\<close>

definition outbox_bound :: "delivery_db \<Rightarrow> outbox_row \<Rightarrow> bool" where
  "outbox_bound db ob \<longleftrightarrow>
     (case ob_current_attempt_id ob of
        None \<Rightarrow> (\<forall>a \<in> set (sd_attempts db). at_subject_report_id a \<noteq> ob_subject_report_id ob)
      | Some aid \<Rightarrow> (\<exists>a. find_attempt aid db = Some a \<and> at_subject_report_id a = ob_subject_report_id ob \<and>
           at_state a = ob_state ob \<and> ob_recipient_hash ob = Some (at_recipient_hash a) \<and> ob_channel ob \<noteq> None \<and>
           (\<forall>b \<in> set (sd_attempts db). at_subject_report_id b = ob_subject_report_id ob \<longrightarrow> b \<noteq> a \<longrightarrow>
              at_state b = DFailed \<and> at_ordinal b < at_ordinal a)))"

definition delivery_ok :: "delivery_db \<Rightarrow> bool" where
  "delivery_ok db \<longleftrightarrow> tbl_keyed ob_subject_report_id (sd_outbox db) \<and> tbl_keyed at_attempt_id (sd_attempts db) \<and>
     (\<forall>a \<in> set (sd_attempts db). find_outbox (at_subject_report_id a) db \<noteq> None) \<and>
     (\<forall>ob \<in> set (sd_outbox db). outbox_bound db ob)"

lemma next_ordinal_greater:
  "a \<in> set (sd_attempts db) \<Longrightarrow> at_subject_report_id a = rid \<Longrightarrow> at_ordinal a < next_ordinal rid db"
  unfolding next_ordinal_def by (intro zless_add1_eq [THEN iffD2] le_imp_less_or_eq Max_ge) auto

lemma delivery_ok_outbox:
  assumes "delivery_ok db" "find_outbox rid db = Some ob"
  shows "outbox_bound db ob" "ob_subject_report_id ob = rid"
  using assms by (auto simp: delivery_ok_def find_outbox_def dest: tbl_find_SomeD)

lemma ok_prepare:
  assumes ok: "delivery_ok db" and new: "find_outbox (ob_subject_report_id ob) db = None"
    and fresh: "ob_current_attempt_id ob = None"
  shows "delivery_ok (db\<lparr>sd_reports := rs, sd_outbox := tbl_insert ob (sd_outbox db)\<rparr>)"
proof -
  let ?db = "db\<lparr>sd_reports := rs, sd_outbox := tbl_insert ob (sd_outbox db)\<rparr>"
  have fa: "find_attempt aid ?db = find_attempt aid db" for aid by (simp add: find_attempt_def)
  have old: "outbox_bound ?db x = outbox_bound db x" for x
    by (cases "ob_current_attempt_id x") (simp_all add: outbox_bound_def fa)
  have "at_subject_report_id a \<noteq> ob_subject_report_id ob" if "a \<in> set (sd_attempts db)" for a
    using ok new that by (auto simp: delivery_ok_def)
  then have "outbox_bound db ob" using fresh by (simp add: outbox_bound_def)
  moreover have "find_outbox k ?db \<noteq> None" if "find_outbox k db \<noteq> None" for k
    using that by (auto simp: find_outbox_def tbl_find_insert)
  ultimately show ?thesis
    using ok new tbl_keyed_insert [of ob_subject_report_id "sd_outbox db" ob]
    by (auto simp: delivery_ok_def old find_outbox_def)
qed

lemma tbl_find_unique:
  "tbl_keyed key rows \<Longrightarrow> tbl_find key k rows = Some r \<Longrightarrow> x \<in> set rows \<Longrightarrow> key x = k \<Longrightarrow> x = r"
  using tbl_find_Some by (metis option.inject)

lemma find_after_start:
  assumes "find_attempt (at_attempt_id a) db = None"
    and "db' = db\<lparr>sd_attempts := tbl_insert a (sd_attempts db), sd_outbox := tbl_update ob_subject_report_id rid f (sd_outbox db)\<rparr>"
    and "\<And>ob. ob_subject_report_id (f ob) = ob_subject_report_id ob"
  shows "find_attempt k db' = (if k = at_attempt_id a then Some a else find_attempt k db)"
    and "find_outbox r db' = (if r = rid then map_option f (find_outbox rid db) else find_outbox r db)"
  using assms
  by (auto simp: find_attempt_def find_outbox_def attempt_table.lookup_ins outbox_table.lookup_upd)

lemma ok_start:
  assumes ok: "delivery_ok db" and ob: "find_outbox rid db = Some ob"
    and free: "ob_current_attempt_id ob = None \<or> ob_state ob = DFailed"
    and a: "find_attempt (at_attempt_id a) db = None" "at_subject_report_id a = rid"
      "at_ordinal a = next_ordinal rid db" "at_state a = DPrepared" "at_recipient_hash a = recipient"
    and db': "db' = db\<lparr>sd_attempts := tbl_insert a (sd_attempts db),
       sd_outbox := tbl_update ob_subject_report_id rid (bind_attempt channel recipient (at_attempt_id a) prepared) (sd_outbox db)\<rparr>"
  shows "delivery_ok db'"
proof -
  have fb: "ob_subject_report_id (bind_attempt channel recipient (at_attempt_id a) prepared x) = ob_subject_report_id x" for x
    by (simp add: bind_attempt_def)
  note fd = find_after_start [OF a(1) db' fb]
  have at': "set (sd_attempts db') = insert a (set (sd_attempts db))" by (simp add: db')
  have failed: "at_state b = DFailed" if "b \<in> set (sd_attempts db)" "at_subject_report_id b = rid" for b
    using delivery_ok_outbox [OF ok ob] free that
    by (cases "ob_current_attempt_id ob") (fastforce simp: outbox_bound_def)+
  have new: "outbox_bound db' (bind_attempt channel recipient (at_attempt_id a) prepared x)" if "ob_subject_report_id x = rid" for x
    using that failed next_ordinal_greater [of _ db rid] a
    by (auto simp: outbox_bound_def bind_attempt_def fd(1) at')
  have others: "outbox_bound db' x" if "x \<in> set (sd_outbox db)" "ob_subject_report_id x \<noteq> rid" for x
  proof -
    have "outbox_bound db x" using ok that by (simp add: delivery_ok_def)
    then show ?thesis using that a(1,2)
      by (cases "ob_current_attempt_id x") (auto simp: outbox_bound_def fd(1) at')
  qed
  have "outbox_bound db' x" if "x \<in> set (sd_outbox db')" for x
    using that new others by (auto simp: db' set_tbl_update fb split: if_splits)
  moreover have "find_outbox (at_subject_report_id b) db' \<noteq> None" if "b \<in> set (sd_attempts db')" for b
    using that ok ob a(2) by (auto simp: at' fd(2) delivery_ok_def)
  moreover have "tbl_keyed at_attempt_id (sd_attempts db')" "tbl_keyed ob_subject_report_id (sd_outbox db')"
    using ok a(1) by (simp_all add: db' delivery_ok_def tbl_keyed_insert tbl_keyed_update fb find_attempt_def)
  ultimately show ?thesis by (simp add: delivery_ok_def)
qed

lemma find_after_complete:
  assumes "db' = db\<lparr>sd_attempts := tbl_update at_attempt_id aid f (sd_attempts db),
       sd_outbox := tbl_update ob_subject_report_id rid g (sd_outbox db)\<rparr>"
    and "\<And>a. at_attempt_id (f a) = at_attempt_id a" "\<And>ob. ob_subject_report_id (g ob) = ob_subject_report_id ob"
  shows "find_attempt k db' = (if k = aid then map_option f (find_attempt aid db) else find_attempt k db)"
    and "find_outbox r db' = (if r = rid then map_option g (find_outbox rid db) else find_outbox r db)"
  using assms by (auto simp: find_attempt_def find_outbox_def attempt_table.lookup_upd outbox_table.lookup_upd)

lemma settle_simps [simp]:
  "at_attempt_id (settle_attempt final completed a) = at_attempt_id a"
  "at_subject_report_id (settle_attempt final completed a) = at_subject_report_id a"
  "at_ordinal (settle_attempt final completed a) = at_ordinal a"
  "at_recipient_hash (settle_attempt final completed a) = at_recipient_hash a"
  "at_state (settle_attempt final completed a) = fst final"
  "ob_subject_report_id (settle_outbox st completed ob) = ob_subject_report_id ob"
  "ob_state (settle_outbox st completed ob) = st"
  "ob_current_attempt_id (settle_outbox st completed ob) = ob_current_attempt_id ob"
  "ob_recipient_hash (settle_outbox st completed ob) = ob_recipient_hash ob"
  "ob_channel (settle_outbox st completed ob) = ob_channel ob"
  by (simp_all add: settle_attempt_def settle_outbox_def split: prod.splits)

lemma ok_complete:
  assumes ok: "delivery_ok db" and ob: "find_outbox rid db = Some ob" "ob_current_attempt_id ob = Some aid"
    and db': "db' = db\<lparr>sd_attempts := tbl_update at_attempt_id aid (settle_attempt final completed) (sd_attempts db),
       sd_outbox := tbl_update ob_subject_report_id rid (settle_outbox (fst final) completed) (sd_outbox db)\<rparr>"
  shows "delivery_ok db'"
proof -
  note fd = find_after_complete [OF db' settle_simps(1,6)]
  obtain a where a: "find_attempt aid db = Some a" "at_subject_report_id a = rid" "at_attempt_id a = aid"
    using delivery_ok_outbox [OF ok ob(1)] ob(2) by (auto simp: outbox_bound_def find_attempt_def dest: tbl_find_SomeD)
  have keyed: "tbl_keyed at_attempt_id (sd_attempts db)" using ok by (simp add: delivery_ok_def)
  have only: "b = a" if "b \<in> set (sd_attempts db)" "at_attempt_id b = aid" for b
    using tbl_find_unique [OF keyed a(1) [unfolded find_attempt_def] that] .
  have at': "set (sd_attempts db') = (\<lambda>b. if at_attempt_id b = aid then settle_attempt final completed b else b) ` set (sd_attempts db)"
    by (simp add: db' set_tbl_update)
  have bound: "outbox_bound db' (if ob_subject_report_id x = rid then settle_outbox (fst final) completed x else x)"
    if x: "x \<in> set (sd_outbox db)" for x
  proof (cases "ob_subject_report_id x = rid")
    case True
    have "tbl_keyed ob_subject_report_id (sd_outbox db)" using ok by (simp add: delivery_ok_def)
    then have "x = ob" using tbl_find_unique [OF _ ob(1) [unfolded find_outbox_def] x True] by blast
    then show ?thesis
      using delivery_ok_outbox [OF ok ob(1)] ob(2) a True only
      by (fastforce simp: outbox_bound_def fd(1) at')
  next
    case False
    then have xb: "outbox_bound db x" using ok x by (simp add: delivery_ok_def)
    have na: "at_attempt_id b = aid \<Longrightarrow> at_subject_report_id b = rid" if "b \<in> set (sd_attempts db)" for b
      using only that a(2) by blast
    show ?thesis
    proof (cases "ob_current_attempt_id x")
      case None
      then show ?thesis using xb False by (auto simp: outbox_bound_def at')
    next
      case (Some c)
      then obtain ca where ca: "find_attempt c db = Some ca" "at_subject_report_id ca = ob_subject_report_id x"
        using xb by (auto simp: outbox_bound_def)
      then have "c \<noteq> aid" using a False by auto
      then show ?thesis using xb False Some na by (fastforce simp: outbox_bound_def fd(1) at')
    qed
  qed
  have "set (sd_outbox db') = (\<lambda>x. if ob_subject_report_id x = rid then settle_outbox (fst final) completed x else x) ` set (sd_outbox db)"
    by (simp add: db' set_tbl_update)
  then have all: "outbox_bound db' y" if "y \<in> set (sd_outbox db')" for y
    using that bound by (metis (no_types, lifting) imageE)
  have "find_outbox (at_subject_report_id b) db' \<noteq> None" if "b \<in> set (sd_attempts db')" for b
    using that ok by (auto simp: at' fd(2) delivery_ok_def split: if_splits)
  moreover have "tbl_keyed ob_subject_report_id (sd_outbox db')" "tbl_keyed at_attempt_id (sd_attempts db')"
    using ok by (simp_all add: delivery_ok_def db' tbl_keyed_update)
  ultimately show ?thesis using all by (simp add: delivery_ok_def)
qed

section \<open>Runs of the outbox\<close>

text \<open>Each operation comes with the reading it made before its transaction, from any store.\<close>

datatype sd_op =
    PrepareReport string string string int string delivery_db
  | StartDelivery string string string string bool delivery_db
  | CompleteDelivery string string string string "string list" "string option" "string option"

fun sd_exec :: "pylib \<Rightarrow> sd_op \<Rightarrow> (delivery_db, snapshot) tx" where
  "sd_exec L (PrepareReport parent subject rendered n created before) db =
     prepare_subject_report L parent subject rendered n created before db"
| "sd_exec L (StartDelivery rid recipient channel prepared retry before) db =
     start_subject_delivery L rid recipient channel prepared retry before db"
| "sd_exec L (CompleteDelivery rid aid state completed ids code detail) db =
     complete_subject_delivery L rid aid state completed ids code detail db"

lemma tx_rollback:
  "prepare_tx L parent subject p n created db = (Inl e, db') \<Longrightarrow> db' = db"
  "start_tx L rid recipient channel stamp initial db = (Inl e, db') \<Longrightarrow> db' = db"
  "complete_tx L rid aid stamp final db = (Inl e, db') \<Longrightarrow> db' = db"
  by (simp_all add: prepare_tx_def start_tx_def complete_tx_def immediate_tx_Inl)

lemma prepare_changes:
  assumes "snd (prepare_subject_report L parent subject rendered n created before db) \<noteq> db"
  shows "\<exists>p. prepare_tx L parent subject p n created db =
    (Inr (), snd (prepare_subject_report L parent subject rendered n created before db))"
  using assms unfolding prepare_subject_report_def
  by (auto dest: tx_rollback(1) split: sum.splits option.splits prod.splits if_splits)

lemma start_changes:
  assumes "snd (start_subject_delivery L rid recipient channel stamp retry before db) \<noteq> db"
  shows "\<exists>initial. start_decide recipient channel retry initial = Inr False \<and>
    start_tx L rid recipient channel stamp initial db =
      (Inr (), snd (start_subject_delivery L rid recipient channel stamp retry before db))"
  using assms unfolding start_subject_delivery_def
  by (auto dest: tx_rollback(2) split: sum.splits prod.splits bool.splits)

lemma complete_changes:
  assumes "snd (complete_subject_delivery L rid aid state stamp ids code detail db) \<noteq> db"
  shows "\<exists>final. complete_tx L rid aid stamp final db =
      (Inr (), snd (complete_subject_delivery L rid aid state stamp ids code detail db))"
  using assms unfolding complete_subject_delivery_def
  by (auto dest: tx_rollback(3) split: sum.splits prod.splits)

lemma start_decide_go:
  assumes "start_decide recipient channel retry s = Inr False"
  shows "ob_state (sn_outbox s) \<notin> {DSent, DAmbiguous, DSkipped}" "sn_attempt s = None \<or> ob_state (sn_outbox s) = DFailed"
    "ob_channel (sn_outbox s) \<in> {None, Some channel}" "ob_recipient_hash (sn_outbox s) \<in> {None, Some recipient}"
proof -
  have "ob_state (sn_outbox s) \<notin> {DSent, DAmbiguous, DSkipped} \<and> \<not> (ob_state (sn_outbox s) = DPrepared \<and> sn_attempt s \<noteq> None) \<and>
    (ob_channel (sn_outbox s) = None \<or> ob_channel (sn_outbox s) = Some channel) \<and>
    (ob_recipient_hash (sn_outbox s) = None \<or> ob_recipient_hash (sn_outbox s) = Some recipient)"
    using assms unfolding start_decide_def Let_def by (simp only: split: if_splits) blast+
  then show "ob_state (sn_outbox s) \<notin> {DSent, DAmbiguous, DSkipped}" "sn_attempt s = None \<or> ob_state (sn_outbox s) = DFailed"
    "ob_channel (sn_outbox s) \<in> {None, Some channel}" "ob_recipient_hash (sn_outbox s) \<in> {None, Some recipient}"
    by (blast intro: delivery_state.exhaust)+
qed

lemma sd_exec_cases:
  assumes ok: "delivery_ok db"
  obtains
    (same) "snd (sd_exec L c db) = db"
  | (prepared) ob rs where "find_outbox (ob_subject_report_id ob) db = None" "ob_current_attempt_id ob = None"
      "snd (sd_exec L c db) = db\<lparr>sd_reports := rs, sd_outbox := tbl_insert ob (sd_outbox db)\<rparr>"
  | (started) rid ob a recipient channel stamp where "find_outbox rid db = Some ob"
      "ob_state ob \<notin> {DSent, DAmbiguous, DSkipped}" "ob_current_attempt_id ob = None \<or> ob_state ob = DFailed"
      "ob_channel ob \<in> {None, Some channel}" "ob_recipient_hash ob \<in> {None, Some recipient}"
      "find_attempt (at_attempt_id a) db = None" "at_subject_report_id a = rid" "at_ordinal a = next_ordinal rid db"
      "at_state a = DPrepared" "at_recipient_hash a = recipient"
      "snd (sd_exec L c db) = db\<lparr>sd_attempts := tbl_insert a (sd_attempts db),
         sd_outbox := tbl_update ob_subject_report_id rid (bind_attempt channel recipient (at_attempt_id a) stamp) (sd_outbox db)\<rparr>"
  | (completed) rid ob aid final stamp where "find_outbox rid db = Some ob" "ob_state ob = DPrepared"
      "ob_current_attempt_id ob = Some aid"
      "snd (sd_exec L c db) = db\<lparr>sd_attempts := tbl_update at_attempt_id aid (settle_attempt final stamp) (sd_attempts db),
         sd_outbox := tbl_update ob_subject_report_id rid (settle_outbox (fst final) stamp) (sd_outbox db)\<rparr>"
proof -
  have keyed: "tbl_keyed ob_subject_report_id (sd_outbox db)" "tbl_keyed at_attempt_id (sd_attempts db)"
    using ok by (simp_all add: delivery_ok_def)
  show ?thesis
  proof (cases c)
    case (PrepareReport parent subject rendered n created before)
    show ?thesis
    proof (cases "snd (sd_exec L c db) = db")
      case False
      then obtain p db' where p: "prepare_tx L parent subject p n created db = (Inr (), db')"
        and res: "snd (sd_exec L c db) = db'"
        using PrepareReport prepare_changes by fastforce
      from p show ?thesis
      proof (cases rule: prepare_tx_Inr)
        case (found existing)
        then show ?thesis using False res by simp
      next
        case (stored r ob)
        then show ?thesis using prepared [of ob] res by simp
      qed
    qed (rule same)
  next
    case (StartDelivery rid recipient channel stamp retry before)
    show ?thesis
    proof (cases "snd (sd_exec L c db) = db")
      case False
      then obtain initial db' where tx: "start_tx L rid recipient channel stamp initial db = (Inr (), db')"
        and dec: "start_decide recipient channel retry initial = Inr False" and res: "snd (sd_exec L c db) = db'"
        using StartDelivery start_changes by fastforce
      from tx show ?thesis
      proof (rule start_tx_Inr [OF _ keyed(1)])
        fix a assume a: "load_snapshot L rid db = Inr initial" "find_attempt (at_attempt_id a) db = None"
          "at_subject_report_id a = rid" "at_ordinal a = next_ordinal rid db" "at_state a = DPrepared"
          "at_recipient_hash a = recipient"
          and eff: "db' = db\<lparr>sd_attempts := tbl_insert a (sd_attempts db),
            sd_outbox := tbl_update ob_subject_report_id rid (bind_attempt channel recipient (at_attempt_id a) stamp) (sd_outbox db)\<rparr>"
        have "ob_current_attempt_id (sn_outbox initial) = None \<or> ob_state (sn_outbox initial) = DFailed"
          using start_decide_go(2) [OF dec] snapshot_attempt(1) [OF a(1)] by blast
        then show ?thesis
          by (rule started [OF load_snapshot_Inr(2) [OF a(1)] start_decide_go(1) [OF dec] _
              start_decide_go(3,4) [OF dec] a(2-6) res [unfolded eff]])
      qed
    qed (rule same)
  next
    case (CompleteDelivery rid aid state stamp ids code detail)
    show ?thesis
    proof (cases "snd (sd_exec L c db) = db")
      case False
      then obtain final db' where tx: "complete_tx L rid aid stamp final db = (Inr (), db')"
        and res: "snd (sd_exec L c db) = db'"
        using CompleteDelivery complete_changes by fastforce
      from tx show ?thesis
      proof (rule complete_tx_Inr [OF _ keyed])
        fix s a ids' assume s: "load_snapshot L rid db = Inr s" "sn_attempt s = Some (a, ids')"
          "ob_state (sn_outbox s) = DPrepared" "at_attempt_id a = aid"
          and eff: "db' = db\<lparr>sd_attempts := tbl_update at_attempt_id aid (settle_attempt final stamp) (sd_attempts db),
             sd_outbox := tbl_update ob_subject_report_id rid (settle_outbox (fst final) stamp) (sd_outbox db)\<rparr>"
        show ?thesis
          using completed [OF load_snapshot_Inr(2) [OF s(1)] s(3)] snapshot_attempt(2) [OF s(1,2)] s(4) res eff by auto
      qed
    qed (rule same)
  qed
qed

lemma delivery_ok_exec:
  assumes ok: "delivery_ok db"
  shows "delivery_ok (snd (sd_exec L c db))"
  using ok
proof (cases rule: sd_exec_cases [where L = L and c = c])
  case same
  then show ?thesis using ok by simp
next
  case (prepared ob rs)
  then show ?thesis using ok_prepare [OF ok] by simp
next
  case (started rid ob a recipient channel stamp)
  show ?thesis by (rule ok_start [OF ok started(1,3,6-11)])
next
  case (completed rid ob aid final stamp)
  show ?thesis by (rule ok_complete [OF ok completed(1,3,4)])
qed

lemma delivery_ok_run: "delivery_ok db \<Longrightarrow> delivery_ok (run_ops (sd_exec L) cs db)"
  by (induction cs arbitrary: db) (auto intro: delivery_ok_exec)

definition live_attempts :: "string \<Rightarrow> delivery_db \<Rightarrow> attempt_row list" where
  "live_attempts rid db = filter (\<lambda>a. at_subject_report_id a = rid \<and> at_state a \<noteq> DFailed) (sd_attempts db)"

lemma live_at_most_one:
  assumes "delivery_ok db"
  shows "length (live_attempts rid db) \<le> 1"
proof -
  have d: "distinct (live_attempts rid db)"
    using assms by (auto simp: live_attempts_def delivery_ok_def tbl_keyed_def distinct_map)
  have "\<exists>a. set (live_attempts rid db) \<subseteq> {a}"
  proof (cases "find_outbox rid db")
    case None
    then have "set (live_attempts rid db) = {}"
      using assms by (auto simp: live_attempts_def delivery_ok_def)
    then show ?thesis by simp
  next
    case (Some ob)
    note ob = delivery_ok_outbox [OF assms Some]
    show ?thesis
    proof (cases "ob_current_attempt_id ob")
      case None
      then have "set (live_attempts rid db) = {}" using ob by (auto simp: live_attempts_def outbox_bound_def)
      then show ?thesis by simp
    next
      case (Some aid)
      then obtain a where "\<forall>b \<in> set (sd_attempts db). at_subject_report_id b = rid \<longrightarrow> b \<noteq> a \<longrightarrow> at_state b = DFailed"
        using ob by (auto simp: outbox_bound_def)
      then have "set (live_attempts rid db) \<subseteq> {a}" by (auto simp: live_attempts_def)
      then show ?thesis by blast
    qed
  qed
  then have "card (set (live_attempts rid db)) \<le> 1"
    using card_mono [of "{_}"] by fastforce
  then show ?thesis using distinct_card [OF d] by simp
qed

text \<open>
  C4: A report is never in flight twice: whatever operations run, in any order and with any
  stale readings made before their transactions, each subject report has at most one delivery
  attempt that is prepared, sent or ambiguous; every other attempt is recorded as failed.
\<close>

theorem at_most_one_live_attempt:
  assumes "sd_outbox db = []" "sd_attempts db = []"
  shows "length (filter (\<lambda>a. at_subject_report_id a = rid \<and> at_state a \<noteq> DFailed)
    (sd_attempts (run_ops (sd_exec L) cs db))) \<le> 1"
proof -
  have "delivery_ok db" using assms by (simp add: delivery_ok_def)
  then show ?thesis using live_at_most_one [OF delivery_ok_run] by (simp add: live_attempts_def)
qed

section \<open>What stays fixed\<close>

definition outbox_le :: "outbox_row \<Rightarrow> outbox_row \<Rightarrow> bool" where
  "outbox_le ob ob' \<longleftrightarrow> ob_content_sha256 ob' = ob_content_sha256 ob \<and> ob_idempotency_key ob' = ob_idempotency_key ob \<and>
     (ob_channel ob \<noteq> None \<longrightarrow> ob_channel ob' = ob_channel ob) \<and>
     (ob_recipient_hash ob \<noteq> None \<longrightarrow> ob_recipient_hash ob' = ob_recipient_hash ob) \<and>
     (ob_state ob \<in> {DSent, DAmbiguous, DSkipped} \<longrightarrow> ob' = ob)"

definition report_attempts :: "string \<Rightarrow> delivery_db \<Rightarrow> attempt_row set" where
  "report_attempts rid db = {a \<in> set (sd_attempts db). at_subject_report_id a = rid}"

definition outbox_history :: "string \<Rightarrow> outbox_row \<Rightarrow> attempt_row set \<Rightarrow> delivery_db \<Rightarrow> bool" where
  "outbox_history rid ob as db \<longleftrightarrow> (\<exists>ob'. find_outbox rid db = Some ob' \<and> outbox_le ob ob' \<and>
     (ob_state ob \<in> {DSent, DAmbiguous, DSkipped} \<longrightarrow> report_attempts rid db = as))"

lemma outbox_le_trans: "outbox_le a b \<Longrightarrow> outbox_le b c \<Longrightarrow> outbox_le a c"
  by (auto simp: outbox_le_def)

lemma outbox_history_step:
  assumes ok: "delivery_ok db" and f: "find_outbox rid db = Some ob"
  shows "outbox_history rid ob (report_attempts rid db) (snd (sd_exec L c db))"
  using ok
proof (cases rule: sd_exec_cases [where L = L and c = c])
  case same
  then show ?thesis using f by (simp add: outbox_history_def outbox_le_def)
next
  case (prepared nob rs)
  then show ?thesis
    using f by (auto simp: outbox_history_def outbox_le_def find_outbox_def tbl_find_insert report_attempts_def)
next
  case (started rid' ob' a recipient channel stamp)
  let ?f = "bind_attempt channel recipient (at_attempt_id a) stamp"
  note fd = find_after_start [OF started(6) started(11), of rid]
  have id: "ob_subject_report_id (?f x) = ob_subject_report_id x" for x by (simp add: bind_attempt_def)
  show ?thesis
  proof (cases "rid' = rid")
    case True
    then have "ob' = ob" using f started(1) by simp
    then show ?thesis
      using True f started(2,4,5) find_after_start(2) [OF started(6) started(11) id, of rid]
      by (auto simp: outbox_history_def outbox_le_def bind_attempt_def)
  next
    case False
    then show ?thesis
      using f started(7) find_after_start(2) [OF started(6) started(11) id, of rid]
      by (auto simp: outbox_history_def outbox_le_def report_attempts_def started(11))
  qed
next
  case (completed rid' ob' aid final stamp)
  have fo: "find_outbox rid (snd (sd_exec L c db)) =
      (if rid = rid' then map_option (settle_outbox (fst final) stamp) (find_outbox rid' db) else find_outbox rid db)"
    by (rule find_after_complete(2) [OF completed(4)]) simp_all
  show ?thesis
  proof (cases "rid' = rid")
    case True
    then have "ob' = ob" using f completed(1) by simp
    then show ?thesis using True f completed(2) fo by (auto simp: outbox_history_def outbox_le_def settle_outbox_def)
  next
    case False
    obtain a where a: "find_attempt aid db = Some a" "at_subject_report_id a = rid'"
      using delivery_ok_outbox [OF ok completed(1)] completed(3) by (auto simp: outbox_bound_def)
    have keyed: "tbl_keyed at_attempt_id (sd_attempts db)" using ok by (simp add: delivery_ok_def)
    have other: "at_attempt_id b \<noteq> aid" if "b \<in> set (sd_attempts db)" "at_subject_report_id b = rid" for b
      using tbl_find_unique [OF keyed a(1) [unfolded find_attempt_def] that(1)] a(2) that(2) False by auto
    have "report_attempts rid (snd (sd_exec L c db)) = report_attempts rid db"
    proof (intro set_eqI iffI)
      fix b assume b: "b \<in> report_attempts rid (snd (sd_exec L c db))"
      then obtain x where x: "x \<in> set (sd_attempts db)"
          "b = (if at_attempt_id x = aid then settle_attempt final stamp x else x)"
        by (auto simp: report_attempts_def completed(4) set_tbl_update)
      moreover have rid: "at_subject_report_id x = rid"
        using b x(2) by (cases "at_attempt_id x = aid") (auto simp: report_attempts_def settle_simps)
      ultimately show "b \<in> report_attempts rid db"
        using other [OF x(1) rid] by (simp add: report_attempts_def)
    next
      fix b assume b: "b \<in> report_attempts rid db"
      then have "at_attempt_id b \<noteq> aid" using other by (auto simp: report_attempts_def)
      then show "b \<in> report_attempts rid (snd (sd_exec L c db))"
        using b by (auto simp: report_attempts_def completed(4) set_tbl_update image_iff)
    qed
    then show ?thesis using False f fo by (simp add: outbox_history_def outbox_le_def)
  qed
qed

text \<open>
  What the outbox has committed to stays: in every run from a consistent outbox, a report's
  content and idempotency key never change, a channel or recipient once bound is never rebound,
  and a report that was sent, is ambiguous or was skipped keeps its outbox row and its attempts
  for ever.
\<close>

theorem outbox_commitments:
  assumes ok: "delivery_ok db" and f: "find_outbox rid db = Some ob"
  shows "\<exists>ob'. find_outbox rid (run_ops (sd_exec L) cs db) = Some ob' \<and>
    ob_content_sha256 ob' = ob_content_sha256 ob \<and> ob_idempotency_key ob' = ob_idempotency_key ob \<and>
    (ob_channel ob \<noteq> None \<longrightarrow> ob_channel ob' = ob_channel ob) \<and>
    (ob_recipient_hash ob \<noteq> None \<longrightarrow> ob_recipient_hash ob' = ob_recipient_hash ob) \<and>
    (ob_state ob \<in> {DSent, DAmbiguous, DSkipped} \<longrightarrow>
       ob' = ob \<and> report_attempts rid (run_ops (sd_exec L) cs db) = report_attempts rid db)"
proof -
  have "outbox_history rid ob (report_attempts rid db) (run_ops (sd_exec L) cs s)"
    if "delivery_ok s" "outbox_history rid ob (report_attempts rid db) s" for s
    using that
  proof (induction cs arbitrary: s)
    case (Cons c cs)
    from Cons.prems(2) obtain o1 where o1: "find_outbox rid s = Some o1" "outbox_le ob o1"
      "ob_state ob \<in> {DSent, DAmbiguous, DSkipped} \<longrightarrow> report_attempts rid s = report_attempts rid db"
      by (auto simp: outbox_history_def)
    have "outbox_history rid o1 (report_attempts rid s) (snd (sd_exec L c s))"
      by (rule outbox_history_step [OF Cons.prems(1) o1(1)])
    then obtain o2 where o2: "find_outbox rid (snd (sd_exec L c s)) = Some o2" "outbox_le o1 o2"
      "ob_state o1 \<in> {DSent, DAmbiguous, DSkipped} \<longrightarrow> report_attempts rid (snd (sd_exec L c s)) = report_attempts rid s"
      by (auto simp: outbox_history_def)
    have "outbox_history rid ob (report_attempts rid db) (snd (sd_exec L c s))"
      unfolding outbox_history_def using o1 o2 outbox_le_trans [OF o1(2) o2(2)]
      by (intro exI [of _ o2]) (auto simp: outbox_le_def)
    then show ?case using Cons.IH [OF delivery_ok_exec [OF Cons.prems(1)]] by simp
  qed simp
  moreover have "outbox_history rid ob (report_attempts rid db) db"
    using f by (simp add: outbox_history_def outbox_le_def)
  ultimately show ?thesis using ok unfolding outbox_history_def outbox_le_def by blast
qed

section \<open>Replays and receipts\<close>

lemma prepare_args_created:
  assumes "prepare_args L parent subject rendered n created = Inr p" and "canonical_timestamp L created' = Inr x"
  shows "prepare_args L parent subject rendered n created' = Inr p"
  using assms by (auto simp: prepare_args_def Let_def split: if_splits)

lemma same_content_stored:
  assumes "same_content parent subject content db = None"
    and "sr_parent_report_id r = parent" "sr_subject_id r = subject" "sr_content_sha256 r = content"
  shows "same_content parent subject content (db\<lparr>sd_reports := tbl_insert r (sd_reports db), sd_outbox := obs\<rparr>) = Some r"
  using assms by (simp add: same_content_def tbl_find_insert)

text \<open>
  Preparing a report is idempotent: once it has succeeded, preparing the same content again,
  at any later time, returns the same snapshot and leaves the store as it is.
\<close>

theorem prepare_idempotent:
  assumes first: "prepare_subject_report L parent subject rendered n created db db = (Inr s, db1)"
    and "canonical_timestamp L created' = Inr x"
  shows "prepare_subject_report L parent subject rendered n created' db1 db1 = (Inr s, db1)"
proof -
  obtain p where p: "prepare_args L parent subject rendered n created = Inr p"
    using first by (cases "prepare_args L parent subject rendered n created") (auto simp: prepare_subject_report_def)
  have p': "prepare_args L parent subject rendered n created' = Inr p"
    by (rule prepare_args_created [OF p assms(2)])
  have par: "map_of (sd_parents db) parent = Some ''complete''"
    using first p by (simp add: prepare_subject_report_def split: if_splits)
  show ?thesis
  proof (cases "same_content parent subject (pr_content p) db")
    case (Some e)
    then show ?thesis using first p p' par by (auto simp: prepare_subject_report_def split: if_splits)
  next
    case None
    then obtain u where tx: "prepare_tx L parent subject p n created db = (Inr u, db1)"
        and ld: "load_snapshot L (pr_report_id p) db1 = Inr s"
      using first p par by (auto simp: prepare_subject_report_def split: prod.splits sum.splits)
    from tx show ?thesis
    proof (cases rule: prepare_tx_Inr)
      case (stored r ob)
      have "same_content parent subject (pr_content p) db1 = Some r"
        unfolding stored(6) by (rule same_content_stored [OF None]) (simp_all add: stored(4))
      then show ?thesis
        using p' par ld by (simp add: prepare_subject_report_def stored(4)) (simp add: stored(6))
    qed (simp add: None)
  qed
qed

lemma message_ids_ok:
  assumes "json_loads L (json_list_ascii ids) = Some (PList (map PStr ids))"
    and "message_ids L (Some (json_list_ascii ids)) = Inr encoded"
  shows "encoded = ids"
proof -
  have "map_result (\<lambda>x. case x of
      PStr m \<Rightarrow> if m = [] \<or> length m > 256 \<or> list_ex control_char m then Inl DeliveryConflict else Inr m
    | _ \<Rightarrow> Inl DeliveryConflict) (map PStr ids) = Inr encoded \<Longrightarrow> encoded = ids" for encoded
    by (induction ids arbitrary: encoded) (auto split: if_splits sum.splits)
  then show ?thesis using assms by (simp add: message_ids_def)
qed

lemma nonempty_Inr: "nonempty d = Inr d' \<Longrightarrow> d' = d"
  by (auto simp: nonempty_def split: if_splits)

lemma completion_fields_Inr:
  assumes "completion_fields L state ids code detail = Inr final"
    and json: "json_loads L (json_list_ascii ids) = Some (PList (map PStr ids))"
  shows "\<exists>st. final = (st, json_list_ascii ids, code, detail) \<and> st \<in> {DSent, DFailed, DAmbiguous} \<and>
    (st = DSent \<longleftrightarrow> state = ''sent'') \<and> (st = DSent \<longrightarrow> ids \<noteq> [])"
  using assms message_ids_ok [OF json]
  by (cases code; cases detail) (auto simp: completion_fields_def Let_def split: if_splits dest!: nonempty_Inr)

text \<open>
  The receipt of a delivery is what the adapter reported: after a successful completion the
  report's current attempt is the one named, with the given message ids, error code and error
  detail, the outbox row and the attempt are in the same final state, and that state is sent
  exactly if the adapter said so, which it may only with at least one message id.
\<close>

theorem completion_receipt:
  assumes ok: "delivery_ok db"
    and json: "json_loads L (json_list_ascii ids) = Some (PList (map PStr ids))"
    and run: "complete_subject_delivery L rid aid state completed_at ids code detail db = (Inr s, db')"
  shows "\<exists>a. sn_attempt s = Some (a, ids) \<and> at_attempt_id a = aid \<and> at_subject_report_id a = rid \<and>
    at_state a = ob_state (sn_outbox s) \<and> at_state a \<in> {DSent, DFailed, DAmbiguous} \<and>
    (at_state a = DSent \<longleftrightarrow> state = ''sent'') \<and> (state = ''sent'' \<longrightarrow> ids \<noteq> []) \<and>
    at_completed_at a = Some completed_at \<and> at_error_code a = code \<and> at_error_detail a = detail \<and>
    find_attempt aid db' = Some a \<and> find_outbox rid db' = Some (sn_outbox s)"
proof -
  have keyed: "tbl_keyed ob_subject_report_id (sd_outbox db)" "tbl_keyed at_attempt_id (sd_attempts db)"
    using ok by (simp_all add: delivery_ok_def)
  obtain final u where fin: "completion_fields L state ids code detail = Inr final"
      and tx: "complete_tx L rid aid completed_at final db = (Inr u, db')" and ld: "load_snapshot L rid db' = Inr s"
    using run unfolding complete_subject_delivery_def
    by (auto split: sum.splits prod.splits)
  obtain st where st: "final = (st, json_list_ascii ids, code, detail)" "st \<in> {DSent, DFailed, DAmbiguous}"
      "st = DSent \<longleftrightarrow> state = ''sent''" "st = DSent \<longrightarrow> ids \<noteq> []"
    using completion_fields_Inr [OF fin json] by blast
  from tx keyed obtain s0 a0 ids0 where old: "load_snapshot L rid db = Inr s0" "sn_attempt s0 = Some (a0, ids0)"
      "at_attempt_id a0 = aid"
      "db' = db\<lparr>sd_attempts := tbl_update at_attempt_id aid (settle_attempt final completed_at) (sd_attempts db),
       sd_outbox := tbl_update ob_subject_report_id rid (settle_outbox (fst final) completed_at) (sd_outbox db)\<rparr>"
    by (rule complete_tx_Inr)
  note sa = snapshot_attempt(2) [OF old(1,2)]
  note fd = find_after_complete [OF old(4) settle_simps(1,6)]
  have ob: "sn_outbox s = settle_outbox st completed_at (sn_outbox s0)"
    using load_snapshot_Inr(2) [OF ld] load_snapshot_Inr(2) [OF old(1)] fd(2) [of rid] st(1) by simp
  have cur: "ob_current_attempt_id (sn_outbox s) = Some aid" using sa old(3) by (simp add: ob)
  obtain a ids' where a: "sn_attempt s = Some (a, ids')"
    using snapshot_attempt(1) [OF ld] cur by (cases "sn_attempt s") auto
  note sa' = snapshot_attempt(2) [OF ld a]
  have aid: "at_attempt_id a = aid" using sa' cur by simp
  have fa: "find_attempt aid db' = Some (settle_attempt final completed_at a0)"
    using fd(1) [of aid] sa old(3) by simp
  then have eq: "a = settle_attempt final completed_at a0" using sa' aid by simp
  have "ids' = ids"
    using load_snapshot_Inr(4) [OF ld] a cur fa message_ids_ok [OF json]
    by (auto simp: current_attempt_def attempt_record_def eq settle_attempt_def st(1) split: if_splits)
  then show ?thesis
    using a aid sa' fa eq st load_snapshot_Inr(2) [OF ld] by (auto simp: settle_attempt_def)
qed

section \<open>A delivery by example\<close>

definition sd_stamp :: string where
  "sd_stamp = canonical_z 63900000000000000"

definition sd_hash :: string where
  "sd_hash = replicate 64 (CHR ''0'')"

definition sd_lib :: pylib where
  "sd_lib = \<lparr>sha256_hexdigest = (\<lambda>s. sd_hash), fromisoformat_utc = (\<lambda>s. Some 63900000000000000),
     json_loads = (\<lambda>s. if s = json_list_ascii [''m1''] then Some (PList [PStr ''m1'']) else Some (PList [])),
     float_repr = (\<lambda>f. ''0.0''), container_str = (\<lambda>v. ''...'')\<rparr>"

definition sd_empty :: delivery_db where
  "sd_empty = \<lparr>sd_parents = [(''p'', ''complete'')], sd_reports = [], sd_outbox = [], sd_attempts = []\<rparr>"

definition sd_rid :: string where
  "sd_rid = ''subject-report-'' @ sd_hash"

definition sd_report :: report_row where
  "sd_report = \<lparr>sr_subject_report_id = sd_rid, sr_parent_report_id = ''p'', sr_subject_id = ''ai'', sr_revision = 1,
     sr_content_sha256 = sd_hash, sr_story_count = 1, sr_created_at = sd_stamp\<rparr>"

definition sd_ob :: outbox_row where
  "sd_ob = \<lparr>ob_subject_report_id = sd_rid, ob_idempotency_key = sd_hash, ob_channel = None, ob_recipient_hash = None,
     ob_content_sha256 = sd_hash, ob_state = DPrepared, ob_current_attempt_id = None,
     ob_created_at = sd_stamp, ob_updated_at = sd_stamp\<rparr>"

definition sd_at :: attempt_row where
  "sd_at = \<lparr>at_attempt_id = sd_hash, at_subject_report_id = sd_rid, at_ordinal = 1, at_state = DPrepared,
     at_recipient_hash = sd_hash, at_content_sha256 = sd_hash, at_prepared_at = sd_stamp, at_completed_at = None,
     at_message_ids_json = Some ''[]'', at_error_code = None, at_error_detail = None\<rparr>"

definition sd_db1 :: delivery_db where
  "sd_db1 = sd_empty\<lparr>sd_reports := [sd_report], sd_outbox := [sd_ob]\<rparr>"

definition sd_db2 :: delivery_db where
  "sd_db2 = sd_db1\<lparr>sd_outbox := [bind_attempt ''tg'' sd_hash sd_hash sd_stamp sd_ob], sd_attempts := [sd_at]\<rparr>"

definition sd_db3 :: delivery_db where
  "sd_db3 = sd_db2\<lparr>sd_outbox := map (settle_outbox DSent sd_stamp) (sd_outbox sd_db2),
     sd_attempts := [settle_attempt (DSent, json_list_ascii [''m1''], None, None) sd_stamp sd_at]\<rparr>"

lemma sd_stamp_ok [simp]: "canonical_timestamp sd_lib sd_stamp = Inr sd_stamp"
  by (simp add: canonical_timestamp_def sd_stamp_def sd_lib_def canonical_z_def ends_with_append)

lemma sd_hash_ok [simp]: "hash_of sd_hash = Inr sd_hash" "nonempty sd_hash = Inr sd_hash"
  "sha256_hexdigest sd_lib s = sd_hash" "sd_hash \<noteq> []"
  by (simp_all add: sd_hash_def hash_of_def hash_ok_def is_hex_def nonempty_def clean_text_def blank_iff is_space_def
      control_char_def sd_lib_def numeral_eq_Suc)

lemma clean_texts [simp]:
  "nonempty ''p'' = Inr ''p''" "subject_of ''ai'' = Inr ''ai''" "channel_ok ''tg''"
  by (simp_all add: nonempty_def clean_text_def blank_iff is_space_def control_char_def subject_of_def SUBJECTS_def
      channel_ok_def identifier_char_def)

lemma sd_rid_ok [simp]: "nonempty sd_rid = Inr sd_rid"
  by (simp add: sd_rid_def sd_hash_def nonempty_def clean_text_def blank_iff is_space_def control_char_def numeral_eq_Suc)

lemma sd_ids [simp]:
  "subject_report_id sd_lib ''p'' ''ai'' sd_hash = Inr sd_rid"
  "subject_idempotency_key sd_lib ''ai'' sd_rid sd_hash = Inr sd_hash"
  "attempt_id_of sd_lib k n = sd_hash"
  by (simp_all add: subject_report_id_def subject_idempotency_key_def attempt_id_of_def) (simp add: sd_rid_def)

lemma sd_args [simp]:
  "prepare_args sd_lib ''p'' ''ai'' ''hello'' 1 sd_stamp = Inr \<lparr>pr_report_id = sd_rid, pr_key = sd_hash, pr_content = sd_hash\<rparr>"
  by (simp add: prepare_args_def)

lemmas sd_defs = sd_empty_def sd_report_def sd_ob_def sd_at_def sd_db1_def sd_db2_def sd_db3_def
  find_report_def find_outbox_def find_attempt_def bind_attempt_def settle_attempt_def settle_outbox_def

lemma sd_snapshot1: "load_snapshot sd_lib sd_rid sd_db1 = Inr \<lparr>sn_report = sd_report, sn_outbox = sd_ob, sn_attempt = None\<rparr>"
  by (simp add: load_snapshot_def sd_defs report_record_def outbox_record_def current_attempt_def)

lemma sd_prepare: "prepare_subject_report sd_lib ''p'' ''ai'' ''hello'' 1 sd_stamp sd_empty sd_empty =
    (Inr \<lparr>sn_report = sd_report, sn_outbox = sd_ob, sn_attempt = None\<rparr>, sd_db1)"
proof -
  have "prepare_tx sd_lib ''p'' ''ai'' \<lparr>pr_report_id = sd_rid, pr_key = sd_hash, pr_content = sd_hash\<rparr> 1 sd_stamp sd_empty =
      (Inr (), sd_db1)"
    by (simp add: prepare_tx_def immediate_tx_def same_content_def next_revision_def insert_report_def insert_outbox_def
        sd_defs tbl_insert_def)
  then show ?thesis
    using sd_snapshot1 by (simp add: prepare_subject_report_def same_content_def) (simp add: sd_empty_def)
qed

lemma sd_start: "start_subject_delivery sd_lib sd_rid sd_hash ''tg'' sd_stamp False sd_db1 sd_db1 =
    (load_snapshot sd_lib sd_rid sd_db2, sd_db2)"
proof -
  have d: "start_decide sd_hash ''tg'' False \<lparr>sn_report = sd_report, sn_outbox = sd_ob, sn_attempt = None\<rparr> = Inr False"
    by (simp add: start_decide_def sd_ob_def)
  have "start_tx sd_lib sd_rid sd_hash ''tg'' sd_stamp \<lparr>sn_report = sd_report, sn_outbox = sd_ob, sn_attempt = None\<rparr> sd_db1 =
      (Inr (), sd_db2)"
    by (simp add: start_tx_def immediate_tx_def sd_snapshot1 Let_def next_ordinal_def insert_attempt_def)
       (simp add: sd_defs tbl_insert_def)
  then show ?thesis by (simp add: start_subject_delivery_def start_args_def sd_snapshot1 d)
qed

lemma sd_json [simp]: "json_loads sd_lib (json_list_ascii [''m1'']) = Some (PList (map PStr [''m1'']))"
  "json_loads sd_lib ''[]'' = Some (PList [])"
  by (simp_all add: sd_lib_def json_list_ascii_def)

lemma sd_message_ids [simp]: "message_ids sd_lib (Some (json_list_ascii [''m1''])) = Inr [''m1'']"
  "message_ids sd_lib (Some ''[]'') = Inr []"
  by (simp_all add: message_ids_def control_char_def)

lemma sd_snapshot2: "load_snapshot sd_lib sd_rid sd_db2 =
    Inr \<lparr>sn_report = sd_report, sn_outbox = hd (sd_outbox sd_db2), sn_attempt = Some (sd_at, [])\<rparr>"
  by (simp add: load_snapshot_def sd_defs report_record_def outbox_record_def current_attempt_def attempt_record_def)

lemma sd_snapshot3: "load_snapshot sd_lib sd_rid sd_db3 =
    Inr \<lparr>sn_report = sd_report, sn_outbox = hd (sd_outbox sd_db3), sn_attempt = Some (hd (sd_attempts sd_db3), [''m1''])\<rparr>"
  by (simp add: load_snapshot_def sd_defs report_record_def outbox_record_def current_attempt_def attempt_record_def)

lemma sd_complete: "complete_subject_delivery sd_lib sd_rid sd_hash ''sent'' sd_stamp [''m1''] None None sd_db2 =
    (load_snapshot sd_lib sd_rid sd_db3, sd_db3)"
proof -
  have f: "completion_fields sd_lib ''sent'' [''m1''] None None = Inr (DSent, json_list_ascii [''m1''], None, None)"
    by (simp add: completion_fields_def)
  have "complete_tx sd_lib sd_rid sd_hash sd_stamp (DSent, json_list_ascii [''m1''], None, None) sd_db2 = (Inr (), sd_db3)"
    by (simp add: complete_tx_def immediate_tx_def sd_snapshot2 Let_def) (simp add: sd_defs)
  then show ?thesis by (simp add: complete_subject_delivery_def f)
qed

definition sd_ops :: "sd_op list" where
  "sd_ops = [PrepareReport ''p'' ''ai'' ''hello'' 1 sd_stamp sd_empty,
     StartDelivery sd_rid sd_hash ''tg'' sd_stamp False sd_db1,
     CompleteDelivery sd_rid sd_hash ''sent'' sd_stamp [''m1''] None None]"

lemma sd_run: "run_ops (sd_exec sd_lib) sd_ops sd_empty = sd_db3"
  by (simp add: sd_ops_def sd_prepare sd_start sd_complete)

lemma sd_ok: "delivery_ok sd_empty" "delivery_ok sd_db2"
proof -
  show e: "delivery_ok sd_empty" by (simp add: delivery_ok_def sd_empty_def)
  have "run_ops (sd_exec sd_lib) (take 2 sd_ops) sd_empty = sd_db2"
    by (simp add: sd_ops_def sd_prepare sd_start)
  then show "delivery_ok sd_db2" using delivery_ok_run [OF e] by metis
qed

text \<open>One report prepared, sent and completed: it has exactly the one attempt.\<close>

theorem at_most_one_live_attempt_witness:
  "sd_attempts (run_ops (sd_exec sd_lib) sd_ops sd_empty) = sd_attempts sd_db3 \<and>
   length (filter (\<lambda>a. at_subject_report_id a = sd_rid \<and> at_state a \<noteq> DFailed)
     (sd_attempts (run_ops (sd_exec sd_lib) sd_ops sd_empty))) \<le> 1"
  using at_most_one_live_attempt [of sd_empty sd_rid sd_lib sd_ops] by (simp add: sd_run) (simp add: sd_empty_def)

text \<open>The bound report of the example keeps its channel through the completion.\<close>

theorem outbox_commitments_witness:
  "\<exists>ob'. find_outbox sd_rid (run_ops (sd_exec sd_lib) (drop 2 sd_ops) sd_db2) = Some ob' \<and> ob_channel ob' = Some ''tg''"
proof -
  have "find_outbox sd_rid sd_db2 = Some (hd (sd_outbox sd_db2))" "ob_channel (hd (sd_outbox sd_db2)) = Some ''tg''"
    by (simp_all add: sd_defs)
  then show ?thesis using outbox_commitments [OF sd_ok(2), of sd_rid _ sd_lib "drop 2 sd_ops"] by fastforce
qed

theorem prepare_idempotent_witness:
  "prepare_subject_report sd_lib ''p'' ''ai'' ''hello'' 1 sd_stamp sd_db1 sd_db1 =
     (Inr \<lparr>sn_report = sd_report, sn_outbox = sd_ob, sn_attempt = None\<rparr>, sd_db1)"
  by (rule prepare_idempotent [OF sd_prepare sd_stamp_ok])

theorem completion_receipt_witness:
  "\<exists>a. sn_attempt \<lparr>sn_report = sd_report, sn_outbox = hd (sd_outbox sd_db3), sn_attempt = Some (hd (sd_attempts sd_db3), [''m1''])\<rparr> =
     Some (a, [''m1'']) \<and> at_state a = DSent \<and> find_attempt sd_hash sd_db3 = Some a"
  using completion_receipt [OF sd_ok(2) sd_json(1) sd_complete [unfolded sd_snapshot3]] by auto

end
