(* ===== verification/Base64.thy ===== *)
theory Base64
  imports PyValues
begin

text \<open>
  Base64 as the broker protocol uses it: \<open>base64.b64encode(body)\<close> and
  \<open>base64.b64decode(text, validate=True)\<close> of Python 3.11, the interpreter of the project's image.
  Bytes are lists of characters below 256. The decoder is the loop of \<open>binascii.a2b_base64\<close>
  in strict mode, with its position in the quad, the bits left over and the pads seen.

  The locale \<open>codec\<close> states what a client needs of an encoding that can be read back.
\<close>

section \<open>Encodings that can be read back\<close>

locale codec =
  fixes enc :: "'a \<Rightarrow> 'b" and dec :: "'b \<Rightarrow> 'a option" and ok :: "'a \<Rightarrow> bool"
  assumes dec_enc: "ok x \<Longrightarrow> dec (enc x) = Some x"
begin

lemma enc_inject: "ok x \<Longrightarrow> ok y \<Longrightarrow> enc x = enc y \<longleftrightarrow> x = y"
  by (metis dec_enc option.inject)

lemma dec_unique: "ok x \<Longrightarrow> dec (enc x) = Some y \<Longrightarrow> y = x"
  by (simp add: dec_enc)

end

section \<open>The alphabet\<close>

definition b64_char :: "nat \<Rightarrow> char" where
  "b64_char n = (if n < 26 then char_of (65 + n) else if n < 52 then char_of (71 + n)
     else if n < 62 then char_of (n - 4) else if n = 62 then CHR ''+'' else CHR ''/'')"

definition b64_val :: "char \<Rightarrow> nat option" where
  "b64_val c = (let n = (of_char c :: nat) in
     if 65 \<le> n \<and> n \<le> 90 then Some (n - 65)
     else if 97 \<le> n \<and> n \<le> 122 then Some (n - 71)
     else if 48 \<le> n \<and> n \<le> 57 then Some (n + 4)
     else if n = 43 then Some 62
     else if n = 47 then Some 63
     else None)"

lemma b64_val_char [simp]: "n < 64 \<Longrightarrow> b64_val (b64_char n) = Some n"
  by (auto simp: b64_val_def b64_char_def Let_def)

lemma b64_char_no_pad [simp]: "n < 64 \<Longrightarrow> b64_char n \<noteq> CHR ''=''"
  using b64_val_char [of n] by (auto simp: b64_val_def)

section \<open>Encoding and decoding\<close>

fun b64encode :: "string \<Rightarrow> string" where
  "b64encode [] = []"
| "b64encode [a] = (let x = of_char a in
     [b64_char (x div 4), b64_char ((x mod 4) * 16), CHR ''='', CHR ''=''])"
| "b64encode [a, b] = (let x = of_char a; y = of_char b in
     [b64_char (x div 4), b64_char ((x mod 4) * 16 + y div 16), b64_char ((y mod 16) * 4), CHR ''=''])"
| "b64encode (a # b # c # bs) = (let x = of_char a; y = of_char b; z = of_char c in
     b64_char (x div 4) # b64_char ((x mod 4) * 16 + y div 16) # b64_char ((y mod 16) * 4 + z div 64) #
     b64_char (z mod 64) # b64encode bs)"

text \<open>
  The state of the loop: the position \<open>q\<close> in the quad, \<open>left\<close> with the bits not yet output,
  the number of pads of the current quad, and whether padding has started.
\<close>

fun a2b_strict :: "nat \<Rightarrow> nat \<Rightarrow> nat \<Rightarrow> bool \<Rightarrow> string \<Rightarrow> string option" where
  "a2b_strict q left pads padding [] = (if q = 0 then Some [] else None)"
| "a2b_strict q left pads padding (c # cs) =
     (if c = CHR ''='' then
        (if 2 \<le> q \<and> 4 \<le> q + (pads + 1) then (if cs \<noteq> [] then None else Some [])
         else a2b_strict q left (if 2 \<le> q then pads + 1 else pads) True cs)
      else (case b64_val c of None \<Rightarrow> None
        | Some v \<Rightarrow>
            if padding then None
            else if q = 0 then a2b_strict 1 v 0 False cs
            else if q = 1 then
              map_option ((#) (char_of (left * 4 + v div 16))) (a2b_strict 2 (v mod 16) 0 False cs)
            else if q = 2 then
              map_option ((#) (char_of (left * 16 + v div 4))) (a2b_strict 3 (v mod 4) 0 False cs)
            else map_option ((#) (char_of (left * 64 + v))) (a2b_strict 0 0 0 False cs)))"

definition b64decode :: "string \<Rightarrow> string option" where
  "b64decode s = (case s of c # _ \<Rightarrow> if c = CHR ''='' then None else a2b_strict 0 0 0 False s | [] \<Rightarrow> Some [])"

section \<open>The round trip\<close>

text \<open>The sextets of a byte sequence and the bytes put together again.\<close>

lemma sextets_less:
  fixes x y z :: nat
  shows "x < 256 \<Longrightarrow> x div 4 < 64" "y < 256 \<Longrightarrow> (x mod 4) * 16 + y div 16 < 64"
    "z < 256 \<Longrightarrow> (y mod 16) * 4 + z div 64 < 64" "z mod 64 < 64"
    "(x mod 4) * 16 < 64" "(y mod 16) * 4 < 64"
proof -
  have m: "x mod 4 < 4" "y mod 16 < 16" by simp_all
  show "(x mod 4) * 16 + y div 16 < 64" if "y < 256" using that m(1) by (simp add: less_mult_imp_div_less)
  show "(y mod 16) * 4 + z div 64 < 64" if "z < 256" using that m(2) by (simp add: less_mult_imp_div_less)
qed simp_all

lemma bytes_of_sextets:
  fixes x y z :: nat
  shows "y < 256 \<Longrightarrow> x div 4 * 4 + ((x mod 4) * 16 + y div 16) div 16 = x"
    "y < 256 \<Longrightarrow> z < 256 \<Longrightarrow> ((x mod 4) * 16 + y div 16) mod 16 * 16 + ((y mod 16) * 4 + z div 64) div 4 = y"
    "z < 256 \<Longrightarrow> ((y mod 16) * 4 + z div 64) mod 4 * 64 + z mod 64 = z"
    "y < 256 \<Longrightarrow> ((x mod 4) * 16 + y div 16) mod 16 * 16 + y mod 16 = y"
    "x div 4 * 4 + ((x mod 4) * 16) div 16 = x"
proof -
  have a: "((x mod 4) * 16 + y div 16) div 16 = x mod 4" "((x mod 4) * 16 + y div 16) mod 16 = y div 16" if "y < 256"
    using that by (simp_all add: less_mult_imp_div_less)
  have b: "((y mod 16) * 4 + z div 64) div 4 = y mod 16" "((y mod 16) * 4 + z div 64) mod 4 = z div 64" if "z < 256"
    using that by (simp_all add: less_mult_imp_div_less)
  show "y < 256 \<Longrightarrow> x div 4 * 4 + ((x mod 4) * 16 + y div 16) div 16 = x"
    "y < 256 \<Longrightarrow> z < 256 \<Longrightarrow> ((x mod 4) * 16 + y div 16) mod 16 * 16 + ((y mod 16) * 4 + z div 64) div 4 = y"
    "z < 256 \<Longrightarrow> ((y mod 16) * 4 + z div 64) mod 4 * 64 + z mod 64 = z"
    "y < 256 \<Longrightarrow> ((x mod 4) * 16 + y div 16) mod 16 * 16 + y mod 16 = y"
    "x div 4 * 4 + ((x mod 4) * 16) div 16 = x"
    by (simp_all only: a b) simp_all
qed

lemmas sextet_simps = sextets_less bytes_of_sextets

lemma a2b_encode: "a2b_strict 0 0 0 False (b64encode bs) = Some bs"
  by (induction bs rule: b64encode.induct)
    (simp_all add: Let_def sextet_simps del: div_mult_self3 mod_mult_self3 div_mult_self1 mod_mult_self1)

lemma b64encode_head: "b64encode bs = c # cs \<Longrightarrow> c \<noteq> CHR ''=''"
  by (cases bs rule: b64encode.cases) (auto simp: Let_def sextets_less dest: sym)

interpretation b64: codec b64encode b64decode "\<lambda>bs. True"
proof
  fix bs :: string
  show "b64decode (b64encode bs) = Some bs"
    using a2b_encode [of bs] b64encode_head [of bs] by (auto simp: b64decode_def split: list.splits)
qed

lemma b64encode_empty [simp]: "b64encode bs = [] \<longleftrightarrow> bs = []"
  by (induction bs rule: b64encode.induct) (simp_all add: Let_def)

lemma length_b64encode: "length (b64encode bs) = 4 * ((length bs + 2) div 3)"
proof (induction bs rule: b64encode.induct)
  case (4 a b c bs)
  have "(Suc (Suc (Suc (length bs))) + 2) div 3 = Suc ((length bs + 2) div 3)" by presburger
  then show ?case using 4 by (simp add: Let_def)
qed (simp_all add: Let_def)

end
