(* ===== verification/BrokerProtocol.thy ===== *)
theory BrokerProtocol
  imports Base64
begin

text \<open>
  \<open>news_container/broker_protocol.py\<close>: the envelopes between the sealed container and the host
  broker that does the actual HTTP requests. Requests and responses are JSON objects; both sides
  validate what they receive. Bodies travel as base64.
\<close>

section \<open>Constants and errors\<close>

definition PROTOCOL_VERSION :: int where
  "PROTOCOL_VERSION = 1"

definition RESPONSE_ENVELOPE_MAX_BYTES :: int where
  "RESPONSE_ENVELOPE_MAX_BYTES = 4 * 1024 * 1024"

definition ALLOWED_ROUTES :: "string list" where
  "ALLOWED_ROUTES = [''search'', ''feed'', ''article'']"

definition ALLOWED_HEADERS :: "string list" where
  "ALLOWED_HEADERS = [''Accept'', ''Accept-Encoding'', ''Accept-Language'', ''User-Agent'', ''If-None-Match'',
     ''If-Modified-Since'']"

definition DEFAULT_TIMEOUT_SECONDS :: rat where
  "DEFAULT_TIMEOUT_SECONDS = 15"

definition DEFAULT_MAX_BYTES :: int where
  "DEFAULT_MAX_BYTES = 2 * 1024 * 1024"

definition MAX_TIMEOUT_SECONDS :: rat where
  "MAX_TIMEOUT_SECONDS = 120"

definition MAX_BYTES_HARD_LIMIT :: int where
  "MAX_BYTES_HARD_LIMIT = 8 * 1024 * 1024"

text \<open>
  The subclasses of \<open>BrokerProtocolError\<close> with the attributes they carry. \<open>FloatOverflow\<close> is
  the \<open>OverflowError\<close> of a conversion to float, which is not one of them.
\<close>

datatype broker_error =
    BrokerProtocolError | UnsupportedRouteError | DisallowedHeaderError | InvalidEnvelopeError
  | BrokerResponseProtocolMismatch
  | BrokerResponseRequestIdMismatch string string
  | BrokerResponseBodyError
  | BrokerResponseOversize nat int
  | BrokerUpstreamError string string int
  | FloatOverflow

fun is_broker_protocol_error :: "broker_error \<Rightarrow> bool" where
  "is_broker_protocol_error FloatOverflow = False"
| "is_broker_protocol_error _ = True"

section \<open>Envelopes\<close>

record broker_request =
  rq_request_id :: string
  rq_route :: string
  rq_target_url :: string
  rq_headers :: "(string \<times> string) list"
  rq_timeout_seconds :: pyfloat
  rq_max_bytes :: int
  rq_retrieved_at :: string

record broker_response =
  rs_request_id :: string
  rs_status :: int
  rs_headers :: "(string \<times> string) list"
  rs_body :: string
  rs_final_url :: string
  rs_retrieved_at :: string
  rs_error_code :: "string option"
  rs_error_message :: "string option"

definition header_lists :: "(string \<times> string) list \<Rightarrow> pyval" where
  "header_lists hs = PList (map (\<lambda>(name, value). PList [PStr name, PStr value]) hs)"

definition opt_str :: "string option \<Rightarrow> pyval" where
  "opt_str s = (case s of None \<Rightarrow> PNone | Some s \<Rightarrow> PStr s)"

definition request_to_dict :: "broker_request \<Rightarrow> pydict" where
  "request_to_dict r =
     [(''protocol_version'', PInt PROTOCOL_VERSION),
      (''request_id'', PStr (rq_request_id r)),
      (''route'', PStr (rq_route r)),
      (''target_url'', PStr (rq_target_url r)),
      (''headers'', header_lists (rq_headers r)),
      (''timeout_seconds'', PFloat (rq_timeout_seconds r)),
      (''max_bytes'', PInt (rq_max_bytes r)),
      (''retrieved_at'', PStr (rq_retrieved_at r))]"

definition response_to_dict :: "broker_response \<Rightarrow> pydict" where
  "response_to_dict r =
     [(''protocol_version'', PInt PROTOCOL_VERSION),
      (''request_id'', PStr (rs_request_id r)),
      (''status'', PInt (rs_status r)),
      (''headers'', header_lists (rs_headers r)),
      (''body_b64'', PStr (if rs_body r \<noteq> [] then b64encode (rs_body r) else [])),
      (''final_url'', PStr (rs_final_url r)),
      (''retrieved_at'', PStr (rs_retrieved_at r)),
      (''error_code'', opt_str (rs_error_code r)),
      (''error_message'', opt_str (rs_error_message r)),
      (''body_length'', PInt (int (length (rs_body r))))]"

text \<open>\<open>json.dumps(..., allow_nan=False)\<close> refuses infinite and undefined floats anywhere in the value.\<close>

definition float_finite :: "pyfloat \<Rightarrow> bool" where
  "float_finite f = (case f of Finite _ \<Rightarrow> True | NegZero \<Rightarrow> True | _ \<Rightarrow> False)"

fun json_finite :: "pyval \<Rightarrow> bool" where
  "json_finite (PFloat f) = float_finite f"
| "json_finite (PList vs) = list_all json_finite vs"
| "json_finite (PTuple vs) = list_all json_finite vs"
| "json_finite (PDict kvs) = list_all (\<lambda>(k, v). json_finite v) kvs"
| "json_finite _ = True"

definition request_to_canonical_json :: "pylib \<Rightarrow> broker_request \<Rightarrow> string result" where
  "request_to_canonical_json L r =
     (if json_finite (PDict (request_to_dict r)) then Inr (json_dumps L (PDict (request_to_dict r))) else Inl ValueError)"

definition response_to_canonical_json :: "pylib \<Rightarrow> broker_response \<Rightarrow> string" where
  "response_to_canonical_json L r = json_dumps L (PDict (response_to_dict r))"

section \<open>Numbers\<close>

text \<open>\<open>v == n\<close> for an integer \<open>n\<close>: booleans and floats compare by value.\<close>

definition py_eq_int :: "pyval \<Rightarrow> int \<Rightarrow> bool" where
  "py_eq_int v n =
     (case v of PInt i \<Rightarrow> i = n | PBool b \<Rightarrow> (if b then 1 else 0) = n
      | PFloat (Finite q) \<Rightarrow> q = of_int n | PFloat NegZero \<Rightarrow> n = 0 | _ \<Rightarrow> False)"

text \<open>
  \<open>math.isfinite\<close> converts an integer to a float first; from halfway between the largest double
  and \<open>2 ^ 1024\<close> on, that raises \<open>OverflowError\<close>.
\<close>

definition float_limit :: int where
  "float_limit = 2 ^ 1024 - 2 ^ 970"

definition finite_number :: "broker_error \<Rightarrow> pyval \<Rightarrow> broker_error + rat" where
  "finite_number e v =
     (case v of
        PInt i \<Rightarrow> if \<bar>i\<bar> \<ge> float_limit then Inl FloatOverflow else Inr (of_int i)
      | PFloat (Finite q) \<Rightarrow> Inr q
      | PFloat NegZero \<Rightarrow> Inr 0
      | _ \<Rightarrow> Inl e)"

section \<open>Validating a request\<close>

text \<open>The validator returns a dict with the fields of a request, in their normalised form.\<close>

definition require_str :: "pyval option \<Rightarrow> broker_error + string" where
  "require_str v = (case v of Some (PStr s) \<Rightarrow> if s = [] then Inl InvalidEnvelopeError else Inr s
     | _ \<Rightarrow> Inl InvalidEnvelopeError)"

definition token_char :: "char \<Rightarrow> bool" where
  "token_char c = (let n = (of_char c :: nat) in
     97 \<le> n \<and> n \<le> 122 \<or> 65 \<le> n \<and> n \<le> 90 \<or> 48 \<le> n \<and> n \<le> 57 \<or> n = 46 \<or> n = 95 \<or> n = 45)"

definition require_request_id :: "pyval option \<Rightarrow> broker_error + string" where
  "require_request_id v =
     bind_result (require_str v) (\<lambda>s.
       if length s > 128 \<or> list_ex (\<lambda>c. \<not> token_char c) s then Inl InvalidEnvelopeError else Inr s)"

definition require_number :: "pyval \<Rightarrow> broker_error + rat" where
  "require_number v = finite_number InvalidEnvelopeError v"

definition get_or :: "pydict \<Rightarrow> string \<Rightarrow> pyval \<Rightarrow> pyval" where
  "get_or d k v = (case map_of d k of None \<Rightarrow> v | Some w \<Rightarrow> w)"

definition header_pair :: "broker_error \<Rightarrow> pyval \<Rightarrow> broker_error + string \<times> string" where
  "header_pair e v = (case v of PList [PStr name, PStr value] \<Rightarrow> Inr (name, value) | _ \<Rightarrow> Inl e)"

definition request_header :: "pyval \<Rightarrow> broker_error + string \<times> string" where
  "request_header v =
     bind_result (header_pair InvalidEnvelopeError v) (\<lambda>(name, value).
       if name \<in> set ALLOWED_HEADERS then Inr (name, value) else Inl DisallowedHeaderError)"

definition validate_request_payload :: "pyval \<Rightarrow> broker_error + broker_request" where
  "validate_request_payload payload =
     (case payload of PDict d \<Rightarrow>
        if \<not> py_eq_int (get_or d ''protocol_version'' (PInt PROTOCOL_VERSION)) PROTOCOL_VERSION
        then Inl InvalidEnvelopeError
        else bind_result (require_str (map_of d ''route'')) (\<lambda>route.
          if route \<notin> set ALLOWED_ROUTES then Inl UnsupportedRouteError
          else bind_result (require_str (map_of d ''target_url'')) (\<lambda>target_url.
            bind_result (require_request_id (map_of d ''request_id'')) (\<lambda>request_id.
            bind_result (require_str (map_of d ''retrieved_at'')) (\<lambda>retrieved_at.
            bind_result (require_number (get_or d ''timeout_seconds'' (PFloat (Finite DEFAULT_TIMEOUT_SECONDS)))) (\<lambda>timeout.
              if timeout \<le> 0 \<or> timeout > MAX_TIMEOUT_SECONDS then Inl InvalidEnvelopeError
              else bind_result (require_number (get_or d ''max_bytes'' (PInt DEFAULT_MAX_BYTES))) (\<lambda>max_bytes.
                if max_bytes \<le> 0 \<or> max_bytes > of_int MAX_BYTES_HARD_LIMIT then Inl InvalidEnvelopeError
                else if floor max_bytes \<le> 0 then Inl InvalidEnvelopeError
                else (case get_or d ''headers'' (PList []) of
                    PList hs \<Rightarrow>
                      bind_result (map_result request_header hs) (\<lambda>headers.
                        Inr \<lparr>rq_request_id = request_id, rq_route = route, rq_target_url = target_url,
                          rq_headers = headers, rq_timeout_seconds = Finite timeout,
                          rq_max_bytes = floor max_bytes, rq_retrieved_at = retrieved_at\<rparr>)
                  | _ \<Rightarrow> Inl InvalidEnvelopeError)))))))
      | _ \<Rightarrow> Inl InvalidEnvelopeError)"

section \<open>Decoding a response\<close>

definition coerce_int :: "pyval option \<Rightarrow> int \<Rightarrow> broker_error + int" where
  "coerce_int v minimum =
     (case v of Some (PInt i) \<Rightarrow> if i < minimum then Inl BrokerResponseProtocolMismatch else Inr i
      | _ \<Rightarrow> Inl BrokerResponseProtocolMismatch)"

definition coerce_str :: "pyval option \<Rightarrow> broker_error + string" where
  "coerce_str v = (case v of Some (PStr s) \<Rightarrow> Inr s | _ \<Rightarrow> Inl BrokerResponseProtocolMismatch)"

text \<open>\<open>allow_none=True\<close>: a missing or null value is \<open>None\<close>, which \<open>final_url\<close> turns into the empty text.\<close>

definition coerce_str_or_none :: "pyval option \<Rightarrow> broker_error + string option" where
  "coerce_str_or_none v =
     (case v of None \<Rightarrow> Inr None | Some PNone \<Rightarrow> Inr None | Some (PStr s) \<Rightarrow> Inr (Some s)
      | _ \<Rightarrow> Inl BrokerResponseProtocolMismatch)"

definition coerce_headers :: "pyval \<Rightarrow> broker_error + (string \<times> string) list" where
  "coerce_headers v =
     (case v of PList hs \<Rightarrow> map_result (header_pair BrokerResponseProtocolMismatch) hs
      | _ \<Rightarrow> Inl BrokerResponseProtocolMismatch)"

text \<open>What arrives: bytes with their UTF-8 decoding (\<open>None\<close> if it fails), a text, or a decoded value.\<close>

datatype wire_payload = WireBytes nat "string option" | WireText string | WireValue pyval

definition parse_envelope :: "pylib \<Rightarrow> wire_payload \<Rightarrow> broker_error + pydict" where
  "parse_envelope L payload =
     bind_result
       (case payload of
          WireBytes n decoded \<Rightarrow>
            if int n > RESPONSE_ENVELOPE_MAX_BYTES then Inl BrokerResponseProtocolMismatch
            else (case decoded of None \<Rightarrow> Inl BrokerResponseProtocolMismatch
              | Some s \<Rightarrow> (case json_loads L s of None \<Rightarrow> Inl BrokerResponseProtocolMismatch | Some v \<Rightarrow> Inr v))
        | WireText s \<Rightarrow> (case json_loads L s of None \<Rightarrow> Inl BrokerResponseProtocolMismatch | Some v \<Rightarrow> Inr v)
        | WireValue v \<Rightarrow> Inr v)
       (\<lambda>v. case v of PDict d \<Rightarrow> Inr d | _ \<Rightarrow> Inl BrokerResponseProtocolMismatch)"

text \<open>The cap the caller negotiated, as an integer.\<close>

definition byte_cap :: "pyval \<Rightarrow> broker_error + int" where
  "byte_cap v =
     bind_result (finite_number BrokerResponseProtocolMismatch v) (\<lambda>q.
       if q \<le> 0 \<or> floor q \<le> 0 then Inl BrokerResponseProtocolMismatch else Inr (floor q))"

text \<open>\<open>error_code\<close> and \<open>error_message\<close>: any of them present makes the envelope a failure report.\<close>

definition upstream_failure :: "pydict \<Rightarrow> int \<Rightarrow> broker_error option" where
  "upstream_failure d status =
     (let code = get_or d ''error_code'' PNone; message = get_or d ''error_message'' PNone in
      if code = PNone \<and> message = PNone then None
      else (case (code, message) of
          (PStr c, PStr m) \<Rightarrow> Some (BrokerUpstreamError c m status)
        | _ \<Rightarrow> Some BrokerResponseProtocolMismatch))"

definition decode_body :: "pydict \<Rightarrow> int \<Rightarrow> int \<Rightarrow> broker_error + string" where
  "decode_body d body_length cap =
     (case get_or d ''body_b64'' (PStr []) of PStr s \<Rightarrow>
        (case (if s = [] then Some [] else b64decode s) of
           None \<Rightarrow> Inl BrokerResponseBodyError
         | Some body \<Rightarrow>
             if int (length body) \<noteq> body_length then Inl BrokerResponseBodyError
             else if int (length body) > cap then Inl (BrokerResponseOversize (length body) cap)
             else Inr body)
      | _ \<Rightarrow> Inl BrokerResponseProtocolMismatch)"

definition decode_response_envelope :: "pylib \<Rightarrow> wire_payload \<Rightarrow> string \<Rightarrow> pyval \<Rightarrow> int \<Rightarrow> broker_error + broker_response" where
  "decode_response_envelope L payload expected_request_id max_bytes expected_protocol_version =
     bind_result (byte_cap max_bytes) (\<lambda>cap.
     bind_result (parse_envelope L payload) (\<lambda>d.
       if \<not> py_eq_int (get_or d ''protocol_version'' (PInt expected_protocol_version)) expected_protocol_version
       then Inl BrokerResponseProtocolMismatch
       else bind_result (coerce_str (map_of d ''request_id'')) (\<lambda>request_id.
         if request_id \<noteq> expected_request_id
         then Inl (BrokerResponseRequestIdMismatch expected_request_id request_id)
         else bind_result (coerce_int (map_of d ''status'') (-1)) (\<lambda>status.
           bind_result (coerce_headers (get_or d ''headers'' (PList []))) (\<lambda>headers.
           bind_result (coerce_str_or_none (map_of d ''final_url'')) (\<lambda>final_url.
           bind_result (coerce_str (map_of d ''retrieved_at'')) (\<lambda>retrieved_at.
           bind_result (guard (as_str (get_or d ''body_b64'' (PStr [])) \<noteq> None) BrokerResponseProtocolMismatch) (\<lambda>_.
           bind_result (coerce_int (map_of d ''body_length'') 0) (\<lambda>body_length.
           bind_result (decode_body d body_length cap) (\<lambda>body.
             case upstream_failure d status of
               Some e \<Rightarrow> Inl e
             | None \<Rightarrow> Inr \<lparr>rs_request_id = request_id, rs_status = status, rs_headers = headers, rs_body = body,
                 rs_final_url = (case final_url of None \<Rightarrow> [] | Some u \<Rightarrow> u), rs_retrieved_at = retrieved_at,
                 rs_error_code = None, rs_error_message = None\<rparr>))))))))))"

section \<open>Request ids and sockets\<close>

text \<open>\<open>dict.update\<close>: a key that is there keeps its place.\<close>

fun dict_set :: "string \<Rightarrow> pyval \<Rightarrow> pydict \<Rightarrow> pydict" where
  "dict_set k v [] = [(k, v)]"
| "dict_set k v ((k', w) # d) = (if k = k' then (k, v) # d else (k', w) # dict_set k v d)"

definition dict_update :: "pydict \<Rightarrow> pydict \<Rightarrow> pydict" where
  "dict_update d extra = fold (\<lambda>(k, v). dict_set k v) extra d"

definition request_seed :: "string \<Rightarrow> string \<Rightarrow> string \<Rightarrow> string \<Rightarrow> pydict" where
  "request_seed source_id route target_url retrieved_at =
     [(''protocol_version'', PInt PROTOCOL_VERSION), (''route'', PStr route), (''target_url'', PStr target_url),
      (''retrieved_at'', PStr retrieved_at), (''source_id'', PStr source_id)]"

definition derive_request_id :: "pylib \<Rightarrow> string \<Rightarrow> string \<Rightarrow> string \<Rightarrow> string \<Rightarrow> pydict \<Rightarrow> string result" where
  "derive_request_id L source_id route target_url retrieved_at extra =
     (let seed = dict_update (request_seed source_id route target_url retrieved_at) extra in
      if json_finite (PDict seed) then Inr (sha256_hexdigest L (json_dumps L (PDict seed))) else Inl ValueError)"

definition socket_var :: "string \<Rightarrow> string" where
  "socket_var route =
     (if route = ''search'' then ''NEWS_BROKER_SEARCH_SOCKET''
      else if route = ''feed'' then ''NEWS_BROKER_FEED_SOCKET'' else ''NEWS_BROKER_ARTICLE_SOCKET'')"

definition socket_path_for_route :: "string \<Rightarrow> (string \<times> string) list \<Rightarrow> broker_error + string" where
  "socket_path_for_route route env =
     (if route \<notin> set ALLOWED_ROUTES then Inl UnsupportedRouteError
      else (case map_of env (socket_var route) of
          None \<Rightarrow> Inl BrokerProtocolError
        | Some value \<Rightarrow> if value = [] \<or> \<not> starts_with ''/'' value then Inl BrokerProtocolError else Inr value))"

section \<open>What a valid request is\<close>

definition request_ok :: "broker_request \<Rightarrow> bool" where
  "request_ok r \<longleftrightarrow> rq_route r \<in> set ALLOWED_ROUTES \<and> rq_target_url r \<noteq> [] \<and> rq_retrieved_at r \<noteq> [] \<and>
     rq_request_id r \<noteq> [] \<and> length (rq_request_id r) \<le> 128 \<and> list_all token_char (rq_request_id r) \<and>
     (\<exists>q. rq_timeout_seconds r = Finite q \<and> 0 < q \<and> q \<le> MAX_TIMEOUT_SECONDS) \<and>
     1 \<le> rq_max_bytes r \<and> rq_max_bytes r \<le> MAX_BYTES_HARD_LIMIT \<and>
     (\<forall>(name, value) \<in> set (rq_headers r). name \<in> set ALLOWED_HEADERS)"

lemma require_str_Inr [simp]: "require_str v = Inr s \<longleftrightarrow> v = Some (PStr s) \<and> s \<noteq> []"
  by (auto simp: require_str_def split: option.splits pyval.splits if_splits)

lemma require_request_id_Inr [simp]:
  "require_request_id v = Inr s \<longleftrightarrow> v = Some (PStr s) \<and> s \<noteq> [] \<and> length s \<le> 128 \<and> list_all token_char s"
  by (auto simp: require_request_id_def list_ex_iff list_all_iff split: if_splits intro!: exI [of _ s])

lemma header_pair_Inr [simp]: "header_pair e v = Inr (name, value) \<longleftrightarrow> v = PList [PStr name, PStr value]"
  by (auto simp: header_pair_def split: pyval.splits list.splits)

lemma request_header_Inr [simp]:
  "request_header v = Inr (name, value) \<longleftrightarrow> v = PList [PStr name, PStr value] \<and> name \<in> set ALLOWED_HEADERS"
  by (auto simp: request_header_def split: if_splits)

lemma request_headers_Inr:
  "map_result request_header vs = Inr hs \<longleftrightarrow>
     PList vs = header_lists hs \<and> (\<forall>(name, value) \<in> set hs. name \<in> set ALLOWED_HEADERS)"
proof (induction vs arbitrary: hs)
  case Nil
  then show ?case by (auto simp: header_lists_def)
next
  case (Cons v vs)
  have "map_result request_header (v # vs) = Inr hs \<longleftrightarrow>
      (\<exists>h t. hs = h # t \<and> request_header v = Inr h \<and> map_result request_header vs = Inr t)"
    by (auto simp del: request_header_Inr split: sum.splits)
  then show ?case using Cons.IH by (cases hs) (auto simp: header_lists_def)
qed

lemma coerce_headers_lists [simp]: "coerce_headers (header_lists hs) = Inr hs"
proof -
  have "map_result (header_pair e) (map (\<lambda>(name, value). PList [PStr name, PStr value]) hs) = Inr hs" for e
    by (induction hs) (auto simp: header_pair_def)
  then show ?thesis by (simp add: coerce_headers_def header_lists_def)
qed

lemma require_number_Inr [simp]:
  "require_number v = Inr q \<longleftrightarrow> (\<exists>i. v = PInt i \<and> \<bar>i\<bar> < float_limit \<and> q = of_int i) \<or>
     v = PFloat (Finite q) \<or> v = PFloat NegZero \<and> q = 0"
  by (cases v) (auto simp: require_number_def finite_number_def not_le split: pyfloat.splits if_splits)

lemma validate_request_cong:
  assumes "map_of d = map_of d'"
  shows "validate_request_payload (PDict d) = validate_request_payload (PDict d')"
proof -
  have "get_or d = get_or d'" using assms by (simp add: fun_eq_iff get_or_def)
  then show ?thesis unfolding validate_request_payload_def pyval.case by (simp only: assms)
qed

lemma validate_request_sound:
  assumes "validate_request_payload v = Inr r"
  shows "request_ok r"
proof (cases v)
  case (PDict d)
  have "floor q \<le> MAX_BYTES_HARD_LIMIT" if "q \<le> of_int MAX_BYTES_HARD_LIMIT" for q :: rat
    using that by (simp add: floor_le_iff)
  moreover have "1 \<le> floor q" if "\<not> floor q \<le> 0" for q :: rat using that by simp
  ultimately show ?thesis
    using assms PDict unfolding validate_request_payload_def
    by (auto simp: request_ok_def request_headers_Inr split: if_splits pyval.splits)
qed (use assms in \<open>simp_all add: validate_request_payload_def\<close>)

lemma max_bytes_below_limit: "1 \<le> i \<Longrightarrow> i \<le> MAX_BYTES_HARD_LIMIT \<Longrightarrow> \<bar>i\<bar> < float_limit"
proof -
  assume "1 \<le> i" "i \<le> MAX_BYTES_HARD_LIMIT"
  moreover have "MAX_BYTES_HARD_LIMIT < float_limit" by (simp add: MAX_BYTES_HARD_LIMIT_def float_limit_def)
  ultimately show ?thesis by linarith
qed

lemma validate_request_complete:
  assumes "request_ok r"
  shows "validate_request_payload (PDict (request_to_dict r)) = Inr r"
proof -
  obtain q where q: "rq_timeout_seconds r = Finite q" "0 < q" "q \<le> MAX_TIMEOUT_SECONDS"
    using assms by (auto simp: request_ok_def)
  have mb: "1 \<le> rq_max_bytes r" "rq_max_bytes r \<le> MAX_BYTES_HARD_LIMIT" "\<bar>rq_max_bytes r\<bar> < float_limit"
    using assms max_bytes_below_limit by (auto simp: request_ok_def)
  then have "\<not> (of_int (rq_max_bytes r) :: rat) \<le> 0" "\<not> (of_int (rq_max_bytes r) :: rat) > of_int MAX_BYTES_HARD_LIMIT"
    by simp_all
  moreover obtain vs where vs: "header_lists (rq_headers r) = PList vs" "map_result request_header vs = Inr (rq_headers r)"
    using assms request_headers_Inr by (auto simp: request_ok_def header_lists_def)
  moreover have "rq_route r \<noteq> []" using assms by (auto simp: request_ok_def ALLOWED_ROUTES_def)
  ultimately show ?thesis
    using assms q mb
    by (simp add: validate_request_payload_def request_to_dict_def get_or_def py_eq_int_def request_ok_def
        require_number_def finite_number_def require_str_def require_request_id_def list_ex_iff list_all_iff)
qed

text \<open>The number a value stands for; a boolean stands for none, although it equals 0 or 1.\<close>

fun number_of :: "pyval \<Rightarrow> rat option" where
  "number_of (PInt i) = Some (of_int i)"
| "number_of (PFloat (Finite q)) = Some q"
| "number_of (PFloat NegZero) = Some 0"
| "number_of _ = None"

text \<open>
  The request an envelope states: the protocol version, which may be absent, is 1; the texts are the request's; the
  numbers and headers are, with their defaults if absent.
\<close>

definition request_envelope :: "pydict \<Rightarrow> broker_request \<Rightarrow> bool" where
  "request_envelope d r \<longleftrightarrow>
     map_of d ''protocol_version'' \<in> {None, Some (PInt 1), Some (PFloat (Finite 1)), Some (PBool True)} \<and>
     map_of d ''request_id'' = Some (PStr (rq_request_id r)) \<and> map_of d ''route'' = Some (PStr (rq_route r)) \<and>
     map_of d ''target_url'' = Some (PStr (rq_target_url r)) \<and> map_of d ''retrieved_at'' = Some (PStr (rq_retrieved_at r)) \<and>
     (\<exists>q. number_of (get_or d ''timeout_seconds'' (PFloat (Finite DEFAULT_TIMEOUT_SECONDS))) = Some q \<and> rq_timeout_seconds r = Finite q) \<and>
     (\<exists>q. number_of (get_or d ''max_bytes'' (PInt DEFAULT_MAX_BYTES)) = Some q \<and> q \<le> of_int MAX_BYTES_HARD_LIMIT \<and>
        rq_max_bytes r = \<lfloor>q\<rfloor>) \<and>
     get_or d ''headers'' (PList []) = header_lists (rq_headers r)"

lemma number_of_Some:
  "number_of v = Some q \<longleftrightarrow> (\<exists>i. v = PInt i \<and> q = of_int i) \<or> v = PFloat (Finite q) \<or> v = PFloat NegZero \<and> q = 0"
  by (cases v rule: number_of.cases) auto

lemma require_number_number_of: "require_number v = Inr q \<longleftrightarrow> number_of v = Some q \<and> (\<forall>i. v = PInt i \<longrightarrow> \<bar>i\<bar> < float_limit)"
  unfolding require_number_Inr number_of_Some by auto

lemma version_one: "py_eq_int (get_or d ''protocol_version'' (PInt PROTOCOL_VERSION)) PROTOCOL_VERSION \<longleftrightarrow>
  map_of d ''protocol_version'' \<in> {None, Some (PInt 1), Some (PFloat (Finite 1)), Some (PBool True)}"
  by (auto simp: get_or_def py_eq_int_def PROTOCOL_VERSION_def split: option.splits pyval.splits pyfloat.splits if_splits)

lemma bounded_number: "number_of v = Some q \<Longrightarrow> 0 < q \<Longrightarrow> q \<le> of_int MAX_BYTES_HARD_LIMIT \<Longrightarrow> require_number v = Inr q"
  unfolding require_number_number_of
proof (intro conjI allI impI)
  fix i assume "number_of v = Some q" "0 < q" "q \<le> of_int MAX_BYTES_HARD_LIMIT" "v = PInt i"
  then have "0 < i" "i \<le> MAX_BYTES_HARD_LIMIT" by auto
  then show "\<bar>i\<bar> < float_limit" by (intro max_bytes_below_limit) simp_all
qed

lemma timeout_small: "MAX_TIMEOUT_SECONDS \<le> of_int MAX_BYTES_HARD_LIMIT"
  by (simp add: MAX_TIMEOUT_SECONDS_def MAX_BYTES_HARD_LIMIT_def)

lemma validate_request_envelope:
  assumes "validate_request_payload v = Inr r"
  shows "\<exists>d. v = PDict d \<and> request_envelope d r"
proof (cases v)
  case (PDict d)
  show ?thesis
    using assms unfolding PDict validate_request_payload_def pyval.case version_one
    by (auto simp: request_envelope_def require_number_number_of request_headers_Inr simp del: require_number_Inr
        split: if_splits pyval.splits)
qed (use assms in \<open>simp_all add: validate_request_payload_def\<close>)

lemma envelope_validates:
  assumes e: "request_envelope d r" and ok: "request_ok r"
  shows "validate_request_payload (PDict d) = Inr r"
proof -
  obtain t where t: "number_of (get_or d ''timeout_seconds'' (PFloat (Finite DEFAULT_TIMEOUT_SECONDS))) = Some t"
      "rq_timeout_seconds r = Finite t" "0 < t" "t \<le> MAX_TIMEOUT_SECONDS"
    using e ok by (auto simp: request_envelope_def request_ok_def)
  obtain q where q: "number_of (get_or d ''max_bytes'' (PInt DEFAULT_MAX_BYTES)) = Some q" "q \<le> of_int MAX_BYTES_HARD_LIMIT"
      "rq_max_bytes r = \<lfloor>q\<rfloor>" "1 \<le> \<lfloor>q\<rfloor>"
    using e ok by (auto simp: request_envelope_def request_ok_def)
  have "0 < q" using q(4) by linarith
  note n = bounded_number [OF t(1) t(3) order_trans [OF t(4) timeout_small]] bounded_number [OF q(1) \<open>0 < q\<close> q(2)]
  obtain hs where hs: "get_or d ''headers'' (PList []) = PList hs" "map_result request_header hs = Inr (rq_headers r)"
    using e ok request_headers_Inr by (auto simp: request_envelope_def request_ok_def header_lists_def)
  have s: "require_str (map_of d ''route'') = Inr (rq_route r)" "require_str (map_of d ''target_url'') = Inr (rq_target_url r)"
    "require_str (map_of d ''retrieved_at'') = Inr (rq_retrieved_at r)" "require_request_id (map_of d ''request_id'') = Inr (rq_request_id r)"
    using e ok by (auto simp: request_envelope_def request_ok_def ALLOWED_ROUTES_def)
  have "map_of d ''protocol_version'' \<in> {None, Some (PInt 1), Some (PFloat (Finite 1)), Some (PBool True)}"
    using e unfolding request_envelope_def by blast
  then have v: "py_eq_int (get_or d ''protocol_version'' (PInt PROTOCOL_VERSION)) PROTOCOL_VERSION" unfolding version_one .
  have c: "rq_route r \<in> set ALLOWED_ROUTES" "\<not> (t \<le> 0 \<or> t > MAX_TIMEOUT_SECONDS)" "\<not> (q \<le> 0 \<or> q > of_int MAX_BYTES_HARD_LIMIT)"
    "\<not> \<lfloor>q\<rfloor> \<le> 0"
    using ok t q \<open>0 < q\<close> by (auto simp: request_ok_def)
  show ?thesis
    unfolding validate_request_payload_def pyval.case s n hs bind_result.simps using v c t q by simp
qed

text \<open>
  C28: The broker's validator accepts exactly the well-formed requests: a decoded value is accepted, as
  a request, if and only if it is a dictionary that states this request (protocol version 1 or none, the
  texts, the numbers and headers with their defaults) and the request has an allowed route, only
  allow-listed headers, a token as its id, a timeout in (0, 120] seconds and a byte cap between 1 and
  8 MiB; and the envelope of a request is accepted and read back unchanged exactly if the request has
  these properties.
\<close>

theorem validate_request_exact:
  "(validate_request_payload v = Inr r \<longleftrightarrow> (\<exists>d. v = PDict d \<and> request_envelope d r \<and> request_ok r)) \<and>
   (validate_request_payload (PDict (request_to_dict r)) = Inr r \<longleftrightarrow> request_ok r)"
  using validate_request_sound validate_request_complete validate_request_envelope envelope_validates by blast

section \<open>Responses\<close>

lemma decode_response_cong:
  assumes "map_of d = map_of d'"
  shows "decode_response_envelope L (WireValue (PDict d)) rid cap version =
    decode_response_envelope L (WireValue (PDict d')) rid cap version"
proof -
  have g: "get_or d = get_or d'" using assms by (simp add: fun_eq_iff get_or_def)
  have p: "parse_envelope L (WireValue (PDict x)) = Inr x" for x by (simp add: parse_envelope_def)
  have "decode_body d = decode_body d'" "upstream_failure d = upstream_failure d'"
    by (simp_all only: fun_eq_iff decode_body_def upstream_failure_def g simp_thms)
  then show ?thesis
    by (simp only: decode_response_envelope_def p bind_result.simps g assms)
qed

lemma decode_wire_text:
  assumes "json_loads L s = Some v"
  shows "decode_response_envelope L (WireText s) rid cap version = decode_response_envelope L (WireValue v) rid cap version"
  by (simp add: decode_response_envelope_def parse_envelope_def assms)

text \<open>The outcome a response envelope reports.\<close>

definition response_outcome :: "broker_response \<Rightarrow> broker_error + broker_response" where
  "response_outcome r =
     (case (rs_error_code r, rs_error_message r) of
        (None, None) \<Rightarrow> Inr r
      | (Some c, Some m) \<Rightarrow> Inl (BrokerUpstreamError c m (rs_status r))
      | _ \<Rightarrow> Inl BrokerResponseProtocolMismatch)"

lemma upstream_failure_envelope:
  assumes "map_of d ''error_code'' = Some (opt_str code)" "map_of d ''error_message'' = Some (opt_str message)"
  shows "upstream_failure d status =
    (case (code, message) of (None, None) \<Rightarrow> None | (Some c, Some m) \<Rightarrow> Some (BrokerUpstreamError c m status)
     | _ \<Rightarrow> Some BrokerResponseProtocolMismatch)"
  using assms by (cases code; cases message) (simp_all add: upstream_failure_def get_or_def opt_str_def Let_def)

text \<open>Any envelope with the fields of \<open>r\<close> and some encoding of its body decodes to what \<open>r\<close> reports.\<close>

lemma decode_envelope_body:
  assumes d: "d = (''body_b64'', PStr s) # response_to_dict r"
    and s: "(if s = [] then Some [] else b64decode s) = Some (rs_body r)"
    and cap: "byte_cap max_bytes = Inr cap" "int (length (rs_body r)) \<le> cap" and status: "- 1 \<le> rs_status r"
  shows "decode_response_envelope L (WireValue (PDict d)) (rs_request_id r) max_bytes PROTOCOL_VERSION = response_outcome r"
proof -
  have body: "decode_body d (int (length (rs_body r))) cap = Inr (rs_body r)"
    using s cap(2) by (simp add: decode_body_def d get_or_def)
  have up: "upstream_failure d (rs_status r) =
      (case (rs_error_code r, rs_error_message r) of (None, None) \<Rightarrow> None
       | (Some c, Some m) \<Rightarrow> Some (BrokerUpstreamError c m (rs_status r)) | _ \<Rightarrow> Some BrokerResponseProtocolMismatch)"
    by (rule upstream_failure_envelope) (simp_all add: d response_to_dict_def)
  have fields: "get_or d ''protocol_version'' x = PInt PROTOCOL_VERSION" "map_of d ''request_id'' = Some (PStr (rs_request_id r))"
    "map_of d ''status'' = Some (PInt (rs_status r))" "get_or d ''headers'' x = header_lists (rs_headers r)"
    "map_of d ''final_url'' = Some (PStr (rs_final_url r))" "map_of d ''retrieved_at'' = Some (PStr (rs_retrieved_at r))"
    "get_or d ''body_b64'' x = PStr s" "map_of d ''body_length'' = Some (PInt (int (length (rs_body r))))" for x
    by (simp_all add: d response_to_dict_def get_or_def)
  have coerced: "coerce_int (Some (PInt (rs_status r))) (- 1) = Inr (rs_status r)"
    "coerce_int (Some (PInt (int (length (rs_body r))))) 0 = Inr (int (length (rs_body r)))"
    "coerce_str (Some (PStr x)) = Inr x" "coerce_str_or_none (Some (PStr x)) = Inr (Some x)" for x
    using status by (simp_all add: coerce_int_def coerce_str_def coerce_str_or_none_def)
  show ?thesis
    unfolding decode_response_envelope_def cap(1) parse_envelope_def wire_payload.case pyval.case bind_result.simps
      fields coerced coerce_headers_lists body up
    by (cases "rs_error_code r"; cases "rs_error_message r") (simp_all add: py_eq_int_def response_outcome_def)
qed

text \<open>
  A response survives the wire: if \<open>json.loads\<close> reads the canonical text of an envelope back
  with the same fields, the client that sent the request decodes it to the very same response, or,
  if the broker reported a failure, to \<open>BrokerUpstreamError\<close> with the same code, message and status.
\<close>

theorem response_roundtrip:
  assumes "json_loads L (response_to_canonical_json L r) = Some (PDict d)"
    and "map_of d = map_of (response_to_dict r)"
    and "byte_cap max_bytes = Inr cap" "int (length (rs_body r)) \<le> cap" "- 1 \<le> rs_status r"
  shows "decode_response_envelope L (WireText (response_to_canonical_json L r)) (rs_request_id r) max_bytes PROTOCOL_VERSION =
    (case (rs_error_code r, rs_error_message r) of
       (None, None) \<Rightarrow> Inr r
     | (Some c, Some m) \<Rightarrow> Inl (BrokerUpstreamError c m (rs_status r))
     | _ \<Rightarrow> Inl BrokerResponseProtocolMismatch)"
proof -
  let ?s = "if rs_body r \<noteq> [] then b64encode (rs_body r) else []"
  have "map_of ((''body_b64'', PStr ?s) # response_to_dict r) = map_of (response_to_dict r)"
    by (rule ext) (simp add: response_to_dict_def)
  then have "map_of d = map_of ((''body_b64'', PStr ?s) # response_to_dict r)" using assms(2) by simp
  moreover have "(if ?s = [] then Some [] else b64decode ?s) = Some (rs_body r)"
    by (simp add: b64.dec_enc)
  ultimately show ?thesis
    unfolding decode_wire_text [OF assms(1)]
    using decode_response_cong [of d "(''body_b64'', PStr ?s) # response_to_dict r"]
      decode_envelope_body [OF refl _ assms(3-5), of ?s L] by (simp add: response_outcome_def)
qed

text \<open>
  A response envelope that reports success: the version, which may be absent, equals the expected one, the fields are
  the response's, the body is the decoding of its base64 text with the stated length, and there is no error.
\<close>

definition success_envelope :: "pydict \<Rightarrow> int \<Rightarrow> broker_response \<Rightarrow> bool" where
  "success_envelope d version r \<longleftrightarrow>
     (\<forall>v. map_of d ''protocol_version'' = Some v \<longrightarrow> py_eq_int v version) \<and>
     map_of d ''request_id'' = Some (PStr (rs_request_id r)) \<and>
     map_of d ''status'' = Some (PInt (rs_status r)) \<and> - 1 \<le> rs_status r \<and>
     map_of d ''headers'' \<in> (if rs_headers r = [] then {None} else {}) \<union> {Some (header_lists (rs_headers r))} \<and>
     map_of d ''final_url'' \<in> (if rs_final_url r = [] then {None, Some PNone} else {}) \<union> {Some (PStr (rs_final_url r))} \<and>
     map_of d ''retrieved_at'' = Some (PStr (rs_retrieved_at r)) \<and>
     (rs_body r = [] \<and> map_of d ''body_b64'' \<in> {None, Some (PStr [])} \<or>
      (\<exists>s. s \<noteq> [] \<and> map_of d ''body_b64'' = Some (PStr s) \<and> b64decode s = Some (rs_body r))) \<and>
     map_of d ''body_length'' = Some (PInt (int (length (rs_body r)))) \<and>
     map_of d ''error_code'' \<in> {None, Some PNone} \<and> map_of d ''error_message'' \<in> {None, Some PNone} \<and>
     rs_error_code r = None \<and> rs_error_message r = None"

lemma coerce_Inr:
  "coerce_int v m = Inr i \<longleftrightarrow> v = Some (PInt i) \<and> m \<le> i" "coerce_str v = Inr s \<longleftrightarrow> v = Some (PStr s)"
  "coerce_str_or_none v = Inr u \<longleftrightarrow> u = None \<and> v \<in> {None, Some PNone} \<or> (\<exists>s. u = Some s \<and> v = Some (PStr s))"
  by (auto simp: coerce_int_def coerce_str_def coerce_str_or_none_def split: option.splits pyval.splits if_splits)

lemma coerce_headers_Inr: "coerce_headers v = Inr hs \<longleftrightarrow> v = header_lists hs"
proof
  have "map_result (header_pair e) vs = Inr hs \<Longrightarrow> PList vs = header_lists hs" for e vs
    by (induction vs arbitrary: hs) (auto simp: header_lists_def split: sum.splits)
  then show "coerce_headers v = Inr hs \<Longrightarrow> v = header_lists hs" by (auto simp: coerce_headers_def split: pyval.splits)
qed simp

lemma upstream_failure_None:
  "upstream_failure d status = None \<longleftrightarrow> map_of d ''error_code'' \<in> {None, Some PNone} \<and> map_of d ''error_message'' \<in> {None, Some PNone}"
  by (auto simp: upstream_failure_def get_or_def Let_def split: option.splits pyval.splits)

lemma decode_body_Inr:
  "decode_body d n cap = Inr body \<longleftrightarrow>
     (body = [] \<and> map_of d ''body_b64'' \<in> {None, Some (PStr [])} \<or>
      (\<exists>s. s \<noteq> [] \<and> map_of d ''body_b64'' = Some (PStr s) \<and> b64decode s = Some body)) \<and> n = int (length body) \<and> int (length body) \<le> cap"
  by (auto simp: decode_body_def get_or_def split: option.splits pyval.splits if_splits)

lemma get_or_member: "get_or d k v = w \<longleftrightarrow> map_of d k \<in> (if w = v then {None} else {}) \<union> {Some w}"
  by (auto simp: get_or_def split: option.splits)

lemma header_lists_Nil: "header_lists hs = PList [] \<longleftrightarrow> hs = []"
  by (simp add: header_lists_def)

lemma get_or_version: "py_eq_int (get_or d k (PInt n)) n \<longleftrightarrow> (\<forall>v. map_of d k = Some v \<longrightarrow> py_eq_int v n)"
  by (simp add: get_or_def py_eq_int_def split: option.splits)


lemma stray_bits: "b64decode ''QR=='' = Some ''A''" "b64encode ''A'' = ''QQ==''"
  by code_simp+

text \<open>
  The strict base64 decoder accepts encodings that no encoder produces: \<open>QR==\<close>, whose
  last sextet has stray bits, decodes like the canonical \<open>QQ==\<close> of the body \<open>A\<close>, so an envelope
  that carries it is accepted as the same response.
\<close>

theorem noncanonical_body_accepted:
  assumes "rs_body r = ''A''" "rs_error_code r = None" "rs_error_message r = None" "- 1 \<le> rs_status r"
    and "byte_cap max_bytes = Inr cap"
  shows "b64encode ''A'' = ''QQ=='' \<and>
    decode_response_envelope L (WireValue (PDict ((''body_b64'', PStr ''QR=='') # response_to_dict r)))
      (rs_request_id r) max_bytes PROTOCOL_VERSION = Inr r"
proof -
  have "1 \<le> cap" using assms(5) by (auto simp: byte_cap_def split: if_splits)
  then show ?thesis
    using decode_envelope_body [OF refl _ assms(5), of "''QR==''" r L] assms stray_bits by (simp add: response_outcome_def)
qed

section \<open>Errors that are not protocol errors\<close>

text \<open>
  The request validator does not turn every bad number into a protocol error: an integer too
  large for a float makes \<open>math.isfinite\<close> raise \<open>OverflowError\<close>, which is none of the declared
  errors, although every other field of the request is fine.
\<close>

theorem request_overflow_escapes:
  assumes "request_ok r"
  shows "validate_request_payload (PDict ((''max_bytes'', PInt (2 ^ 1024)) # request_to_dict r)) = Inl FloatOverflow \<and>
    \<not> is_broker_protocol_error FloatOverflow"
proof -
  obtain q where q: "rq_timeout_seconds r = Finite q" "0 < q" "q \<le> MAX_TIMEOUT_SECONDS"
    using assms by (auto simp: request_ok_def)
  have "rq_route r \<noteq> []" using assms by (auto simp: request_ok_def ALLOWED_ROUTES_def)
  moreover have "\<bar>2 ^ 1024\<bar> \<ge> float_limit" by (simp add: float_limit_def)
  then have "finite_number e (PInt (2 ^ 1024)) = Inl FloatOverflow" for e
    by (simp only: finite_number_def pyval.case if_True)
  ultimately show ?thesis
    using assms q
    by (simp add: validate_request_payload_def request_to_dict_def get_or_def py_eq_int_def request_ok_def
        require_number_def require_str_def require_request_id_def list_ex_iff list_all_iff
        finite_number_def [of _ "PFloat _"] del: power_numeral)
qed

section \<open>Request ids\<close>

lemma map_of_dict_set: "map_of (dict_set k v d) = (map_of d)(k \<mapsto> v)"
  by (induction k v d rule: dict_set.induct) (auto simp: fun_eq_iff)

lemma keys_dict_set: "set (map fst (dict_set k v d)) = insert k (set (map fst d))"
  by (induction k v d rule: dict_set.induct) auto

lemma dict_ok_dict_set: "dict_ok d \<Longrightarrow> dict_ok (dict_set k v d)"
proof (induction k v d rule: dict_set.induct)
  case (2 k v k' w d)
  then show ?case using keys_dict_set [of k v d] by (auto simp: dict_ok_def)
qed (simp add: dict_ok_def)

lemma dict_update_props:
  assumes "dict_ok d"
  shows "dict_ok (dict_update d extra)" "map_of (dict_update d extra) = map_of d ++ map_of (rev extra)"
proof -
  have "dict_ok (fold (\<lambda>(k, v). dict_set k v) extra d) \<and>
      map_of (fold (\<lambda>(k, v). dict_set k v) extra d) = map_of d ++ map_of (rev extra)"
    using assms
    by (induction extra arbitrary: d) (auto simp: dict_ok_dict_set map_of_dict_set)
  then show "dict_ok (dict_update d extra)" "map_of (dict_update d extra) = map_of d ++ map_of (rev extra)"
    by (simp_all add: dict_update_def)
qed

lemma map_of_rev_distinct: "dict_ok d \<Longrightarrow> map_of (rev d) = map_of d"
  by (rule map_of_inject_set [THEN iffD2]) (simp_all add: dict_ok_def rev_map [symmetric])

lemma dict_update_order:
  assumes "dict_ok d" "dict_ok e" "dict_ok e'" "set e = set e'"
  shows "set (dict_update d e) = set (dict_update d e')"
proof -
  have "map_of e = map_of e'" using assms by (simp add: dict_ok_def map_of_inject_set)
  then have "map_of (dict_update d e) = map_of (dict_update d e')"
    using assms by (simp add: dict_update_props map_of_rev_distinct)
  then show ?thesis using map_of_inject_set dict_update_props(1) [OF assms(1)] by (metis dict_ok_def)
qed

lemma json_finite_update:
  assumes "json_finite (PDict d)" "json_finite (PDict e)" "dict_ok d" "dict_ok e"
  shows "json_finite (PDict (dict_update d e))"
proof -
  have "json_finite v" if "(k, v) \<in> set (dict_update d e)" for k v
  proof -
    have "(map_of d ++ map_of e) k = Some v"
      using that dict_update_props [OF assms(3), of e] map_of_rev_distinct [OF assms(4)]
      by (metis dict_ok_def map_of_is_SomeI)
    then have "(k, v) \<in> set d \<or> (k, v) \<in> set e" by (auto simp: map_add_Some_iff dest: map_of_SomeD)
    then show ?thesis using assms(1,2) by (auto simp: list_all_iff)
  qed
  then show ?thesis by (auto simp: list_all_iff)
qed

lemma request_seed_ok: "dict_ok (request_seed s r t a)" "json_finite (PDict (request_seed s r t a))"
  by (simp_all add: request_seed_def dict_ok_def)

lemma is_hex_token: "is_hex c \<Longrightarrow> token_char c"
  by (auto simp: is_hex_def token_char_def Let_def)

text \<open>
  The derived request id is a function of what the request asks for: the order in which extra
  fields are listed does not matter, the id is a digest of 64 characters, and the request
  validator accepts it.
\<close>

theorem derived_request_id:
  assumes digest: "digest_contract L"
    and extra: "json_finite (PDict extra)" "dict_ok extra" "dict_ok extra'" "set extra' = set extra"
  shows "\<exists>rid. derive_request_id L source_id route target_url retrieved_at extra = Inr rid \<and>
    derive_request_id L source_id route target_url retrieved_at extra' = Inr rid \<and>
    length rid = 64 \<and> require_request_id (Some (PStr rid)) = Inr rid"
proof -
  let ?seed = "request_seed source_id route target_url retrieved_at"
  have fin: "json_finite (PDict (dict_update ?seed extra))"
    by (rule json_finite_update [OF request_seed_ok(2) extra(1) request_seed_ok(1) extra(2)])
  have fin': "json_finite (PDict (dict_update ?seed extra'))"
    using extra by (intro json_finite_update request_seed_ok) (simp_all add: list_all_iff)
  have "json_dumps L (PDict (dict_update ?seed extra)) = json_dumps L (PDict (dict_update ?seed extra'))"
    using extra request_seed_ok by (intro json_dumps_dict_order dict_update_order dict_update_props(1)) simp_all
  moreover have "length (sha256_hexdigest L s) = 64" "list_all token_char (sha256_hexdigest L s)" for s
    using digest is_hex_token by (auto simp: digest_contract_def list_all_iff)
  moreover from this have "sha256_hexdigest L s \<noteq> []" for s by (metis list.size(3) zero_neq_numeral)
  ultimately show ?thesis
    unfolding derive_request_id_def Let_def using fin fin' by (simp del: json_dumps.simps json_finite.simps)
qed

section \<open>A request and its response by example\<close>

definition bp_request :: broker_request where
  "bp_request = \<lparr>rq_request_id = ''id-1'', rq_route = ''feed'', rq_target_url = ''https://example.org/feed'',
     rq_headers = [(''Accept'', ''*/*'')], rq_timeout_seconds = Finite 15, rq_max_bytes = 4096,
     rq_retrieved_at = ''2026-01-01T00:00:00Z''\<rparr>"

definition bp_response :: broker_response where
  "bp_response = \<lparr>rs_request_id = ''id-1'', rs_status = 200, rs_headers = [], rs_body = ''A'',
     rs_final_url = ''https://example.org/feed'', rs_retrieved_at = ''2026-01-01T00:00:00Z'',
     rs_error_code = None, rs_error_message = None\<rparr>"

definition bp_lib :: pylib where
  "bp_lib = \<lparr>sha256_hexdigest = (\<lambda>s. replicate 64 (CHR ''a'')), fromisoformat_utc = (\<lambda>s. None),
     json_loads = (\<lambda>s. Some (PDict (response_to_dict bp_response))),
     float_repr = (\<lambda>f. ''0.0''), container_str = (\<lambda>v. ''...'')\<rparr>"

lemma bp_cap: "byte_cap (PInt 4096) = Inr 4096"
  by (simp add: byte_cap_def finite_number_def float_limit_def)

lemma bp_fields [simp]: "rs_request_id bp_response = ''id-1''" "rs_status bp_response = 200" "rs_body bp_response = ''A''"
  "rs_error_code bp_response = None" "rs_error_message bp_response = None"
  by (simp_all add: bp_response_def)

theorem response_roundtrip_witness:
  "decode_response_envelope bp_lib (WireText (response_to_canonical_json bp_lib bp_response)) ''id-1'' (PInt 4096)
     PROTOCOL_VERSION = Inr bp_response"
  using response_roundtrip [OF _ refl bp_cap, of bp_lib bp_response] by (simp add: bp_lib_def)

theorem noncanonical_body_accepted_witness:
  "decode_response_envelope bp_lib (WireValue (PDict ((''body_b64'', PStr ''QR=='') # response_to_dict bp_response)))
     ''id-1'' (PInt 4096) PROTOCOL_VERSION = Inr bp_response"
  using noncanonical_body_accepted [of bp_response "PInt 4096" 4096 bp_lib] bp_cap by simp

lemma bp_request_ok: "request_ok bp_request"
  by (simp add: request_ok_def bp_request_def ALLOWED_ROUTES_def ALLOWED_HEADERS_def token_char_def
      MAX_TIMEOUT_SECONDS_def MAX_BYTES_HARD_LIMIT_def)

theorem request_overflow_escapes_witness:
  "validate_request_payload (PDict ((''max_bytes'', PInt (2 ^ 1024)) # request_to_dict bp_request)) = Inl FloatOverflow"
  using request_overflow_escapes [OF bp_request_ok] by blast

theorem derived_request_id_witness:
  "\<exists>rid. derive_request_id bp_lib ''s'' ''feed'' ''u'' ''t'' [(''a'', PInt 1), (''b'', PInt 2)] = Inr rid \<and>
     derive_request_id bp_lib ''s'' ''feed'' ''u'' ''t'' [(''b'', PInt 2), (''a'', PInt 1)] = Inr rid"
proof -
  have "digest_contract bp_lib" by (simp add: digest_contract_def bp_lib_def is_hex_def list_all_iff)
  then show ?thesis
    using derived_request_id [of bp_lib "[(''a'', PInt 1), (''b'', PInt 2)]" "[(''b'', PInt 2), (''a'', PInt 1)]"
        "''s''" "''feed''" "''u''" "''t''"]
    by (auto simp: dict_ok_def)
qed

end
