(* ===== verification/IpAddress.thy ===== *)
theory IpAddress
  imports Timestamps
begin

text \<open>
  The address check of \<open>host/news_egress_broker.py\<close> (\<open>_normalise_ip_string\<close>, \<open>_ip_in_blocked_range\<close>)
  with the part of \<open>ipaddress\<close> (Python 3.11) it uses: an IPv4 address is its four octets, an IPv6
  address its eight pieces and the scope. The result is which addresses the prefix list really
  covers.
\<close>

section \<open>Texts\<close>

text \<open>\<open>s.split(c)\<close> and \<open>s.partition(c)\<close> for a single character.\<close>

fun split_on :: "char \<Rightarrow> string \<Rightarrow> string list" where
  "split_on c [] = [[]]"
| "split_on c (x # s) =
     (if x = c then [] # split_on c s else (case split_on c s of [] \<Rightarrow> [[x]] | p # ps \<Rightarrow> (x # p) # ps))"

definition partition_on :: "char \<Rightarrow> string \<Rightarrow> string \<times> string option" where
  "partition_on c s =
     (takeWhile (\<lambda>x. x \<noteq> c) s, case dropWhile (\<lambda>x. x \<noteq> c) s of [] \<Rightarrow> None | _ # rest \<Rightarrow> Some rest)"

lemma split_on_ne [simp]: "split_on c s \<noteq> []"
  by (induction s) (auto split: list.splits)

lemma split_on_join: "join [c] (split_on c s) = s"
proof (induction s)
  case (Cons x s)
  then show ?case by (cases "split_on c s"; cases "tl (split_on c s)") (auto split: list.splits)
qed simp

lemma join_append: "xs \<noteq> [] \<Longrightarrow> ys \<noteq> [] \<Longrightarrow> join sep (xs @ ys) = join sep xs @ sep @ join sep ys"
  by (induction sep xs rule: join.induct) (cases ys; auto)+

text \<open>Hexadecimal digits and \<open>'%x' % n\<close>.\<close>

definition is_hexdigit :: "char \<Rightarrow> bool" where
  "is_hexdigit c = (is_hex c \<or> (let n = (of_char c :: nat) in 65 \<le> n \<and> n \<le> 70))"

definition hex_val :: "char \<Rightarrow> nat" where
  "hex_val c = (let n = (of_char c :: nat) in if n \<le> 57 then n - 48 else if n \<le> 70 then n - 55 else n - 87)"

definition hex_num :: "string \<Rightarrow> nat" where
  "hex_num s = foldl (\<lambda>a c. 16 * a + hex_val c) 0 s"

fun show_hex :: "nat \<Rightarrow> string" where
  "show_hex n = (if n < 16 then [hex_digit n] else show_hex (n div 16) @ [hex_digit (n mod 16)])"

declare show_hex.simps [simp del]

section \<open>Addresses\<close>

text \<open>
  \<open>ipaddress.IPv4Address(s)\<close> as its octets, \<open>None\<close> where it raises \<open>AddressValueError\<close>.
\<close>

definition octet_value :: "string \<Rightarrow> nat option" where
  "octet_value p =
     (if p = [] \<or> \<not> list_all is_digit p \<or> length p > 3 \<or> (p \<noteq> ''0'' \<and> hd p = CHR ''0'') then None
      else if num p > 255 then None else Some (num p))"

definition ipv4_octets :: "string \<Rightarrow> nat list option" where
  "ipv4_octets s =
     (if CHR ''/'' \<in> set s \<or> length (split_on (CHR ''.'') s) \<noteq> 4 then None
      else those (map octet_value (split_on (CHR ''.'') s)))"

definition show_octets :: "nat list \<Rightarrow> string" where
  "show_octets ns = join ''.'' (map show_nat ns)"

text \<open>\<open>ipaddress.IPv6Address(s)\<close> as its eight pieces and the scope after a percent sign.\<close>

definition hextet_value :: "string \<Rightarrow> nat option" where
  "hextet_value p = (if p = [] \<or> \<not> list_all is_hexdigit p \<or> length p > 4 then None else Some (hex_num p))"

text \<open>A last part in dotted decimal stands for two pieces.\<close>

definition expand_dotted :: "string list \<Rightarrow> string list option" where
  "expand_dotted parts =
     (if CHR ''.'' \<notin> set (last parts) then Some parts
      else (case ipv4_octets (last parts) of
          Some [a, b, c, d] \<Rightarrow> Some (butlast parts @ [show_hex (256 * a + b), show_hex (256 * c + d)])
        | _ \<Rightarrow> None))"

text \<open>The parts before and after the double colon; an empty part at an end belongs to it.\<close>

definition fill_gap :: "string list \<Rightarrow> string list \<Rightarrow> nat list option" where
  "fill_gap hi lo =
     (if length hi + length lo > 7 then None
      else (case (those (map hextet_value hi), those (map hextet_value lo)) of
          (Some h, Some l) \<Rightarrow> Some (h @ replicate (8 - length h - length l) 0 @ l)
        | _ \<Rightarrow> None))"

definition skipped_hextets :: "string list \<Rightarrow> nat \<Rightarrow> nat list option" where
  "skipped_hextets parts skip =
     (if hd parts = [] \<and> skip \<noteq> 1 \<or> last parts = [] \<and> skip + 2 \<noteq> length parts then None
      else fill_gap (if hd parts = [] then [] else take skip parts) (if last parts = [] then [] else drop (skip + 1) parts))"

definition ipv6_hextets :: "string \<Rightarrow> nat list option" where
  "ipv6_hextets s =
     (if length (split_on (CHR '':'') s) < 3 then None
      else (case expand_dotted (split_on (CHR '':'') s) of
          None \<Rightarrow> None
        | Some parts \<Rightarrow>
            if length parts > 9 then None
            else (case filter (\<lambda>i. parts ! i = []) [1..<length parts - 1] of
                [] \<Rightarrow> (if length parts \<noteq> 8 \<or> hd parts = [] \<or> last parts = [] then None
                       else those (map hextet_value parts))
              | [skip] \<Rightarrow> skipped_hextets parts skip
              | _ \<Rightarrow> None)))"

definition ipv6_parse :: "string \<Rightarrow> (nat list \<times> string option) option" where
  "ipv6_parse s =
     (case partition_on (CHR ''%'') s of
        (addr, scope) \<Rightarrow>
          if CHR ''/'' \<in> set s then None
          else if (case scope of None \<Rightarrow> False | Some z \<Rightarrow> z = [] \<or> CHR ''%'' \<in> set z) then None
          else (case ipv6_hextets addr of None \<Rightarrow> None | Some hs \<Rightarrow> Some (hs, scope)))"

text \<open>The first longest run of zero pieces: its start and length, found by the loop of \<open>ipaddress\<close>.\<close>

fun run_scan :: "nat \<Rightarrow> nat \<times> nat \<Rightarrow> nat \<times> nat \<Rightarrow> nat list \<Rightarrow> nat \<times> nat" where
  "run_scan i best cur [] = best"
| "run_scan i (bs, bl) (cs, cl) (h # hs) =
     (if h \<noteq> 0 then run_scan (i + 1) (bs, bl) (i + 1, 0) hs
      else run_scan (i + 1) (if cl + 1 > bl then (cs, cl + 1) else (bs, bl)) (cs, cl + 1) hs)"

definition compress_hextets :: "nat list \<Rightarrow> string list" where
  "compress_hextets hs =
     (let (start, n) = run_scan 0 (0, 0) (0, 0) hs; ps = map show_hex hs in
      if n \<le> 1 then ps
      else (if start = 0 then [[]] else []) @ take start ps @ [[]] @ drop (start + n) ps @
           (if start + n = length hs then [[]] else []))"

definition show_hextets :: "nat list \<Rightarrow> string option \<Rightarrow> string" where
  "show_hextets hs scope =
     join '':'' (compress_hextets hs) @ (case scope of None \<Rightarrow> [] | Some z \<Rightarrow> CHR ''%'' # z)"

text \<open>\<open>ipaddress.ip_address(s)\<close>, \<open>None\<close> where it raises \<open>ValueError\<close>, and its \<open>compressed\<close> text.\<close>

datatype ip_addr = V4 "nat list" | V6 "nat list" "string option"

definition ip_address :: "string \<Rightarrow> ip_addr option" where
  "ip_address s =
     (case ipv4_octets s of
        Some os \<Rightarrow> Some (V4 os)
      | None \<Rightarrow> (case ipv6_parse s of Some (hs, scope) \<Rightarrow> Some (V6 hs scope) | None \<Rightarrow> None))"

fun compressed :: "ip_addr \<Rightarrow> string" where
  "compressed (V4 os) = show_octets os"
| "compressed (V6 hs scope) = show_hextets hs scope"

section \<open>The block list of the broker\<close>

text \<open>\<open>_normalise_ip_string\<close>.\<close>

definition normalise_ip_string :: "string \<Rightarrow> string" where
  "normalise_ip_string ip =
     (case ip_address (strip ip) of Some a \<Rightarrow> lower (compressed a) | None \<Rightarrow> strip ip)"

definition BLOCKED_IPV4_PREFIXES :: "string list" where
  "BLOCKED_IPV4_PREFIXES =
     [''127.'', ''10.'', ''172.16.'', ''172.17.'', ''172.18.'', ''172.19.'', ''172.20.'', ''172.21.'', ''172.22.'', ''172.23.'',
      ''172.24.'', ''172.25.'', ''172.26.'', ''172.27.'', ''172.28.'', ''172.29.'', ''172.30.'', ''172.31.'', ''192.168.'',
      ''169.254.'', ''100.64.'', ''224.'', ''0.'']"

definition BLOCKED_IPV6_PREFIXES :: "string list" where
  "BLOCKED_IPV6_PREFIXES = [''::1'', ''fc'', ''fd'', ''fe80:'', ''ff'', ''::'']"

definition ip_in_blocked_range :: "string \<Rightarrow> bool" where
  "ip_in_blocked_range ip =
     (let normalised = normalise_ip_string ip in
      if normalised = [] then True
      else if CHR '':'' \<in> set normalised then list_ex (\<lambda>p. starts_with p normalised) BLOCKED_IPV6_PREFIXES
      else list_ex (\<lambda>p. starts_with p normalised) BLOCKED_IPV4_PREFIXES)"

section \<open>What the block list covers\<close>

lemma starts_with_Nil [simp]: "starts_with [] s"
  by (simp add: starts_with_def)

lemma starts_with_Cons [simp]: "starts_with (c # p) (d # s) \<longleftrightarrow> c = d \<and> starts_with p s"
  by (auto simp: starts_with_def)

lemma starts_with_Cons_Nil [simp]: "\<not> starts_with (c # p) []"
  by (simp add: starts_with_def)

lemma starts_with_iff: "starts_with p s \<longleftrightarrow> (\<exists>t. s = p @ t)"
  by (metis append_eq_conv_conj append_take_drop_id starts_with_def)

lemma starts_with_append: "starts_with p s \<Longrightarrow> starts_with p (s @ t)"
  by (auto simp: starts_with_iff)

text \<open>A number and its separator are a prefix of a text that starts with a number only if the numbers agree.\<close>

lemma starts_with_digits:
  assumes "list_all is_digit a" "list_all is_digit b" "\<not> is_digit c"
  shows "starts_with (a @ c # p) (b @ c # r) \<longleftrightarrow> a = b \<and> starts_with p r"
  using assms
proof (induction a arbitrary: b)
  case Nil
  then show ?case by (cases b) auto
next
  case (Cons x a)
  then show ?case by (cases b) auto
qed

definition octet_prefix :: "nat list \<Rightarrow> string" where
  "octet_prefix ms = concat (map (\<lambda>m. show_nat m @ ''.'') ms)"

lemma starts_with_octets:
  "length ms < length ns \<Longrightarrow> starts_with (octet_prefix ms) (show_octets ns) \<longleftrightarrow> take (length ms) ns = ms"
proof (induction ms arbitrary: ns)
  case Nil
  then show ?case by (simp add: octet_prefix_def)
next
  case (Cons m ms)
  then obtain n n' rest where ns: "ns = n # n' # rest" by (cases ns; cases "tl ns") auto
  have "starts_with (octet_prefix (m # ms)) (show_octets ns) \<longleftrightarrow>
      starts_with (show_nat m @ CHR ''.'' # octet_prefix ms) (show_nat n @ CHR ''.'' # show_octets (n' # rest))"
    by (simp add: octet_prefix_def show_octets_def ns)
  also have "\<dots> \<longleftrightarrow> show_nat m = show_nat n \<and> starts_with (octet_prefix ms) (show_octets (n' # rest))"
    by (rule starts_with_digits) (simp_all add: show_nat_digits, simp add: is_digit_def)
  also have "\<dots> \<longleftrightarrow> m = n \<and> take (length ms) (n' # rest) = ms"
    using Cons.IH [of "n' # rest"] Cons.prems ns by (auto simp: show_nat_inject)
  finally show ?case by (auto simp: ns)
qed

lemma blocked_octet_prefixes:
  "BLOCKED_IPV4_PREFIXES = map octet_prefix
     ([[127], [10]] @ map (\<lambda>b. [172, b]) [16..<32] @ [[192, 168], [169, 254], [100, 64], [224], [0]])"
  by code_simp

lemma those_length: "those xs = Some ys \<Longrightarrow> length ys = length xs"
  by (induction xs arbitrary: ys) (auto split: option.splits)

lemma lower_octets: "lower (show_octets ns) = show_octets ns"
proof -
  have d: "lower s = s" if "list_all is_digit s" for s
    using that by (induction s) (auto simp: lower_def to_lower_def is_digit_def Let_def)
  have dot: "to_lower CHR ''.'' = CHR ''.''" by code_simp
  have "lower (join ''.'' ss) = join ''.'' ss" if "list_all (list_all is_digit) ss" for ss
    using that by (induction "''.''" ss rule: join.induct) (simp_all add: lower_def d [unfolded lower_def] dot)
  then show ?thesis by (simp add: show_octets_def list_all_iff show_nat_digits [unfolded list_all_iff])
qed

lemma no_colon_octets: "CHR '':'' \<notin> set (show_octets ns)"
proof -
  have d: "CHR '':'' \<notin> set (show_nat n)" for n
    using show_nat_digits [of n] by (auto simp: list_all_iff is_digit_def)
  have "CHR '':'' \<notin> set (join ''.'' ss)" if "\<forall>s \<in> set ss. CHR '':'' \<notin> set s" for ss
    using that by (induction "''.''" ss rule: join.induct) auto
  then show ?thesis by (simp add: show_octets_def d)
qed

lemma blocked_ipv4:
  assumes "ip_address (strip ip) = Some (V4 [a, b, c, d])"
  shows "ip_in_blocked_range ip \<longleftrightarrow>
    a \<in> {0, 10, 127, 224} \<or> a = 172 \<and> 16 \<le> b \<and> b < 32 \<or> (a, b) \<in> {(192, 168), (169, 254), (100, 64)}"
proof -
  have n: "normalise_ip_string ip = show_octets [a, b, c, d]"
    by (simp add: normalise_ip_string_def assms lower_octets)
  have ne: "show_octets [a, b, c, d] \<noteq> []"
    using starts_with_octets [of "[a]" "[a, b, c, d]"] by (auto simp: octet_prefix_def starts_with_def)
  have one: "starts_with (octet_prefix [m]) (show_octets [a, b, c, d]) \<longleftrightarrow> a = m" for m
    using starts_with_octets [of "[m]" "[a, b, c, d]"] by simp
  have two: "starts_with (octet_prefix [m, m']) (show_octets [a, b, c, d]) \<longleftrightarrow> a = m \<and> b = m'" for m m'
    using starts_with_octets [of "[m, m']" "[a, b, c, d]"] by simp
  have twenty: "list_ex (\<lambda>p. starts_with p (show_octets [a, b, c, d])) (map octet_prefix (map (\<lambda>b. [172, b]) [16..<32])) \<longleftrightarrow>
      a = 172 \<and> 16 \<le> b \<and> b < 32"
    by (auto simp: list_ex_iff two simp del: upt_rec_numeral)
  have "ip_in_blocked_range ip \<longleftrightarrow> list_ex (\<lambda>p. starts_with p (show_octets [a, b, c, d])) BLOCKED_IPV4_PREFIXES"
    using ne no_colon_octets by (simp add: ip_in_blocked_range_def Let_def n)
  also have "\<dots> \<longleftrightarrow> a \<in> {127, 10} \<or> (a = 172 \<and> 16 \<le> b \<and> b < 32) \<or>
      (a, b) \<in> {(192, 168), (169, 254), (100, 64)} \<or> a \<in> {224, 0}"
    unfolding blocked_octet_prefixes map_append list_ex_append twenty by (simp add: one two)
  finally show ?thesis by auto
qed

lemma ipv4_octets_shape:
  assumes "ipv4_octets s = Some os"
  obtains a b c d where "os = [a, b, c, d]"
proof -
  have "length os = 4"
    using assms those_length by (fastforce simp: ipv4_octets_def split: if_splits)
  then show ?thesis by (auto simp: length_Suc_conv numeral_eq_Suc intro: that)
qed

lemma show_hex_four:
  assumes "4096 \<le> n" "n < 65536"
  shows "show_hex n = [hex_digit (n div 4096), hex_digit (n div 256 mod 16), hex_digit (n div 16 mod 16), hex_digit (n mod 16)]"
proof -
  have unroll: "show_hex m = show_hex (m div 16) @ [hex_digit (m mod 16)]" if "16 \<le> m" for m
    using that by (subst show_hex.simps) simp
  have "16 \<le> n" "16 \<le> n div 16" "16 \<le> n div 256" "n div 4096 < 16" using assms by (simp_all add: less_eq_div_iff_mult_less_eq less_mult_imp_div_less)
  then show ?thesis
    using unroll [of n] unroll [of "n div 16"] unroll [of "n div 256"]
    by (simp add: div_mult2_eq [symmetric] show_hex.simps [of "n div 4096"])
qed

lemma hex_digit_values [simp]:
  "hex_digit 0 = CHR ''0''" "hex_digit (Suc 0) = CHR ''1''" "hex_digit 8 = CHR ''8''" "hex_digit 9 = CHR ''9''" "hex_digit 12 = CHR ''c''" "hex_digit 13 = CHR ''d''"
  "hex_digit 14 = CHR ''e''" "hex_digit 15 = CHR ''f''"
  by code_simp+

lemma run_scan_late:
  assumes "run_scan i (bs, bl) (cs, cl) hs = (s, n)" "0 < i" "0 < cs" "bl = 0 \<or> 0 < bs"
  shows "n = 0 \<or> 0 < s"
  using assms by (induction i "(bs, bl)" "(cs, cl)" hs arbitrary: bs bl cs cl rule: run_scan.induct) (auto split: if_splits)

lemma compress_nonzero:
  assumes "h \<noteq> 0" "hs \<noteq> []"
  shows "\<exists>q qs. compress_hextets (h # hs) = show_hex h # q # qs"
proof -
  obtain s n where sn: "run_scan 1 (0, 0) (1, 0) hs = (s, n)" by fastforce
  then have late: "n = 0 \<or> 0 < s" using run_scan_late by fastforce
  have scan: "run_scan 0 (0, 0) (0, 0) (h # hs) = (s, n)" using sn assms(1) by simp
  obtain g gs where g: "hs = g # gs" using assms(2) by (cases hs) auto
  have c: "compress_hextets (h # hs) = (let ps = map show_hex (h # hs) in
      if n \<le> 1 then ps
      else (if s = 0 then [[]] else []) @ take s ps @ [[]] @ drop (s + n) ps @ (if s + n = length (h # hs) then [[]] else []))"
    unfolding compress_hextets_def scan by simp
  show ?thesis
  proof (cases "n \<le> 1")
    case True
    then show ?thesis unfolding c by (simp add: g)
  next
    case False
    with late obtain s' where s: "s = Suc s'" by (cases s) auto
    with False have "compress_hextets (h # hs) = show_hex h # (take s' (map show_hex hs) @ [[]] @ drop (s' + n) (map show_hex hs) @
        (if s + n = length (h # hs) then [[]] else []))"
      unfolding c Let_def by simp
    then show ?thesis by (cases "take s' (map show_hex hs)") auto
  qed
qed

lemma compress_zeros:
  "\<exists>q qs. compress_hextets [0, 0, 0, 0, 0, f, x, y] = [] # [] # q # qs"
  by (cases "f = 0"; cases "x = 0"; cases "y = 0") (simp_all add: compress_hextets_def numeral_eq_Suc)

lemma lower_append: "lower (s @ t) = lower s @ lower t"
  by (simp add: lower_def)

lemma starts_with_lower: "starts_with p s \<Longrightarrow> lower p = p \<Longrightarrow> starts_with p (lower s)"
  by (auto simp: starts_with_iff lower_append)

lemma those_set: "those xs = Some ys \<Longrightarrow> set ys = {y. Some y \<in> set xs}"
  by (induction xs arbitrary: ys) (auto split: option.splits)

lemma hex_num_bound: "list_all is_hexdigit s \<Longrightarrow> hex_num s < 16 ^ length s"
proof (induction s rule: rev_induct)
  case (snoc c s)
  then have "hex_val c < 16" "hex_num s < 16 ^ length s"
    by (auto simp: is_hexdigit_def is_hex_def hex_val_def Let_def)
  then show ?case by (simp add: hex_num_def)
qed (simp add: hex_num_def)

lemma hextet_value_bound: "hextet_value p = Some n \<Longrightarrow> n < 65536"
proof -
  assume "hextet_value p = Some n"
  then have "n < 16 ^ length p" "length p \<le> 4" using hex_num_bound by (auto simp: hextet_value_def split: if_splits)
  moreover from this have "(16::nat) ^ length p \<le> 16 ^ 4" by (intro power_increasing) auto
  ultimately show ?thesis by simp
qed

lemma hextets_bound: "those (map hextet_value ps) = Some hs \<Longrightarrow> length hs = length ps \<and> (\<forall>h \<in> set hs. h < 65536)"
  using those_length those_set hextet_value_bound by fastforce

lemma skipped_hextets_shape:
  assumes "skipped_hextets parts skip = Some hs"
  shows "length hs = 8 \<and> (\<forall>h \<in> set hs. h < 65536)"
proof -
  obtain hi lo where "fill_gap hi lo = Some hs"
    using assms unfolding skipped_hextets_def by (meson option.distinct(1))
  then obtain h l where "length hi + length lo \<le> 7" "those (map hextet_value hi) = Some h"
      "those (map hextet_value lo) = Some l" "hs = h @ replicate (8 - length h - length l) 0 @ l"
    unfolding fill_gap_def by (auto simp: not_less split: if_splits option.splits)
  then show ?thesis using hextets_bound [of hi h] hextets_bound [of lo l] by auto
qed

lemma ipv6_hextets_cases:
  assumes "ipv6_hextets s = Some hs"
  obtains parts skip where "skipped_hextets parts skip = Some hs"
    | parts where "length parts = 8" "those (map hextet_value parts) = Some hs"
  using assms unfolding ipv6_hextets_def
  by (simp only: split: if_splits option.splits list.splits) (auto intro: that)

lemma ipv6_hextets_shape:
  assumes "ipv6_hextets s = Some hs"
  shows "length hs = 8 \<and> (\<forall>h \<in> set hs. h < 65536)"
  using assms by (rule ipv6_hextets_cases) (use skipped_hextets_shape hextets_bound in force)+

lemma ip_address_V6:
  assumes "ip_address s = Some (V6 hs scope)"
  obtains h hs' where "hs = h # hs'" "length hs' = 7" "h < 65536"
proof -
  obtain addr where "ipv6_hextets addr = Some hs"
    using assms unfolding ip_address_def ipv6_parse_def by (auto split: option.splits prod.splits if_splits)
  from ipv6_hextets_shape [OF this] show ?thesis using that by (cases hs) auto
qed

lemma ip_address_V4:
  assumes "ip_address s = Some (V4 os)"
  obtains a b c d where "os = [a, b, c, d]"
proof -
  have "ipv4_octets s = Some os"
    using assms unfolding ip_address_def by (simp split: option.splits prod.splits)
  then show ?thesis by (rule ipv4_octets_shape) (rule that)
qed

definition covered_v6 :: "nat list \<Rightarrow> bool" where
  "covered_v6 hs \<longleftrightarrow> take 5 hs = replicate 5 0 \<or> 0xfc00 \<le> hs ! 0 \<and> hs ! 0 < 0xfe00 \<or> 0xff00 \<le> hs ! 0 \<or> hs ! 0 = 0xfe80"

lemma blocked_ipv6_text:
  assumes "p \<in> {''::'', ''fc'', ''fd'', ''fe80:'', ''ff''}" "starts_with p (show_hextets hs scope)" "CHR '':'' \<in> set (show_hextets hs scope)"
    and "ip_address (strip ip) = Some (V6 hs scope)"
  shows "ip_in_blocked_range ip"
proof -
  have n: "normalise_ip_string ip = lower (show_hextets hs scope)" using assms(4) by (simp add: normalise_ip_string_def)
  have "lower p = p" using assms(1) by (elim insertE emptyE) (simp_all add: lower_def to_lower_def)
  with assms(2) have "starts_with p (lower (show_hextets hs scope))" by (simp add: starts_with_lower)
  moreover have "CHR '':'' \<in> set (lower (show_hextets hs scope))"
    using assms(3) by (force simp: lower_def to_lower_def image_iff)
  ultimately show ?thesis using assms(1)
    by (auto simp: ip_in_blocked_range_def n BLOCKED_IPV6_PREFIXES_def)
qed

lemma blocked_ipv6:
  assumes ip: "ip_address (strip ip) = Some (V6 hs scope)" and "covered_v6 hs"
  shows "ip_in_blocked_range ip"
proof -
  obtain h hs' where hs: "hs = h # hs'" "length hs' = 7" "h < 65536" using ip_address_V6 [OF ip] .
  show ?thesis
  proof (cases "take 5 hs = replicate 5 0")
    case True
    then obtain f x y where "hs = [0, 0, 0, 0, 0, f, x, y]"
      using hs(1,2) by (auto simp: numeral_eq_Suc length_Suc_conv)
    then obtain q qs where "compress_hextets hs = [] # [] # q # qs" using compress_zeros by blast
    then have t: "starts_with ''::'' (show_hextets hs scope)" by (simp add: show_hextets_def)
    moreover from this have "CHR '':'' \<in> set (show_hextets hs scope)" by (auto simp: starts_with_iff)
    ultimately show ?thesis using blocked_ipv6_text [of "''::''"] ip by blast
  next
    case False
    with assms(2) hs have h: "h = 0xfe80 \<or> h div 256 \<in> {0xfc, 0xfd, 0xff}" "4096 \<le> h" by (auto simp: covered_v6_def)
    obtain q qs where "compress_hextets hs = show_hex h # q # qs" using compress_nonzero [of h hs'] hs h(2) by fastforce
    then obtain r where r: "show_hextets hs scope = show_hex h @ CHR '':'' # r" by (simp add: show_hextets_def)
    then have colon: "CHR '':'' \<in> set (show_hextets hs scope)" by simp
    from h(1) obtain p where "p \<in> {''::'', ''fc'', ''fd'', ''fe80:'', ''ff''}" "starts_with p (show_hextets hs scope)"
    proof
      assume "h = 0xfe80"
      then show ?thesis using that [of "''fe80:''"] r by (simp add: show_hex_four)
    next
      assume d: "h div 256 \<in> {0xfc, 0xfd, 0xff}"
      then have "h div 4096 = 15" "h div 256 mod 16 \<in> {12, 13, 15}" by auto
      then show ?thesis using that [of "''fc''"] that [of "''fd''"] that [of "''ff''"] r h(2) hs(3)
        by (auto simp: show_hex_four)
    qed
    then show ?thesis using blocked_ipv6_text colon ip by blast
  qed
qed

text \<open>
  The blocked addresses, whatever text they are written in. Of the IPv4 addresses the check refuses exactly
  0.0.0.0/8, 10/8, 127/8, 172.16/12, 192.168/16, 169.254/16, 100.64.0.0/16 and 224.0.0.0/8; of the IPv6
  addresses it refuses all whose first 80 bits are zero (so ::1 and every IPv4-mapped address), fc00::/7,
  fe80::/16 and ff00::/8.
\<close>

theorem blocked_ranges:
  shows "(ip_address (strip ip) = Some (V4 [a, b, c, d]) \<longrightarrow>
      (ip_in_blocked_range ip \<longleftrightarrow> a \<in> {0, 10, 127, 224} \<or> a = 172 \<and> 16 \<le> b \<and> b < 32 \<or> (a, b) \<in> {(192, 168), (169, 254), (100, 64)})) \<and>
    (ip_address (strip ip) = Some (V6 hs scope) \<and> covered_v6 hs \<longrightarrow> ip_in_blocked_range ip)"
  using blocked_ipv4 blocked_ipv6 by blast

lemma cgnat_address: "ip_address (strip ''100.65.0.1'') = Some (V4 [100, 65, 0, 1])"
  by code_simp

lemma multicast_address: "ip_address (strip ''225.0.0.1'') = Some (V4 [225, 0, 0, 1])"
  by code_simp

lemma link_local_address: "ip_address (strip ''fe90::1'') = Some (V6 [0xfe90, 0, 0, 0, 0, 0, 0, 1] None)"
proof -
  have parts: "split_on (CHR '':'') ''fe90::1'' = [''fe90'', [], ''1'']" "strip ''fe90::1'' = ''fe90::1''"
    "ipv4_octets ''fe90::1'' = None" "partition_on (CHR ''%'') ''fe90::1'' = (''fe90::1'', None)" by code_simp+
  have "hextet_value ''fe90'' = Some 0xfe90" "hextet_value ''1'' = Some 1"
    by (simp_all add: hextet_value_def hex_num_def hex_val_def is_hexdigit_def is_hex_def Let_def)
  moreover have "replicate 6 0 = [0, 0, 0, 0, 0, 0 :: nat]" "filter (\<lambda>i. [''fe90'', [], ''1''] ! i = []) [1..<2] = [1]"
    by code_simp+
  ultimately have "ipv6_hextets ''fe90::1'' = Some [0xfe90, 0, 0, 0, 0, 0, 0, 1]"
    by (simp add: ipv6_hextets_def parts expand_dotted_def skipped_hextets_def fill_gap_def)
  then show ?thesis by (simp add: ip_address_def ipv6_parse_def parts)
qed

lemma link_local_text: "normalise_ip_string ''fe90::1'' = ''fe90::1''"
proof -
  have "show_hex 0xfe90 = ''fe90''" by (simp add: show_hex_four)
  then have "compress_hextets [0xfe90, 0, 0, 0, 0, 0, 0, 1] = [''fe90'', [], ''1'']"
    by (simp add: compress_hextets_def show_hex.simps)
  then show ?thesis
    by (simp add: normalise_ip_string_def link_local_address show_hextets_def lower_def to_lower_def)
qed

text \<open>Addresses of three ranges the documentation names that pass the check.\<close>

lemma documented_ranges_pass:
  "\<not> ip_in_blocked_range ''100.65.0.1''" "\<not> ip_in_blocked_range ''225.0.0.1''" "\<not> ip_in_blocked_range ''fe90::1''"
  by (simp_all add: blocked_ipv4 [OF cgnat_address] blocked_ipv4 [OF multicast_address])
    (simp add: ip_in_blocked_range_def link_local_text BLOCKED_IPV6_PREFIXES_def)

end
