(* ===== verification/BrokerPolicy.thy ===== *)
theory BrokerPolicy
  imports BrokerProtocol IpAddress ControlStore
begin

text \<open>
  The policy of the host broker (\<open>host/news_egress_broker.py\<close>): its exceptions and their categories, and the
  validation of the TOML document, section by section. What the broker uses of \<open>urllib\<close> is the
  record \<open>netparse\<close>.
\<close>

section \<open>What the broker takes from the standard library\<close>

text \<open>
  \<^item> \<open>url_split u\<close>: \<open>urllib.parse.urlsplit(u)\<close> (\<open>urlparse\<close> agrees on the fields the broker reads there),
    \<open>Inl ValueError\<close> where it raises. \<open>u_port\<close> is the property \<open>port\<close>, which raises \<open>ValueError\<close> on a port
    that is not a number in range.
  \<^item> \<open>url_unsplit\<close>, \<open>url_join\<close>: \<open>urlunsplit\<close> of the five parts and \<open>urljoin\<close>.
  \<^item> \<open>request_url u\<close>: \<open>Request(u).full_url\<close>, the text urllib keeps of an address; \<open>None\<close> where the constructor
    raises \<open>ValueError\<close>.
  \<^item> \<open>utf8_decode b\<close>: \<open>b.decode("utf-8")\<close>, \<open>None\<close> where it raises.
  \<^item> \<open>exc_text stage s\<close>: the text of an exception that was raised for \<open>s\<close>, as far as the broker puts it into a message.
\<close>

record url_parts =
  u_scheme :: string
  u_netloc :: string
  u_path :: string
  u_query :: string
  u_fragment :: string
  u_hostname :: "string option"
  u_port :: "int option result"

record netparse =
  url_split :: "string \<Rightarrow> url_parts result"
  url_unsplit :: "string \<times> string \<times> string \<times> string \<times> string \<Rightarrow> string"
  url_join :: "string \<Rightarrow> string \<Rightarrow> string result"
  request_url :: "string \<Rightarrow> string option"
  utf8_decode :: "string \<Rightarrow> string option"
  exc_text :: "string \<Rightarrow> string \<Rightarrow> string"

section \<open>Errors\<close>

text \<open>
  The two exceptions of the broker and everything else that can be raised below the request handler.
\<close>

datatype host_error = BrokerConfigError | BrokerRequestError string | UnexpectedError

type_synonym 'a host_result = "host_error + 'a"

text \<open>\<open>_safe_error_category\<close>.\<close>

definition ERROR_CATEGORIES :: "(string list \<times> string) list" where
  "ERROR_CATEGORIES =
     [([''timeout'', ''deadline''], ''request_timeout''),
      ([''transfer-encoding''], ''invalid_request_transfer-encoding''),
      ([''end of request''], ''invalid_request_end of request''),
      ([''content-length''], ''invalid_request_Content-Length''),
      ([''extra'', ''trailing''], ''invalid_request_extra_data''),
      ([''path''], ''invalid_request_path''),
      ([''allowlist''], ''policy_denied_allowlist''),
      ([''blocked''], ''policy_denied_blocked_address''),
      ([''https''], ''policy_denied_https''),
      ([''userinfo''], ''policy_denied_userinfo''),
      ([''stream''], ''invalid_request_stream''),
      ([''port''], ''policy_denied_port''),
      ([''too large'', ''exceeded''], ''request_too_large''),
      ([''upstream''], ''upstream_failure''),
      ([''json'', ''utf-8'', ''envelope''], ''invalid_request_envelope''),
      ([''socket'', ''read failed'', ''io''], ''invalid_request_io'')]"

definition safe_error_category :: "string \<Rightarrow> string" where
  "safe_error_category detail =
     (case find (\<lambda>(needles, category). list_ex (\<lambda>needle. contains needle (lower detail)) needles) ERROR_CATEGORIES of
        Some (needles, category) \<Rightarrow> category
      | None \<Rightarrow> ''invalid_request'')"

section \<open>Numbers of the policy\<close>

definition MAX_REQUEST_BYTES :: int where
  "MAX_REQUEST_BYTES = 64 * 1024"

definition MAX_FEED_REDIRECTS :: int where
  "MAX_FEED_REDIRECTS = 3"

definition require_exact_keys :: "pydict \<Rightarrow> string list \<Rightarrow> unit host_result" where
  "require_exact_keys raw allowed = guard (set (map fst raw) \<subseteq> set allowed) BrokerConfigError"

text \<open>A finite number as a rational; an integer too large for a float is an \<open>OverflowError\<close>.\<close>

definition host_number :: "host_error \<Rightarrow> pyval \<Rightarrow> rat host_result" where
  "host_number e v =
     (case finite_number BrokerProtocolError v of
        Inl FloatOverflow \<Rightarrow> Inl UnexpectedError
      | Inl _ \<Rightarrow> Inl e
      | Inr q \<Rightarrow> Inr q)"

definition policy_number :: "pyval \<Rightarrow> rat \<Rightarrow> rat host_result" where
  "policy_number v maximum =
     bind_result (host_number BrokerConfigError v) (\<lambda>q. if q \<le> 0 \<or> q > maximum then Inl BrokerConfigError else Inr q)"

definition policy_integer :: "pyval \<Rightarrow> rat \<Rightarrow> int host_result" where
  "policy_integer v maximum =
     bind_result (policy_number v maximum) (\<lambda>q. if floor q \<le> 0 then Inl BrokerConfigError else Inr (floor q))"

text \<open>
  \<open>int(v)\<close>, where every failure is an exception of another class than the broker's. A text of more than
  4300 digits is one of them.
\<close>

definition truncate_rat :: "rat \<Rightarrow> int" where
  "truncate_rat q = (if q < 0 then ceiling q else floor q)"

definition to_int :: "pyval \<Rightarrow> int host_result" where
  "to_int v =
     (case v of
        PInt i \<Rightarrow> Inr i
      | PBool b \<Rightarrow> Inr (if b then 1 else 0)
      | PFloat (Finite q) \<Rightarrow> Inr (truncate_rat q)
      | PFloat NegZero \<Rightarrow> Inr 0
      | PStr s \<Rightarrow> (if length (filter is_digit s) > 4300 then Inl UnexpectedError
          else (case py_int s of Inr i \<Rightarrow> Inr i | Inl e \<Rightarrow> Inl UnexpectedError))
      | _ \<Rightarrow> Inl UnexpectedError)"

section \<open>The sections of a policy\<close>

record common_policy =
  max_request_bytes :: int
  max_response_bytes :: int
  common_timeout :: rat
  max_concurrency :: int

definition common_from_mapping :: "pydict \<Rightarrow> common_policy host_result" where
  "common_from_mapping raw =
     bind_result (require_exact_keys raw
       [''max_request_bytes'', ''max_response_bytes'', ''timeout_seconds'', ''max_concurrency'', ''max_connections'']) (\<lambda>_.
     bind_result (policy_integer (get_or raw ''max_request_bytes'' (PInt MAX_REQUEST_BYTES)) (of_int MAX_REQUEST_BYTES)) (\<lambda>max_request.
     bind_result (policy_integer (get_or raw ''max_response_bytes'' (PInt (2 * 1024 * 1024))) (8 * 1024 * 1024)) (\<lambda>max_response.
     bind_result (policy_number (get_or raw ''timeout_seconds'' (PFloat (Finite 15))) 120) (\<lambda>timeout.
     bind_result (policy_integer (get_or raw ''max_concurrency'' (get_or raw ''max_connections'' (PInt 16))) 256) (\<lambda>concurrency.
       if max_request \<le> 0 \<or> max_request > MAX_REQUEST_BYTES \<or> max_response \<le> 0 \<or> max_response > 8 * 1024 * 1024 \<or>
          timeout \<le> 0 \<or> timeout > 120 \<or> concurrency \<le> 0 \<or> concurrency > 256
       then Inl BrokerConfigError
       else Inr \<lparr>max_request_bytes = max_request, max_response_bytes = max_response, common_timeout = timeout,
              max_concurrency = concurrency\<rparr>)))))"

text \<open>\<open>urlsplit\<close> in a validator that does not catch its \<open>ValueError\<close>.\<close>

definition split_unguarded :: "netparse \<Rightarrow> string \<Rightarrow> url_parts host_result" where
  "split_unguarded N u = (case url_split N u of Inl e \<Rightarrow> Inl UnexpectedError | Inr p \<Rightarrow> Inr p)"

definition has_hostname :: "url_parts \<Rightarrow> bool" where
  "has_hostname p = (case u_hostname p of Some h \<Rightarrow> h \<noteq> [] | None \<Rightarrow> False)"

definition netloc_has_userinfo :: "string \<Rightarrow> bool" where
  "netloc_has_userinfo netloc = (CHR ''@'' \<in> set netloc)"

definition non_empty_str :: "pyval option \<Rightarrow> string host_result" where
  "non_empty_str v = (case v of Some (PStr s) \<Rightarrow> if s = [] then Inl BrokerConfigError else Inr s | _ \<Rightarrow> Inl BrokerConfigError)"

definition a_str :: "pyval \<Rightarrow> string host_result" where
  "a_str v = (case v of PStr s \<Rightarrow> Inr s | _ \<Rightarrow> Inl BrokerConfigError)"

definition a_list :: "pyval \<Rightarrow> pyval list host_result" where
  "a_list v = (case v of PList vs \<Rightarrow> Inr vs | _ \<Rightarrow> Inl BrokerConfigError)"

definition a_bool :: "pyval \<Rightarrow> bool host_result" where
  "a_bool v = (case v of PBool b \<Rightarrow> Inr b | _ \<Rightarrow> Inl BrokerConfigError)"

definition search_from_mapping :: "netparse \<Rightarrow> pydict \<Rightarrow> string host_result" where
  "search_from_mapping N raw =
     bind_result (require_exact_keys raw [''base_url'']) (\<lambda>_.
     bind_result (non_empty_str (map_of raw ''base_url'')) (\<lambda>base_url.
     bind_result (split_unguarded N base_url) (\<lambda>p.
       if u_scheme p \<noteq> ''http'' \<or> \<not> has_hostname p then Inl BrokerConfigError else Inr base_url)))"

definition feed_host_from_raw :: "pyval \<Rightarrow> string host_result" where
  "feed_host_from_raw raw =
     (case raw of PStr s \<Rightarrow>
        if s = [] then Inl BrokerConfigError
        else (let host = lower (strip s) in
          if host = [] \<or> CHR ''/'' \<in> set host \<or> CHR '':'' \<in> set host then Inl BrokerConfigError else Inr host)
      | _ \<Rightarrow> Inl BrokerConfigError)"

record feed_policy =
  feed_hosts :: "string list"
  feed_max_redirects :: int

definition feed_from_mapping :: "pydict \<Rightarrow> feed_policy host_result" where
  "feed_from_mapping raw =
     bind_result (require_exact_keys raw [''allowed_hosts'', ''max_redirects'']) (\<lambda>_.
     bind_result (a_list (get_or raw ''allowed_hosts'' PNone)) (\<lambda>entries.
       if entries = [] then Inl BrokerConfigError
       else bind_result (map_result feed_host_from_raw entries) (\<lambda>hosts.
         bind_result (to_int (get_or raw ''max_redirects'' (PInt MAX_FEED_REDIRECTS))) (\<lambda>n.
           if n < 0 \<or> n > MAX_FEED_REDIRECTS then Inl BrokerConfigError
           else Inr \<lparr>feed_hosts = hosts, feed_max_redirects = n\<rparr>))))"

text \<open>\<open>FeedPolicy.is_allowed\<close> and \<open>ArticlePolicy.is_allowed\<close>.\<close>

definition host_allowed :: "string list \<Rightarrow> string \<Rightarrow> bool" where
  "host_allowed hosts host = list_ex (\<lambda>entry. entry = lower host) hosts"

record article_policy =
  article_enabled :: bool
  article_hosts :: "string list"

text \<open>
  \<open>set(raw)\<close> of a value that is no table: the characters of a text, the items of a list (which must be
  hashable), an error for anything else; then \<open>raw.get\<close> is missing.
\<close>

definition not_a_table :: "pyval \<Rightarrow> host_error" where
  "not_a_table v =
     (case v of
        PStr s \<Rightarrow> if s = [] then UnexpectedError else BrokerConfigError
      | PList vs \<Rightarrow>
          if list_ex (\<lambda>w. case w of PList _ \<Rightarrow> True | PDict _ \<Rightarrow> True | _ \<Rightarrow> False) vs \<or>
             set vs \<subseteq> {PStr ''enabled'', PStr ''allowed_hosts''} then UnexpectedError
          else BrokerConfigError
      | _ \<Rightarrow> UnexpectedError)"

definition article_from_mapping :: "pyval \<Rightarrow> article_policy host_result" where
  "article_from_mapping v =
     (case v of
        PNone \<Rightarrow> Inr \<lparr>article_enabled = False, article_hosts = []\<rparr>
      | PDict raw \<Rightarrow>
          bind_result (require_exact_keys raw [''enabled'', ''allowed_hosts'']) (\<lambda>_.
          bind_result (a_bool (get_or raw ''enabled'' (PBool False))) (\<lambda>enabled.
          bind_result (a_list (get_or raw ''allowed_hosts'' (PList []))) (\<lambda>entries.
          bind_result (map_result feed_host_from_raw entries) (\<lambda>hosts.
            if \<not> distinct hosts then Inl BrokerConfigError
            else if enabled \<and> hosts = [] then Inl BrokerConfigError
            else Inr \<lparr>article_enabled = enabled, article_hosts = hosts\<rparr>))))
      | w \<Rightarrow> Inl (not_a_table w))"

record llm_policy =
  llm_base_url :: string
  llm_model :: string
  llm_path :: string
  llm_max_response_bytes :: int

definition llm_from_mapping :: "netparse \<Rightarrow> pydict \<Rightarrow> llm_policy host_result" where
  "llm_from_mapping N raw =
     bind_result (require_exact_keys raw [''base_url'', ''model'', ''path'', ''max_response_bytes'']) (\<lambda>_.
     bind_result (non_empty_str (map_of raw ''base_url'')) (\<lambda>base_url.
     bind_result (split_unguarded N base_url) (\<lambda>p.
       if u_scheme p \<notin> {''http'', ''https''} \<or> \<not> has_hostname p then Inl BrokerConfigError
       else if netloc_has_userinfo (u_netloc p) then Inl BrokerConfigError
       else bind_result (non_empty_str (map_of raw ''model'')) (\<lambda>model.
       bind_result (a_str (get_or raw ''path'' (PStr ''/v1/chat/completions''))) (\<lambda>path.
         if \<not> starts_with ''/'' path then Inl BrokerConfigError
         else bind_result (to_int (get_or raw ''max_response_bytes'' (PInt (4 * 1024 * 1024)))) (\<lambda>max_response.
           if max_response \<le> 0 \<or> max_response > 8 * 1024 * 1024 then Inl BrokerConfigError
           else Inr \<lparr>llm_base_url = base_url, llm_model = model, llm_path = path,
                  llm_max_response_bytes = max_response\<rparr>))))))"

record broker_policy =
  pol_common :: common_policy
  pol_search :: string
  pol_feed :: feed_policy
  pol_llm :: llm_policy
  pol_article :: article_policy
  pol_log_level :: string

text \<open>\<open>str.upper\<close> on these code points (two of them have capitals above 255, which no log level contains).\<close>

definition str_upper :: "string \<Rightarrow> string" where
  "str_upper s = concat (map (\<lambda>c. let n = (of_char c :: nat) in
     if n = 223 then ''SS'' else if 97 \<le> n \<and> n \<le> 122 \<or> 224 \<le> n \<and> n \<le> 254 \<and> n \<noteq> 247 then [char_of (n - 32)] else [c]) s)"

definition as_table :: "pyval \<Rightarrow> pydict host_result" where
  "as_table v = (case v of PDict d \<Rightarrow> Inr d | _ \<Rightarrow> Inl BrokerConfigError)"

definition policy_from_mapping :: "netparse \<Rightarrow> pylib \<Rightarrow> pyval \<Rightarrow> broker_policy host_result" where
  "policy_from_mapping N L v =
     bind_result (as_table v) (\<lambda>raw.
     bind_result (require_exact_keys raw [''version'', ''common'', ''search'', ''feed'', ''llm'', ''log_level'', ''article'']) (\<lambda>_.
       if \<not> py_eq_int (get_or raw ''version'' PNone) 1 then Inl BrokerConfigError
       else bind_result (as_table (get_or raw ''common'' (PDict []))) (\<lambda>common_raw.
         bind_result (as_table (get_or raw ''search'' (PDict []))) (\<lambda>search_raw.
         bind_result (as_table (get_or raw ''feed'' (PDict []))) (\<lambda>feed_raw.
         bind_result (as_table (get_or raw ''llm'' (PDict []))) (\<lambda>llm_raw.
           let level = str_upper (py_str L (get_or raw ''log_level'' (PStr ''INFO''))) in
           if level \<notin> {''DEBUG'', ''INFO'', ''WARNING'', ''ERROR''} then Inl BrokerConfigError
           else bind_result (common_from_mapping common_raw) (\<lambda>c.
             bind_result (search_from_mapping N search_raw) (\<lambda>s.
             bind_result (feed_from_mapping feed_raw) (\<lambda>f.
             bind_result (llm_from_mapping N llm_raw) (\<lambda>l.
             bind_result (article_from_mapping (get_or raw ''article'' PNone)) (\<lambda>a.
               Inr \<lparr>pol_common = c, pol_search = s, pol_feed = f, pol_llm = l, pol_article = a, pol_log_level = level\<rparr>)))))))))))"

section \<open>What a loaded policy guarantees\<close>

definition bare_host :: "string \<Rightarrow> bool" where
  "bare_host h \<longleftrightarrow> h \<noteq> [] \<and> CHR ''/'' \<notin> set h \<and> CHR '':'' \<notin> set h \<and> lower h = h"

definition common_ok :: "common_policy \<Rightarrow> bool" where
  "common_ok c \<longleftrightarrow> 1 \<le> max_request_bytes c \<and> max_request_bytes c \<le> MAX_REQUEST_BYTES \<and>
     1 \<le> max_response_bytes c \<and> max_response_bytes c \<le> 8 * 1024 * 1024 \<and> 0 < common_timeout c \<and> common_timeout c \<le> 120 \<and>
     1 \<le> max_concurrency c \<and> max_concurrency c \<le> 256"

definition feed_ok :: "feed_policy \<Rightarrow> bool" where
  "feed_ok f \<longleftrightarrow> feed_hosts f \<noteq> [] \<and> list_all bare_host (feed_hosts f) \<and>
     0 \<le> feed_max_redirects f \<and> feed_max_redirects f \<le> MAX_FEED_REDIRECTS"

definition article_ok :: "article_policy \<Rightarrow> bool" where
  "article_ok a \<longleftrightarrow> list_all bare_host (article_hosts a) \<and> distinct (article_hosts a) \<and> (article_enabled a \<longrightarrow> article_hosts a \<noteq> [])"

definition llm_ok :: "netparse \<Rightarrow> llm_policy \<Rightarrow> bool" where
  "llm_ok N l \<longleftrightarrow> llm_model l \<noteq> [] \<and> starts_with ''/'' (llm_path l) \<and> 1 \<le> llm_max_response_bytes l \<and>
     llm_max_response_bytes l \<le> 8 * 1024 * 1024 \<and>
     (\<exists>p. url_split N (llm_base_url l) = Inr p \<and> u_scheme p \<in> {''http'', ''https''} \<and> has_hostname p \<and>
        \<not> netloc_has_userinfo (u_netloc p))"

definition policy_ok :: "netparse \<Rightarrow> broker_policy \<Rightarrow> bool" where
  "policy_ok N p \<longleftrightarrow> common_ok (pol_common p) \<and> feed_ok (pol_feed p) \<and> article_ok (pol_article p) \<and> llm_ok N (pol_llm p) \<and>
     (\<exists>q. url_split N (pol_search p) = Inr q \<and> u_scheme q = ''http'' \<and> has_hostname q)"

lemma to_lower_idem [simp]: "to_lower (to_lower c) = to_lower c"
proof -
  have "of_char (to_lower c) = (let n = (of_char c :: nat) in
      if 65 \<le> n \<and> n \<le> 90 \<or> 192 \<le> n \<and> n \<le> 222 \<and> n \<noteq> 215 then n + 32 else n)"
    by (auto simp: to_lower_def Let_def)
  then show ?thesis by (auto simp: to_lower_def Let_def split: if_splits)
qed

lemma lower_idem [simp]: "lower (lower s) = lower s"
  by (simp add: lower_def)

lemma feed_host_ok: "feed_host_from_raw v = Inr h \<Longrightarrow> bare_host h"
  by (auto simp: feed_host_from_raw_def bare_host_def Let_def split: pyval.splits if_splits)

lemma feed_hosts_ok: "map_result feed_host_from_raw vs = Inr hs \<Longrightarrow> list_all bare_host hs"
  by (induction vs arbitrary: hs) (auto intro: feed_host_ok split: sum.splits)

lemma field_Inr [simp]:
  "a_str v = Inr s \<longleftrightarrow> v = PStr s" "a_list v = Inr vs \<longleftrightarrow> v = PList vs" "a_bool v = Inr b \<longleftrightarrow> v = PBool b"
  "as_table v = Inr d \<longleftrightarrow> v = PDict d"
  by (cases v; simp add: a_str_def a_list_def a_bool_def as_table_def)+

lemma non_empty_str_Inr [simp]: "non_empty_str v = Inr s \<longleftrightarrow> v = Some (PStr s) \<and> s \<noteq> []"
  by (auto simp: non_empty_str_def split: option.splits pyval.splits if_splits)

lemma split_unguarded_Inr [simp]: "split_unguarded N u = Inr p \<longleftrightarrow> url_split N u = Inr p"
  by (simp add: split_unguarded_def split: sum.splits)

lemma policy_number_Inr: "policy_number v m = Inr q \<Longrightarrow> 0 < q \<and> q \<le> m"
  by (auto simp: policy_number_def split: if_splits)

lemma common_from_mapping_ok: "common_from_mapping raw = Inr c \<Longrightarrow> common_ok c"
  by (auto simp: common_from_mapping_def common_ok_def split: if_splits dest: policy_number_Inr)

lemma feed_from_mapping_ok: "feed_from_mapping raw = Inr f \<Longrightarrow> feed_ok f"
  by (auto simp: feed_from_mapping_def feed_ok_def feed_hosts_ok map_result_Inr_iff split: if_splits)

lemma article_from_mapping_ok: "article_from_mapping v = Inr a \<Longrightarrow> article_ok a"
  by (cases v) (auto simp: article_from_mapping_def article_ok_def feed_hosts_ok split: if_splits)

lemma llm_from_mapping_ok: "llm_from_mapping N raw = Inr l \<Longrightarrow> llm_ok N l"
  by (auto simp: llm_from_mapping_def llm_ok_def split: if_splits)

lemma search_from_mapping_ok:
  "search_from_mapping N raw = Inr s \<Longrightarrow> \<exists>q. url_split N s = Inr q \<and> u_scheme q = ''http'' \<and> has_hostname q"
  by (auto simp: search_from_mapping_def split: if_splits)

text \<open>Nothing else is asked of the search origin: one with credentials loads too, where the LLM origin would not.\<close>

lemma search_origin_unchecked:
  "s \<noteq> [] \<Longrightarrow> url_split N s = Inr p \<Longrightarrow> u_scheme p = ''http'' \<Longrightarrow> has_hostname p \<Longrightarrow>
     search_from_mapping N [(''base_url'', PStr s)] = Inr s"
  by (simp add: search_from_mapping_def require_exact_keys_def non_empty_str_def split_unguarded_def)

lemma policy_from_mapping_ok: "policy_from_mapping N L v = Inr p \<Longrightarrow> policy_ok N p"
  unfolding policy_from_mapping_def Let_def
  by (auto simp: policy_ok_def common_from_mapping_ok search_from_mapping_ok feed_from_mapping_ok llm_from_mapping_ok
      article_from_mapping_ok split: if_splits)

text \<open>
  C35: A policy file that loads is safe to serve: its byte limits, timeout and concurrency are within the
  hard bounds, the feed allow-list is not empty and holds bare lower-case host names, redirects
  are bounded by three, an enabled article route has its own distinct hosts, the search origin is an
  http address with a host, and the LLM origin an http or https address with a host and without
  credentials.
\<close>

theorem loaded_policy_ok:
  assumes "policy_from_mapping N L v = Inr p"
  shows "policy_ok N p"
  using assms by (rule policy_from_mapping_ok)

end
