(* ===== verification/HostBroker.thy ===== *)
theory HostBroker
  imports BrokerPolicy
begin

text \<open>
  The routes of the host broker: search and LLM calls to fixed origins, feeds with checked redirects, articles
  with pacing. A handler returns what it did to the outside (names resolved, connections and
  requests made) beside its result; the network is a parameter that may answer differently in
  every round.
\<close>

section \<open>Requests and what comes back\<close>

text \<open>An envelope is a validated request; only the LLM route reads a body of it.\<close>

record host_envelope = broker_request +
  en_body :: pyval

record http_request =
  hq_url :: string
  hq_method :: string
  hq_headers :: "(string \<times> string) list"
  hq_data :: "string option"

text \<open>
  An upstream response: its status, its headers in order, and what its reads give. A read happens at
  some time and returns a piece, cut to the size that was asked for, or raises; after the last
  event it returns nothing.
\<close>

datatype read_event = Piece rat string | ReadOSError rat | ReadOther rat

record upstream =
  up_status :: int
  up_headers :: "(string \<times> string) list"
  up_reads :: "read_event list"
  up_eof :: rat

text \<open>What the broker does to the outside.\<close>

datatype egress =
    Resolve string int
  | Connect (connect_ip: string) (connect_name: string) (connect_request: http_request)
  | Open http_request

type_synonym 'a traced = "egress list \<times> 'a host_result"

section \<open>Small checks\<close>

definition deadline_exceeded :: host_error where
  "deadline_exceeded = BrokerRequestError ''request deadline exceeded''"

definition remaining_timeout :: "rat option \<Rightarrow> rat \<Rightarrow> rat \<Rightarrow> rat host_result" where
  "remaining_timeout deadline now fallback =
     (case deadline of
        None \<Rightarrow> Inr fallback
      | Some d \<Rightarrow> if d - now \<le> 0 then Inl deadline_exceeded else Inr (min fallback (d - now)))"

definition positive_finite_bytes :: "pyval \<Rightarrow> string \<Rightarrow> int host_result" where
  "positive_finite_bytes v field_name =
     (let e = BrokerRequestError (field_name @ '' must be a finite positive number'') in
      bind_result (host_number e v) (\<lambda>q. if q \<le> 0 then Inl e else if floor q \<le> 0 then Inl e else Inr (floor q)))"

definition effective_response_limit :: "int \<Rightarrow> int \<Rightarrow> int host_result" where
  "effective_response_limit policy_cap caller_cap =
     bind_result (positive_finite_bytes (PInt policy_cap) ''policy max_bytes'') (\<lambda>policy.
     bind_result (positive_finite_bytes (PInt caller_cap) ''max_bytes'') (\<lambda>caller. Inr (min policy caller)))"

definition STRIPPED_HEADERS :: "string list" where
  "STRIPPED_HEADERS = [''authorization'', ''cookie'', ''proxy-authorization'']"

definition RESPONSE_HEADER_ALLOWLIST :: "string list" where
  "RESPONSE_HEADER_ALLOWLIST =
     [''content-type'', ''content-length'', ''content-encoding'', ''cache-control'', ''etag'', ''last-modified'', ''date'',
      ''expires'', ''vary'', ''x-feedburner-location'']"

definition sanitise_caller_headers :: "(string \<times> string) list \<Rightarrow> (string \<times> string) list" where
  "sanitise_caller_headers headers = filter (\<lambda>(name, value). lower name \<notin> set STRIPPED_HEADERS) headers"

fun keep_response_headers :: "string list \<Rightarrow> (string \<times> string) list \<Rightarrow> (string \<times> string) list" where
  "keep_response_headers seen [] = []"
| "keep_response_headers seen ((name, value) # headers) =
     (let key = lower name in
      if key \<in> set STRIPPED_HEADERS \<or> key \<notin> set RESPONSE_HEADER_ALLOWLIST \<or> key \<in> set seen
      then keep_response_headers seen headers
      else (name, value) # keep_response_headers (key # seen) headers)"

definition sanitise_response_headers :: "(string \<times> string) list \<Rightarrow> (string \<times> string) list" where
  "sanitise_response_headers headers = keep_response_headers [] headers"

text \<open>\<open>repr(s)\<close>, which the messages quote.\<close>

definition repr_char :: "char \<Rightarrow> char \<Rightarrow> string" where
  "repr_char quote c = (let n = (of_char c :: nat) in
     if c = quote \<or> n = 92 then [char_of (92 :: nat), c]
     else if n = 9 then char_of (92 :: nat) # ''t''
     else if n = 10 then char_of (92 :: nat) # ''n''
     else if n = 13 then char_of (92 :: nat) # ''r''
     else if n < 32 \<or> 127 \<le> n \<and> n \<le> 160 \<or> n = 173
       then char_of (92 :: nat) # ''x'' @ [hex_digit (n div 16), hex_digit (n mod 16)]
     else [c])"

definition py_repr :: "string \<Rightarrow> string" where
  "py_repr s =
     (let quote = (if char_of (39 :: nat) \<in> set s \<and> char_of (34 :: nat) \<notin> set s then char_of (34 :: nat) else char_of (39 :: nat)) in
      quote # concat (map (repr_char quote) s) @ [quote])"

definition repr_opt :: "string option \<Rightarrow> string" where
  "repr_opt v = (case v of None \<Rightarrow> ''None'' | Some s \<Rightarrow> py_repr s)"

section \<open>Materialising a response\<close>

text \<open>
  The loop of \<open>_read_response_envelope\<close>: the bytes read and whether they exceed the cap. Exceptions of a
  read are kept apart, because one of the routes catches \<open>OSError\<close> around the loop.
\<close>

datatype read_failure = ReadRefused host_error | ReadRaisesOS | ReadRaisesOther

fun read_loop :: "int \<Rightarrow> rat option \<Rightarrow> rat \<Rightarrow> read_event list \<Rightarrow> string \<Rightarrow> read_failure + string \<times> bool" where
  "read_loop cap deadline eof [] received =
     (case remaining_timeout deadline eof 120 of
        Inl e \<Rightarrow> Inl (ReadRefused e)
      | Inr _ \<Rightarrow> Inr (received, False))"
| "read_loop cap deadline eof (ev # evs) received =
     (case remaining_timeout deadline (case ev of Piece t p \<Rightarrow> t | ReadOSError t \<Rightarrow> t | ReadOther t \<Rightarrow> t) 120 of
        Inl e \<Rightarrow> Inl (ReadRefused e)
      | Inr _ \<Rightarrow>
          (case ev of
             ReadOSError t \<Rightarrow> Inl ReadRaisesOS
           | ReadOther t \<Rightarrow> Inl ReadRaisesOther
           | Piece t p \<Rightarrow>
               (let chunk = take (nat (min 65536 (cap + 1 - int (length received)))) p in
                if chunk = [] then Inr (received, False)
                else if int (length (received @ chunk)) > cap then Inr (received @ chunk, True)
                else read_loop cap deadline eof evs (received @ chunk))))"

definition read_response_envelope ::
  "upstream \<Rightarrow> string \<Rightarrow> string \<Rightarrow> int \<Rightarrow> rat option \<Rightarrow> instant \<Rightarrow> read_failure + broker_response" where
  "read_response_envelope u request_id final_url cap deadline now =
     bind_result (read_loop cap deadline (up_eof u) (up_reads u) []) (\<lambda>(received, overflow).
       let status = (if overflow then -1 else up_status u);
           body = (if int (length received) > cap then take (nat cap) received else received);
           status = (if int (length received) > cap then -1 else status)
       in Inr \<lparr>rs_request_id = request_id, rs_status = status, rs_headers = sanitise_response_headers (up_headers u),
            rs_body = body, rs_final_url = final_url, rs_retrieved_at = iso_s now @ ''Z'',
            rs_error_code = None, rs_error_message = None\<rparr>)"

text \<open>Outside of a handler that catches \<open>OSError\<close>.\<close>

definition unguarded_read :: "read_failure + 'a \<Rightarrow> 'a host_result" where
  "unguarded_read r = (case r of Inr x \<Rightarrow> Inr x | Inl (ReadRefused e) \<Rightarrow> Inl e | Inl _ \<Rightarrow> Inl UnexpectedError)"

section \<open>Outgoing requests\<close>

definition USER_AGENT :: string where
  "USER_AGENT = ''news-egress-broker/'' @ show_int PROTOCOL_VERSION"

text \<open>\<open>Request.add_header\<close> capitalises the name (an ASCII name here) and replaces an earlier value.\<close>

definition capitalize :: "string \<Rightarrow> string" where
  "capitalize s = (case s of [] \<Rightarrow> [] | c # cs \<Rightarrow> str_upper [c] @ lower cs)"

fun header_set :: "string \<Rightarrow> string \<Rightarrow> (string \<times> string) list \<Rightarrow> (string \<times> string) list" where
  "header_set k v [] = [(k, v)]"
| "header_set k v ((k', w) # hs) = (if k = k' then (k, v) # hs else (k', w) # header_set k v hs)"

definition add_headers :: "(string \<times> string) list \<Rightarrow> (string \<times> string) list \<Rightarrow> (string \<times> string) list" where
  "add_headers extra hs = fold (\<lambda>(name, value). header_set (capitalize name) value) extra hs"

text \<open>\<open>urllib.request.Request(url, ...)\<close>, which raises \<open>ValueError\<close> for an address of no known kind.\<close>

definition make_request ::
  "netparse \<Rightarrow> string \<Rightarrow> string \<Rightarrow> (string \<times> string) list \<Rightarrow> string option \<Rightarrow> http_request host_result" where
  "make_request N url verb headers data =
     (case request_url N url of
        None \<Rightarrow> Inl UnexpectedError
      | Some full \<Rightarrow> Inr \<lparr>hq_url = full, hq_method = verb, hq_headers = add_headers headers [], hq_data = data\<rparr>)"

definition or_default :: "string \<Rightarrow> string \<Rightarrow> string" where
  "or_default s d = (if s = [] then d else s)"

definition build_search_outbound ::
  "netparse \<Rightarrow> string \<Rightarrow> string \<Rightarrow> string \<Rightarrow> (string \<times> string) list \<Rightarrow> (http_request \<times> string) host_result" where
  "build_search_outbound N target_url request_id base_url caller_headers =
     (case url_split N target_url of
        Inl _ \<Rightarrow> Inl (BrokerRequestError (''search URL is not parseable: '' @ exc_text N ''urlsplit'' target_url))
      | Inr p \<Rightarrow>
          if u_scheme p \<notin> {''http'', ''https''}
          then Inl (BrokerRequestError (''search URL must be http(s), got '' @ py_repr (u_scheme p)))
          else if or_default (u_path p) ''/search'' \<noteq> ''/search''
          then Inl (BrokerRequestError (''search path must be '' @ py_repr ''/search'' @ '', got '' @ py_repr (u_path p)))
          else if u_query p = [] then Inl (BrokerRequestError ''search URL must include a query string'')
          else bind_result (split_unguarded N base_url) (\<lambda>base.
            let fixed = url_unsplit N (u_scheme base, u_netloc base, ''/search'', u_query p, []) in
            bind_result (make_request N fixed ''GET''
                [(''Accept'', ''application/json''), (''User-Agent'', USER_AGENT), (''X-News-Broker-Request-Id'', request_id)] None) (\<lambda>request.
              Inr (request\<lparr>hq_headers := add_headers
                     (filter (\<lambda>(name, value). lower name \<notin> {''accept'', ''user-agent''}) caller_headers) (hq_headers request)\<rparr>,
                   fixed))))"

text \<open>\<open>json.dumps(v, ensure_ascii=False)\<close>: insertion order, separators with spaces.\<close>

fun json_plain :: "pylib \<Rightarrow> pyval \<Rightarrow> string" where
  "json_plain L PNone = ''null''"
| "json_plain L (PBool b) = (if b then ''true'' else ''false'')"
| "json_plain L (PInt i) = show_int i"
| "json_plain L (PFloat f) =
     (case f of NotANumber \<Rightarrow> ''NaN''
      | Infinity neg \<Rightarrow> (if neg then ''-Infinity'' else ''Infinity'')
      | _ \<Rightarrow> float_repr L f)"
| "json_plain L (PStr s) = json_str s"
| "json_plain L (PList vs) = ''['' @ join '', '' (map (json_plain L) vs) @ '']''"
| "json_plain L (PTuple vs) = ''['' @ join '', '' (map (json_plain L) vs) @ '']''"
| "json_plain L (PDict kvs) =
     ''{'' @ join '', '' (map (\<lambda>(k, v). json_str k @ '': '' @ json_plain L v) kvs) @ ''}''"

definition normalise_llm_payload :: "netparse \<Rightarrow> pylib \<Rightarrow> pyval \<Rightarrow> string \<Rightarrow> int \<Rightarrow> string host_result" where
  "normalise_llm_payload N L body model cap =
     (case body of PStr raw \<Rightarrow>
        (case json_loads L raw of
           None \<Rightarrow> Inl (BrokerRequestError (''llm envelope body is not JSON: '' @ exc_text N ''json'' raw))
         | Some (PDict d) \<Rightarrow>
             if map_of d ''stream'' = Some (PBool True) then Inl (BrokerRequestError ''llm broker does not support stream=true'')
             else (let forced = PDict (dict_set ''model'' (PStr model) d) in
               if \<not> json_finite forced then Inl UnexpectedError
               else (let encoded = utf8_encode (json_plain L forced) in
                 if int (length encoded) > cap
                 then Inl (BrokerRequestError (''llm request body too large: '' @ show_nat (length encoded) @ '' > '' @ show_int cap))
                 else Inr encoded))
         | Some _ \<Rightarrow> Inl (BrokerRequestError ''llm envelope body must decode to a JSON object''))
      | _ \<Rightarrow> Inl (BrokerRequestError ''llm envelope must include a JSON body string''))"

section \<open>The environment of a request\<close>

text \<open>What opening a connection can lead to; \<open>URLError\<close> is an \<open>OSError\<close>.\<close>

datatype open_outcome = UrlError | OpenRaises | Answered upstream
datatype connect_outcome = ConnectOSError | ConnectOther | Connected upstream

text \<open>
  The round of the redirect loop is an argument of what the network does. \<open>ne_pace\<close> are the clock
  readings before and after a host's turn is waited for.
\<close>

record net_env =
  ne_resolve :: "nat \<Rightarrow> string \<Rightarrow> int \<Rightarrow> string list host_result"
  ne_clock :: "nat \<Rightarrow> rat"
  ne_connect :: "nat \<Rightarrow> string \<Rightarrow> string \<Rightarrow> connect_outcome"
  ne_open :: "http_request \<Rightarrow> open_outcome"
  ne_pace :: "rat \<times> rat"
  ne_stamp :: instant

section \<open>Search and LLM\<close>

definition open_upstream ::
  "net_env \<Rightarrow> string \<Rightarrow> rat option \<Rightarrow> rat \<Rightarrow> http_request \<Rightarrow> upstream traced" where
  "open_upstream E what deadline timeout request =
     (case remaining_timeout deadline (ne_clock E 0) timeout of
        Inl e \<Rightarrow> ([], Inl e)
      | Inr _ \<Rightarrow> ([Open request],
          (case ne_open E request of
             UrlError \<Rightarrow> Inl (BrokerRequestError (what @ '' upstream error''))
           | OpenRaises \<Rightarrow> Inl UnexpectedError
           | Answered u \<Rightarrow> Inr u)))"

definition finish_read ::
  "net_env \<Rightarrow> host_envelope \<Rightarrow> string \<Rightarrow> int \<Rightarrow> rat option \<Rightarrow> upstream \<Rightarrow> read_failure + broker_response" where
  "finish_read E env final_url cap deadline u =
     (case effective_response_limit cap (rq_max_bytes env) of
        Inl e \<Rightarrow> Inl (ReadRefused e)
      | Inr n \<Rightarrow> read_response_envelope u (rq_request_id env) final_url n deadline (ne_stamp E))"

definition handle_search ::
  "netparse \<Rightarrow> net_env \<Rightarrow> common_policy \<Rightarrow> string \<Rightarrow> host_envelope \<Rightarrow> (string \<times> string) list \<Rightarrow> rat option \<Rightarrow>
   broker_response traced" where
  "handle_search N E c base_url env caller_headers deadline =
     (case build_search_outbound N (rq_target_url env) (rq_request_id env) base_url caller_headers of
        Inl e \<Rightarrow> ([], Inl e)
      | Inr (request, fixed) \<Rightarrow>
          (case open_upstream E ''search'' deadline (common_timeout c) request of
             (t, Inl e) \<Rightarrow> (t, Inl e)
           | (t, Inr u) \<Rightarrow> (t, unguarded_read (finish_read E env fixed (max_response_bytes c) deadline u))))"

definition llm_url :: "url_parts \<Rightarrow> string \<Rightarrow> string" where
  "llm_url p path = u_scheme p @ ''://'' @ u_netloc p @ path"

definition build_llm_outbound ::
  "netparse \<Rightarrow> pylib \<Rightarrow> common_policy \<Rightarrow> llm_policy \<Rightarrow> host_envelope \<Rightarrow> (http_request \<times> string) host_result" where
  "build_llm_outbound N L c l env =
     bind_result (effective_response_limit (min (max_response_bytes c) (llm_max_response_bytes l)) (rq_max_bytes env)) (\<lambda>cap.
     bind_result (normalise_llm_payload N L (en_body env) (llm_model l) cap) (\<lambda>data.
     bind_result (split_unguarded N (llm_base_url l)) (\<lambda>p.
       if \<not> has_hostname p \<or> netloc_has_userinfo (u_netloc p) then Inl BrokerConfigError
       else bind_result (make_request N (llm_url p (llm_path l)) ''POST''
           [(''Content-Type'', ''application/json; charset=utf-8''), (''Accept'', ''application/json''),
            (''User-Agent'', USER_AGENT), (''X-News-Broker-Request-Id'', rq_request_id env)] (Some data)) (\<lambda>request.
         Inr (request, llm_url p (llm_path l))))))"

definition handle_llm ::
  "netparse \<Rightarrow> pylib \<Rightarrow> net_env \<Rightarrow> common_policy \<Rightarrow> llm_policy \<Rightarrow> host_envelope \<Rightarrow> rat option \<Rightarrow> broker_response traced" where
  "handle_llm N L E c l env deadline =
     (case build_llm_outbound N L c l env of
        Inl e \<Rightarrow> ([], Inl e)
      | Inr (request, url) \<Rightarrow>
          (case open_upstream E ''llm'' deadline (common_timeout c) request of
             (t, Inl e) \<Rightarrow> (t, Inl e)
           | (t, Inr u) \<Rightarrow> (t, unguarded_read (finish_read E env url (llm_max_response_bytes l) deadline u))))"

section \<open>Feeds and articles: where a connection may go\<close>

text \<open>\<open>_validate_feed_target_url\<close>.\<close>

definition validate_feed_target_url :: "netparse \<Rightarrow> string \<Rightarrow> url_parts host_result" where
  "validate_feed_target_url N url =
     (case url_split N url of
        Inl _ \<Rightarrow> Inl (BrokerRequestError (''feed URL is not parseable: '' @ exc_text N ''urlsplit'' url))
      | Inr p \<Rightarrow>
          if u_scheme p \<noteq> ''https''
          then Inl (BrokerRequestError (''feed URL must use https scheme, got '' @ py_repr (u_scheme p)))
          else if netloc_has_userinfo (u_netloc p) then Inl (BrokerRequestError ''feed URL must not include userinfo'')
          else (case u_port p of
              Inl _ \<Rightarrow> Inl UnexpectedError
            | Inr port \<Rightarrow>
                if port \<notin> {None, Some 443}
                then Inl (BrokerRequestError (''feed URL port must be 443, got '' @ show_int (the port)))
                else if \<not> has_hostname p then Inl (BrokerRequestError ''feed URL is missing a hostname'')
                else Inr p))"

text \<open>\<open>_resolve_and_validate\<close>.\<close>

definition resolve_and_validate :: "(string \<Rightarrow> int \<Rightarrow> string list host_result) \<Rightarrow> string \<Rightarrow> int \<Rightarrow> string list host_result" where
  "resolve_and_validate resolver host port =
     bind_result (resolver host port) (\<lambda>ips.
       if ips = [] then Inl (BrokerRequestError (''DNS resolution returned no addresses for '' @ py_repr host))
       else (case find ip_in_blocked_range ips of
           Some ip \<Rightarrow> Inl (BrokerRequestError (''feed host '' @ py_repr host @ '' resolved to blocked address '' @ py_repr ip))
         | None \<Rightarrow> Inr ips))"

text \<open>\<open>_open_pinned_https\<close> and the loop of \<open>_fetch_feed_once\<close> over the resolved addresses.\<close>

datatype fetch_failure = FetchRefused host_error | FetchOSError | FetchOther

fun try_addresses ::
  "netparse \<Rightarrow> (string \<Rightarrow> string \<Rightarrow> connect_outcome) \<Rightarrow> http_request \<Rightarrow> bool \<Rightarrow> string list \<Rightarrow>
   egress list \<times> (fetch_failure + upstream)" where
  "try_addresses N connect request failed [] =
     ([], Inl (if failed then FetchOSError
       else FetchRefused (BrokerRequestError ''feed DNS resolution returned no usable addresses'')))"
| "try_addresses N connect request failed (ip # ips) =
     (case url_split N (hq_url request) of
        Inl _ \<Rightarrow> ([], Inl FetchOther)
      | Inr p \<Rightarrow>
          (case u_hostname p of
             None \<Rightarrow> ([], Inl (FetchRefused (BrokerRequestError ''feed URL has no hostname'')))
           | Some name \<Rightarrow>
               (case connect ip name of
                  Connected u \<Rightarrow> ([Connect ip name request], Inr u)
                | ConnectOther \<Rightarrow> ([Connect ip name request], Inl FetchOther)
                | ConnectOSError \<Rightarrow>
                    (case try_addresses N connect request True ips of
                       (t, r) \<Rightarrow> (Connect ip name request # t, r)))))"

definition fetch_feed_once ::
  "netparse \<Rightarrow> (string \<Rightarrow> string \<Rightarrow> connect_outcome) \<Rightarrow> string \<Rightarrow> string \<Rightarrow> string list \<Rightarrow>
   egress list \<times> (fetch_failure + upstream)" where
  "fetch_feed_once N connect url accept_header ips =
     (case make_request N url ''GET'' [(''Accept'', accept_header), (''User-Agent'', USER_AGENT)] None of
        Inl _ \<Rightarrow> ([], Inl FetchOther)
      | Inr request \<Rightarrow> try_addresses N connect request False ips)"

definition fetch_error :: "string \<Rightarrow> fetch_failure \<Rightarrow> host_error" where
  "fetch_error what f =
     (case f of FetchRefused e \<Rightarrow> e | FetchOSError \<Rightarrow> BrokerRequestError (what @ '' upstream error'') | FetchOther \<Rightarrow> UnexpectedError)"

definition REDIRECTS :: "int list" where
  "REDIRECTS = [301, 302, 303, 307, 308]"

text \<open>\<open>response.headers.get(name)\<close>: the first header of that name, whatever its case.\<close>

definition header_get :: "string \<Rightarrow> (string \<times> string) list \<Rightarrow> string option" where
  "header_get name hs = map_option snd (find (\<lambda>(n, v). lower n = lower name) hs)"

definition redirect_target :: "upstream \<Rightarrow> string option" where
  "redirect_target u =
     (if up_status u \<in> set REDIRECTS
      then (case header_get ''Location'' (up_headers u) of Some l \<Rightarrow> if l = [] then None else Some l | None \<Rightarrow> None)
      else None)"

text \<open>The checks at the head of the redirect loop: the host a connection for this address may go to.\<close>

definition hop_host :: "netparse \<Rightarrow> string list \<Rightarrow> string \<Rightarrow> string host_result" where
  "hop_host N hosts url =
     bind_result (split_unguarded N url) (\<lambda>p.
       if u_scheme p \<noteq> ''https'' then Inl (BrokerRequestError ''redirect target must remain https'')
       else if netloc_has_userinfo (u_netloc p) then Inl (BrokerRequestError ''redirect target must not include userinfo'')
       else (case u_port p of
           Inl _ \<Rightarrow> Inl UnexpectedError
         | Inr port \<Rightarrow>
             if port \<notin> {None, Some 443} then Inl (BrokerRequestError ''redirect target port rejected'')
             else (case u_hostname p of
                 None \<Rightarrow> Inl (BrokerRequestError ''redirect target is missing a hostname'')
               | Some host \<Rightarrow>
                   if host = [] then Inl (BrokerRequestError ''redirect target is missing a hostname'')
                   else if \<not> host_allowed hosts host
                   then Inl (BrokerRequestError ''redirect target is not on the policy allowlist'')
                   else Inr host)))"

definition FEED_ACCEPT :: string where
  "FEED_ACCEPT = ''application/rss+xml, application/atom+xml, application/xml;q=0.9, */*;q=0.5''"

text \<open>One round: the events, and the response that was obtained.\<close>

definition feed_round ::
  "netparse \<Rightarrow> net_env \<Rightarrow> string list \<Rightarrow> rat \<Rightarrow> rat option \<Rightarrow> nat \<Rightarrow> string \<Rightarrow> upstream traced" where
  "feed_round N E hosts timeout deadline i url =
     (case hop_host N hosts url of
        Inl e \<Rightarrow> ([], Inl e)
      | Inr host \<Rightarrow>
          (case resolve_and_validate (ne_resolve E i) host 443 of
             Inl e \<Rightarrow> ([Resolve host 443], Inl e)
           | Inr ips \<Rightarrow>
               (case remaining_timeout deadline (ne_clock E i) timeout of
                  Inl e \<Rightarrow> ([Resolve host 443], Inl e)
                | Inr _ \<Rightarrow>
                    (case fetch_feed_once N (ne_connect E i) url FEED_ACCEPT ips of
                       (t, Inl f) \<Rightarrow> (Resolve host 443 # t, Inl (fetch_error ''feed'' f))
                     | (t, Inr u) \<Rightarrow> (Resolve host 443 # t, Inr u)))))"

text \<open>The loop; the number of redirects followed so far bounds it.\<close>

function feed_loop ::
  "netparse \<Rightarrow> net_env \<Rightarrow> string list \<Rightarrow> int \<Rightarrow> rat \<Rightarrow> rat option \<Rightarrow> nat \<Rightarrow> string \<Rightarrow> (string \<times> upstream) traced" where
  "feed_loop N E hosts max_redirects timeout deadline hops url =
     (case feed_round N E hosts timeout deadline hops url of
        (t, Inl e) \<Rightarrow> (t, Inl e)
      | (t, Inr u) \<Rightarrow>
          (case redirect_target u of
             None \<Rightarrow> (t, Inr (url, u))
           | Some location \<Rightarrow>
               if int (hops + 1) > max_redirects then (t, Inl (BrokerRequestError ''feed redirect limit exceeded''))
               else (case url_join N url location of
                   Inl _ \<Rightarrow> (t, Inl UnexpectedError)
                 | Inr url' \<Rightarrow>
                     (case feed_loop N E hosts max_redirects timeout deadline (hops + 1) url' of
                        (t', r) \<Rightarrow> (t @ t', r)))))"
  by pat_completeness auto

termination
  by (relation "measure (\<lambda>(N, E, hosts, max_redirects, timeout, deadline, hops, url). nat (max_redirects - int hops))") auto

declare feed_loop.simps [simp del]

definition unsplit :: "netparse \<Rightarrow> url_parts \<Rightarrow> string" where
  "unsplit N p = url_unsplit N (u_scheme p, u_netloc p, u_path p, u_query p, u_fragment p)"

definition handle_feed ::
  "netparse \<Rightarrow> net_env \<Rightarrow> common_policy \<Rightarrow> feed_policy \<Rightarrow> host_envelope \<Rightarrow> rat option \<Rightarrow> broker_response traced" where
  "handle_feed N E c f env deadline =
     (case validate_feed_target_url N (rq_target_url env) of
        Inl e \<Rightarrow> ([], Inl e)
      | Inr p \<Rightarrow>
          if \<not> host_allowed (feed_hosts f) (the (u_hostname p))
          then ([], Inl (BrokerRequestError (''feed host '' @ repr_opt (u_hostname p) @ '' is not on the policy allowlist'')))
          else (case feed_loop N E (feed_hosts f) (feed_max_redirects f) (common_timeout c) deadline 0 (unsplit N p) of
              (t, Inl e) \<Rightarrow> (t, Inl e)
            | (t, Inr (url, u)) \<Rightarrow> (t, unguarded_read (finish_read E env url (max_response_bytes c) deadline u))))"

section \<open>Articles\<close>

text \<open>
  \<open>_pace_article_host\<close> under its lock: the wait until the host's turn, and the table of last requests. The
  clock is read before and after the wait.
\<close>

type_synonym pace_table = "string \<Rightarrow> rat option"

definition ARTICLE_MIN_INTERVAL_SECONDS :: rat where
  "ARTICLE_MIN_INTERVAL_SECONDS = 1"

definition pace_wait :: "pace_table \<Rightarrow> string \<Rightarrow> rat \<Rightarrow> rat" where
  "pace_wait last_request host now =
     max 0 ((case last_request host of Some t \<Rightarrow> t | None \<Rightarrow> 0) + ARTICLE_MIN_INTERVAL_SECONDS - now)"

definition pace_article_host ::
  "string \<Rightarrow> rat option \<Rightarrow> rat \<times> rat \<Rightarrow> pace_table \<Rightarrow> unit host_result \<times> pace_table" where
  "pace_article_host host deadline clock last_request =
     (case clock of (now, later) \<Rightarrow>
        if (case deadline of None \<Rightarrow> False | Some d \<Rightarrow> pace_wait last_request host now \<ge> max 0 (d - now))
        then (Inl (BrokerRequestError ''article host rate limit exceeds request deadline''), last_request)
        else (Inr (), last_request(host \<mapsto> later)))"

definition guarded_read :: "string \<Rightarrow> read_failure + 'a \<Rightarrow> 'a host_result" where
  "guarded_read what r =
     (case r of Inr x \<Rightarrow> Inr x | Inl (ReadRefused e) \<Rightarrow> Inl e
      | Inl ReadRaisesOS \<Rightarrow> Inl (BrokerRequestError (what @ '' upstream error'')) | Inl ReadRaisesOther \<Rightarrow> Inl UnexpectedError)"

definition fetch_article ::
  "netparse \<Rightarrow> net_env \<Rightarrow> common_policy \<Rightarrow> host_envelope \<Rightarrow> rat option \<Rightarrow> string \<Rightarrow> string \<Rightarrow> broker_response traced" where
  "fetch_article N E c env deadline host url =
     (case resolve_and_validate (ne_resolve E 0) host 443 of
        Inl e \<Rightarrow> ([Resolve host 443], Inl e)
      | Inr ips \<Rightarrow>
          (case remaining_timeout deadline (ne_clock E 0) (common_timeout c) of
             Inl e \<Rightarrow> ([Resolve host 443], Inl e)
           | Inr _ \<Rightarrow>
               (case fetch_feed_once N (ne_connect E 0) url ''text/html, application/xhtml+xml'' ips of
                  (t, Inl f) \<Rightarrow> (Resolve host 443 # t, Inl (fetch_error ''article'' f))
                | (t, Inr u) \<Rightarrow> (Resolve host 443 # t,
                    (if up_status u \<in> set REDIRECTS
                     then Inl (BrokerRequestError ''publisher article redirects are not followed'')
                     else guarded_read ''article'' (finish_read E env url (max_response_bytes c) deadline u))))))"

definition handle_article ::
  "netparse \<Rightarrow> net_env \<Rightarrow> common_policy \<Rightarrow> article_policy \<Rightarrow> host_envelope \<Rightarrow> rat option \<Rightarrow> pace_table \<Rightarrow>
   broker_response traced \<times> pace_table" where
  "handle_article N E c a env deadline last_request =
     (if \<not> article_enabled a then (([], Inl (BrokerRequestError ''publisher article route is disabled'')), last_request)
      else (case validate_feed_target_url N (rq_target_url env) of
          Inl e \<Rightarrow> (([], Inl e), last_request)
        | Inr p \<Rightarrow>
            let host = the (u_hostname p) in
            if \<not> host_allowed (article_hosts a) host
            then (([], Inl (BrokerRequestError ''article host is not on the exact-origin policy allowlist'')), last_request)
            else (case pace_article_host host deadline (ne_pace E) last_request of
                (Inl e, table) \<Rightarrow> (([], Inl e), table)
              | (Inr _, table) \<Rightarrow> (fetch_article N E c env deadline host (unsplit N p), table))))"

section \<open>Where the broker may connect to\<close>

text \<open>A destination the checks of the feed and article routes let through, and the host it names.\<close>

definition destined :: "netparse \<Rightarrow> string \<Rightarrow> string \<Rightarrow> bool" where
  "destined N url host \<longleftrightarrow>
     (\<exists>p. (url_split N url = Inr p \<or> url = unsplit N p) \<and> u_scheme p = ''https'' \<and> CHR ''@'' \<notin> set (u_netloc p) \<and>
        u_port p \<in> {Inr None, Inr (Some 443)} \<and> u_hostname p = Some host)"

definition route_hosts :: "broker_policy \<Rightarrow> string \<Rightarrow> string list" where
  "route_hosts P route =
     (if route = ''feed'' then feed_hosts (pol_feed P)
      else if route = ''article'' \<and> article_enabled (pol_article P) then article_hosts (pol_article P) else [])"

definition clean_headers :: "(string \<times> string) list \<Rightarrow> bool" where
  "clean_headers hs \<longleftrightarrow> (\<forall>name \<in> fst ` set hs. lower name \<notin> set STRIPPED_HEADERS)"

text \<open>A pinned connection: to an address the allow-listed host resolved to, and that is not blocked.\<close>

definition pinned :: "netparse \<Rightarrow> net_env \<Rightarrow> string list \<Rightarrow> string \<Rightarrow> string \<Rightarrow> http_request \<Rightarrow> bool" where
  "pinned N E hosts ip name r \<longleftrightarrow>
     \<not> ip_in_blocked_range ip \<and> hq_method r = ''GET'' \<and> hq_data r = None \<and> clean_headers (hq_headers r) \<and>
     (\<exists>p. url_split N (hq_url r) = Inr p \<and> u_hostname p = Some name) \<and>
     (\<exists>i url host ips. destined N url host \<and> host_allowed hosts host \<and> request_url N url = Some (hq_url r) \<and>
        ne_resolve E i host 443 = Inr ips \<and> ip \<in> set ips)"

text \<open>The origin of a search or LLM call comes from the policy.\<close>

definition fixed_origin :: "netparse \<Rightarrow> broker_policy \<Rightarrow> string \<Rightarrow> http_request \<Rightarrow> bool" where
  "fixed_origin N P route r \<longleftrightarrow> clean_headers (hq_headers r) \<and>
     (route = ''search'' \<and> hq_method r = ''GET'' \<and>
        (\<exists>base q. url_split N (pol_search P) = Inr base \<and>
           request_url N (url_unsplit N (u_scheme base, u_netloc base, ''/search'', q, [])) = Some (hq_url r)) \<or>
      route = ''llm'' \<and> hq_method r = ''POST'' \<and>
        (\<exists>base. url_split N (llm_base_url (pol_llm P)) = Inr base \<and> CHR ''@'' \<notin> set (u_netloc base) \<and>
           request_url N (llm_url base (llm_path (pol_llm P))) = Some (hq_url r)))"

fun permitted :: "netparse \<Rightarrow> net_env \<Rightarrow> broker_policy \<Rightarrow> string \<Rightarrow> egress \<Rightarrow> bool" where
  "permitted N E P route (Resolve host port) = (host_allowed (route_hosts P route) host \<and> port = 443)"
| "permitted N E P route (Connect ip name r) = pinned N E (route_hosts P route) ip name r"
| "permitted N E P route (Open r) = fixed_origin N P route r"

section \<open>Requests\<close>

lemma make_request_Inr:
  "make_request N url verb hs data = Inr r \<longleftrightarrow>
    (\<exists>full. request_url N url = Some full \<and> r = \<lparr>hq_url = full, hq_method = verb, hq_headers = add_headers hs [], hq_data = data\<rparr>)"
  by (auto simp: make_request_def split: option.splits)

lemma fst_header_set: "fst ` set (header_set k v hs) = insert k (fst ` set hs)"
  by (induction k v hs rule: header_set.induct) auto

lemma fst_add_headers: "fst ` set (add_headers extra hs) = (\<lambda>(n, v). capitalize n) ` set extra \<union> fst ` set hs"
proof (induction extra arbitrary: hs)
  case (Cons e extra)
  then show ?case by (cases e) (simp add: add_headers_def fst_header_set)
qed (simp add: add_headers_def)

text \<open>The names the broker sets itself and the names callers may send stay clear of the credential headers.\<close>

lemma clean_capitalized:
  assumes "n \<in> set ALLOWED_HEADERS \<union> {''Accept'', ''User-Agent'', ''X-News-Broker-Request-Id'', ''Content-Type''}"
  shows "lower (capitalize n) \<notin> set STRIPPED_HEADERS"
proof -
  have "list_all (\<lambda>n. lower (capitalize n) \<notin> set STRIPPED_HEADERS)
      (ALLOWED_HEADERS @ [''Accept'', ''User-Agent'', ''X-News-Broker-Request-Id'', ''Content-Type''])"
    by code_simp
  then show ?thesis using assms by (auto simp: list_all_iff)
qed

lemma clean_add_headers:
  assumes "clean_headers hs"
    and "fst ` set extra \<subseteq> set ALLOWED_HEADERS \<union> {''Accept'', ''User-Agent'', ''X-News-Broker-Request-Id'', ''Content-Type''}"
  shows "clean_headers (add_headers extra hs)"
  unfolding clean_headers_def fst_add_headers
proof (intro ballI)
  fix name assume "name \<in> (\<lambda>(n, v). capitalize n) ` set extra \<union> fst ` set hs"
  then consider n v where "(n, v) \<in> set extra" "name = capitalize n" | "name \<in> fst ` set hs" by auto
  then show "lower name \<notin> set STRIPPED_HEADERS"
  proof cases
    case 1
    then have "n \<in> fst ` set extra" by (simp add: rev_image_eqI)
    then show ?thesis using assms(2) clean_capitalized [of n] 1(2) by blast
  next
    case 2
    then show ?thesis using assms(1) unfolding clean_headers_def by blast
  qed
qed

section \<open>Connections of the feed and article routes\<close>

lemma try_addresses_events:
  "ev \<in> set (fst (try_addresses N connect r failed ips)) \<Longrightarrow>
    \<exists>ip name p. ev = Connect ip name r \<and> ip \<in> set ips \<and> url_split N (hq_url r) = Inr p \<and> u_hostname p = Some name"
proof (induction N connect r failed ips rule: try_addresses.induct)
  case (2 N connect r failed ip ips)
  show ?case
  proof (cases "url_split N (hq_url r)")
    case (Inr p)
    show ?thesis
    proof (cases "u_hostname p")
      case (Some name)
      then show ?thesis using 2 Inr by (fastforce split: connect_outcome.splits prod.splits)
    qed (use 2 Inr in simp)
  qed (use 2 in simp)
qed simp

lemma fetch_feed_once_events:
  assumes "ev \<in> set (fst (fetch_feed_once N connect url accept_header ips))"
  obtains ip name p r where "ev = Connect ip name r" "ip \<in> set ips" "url_split N (hq_url r) = Inr p" "u_hostname p = Some name"
    "request_url N url = Some (hq_url r)" "hq_method r = ''GET''" "hq_data r = None" "clean_headers (hq_headers r)"
proof -
  obtain r where r: "make_request N url ''GET'' [(''Accept'', accept_header), (''User-Agent'', USER_AGENT)] None = Inr r"
      "ev \<in> set (fst (try_addresses N connect r False ips))"
    using assms by (auto simp: fetch_feed_once_def split: sum.splits)
  moreover have "clean_headers (add_headers [(''Accept'', accept_header), (''User-Agent'', USER_AGENT)] [])"
    by (rule clean_add_headers) (simp_all add: clean_headers_def)
  moreover obtain ip name p where "ev = Connect ip name r" "ip \<in> set ips" "url_split N (hq_url r) = Inr p" "u_hostname p = Some name"
    using try_addresses_events [OF r(2)] by blast
  ultimately show ?thesis using that [of ip name r p] by (auto simp: make_request_Inr)
qed

lemma resolve_and_validate_Inr:
  assumes "resolve_and_validate resolver host port = Inr ips"
  shows "resolver host port = Inr ips" "ips \<noteq> []" "\<forall>ip \<in> set ips. \<not> ip_in_blocked_range ip"
  using assms by (auto simp: resolve_and_validate_def find_None_iff split: if_splits option.splits)

lemma hop_host_Inr:
  assumes "hop_host N hosts url = Inr host"
  shows "destined N url host \<and> host_allowed hosts host"
  using assms
  by (auto simp: hop_host_def destined_def netloc_has_userinfo_def split: if_splits option.splits sum.splits)

lemma validate_feed_target_Inr:
  assumes "validate_feed_target_url N url = Inr p"
  shows "u_scheme p = ''https'' \<and> CHR ''@'' \<notin> set (u_netloc p) \<and> u_port p \<in> {Inr None, Inr (Some 443)} \<and>
    (\<exists>host. u_hostname p = Some host \<and> host \<noteq> [])"
  using assms
  by (auto simp: validate_feed_target_url_def netloc_has_userinfo_def has_hostname_def split: if_splits option.splits sum.splits)

lemma pinned_fetch:
  assumes "resolve_and_validate (ne_resolve E i) host 443 = Inr ips" "destined N url host" "host_allowed hosts host"
    and "ev \<in> set (fst (fetch_feed_once N connect url accept_header ips))"
  shows "\<exists>ip name r. ev = Connect ip name r \<and> pinned N E hosts ip name r"
  using assms(4) by (rule fetch_feed_once_events)
    (use assms(2,3) resolve_and_validate_Inr [OF assms(1)] in \<open>auto simp: pinned_def\<close>)

lemma feed_round_events:
  assumes "ev \<in> set (fst (feed_round N E hosts timeout deadline i url))"
  shows "(\<exists>host. ev = Resolve host 443 \<and> host_allowed hosts host) \<or> (\<exists>ip name r. ev = Connect ip name r \<and> pinned N E hosts ip name r)"
proof (cases "hop_host N hosts url")
  case (Inr host)
  note host = hop_host_Inr [OF Inr]
  show ?thesis
  proof (cases "resolve_and_validate (ne_resolve E i) host 443")
    case (Inr ips)
    then show ?thesis
      using assms \<open>hop_host N hosts url = Inr host\<close> host pinned_fetch [OF Inr, of N url hosts ev "ne_connect E i" FEED_ACCEPT]
      by (fastforce simp: feed_round_def split: sum.splits prod.splits)
  qed (use assms \<open>hop_host N hosts url = Inr host\<close> host in \<open>simp add: feed_round_def\<close>)
qed (use assms in \<open>simp add: feed_round_def\<close>)

text \<open>The unfolded loop, one round at a time.\<close>

lemma feed_loop_cases:
  obtains (failed) t e where "feed_round N E hosts timeout deadline hops url = (t, Inl e)"
      "feed_loop N E hosts m timeout deadline hops url = (t, Inl e)"
    | (finished) t u where "feed_round N E hosts timeout deadline hops url = (t, Inr u)" "redirect_target u = None"
      "feed_loop N E hosts m timeout deadline hops url = (t, Inr (url, u))"
    | (stopped) t u e where "feed_round N E hosts timeout deadline hops url = (t, Inr u)"
      "feed_loop N E hosts m timeout deadline hops url = (t, Inl e)"
    | (followed) t u url' t' r where "feed_round N E hosts timeout deadline hops url = (t, Inr u)" "int (hops + 1) \<le> m"
      "feed_loop N E hosts m timeout deadline (hops + 1) url' = (t', r)"
      "feed_loop N E hosts m timeout deadline hops url = (t @ t', r)"
proof -
  obtain t r where r: "feed_round N E hosts timeout deadline hops url = (t, r)" by fastforce
  show ?thesis
  proof (cases r)
    case (Inl e)
    then show ?thesis using r failed by (simp add: feed_loop.simps)
  next
    case (Inr u)
    show ?thesis
    proof (cases "redirect_target u")
      case None
      then show ?thesis using r Inr finished by (simp add: feed_loop.simps)
    next
      case (Some location)
      show ?thesis
      proof (cases "url_join N url location")
        case (Inr url')
        obtain t' r' where "feed_loop N E hosts m timeout deadline (hops + 1) url' = (t', r')" by fastforce
        then show ?thesis
          using r \<open>r = Inr u\<close> Some Inr stopped followed [of t u url' t' r']
          by (cases "int (hops + 1) > m") (simp_all add: feed_loop.simps [of N E hosts m timeout deadline hops url])
      next
        case (Inl e)
        then show ?thesis
          using r \<open>r = Inr u\<close> Some stopped [of t u]
          by (cases "int (hops + 1) > m") (simp_all add: feed_loop.simps [of N E hosts m timeout deadline hops url])
      qed
    qed
  qed
qed

lemma feed_loop_events:
  "ev \<in> set (fst (feed_loop N E hosts m timeout deadline hops url)) \<Longrightarrow>
   (\<exists>host. ev = Resolve host 443 \<and> host_allowed hosts host) \<or> (\<exists>ip name r. ev = Connect ip name r \<and> pinned N E hosts ip name r)"
proof (induction "nat (m - int hops)" arbitrary: hops url rule: less_induct)
  case less
  show ?case
  proof (cases rule: feed_loop_cases [of N E hosts timeout deadline hops url m])
    case (followed t u url' t' r)
    then have "ev \<in> set t \<or> ev \<in> set t'" using less.prems by simp
    then show ?thesis
    proof
      assume "ev \<in> set t"
      then show ?thesis using followed(1) feed_round_events [of ev N E hosts timeout deadline hops url] by simp
    next
      assume "ev \<in> set t'"
      then show ?thesis using followed(2,3) less.hyps [of "hops + 1" url'] by simp
    qed
  qed (use less.prems feed_round_events [of ev N E hosts timeout deadline hops url] in simp_all)
qed

text \<open>Each round resolves at most one name, and there are at most \<open>m + 1\<close> rounds.\<close>

fun is_resolve :: "egress \<Rightarrow> bool" where
  "is_resolve (Resolve h p) = True"
| "is_resolve _ = False"

lemma try_addresses_no_resolve: "filter is_resolve (fst (try_addresses N connect r failed ips)) = []"
  by (auto simp: filter_empty_conv dest!: try_addresses_events)

lemma fetch_feed_once_no_resolve: "filter is_resolve (fst (fetch_feed_once N connect url a ips)) = []"
  by (simp add: fetch_feed_once_def try_addresses_no_resolve split: sum.splits)

lemma feed_round_resolves: "length (filter is_resolve (fst (feed_round N E hosts timeout deadline i url))) \<le> 1"
  using fetch_feed_once_no_resolve [of N "ne_connect E i" url FEED_ACCEPT]
  by (auto simp: feed_round_def split: sum.splits prod.splits) (metis fst_conv list.size(3) zero_le)+

lemma feed_loop_resolves:
  "length (filter is_resolve (fst (feed_loop N E hosts m timeout deadline hops url))) \<le> Suc (nat (m - int hops))"
proof (induction "nat (m - int hops)" arbitrary: hops url rule: less_induct)
  case less
  note round = feed_round_resolves [of N E hosts timeout deadline hops url]
  show ?case
  proof (cases rule: feed_loop_cases [of N E hosts timeout deadline hops url m])
    case (followed t u url' t' r)
    have "length (filter is_resolve t') \<le> Suc (nat (m - int (hops + 1)))"
      using less.hyps [of "hops + 1" url'] followed(2,3) by simp
    then show ?thesis using round followed(1,2,4) by simp
  qed (use round in simp_all)
qed

lemma feed_loop_final:
  "feed_loop N E hosts m timeout deadline hops url = (t, Inr (final, u)) \<Longrightarrow>
   (\<exists>host. hop_host N hosts final = Inr host) \<and> redirect_target u = None"
proof (induction "nat (m - int hops)" arbitrary: hops url t rule: less_induct)
  case less
  have ok: "\<exists>host. hop_host N hosts url = Inr host" if "feed_round N E hosts timeout deadline hops url = (t, Inr u)" for t u
    using that by (auto simp: feed_round_def split: sum.splits)
  show ?case
  proof (cases rule: feed_loop_cases [of N E hosts timeout deadline hops url m])
    case (followed t u url' t' r)
    then show ?thesis using less.hyps [of "hops + 1" url' t'] less.prems by simp
  qed (use less.prems ok in auto)
qed

text \<open>
  A feed request resolves at most four names, one for the requested address and one for each of at most
  three redirects, however the servers redirect it.
\<close>

theorem feed_names_bounded:
  assumes "feed_ok f"
  shows "length (filter is_resolve (fst (handle_feed N E c f env deadline))) \<le> 4"
proof -
  have m: "Suc (nat (feed_max_redirects f - int 0)) \<le> 4" using assms by (simp add: feed_ok_def MAX_FEED_REDIRECTS_def nat_le_iff)
  have "length (filter is_resolve (fst (feed_loop N E (feed_hosts f) (feed_max_redirects f) (common_timeout c) deadline 0 url))) \<le> 4"
    for url using feed_loop_resolves le_trans m by blast
  then show ?thesis by (auto simp: handle_feed_def split: sum.split prod.split) (metis fst_conv)+
qed

end
