(* ===== verification/BrokerServer.thy ===== *)
theory BrokerServer
  imports HostBroker
begin

text \<open>
  The server side of the host broker: reading one framed request from a socket, decoding its envelope, dispatching
  it under a deadline, and the reply; the admission of connections and the check of the socket's
  path. The bytes of a connection are a stream and a list of deliveries.
\<close>

section \<open>Reading a request from the socket\<close>

text \<open>
  The bytes a client sends before it stops, and how they are delivered: each \<open>recv\<close> happens at some time
  and finds some number of bytes ready, or raises. After the last delivery the socket's own timeout
  strikes. A \<open>recv\<close> that finds nothing although the client has stopped sees the end of the stream.
\<close>

datatype delivery = Ready rat nat | Broken rat

definition crlf :: string where
  "crlf = [char_of (13 :: nat), char_of (10 :: nat)]"

definition MAX_HTTP_HEADER_BYTES :: nat where
  "MAX_HTTP_HEADER_BYTES = 8 * 1024"

text \<open>\<open>recv(n)\<close> on what is left of the stream: the chunk and the rest.\<close>

definition receive :: "rat option \<Rightarrow> nat \<Rightarrow> string \<Rightarrow> delivery list \<Rightarrow> (string \<times> string \<times> delivery list) host_result" where
  "receive deadline n stream ds =
     (case ds of
        [] \<Rightarrow> Inl deadline_exceeded
      | Broken t # _ \<Rightarrow> bind_result (remaining_timeout deadline t 120) (\<lambda>_. Inl (BrokerRequestError ''socket read failed''))
      | Ready t k # ds' \<Rightarrow> bind_result (remaining_timeout deadline t 120) (\<lambda>_.
          let m = min n (max 1 k) in Inr (take m stream, drop m stream, ds')))"

text \<open>\<open>raw.find(needle)\<close> as the text before and after the first occurrence.\<close>

fun split_at_first :: "string \<Rightarrow> string \<Rightarrow> (string \<times> string) option" where
  "split_at_first needle [] = (if needle = [] then Some ([], []) else None)"
| "split_at_first needle (c # s) =
     (if starts_with needle (c # s) then Some ([], drop (length needle) (c # s))
      else (case split_at_first needle s of None \<Rightarrow> None | Some (a, b) \<Rightarrow> Some (c # a, b)))"

fun read_head ::
  "rat option \<Rightarrow> string \<Rightarrow> string \<Rightarrow> delivery list \<Rightarrow> (string \<times> string \<times> string \<times> delivery list) host_result" where
  "read_head deadline raw stream [] = Inl deadline_exceeded"
| "read_head deadline raw stream (d # ds) =
     (case receive deadline (min 4096 (MAX_HTTP_HEADER_BYTES + 4 - length raw)) stream (d # ds) of
        Inl e \<Rightarrow> Inl e
      | Inr (chunk, stream', ds') \<Rightarrow>
          if chunk = [] then Inl (BrokerRequestError ''end of request before headers'')
          else (case split_at_first (crlf @ crlf) (raw @ chunk) of
              Some (head, rest) \<Rightarrow> Inr (head, rest, stream', ds)
            | None \<Rightarrow>
                if length (raw @ chunk) > MAX_HTTP_HEADER_BYTES
                then Inl (BrokerRequestError ''request headers exceed bounded limit'')
                else read_head deadline (raw @ chunk) stream' ds))"

text \<open>\<open>head.split("\r\n")\<close>.\<close>

fun split_lines :: "string \<Rightarrow> string list" where
  "split_lines [] = [[]]"
| "split_lines (c # s) =
     (case s of
        d # s' \<Rightarrow>
          if [c, d] = crlf then [] # split_lines s'
          else (case split_lines s of [] \<Rightarrow> [[c]] | l # ls \<Rightarrow> (c # l) # ls)
      | [] \<Rightarrow> [[c]])"

text \<open>
  \<open>value.isdigit()\<close> also holds of superscript digits, on which \<open>int\<close> raises \<open>ValueError\<close>, as it does on
  more than 4300 digits.
\<close>

definition is_digit_text :: "string \<Rightarrow> bool" where
  "is_digit_text s = (s \<noteq> [] \<and> list_all (\<lambda>c. is_digit c \<or> (of_char c :: nat) \<in> {178, 179, 185}) s)"

definition content_length_value :: "string \<Rightarrow> int host_result" where
  "content_length_value v =
     (if \<not> is_digit_text v then Inl (BrokerRequestError ''invalid Content-Length header'')
      else if \<not> list_all is_digit v \<or> length v > 4300 then Inl UnexpectedError
      else Inr (int (num v)))"

text \<open>The header lines: the lengths given, in order, and whether a transfer coding was named.\<close>

fun scan_headers :: "string list \<Rightarrow> (int list \<times> bool) host_result" where
  "scan_headers [] = Inr ([], False)"
| "scan_headers (line # lines) =
     (case partition_on (CHR '':'') line of
        (_, None) \<Rightarrow> Inl (BrokerRequestError ''malformed request header'')
      | (name, Some v) \<Rightarrow>
          let key = lower (strip name) in
          if key = ''transfer-encoding''
          then bind_result (scan_headers lines) (\<lambda>(ns, te). Inr (ns, True))
          else if key = ''content-length''
          then bind_result (content_length_value (strip v)) (\<lambda>n.
                 bind_result (scan_headers lines) (\<lambda>(ns, te). Inr (n # ns, te)))
          else scan_headers lines)"

definition parse_head :: "string \<Rightarrow> int \<Rightarrow> int host_result" where
  "parse_head head max_bytes =
     (case split_lines head of
        request_line # lines \<Rightarrow>
          if request_line \<noteq> ''POST /broker HTTP/1.1'' then Inl (BrokerRequestError ''unsupported method or path'')
          else bind_result (scan_headers lines) (\<lambda>(lengths, transfer_encoding).
            if transfer_encoding then Inl (BrokerRequestError ''Transfer-Encoding is not supported'')
            else (case lengths of
                [n] \<Rightarrow> if n \<le> 0 \<or> n > max_bytes then Inl (BrokerRequestError ''Content-Length exceeds request limit'') else Inr n
              | _ \<Rightarrow> Inl (BrokerRequestError ''request requires exactly one Content-Length'')))
      | [] \<Rightarrow> Inl (BrokerRequestError ''unsupported method or path''))"

fun read_body ::
  "rat option \<Rightarrow> nat \<Rightarrow> string \<Rightarrow> string \<Rightarrow> delivery list \<Rightarrow> (string \<times> string) host_result" where
  "read_body deadline n body stream ds =
     (if length body \<ge> n then Inr (body, stream)
      else (case ds of
          [] \<Rightarrow> Inl deadline_exceeded
        | d # ds' \<Rightarrow>
            (case receive deadline (min 4096 (n - length body)) stream (d # ds') of
               Inl e \<Rightarrow> Inl e
             | Inr (chunk, stream', _) \<Rightarrow>
                 if chunk = [] then Inl (BrokerRequestError ''end of request before body'')
                 else read_body deadline n (body @ chunk) stream' ds')))"

declare read_body.simps [simp del]

definition extra_data :: host_error where
  "extra_data = BrokerRequestError ''extra request data after body''"

text \<open>\<open>visible\<close>: whether bytes behind the body have already arrived when the socket is polled.\<close>

definition read_envelope_bytes :: "rat option \<Rightarrow> int \<Rightarrow> string \<Rightarrow> delivery list \<Rightarrow> bool \<Rightarrow> string host_result" where
  "read_envelope_bytes deadline max_bytes stream ds visible =
     bind_result (read_head deadline [] stream ds) (\<lambda>(head, rest, stream', ds').
     bind_result (parse_head head max_bytes) (\<lambda>n.
       if int (length rest) > n then Inl extra_data
       else bind_result (read_body deadline (nat n) rest stream' ds') (\<lambda>(body, left).
         if int (length body) \<noteq> n then Inl extra_data
         else if visible \<and> left \<noteq> [] then Inl extra_data else Inr body)))"

section \<open>Decoding the envelope\<close>

definition validate_llm_envelope :: "pyval \<Rightarrow> broker_error + host_envelope" where
  "validate_llm_envelope payload =
     (case payload of PDict d \<Rightarrow>
        if \<not> py_eq_int (get_or d ''protocol_version'' (PInt PROTOCOL_VERSION)) PROTOCOL_VERSION then Inl InvalidEnvelopeError
        else bind_result (require_str (map_of d ''target_url'')) (\<lambda>target_url.
          bind_result (require_request_id (map_of d ''request_id'')) (\<lambda>request_id.
          bind_result (require_str (map_of d ''retrieved_at'')) (\<lambda>retrieved_at.
          bind_result (require_number (get_or d ''timeout_seconds'' (PFloat (Finite DEFAULT_TIMEOUT_SECONDS)))) (\<lambda>timeout.
            if timeout \<le> 0 \<or> timeout > MAX_TIMEOUT_SECONDS then Inl InvalidEnvelopeError
            else bind_result (require_number (get_or d ''max_bytes'' (PInt DEFAULT_MAX_BYTES))) (\<lambda>max_bytes.
              if max_bytes \<le> 0 \<or> max_bytes > of_int MAX_BYTES_HARD_LIMIT then Inl InvalidEnvelopeError
              else if floor max_bytes \<le> 0 then Inl InvalidEnvelopeError
              else (case get_or d ''headers'' (PList []) of
                  PList hs \<Rightarrow>
                    bind_result (map_result request_header hs) (\<lambda>headers.
                      Inr \<lparr>rq_request_id = request_id, rq_route = ''llm'', rq_target_url = target_url,
                        rq_headers = headers, rq_timeout_seconds = Finite timeout,
                        rq_max_bytes = floor max_bytes, rq_retrieved_at = retrieved_at,
                        en_body = get_or d ''body'' (PStr [])\<rparr>)
                | _ \<Rightarrow> Inl InvalidEnvelopeError))))))
      | _ \<Rightarrow> Inl InvalidEnvelopeError)"

definition is_llm_payload :: "pyval \<Rightarrow> bool" where
  "is_llm_payload v = (case v of PDict d \<Rightarrow> map_of d ''route'' = Some (PStr ''llm'') | _ \<Rightarrow> False)"

definition validate_envelope :: "pyval \<Rightarrow> broker_error + host_envelope" where
  "validate_envelope v =
     (if is_llm_payload v then validate_llm_envelope v
      else bind_result (validate_request_payload v) (\<lambda>r. Inr (broker_request.extend r (host_envelope.fields PNone))))"

definition decode_envelope :: "netparse \<Rightarrow> pylib \<Rightarrow> string \<Rightarrow> host_envelope host_result" where
  "decode_envelope N L body =
     (case utf8_decode N body of
        None \<Rightarrow> Inl (BrokerRequestError (''envelope is not UTF-8: '' @ exc_text N ''utf-8'' body))
      | Some s \<Rightarrow>
          (case json_loads L s of
             None \<Rightarrow> Inl (BrokerRequestError (''envelope is not JSON: '' @ exc_text N ''json'' s))
           | Some v \<Rightarrow>
               (case validate_envelope v of
                  Inl e \<Rightarrow> Inl (if is_broker_protocol_error e
                     then BrokerRequestError (''envelope validation failed: '' @ exc_text N ''protocol'' s) else UnexpectedError)
                | Inr env \<Rightarrow> Inr env)))"

section \<open>Dispatch and the answer\<close>

definition dispatch_envelope ::
  "netparse \<Rightarrow> pylib \<Rightarrow> net_env \<Rightarrow> broker_policy \<Rightarrow> string \<Rightarrow> host_envelope \<Rightarrow> rat option \<Rightarrow> pace_table \<Rightarrow>
   broker_response traced \<times> pace_table" where
  "dispatch_envelope N L E P route env deadline table =
     (if route = ''search''
      then (handle_search N E (pol_common P) (pol_search P) env (sanitise_caller_headers (rq_headers env)) deadline, table)
      else if route = ''feed'' then (handle_feed N E (pol_common P) (pol_feed P) env deadline, table)
      else if route = ''article'' then handle_article N E (pol_common P) (pol_article P) env deadline table
      else if route = ''llm'' then (handle_llm N L E (pol_common P) (pol_llm P) env deadline, table)
      else (([], Inl (BrokerRequestError (''unknown route '' @ py_repr route))), table))"

definition http_reason :: "int \<Rightarrow> string" where
  "http_reason status =
     (if status = 200 then ''OK'' else if status = 400 then ''Bad Request''
      else if status = 500 then ''Internal Server Error'' else ''OK'')"

definition build_http_response :: "int \<Rightarrow> string \<Rightarrow> (string \<times> string) list \<Rightarrow> string" where
  "build_http_response status body extra_headers =
     ''HTTP/1.1 '' @ show_int status @ '' '' @ http_reason status @ crlf @
     ''Content-Type: application/json; charset=utf-8'' @ crlf @
     ''Content-Length: '' @ show_nat (length body) @ crlf @
     ''Connection: close'' @ crlf @
     concat (map (\<lambda>(name, value). name @ '': '' @ value @ crlf) extra_headers) @ crlf @ body"

definition error_envelope :: "string \<Rightarrow> string \<Rightarrow> string \<Rightarrow> int \<Rightarrow> instant \<Rightarrow> pydict" where
  "error_envelope request_id code message status now =
     [(''protocol_version'', PInt PROTOCOL_VERSION), (''request_id'', PStr request_id), (''status'', PInt status),
      (''headers'', PList []), (''body_b64'', PStr []), (''final_url'', PStr []),
      (''retrieved_at'', PStr (iso_s now @ ''Z'')), (''error_code'', PStr code), (''error_message'', PStr message),
      (''body_length'', PInt 0)]"

definition build_error_response :: "pylib \<Rightarrow> string \<Rightarrow> string \<Rightarrow> string \<Rightarrow> int \<Rightarrow> instant \<Rightarrow> string" where
  "build_error_response L request_id code message status now =
     build_http_response status (utf8_encode (json_dumps L (PDict (error_envelope request_id code message status now))))
       [(''X-News-Broker-Error-Code'', code)]"

definition serialise_response :: "pylib \<Rightarrow> broker_response \<Rightarrow> string" where
  "serialise_response L r = utf8_encode (response_to_canonical_json L r)"

text \<open>The code, message and status of the error branch that an exception takes.\<close>

definition error_reply :: "host_error \<Rightarrow> string \<times> string \<times> int" where
  "error_reply e =
     (case e of
        BrokerRequestError detail \<Rightarrow> (''invalid_request'', safe_error_category detail, 400)
      | BrokerConfigError \<Rightarrow> (''broker_config_error'', ''broker_config_error'', 500)
      | UnexpectedError \<Rightarrow> (''broker_internal_error'', ''broker_internal_error'', 500))"

text \<open>One connection: when it started, what its client sends, and the clock at the end.\<close>

record connection =
  cn_started :: rat
  cn_stream :: string
  cn_deliveries :: "delivery list"
  cn_visible :: bool
  cn_finished :: rat

definition seconds_value :: "pyfloat \<Rightarrow> rat host_result" where
  "seconds_value f =
     bind_result (host_number (BrokerRequestError ''timeout_seconds must be a finite positive number'') (PFloat f)) (\<lambda>q.
       if q \<le> 0 then Inl (BrokerRequestError ''timeout_seconds must be a finite positive number'') else Inr q)"

text \<open>After the envelope is known: the tighter deadline, the route check, and the work.\<close>

definition serve_envelope ::
  "netparse \<Rightarrow> pylib \<Rightarrow> net_env \<Rightarrow> broker_policy \<Rightarrow> string \<Rightarrow> connection \<Rightarrow> host_envelope \<Rightarrow> pace_table \<Rightarrow>
   broker_response traced \<times> pace_table" where
  "serve_envelope N L E P route C env table =
     (case seconds_value (rq_timeout_seconds env) of
        Inl e \<Rightarrow> (([], Inl e), table)
      | Inr seconds \<Rightarrow>
          let deadline = min (cn_started C + common_timeout (pol_common P)) (cn_started C + seconds) in
          if rq_route env \<noteq> route
          then (([], Inl (BrokerRequestError ''envelope route does not match broker route'')), table)
          else (case dispatch_envelope N L E P route env (Some deadline) table of
              ((t, Inl e), table') \<Rightarrow> ((t, Inl e), table')
            | ((t, Inr response), table') \<Rightarrow>
                ((t, bind_result (remaining_timeout (Some deadline) (cn_finished C) (common_timeout (pol_common P))) (\<lambda>_. Inr response)),
                 table')))"

definition handle_connection ::
  "netparse \<Rightarrow> pylib \<Rightarrow> net_env \<Rightarrow> broker_policy \<Rightarrow> string \<Rightarrow> connection \<Rightarrow> pace_table \<Rightarrow> (egress list \<times> string) \<times> pace_table" where
  "handle_connection N L E P route C table =
     (let fail = (\<lambda>request_id e. case error_reply e of (code, message, status) \<Rightarrow>
            build_error_response L request_id code message status (ne_stamp E)) in
      case bind_result (read_envelope_bytes (Some (cn_started C + common_timeout (pol_common P)))
             (max_request_bytes (pol_common P)) (cn_stream C) (cn_deliveries C) (cn_visible C)) (decode_envelope N L) of
        Inl e \<Rightarrow> (([], fail ''<unknown>'' e), table)
      | Inr env \<Rightarrow>
          (case serve_envelope N L E P route C env table of
             ((t, Inl e), table') \<Rightarrow> ((t, fail (rq_request_id env) e), table')
           | ((t, Inr response), table') \<Rightarrow>
               ((t, build_http_response 200 (serialise_response L response)
                      [(''X-News-Broker-Request-Id'', rq_request_id env)]), table')))"

lemma handle_feed_events:
  assumes "ev \<in> set (fst (handle_feed N E c f env deadline))"
  shows "(\<exists>host. ev = Resolve host 443 \<and> host_allowed (feed_hosts f) host) \<or>
    (\<exists>ip name r. ev = Connect ip name r \<and> pinned N E (feed_hosts f) ip name r)"
proof -
  obtain url where "ev \<in> set (fst (feed_loop N E (feed_hosts f) (feed_max_redirects f) (common_timeout c) deadline 0 url))"
    using assms by (auto simp: handle_feed_def split: sum.splits if_splits prod.splits) (metis fst_conv)+
  then show ?thesis by (rule feed_loop_events)
qed

lemma handle_article_events:
  assumes "ev \<in> set (fst (fst (handle_article N E c a env deadline table)))"
  shows "article_enabled a \<and> ((\<exists>host. ev = Resolve host 443 \<and> host_allowed (article_hosts a) host) \<or>
    (\<exists>ip name r. ev = Connect ip name r \<and> pinned N E (article_hosts a) ip name r))"
proof -
  obtain p where p: "article_enabled a" "validate_feed_target_url N (rq_target_url env) = Inr p"
      "host_allowed (article_hosts a) (the (u_hostname p))"
      "ev \<in> set (fst (fetch_article N E c env deadline (the (u_hostname p)) (unsplit N p)))"
    using assms by (auto simp: handle_article_def Let_def split: sum.splits if_splits prod.splits)
  then have dest: "destined N (unsplit N p) (the (u_hostname p))"
    using validate_feed_target_Inr [OF p(2)] by (auto simp: destined_def)
  show ?thesis
  proof (cases "resolve_and_validate (ne_resolve E 0) (the (u_hostname p)) 443")
    case (Inl e)
    then show ?thesis using p by (simp add: fetch_article_def)
  next
    case (Inr ips)
    then show ?thesis
      using p pinned_fetch [OF Inr dest p(3), of ev "ne_connect E 0" "''text/html, application/xhtml+xml''"]
      by (fastforce simp: fetch_article_def split: sum.splits prod.splits)
  qed
qed

lemma build_search_outbound_Inr:
  assumes "build_search_outbound N target rid base_url hs = Inr (r, fixed)" "fst ` set hs \<subseteq> set ALLOWED_HEADERS"
  shows "hq_method r = ''GET'' \<and> clean_headers (hq_headers r) \<and>
    (\<exists>base q. url_split N base_url = Inr base \<and>
       request_url N (url_unsplit N (u_scheme base, u_netloc base, ''/search'', q, [])) = Some (hq_url r))"
proof -
  let ?own = "add_headers [(''Accept'', ''application/json''), (''User-Agent'', USER_AGENT), (''X-News-Broker-Request-Id'', rid)] []"
  let ?extra = "filter (\<lambda>(name, value). lower name \<notin> {''accept'', ''user-agent''}) hs"
  obtain base q full where *: "url_split N base_url = Inr base"
      "request_url N (url_unsplit N (u_scheme base, u_netloc base, ''/search'', q, [])) = Some full"
      "r = \<lparr>hq_url = full, hq_method = ''GET'', hq_headers = add_headers ?extra ?own, hq_data = None\<rparr>"
    using assms(1) by (auto simp: build_search_outbound_def Let_def make_request_Inr split: sum.splits if_splits)
  have "clean_headers ?own" by (rule clean_add_headers) (simp_all add: clean_headers_def)
  moreover have "fst ` set ?extra \<subseteq> set ALLOWED_HEADERS" using assms(2) by auto
  ultimately have "clean_headers (add_headers ?extra ?own)" by (rule clean_add_headers [OF _ le_supI1])
  then show ?thesis using * by auto
qed

lemma build_llm_outbound_Inr:
  assumes "build_llm_outbound N L c l env = Inr (r, url)"
  shows "hq_method r = ''POST'' \<and> clean_headers (hq_headers r) \<and>
    (\<exists>base. url_split N (llm_base_url l) = Inr base \<and> CHR ''@'' \<notin> set (u_netloc base) \<and>
       request_url N (llm_url base (llm_path l)) = Some (hq_url r))"
proof -
  have "clean_headers (add_headers [(''Content-Type'', ct), (''Accept'', a), (''User-Agent'', ua), (''X-News-Broker-Request-Id'', rid)] [])"
    for ct a ua rid
    by (rule clean_add_headers) (simp_all add: clean_headers_def)
  then show ?thesis
    using assms by (auto simp: build_llm_outbound_def make_request_Inr netloc_has_userinfo_def split: if_splits)
qed

lemma open_upstream_events:
  "ev \<in> set (fst (open_upstream E what deadline timeout r)) \<Longrightarrow> ev = Open r"
  by (auto simp: open_upstream_def split: sum.splits)

lemma handle_search_events:
  assumes "ev \<in> set (fst (handle_search N E c base_url env hs deadline))"
  shows "\<exists>r fixed. build_search_outbound N (rq_target_url env) (rq_request_id env) base_url hs = Inr (r, fixed) \<and> ev = Open r"
  using assms open_upstream_events
  by (auto simp: handle_search_def split: sum.splits prod.splits) (metis fst_conv)+

lemma handle_llm_events:
  assumes "ev \<in> set (fst (handle_llm N L E c l env deadline))"
  shows "\<exists>r url. build_llm_outbound N L c l env = Inr (r, url) \<and> ev = Open r"
  using assms open_upstream_events
  by (auto simp: handle_llm_def split: sum.splits prod.splits) (metis fst_conv)+

lemma dispatch_permitted:
  assumes "ev \<in> set (fst (fst (dispatch_envelope N L E P route env deadline table)))"
    and "fst ` set (rq_headers env) \<subseteq> set ALLOWED_HEADERS"
  shows "permitted N E P route ev"
proof -
  have sane: "fst ` set (sanitise_caller_headers (rq_headers env)) \<subseteq> set ALLOWED_HEADERS"
    using assms(2) by (auto simp: sanitise_caller_headers_def)
  consider "route = ''search''" | "route = ''feed''" | "route = ''article''" | "route = ''llm''"
    using assms(1) by (auto simp: dispatch_envelope_def split: if_splits)
  then show ?thesis
  proof cases
    case 1
    then obtain r fixed where r: "build_search_outbound N (rq_target_url env) (rq_request_id env) (pol_search P)
        (sanitise_caller_headers (rq_headers env)) = Inr (r, fixed)" "ev = Open r"
      using assms(1) handle_search_events by (fastforce simp: dispatch_envelope_def)
    then show ?thesis using 1 build_search_outbound_Inr [OF r(1) sane] by (auto simp: fixed_origin_def)
  next
    case 2
    then show ?thesis using assms(1) handle_feed_events by (fastforce simp: dispatch_envelope_def route_hosts_def)
  next
    case 3
    then show ?thesis using assms(1) handle_article_events by (fastforce simp: dispatch_envelope_def route_hosts_def)
  next
    case 4
    then obtain r url where r: "build_llm_outbound N L (pol_common P) (pol_llm P) env = Inr (r, url)" "ev = Open r"
      using assms(1) handle_llm_events by (fastforce simp: dispatch_envelope_def)
    then show ?thesis using 4 build_llm_outbound_Inr [OF r(1)] by (auto simp: fixed_origin_def)
  qed
qed

section \<open>What an accepted envelope is\<close>

definition envelope_ok :: "host_envelope \<Rightarrow> bool" where
  "envelope_ok env \<longleftrightarrow> (\<forall>(name, value) \<in> set (rq_headers env). name \<in> set ALLOWED_HEADERS) \<and> list_all token_char (rq_request_id env) \<and>
     1 \<le> rq_max_bytes env \<and> rq_max_bytes env \<le> MAX_BYTES_HARD_LIMIT \<and>
     (\<exists>q. rq_timeout_seconds env = Finite q \<and> 0 < q \<and> q \<le> MAX_TIMEOUT_SECONDS)"

lemma validate_llm_envelope_ok: "validate_llm_envelope v = Inr env \<Longrightarrow> envelope_ok env"
proof -
  assume v: "validate_llm_envelope v = Inr env"
  have fl: "floor q \<le> MAX_BYTES_HARD_LIMIT" if "q \<le> of_int MAX_BYTES_HARD_LIMIT" for q :: rat
    using that by (simp add: floor_le_iff)
  show ?thesis
  proof (cases v)
    case (PDict d)
    show ?thesis
    proof (cases "get_or d ''headers'' (PList [])")
      case (PList hs)
      then show ?thesis using v PDict fl unfolding validate_llm_envelope_def envelope_ok_def
        by (auto simp: request_headers_Inr split: if_splits)
    qed (use v PDict in \<open>auto simp: validate_llm_envelope_def split: if_splits\<close>)
  qed (use v in \<open>simp_all add: validate_llm_envelope_def\<close>)
qed

lemma validate_envelope_ok: "validate_envelope v = Inr env \<Longrightarrow> envelope_ok env"
  using validate_llm_envelope_ok [of v env] validate_request_sound [of v]
  by (auto simp: validate_envelope_def envelope_ok_def request_ok_def broker_request.defs split: if_splits)

lemma decode_envelope_ok: "decode_envelope N L body = Inr env \<Longrightarrow> envelope_ok env"
  by (auto simp: decode_envelope_def validate_envelope_ok split: option.splits sum.splits)

lemma serve_envelope_events:
  assumes "ev \<in> set (fst (fst (serve_envelope N L E P route C env table)))"
  shows "\<exists>deadline. rq_route env = route \<and> ev \<in> set (fst (fst (dispatch_envelope N L E P route env deadline table)))"
  using assms by (auto simp: serve_envelope_def Let_def split: sum.splits prod.splits if_splits) (metis fst_conv)+

text \<open>
  C5: Whatever a client sends over the socket, whatever the resolver and the servers answer, and wherever they
  redirect to: every name the broker resolves is allow-listed for its route, every connection
  of the feed and article routes is a GET to an address that such a name resolved to and that
  is not blocked, for an https address on port 443 without credentials, and every other request
  goes to the origin the policy fixes. No request carries a credential header.
\<close>

theorem egress_contained:
  assumes "ev \<in> set (fst (fst (handle_connection N L E P route C table)))"
  shows "permitted N E P route ev"
proof -
  obtain body env where env: "decode_envelope N L body = Inr env" and "ev \<in> set (fst (fst (serve_envelope N L E P route C env table)))"
    using assms by (auto simp: handle_connection_def Let_def split: sum.splits prod.splits)
  then show ?thesis
    using serve_envelope_events dispatch_permitted [of ev N L E P route env _ table] decode_envelope_ok [OF env]
    by (fastforce simp: envelope_ok_def)
qed

section \<open>What a connection is answered\<close>

lemma keep_response_headers_ok:
  "distinct (map (lower \<circ> fst) (keep_response_headers seen hs)) \<and>
   (lower \<circ> fst) ` set (keep_response_headers seen hs) \<subseteq> set RESPONSE_HEADER_ALLOWLIST - set STRIPPED_HEADERS - set seen"
  by (induction seen hs rule: keep_response_headers.induct) (auto simp: Let_def)

lemma effective_response_limit_Inr:
  "effective_response_limit a b = Inr n \<Longrightarrow> 1 \<le> n \<and> n \<le> a \<and> n \<le> b"
  by (auto simp: effective_response_limit_def positive_finite_bytes_def host_number_def finite_number_def Let_def
      split: if_splits)

definition response_fits :: "host_envelope \<Rightarrow> int \<Rightarrow> broker_response \<Rightarrow> bool" where
  "response_fits env cap r \<longleftrightarrow>
     rs_request_id r = rq_request_id env \<and> int (length (rs_body r)) \<le> rq_max_bytes env \<and> int (length (rs_body r)) \<le> cap \<and>
     distinct (map (lower \<circ> fst) (rs_headers r)) \<and>
     (\<forall>name \<in> fst ` set (rs_headers r). lower name \<in> set RESPONSE_HEADER_ALLOWLIST \<and> lower name \<notin> set STRIPPED_HEADERS) \<and>
     rs_error_code r = None \<and> rs_error_message r = None"

lemma finish_read_fits:
  assumes "finish_read E env url cap deadline u = Inr r"
  shows "response_fits env cap r \<and> rs_final_url r = url"
proof -
  obtain n where n: "effective_response_limit cap (rq_max_bytes env) = Inr n"
      "read_response_envelope u (rq_request_id env) url n deadline (ne_stamp E) = Inr r"
    using assms by (auto simp: finish_read_def split: sum.splits)
  from n(2) obtain received ov where r: "r = \<lparr>rs_request_id = rq_request_id env,
      rs_status = (if int (length received) > n then -1 else if ov then -1 else up_status u),
      rs_headers = sanitise_response_headers (up_headers u),
      rs_body = (if int (length received) > n then take (nat n) received else received), rs_final_url = url,
      rs_retrieved_at = iso_s (ne_stamp E) @ ''Z'', rs_error_code = None, rs_error_message = None\<rparr>"
    by (auto simp: read_response_envelope_def Let_def split: prod.splits)
  have "int (length (rs_body r)) \<le> n" using r effective_response_limit_Inr [OF n(1)] by auto
  then show ?thesis
    using r effective_response_limit_Inr [OF n(1)] keep_response_headers_ok [of "[]" "up_headers u"]
    by (fastforce simp: response_fits_def sanitise_response_headers_def)
qed

lemma read_wrappers [simp]:
  "unguarded_read x = Inr r \<longleftrightarrow> x = Inr r" "guarded_read what x = Inr r \<longleftrightarrow> x = Inr r"
  by (auto simp: unguarded_read_def guarded_read_def split: sum.splits read_failure.splits)

definition route_cap :: "broker_policy \<Rightarrow> string \<Rightarrow> int" where
  "route_cap P route = (if route = ''llm'' then llm_max_response_bytes (pol_llm P) else max_response_bytes (pol_common P))"

lemma dispatch_fits:
  assumes "dispatch_envelope N L E P route env deadline table = ((t, Inr r), table')"
  shows "response_fits env (route_cap P route) r \<and>
    (route = ''feed'' \<longrightarrow> (\<exists>host. hop_host N (feed_hosts (pol_feed P)) (rs_final_url r) = Inr host))"
proof -
  consider "route = ''search''" | "route = ''feed''" | "route = ''article''" | "route = ''llm''"
    using assms by (auto simp: dispatch_envelope_def split: if_splits)
  then show ?thesis
  proof cases
    case 1
    then show ?thesis using assms finish_read_fits
      by (fastforce simp: dispatch_envelope_def handle_search_def route_cap_def split: sum.splits prod.splits)
  next
    case 2
    then obtain url u tr where "feed_loop N E (feed_hosts (pol_feed P)) (feed_max_redirects (pol_feed P))
          (common_timeout (pol_common P)) deadline 0 (unsplit N tr) = (t, Inr (url, u))"
        "finish_read E env url (max_response_bytes (pol_common P)) deadline u = Inr r"
      using assms by (auto simp: dispatch_envelope_def handle_feed_def split: sum.splits prod.splits if_splits)
    then show ?thesis using 2 feed_loop_final finish_read_fits by (fastforce simp: route_cap_def)
  next
    case 3
    then have "\<exists>url u. finish_read E env url (max_response_bytes (pol_common P)) deadline u = Inr r"
      using assms by (auto simp: dispatch_envelope_def handle_article_def fetch_article_def Let_def
          split: sum.splits prod.splits if_splits)
    then show ?thesis using 3 finish_read_fits by (fastforce simp: route_cap_def)
  next
    case 4
    then show ?thesis using assms finish_read_fits
      by (fastforce simp: dispatch_envelope_def handle_llm_def route_cap_def split: sum.splits prod.splits)
  qed
qed

lemma serve_envelope_Inr:
  assumes "serve_envelope N L E P route C env table = ((t, Inr r), table')"
  shows "\<exists>deadline. rq_route env = route \<and> dispatch_envelope N L E P route env deadline table = ((t, Inr r), table')"
  using assms by (auto simp: serve_envelope_def Let_def split: sum.splits prod.splits if_splits)

text \<open>The final address of a feed: https without credentials, on the default port, at a host of the allow-list.\<close>

definition feed_address :: "netparse \<Rightarrow> string list \<Rightarrow> string \<Rightarrow> bool" where
  "feed_address N hosts url \<longleftrightarrow>
     (\<exists>p host. url_split N url = Inr p \<and> u_scheme p = ''https'' \<and> CHR ''@'' \<notin> set (u_netloc p) \<and>
        u_port p \<in> {Inr None, Inr (Some 443)} \<and> u_hostname p = Some host \<and> host \<noteq> [] \<and> lower host \<in> set hosts)"

lemma hop_host_address: "hop_host N hosts url = Inr host \<Longrightarrow> feed_address N hosts url"
  unfolding feed_address_def hop_host_def split_unguarded_def host_allowed_def netloc_has_userinfo_def
  by (auto simp: list_ex_iff split: if_splits option.splits sum.splits)

text \<open>The model's answer is read under its own limit.\<close>

lemma llm_response_cap:
  assumes "serve_envelope N L E P ''llm'' C env table = ((t, Inr r), table')"
  shows "int (length (rs_body r)) \<le> llm_max_response_bytes (pol_llm P)"
  using serve_envelope_Inr [OF assms] dispatch_fits by (fastforce simp: response_fits_def route_cap_def)

text \<open>
  C24: A response the broker passes on echoes the id of the request; its body is within the cap the client
  asked for and, on the search, feed and article routes, within the common cap; its header names are distinct, on the
  response allow-list and none of those that carry credentials; and a feed ends at an https address without
  credentials, on the default port, whose host is allow-listed.
\<close>

theorem served_response_bounded:
  assumes "serve_envelope N L E P route C env table = ((t, Inr r), table')"
  shows "rs_request_id r = rq_request_id env \<and> int (length (rs_body r)) \<le> rq_max_bytes env \<and>
    (route \<noteq> ''llm'' \<longrightarrow> int (length (rs_body r)) \<le> max_response_bytes (pol_common P)) \<and>
    distinct (map (lower \<circ> fst) (rs_headers r)) \<and>
    (\<forall>name \<in> fst ` set (rs_headers r). lower name \<in> set RESPONSE_HEADER_ALLOWLIST \<and> lower name \<notin> set STRIPPED_HEADERS) \<and>
    (route = ''feed'' \<longrightarrow> feed_address N (feed_hosts (pol_feed P)) (rs_final_url r))"
proof -
  obtain deadline where d: "dispatch_envelope N L E P route env deadline table = ((t, Inr r), table')"
    using serve_envelope_Inr [OF assms] by blast
  show ?thesis
    using dispatch_fits [OF d] hop_host_address unfolding response_fits_def route_cap_def by (auto simp del: o_apply)
qed

section \<open>Error replies\<close>

definition CATEGORY_NAMES :: "string list" where
  "CATEGORY_NAMES = ''invalid_request'' # map snd ERROR_CATEGORIES"

lemma safe_error_category_fixed: "safe_error_category detail \<in> set CATEGORY_NAMES"
proof (cases "find (\<lambda>(needles, category). list_ex (\<lambda>needle. contains needle (lower detail)) needles) ERROR_CATEGORIES")
  case None
  then show ?thesis by (simp add: safe_error_category_def CATEGORY_NAMES_def)
next
  case (Some c)
  then have "c \<in> set ERROR_CATEGORIES" by (metis find_Some_iff nth_mem)
  moreover have "safe_error_category detail = snd c" by (simp add: safe_error_category_def Some split_beta)
  ultimately show ?thesis by (simp add: CATEGORY_NAMES_def)
qed

definition ERROR_REPLIES :: "(string \<times> string \<times> int) list" where
  "ERROR_REPLIES = map (\<lambda>m. (''invalid_request'', m, 400)) CATEGORY_NAMES @
     [(''broker_config_error'', ''broker_config_error'', 500), (''broker_internal_error'', ''broker_internal_error'', 500)]"

lemma error_reply_fixed: "error_reply e \<in> set ERROR_REPLIES"
  using safe_error_category_fixed by (cases e) (auto simp: error_reply_def ERROR_REPLIES_def)

text \<open>A reply either carries a response or one of the fixed error texts; nothing else of the request than its id.\<close>

definition sanitised :: "pylib \<Rightarrow> instant \<Rightarrow> string \<Rightarrow> string \<Rightarrow> bool" where
  "sanitised L now rid reply \<longleftrightarrow>
     (\<exists>r. rs_request_id r = rid \<and> reply = build_http_response 200 (serialise_response L r) [(''X-News-Broker-Request-Id'', rid)]) \<or>
     (\<exists>code message status. (code, message, status) \<in> set ERROR_REPLIES \<and>
        reply = build_error_response L rid code message status now)"

lemma sanitised_error:
  "sanitised L now rid (case error_reply e of (code, message, status) \<Rightarrow> build_error_response L rid code message status now)"
proof (cases "error_reply e")
  case (fields code message status)
  then have "(code, message, status) \<in> set ERROR_REPLIES" using error_reply_fixed [of e] by simp
  then show ?thesis unfolding sanitised_def fields prod.case by blast
qed

text \<open>
  C22: Every connection is answered, and the answer tells nothing but the request's id and either a response or
  one of nineteen fixed error codes and texts: no address, header or message of the request, and
  no internal exception text.
\<close>

theorem replies_sanitised:
  "\<exists>rid. (rid = ''<unknown>'' \<or> list_all token_char rid) \<and>
    sanitised L (ne_stamp E) rid (snd (fst (handle_connection N L E P route C table)))"
proof -
  define got where "got = bind_result (read_envelope_bytes (Some (cn_started C + common_timeout (pol_common P)))
      (max_request_bytes (pol_common P)) (cn_stream C) (cn_deliveries C) (cn_visible C)) (decode_envelope N L)"
  show ?thesis
  proof (cases got)
    case (Inl e)
    then show ?thesis using sanitised_error
      by (intro exI [of _ "''<unknown>''"]) (simp add: handle_connection_def Let_def got_def [symmetric])
  next
    case (Inr env)
    then have tok: "list_all token_char (rq_request_id env)"
      by (auto simp: got_def envelope_ok_def dest!: decode_envelope_ok)
    obtain t res table' where s: "serve_envelope N L E P route C env table = ((t, res), table')"
      by (metis surj_pair)
    have "sanitised L (ne_stamp E) (rq_request_id env) (snd (fst (handle_connection N L E P route C table)))"
    proof (cases res)
      case (Inl e)
      then show ?thesis using sanitised_error Inr s by (simp add: handle_connection_def Let_def got_def [symmetric])
    next
      case (Inr r)
      then have "rs_request_id r = rq_request_id env"
        using s serve_envelope_Inr dispatch_fits by (fastforce simp: response_fits_def)
      then show ?thesis using Inr \<open>got = Inr env\<close> s
        by (auto simp: handle_connection_def Let_def got_def [symmetric] sanitised_def)
    qed
    then show ?thesis using tok by blast
  qed
qed

section \<open>Framing\<close>

lemma split_at_first_Some: "split_at_first n s = Some (a, b) \<Longrightarrow> s = a @ n @ b"
  by (induction n s arbitrary: a b rule: split_at_first.induct)
    (auto simp: starts_with_iff split: if_splits option.splits)

lemma split_at_first_append: "split_at_first n s = Some (a, b) \<Longrightarrow> split_at_first n (s @ t) = Some (a, b @ t)"
proof (induction n s arbitrary: a b rule: split_at_first.induct)
  case (1 n)
  then show ?case by (cases t) (auto split: if_splits)
next
  case (2 n c s)
  show ?case
  proof (cases "starts_with n (c # s)")
    case True
    then obtain r where r: "c # s = n @ r" by (auto simp: starts_with_iff)
    then have "c # s @ t = n @ r @ t" by (metis append.assoc append_Cons)
    then have "starts_with n (c # s @ t)" unfolding starts_with_iff by blast
    then have "split_at_first n ((c # s) @ t) = Some ([], drop (length n) (c # s @ t))" by simp
    moreover have "drop (length n) (c # s @ t) = r @ t" "drop (length n) (c # s) = r"
      unfolding r \<open>c # s @ t = n @ r @ t\<close> by simp_all
    ultimately show ?thesis using 2(2) True by simp
  next
    case False
    then obtain a' where a': "split_at_first n s = Some (a', b)" "a = c # a'"
      using 2(2) by (auto split: option.splits)
    then have "length n \<le> length s" using split_at_first_Some [OF a'(1)] by simp
    then have "\<not> starts_with n (c # s @ t)" using False by (simp add: starts_with_def take_Cons' split: if_splits)
    then show ?thesis using 2(1) [OF False a'(1)] a'(2) by simp
  qed
qed

lemma split_at_first_found: "split_at_first n (a @ n @ b) \<noteq> None"
proof (induction a)
  case Nil
  have "starts_with n (n @ b)" by (auto simp: starts_with_iff)
  then show ?case by (cases "n @ b") (auto split: if_splits)
next
  case (Cons c a)
  then show ?case by (auto split: option.splits)
qed

lemma receive_Inr:
  assumes "receive deadline n stream ds = Inr (chunk, stream', ds')"
  shows "stream = chunk @ stream' \<and> length chunk \<le> n"
  using assms by (auto simp: receive_def Let_def split: list.splits delivery.splits)

lemma read_head_sound:
  "read_head deadline raw stream ds = Inr (head, rest, stream', ds') \<Longrightarrow> split_at_first (crlf @ crlf) raw = None \<Longrightarrow>
   length raw \<le> MAX_HTTP_HEADER_BYTES \<Longrightarrow>
   raw @ stream = head @ crlf @ crlf @ rest @ stream' \<and> split_at_first (crlf @ crlf) (raw @ stream) = Some (head, rest @ stream') \<and>
   length head \<le> MAX_HTTP_HEADER_BYTES"
proof (induction deadline raw stream ds rule: read_head.induct)
  case (2 deadline raw stream d ds)
  obtain chunk s1 ds1 where r: "receive deadline (min 4096 (MAX_HTTP_HEADER_BYTES + 4 - length raw)) stream (d # ds) = Inr (chunk, s1, ds1)"
      "chunk \<noteq> []"
    using 2(2) by (auto split: sum.splits if_splits)
  note s = receive_Inr [OF r(1)]
  show ?case
  proof (cases "split_at_first (crlf @ crlf) (raw @ chunk)")
    case None
    then have next_step: "read_head deadline (raw @ chunk) s1 ds = Inr (head, rest, stream', ds')"
        "length (raw @ chunk) \<le> MAX_HTTP_HEADER_BYTES"
      using 2(2) r by (auto split: if_splits)
    from 2(1) [OF r(1) refl refl r(2) None _ next_step(1) None next_step(2)] next_step(2) s show ?thesis by auto
  next
    case (Some ab)
    then have ab: "ab = (head, rest)" "stream' = s1" using 2(2) r by (auto split: prod.splits)
    have "raw @ chunk = head @ (crlf @ crlf) @ rest" using split_at_first_Some Some ab(1) by blast
    moreover have "length (raw @ chunk) \<le> MAX_HTTP_HEADER_BYTES + 4" using s 2(4) by simp linarith
    ultimately have "length head \<le> MAX_HTTP_HEADER_BYTES" "raw @ stream = head @ crlf @ crlf @ rest @ stream'"
      using s ab(2) by (auto simp: crlf_def dest: arg_cong [of _ _ length])
    moreover have "split_at_first (crlf @ crlf) (raw @ stream) = Some (head, rest @ stream')"
      using split_at_first_append [OF Some [unfolded ab(1)], of s1] s ab(2) by simp
    ultimately show ?thesis by blast
  qed
qed simp

lemma read_body_sound:
  "read_body deadline n body stream ds = Inr (b, left) \<Longrightarrow> length body \<le> n \<Longrightarrow> body @ stream = b @ left \<and> length b = n"
proof (induction deadline n body stream ds rule: read_body.induct)
  case (1 deadline n body stream ds)
  show ?case
  proof (cases "length body \<ge> n")
    case True
    then show ?thesis using 1(2,3) by (simp add: read_body.simps)
  next
    case False
    then obtain d ds' where ds: "ds = d # ds'" using 1(2) by (cases ds) (simp_all add: read_body.simps)
    then obtain chunk s1 ds1 where r: "receive deadline (min 4096 (n - length body)) stream (d # ds') = Inr (chunk, s1, ds1)"
        "chunk \<noteq> []" "read_body deadline n (body @ chunk) s1 ds' = Inr (b, left)"
      using 1(2) False by (subst (asm) read_body.simps) (auto split: sum.splits if_splits)
    have "length (body @ chunk) \<le> n" using receive_Inr [OF r(1)] False by simp linarith
    from 1(1) [OF False ds r(1) refl refl r(2,3) this] receive_Inr [OF r(1)] show ?thesis by auto
  qed
qed

text \<open>Deliveries that come before the deadline, and enough of them.\<close>

definition timely :: "rat \<Rightarrow> delivery list \<Rightarrow> bool" where
  "timely dl ds = list_all (\<lambda>d. case d of Ready t k \<Rightarrow> t < dl | Broken t \<Rightarrow> False) ds"

lemma receive_timely:
  assumes "timely dl ds" "length stream \<le> length ds" "stream \<noteq> []" "0 < n"
  obtains chunk stream' d ds' where "ds = d # ds'" "receive (Some dl) n stream (d # ds') = Inr (chunk, stream', ds')"
    "stream = chunk @ stream'" "chunk \<noteq> []" "timely dl ds'" "length stream' \<le> length ds'"
proof -
  obtain t k ds' where ds: "ds = Ready t k # ds'" "t < dl" "timely dl ds'"
    using assms(1-3) by (cases ds) (auto simp: timely_def split: delivery.splits)
  let ?m = "min n (max 1 k)"
  have "receive (Some dl) n stream (Ready t k # ds') = Inr (take ?m stream, drop ?m stream, ds')"
    using ds(2) by (simp add: receive_def remaining_timeout_def Let_def)
  moreover have "take ?m stream \<noteq> []" using assms(3,4) by simp
  moreover have "length (drop ?m stream) \<le> length ds'" using assms(2-4) ds(1) by (cases stream) (auto simp: min_def max_def)
  ultimately show ?thesis using that [of "Ready t k" ds' "take ?m stream" "drop ?m stream"] ds by simp
qed

lemma read_head_complete:
  assumes "timely dl ds" "length stream \<le> length ds" "split_at_first (crlf @ crlf) raw = None"
    and "split_at_first (crlf @ crlf) (raw @ stream) = Some (head, tail)" "length head + 4 \<le> MAX_HTTP_HEADER_BYTES"
  shows "\<exists>rest stream' ds'. read_head (Some dl) raw stream ds = Inr (head, rest, stream', ds') \<and> tail = rest @ stream' \<and>
    timely dl ds' \<and> length stream' \<le> length ds'"
  using assms
proof (induction "length stream" arbitrary: raw stream ds rule: less_induct)
  case less
  have total: "raw @ stream = head @ (crlf @ crlf) @ tail" using split_at_first_Some less(5) by blast
  have short: "length p < length head + 4" if p: "split_at_first (crlf @ crlf) p = None" and q: "p @ q = raw @ stream" for p q
  proof (rule ccontr)
    assume "\<not> length p < length head + 4"
    then have "length (head @ crlf @ crlf) \<le> length p" by (simp add: crlf_def)
    then obtain x where "p = (head @ crlf @ crlf) @ x"
      using q total by (metis append_assoc append_eq_append_conv_if append_eq_conv_conj append_take_drop_id)
    then show False using p split_at_first_found [of "crlf @ crlf" head x] by simp
  qed
  have "stream \<noteq> []" using less(4,5) by auto
  moreover have "0 < min 4096 (MAX_HTTP_HEADER_BYTES + 4 - length raw)" using short [of raw stream] less(4,6) by simp
  ultimately obtain chunk s1 d ds1 where r: "ds = d # ds1"
      "receive (Some dl) (min 4096 (MAX_HTTP_HEADER_BYTES + 4 - length raw)) stream (d # ds1) = Inr (chunk, s1, ds1)"
      "stream = chunk @ s1" "chunk \<noteq> []" "timely dl ds1" "length s1 \<le> length ds1"
    using receive_timely [OF less(2,3)] by metis
  show ?case
  proof (cases "split_at_first (crlf @ crlf) (raw @ chunk)")
    case None
    then have "length (raw @ chunk) \<le> MAX_HTTP_HEADER_BYTES" using short [of "raw @ chunk" s1] r(3) less(6) by simp
    then have "read_head (Some dl) raw stream ds = read_head (Some dl) (raw @ chunk) s1 ds1"
      using r None by simp
    moreover have "length s1 < length stream" using r(3,4) by simp
    ultimately show ?thesis using less(1) [of s1 ds1 "raw @ chunk"] r None less(5,6) by simp
  next
    case (Some ab)
    obtain a b where ab: "ab = (a, b)" by fastforce
    have "split_at_first (crlf @ crlf) (raw @ stream) = Some (a, b @ s1)"
      using split_at_first_append [OF Some [unfolded ab], of s1] r(3) by simp
    then have "a = head" "tail = b @ s1" using less(5) by auto
    then show ?thesis using r Some ab by simp
  qed
qed

lemma read_body_complete:
  assumes "timely dl ds" "length stream \<le> length ds" "length (body @ stream) = n"
  shows "read_body (Some dl) n body stream ds = Inr (body @ stream, [])"
  using assms
proof (induction "length stream" arbitrary: body stream ds rule: less_induct)
  case less
  show ?case
  proof (cases "stream = []")
    case True
    then show ?thesis using less(4) by (simp add: read_body.simps)
  next
    case False
    then have n: "\<not> length body \<ge> n" using less(4) by (cases stream) auto
    then obtain chunk s1 d ds1 where r: "ds = d # ds1"
        "receive (Some dl) (min 4096 (n - length body)) stream (d # ds1) = Inr (chunk, s1, ds1)"
        "stream = chunk @ s1" "chunk \<noteq> []" "timely dl ds1" "length s1 \<le> length ds1"
      using receive_timely [OF less(2,3) False, of "min 4096 (n - length body)"] by (metis min_less_iff_conj not_le zero_less_diff zero_less_numeral)
    then have "read_body (Some dl) n body stream ds = read_body (Some dl) n (body @ chunk) s1 ds1"
      using n by (subst read_body.simps) simp
    then show ?thesis using less(1) [of s1 ds1 "body @ chunk"] r less(4) by simp
  qed
qed

lemma no_separator [simp]: "split_at_first (crlf @ crlf) [] = None"
  by (simp add: crlf_def)

lemma framing_sound:
  assumes "read_envelope_bytes deadline max_bytes stream ds visible = Inr body"
  shows "\<exists>head left. stream = head @ crlf @ crlf @ body @ left \<and> split_at_first (crlf @ crlf) stream = Some (head, body @ left) \<and>
    parse_head head max_bytes = Inr (int (length body)) \<and> length head \<le> MAX_HTTP_HEADER_BYTES \<and> (visible \<longrightarrow> left = [])"
proof -
  obtain head rest s1 ds1 n left where h: "read_head deadline [] stream ds = Inr (head, rest, s1, ds1)"
      "parse_head head max_bytes = Inr n" "\<not> int (length rest) > n"
      "read_body deadline (nat n) rest s1 ds1 = Inr (body, left)" "int (length body) = n" "visible \<longrightarrow> left = []"
    using assms by (auto simp: read_envelope_bytes_def split: if_splits)
  from read_head_sound [OF h(1) no_separator, unfolded append_Nil] have "stream = head @ crlf @ crlf @ rest @ s1"
      "split_at_first (crlf @ crlf) stream = Some (head, rest @ s1)" "length head \<le> MAX_HTTP_HEADER_BYTES" by auto
  moreover have "rest @ s1 = body @ left" using read_body_sound [OF h(4)] h(3) by simp
  ultimately show ?thesis using h(2,5,6) by auto
qed

lemma framing_complete:
  assumes "split_at_first (crlf @ crlf) stream = Some (head, body)" "parse_head head max_bytes = Inr (int (length body))"
    and "length head + 4 \<le> MAX_HTTP_HEADER_BYTES" "timely dl ds" "length stream \<le> length ds"
  shows "read_envelope_bytes (Some dl) max_bytes stream ds visible = Inr body"
proof -
  obtain rest s1 ds1 where h: "read_head (Some dl) [] stream ds = Inr (head, rest, s1, ds1)" "body = rest @ s1"
      "timely dl ds1" "length s1 \<le> length ds1"
    using read_head_complete [OF assms(4,5) no_separator, unfolded append_Nil, OF assms(1,3)] by blast
  then show ?thesis
    using assms read_body_complete [OF h(3,4), of rest "length body"] by (simp add: read_envelope_bytes_def nat_int_add)
qed

text \<open>
  A head that may be answered, without reading it line by line: it asks for \<open>POST /broker\<close>, every header line has a
  colon, none names a transfer coding and exactly one gives the length, in decimal digits and within the limit.
\<close>

definition field_name :: "string \<Rightarrow> string" where
  "field_name line = lower (strip (takeWhile (\<lambda>c. c \<noteq> CHR '':'') line))"

definition field_value :: "string \<Rightarrow> string" where
  "field_value line = strip (tl (dropWhile (\<lambda>c. c \<noteq> CHR '':'') line))"

definition acceptable_head :: "string \<Rightarrow> int \<Rightarrow> int \<Rightarrow> bool" where
  "acceptable_head head max_bytes n \<longleftrightarrow>
     (\<exists>lines digits. split_lines head = ''POST /broker HTTP/1.1'' # lines \<and>
        (\<forall>line \<in> set lines. CHR '':'' \<in> set line \<and> field_name line \<noteq> ''transfer-encoding'') \<and>
        map field_value (filter (\<lambda>line. field_name line = ''content-length'') lines) = [digits] \<and>
        digits \<noteq> [] \<and> list_all is_digit digits \<and> length digits \<le> 4300 \<and> n = int (num digits) \<and> 0 < n \<and> n \<le> max_bytes)"

lemma partition_on_fields:
  "partition_on (CHR '':'') line = (name, v) \<Longrightarrow> lower (strip name) = field_name line"
  "partition_on (CHR '':'') line = (name, Some w) \<Longrightarrow> strip w = field_value line"
  "(\<exists>name w. partition_on (CHR '':'') line = (name, Some w)) \<longleftrightarrow> CHR '':'' \<in> set line"
proof -
  have "dropWhile (\<lambda>c. c \<noteq> CHR '':'') line = [] \<longleftrightarrow> CHR '':'' \<notin> set line" by auto
  then show "(\<exists>name w. partition_on (CHR '':'') line = (name, Some w)) \<longleftrightarrow> CHR '':'' \<in> set line"
    by (cases "dropWhile (\<lambda>c. c \<noteq> CHR '':'') line") (simp_all add: partition_on_def del: dropWhile_eq_Nil_conv)
  show "partition_on (CHR '':'') line = (name, v) \<Longrightarrow> lower (strip name) = field_name line"
    "partition_on (CHR '':'') line = (name, Some w) \<Longrightarrow> strip w = field_value line"
    by (auto simp: partition_on_def field_name_def field_value_def simp del: dropWhile_eq_Nil_conv split: list.splits)
qed

lemma content_length_value_Inr:
  "content_length_value v = Inr n \<longleftrightarrow> v \<noteq> [] \<and> list_all is_digit v \<and> length v \<le> 4300 \<and> n = int (num v)"
  by (auto simp: content_length_value_def is_digit_text_def list_all_iff)

lemma scan_headers_Inr:
  "scan_headers lines = Inr (ns, te) \<longleftrightarrow>
     (\<forall>line \<in> set lines. CHR '':'' \<in> set line) \<and> (te \<longleftrightarrow> (\<exists>line \<in> set lines. field_name line = ''transfer-encoding'')) \<and>
     map_result content_length_value (map field_value (filter (\<lambda>line. field_name line = ''content-length'') lines)) = Inr ns"
proof (induction lines arbitrary: ns te)
  case (Cons line lines)
  obtain name v where p: "partition_on (CHR '':'') line = (name, v)" by fastforce
  show ?case
  proof (cases v)
    case None
    then have "CHR '':'' \<notin> set line" using p partition_on_fields(3) [of line] by auto
    then show ?thesis using p None by simp
  next
    case (Some w)
    then have c: "CHR '':'' \<in> set line" using p partition_on_fields(3) [of line] by auto
    note f = partition_on_fields(1) [OF p] partition_on_fields(2) [OF p [unfolded Some]]
    have te: "scan_headers lines = Inr (ms, b) \<Longrightarrow> b = (\<exists>line \<in> set lines. field_name line = ''transfer-encoding'')" for ms b
      using Cons.IH by blast
    show ?thesis
      using p Some c Cons.IH unfolding scan_headers.simps p Some prod.case option.case f Let_def
      by (auto split: sum.splits)
  qed
qed auto

lemma parse_head_exact: "parse_head head max_bytes = Inr n \<longleftrightarrow> acceptable_head head max_bytes n"
proof -
  have one: "(case ns of [m] \<Rightarrow> if m \<le> 0 \<or> m > max_bytes then Inl e else Inr m | _ \<Rightarrow> Inl e') = Inr n \<longleftrightarrow>
      ns = [n] \<and> 0 < n \<and> n \<le> max_bytes" for ns :: "int list" and e e' :: host_error
    by (auto split: list.splits)
  have single: "map_result content_length_value vs = Inr [m] \<longleftrightarrow>
      (\<exists>v. vs = [v] \<and> v \<noteq> [] \<and> list_all is_digit v \<and> length v \<le> 4300 \<and> m = int (num v))" for vs m
    by (cases vs rule: remdups_adj.cases) (auto simp: content_length_value_Inr [symmetric] split: sum.splits)
  have "parse_head head max_bytes = Inr n \<longleftrightarrow>
      (\<exists>lines. split_lines head = ''POST /broker HTTP/1.1'' # lines \<and> scan_headers lines = Inr ([n], False) \<and> 0 < n \<and> n \<le> max_bytes)"
    unfolding parse_head_def by (cases "split_lines head") (auto simp: one split: if_splits)
  also have "\<dots> \<longleftrightarrow> acceptable_head head max_bytes n"
    unfolding scan_headers_Inr single acceptable_head_def by (intro iff_exI) auto
  finally show ?thesis .
qed

text \<open>
  C23: Framing does not depend on how bytes arrive. Whatever a client sends and however it is delivered, an
  accepted body is what follows the first blank line, of exactly the length that the one
  \<open>Content-Length\<close> header of an acceptable head states (a head for \<open>POST /broker\<close> without transfer coding), and the
  head fits its bound; and a stream that is such a message, with a head of at most 8188 bytes, is read back exactly
  under every delivery that keeps the deadline.
\<close>

theorem framing_exact:
  shows "(read_envelope_bytes deadline max_bytes stream ds visible = Inr body \<longrightarrow>
      (\<exists>head left. stream = head @ crlf @ crlf @ body @ left \<and> split_at_first (crlf @ crlf) stream = Some (head, body @ left) \<and>
         acceptable_head head max_bytes (int (length body)) \<and> length head \<le> MAX_HTTP_HEADER_BYTES \<and> (visible \<longrightarrow> left = []))) \<and>
    (split_at_first (crlf @ crlf) stream = Some (head, body) \<and> acceptable_head head max_bytes (int (length body)) \<and>
      length head + 4 \<le> MAX_HTTP_HEADER_BYTES \<and> timely dl ds \<and> length stream \<le> length ds \<longrightarrow>
      read_envelope_bytes (Some dl) max_bytes stream ds visible = Inr body)"
  unfolding parse_head_exact [symmetric] using framing_sound framing_complete by blast

unbundle bit_operations_syntax

section \<open>Taking turns at a host\<close>

fun pace_turns :: "pace_table \<Rightarrow> (string \<times> rat option \<times> rat \<times> rat) list \<Rightarrow> (string \<times> rat) list" where
  "pace_turns table [] = []"
| "pace_turns table ((host, deadline, now, later) # turns) =
     (case pace_article_host host deadline (now, later) table of
        (Inl e, table') \<Rightarrow> pace_turns table' turns
      | (Inr _, table') \<Rightarrow> (host, later) # pace_turns table' turns)"

text \<open>\<open>time.sleep\<close> waits at least as long as it is asked to, on the monotonic clock.\<close>

fun sleeps_enough :: "pace_table \<Rightarrow> (string \<times> rat option \<times> rat \<times> rat) list \<Rightarrow> bool" where
  "sleeps_enough table [] = True"
| "sleeps_enough table ((host, deadline, now, later) # turns) =
     (now + pace_wait table host now \<le> later \<and> sleeps_enough (snd (pace_article_host host deadline (now, later) table)) turns)"

lemma pace_turns_after:
  "sleeps_enough table turns \<Longrightarrow> table host = Some s \<Longrightarrow> (host, t) \<in> set (pace_turns table turns) \<Longrightarrow> s + 1 \<le> t"
proof (induction table turns arbitrary: s rule: pace_turns.induct)
  case (2 table h deadline now later turns)
  have wait: "h = host \<Longrightarrow> s + 1 \<le> later"
    using 2(3,4) by (simp add: pace_wait_def ARTICLE_MIN_INTERVAL_SECONDS_def) linarith
  show ?case
  proof (cases "pace_article_host h deadline (now, later) table")
    case (Pair r table')
    show ?thesis
    proof (cases r)
      case (Inl e)
      then have "table' = table" using Pair by (auto simp: pace_article_host_def split: if_splits option.splits)
      then show ?thesis using 2 Pair Inl by auto
    next
      case (Inr u)
      then have t': "table' = table(h \<mapsto> later)" using Pair by (auto simp: pace_article_host_def split: if_splits option.splits)
      have rest: "(host, t) = (h, later) \<or> (host, t) \<in> set (pace_turns table' turns)" and awake: "sleeps_enough table' turns"
        using 2(3,5) Pair Inr by auto
      note IH = 2(2) [OF Pair [symmetric] Inr awake]
      show ?thesis
      proof (cases "h = host")
        case True
        then have "table' host = Some later" using t' by simp
        then show ?thesis using wait True rest IH by fastforce
      next
        case False
        then have "table' host = Some s" using t' 2(4) by simp
        then show ?thesis using False rest IH by blast
      qed
    qed
  qed
qed simp

text \<open>
  C25: Requests to one article host are spaced: over any sequence of turns, with any deadlines and clocks, two
  turns that are granted for the same host are at least a second apart.
\<close>

theorem article_hosts_paced:
  assumes "sleeps_enough table turns" and "pace_turns table turns = before @ (host, s) # between @ (host, t) # after"
  shows "s + 1 \<le> t"
  using assms
proof (induction table turns arbitrary: before rule: pace_turns.induct)
  case (2 table h deadline now later turns)
  show ?case
  proof (cases "pace_article_host h deadline (now, later) table")
    case (Pair r table')
    show ?thesis
    proof (cases r)
      case (Inl e)
      then show ?thesis using 2(1) [OF Pair [symmetric] Inl] 2(3,4) Pair by simp
    next
      case (Inr u)
      then have t': "table' = table(h \<mapsto> later)" using Pair by (auto simp: pace_article_host_def split: if_splits option.splits)
      show ?thesis
      proof (cases before)
        case Nil
        then have "h = host" "later = s" "(host, t) \<in> set (pace_turns table' turns)" using 2(4) Pair Inr by auto
        then show ?thesis using pace_turns_after [of table' turns host s t] t' 2(3) Pair by simp
      next
        case (Cons b before')
        then show ?thesis using 2(2) [OF Pair [symmetric] Inr, of before'] 2(3,4) Pair Inr by simp
      qed
    qed
  qed
qed simp

section \<open>Admission\<close>

text \<open>
  The semaphore of \<open>_UnixStreamServer\<close>: its free permits and the connections being handled. A connection
  arrives and its handler thread starts or fails to; a handler ends.
\<close>

record admission =
  ad_permits :: nat
  ad_running :: "nat list"

definition MAX_ACTIVE_CONNECTIONS :: int where
  "MAX_ACTIVE_CONNECTIONS = 16"

definition set_admission_limit :: "int \<Rightarrow> admission" where
  "set_admission_limit limit = \<lparr>ad_permits = nat (max 1 (min MAX_ACTIVE_CONNECTIONS limit)), ad_running = []\<rparr>"

definition acquire :: "admission \<Rightarrow> admission option" where
  "acquire s = (if ad_permits s = 0 then None else Some (s\<lparr>ad_permits := ad_permits s - 1\<rparr>))"

definition release :: "admission \<Rightarrow> admission" where
  "release s = s\<lparr>ad_permits := ad_permits s + 1\<rparr>"

definition process_request :: "nat \<Rightarrow> bool \<Rightarrow> admission \<Rightarrow> admission" where
  "process_request c starts s =
     (case acquire s of None \<Rightarrow> s | Some s' \<Rightarrow> if starts then s'\<lparr>ad_running := c # ad_running s'\<rparr> else release s')"

definition process_request_thread_end :: "nat \<Rightarrow> admission \<Rightarrow> admission" where
  "process_request_thread_end c s = release (s\<lparr>ad_running := remove1 c (ad_running s)\<rparr>)"

inductive admitted :: "int \<Rightarrow> admission \<Rightarrow> bool" for limit where
  Started: "admitted limit (set_admission_limit limit)"
| Arrival: "admitted limit s \<Longrightarrow> admitted limit (process_request c starts s)"
| Ending: "admitted limit s \<Longrightarrow> c \<in> set (ad_running s) \<Longrightarrow> admitted limit (process_request_thread_end c s)"

text \<open>
  The broker never handles more connections than its limit, nor more than sixteen, and no permit is ever
  lost or made up.
\<close>

theorem admission_bounded:
  assumes "admitted limit s"
  shows "ad_permits s + length (ad_running s) = nat (max 1 (min MAX_ACTIVE_CONNECTIONS limit)) \<and>
    int (length (ad_running s)) \<le> MAX_ACTIVE_CONNECTIONS"
proof -
  have "ad_permits s + length (ad_running s) = nat (max 1 (min MAX_ACTIVE_CONNECTIONS limit))"
    using assms
  proof induction
    case (Ending s c)
    then have "0 < length (ad_running s)" by (auto simp: length_pos_if_in_set)
    then obtain n where "length (ad_running s) = Suc n" by (cases "length (ad_running s)") auto
    then show ?case using Ending by (simp add: process_request_thread_end_def release_def length_remove1)
  qed (auto simp: set_admission_limit_def process_request_def acquire_def release_def split: if_splits)
  then show ?thesis by (auto simp: MAX_ACTIVE_CONNECTIONS_def)
qed

section \<open>The socket's path\<close>

text \<open>
  What \<open>os\<close> reports of a path: whether it is a symbolic link, a directory, there at all, and its \<open>stat\<close>.
\<close>

record path_info =
  pi_islink :: bool
  pi_isdir :: bool
  pi_exists :: bool
  pi_uid :: int
  pi_mode :: int

text \<open>\<open>_check_socket_path\<close>; the result is whether the socket's mode is changed, which may fail.\<close>

definition check_socket_path :: "string \<Rightarrow> path_info \<Rightarrow> path_info \<Rightarrow> int \<Rightarrow> bool \<Rightarrow> bool host_result" where
  "check_socket_path path parent sock uid chmod_works =
     (if \<not> starts_with ''/'' path then Inl BrokerConfigError
      else if pi_islink parent then Inl BrokerConfigError
      else if \<not> pi_isdir parent then Inl BrokerConfigError
      else if pi_uid parent \<noteq> uid then Inl BrokerConfigError
      else if pi_mode parent AND 7 \<noteq> 0 then Inl BrokerConfigError
      else if pi_mode parent AND 23 \<noteq> 0 \<and> pi_mode parent AND (NOT 488) AND 4095 \<noteq> 0 then Inl BrokerConfigError
      else if pi_islink sock then Inl BrokerConfigError
      else if \<not> pi_exists sock then Inl BrokerConfigError
      else if pi_uid sock \<noteq> uid then Inl BrokerConfigError
      else if pi_mode sock AND 61440 \<noteq> 49152 then Inl BrokerConfigError
      else if pi_mode sock AND 4095 \<noteq> 432 then (if chmod_works then Inr True else Inl BrokerConfigError)
      else Inr False)"

lemma group_bits: "(m::int) AND (NOT 488) AND 4095 = 0 \<Longrightarrow> m AND 23 = 0"
proof -
  assume a: "m AND (NOT 488) AND 4095 = 0"
  have "m AND 23 = (m AND (NOT 488) AND 4095) AND 23" by (simp add: and.assoc)
  then show ?thesis using a by simp
qed

lemma socket_parent_private:
  assumes "check_socket_path path parent sock uid chmod_works = Inr changed"
  shows "pi_mode parent AND 23 = 0 \<and> pi_uid parent = uid \<and> \<not> pi_islink parent \<and> \<not> pi_islink sock \<and> pi_uid sock = uid \<and>
    (changed \<longleftrightarrow> pi_mode sock AND 4095 \<noteq> 432)"
  using assms group_bits [of "pi_mode parent"] by (auto simp: check_socket_path_def split: if_splits)

section \<open>Starting up\<close>

text \<open>
  The system calls of the start, and how each turns out. \<open>Fails\<close> is an \<open>OSError\<close>, \<open>FailsOtherwise\<close> any other exception.
\<close>

datatype syscall = SetGid int | SetUid int | Unlink string | NewSocket | Bind string | Chmod string int | Listen int | CloseSocket

datatype call_outcome = Works | Fails | FailsOtherwise

fun run_calls :: "(syscall \<Rightarrow> call_outcome) \<Rightarrow> syscall list \<Rightarrow> syscall list \<times> call_outcome" where
  "run_calls sys [] = ([], Works)"
| "run_calls sys (c # cs) =
     (case sys c of
        Works \<Rightarrow> (case run_calls sys cs of (done_calls, r) \<Rightarrow> (c # done_calls, r))
      | failure \<Rightarrow> ([c], failure))"

definition call_result :: "call_outcome \<Rightarrow> unit host_result" where
  "call_result r = (case r of Works \<Rightarrow> Inr () | Fails \<Rightarrow> Inl BrokerConfigError | FailsOtherwise \<Rightarrow> Inl UnexpectedError)"

definition numeric_id :: "string option \<Rightarrow> int \<Rightarrow> int host_result" where
  "numeric_id text current =
     (case text of
        None \<Rightarrow> Inr current
      | Some s \<Rightarrow>
          if length (filter is_digit s) > 4300 then Inl BrokerConfigError
          else (case py_int s of Inl e \<Rightarrow> Inl BrokerConfigError | Inr n \<Rightarrow> Inr n))"

definition maybe_drop_privileges ::
  "(syscall \<Rightarrow> call_outcome) \<Rightarrow> int \<Rightarrow> int \<Rightarrow> string option \<Rightarrow> string option \<Rightarrow> syscall list \<times> unit host_result" where
  "maybe_drop_privileges sys current_uid current_gid uid gid =
     (if uid = None \<and> gid = None then ([], Inr ())
      else (case (numeric_id uid current_uid, numeric_id gid current_gid) of
          (Inr target_uid, Inr target_gid) \<Rightarrow>
            if current_uid \<noteq> 0 then ([], Inl BrokerConfigError)
            else (case run_calls sys [SetGid target_gid, SetUid target_uid] of (cs, r) \<Rightarrow> (cs, call_result r))
        | _ \<Rightarrow> ([], Inl BrokerConfigError)))"

text \<open>The directory name of a path is empty exactly if the path has no slash.\<close>

definition bind_socket :: "(syscall \<Rightarrow> call_outcome) \<Rightarrow> bool \<Rightarrow> string \<Rightarrow> syscall list \<times> unit host_result" where
  "bind_socket sys path_exists path =
     (if CHR ''/'' \<notin> set path then ([], Inl BrokerConfigError)
      else (case run_calls sys (if path_exists then [Unlink path] else []) of
          (cs, Works) \<Rightarrow>
            (case sys NewSocket of
               Works \<Rightarrow>
                 (case run_calls sys [Bind path, Chmod path 432, Listen MAX_ACTIVE_CONNECTIONS] of
                    (bs, Works) \<Rightarrow> (cs @ NewSocket # bs, Inr ())
                  | (bs, Fails) \<Rightarrow> (cs @ NewSocket # bs @ [CloseSocket], Inl BrokerConfigError)
                  | (bs, FailsOtherwise) \<Rightarrow> (cs @ NewSocket # bs, Inl UnexpectedError))
             | _ \<Rightarrow> (cs @ [NewSocket], Inl UnexpectedError))
        | (cs, failure) \<Rightarrow> (cs, call_result failure)))"

text \<open>\<open>BrokerPolicy.load\<close>: the file's contents as \<open>tomllib\<close> reads them.\<close>

datatype toml_file = Unreadable | NotToml | NotUtf8 | Toml pyval

definition load_policy :: "netparse \<Rightarrow> pylib \<Rightarrow> toml_file \<Rightarrow> broker_policy host_result" where
  "load_policy N L file = (case file of Unreadable \<Rightarrow> Inl BrokerConfigError | NotToml \<Rightarrow> Inl BrokerConfigError
     | NotUtf8 \<Rightarrow> Inl UnexpectedError
     | Toml v \<Rightarrow> policy_from_mapping N L v)"

record broker_args =
  sa_route :: string
  sa_socket :: string
  sa_user :: "string option"
  sa_group :: "string option"

text \<open>\<open>serve\<close> up to \<open>serve_forever\<close>: the policy, the calls made, and the admission the server starts with.\<close>

definition serve ::
  "netparse \<Rightarrow> pylib \<Rightarrow> (syscall \<Rightarrow> call_outcome) \<Rightarrow> int \<Rightarrow> int \<Rightarrow> bool \<Rightarrow> toml_file \<Rightarrow> broker_args \<Rightarrow>
   syscall list \<times> (broker_policy \<times> admission) host_result" where
  "serve N L sys current_uid current_gid path_exists file args =
     (case load_policy N L file of
        Inl e \<Rightarrow> ([], Inl e)
      | Inr policy \<Rightarrow>
          (case maybe_drop_privileges sys current_uid current_gid (sa_user args) (sa_group args) of
             (ds, Inl e) \<Rightarrow> (ds, Inl e)
           | (ds, Inr _) \<Rightarrow>
               (case bind_socket sys path_exists (sa_socket args) of
                  (bs, Inl e) \<Rightarrow> (ds @ bs, Inl e)
                | (bs, Inr _) \<Rightarrow> (ds @ bs, Inr (policy, set_admission_limit (max_concurrency (pol_common policy)))))))"

text \<open>What \<open>main\<close> exits with when the start fails; \<open>None\<close> is an uncaught exception.\<close>

definition main_exit :: "host_error \<Rightarrow> int option" where
  "main_exit e = (if e = BrokerConfigError then Some 2 else None)"

lemma run_calls_Works: "run_calls sys cs = (ds, Works) \<Longrightarrow> ds = cs"
  by (induction cs arbitrary: ds) (auto split: call_outcome.splits prod.splits)

lemma maybe_drop_privileges_Inr:
  assumes "maybe_drop_privileges sys me mine uid gid = (ds, Inr x)"
  shows "if uid = None \<and> gid = None then ds = [] else me = 0 \<and> (\<exists>u g. ds = [SetGid g, SetUid u])"
proof (cases "uid = None \<and> gid = None")
  case False
  obtain u g where n: "numeric_id uid me = Inr u" "numeric_id gid mine = Inr g"
    using assms False by (simp add: maybe_drop_privileges_def split: sum.splits)
  obtain cs r where c: "run_calls sys [SetGid g, SetUid u] = (cs, r)" by fastforce
  have "me = 0 \<and> r = Works \<and> ds = cs"
    using assms False unfolding maybe_drop_privileges_def n sum.case prod.case c
    by (cases r) (simp_all add: call_result_def split: if_splits)
  moreover from this have "cs = [SetGid g, SetUid u]" using run_calls_Works c by simp
  ultimately show ?thesis using False by auto
qed (use assms in \<open>simp add: maybe_drop_privileges_def\<close>)

lemma bind_socket_Inr:
  assumes "bind_socket sys path_exists path = (bs, Inr x)"
  shows "bs = (if path_exists then [Unlink path] else []) @ [NewSocket, Bind path, Chmod path 432, Listen MAX_ACTIVE_CONNECTIONS]"
proof -
  obtain cs r where c: "run_calls sys (if path_exists then [Unlink path] else []) = (cs, r)" by fastforce
  obtain ds r' where d: "run_calls sys [Bind path, Chmod path 432, Listen MAX_ACTIVE_CONNECTIONS] = (ds, r')" by fastforce
  have "r = Works" "sys NewSocket = Works" "r' = Works" "bs = cs @ NewSocket # ds"
    using assms unfolding bind_socket_def c d
    by (cases r; cases "sys NewSocket"; cases r'; auto simp: call_result_def split: if_splits)+
  then show ?thesis using run_calls_Works c d by blast
qed

text \<open>
  The broker serves only after a checked start: the policy is well-formed, privileges are dropped (the group
  before the user) before the socket is made, the socket has mode 0660 before it listens, and the
  admission limit is between one and sixteen.
\<close>

theorem start_hardened:
  assumes "serve N L sys current_uid current_gid path_exists file args = (calls, Inr (policy, adm))"
  shows "policy_ok N policy \<and>
    (\<exists>drops stale. calls = drops @ stale @
        [NewSocket, Bind (sa_socket args), Chmod (sa_socket args) 432, Listen MAX_ACTIVE_CONNECTIONS] \<and>
      (sa_user args = None \<and> sa_group args = None \<and> drops = [] \<or> current_uid = 0 \<and> (\<exists>u g. drops = [SetGid g, SetUid u])) \<and>
      (stale = [] \<or> stale = [Unlink (sa_socket args)])) \<and>
    1 \<le> ad_permits adm \<and> ad_permits adm \<le> 16"
proof -
  obtain ds bs where s: "load_policy N L file = Inr policy"
      "maybe_drop_privileges sys current_uid current_gid (sa_user args) (sa_group args) = (ds, Inr ())"
      "bind_socket sys path_exists (sa_socket args) = (bs, Inr ())" "calls = ds @ bs"
      "adm = set_admission_limit (max_concurrency (pol_common policy))"
    using assms by (auto simp: serve_def split: sum.splits prod.splits)
  have "policy_ok N policy" using s(1) by (auto simp: load_policy_def split: toml_file.splits intro: policy_from_mapping_ok)
  moreover have "1 \<le> ad_permits adm \<and> ad_permits adm \<le> 16"
    by (auto simp: s(5) set_admission_limit_def MAX_ACTIVE_CONNECTIONS_def)
  ultimately show ?thesis
    using maybe_drop_privileges_Inr [OF s(2)] bind_socket_Inr [OF s(3)] s(4)
    by (cases "sa_user args = None \<and> sa_group args = None") auto
qed

end
