(* ===== verification/BrokerClient.thy ===== *)
theory BrokerClient
  imports BrokerServer
begin

text \<open>
  The client side of the broker (\<open>news_container/broker_client.py\<close>): the gate of the sealed container, the
  transport factories, HTTP over the Unix socket, and the call that turns an adapter's request into
  an envelope and the broker's reply into a response. Then the composition of client and broker.
\<close>

section \<open>Errors and requests\<close>

datatype source_adapter = SEARXNG | RSS | HACKER_NEWS | GITHUB

text \<open>
  \<open>BrokerUnavailableError\<close>, \<open>BrokerProtocolMismatch\<close>, the errors of the protocol module, and any other
  exception.
\<close>

datatype client_error = BrokerUnavailableError | BrokerProtocolMismatch | ProtocolFailure broker_error | OtherException

record fetch_request =
  fr_url :: string
  fr_headers :: "(string \<times> string) list"
  fr_timeout_seconds :: pyval
  fr_max_response_bytes :: pyval

record fetch_response =
  fs_status :: int
  fs_headers :: "(string \<times> string) list"
  fs_body :: string
  fs_final_url :: string

record broker_transport =
  bt_socket_path :: string
  bt_route :: string
  bt_timeout_seconds :: rat
  bt_max_bytes :: int
  bt_source_id :: "string option"

section \<open>The container gate\<close>

definition container_mode_enabled :: "(string \<times> string) list \<Rightarrow> bool" where
  "container_mode_enabled env =
     (strip (case map_of env ''NEWS_CONTAINER_MODE'' of Some v \<Rightarrow> v | None \<Rightarrow> []) = ''1'')"

definition route_for_source :: "source_adapter \<Rightarrow> broker_error + string" where
  "route_for_source a = (case a of SEARXNG \<Rightarrow> Inr ''search'' | RSS \<Rightarrow> Inr ''feed'' | _ \<Rightarrow> Inl BrokerProtocolError)"

definition client_number :: "pyval \<Rightarrow> broker_error + rat" where
  "client_number v =
     bind_result (finite_number BrokerProtocolError v) (\<lambda>q. if q \<le> 0 then Inl BrokerProtocolError else Inr q)"

definition client_integer :: "pyval \<Rightarrow> broker_error + int" where
  "client_integer v =
     bind_result (client_number v) (\<lambda>q. if floor q \<le> 0 then Inl BrokerProtocolError else Inr (floor q))"

text \<open>\<open>_BrokerConfig.for_source\<close>.\<close>

definition config_for_source ::
  "source_adapter \<Rightarrow> (string \<times> string) list \<Rightarrow> pyval \<Rightarrow> pyval \<Rightarrow> broker_error + string \<times> string \<times> rat \<times> int" where
  "config_for_source a env default_timeout default_max_bytes =
     bind_result (route_for_source a) (\<lambda>route.
     bind_result (socket_path_for_route route env) (\<lambda>socket_path.
     bind_result (client_number default_timeout) (\<lambda>timeout.
     bind_result (client_integer default_max_bytes) (\<lambda>max_bytes. Inr (socket_path, route, timeout, max_bytes)))))"

text \<open>\<open>exists\<close> is \<open>os.path.exists\<close>.\<close>

definition broker_transport_factory ::
  "(string \<Rightarrow> bool) \<Rightarrow> source_adapter \<Rightarrow> string \<Rightarrow> (string \<times> string) list \<Rightarrow> pyval \<Rightarrow> pyval \<Rightarrow> client_error + broker_transport" where
  "broker_transport_factory exists a source_id env default_timeout default_max_bytes =
     (case config_for_source a env default_timeout default_max_bytes of
        Inl e \<Rightarrow> Inl (if is_broker_protocol_error e then BrokerUnavailableError else OtherException)
      | Inr (socket_path, route, timeout, max_bytes) \<Rightarrow>
          if container_mode_enabled env \<and> \<not> exists socket_path then Inl BrokerUnavailableError
          else Inr \<lparr>bt_socket_path = socket_path, bt_route = route, bt_timeout_seconds = timeout,
                 bt_max_bytes = max_bytes, bt_source_id = Some source_id\<rparr>)"

definition broker_article_transport_factory ::
  "(string \<Rightarrow> bool) \<Rightarrow> string \<Rightarrow> (string \<times> string) list \<Rightarrow> pyval \<Rightarrow> pyval \<Rightarrow> client_error + broker_transport" where
  "broker_article_transport_factory exists source_id env default_timeout default_max_bytes =
     (case socket_path_for_route ''article'' env of
        Inl e \<Rightarrow> Inl BrokerUnavailableError
      | Inr socket_path \<Rightarrow>
          if container_mode_enabled env \<and> \<not> exists socket_path then Inl BrokerUnavailableError
          else (case (client_number default_timeout, client_integer default_max_bytes) of
              (Inr timeout, Inr max_bytes) \<Rightarrow>
                Inr \<lparr>bt_socket_path = socket_path, bt_route = ''article'', bt_timeout_seconds = timeout,
                  bt_max_bytes = max_bytes, bt_source_id = Some source_id\<rparr>
            | (Inl e, _) \<Rightarrow> Inl (ProtocolFailure e)
            | (_, Inl e) \<Rightarrow> Inl (ProtocolFailure e)))"

section \<open>HTTP over the socket\<close>

text \<open>A message: its lines, a blank line, its body.\<close>

definition http_message :: "string list \<Rightarrow> string \<Rightarrow> string" where
  "http_message lines body = join crlf lines @ crlf @ crlf @ body"

definition build_http_request :: "string \<Rightarrow> string" where
  "build_http_request body = http_message
     [''POST /broker HTTP/1.1'', ''Host: localhost'', ''Content-Type: application/json; charset=utf-8'',
      ''Content-Length: '' @ show_nat (length body), ''Connection: close'',
      ''X-News-Broker-Version: '' @ show_int PROTOCOL_VERSION] body"

text \<open>
  \<open>decode("ascii", errors="replace")\<close>: the replacement character is no digit and no space, as the question
  mark here.
\<close>

definition ascii_replace :: "string \<Rightarrow> string" where
  "ascii_replace s = map (\<lambda>c. if (of_char c :: nat) < 128 then c else CHR ''?'') s"

definition is_ascii :: "string \<Rightarrow> bool" where
  "is_ascii s = list_all (\<lambda>c. (of_char c :: nat) < 128) s"

text \<open>The second part of \<open>line.split(" ", 2)\<close> when the first is \<open>HTTP/1.1\<close>.\<close>

definition status_text :: "string \<Rightarrow> string option" where
  "status_text line =
     (case partition_on (CHR '' '') line of
        (version, Some rest) \<Rightarrow> if version = ''HTTP/1.1'' then Some (fst (partition_on (CHR '' '') rest)) else None
      | _ \<Rightarrow> None)"

fun response_headers :: "string list \<Rightarrow> (string \<times> string) list option" where
  "response_headers [] = Some []"
| "response_headers (line # lines) =
     (case partition_on (CHR '':'') line of
        (_, None) \<Rightarrow> response_headers lines
      | (name, Some v) \<Rightarrow>
          if is_ascii line then map_option (Cons (strip name, strip v)) (response_headers lines) else None)"

definition parse_http_response :: "string \<Rightarrow> client_error + int \<times> (string \<times> string) list \<times> string" where
  "parse_http_response raw =
     (case split_at_first (crlf @ crlf) raw of
        None \<Rightarrow> Inl BrokerProtocolMismatch
      | Some (head, body) \<Rightarrow>
          (case status_text (ascii_replace (hd (split_lines head))) of
             None \<Rightarrow> Inl BrokerProtocolMismatch
           | Some t \<Rightarrow>
               (case py_int t of
                  Inl e \<Rightarrow> Inl BrokerProtocolMismatch
                | Inr status \<Rightarrow>
                    if length (filter is_digit t) > 4300 then Inl BrokerProtocolMismatch
                    else (case response_headers (tl (split_lines head)) of
                        None \<Rightarrow> Inl OtherException
                      | Some headers \<Rightarrow> Inr (status, headers, body)))))"

text \<open>
  The receiving loop of \<open>_sync_send_envelope\<close>: what \<open>recv\<close> returns, cut to its size; no connection, an error or the
  deadline end it. After the last event the broker has closed the connection.
\<close>

datatype client_event = Chunk string | SocketFails

fun receive_all :: "int \<Rightarrow> client_event list \<Rightarrow> string \<Rightarrow> client_error + string" where
  "receive_all max_bytes [] received = Inr received"
| "receive_all max_bytes (SocketFails # evs) received = Inl BrokerUnavailableError"
| "receive_all max_bytes (Chunk c # evs) received =
     (let chunk = take 65536 c in
      if chunk = [] then Inr received
      else if int (length (received @ chunk)) > max_bytes + 65536 then Inl BrokerProtocolMismatch
      else receive_all max_bytes evs (received @ chunk))"

section \<open>The transport\<close>

definition filter_allowed_headers :: "(string \<times> string) list \<Rightarrow> (string \<times> string) list" where
  "filter_allowed_headers headers = filter (\<lambda>(name, value). name \<in> set ALLOWED_HEADERS) headers"

definition build_envelope :: "pylib \<Rightarrow> broker_transport \<Rightarrow> fetch_request \<Rightarrow> string \<Rightarrow> client_error + broker_request" where
  "build_envelope L bt request retrieved_at =
     (case (client_number (fr_timeout_seconds request), client_integer (fr_max_response_bytes request)) of
        (Inl e, _) \<Rightarrow> Inl (ProtocolFailure e)
      | (_, Inl e) \<Rightarrow> Inl (ProtocolFailure e)
      | (Inr timeout, Inr max_bytes) \<Rightarrow>
          (case derive_request_id L (case bt_source_id bt of Some s \<Rightarrow> or_default s ''unknown'' | None \<Rightarrow> ''unknown'')
                  (bt_route bt) (fr_url request) retrieved_at [] of
             Inl e \<Rightarrow> Inl OtherException
           | Inr request_id \<Rightarrow>
               Inr \<lparr>rq_request_id = request_id, rq_route = bt_route bt, rq_target_url = fr_url request,
                 rq_headers = filter_allowed_headers (fr_headers request),
                 rq_timeout_seconds = Finite (min (bt_timeout_seconds bt) timeout),
                 rq_max_bytes = min (bt_max_bytes bt) max_bytes, rq_retrieved_at = retrieved_at\<rparr>))"

definition client_decode_error :: "broker_error \<Rightarrow> client_error" where
  "client_decode_error e =
     (case e of
        BrokerResponseRequestIdMismatch a b \<Rightarrow> BrokerProtocolMismatch
      | BrokerResponseOversize n m \<Rightarrow> BrokerProtocolMismatch
      | BrokerResponseBodyError \<Rightarrow> BrokerProtocolMismatch
      | BrokerResponseProtocolMismatch \<Rightarrow> BrokerProtocolMismatch
      | _ \<Rightarrow> ProtocolFailure e)"

text \<open>From the raw reply to the response the adapter gets.\<close>

definition client_response :: "netparse \<Rightarrow> pylib \<Rightarrow> broker_request \<Rightarrow> string \<Rightarrow> client_error + fetch_response" where
  "client_response N L r raw =
     bind_result (parse_http_response raw) (\<lambda>(status, headers, body).
       if int (length body) > rq_max_bytes r + RESPONSE_ENVELOPE_MAX_BYTES then Inl BrokerProtocolMismatch
       else (case decode_response_envelope L (WireBytes (length body) (utf8_decode N body)) (rq_request_id r)
                (PInt (rq_max_bytes r)) PROTOCOL_VERSION of
           Inl e \<Rightarrow> Inl (client_decode_error e)
         | Inr d \<Rightarrow> Inr \<lparr>fs_status = rs_status d, fs_headers = rs_headers d, fs_body = rs_body d,
             fs_final_url = or_default (rs_final_url d) (rq_target_url r)\<rparr>))"

text \<open>
  \<open>BrokerTransport.__call__\<close>: the bytes sent to the broker, and the result, given what comes back for them.
\<close>

definition transport_call ::
  "netparse \<Rightarrow> pylib \<Rightarrow> broker_transport \<Rightarrow> fetch_request \<Rightarrow> string \<Rightarrow> (string \<Rightarrow> client_event list) \<Rightarrow>
   string option \<times> (client_error + fetch_response)" where
  "transport_call N L bt request retrieved_at wire =
     (case build_envelope L bt request retrieved_at of
        Inl e \<Rightarrow> (None, Inl e)
      | Inr r \<Rightarrow>
          (case request_to_canonical_json L r of
             Inl e \<Rightarrow> (None, Inl OtherException)
           | Inr text \<Rightarrow>
               let sent = build_http_request (utf8_encode text) in
               (Some sent, bind_result (receive_all (rq_max_bytes r) (wire sent) []) (client_response N L r))))"

section \<open>Messages\<close>

definition plain_line :: "string \<Rightarrow> bool" where
  "plain_line l \<longleftrightarrow> l \<noteq> [] \<and> CHR 0x0D \<notin> set l"

lemma plain_line_Cons: "plain_line l \<longleftrightarrow> (\<exists>c s. l = c # s \<and> CHR 0x0D \<notin> set l)"
  by (cases l) (auto simp: plain_line_def)

lemma crlf_chars: "crlf = [CHR 0x0D, CHR 0x0A]"
  by code_simp

lemma separator_cr: "starts_with (crlf @ crlf) (c # s) \<Longrightarrow> c = CHR 0x0D"
  by (auto simp: starts_with_def crlf_chars)

lemma split_blank:
  "CHR 0x0D \<notin> set x \<Longrightarrow>
   split_at_first (crlf @ crlf) (x @ s) = (case split_at_first (crlf @ crlf) s of None \<Rightarrow> None | Some (a, b) \<Rightarrow> Some (x @ a, b))"
proof (induction x)
  case Nil
  then show ?case by (cases "split_at_first (crlf @ crlf) s") auto
next
  case (Cons c x)
  then have "\<not> starts_with (crlf @ crlf) (c # x @ s)" using separator_cr by auto
  then show ?case using Cons by (auto split: option.splits)
qed

lemma message_split:
  "lines \<noteq> [] \<Longrightarrow> list_all plain_line lines \<Longrightarrow>
   split_at_first (crlf @ crlf) (http_message lines body) = Some (join crlf lines, body)"
proof (induction lines rule: induct_list012)
  case (2 x)
  have "starts_with (crlf @ crlf) (crlf @ crlf @ body)" by (simp add: starts_with_def crlf_chars)
  then have "split_at_first (crlf @ crlf) (crlf @ crlf @ body) = Some ([], body)" by (simp add: crlf_chars)
  then show ?case using 2 split_blank [of x "crlf @ crlf @ body"] by (simp add: http_message_def plain_line_def)
next
  case (3 x y zs)
  let ?m = "http_message (y # zs) body"
  obtain c s where y: "y = c # s" "c \<noteq> CHR 0x0D" using 3(4) by (cases y) (auto simp: plain_line_def)
  have "?m = c # tl ?m" using y by (cases zs) (simp_all add: http_message_def)
  then have "split_at_first (crlf @ crlf) (crlf @ ?m) = (case split_at_first (crlf @ crlf) ?m of None \<Rightarrow> None | Some (a, b) \<Rightarrow> Some (crlf @ a, b))"
    using y(2) by (cases ?m) (simp_all add: crlf_chars starts_with_def split: option.split)
  moreover have "http_message (x # y # zs) body = x @ crlf @ ?m" by (simp add: http_message_def)
  ultimately show ?case using 3 split_blank [of x "crlf @ ?m"] by (simp add: plain_line_def)
qed simp

lemma split_lines_char:
  "CHR 0x0D \<noteq> c \<Longrightarrow> split_lines (c # s) = (case split_lines s of [] \<Rightarrow> [[c]] | l # ls \<Rightarrow> (c # l) # ls)"
  by (cases s) (simp_all add: crlf_chars)

lemma split_lines_skip:
  assumes "CHR 0x0D \<notin> set x"
  shows "split_lines x = [x]" "split_lines (x @ crlf @ s) = x # split_lines s"
proof -
  have "split_lines (crlf @ s) = [] # split_lines s" by (simp add: crlf_chars)
  then show "split_lines x = [x]" "split_lines (x @ crlf @ s) = x # split_lines s"
    using assms by (induction x) (simp_all add: split_lines_char del: split_lines.simps(2))
qed

lemma split_lines_join: "lines \<noteq> [] \<Longrightarrow> list_all plain_line lines \<Longrightarrow> split_lines (join crlf lines) = lines"
  by (induction lines rule: induct_list012) (simp_all add: split_lines_skip plain_line_def)

lemma digits_plain:
  assumes "list_all is_digit s" "c \<in> set s"
  shows "c \<noteq> CHR 0x0D \<and> c \<noteq> CHR '':'' \<and> c \<noteq> CHR '' '' \<and> \<not> is_space c"
proof -
  have d: "is_digit c" using assms by (simp add: list_all_iff)
  then have "\<not> is_space c" by (auto simp: is_digit_def is_space_def Let_def)
  moreover have "\<not> is_digit (CHR 0x0D)" "\<not> is_digit (CHR '':'')" "\<not> is_digit (CHR '' '')" by code_simp+
  ultimately show ?thesis using d by metis
qed

lemma number_plain [simp]: "CHR 0x0D \<notin> set (show_nat n)" "CHR '':'' \<notin> set (show_nat n)" "CHR '' '' \<notin> set (show_nat n)"
  using digits_plain [OF show_nat_digits [of n]] by blast+

lemma strip_number [simp]: "strip (show_nat n) = show_nat n" "strip (CHR '' '' # show_nat n) = show_nat n"
proof -
  have *: "\<forall>c \<in> set (show_nat n). \<not> is_space c" using digits_plain [OF show_nat_digits [of n]] by blast
  have d: "dropWhile is_space s = s" if "\<forall>c \<in> set s. \<not> is_space c" for s using that by (cases s) auto
  show "strip (show_nat n) = show_nat n" unfolding strip_def using * by (simp add: d)
  moreover have "is_space (CHR '' '')" by code_simp
  ultimately show "strip (CHR '' '' # show_nat n) = show_nat n" by (simp add: strip_def)
qed

lemma show_nat_nonempty [simp]: "show_nat n \<noteq> []"
  by (subst show_nat.simps) simp

lemma content_length_number:
  assumes "length (show_nat n) \<le> 4300"
  shows "content_length_value (show_nat n) = Inr (int n)"
  using assms show_nat_digits [of n]
  by (simp add: content_length_value_def is_digit_text_def num_show_nat list_all_iff)

text \<open>The lines of a request's head.\<close>

definition request_lines :: "nat \<Rightarrow> string list" where
  "request_lines n =
     [''POST /broker HTTP/1.1'', ''Host: localhost'', ''Content-Type: application/json; charset=utf-8'',
      ''Content-Length: '' @ show_nat n, ''Connection: close'', ''X-News-Broker-Version: '' @ show_int PROTOCOL_VERSION]"

lemma request_version: "show_int PROTOCOL_VERSION = ''1''"
  by code_simp

lemma request_lines_plain: "list_all plain_line (request_lines n)"
  by (simp add: request_lines_def plain_line_def request_version)

lemma partition_on_simps:
  "partition_on c [] = ([], None)"
  "partition_on c (d # s) = (if d = c then ([], Some s) else (case partition_on c s of (a, b) \<Rightarrow> (d # a, b)))"
  by (simp_all add: partition_on_def)

lemma request_keys:
  "lower (strip ''Host'') = ''host''" "lower (strip ''Content-Type'') = ''content-type''"
  "lower (strip ''Content-Length'') = ''content-length''" "lower (strip ''Connection'') = ''connection''"
  "lower (strip ''X-News-Broker-Version'') = ''x-news-broker-version''"
  by code_simp+

lemma request_head_accepted:
  assumes "0 < n" "int n \<le> max_bytes" "length (show_nat n) \<le> 4300"
  shows "parse_head (join crlf (request_lines n)) max_bytes = Inr (int n)"
proof -
  have "split_lines (join crlf (request_lines n)) = request_lines n"
    by (rule split_lines_join) (simp_all add: request_lines_plain, simp add: request_lines_def)
  moreover have "scan_headers (tl (request_lines n)) = Inr ([int n], False)"
    using assms(3) by (simp add: request_lines_def partition_on_simps request_keys Let_def content_length_number request_version)
  ultimately show ?thesis using assms(1,2) by (simp add: parse_head_def request_lines_def)
qed

lemma request_split: "split_at_first (crlf @ crlf) (build_http_request body) = Some (join crlf (request_lines (length body)), body)"
  unfolding build_http_request_def request_lines_def [symmetric]
  by (rule message_split) (simp_all add: request_lines_plain, simp add: request_lines_def)

text \<open>The broker reads the body of a client's request exactly.\<close>

lemma request_read:
  assumes "body \<noteq> []" "int (length body) \<le> max_bytes" "max_bytes \<le> MAX_REQUEST_BYTES"
    and "timely dl ds" "length (build_http_request body) \<le> length ds"
  shows "read_envelope_bytes (Some dl) max_bytes (build_http_request body) ds visible = Inr body"
proof (rule framing_complete [OF request_split _ _ assms(4,5)])
  have "length body < 10 ^ Suc 5" using assms(2,3) by (simp add: MAX_REQUEST_BYTES_def)
  then have digits: "length (show_nat (length body)) \<le> 6" using length_show_nat by fastforce
  then show "parse_head (join crlf (request_lines (length body))) max_bytes = Inr (int (length body))"
    using assms(1,2) by (intro request_head_accepted) simp_all
  show "length (join crlf (request_lines (length body))) + 4 \<le> MAX_HTTP_HEADER_BYTES"
    using digits by (simp add: length_join request_lines_def request_version MAX_HTTP_HEADER_BYTES_def crlf_chars)
qed

section \<open>Replies\<close>

definition reply_lines :: "int \<Rightarrow> nat \<Rightarrow> string \<Rightarrow> string \<Rightarrow> string list" where
  "reply_lines status n name value =
     [''HTTP/1.1 '' @ show_int status @ '' '' @ http_reason status, ''Content-Type: application/json; charset=utf-8'',
      ''Content-Length: '' @ show_nat n, ''Connection: close'', name @ '': '' @ value]"

lemma response_message:
  "build_http_response status body [(name, value)] = http_message (reply_lines status (length body) name value) body"
  by (simp add: build_http_response_def http_message_def reply_lines_def)

lemma response_headers_ascii: "list_all is_ascii lines \<Longrightarrow> \<exists>hs. response_headers lines = Some hs"
  by (induction lines) (auto split: prod.split option.split)

lemma is_ascii_simps [simp]:
  "is_ascii []" "is_ascii (c # s) \<longleftrightarrow> (of_char c :: nat) < 128 \<and> is_ascii s" "is_ascii (a @ b) \<longleftrightarrow> is_ascii a \<and> is_ascii b"
  by (simp_all add: is_ascii_def)

lemma is_ascii_number [simp]: "is_ascii (show_nat n)"
  using show_nat_digits [of n] by (auto simp: is_ascii_def list_all_iff is_digit_def Let_def)

text \<open>What a header of the broker's replies may hold.\<close>

definition header_text :: "string \<Rightarrow> bool" where
  "header_text v \<longleftrightarrow> CHR 0x0D \<notin> set v \<and> is_ascii v"

lemma token_header: "list_all token_char v \<Longrightarrow> header_text v"
proof -
  assume v: "list_all token_char v"
  have "\<not> token_char (CHR 0x0D)" by code_simp
  then have "CHR 0x0D \<notin> set v" using v by (auto simp: list_all_iff)
  moreover have "is_ascii v" using v by (auto simp: is_ascii_def list_all_iff token_char_def Let_def)
  ultimately show ?thesis by (simp add: header_text_def)
qed

lemma reply_parsed:
  assumes "status \<in> {200, 400, 500}" "name \<noteq> []" "header_text name" "header_text value"
  shows "\<exists>hs. parse_http_response (build_http_response status body [(name, value)]) = Inr (status, hs, body)"
proof -
  let ?ls = "reply_lines status (length body) name value"
  have texts: "header_text (show_int status @ '' '' @ http_reason status)"
    using assms(1) by (elim insertE emptyE; simp only:) code_simp+
  then have plain: "list_all plain_line ?ls"
    using assms by (auto simp: reply_lines_def plain_line_def header_text_def)
  have "list_all is_ascii (tl ?ls)" using assms(3,4) by (simp add: reply_lines_def header_text_def)
  then obtain hs where "response_headers (tl ?ls) = Some hs" using response_headers_ascii by blast
  moreover have "status_text (ascii_replace (hd ?ls)) = Some (show_int status) \<and> py_int (show_int status) = Inr status \<and>
      length (filter is_digit (show_int status)) = 3"
    using assms(1) unfolding reply_lines_def list.sel by (elim insertE emptyE; simp only:) code_simp+
  moreover have "split_lines (join crlf ?ls) = ?ls" by (rule split_lines_join [OF _ plain]) (simp add: reply_lines_def)
  moreover have "split_at_first (crlf @ crlf) (http_message ?ls body) = Some (join crlf ?ls, body)"
    by (rule message_split [OF _ plain]) (simp add: reply_lines_def)
  ultimately show ?thesis unfolding response_message parse_http_response_def by auto
qed

section \<open>Envelopes\<close>

text \<open>\<open>json.loads\<close> reads the canonical text of a dict back with the same fields, in any order.\<close>

definition json_reads :: "pylib \<Rightarrow> pydict \<Rightarrow> bool" where
  "json_reads L d \<longleftrightarrow> (case json_loads L (json_dumps L (PDict d)) of Some (PDict d') \<Rightarrow> map_of d' = map_of d | _ \<Rightarrow> False)"

lemma json_reads_iff: "json_reads L d \<longleftrightarrow> (\<exists>d'. json_loads L (json_dumps L (PDict d)) = Some (PDict d') \<and> map_of d' = map_of d)"
  by (auto simp: json_reads_def split: option.splits pyval.splits)

definition utf8_contract :: "netparse \<Rightarrow> bool" where
  "utf8_contract N \<longleftrightarrow> (\<forall>s. utf8_decode N (utf8_encode s) = Some s)"

lemma request_decoded:
  assumes "utf8_contract N" "request_ok r" "json_reads L (request_to_dict r)"
  shows "decode_envelope N L (utf8_encode (json_dumps L (PDict (request_to_dict r)))) =
    Inr (broker_request.extend r (host_envelope.fields PNone))"
proof -
  obtain d where d: "json_loads L (json_dumps L (PDict (request_to_dict r))) = Some (PDict d)" "map_of d = map_of (request_to_dict r)"
    using assms(3) json_reads_iff by blast
  have "map_of d ''route'' = Some (PStr (rq_route r))" using d(2) by (simp add: request_to_dict_def)
  then have "\<not> is_llm_payload (PDict d)" using assms(2) by (auto simp: is_llm_payload_def request_ok_def ALLOWED_ROUTES_def)
  moreover have "validate_request_payload (PDict d) = Inr r"
    using validate_request_cong [OF d(2)] validate_request_complete [OF assms(2)] by simp
  ultimately have "validate_envelope (PDict d) = Inr (broker_request.extend r (host_envelope.fields PNone))"
    by (simp add: validate_envelope_def)
  then show ?thesis using assms(1) d(1) by (simp add: decode_envelope_def utf8_contract_def)
qed

lemma response_decoded:
  assumes "json_reads L (response_to_dict x)" "int n \<le> RESPONSE_ENVELOPE_MAX_BYTES"
    and "byte_cap cap = Inr m" "int (length (rs_body x)) \<le> m" "- 1 \<le> rs_status x"
  shows "decode_response_envelope L (WireBytes n (Some (response_to_canonical_json L x))) (rs_request_id x) cap PROTOCOL_VERSION =
    response_outcome x"
proof -
  obtain d where d: "json_loads L (response_to_canonical_json L x) = Some (PDict d)" "map_of d = map_of (response_to_dict x)"
    using assms(1) json_reads_iff response_to_canonical_json_def by metis
  let ?s = "if rs_body x \<noteq> [] then b64encode (rs_body x) else []"
  have "map_of ((''body_b64'', PStr ?s) # response_to_dict x) = map_of (response_to_dict x)"
    by (rule ext) (simp add: response_to_dict_def)
  then have "map_of d = map_of ((''body_b64'', PStr ?s) # response_to_dict x)" using d(2) by simp
  moreover have "(if ?s = [] then Some [] else b64decode ?s) = Some (rs_body x)" by (simp add: b64.dec_enc)
  ultimately have "decode_response_envelope L (WireValue (PDict d)) (rs_request_id x) cap PROTOCOL_VERSION = response_outcome x"
    using decode_response_cong [of d "(''body_b64'', PStr ?s) # response_to_dict x"] decode_envelope_body [OF refl _ assms(3-5), of ?s L]
    by simp
  moreover have "parse_envelope L (WireBytes n (Some (response_to_canonical_json L x))) = parse_envelope L (WireValue (PDict d))"
    using assms(2) d(1) by (simp add: parse_envelope_def)
  then have "decode_response_envelope L (WireBytes n (Some (response_to_canonical_json L x))) rid c v =
      decode_response_envelope L (WireValue (PDict d)) rid c v" for rid c v
    by (simp only: decode_response_envelope_def)
  ultimately show ?thesis by simp
qed

lemma request_cap: "request_ok r \<Longrightarrow> byte_cap (PInt (rq_max_bytes r)) = Inr (rq_max_bytes r)"
  using max_bytes_below_limit [of "rq_max_bytes r"] by (simp add: request_ok_def byte_cap_def finite_number_def)

text \<open>What the client makes of a reply that carries the response \<open>x\<close>.\<close>

definition client_outcome :: "broker_request \<Rightarrow> broker_response \<Rightarrow> client_error + fetch_response" where
  "client_outcome r x =
     (case response_outcome x of
        Inl e \<Rightarrow> Inl (client_decode_error e)
      | Inr d \<Rightarrow> Inr \<lparr>fs_status = rs_status d, fs_headers = rs_headers d, fs_body = rs_body d,
          fs_final_url = or_default (rs_final_url d) (rq_target_url r)\<rparr>)"

lemma reply_read:
  assumes "utf8_contract N" "request_ok r" "json_reads L (response_to_dict x)" "rs_request_id x = rq_request_id r"
    and "int (length (rs_body x)) \<le> rq_max_bytes r" "- 1 \<le> rs_status x"
    and "int (length (serialise_response L x)) \<le> RESPONSE_ENVELOPE_MAX_BYTES"
    and "status \<in> {200, 400, 500}" "name \<noteq> []" "header_text name" "header_text value"
  shows "client_response N L r (build_http_response status (serialise_response L x) [(name, value)]) = client_outcome r x"
proof -
  obtain hs where p: "parse_http_response (build_http_response status (serialise_response L x) [(name, value)]) =
      Inr (status, hs, serialise_response L x)"
    using reply_parsed [OF assms(8-11)] by blast
  have "0 \<le> rq_max_bytes r" using assms(2) by (simp add: request_ok_def)
  then have "\<not> int (length (serialise_response L x)) > rq_max_bytes r + RESPONSE_ENVELOPE_MAX_BYTES" using assms(7) by simp
  moreover have "utf8_decode N (serialise_response L x) = Some (response_to_canonical_json L x)"
    using assms(1) by (simp add: utf8_contract_def serialise_response_def)
  moreover have "decode_response_envelope L (WireBytes (length (serialise_response L x)) (Some (response_to_canonical_json L x)))
      (rq_request_id r) (PInt (rq_max_bytes r)) PROTOCOL_VERSION = response_outcome x"
    using response_decoded [OF assms(3,7) request_cap [OF assms(2)] assms(5,6)] assms(4) by simp
  ultimately show ?thesis unfolding client_response_def p by (simp add: client_outcome_def)
qed

section \<open>The socket\<close>

definition delivered :: "string \<Rightarrow> client_event list \<Rightarrow> bool" where
  "delivered s evs \<longleftrightarrow>
     list_all (\<lambda>e. case e of Chunk c \<Rightarrow> c \<noteq> [] \<and> length c \<le> 65536 | SocketFails \<Rightarrow> False) evs \<and>
     concat (map (\<lambda>e. case e of Chunk c \<Rightarrow> c | SocketFails \<Rightarrow> []) evs) = s"

lemma delivered_simps [simp]:
  "delivered s [] \<longleftrightarrow> s = []" "\<not> delivered s (SocketFails # evs)"
  "delivered s (Chunk c # evs) \<longleftrightarrow> c \<noteq> [] \<and> length c \<le> 65536 \<and> (\<exists>s'. s = c @ s' \<and> delivered s' evs)"
  by (auto simp: delivered_def)

lemma receive_all_delivered:
  "delivered s evs \<Longrightarrow> int (length received) \<le> max_bytes + 65536 \<Longrightarrow>
   receive_all max_bytes evs received =
     (if int (length (received @ s)) > max_bytes + 65536 then Inl BrokerProtocolMismatch else Inr (received @ s))"
proof (induction max_bytes evs received arbitrary: s rule: receive_all.induct)
  case (3 max_bytes c evs received)
  then obtain s' where s': "c \<noteq> []" "length c \<le> 65536" "s = c @ s'" "delivered s' evs" by auto
  then show ?case using 3(1) [OF refl _ _ s'(4)] by (auto simp: Let_def)
qed simp_all

section \<open>The broker's answer\<close>

text \<open>The record whose envelope a connection is answered with.\<close>

definition answer_record :: "instant \<Rightarrow> broker_request \<Rightarrow> host_error + broker_response \<Rightarrow> broker_response" where
  "answer_record now r res =
     (case res of
        Inr x \<Rightarrow> x
      | Inl e \<Rightarrow> (case error_reply e of (code, message, status) \<Rightarrow>
          \<lparr>rs_request_id = rq_request_id r, rs_status = status, rs_headers = [], rs_body = [], rs_final_url = [],
            rs_retrieved_at = iso_s now @ ''Z'', rs_error_code = Some code, rs_error_message = Some message\<rparr>))"

lemma error_replies_plain: "(code, message, status) \<in> set ERROR_REPLIES \<Longrightarrow> status \<in> {400, 500} \<and> header_text code"
proof -
  have "header_text ''invalid_request''" "header_text ''broker_config_error''" "header_text ''broker_internal_error''"
    by code_simp+
  then show "(code, message, status) \<in> set ERROR_REPLIES \<Longrightarrow> status \<in> {400, 500} \<and> header_text code"
    by (auto simp: ERROR_REPLIES_def)
qed

lemma connection_answer:
  assumes "bind_result (read_envelope_bytes (Some (cn_started C + common_timeout (pol_common P)))
      (max_request_bytes (pol_common P)) (cn_stream C) (cn_deliveries C) (cn_visible C)) (decode_envelope N L) =
      Inr (broker_request.extend r extra)"
    and "serve_envelope N L E P route C (broker_request.extend r extra) table = ((t, res), table')"
    and "list_all token_char (rq_request_id r)"
  shows "\<exists>status name value. status \<in> {200, 400, 500} \<and> name \<noteq> [] \<and> header_text name \<and> header_text value \<and>
    handle_connection N L E P route C table =
      ((t, build_http_response status (serialise_response L (answer_record (ne_stamp E) r res)) [(name, value)]), table')"
proof -
  have names: "header_text ''X-News-Broker-Error-Code''" "header_text ''X-News-Broker-Request-Id''" by code_simp+
  have rid: "rq_request_id (broker_request.extend r extra) = rq_request_id r" by (simp add: broker_request.defs)
  show ?thesis
  proof (cases res)
    case (Inl e)
    obtain code message status where e: "error_reply e = (code, message, status)" by (metis surj_pair)
    then have "status \<in> {200, 400, 500}" "header_text code" using error_reply_fixed [of e] error_replies_plain by auto
    moreover have "handle_connection N L E P route C table = ((t, build_error_response L (rq_request_id r) code message status (ne_stamp E)), table')"
      unfolding handle_connection_def Let_def assms(1) using assms(2) Inl e rid by simp
    moreover have "build_error_response L (rq_request_id r) code message status (ne_stamp E) =
        build_http_response status (serialise_response L (answer_record (ne_stamp E) r res)) [(''X-News-Broker-Error-Code'', code)]"
      using Inl e by (simp add: build_error_response_def serialise_response_def response_to_canonical_json_def answer_record_def
          error_envelope_def response_to_dict_def header_lists_def opt_str_def del: json_dumps.simps)
    ultimately show ?thesis using names by (metis list.distinct(1))
  next
    case (Inr x)
    have "handle_connection N L E P route C table =
        ((t, build_http_response 200 (serialise_response L (answer_record (ne_stamp E) r res)) [(''X-News-Broker-Request-Id'', rq_request_id r)]), table')"
      unfolding handle_connection_def Let_def assms(1) using assms(2) Inr rid by (simp add: answer_record_def)
    then show ?thesis using names token_header [OF assms(3)] by (metis insertI1 list.distinct(1))
  qed
qed

section \<open>The request a transport sends\<close>

definition transport_ok :: "broker_transport \<Rightarrow> bool" where
  "transport_ok bt \<longleftrightarrow> bt_route bt \<in> set ALLOWED_ROUTES \<and> 0 < bt_timeout_seconds bt \<and>
     bt_timeout_seconds bt \<le> MAX_TIMEOUT_SECONDS \<and> 1 \<le> bt_max_bytes bt \<and> bt_max_bytes bt \<le> MAX_BYTES_HARD_LIMIT"

lemma client_number_Inr: "client_number v = Inr q \<Longrightarrow> 0 < q"
  by (auto simp: client_number_def split: if_splits)

lemma client_integer_Inr: "client_integer v = Inr n \<Longrightarrow> 1 \<le> n"
  by (auto simp: client_integer_def split: if_splits)

lemma filter_allowed_ok: "\<forall>(name, value) \<in> set (filter_allowed_headers hs). name \<in> set ALLOWED_HEADERS"
  by (auto simp: filter_allowed_headers_def)

lemma derived_id_token:
  assumes "digest_contract L" "derive_request_id L s route u a [] = Inr rid"
  shows "length rid = 64 \<and> list_all token_char rid"
proof -
  obtain x where "rid = sha256_hexdigest L x" using assms(2) by (auto simp: derive_request_id_def Let_def split: if_splits)
  then show ?thesis using assms(1) is_hex_token by (auto simp: digest_contract_def list_all_iff)
qed

lemma build_envelope_ok:
  assumes "digest_contract L" "transport_ok bt" "fr_url q \<noteq> []" "stamp \<noteq> []" "build_envelope L bt q stamp = Inr r"
  shows "request_ok r \<and> rq_route r = bt_route bt"
proof -
  obtain timeout max_bytes source_id where v: "client_number (fr_timeout_seconds q) = Inr timeout"
      "client_integer (fr_max_response_bytes q) = Inr max_bytes"
      "derive_request_id L source_id (bt_route bt) (fr_url q) stamp [] = Inr (rq_request_id r)"
      "r = \<lparr>rq_request_id = rq_request_id r, rq_route = bt_route bt, rq_target_url = fr_url q,
         rq_headers = filter_allowed_headers (fr_headers q), rq_timeout_seconds = Finite (min (bt_timeout_seconds bt) timeout),
         rq_max_bytes = min (bt_max_bytes bt) max_bytes, rq_retrieved_at = stamp\<rparr>"
    using assms(5) unfolding build_envelope_def by (auto split: sum.splits)
  have rid: "length (rq_request_id r) = 64 \<and> list_all token_char (rq_request_id r)" by (rule derived_id_token [OF assms(1) v(3)])
  have bounds: "0 < timeout" "1 \<le> max_bytes" using client_number_Inr [OF v(1)] client_integer_Inr [OF v(2)] .
  have parts: "rq_route r = bt_route bt" "rq_target_url r = fr_url q" "rq_headers r = filter_allowed_headers (fr_headers q)"
      "rq_timeout_seconds r = Finite (min (bt_timeout_seconds bt) timeout)" "rq_max_bytes r = min (bt_max_bytes bt) max_bytes"
      "rq_retrieved_at r = stamp"
    by (subst v(4), simp)+
  have "rq_request_id r \<noteq> []" using rid by auto
  then show ?thesis
    unfolding request_ok_def parts using assms(2-4) rid bounds filter_allowed_ok [of "fr_headers q"]
    by (auto simp: transport_ok_def)
qed

lemma request_finite: "request_ok r \<Longrightarrow> request_to_canonical_json L r = Inr (json_dumps L (PDict (request_to_dict r)))"
proof -
  assume "request_ok r"
  then obtain x where "rq_timeout_seconds r = Finite x" by (auto simp: request_ok_def)
  moreover have "json_finite (header_lists hs)" for hs by (auto simp: header_lists_def list_all_iff)
  ultimately have "json_finite (PDict (request_to_dict r))"
    by (simp add: request_to_dict_def float_finite_def del: json_finite.simps(2))
  then show ?thesis unfolding request_to_canonical_json_def by (simp only: if_True)
qed


section \<open>The wire cap\<close>

lemma length_join_member: "x \<in> set xs \<Longrightarrow> length x \<le> length (join sep xs)"
  by (induction sep xs rule: join.induct) auto

lemma json_str_longer: "length s \<le> length (json_str s)"
proof -
  have c: "1 \<le> length (json_char c)" for c by (simp add: json_char_def Let_def)
  have "length s \<le> length (concat (map json_char s))"
  proof (induction s)
    case (Cons a s)
    then show ?case using c [of a] by simp
  qed simp
  then show ?thesis by (simp add: json_str_def)
qed

lemma length_json_member: "(k, v) \<in> set d \<Longrightarrow> length (json_dumps L v) \<le> length (json_dumps L (PDict d))"
proof -
  assume kv: "(k, v) \<in> set d"
  let ?ts = "map (\<lambda>(k, s). json_str k @ '':'' @ s) (sort_key fst (map (\<lambda>(k, v). (k, json_dumps L v)) d))"
  have "(k, json_dumps L v) \<in> set (map (\<lambda>(k, v). (k, json_dumps L v)) d)" using kv by force
  then have "json_str k @ '':'' @ json_dumps L v \<in> set ?ts" by force
  from length_join_member [OF this, of "'',''"] show ?thesis by simp
qed

lemma reply_length:
  "4 * ((length (rs_body x) + 2) div 3) \<le> length (build_http_response status (serialise_response L x) hs)"
proof -
  let ?s = "if rs_body x \<noteq> [] then b64encode (rs_body x) else []"
  have "4 * ((length (rs_body x) + 2) div 3) \<le> length ?s" by (simp add: length_b64encode)
  also have "\<dots> \<le> length (json_dumps L (PStr ?s))" using json_str_longer [of ?s] by simp
  also have "\<dots> \<le> length (json_dumps L (PDict (response_to_dict x)))"
    by (rule length_json_member [where k = "''body_b64''"]) (simp add: response_to_dict_def)
  also have "\<dots> \<le> length (serialise_response L x)"
    using length_utf8_encode [of "response_to_canonical_json L x"]
    by (simp add: serialise_response_def response_to_canonical_json_def del: json_dumps.simps)
  also have "\<dots> \<le> length (build_http_response status (serialise_response L x) hs)" by (simp add: build_http_response_def)
  finally show ?thesis .
qed

text \<open>
  The client cannot take every response it negotiates. A body within the cap of the request, sent back
  unharmed, is refused as a protocol mismatch when its base64 form alone is longer than the cap and 64 KiB: the
  receiving loop measures the encoded reply against a bound for the decoded body.
\<close>

theorem encoded_body_refused:
  assumes "int (length (rs_body x)) \<le> max_bytes"
    and "int (4 * ((length (rs_body x) + 2) div 3)) > max_bytes + 65536"
    and "delivered (build_http_response status (serialise_response L x) hs) evs"
  shows "receive_all max_bytes evs [] = Inl BrokerProtocolMismatch"
proof -
  have "int (4 * ((length (rs_body x) + 2) div 3)) \<le> int (length (build_http_response status (serialise_response L x) hs))"
    using reply_length [of x status L hs] by (simp only: of_nat_le_iff)
  moreover have "0 \<le> max_bytes + 65536" using assms(1) by linarith
  ultimately show ?thesis using receive_all_delivered [OF assms(3), of "[]" max_bytes] assms(2) by simp
qed

section \<open>The container gate\<close>

lemma socket_path_Inr:
  "socket_path_for_route route env = Inr path \<longleftrightarrow>
     route \<in> set ALLOWED_ROUTES \<and> map_of env (socket_var route) = Some path \<and> starts_with ''/'' path"
  by (auto simp: socket_path_for_route_def starts_with_def split: option.splits if_splits)

text \<open>
  C26: In the container nothing is fetched without the broker. A factory builds a transport only for the socket that
  the environment names for the route, an absolute path, and with \<open>NEWS_CONTAINER_MODE=1\<close> only if
  that socket exists; the limits of the transport are positive.
\<close>

theorem container_sealed:
  assumes "broker_transport_factory exists a source_id env default_timeout default_max_bytes = Inr bt \<or>
    broker_article_transport_factory exists source_id env default_timeout default_max_bytes = Inr bt"
  shows "(container_mode_enabled env \<longrightarrow> exists (bt_socket_path bt)) \<and> bt_route bt \<in> set ALLOWED_ROUTES \<and>
    map_of env (socket_var (bt_route bt)) = Some (bt_socket_path bt) \<and> starts_with ''/'' (bt_socket_path bt) \<and>
    0 < bt_timeout_seconds bt \<and> 1 \<le> bt_max_bytes bt"
  using assms
proof
  assume "broker_transport_factory exists a source_id env default_timeout default_max_bytes = Inr bt"
  then show ?thesis
    by (auto simp: broker_transport_factory_def config_for_source_def socket_path_Inr split: sum.splits if_splits)
      (blast intro: client_number_Inr client_integer_Inr)+
next
  assume "broker_article_transport_factory exists source_id env default_timeout default_max_bytes = Inr bt"
  then show ?thesis
    by (auto simp: broker_article_transport_factory_def socket_path_Inr
        intro: client_number_Inr client_integer_Inr split: sum.splits if_splits)
qed

lemma factory_transport_ok:
  assumes "broker_transport_factory exists a source_id env (PFloat (Finite timeout)) (PInt n) = Inr bt"
    and "timeout \<le> MAX_TIMEOUT_SECONDS" "n \<le> MAX_BYTES_HARD_LIMIT"
  shows "transport_ok bt"
  using assms
  by (auto simp: broker_transport_factory_def config_for_source_def socket_path_Inr transport_ok_def client_number_def
      client_integer_def finite_number_def split: sum.splits if_splits)

end
