(* ===== verification/BrokerExample.thy ===== *)
theory BrokerExample
  imports BrokerClient
begin

text \<open>
  A feed request followed through the whole broker: a small network, policy and library, the request's way from
  the client's transport over the socket to the upstream server and back, and instances of the
  broker's properties at this request.
\<close>

section \<open>A small world\<close>

definition ex_url :: string where
  "ex_url = ''https://a.example/f''"

text \<open>Every address is the one feed address, and urllib changes nothing.\<close>

definition ex_net :: netparse where
  "ex_net = \<lparr>url_split = (\<lambda>u. Inr \<lparr>u_scheme = (if u = ''http://b:1'' then ''http'' else ''https''), u_netloc = ''a.example'', u_path = ''/f'',
       u_query = [], u_fragment = [], u_hostname = Some ''a.example'', u_port = Inr None\<rparr>),
     url_unsplit = (\<lambda>p. ex_url), url_join = (\<lambda>a b. Inr b), request_url = Some, utf8_decode = narrow_utf8_decode,
     exc_text = (\<lambda>a b. [])\<rparr>"

definition ex_request :: broker_request where
  "ex_request = \<lparr>rq_request_id = replicate 64 (CHR ''a''), rq_route = ''feed'', rq_target_url = ex_url,
     rq_headers = [(''Accept'', ''*/*'')], rq_timeout_seconds = Finite 15, rq_max_bytes = 4096,
     rq_retrieved_at = ''2026-01-01T00:00:00Z''\<rparr>"

definition ex_response :: broker_response where
  "ex_response = \<lparr>rs_request_id = replicate 64 (CHR ''a''), rs_status = 200, rs_headers = [(''Content-Type'', ''text/xml'')],
     rs_body = ''news'', rs_final_url = ex_url, rs_retrieved_at = iso_s 0 @ ''Z'', rs_error_code = None, rs_error_message = None\<rparr>"

text \<open>A reader of the two envelopes, told apart by their first key.\<close>

definition ex_json_loads :: "string \<Rightarrow> pyval option" where
  "ex_json_loads s = Some (PDict (if take 1 (drop 2 s) = ''h'' then request_to_dict ex_request else response_to_dict ex_response))"

definition ex_lib :: pylib where
  "ex_lib = \<lparr>sha256_hexdigest = (\<lambda>s. replicate 64 (CHR ''a'')), fromisoformat_utc = (\<lambda>s. None),
     json_loads = ex_json_loads, float_repr = (\<lambda>f. ''15.0''), container_str = (\<lambda>v. ''...'')\<rparr>"

definition ex_upstream :: upstream where
  "ex_upstream = \<lparr>up_status = 200, up_headers = [(''Content-Type'', ''text/xml''), (''Set-Cookie'', ''s'')],
     up_reads = [Piece 0 ''news''], up_eof = 0\<rparr>"

definition ex_env :: net_env where
  "ex_env = \<lparr>ne_resolve = (\<lambda>i host port. Inr [''8.8.8.8'']), ne_clock = (\<lambda>i. 0), ne_connect = (\<lambda>i ip name. Connected ex_upstream),
     ne_open = (\<lambda>r. UrlError), ne_pace = (0, 0), ne_stamp = 0\<rparr>"

definition ex_document :: pydict where
  "ex_document = [(''version'', PInt 1), (''search'', PDict [(''base_url'', PStr ''http://b:1'')]),
     (''feed'', PDict [(''allowed_hosts'', PList [PStr ''A.example''])]),
     (''llm'', PDict [(''base_url'', PStr ''https://l''), (''model'', PStr ''m'')])]"

definition ex_policy :: broker_policy where
  "ex_policy = \<lparr>pol_common = \<lparr>max_request_bytes = 65536, max_response_bytes = 2097152, common_timeout = 15, max_concurrency = 16\<rparr>,
     pol_search = ''http://b:1'', pol_feed = \<lparr>feed_hosts = [''a.example''], feed_max_redirects = 3\<rparr>,
     pol_llm = \<lparr>llm_base_url = ''https://l'', llm_model = ''m'', llm_path = ''/v1/chat/completions'', llm_max_response_bytes = 4194304\<rparr>,
     pol_article = \<lparr>article_enabled = False, article_hosts = []\<rparr>, pol_log_level = ''INFO''\<rparr>"

definition ex_sent :: string where
  "ex_sent = build_http_request (utf8_encode (json_dumps ex_lib (PDict (request_to_dict ex_request))))"

definition ex_connection :: connection where
  "ex_connection = \<lparr>cn_started = 0, cn_stream = ex_sent, cn_deliveries = replicate (length ex_sent) (Ready 0 1), cn_visible = True,
     cn_finished = 0\<rparr>"

lemma ex_utf8: "utf8_contract ex_net"
  by (simp add: utf8_contract_def ex_net_def narrow_utf8)

lemma ex_request_text:
  "json_dumps ex_lib (PDict (request_to_dict ex_request)) = ''{'' @ join '','' (map (\<lambda>(k, v). json_str k @ '':'' @ json_dumps ex_lib v)
     [(''headers'', header_lists (rq_headers ex_request)), (''max_bytes'', PInt (rq_max_bytes ex_request)),
      (''protocol_version'', PInt PROTOCOL_VERSION), (''request_id'', PStr (rq_request_id ex_request)),
      (''retrieved_at'', PStr (rq_retrieved_at ex_request)), (''route'', PStr (rq_route ex_request)),
      (''target_url'', PStr (rq_target_url ex_request)), (''timeout_seconds'', PFloat (rq_timeout_seconds ex_request))]) @ ''}''"
proof (rule json_dumps_sorted)
  have "sorted [''headers'', ''max_bytes'', ''protocol_version'', ''request_id'', ''retrieved_at'', ''route'', ''target_url'', ''timeout_seconds'']"
    by code_simp
  then show "sorted (map fst [(''headers'', header_lists (rq_headers ex_request)), (''max_bytes'', PInt (rq_max_bytes ex_request)),
      (''protocol_version'', PInt PROTOCOL_VERSION), (''request_id'', PStr (rq_request_id ex_request)),
      (''retrieved_at'', PStr (rq_retrieved_at ex_request)), (''route'', PStr (rq_route ex_request)),
      (''target_url'', PStr (rq_target_url ex_request)), (''timeout_seconds'', PFloat (rq_timeout_seconds ex_request))])"
    by (simp only: list.map fst_conv)
qed (auto simp: request_to_dict_def dict_ok_def)

lemma ex_response_text:
  "json_dumps ex_lib (PDict (response_to_dict ex_response)) = ''{'' @ join '','' (map (\<lambda>(k, v). json_str k @ '':'' @ json_dumps ex_lib v)
     [(''body_b64'', PStr (b64encode (rs_body ex_response))), (''body_length'', PInt (int (length (rs_body ex_response)))),
      (''error_code'', PNone), (''error_message'', PNone), (''final_url'', PStr (rs_final_url ex_response)),
      (''headers'', header_lists (rs_headers ex_response)), (''protocol_version'', PInt PROTOCOL_VERSION),
      (''request_id'', PStr (rs_request_id ex_response)), (''retrieved_at'', PStr (rs_retrieved_at ex_response)),
      (''status'', PInt (rs_status ex_response))]) @ ''}''"
proof (rule json_dumps_sorted)
  have "sorted [''body_b64'', ''body_length'', ''error_code'', ''error_message'', ''final_url'', ''headers'', ''protocol_version'',
      ''request_id'', ''retrieved_at'', ''status'']"
    by code_simp
  then show "sorted (map fst [(''body_b64'', PStr (b64encode (rs_body ex_response))), (''body_length'', PInt (int (length (rs_body ex_response)))),
      (''error_code'', PNone), (''error_message'', PNone), (''final_url'', PStr (rs_final_url ex_response)),
      (''headers'', header_lists (rs_headers ex_response)), (''protocol_version'', PInt PROTOCOL_VERSION),
      (''request_id'', PStr (rs_request_id ex_response)), (''retrieved_at'', PStr (rs_retrieved_at ex_response)),
      (''status'', PInt (rs_status ex_response))])"
    by (simp only: list.map fst_conv)
  have "rs_body ex_response = ''news''" "rs_error_code ex_response = None" "rs_error_message ex_response = None"
    by (simp_all add: ex_response_def)
  then show "set (response_to_dict ex_response) = set [(''body_b64'', PStr (b64encode (rs_body ex_response))),
      (''body_length'', PInt (int (length (rs_body ex_response)))),
      (''error_code'', PNone), (''error_message'', PNone), (''final_url'', PStr (rs_final_url ex_response)),
      (''headers'', header_lists (rs_headers ex_response)), (''protocol_version'', PInt PROTOCOL_VERSION),
      (''request_id'', PStr (rs_request_id ex_response)), (''retrieved_at'', PStr (rs_retrieved_at ex_response)),
      (''status'', PInt (rs_status ex_response))]"
    unfolding response_to_dict_def by (auto simp: opt_str_def)
qed (auto simp: response_to_dict_def dict_ok_def)

lemma first_key:
  assumes "json_char c = [c]"
  shows "take 1 (drop 2 (''{'' @ join '','' ((json_str (c # k) @ s) # xs) @ t)) = [c]"
  using assms by (cases xs) (simp_all add: json_str_def)

lemma ex_texts:
  "take 1 (drop 2 (json_dumps ex_lib (PDict (request_to_dict ex_request)))) = ''h''"
  "take 1 (drop 2 (json_dumps ex_lib (PDict (response_to_dict ex_response)))) = ''b''"
proof -
  have "json_char (CHR ''h'') = ''h''" "json_char (CHR ''b'') = ''b''" by code_simp+
  then show "take 1 (drop 2 (json_dumps ex_lib (PDict (request_to_dict ex_request)))) = ''h''"
    "take 1 (drop 2 (json_dumps ex_lib (PDict (response_to_dict ex_response)))) = ''b''"
    unfolding ex_request_text ex_response_text list.map prod.case by (simp_all only: first_key append_assoc)
qed

lemma small_number: "0 \<le> n \<Longrightarrow> n < 10000 \<Longrightarrow> length (show_int n) \<le> 4"
  using length_show_nat [of "nat n" 3] by (simp add: show_int_def)

lemma length_header_lists:
  "length (json_dumps L (header_lists hs)) \<le> 2 + sum_list (map (\<lambda>(n, v). 8 + 6 * (length n + length v)) hs) + length hs"
proof (cases hs)
  case (Cons h hs')
  have one: "length (json_dumps L (PList [PStr n, PStr v])) \<le> 7 + 6 * (length n + length v)" for n v
    using length_json_str [of n] length_json_str [of v] by simp
  have "sum_list (map length (map (json_dumps L) (map (\<lambda>(n, v). PList [PStr n, PStr v]) hs))) \<le>
      sum_list (map (\<lambda>(n, v). 7 + 6 * (length n + length v)) hs)"
    unfolding map_map by (rule sum_list_mono) (use one in \<open>auto simp del: json_dumps.simps\<close>)
  moreover have "sum_list (map (\<lambda>(n, v). 8 + 6 * (length n + length v)) hs) =
      sum_list (map (\<lambda>(n, v). 7 + 6 * (length n + length v)) hs) + length hs"
    by (induction hs) auto
  ultimately show ?thesis using Cons by (simp add: header_lists_def length_join del: json_dumps.simps(5,7)) 
qed (simp add: header_lists_def)

lemma ex_request_length: "length (json_dumps ex_lib (PDict (request_to_dict ex_request))) \<le> 2000"
proof -
  note keys = length_json_str [of "''protocol_version''"] length_json_str [of "''request_id''"] length_json_str [of "''route''"]
    length_json_str [of "''target_url''"] length_json_str [of "''headers''"] length_json_str [of "''timeout_seconds''"]
    length_json_str [of "''max_bytes''"] length_json_str [of "''retrieved_at''"]
  note vals = length_json_str [of "rq_request_id ex_request"] length_json_str [of "rq_route ex_request"]
    length_json_str [of "rq_target_url ex_request"] length_json_str [of "rq_retrieved_at ex_request"]
    small_number [of PROTOCOL_VERSION] small_number [of 4096] length_header_lists [of ex_lib "rq_headers ex_request"]
  show ?thesis using keys vals unfolding request_to_dict_def
    by (simp add: length_json_dict ex_request_def PROTOCOL_VERSION_def ex_url_def ex_lib_def del: json_dumps.simps(6,8))
qed

lemma ex_response_length: "length (serialise_response ex_lib ex_response) \<le> 4000"
proof -
  note keys = length_json_str [of "''protocol_version''"] length_json_str [of "''request_id''"] length_json_str [of "''status''"]
    length_json_str [of "''final_url''"] length_json_str [of "''headers''"] length_json_str [of "''body_b64''"]
    length_json_str [of "''body_length''"] length_json_str [of "''retrieved_at''"] length_json_str [of "''error_code''"]
    length_json_str [of "''error_message''"]
  have "iso_s 0 = ''0001-01-01T00:00:00''" by code_simp
  note vals = length_json_str [of "rs_request_id ex_response"] length_json_str [of "b64encode (rs_body ex_response)"]
    length_json_str [of "rs_final_url ex_response"] length_json_str [of "rs_retrieved_at ex_response"]
    small_number [of PROTOCOL_VERSION] small_number [of 200] small_number [of 4] length_header_lists [of ex_lib "rs_headers ex_response"]
    this
  have "length (json_dumps ex_lib (PDict (response_to_dict ex_response))) \<le> 2000"
    using keys vals unfolding response_to_dict_def
    by (simp add: length_json_dict length_b64encode ex_response_def opt_str_def PROTOCOL_VERSION_def ex_url_def del: json_dumps.simps(6,8) b64encode.simps)
  then show ?thesis using length_utf8 [of "json_dumps ex_lib (PDict (response_to_dict ex_response))"]
    by (simp add: serialise_response_def response_to_canonical_json_def del: json_dumps.simps)
qed

lemma ex_json: "json_reads ex_lib (request_to_dict ex_request)" "json_reads ex_lib (response_to_dict ex_response)"
proof -
  have "json_loads ex_lib = ex_json_loads" by (simp add: ex_lib_def)
  then show "json_reads ex_lib (request_to_dict ex_request)" "json_reads ex_lib (response_to_dict ex_response)"
    unfolding json_reads_def using ex_texts by (simp_all add: ex_json_loads_def del: json_dumps.simps)
qed

definition ex_reply :: string where
  "ex_reply = build_http_response 200 (serialise_response ex_lib ex_response) [(''X-News-Broker-Request-Id'', replicate 64 (CHR ''a''))]"

lemma ex_reply_length: "int (length ex_reply) \<le> 5000"
proof -
  have "length (show_nat (length (serialise_response ex_lib ex_response))) \<le> 4"
    using length_show_nat [of "length (serialise_response ex_lib ex_response)" 3] ex_response_length by simp
  moreover have "show_int 200 = ''200''" by code_simp
  ultimately show ?thesis using ex_response_length by (simp add: ex_reply_def build_http_response_def http_reason_def crlf_chars)
qed

lemma ex_policy_loads: "policy_from_mapping ex_net ex_lib (PDict ex_document) = Inr ex_policy"
  by code_simp

lemma ex_global: "\<not> ip_in_blocked_range ''8.8.8.8''"
proof -
  have "ip_address (strip ''8.8.8.8'') = Some (V4 [8, 8, 8, 8])" by code_simp
  then show ?thesis by (simp add: blocked_ipv4)
qed

section \<open>The example served\<close>

lemma ex_env_fields [simp]:
  "ne_resolve ex_env i host port = Inr [''8.8.8.8'']" "ne_clock ex_env i = 0" "ne_connect ex_env i ip name = Connected ex_upstream"
  "ne_stamp ex_env = 0"
  by (simp_all add: ex_env_def)

lemma ex_net_fields [simp]: "request_url ex_net u = Some u" "url_unsplit ex_net p = ex_url"
  by (simp_all add: ex_net_def)

lemma ex_request_ok: "request_ok ex_request"
proof -
  have "token_char (CHR ''a'')" by code_simp
  then show ?thesis
    by (simp add: request_ok_def ex_request_def ex_url_def ALLOWED_ROUTES_def ALLOWED_HEADERS_def
      MAX_TIMEOUT_SECONDS_def MAX_BYTES_HARD_LIMIT_def list_all_iff)
qed

lemma ex_read: "read_envelope_bytes (Some 15) 65536 ex_sent (replicate (length ex_sent) (Ready 0 1)) visible =
  Inr (utf8_encode (json_dumps ex_lib (PDict (request_to_dict ex_request))))"
  unfolding ex_sent_def
proof (rule request_read)
  show "utf8_encode (json_dumps ex_lib (PDict (request_to_dict ex_request))) \<noteq> []"
    by (simp add: utf8_encode_def utf8_char_def Let_def)
  show "int (length (utf8_encode (json_dumps ex_lib (PDict (request_to_dict ex_request))))) \<le> 65536"
    using length_utf8 [of "json_dumps ex_lib (PDict (request_to_dict ex_request))"] ex_request_length by linarith
qed (simp_all add: MAX_REQUEST_BYTES_def timely_def list_all_iff)

lemma ex_served:
  "\<exists>t. serve_envelope ex_net ex_lib ex_env ex_policy ''feed'' ex_connection
      (broker_request.extend ex_request (host_envelope.fields PNone)) Map.empty = ((t, Inr ex_response), Map.empty) \<and>
    (\<exists>r. Connect ''8.8.8.8'' ''a.example'' r \<in> set t)"
proof -
  let ?e = "broker_request.extend ex_request (host_envelope.fields PNone)"
  let ?p = "\<lparr>u_scheme = ''https'', u_netloc = ''a.example'', u_path = ''/f'', u_query = [], u_fragment = [],
    u_hostname = Some ''a.example'', u_port = Inr None\<rparr>"
  have split: "url_split ex_net ex_url = Inr ?p" by (simp add: ex_net_def ex_url_def)
  have low: "lower ''a.example'' = ''a.example''" by code_simp
  have host: "hop_host ex_net [''a.example''] ex_url = Inr ''a.example''"
    by (simp add: hop_host_def split netloc_has_userinfo_def host_allowed_def low split_unguarded_def)
  have ips: "resolve_and_validate (ne_resolve ex_env 0) ''a.example'' 443 = Inr [''8.8.8.8'']"
    by (simp add: resolve_and_validate_def ex_global)
  obtain r where r: "fetch_feed_once ex_net (ne_connect ex_env 0) ex_url FEED_ACCEPT [''8.8.8.8''] =
      ([Connect ''8.8.8.8'' ''a.example'' r], Inr ex_upstream)"
    by (simp add: fetch_feed_once_def make_request_def split)
  have round: "feed_round ex_net ex_env [''a.example''] 15 (Some 15) 0 ex_url =
      ([Resolve ''a.example'' 443, Connect ''8.8.8.8'' ''a.example'' r], Inr ex_upstream)"
    using r by (simp add: feed_round_def host ips remaining_timeout_def)
  have loop: "feed_loop ex_net ex_env [''a.example''] 3 15 (Some 15) 0 ex_url =
      ([Resolve ''a.example'' 443, Connect ''8.8.8.8'' ''a.example'' r], Inr (ex_url, ex_upstream))"
    by (subst feed_loop.simps) (simp add: round redirect_target_def ex_upstream_def REDIRECTS_def)
  have hs: "sanitise_response_headers (up_headers ex_upstream) = [(''Content-Type'', ''text/xml'')]" by code_simp
  have lim: "effective_response_limit 2097152 4096 = Inr 4096"
    by (simp add: effective_response_limit_def positive_finite_bytes_def host_number_def finite_number_def Let_def float_limit_def)
  have read: "finish_read ex_env ?e ex_url 2097152 (Some 15) ex_upstream = Inr ex_response"
    using hs lim by (simp add: finish_read_def read_response_envelope_def ex_request_def broker_request.defs host_envelope.defs
        ex_upstream_def remaining_timeout_def ex_response_def Let_def)
  have target: "rq_target_url ?e = ex_url" by (simp add: ex_request_def broker_request.defs)
  have valid: "validate_feed_target_url ex_net ex_url = Inr ?p"
    by (simp add: validate_feed_target_url_def split netloc_has_userinfo_def has_hostname_def)
  have policy: "feed_hosts (pol_feed ex_policy) = [''a.example'']" "feed_max_redirects (pol_feed ex_policy) = 3"
    "common_timeout (pol_common ex_policy) = 15" "max_response_bytes (pol_common ex_policy) = 2097152"
    by (simp_all add: ex_policy_def)
  have "host_allowed [''a.example''] (the (u_hostname ?p))" "unsplit ex_net ?p = ex_url"
    by (simp_all add: host_allowed_def low unsplit_def)
  then have "handle_feed ex_net ex_env (pol_common ex_policy) (pol_feed ex_policy) ?e (Some 15) =
      ([Resolve ''a.example'' 443, Connect ''8.8.8.8'' ''a.example'' r], Inr ex_response)"
    unfolding handle_feed_def target valid policy by (simp add: loop read)
  moreover have "min (cn_started ex_connection + common_timeout (pol_common ex_policy)) (cn_started ex_connection + 15) = 15"
    by (simp add: ex_connection_def ex_policy_def)
  moreover have "seconds_value (rq_timeout_seconds ?e) = Inr 15" "rq_route ?e = ''feed''"
    by (simp_all add: ex_request_def broker_request.defs host_envelope.defs seconds_value_def host_number_def finite_number_def)
  moreover have "remaining_timeout (Some 15) (cn_finished ex_connection) x = Inr (min x 15)" for x
    by (simp add: remaining_timeout_def ex_connection_def)
  ultimately show ?thesis
    by (simp add: serve_envelope_def dispatch_envelope_def Let_def)
qed

section \<open>The properties at the example\<close>

definition ex_envelope :: host_envelope where
  "ex_envelope = broker_request.extend ex_request (host_envelope.fields PNone)"

lemma ex_decoded: "decode_envelope ex_net ex_lib (utf8_encode (json_dumps ex_lib (PDict (request_to_dict ex_request)))) = Inr ex_envelope"
  unfolding ex_envelope_def by (rule request_decoded [OF ex_utf8 ex_request_ok ex_json(1)])

lemma ex_handled:
  "\<exists>t. handle_connection ex_net ex_lib ex_env ex_policy ''feed'' ex_connection Map.empty = ((t, ex_reply), Map.empty) \<and>
    (\<exists>r. Connect ''8.8.8.8'' ''a.example'' r \<in> set t)"
proof -
  obtain t r where t: "serve_envelope ex_net ex_lib ex_env ex_policy ''feed'' ex_connection ex_envelope Map.empty =
      ((t, Inr ex_response), Map.empty)" "Connect ''8.8.8.8'' ''a.example'' r \<in> set t"
    using ex_served unfolding ex_envelope_def by blast
  have "bind_result (read_envelope_bytes (Some (cn_started ex_connection + common_timeout (pol_common ex_policy)))
      (max_request_bytes (pol_common ex_policy)) (cn_stream ex_connection) (cn_deliveries ex_connection) (cn_visible ex_connection))
      (decode_envelope ex_net ex_lib) = Inr ex_envelope"
    using ex_read [of True] ex_decoded by (simp add: ex_connection_def ex_policy_def)
  moreover have "rq_request_id ex_envelope = replicate 64 (CHR ''a'')"
    by (simp add: ex_envelope_def ex_request_def broker_request.defs)
  ultimately show ?thesis using t unfolding handle_connection_def Let_def ex_reply_def by auto
qed

theorem egress_contained_witness:
  "\<exists>t r. fst (fst (handle_connection ex_net ex_lib ex_env ex_policy ''feed'' ex_connection Map.empty)) = t \<and>
     Connect ''8.8.8.8'' ''a.example'' r \<in> set t \<and> permitted ex_net ex_env ex_policy ''feed'' (Connect ''8.8.8.8'' ''a.example'' r)"
proof -
  obtain r where "Connect ''8.8.8.8'' ''a.example'' r \<in>
      set (fst (fst (handle_connection ex_net ex_lib ex_env ex_policy ''feed'' ex_connection Map.empty)))"
    using ex_handled by auto
  with egress_contained [OF this] show ?thesis by blast
qed

theorem served_response_bounded_witness:
  "\<exists>t. serve_envelope ex_net ex_lib ex_env ex_policy ''feed'' ex_connection ex_envelope Map.empty = ((t, Inr ex_response), Map.empty) \<and>
     int (length (rs_body ex_response)) \<le> rq_max_bytes ex_envelope"
proof -
  obtain t where t: "serve_envelope ex_net ex_lib ex_env ex_policy ''feed'' ex_connection ex_envelope Map.empty =
      ((t, Inr ex_response), Map.empty)"
    using ex_served unfolding ex_envelope_def by blast
  with served_response_bounded [OF t] show ?thesis by blast
qed

theorem framing_exact_witness:
  "read_envelope_bytes (Some 15) 65536 (build_http_request ''{}'') (replicate (length (build_http_request ''{}'')) (Ready 0 1)) False = Inr ''{}''"
proof -
  let ?head = "join crlf (request_lines (length ''{}''))" and ?ds = "replicate (length (build_http_request ''{}'')) (Ready 0 1)"
  have "parse_head ?head 65536 = Inr (int (length ''{}''))"
    by (rule request_head_accepted) (simp_all add: show_nat.simps)
  moreover have "length ?head + 4 \<le> MAX_HTTP_HEADER_BYTES"
    by (simp add: length_join request_lines_def request_version MAX_HTTP_HEADER_BYTES_def crlf_chars show_nat.simps)
  moreover have "timely 15 ?ds" by (simp add: timely_def list_all_iff)
  ultimately have "split_at_first (crlf @ crlf) (build_http_request ''{}'') = Some (?head, ''{}'') \<and>
      acceptable_head ?head 65536 (int (length ''{}'')) \<and> length ?head + 4 \<le> MAX_HTTP_HEADER_BYTES \<and>
      timely 15 ?ds \<and> length (build_http_request ''{}'') \<le> length ?ds"
    using request_split [of "''{}''"] by (simp only: length_replicate order_refl simp_thms parse_head_exact [symmetric])
  with conjunct2 [OF framing_exact] show ?thesis by (rule mp)
qed

theorem article_hosts_paced_witness:
  "pace_turns Map.empty [(''h'', None, 0, 1), (''h'', None, 1, 2)] = [(''h'', 1), (''h'', 2)] \<and> (1 :: rat) + 1 \<le> 2"
proof -
  have t: "pace_turns Map.empty [(''h'', None, 0, 1), (''h'', None, 1, 2)] = [(''h'', 1), (''h'', 2)]"
    by (simp add: pace_article_host_def)
  have "sleeps_enough Map.empty [(''h'', None, 0, 1), (''h'', None, 1, 2)]"
    by (simp add: pace_article_host_def pace_wait_def ARTICLE_MIN_INTERVAL_SECONDS_def)
  from article_hosts_paced [OF this, of "[]" "''h''" 1 "[]" 2 "[]"] t show ?thesis by simp
qed

theorem admission_bounded_witness:
  "ad_permits (process_request 7 True (set_admission_limit 1)) + length (ad_running (process_request 7 True (set_admission_limit 1))) = 1"
  using admission_bounded [OF admitted.Arrival [OF admitted.Started, of 1 7 True]] by (simp add: MAX_ACTIVE_CONNECTIONS_def)

theorem loaded_policy_ok_witness: "policy_from_mapping ex_net ex_lib (PDict ex_document) = Inr ex_policy \<and> policy_ok ex_net ex_policy"
  using loaded_policy_ok [OF ex_policy_loads] ex_policy_loads by blast

theorem feed_names_bounded_witness:
  "length (filter is_resolve (fst (handle_feed ex_net ex_env (pol_common ex_policy) (pol_feed ex_policy) ex_envelope (Some 15)))) \<le> 4"
proof -
  have "lower ''a.example'' = ''a.example''" by code_simp
  then have "feed_ok (pol_feed ex_policy)" by (simp add: feed_ok_def bare_host_def ex_policy_def MAX_FEED_REDIRECTS_def)
  then show ?thesis by (rule feed_names_bounded)
qed

lemma unique_local_address: "ip_address (strip ''fd00::1'') = Some (V6 [0xfd00, 0, 0, 0, 0, 0, 0, 1] None)"
proof -
  have parts: "split_on (CHR '':'') ''fd00::1'' = [''fd00'', [], ''1'']" "strip ''fd00::1'' = ''fd00::1''"
    "ipv4_octets ''fd00::1'' = None" "partition_on (CHR ''%'') ''fd00::1'' = (''fd00::1'', None)" by code_simp+
  have "hextet_value ''fd00'' = Some 0xfd00" "hextet_value ''1'' = Some 1"
    by (simp_all add: hextet_value_def hex_num_def hex_val_def is_hexdigit_def is_hex_def Let_def)
  moreover have "replicate 6 0 = [0, 0, 0, 0, 0, 0 :: nat]" "filter (\<lambda>i. [''fd00'', [], ''1''] ! i = []) [1..<2] = [1]"
    by code_simp+
  ultimately have "ipv6_hextets ''fd00::1'' = Some [0xfd00, 0, 0, 0, 0, 0, 0, 1]"
    by (simp add: ipv6_hextets_def parts expand_dotted_def skipped_hextets_def fill_gap_def)
  then show ?thesis by (simp add: ip_address_def ipv6_parse_def parts)
qed

theorem blocked_ranges_witness: "ip_in_blocked_range ''127.0.0.1'' \<and> ip_in_blocked_range ''fd00::1''"
proof -
  have "ip_address (strip ''127.0.0.1'') = Some (V4 [127, 0, 0, 1])" by code_simp
  moreover have "covered_v6 [0xfd00, 0, 0, 0, 0, 0, 0, 1]" by (simp add: covered_v6_def)
  ultimately show ?thesis
    using blocked_ranges [of "''127.0.0.1''" 127 0 0 1 "[]" None]
      blocked_ranges [of "''fd00::1''" 0 0 0 0 "[0xfd00, 0, 0, 0, 0, 0, 0, 1]" None] unique_local_address by blast
qed

definition ex_transport :: broker_transport where
  "ex_transport = \<lparr>bt_socket_path = ''/s'', bt_route = ''feed'', bt_timeout_seconds = 15, bt_max_bytes = 4096, bt_source_id = Some ''a''\<rparr>"

definition ex_fetch :: fetch_request where
  "ex_fetch = \<lparr>fr_url = ex_url, fr_headers = [(''Accept'', ''*/*''), (''Cookie'', ''c'')], fr_timeout_seconds = PInt 20,
     fr_max_response_bytes = PInt 8192\<rparr>"

lemma ex_built: "build_envelope ex_lib ex_transport ex_fetch ''2026-01-01T00:00:00Z'' = Inr ex_request"
proof -
  have "client_number (PInt 20) = Inr 20" "client_integer (PInt 8192) = Inr 8192"
    by (simp_all add: client_integer_def client_number_def finite_number_def float_limit_def)
  moreover have "derive_request_id ex_lib s r u a [] = Inr (replicate 64 (CHR ''a''))" for s r u a
    by (simp add: derive_request_id_def Let_def dict_update_def request_seed_def ex_lib_def del: json_dumps.simps)
  moreover have "filter_allowed_headers [(''Accept'', ''*/*''), (''Cookie'', ''c'')] = [(''Accept'', ''*/*'')]" by code_simp
  ultimately show ?thesis by (simp add: build_envelope_def ex_transport_def ex_fetch_def ex_request_def)
qed

lemma delivered_bytes: "delivered s (map (\<lambda>c. Chunk [c]) s)"
  by (induction s) (auto simp: delivered_def)


theorem encoded_body_refused_witness:
  "receive_all 524288 (map (\<lambda>c. Chunk [c]) (build_http_response 200 (serialise_response ex_lib
     (ex_response\<lparr>rs_body := replicate 524288 (CHR ''x'')\<rparr>)) [])) [] = Inl BrokerProtocolMismatch"
  by (rule encoded_body_refused [OF _ _ delivered_bytes]) simp_all

theorem container_sealed_witness:
  "broker_transport_factory (\<lambda>p. p = ''/s'') RSS ''a'' [(''NEWS_CONTAINER_MODE'', ''1''), (''NEWS_BROKER_FEED_SOCKET'', ''/s'')]
     (PFloat (Finite 15)) (PInt 4096) = Inr ex_transport \<and> bt_route ex_transport \<in> set ALLOWED_ROUTES"
proof -
  let ?env = "[(''NEWS_CONTAINER_MODE'', ''1''), (''NEWS_BROKER_FEED_SOCKET'', ''/s'')]"
  have "socket_path_for_route ''feed'' ?env = Inr ''/s''"
    by (simp add: socket_path_for_route_def socket_var_def ALLOWED_ROUTES_def starts_with_def)
  then have f: "broker_transport_factory (\<lambda>p. p = ''/s'') RSS ''a'' ?env (PFloat (Finite 15)) (PInt 4096) = Inr ex_transport"
    by (simp add: broker_transport_factory_def config_for_source_def route_for_source_def client_number_def client_integer_def
        finite_number_def float_limit_def ex_transport_def)
  with container_sealed [OF disjI1 [OF f]] show ?thesis by blast
qed

theorem start_hardened_witness:
  "\<exists>adm. serve ex_net ex_lib (\<lambda>c. Works) 0 0 True (Toml (PDict ex_document))
       \<lparr>sa_route = ''feed'', sa_socket = ''/s'', sa_user = Some ''5'', sa_group = Some ''6''\<rparr> =
     ([SetGid 6, SetUid 5, Unlink ''/s'', NewSocket, Bind ''/s'', Chmod ''/s'' 432, Listen MAX_ACTIVE_CONNECTIONS], Inr (ex_policy, adm)) \<and>
     policy_ok ex_net ex_policy \<and> ad_permits adm \<le> 16"
proof -
  have ids: "numeric_id (Some ''5'') 0 = Inr 5" "numeric_id (Some ''6'') 0 = Inr 6" by code_simp+
  let ?args = "\<lparr>sa_route = ''feed'', sa_socket = ''/s'', sa_user = Some ''5'', sa_group = Some ''6''\<rparr>"
  have s: "serve ex_net ex_lib (\<lambda>c. Works) 0 0 True (Toml (PDict ex_document)) ?args =
     ([SetGid 6, SetUid 5, Unlink ''/s'', NewSocket, Bind ''/s'', Chmod ''/s'' 432, Listen MAX_ACTIVE_CONNECTIONS],
      Inr (ex_policy, set_admission_limit (max_concurrency (pol_common ex_policy))))"
    by (simp add: serve_def load_policy_def ex_policy_loads maybe_drop_privileges_def ids bind_socket_def call_result_def)
  with start_hardened [OF s] show ?thesis by blast
qed

end
