(* ===== verification/CanaryPaths.thy ===== *)
theory CanaryPaths
  imports PyValues "HOL-Library.Sublist"
begin

text \<open>
  The path checks of \<open>news_container/worker.py\<close> (\<open>assert_path_within_canary\<close>,
  \<open>assert_canary_mode\<close>). A \<open>pathlib\<close> path is its root (empty, one or two slashes) and its parts,
  which are never empty or a single dot. What the file system says (symbolic links, real paths)
  is a parameter; a real path is absolute and given by its parts.
\<close>

section \<open>Paths\<close>

datatype path = Path (path_root: string) (path_parts: "string list")

text \<open>\<open>str(path)\<close>.\<close>

definition path_str :: "path \<Rightarrow> string" where
  "path_str p = (if path_root p = [] \<and> path_parts p = [] then ''.'' else path_root p @ join ''/'' (path_parts p))"

text \<open>The loop of \<open>os.path.normpath\<close> over the components of a path.\<close>

definition norm_step :: "bool \<Rightarrow> string list \<Rightarrow> string \<Rightarrow> string list" where
  "norm_step absolute comps c =
     (if c \<noteq> ''..'' \<or> \<not> absolute \<and> comps = [] \<or> comps \<noteq> [] \<and> last comps = ''..'' then comps @ [c]
      else if comps \<noteq> [] then butlast comps else comps)"

definition normpath :: "path \<Rightarrow> path" where
  "normpath p = Path (path_root p) (foldl (norm_step (path_root p \<noteq> [])) [] (path_parts p))"

text \<open>\<open>path.parents\<close>, the nearest first.\<close>

definition parents :: "path \<Rightarrow> path list" where
  "parents p = map (\<lambda>n. Path (path_root p) (take n (path_parts p))) (rev [0..<length (path_parts p)])"

record file_system =
  is_symlink :: "path \<Rightarrow> bool"
  realpath :: "path \<Rightarrow> string list"

section \<open>The checks\<close>

abbreviation PathEscapeError :: exn where
  "PathEscapeError \<equiv> OtherError ''PathEscapeError''"

abbreviation SymlinkForbiddenError :: exn where
  "SymlinkForbiddenError \<equiv> OtherError ''SymlinkForbiddenError''"

definition assert_path_within_canary :: "file_system \<Rightarrow> path \<Rightarrow> path option \<Rightarrow> path result" where
  "assert_path_within_canary fs p canary_root =
     (if p \<noteq> normpath p then Inl PathEscapeError
      else if list_ex (is_symlink fs) (filter (\<lambda>parent. parent \<noteq> p) (parents p)) then Inl SymlinkForbiddenError
      else if is_symlink fs p then Inl SymlinkForbiddenError
      else (case canary_root of None \<Rightarrow> Inr p
        | Some base \<Rightarrow>
            if base \<noteq> normpath base then Inl PathEscapeError
            else if is_symlink fs base then Inl SymlinkForbiddenError
            else let real_path = realpath fs p; real_root = realpath fs base in
              if longest_common_prefix real_path real_root \<noteq> real_root then Inl PathEscapeError
              else Inr p))"

definition assert_canary_mode :: "file_system \<Rightarrow> bool \<Rightarrow> path option \<Rightarrow> path option result" where
  "assert_canary_mode fs enabled canary_root =
     (if \<not> enabled then Inr canary_root
      else (case canary_root of None \<Rightarrow> Inl PathEscapeError
        | Some base \<Rightarrow> bind_result (assert_path_within_canary fs base None) (\<lambda>p. Inr (Some p))))"

section \<open>What the lexical check lets through\<close>

abbreviation dots :: string where
  "dots \<equiv> ''..''"

lemma norm_plain: "dots \<notin> set ps \<Longrightarrow> foldl (norm_step a) comps ps = comps @ ps"
  by (induction ps arbitrary: comps) (auto simp: norm_step_def)

lemma norm_absolute: "dots \<notin> set comps \<Longrightarrow> dots \<notin> set (foldl (norm_step True) comps ps)"
proof (induction ps arbitrary: comps)
  case (Cons c ps)
  have "dots \<notin> set (norm_step True comps c)"
    using Cons.prems by (cases comps rule: rev_cases) (auto simp: norm_step_def)
  then show ?case using Cons.IH by simp
qed simp

lemma norm_dots: "foldl (norm_step False) (replicate n dots) (replicate m dots) = replicate (n + m) dots"
proof (induction m arbitrary: n)
  case (Suc m)
  have "norm_step False (replicate n dots) dots = replicate (Suc n) dots"
    by (cases n) (auto simp: norm_step_def replicate_append_same)
  then show ?case using Suc.IH [of "Suc n"] by simp
qed simp

lemma norm_relative:
  assumes "\<exists>n rest. comps = replicate n dots @ rest \<and> dots \<notin> set rest"
  shows "\<exists>n rest. foldl (norm_step False) comps ps = replicate n dots @ rest \<and> dots \<notin> set rest"
  using assms
proof (induction ps arbitrary: comps)
  case (Cons c ps)
  then obtain n rest where c: "comps = replicate n dots @ rest" "dots \<notin> set rest" by blast
  have "\<exists>n rest. norm_step False comps c = replicate n dots @ rest \<and> dots \<notin> set rest"
  proof (cases "c = dots")
    case False
    then show ?thesis using c by (intro exI [of _ n] exI [of _ "rest @ [c]"]) (simp add: norm_step_def)
  next
    case True
    show ?thesis
    proof (cases rest rule: rev_cases)
      case Nil
      then have "norm_step False comps c = replicate (Suc n) dots"
        using c True by (cases n) (auto simp: norm_step_def replicate_append_same)
      then show ?thesis by (intro exI [of _ "Suc n"] exI [of _ "[]"]) simp
    next
      case (snoc ys y)
      then show ?thesis using c True
        by (intro exI [of _ n] exI [of _ ys]) (auto simp: norm_step_def butlast_append)
    qed
  qed
  then show ?case using Cons.IH by simp
qed simp

lemma lexically_normal:
  "p = normpath p \<longleftrightarrow> dots \<notin> set (path_parts p) \<or>
     path_root p = [] \<and> (\<exists>n rest. path_parts p = replicate n dots @ rest \<and> dots \<notin> set rest)"
proof (cases "path_root p = []")
  case True
  have "foldl (norm_step False) [] (replicate n dots @ rest) = replicate n dots @ rest" if "dots \<notin> set rest" for n rest
    using norm_dots [of 0 n] norm_plain [OF that] by simp
  moreover have "\<exists>n rest. foldl (norm_step False) [] ps = replicate n dots @ rest \<and> dots \<notin> set rest" for ps
    by (rule norm_relative) (intro exI [of _ 0] exI [of _ "[]"], simp)
  moreover have "\<exists>n rest. ps = replicate n dots @ rest \<and> dots \<notin> set rest" if "dots \<notin> set ps" for ps
    using that by (intro exI [of _ 0] exI [of _ ps]) simp
  ultimately have "path_parts p = foldl (norm_step False) [] (path_parts p) \<longleftrightarrow>
      (\<exists>n rest. path_parts p = replicate n dots @ rest \<and> dots \<notin> set rest)" by metis
  then show ?thesis using True norm_plain [of "path_parts p" False "[]"]
    by (cases p) (auto simp: normpath_def)
next
  case False
  then show ?thesis
    using norm_plain [of "path_parts p" True "[]"] norm_absolute [of "[]" "path_parts p"]
    by (cases p) (auto simp: normpath_def)
qed

text \<open>
  Without a canary root, the path check accepts exactly the paths without symbolic links
  whose \<open>..\<close> segments, if any, all stand at the start of a relative path: such a path leaves its
  directory and is accepted all the same.
\<close>

theorem lexical_check_exact:
  "assert_path_within_canary fs p None = Inr p \<longleftrightarrow>
     (''..'' \<notin> set (path_parts p) \<or>
      path_root p = [] \<and> (\<exists>n rest. path_parts p = replicate n ''..'' @ rest \<and> ''..'' \<notin> set rest)) \<and>
     \<not> is_symlink fs p \<and> \<not> list_ex (is_symlink fs) (parents p)"
proof -
  have "filter (\<lambda>parent. parent \<noteq> p) (parents p) = parents p"
    by (cases p) (auto simp: parents_def filter_id_conv)
  then have "assert_path_within_canary fs p None = Inr p \<longleftrightarrow>
      p = normpath p \<and> \<not> is_symlink fs p \<and> \<not> list_ex (is_symlink fs) (parents p)"
    by (auto simp: assert_path_within_canary_def)
  then show ?thesis using lexically_normal [of p] by blast
qed

lemma common_prefix_all: "longest_common_prefix xs ys = ys \<longleftrightarrow> prefix ys xs"
  by (metis longest_common_prefix_max_prefix longest_common_prefix_prefix1 longest_common_prefix_prefix2
      prefix_order.antisym prefix_order.refl)

text \<open>
  C31: With a canary root, an accepted path resolves to a place beneath the resolved root, and
  neither it nor any directory above it is a symbolic link.
\<close>

theorem canary_containment:
  assumes "assert_path_within_canary fs p (Some base) = Inr q"
  shows "q = p \<and> prefix (realpath fs base) (realpath fs p) \<and>
    \<not> is_symlink fs p \<and> \<not> list_ex (is_symlink fs) (parents p) \<and> \<not> is_symlink fs base"
proof -
  have "filter (\<lambda>parent. parent \<noteq> p) (parents p) = parents p"
    by (cases p) (auto simp: parents_def filter_id_conv)
  then show ?thesis
    using assms by (auto simp: assert_path_within_canary_def common_prefix_all Let_def split: if_splits)
qed

definition plain_fs :: file_system where
  "plain_fs = \<lparr>is_symlink = (\<lambda>p. False), realpath = path_parts\<rparr>"

theorem canary_containment_witness:
  "prefix [''srv'', ''canary''] [''srv'', ''canary'', ''db'']"
proof -
  have "assert_path_within_canary plain_fs (Path ''/'' [''srv'', ''canary'', ''db'']) (Some (Path ''/'' [''srv'', ''canary''])) =
      Inr (Path ''/'' [''srv'', ''canary'', ''db''])"
    by (simp add: assert_path_within_canary_def normpath_def norm_step_def plain_fs_def list_ex_iff)
  from canary_containment [OF this] show ?thesis by (simp add: plain_fs_def)
qed

end
