(* ===== verification/Worker.thy ===== *)
theory Worker
  imports CanaryPaths ControlProperties
begin

text \<open>
  \<open>news_container/worker.py\<close>: the role worker. It selects a task of its kind, claims it under a
  per-kind file lock, runs the pipeline command for it (or the in-process \<open>validate\<close> checks) and
  writes the outcome back, while other processes work on the same control store.

  Everything other processes do between two steps of the worker is a list of control-store
  operations; clock readings, lock outcomes and the result of a command are part of the worker's
  environment.
\<close>

section \<open>Command lines\<close>

record dispatch_context =
  dc_db_path :: string
  dc_artifact_root :: string
  dc_task_id :: string
  dc_due_slot_utc :: string
  dc_payload :: pyval
  dc_control_db :: "string option"
  dc_owner :: "string option"
  dc_generation :: "int option"

text \<open>\<open>payload.get(key)\<close>; a payload that is not an object has no \<open>get\<close>.\<close>

definition payload_get :: "pyval \<Rightarrow> string \<Rightarrow> pyval result" where
  "payload_get payload key =
     (case payload of PDict d \<Rightarrow> Inr (case map_of d key of None \<Rightarrow> PNone | Some v \<Rightarrow> v)
      | _ \<Rightarrow> Inl (OtherError ''AttributeError''))"

definition require_payload :: "dispatch_context \<Rightarrow> string \<Rightarrow> string result" where
  "require_payload ctx key =
     bind_result (payload_get (dc_payload ctx) key) (\<lambda>v.
       case v of PStr s \<Rightarrow> if s = [] then Inl ValueError else Inr s | _ \<Rightarrow> Inl ValueError)"

text \<open>An optional text field: absent (or null), or a non-empty string.\<close>

definition optional_payload :: "dispatch_context \<Rightarrow> string \<Rightarrow> string option result" where
  "optional_payload ctx key =
     bind_result (payload_get (dc_payload ctx) key) (\<lambda>v.
       case v of PNone \<Rightarrow> Inr None | PStr s \<Rightarrow> if s = [] then Inl ValueError else Inr (Some s) | _ \<Rightarrow> Inl ValueError)"

text \<open>\<open>argv[i:i] = xs\<close> at the first position of \<open>key\<close>.\<close>

definition insert_at_first :: "string \<Rightarrow> string list \<Rightarrow> string list \<Rightarrow> string list" where
  "insert_at_first key xs argv = takeWhile (\<lambda>a. a \<noteq> key) argv @ xs @ dropWhile (\<lambda>a. a \<noteq> key) argv"

definition ingest_argv :: "dispatch_context \<Rightarrow> string list result" where
  "ingest_argv ctx =
     bind_result (require_payload ctx ''sources'') (\<lambda>sources.
     bind_result (require_payload ctx ''topics'') (\<lambda>topics.
     bind_result (require_payload ctx ''policy'') (\<lambda>policy.
     bind_result (optional_payload ctx ''provenance'') (\<lambda>provenance.
       let argv = [''tick'', ''--db'', dc_db_path ctx, ''--sources'', sources, ''--topics'', topics,
             ''--policy'', policy, ''--run-started-at'', dc_due_slot_utc ctx, ''--enable-network''];
           argv = (case provenance of None \<Rightarrow> argv
             | Some p \<Rightarrow> insert_at_first ''--run-started-at'' [''--provenance'', p] argv) in
       Inr (argv @ (case dc_control_db ctx of None \<Rightarrow> [] | Some p \<Rightarrow> [''--control-db'', p]))))))"

text \<open>\<open>int(v)\<close>.\<close>

definition py_int_of :: "pyval \<Rightarrow> int result" where
  "py_int_of v =
     (case v of PInt i \<Rightarrow> Inr i
      | PBool b \<Rightarrow> Inr (if b then 1 else 0)
      | PFloat f \<Rightarrow>
          (case f of Finite q \<Rightarrow> Inr (if q < 0 then - floor (- q) else floor q) | NegZero \<Rightarrow> Inr 0
           | Infinity _ \<Rightarrow> Inl OverflowError | NotANumber \<Rightarrow> Inl ValueError)
      | PStr s \<Rightarrow> py_int s
      | _ \<Rightarrow> Inl TypeError)"

definition process_argv :: "dispatch_context \<Rightarrow> string list result" where
  "process_argv ctx =
     bind_result (case dc_payload ctx of PDict d \<Rightarrow> py_int_of (case map_of d ''max_items'' of None \<Rightarrow> PInt 500 | Some v \<Rightarrow> v)
                  | _ \<Rightarrow> Inl (OtherError ''AttributeError'')) (\<lambda>max_items.
     bind_result (optional_payload ctx ''history_db'') (\<lambda>history_db.
     bind_result (payload_get (dc_payload ctx) ''sources'') (\<lambda>sources.
     bind_result (payload_get (dc_payload ctx) ''topics'') (\<lambda>topics.
     bind_result (payload_get (dc_payload ctx) ''policy'') (\<lambda>policy.
       let argv = [''process'', ''--db'', dc_db_path ctx, ''--evaluated-at'', dc_due_slot_utc ctx,
             ''--max-items'', show_int max_items, ''--enable-network''] @
             (case history_db of None \<Rightarrow> [] | Some h \<Rightarrow> [''--history-db'', h]) in
       if sources = PNone \<and> topics = PNone \<and> policy = PNone then Inr argv
       else (case (sources, topics, policy) of
           (PStr s, PStr t, PStr p) \<Rightarrow>
             if s = [] \<or> t = [] \<or> p = [] then Inl ValueError
             else Inr (argv @ [''--sources'', s, ''--topics'', t, ''--policy'', p])
         | _ \<Rightarrow> Inl ValueError))))))"

definition investigate_argv :: "pylib \<Rightarrow> dispatch_context \<Rightarrow> string list result" where
  "investigate_argv L ctx =
     (case dc_payload ctx of PDict d \<Rightarrow>
        bind_result (validate_investigation_payload L d) (\<lambda>_.
        bind_result (case map_of d ''round_number'' of None \<Rightarrow> Inr 0
                     | Some (PInt i) \<Rightarrow> if 0 \<le> i \<and> i < 2 then Inr i else Inl ValueError
                     | _ \<Rightarrow> Inl ValueError) (\<lambda>round_number.
        bind_result (require_payload ctx ''candidate_id'') (\<lambda>candidate.
        bind_result (require_payload ctx ''feed_lane_id'') (\<lambda>lane.
        bind_result (require_payload ctx ''query_plan_id'') (\<lambda>plan.
        bind_result (require_payload ctx ''investigation_id'') (\<lambda>inv.
        bind_result (require_payload ctx ''category'') (\<lambda>category.
          let argv = [''investigate'', ''--db'', dc_db_path ctx, ''--candidate-id'', candidate,
                ''--feed-lane-id'', lane, ''--query-plan-id'', plan, ''--investigation-id'', inv,
                ''--category'', category, ''--round-number'', show_int round_number,
                ''--evaluated-at'', dc_due_slot_utc ctx, ''--enable-network''] in
          case (dc_control_db ctx, dc_owner ctx, dc_generation ctx) of
            (None, None, None) \<Rightarrow> Inr argv
          | (Some c, Some ow, Some g) \<Rightarrow>
              Inr (argv @ [''--control-db'', c, ''--control-task-id'', dc_task_id ctx,
                ''--control-owner'', ow, ''--control-generation'', show_int g])
          | _ \<Rightarrow> Inl ValueError)))))))
      | _ \<Rightarrow> Inl ValueError)"

definition report_argv :: "dispatch_context \<Rightarrow> string list result" where
  "report_argv ctx =
     bind_result (payload_get (dc_payload ctx) ''enable_live_delivery'') (\<lambda>live.
       if truthy live then Inl DeliveryForbiddenError
       else bind_result (payload_get (dc_payload ctx) ''prior_upper_utc'') (\<lambda>prior.
         let argv = [''daily-report'', ''--db'', dc_db_path ctx, ''--artifact-root'', dc_artifact_root ctx,
               ''--as-of-utc'', dc_due_slot_utc ctx] in
         Inr (case prior of PStr p \<Rightarrow> if p = [] then argv else argv @ [''--prior-upper-utc'', p] | _ \<Rightarrow> argv)))"

definition argv_builder :: "pylib \<Rightarrow> string \<Rightarrow> dispatch_context \<Rightarrow> string list result" where
  "argv_builder L kind ctx =
     (if kind = ''ingest'' then ingest_argv ctx
      else if kind = ''investigate'' then investigate_argv L ctx
      else if kind = ''process'' then process_argv ctx
      else if kind = ''report'' then report_argv ctx
      else if kind = ''validate'' then Inl (OtherError ''AssertionError'')
      else Inl KeyError)"

section \<open>Running a command\<close>

definition MAX_STDOUT_BYTES :: nat where
  "MAX_STDOUT_BYTES = 64 * 1024"

text \<open>\<open>s.encode("utf-8")\<close> for code points below 256.\<close>

definition utf8 :: "string \<Rightarrow> string" where
  "utf8 s = concat (map (\<lambda>c. let n = (of_char c :: nat) in
     if n < 128 then [c] else [char_of (192 + n div 64), char_of (128 + n mod 64)]) s)"

text \<open>\<open>_BoundedTextCapture.write\<close> on its buffer.\<close>

definition capture_write :: "nat \<Rightarrow> string \<Rightarrow> string \<Rightarrow> string" where
  "capture_write limit buf s = buf @ take (limit - length buf) (utf8 s)"

definition captured :: "string list \<Rightarrow> string" where
  "captured writes = foldl (capture_write MAX_STDOUT_BYTES) [] writes"

text \<open>
  What a call of \<open>jobs.main\<close> does: the texts it writes and how it ends. \<open>hash_stdout\<close>
  (SHA-256 of bytes) and the lenient UTF-8 decoding are parameters.
\<close>

datatype jobs_end = JobsReturn int | JobsSystemExit "int option" | JobsRaise string string

record jobs_run =
  jr_stdout :: "string list"
  jr_stderr :: "string list"
  jr_end :: jobs_end

record runtime =
  rt_hash_stdout :: "string \<Rightarrow> string"
  rt_decode_replace :: "string \<Rightarrow> string"
  rt_exc_str :: "exn \<Rightarrow> string"

record dispatch_result =
  d_exit_code :: int
  d_stdout_bytes :: nat
  d_stdout_hash :: string
  d_status :: string
  d_error_class :: "string option"
  d_error_message :: "string option"

definition RUNTIME_ERROR_MAP :: "string list" where
  "RUNTIME_ERROR_MAP = [''RuntimeError'', ''ValueError'', ''TimeoutError'', ''FileNotFoundError'', ''PermissionError'',
     ''OSError'', ''sqlite3.OperationalError'', ''sqlite3.DatabaseError'', ''sqlite3.IntegrityError'']"

definition classify_runtime_error :: "string \<Rightarrow> string" where
  "classify_runtime_error stderr =
     (case filter (\<lambda>needle. contains needle stderr) RUNTIME_ERROR_MAP of [] \<Rightarrow> ''RuntimeError'' | k # _ \<Rightarrow> k)"

definition LIVE_DELIVERY_FLAG :: string where
  "LIVE_DELIVERY_FLAG = ''--enable-live-delivery''"

definition dispatch :: "runtime \<Rightarrow> (string list \<Rightarrow> jobs_run) \<Rightarrow> string list \<Rightarrow> dispatch_result result" where
  "dispatch R jobs_main argv =
     (if LIVE_DELIVERY_FLAG \<in> set argv then Inl DeliveryForbiddenError
      else let run = jobs_main argv; stdout = captured (jr_stdout run);
          finish = (\<lambda>exit_code.
            if exit_code = 0 then
              \<lparr>d_exit_code = 0, d_stdout_bytes = length stdout, d_stdout_hash = rt_hash_stdout R stdout,
               d_status = ''completed'', d_error_class = None, d_error_message = None\<rparr>
            else let stderr = rt_decode_replace R (captured (jr_stderr run)) in
              \<lparr>d_exit_code = exit_code, d_stdout_bytes = length stdout, d_stdout_hash = rt_hash_stdout R stdout,
               d_status = ''failed'', d_error_class = Some (classify_runtime_error stderr),
               d_error_message = sanitize_error_message
                 (Some (if stderr = [] then ''jobs.main exit '' @ show_int exit_code else stderr)) 4096\<rparr>) in
        (case jr_end run of
           JobsReturn code \<Rightarrow> Inr (finish code)
         | JobsSystemExit (Some code) \<Rightarrow> Inr (finish code)
         | JobsSystemExit None \<Rightarrow> Inr (finish 1)
         | JobsRaise cls msg \<Rightarrow>
             Inr \<lparr>d_exit_code = 1, d_stdout_bytes = length stdout, d_stdout_hash = rt_hash_stdout R stdout,
               d_status = ''failed'', d_error_class = sanitize_error_class (Some cls),
               d_error_message = sanitize_error_message (Some msg) 4096\<rparr>))"

section \<open>The validate kind\<close>

text \<open>
  \<open>health\<close> is \<open>news_health.health_snapshot\<close>: the snapshot of the state database, or the class
  and the text of the exception it raised.
\<close>

type_synonym health_reader = "string \<Rightarrow> (string \<times> string) + pydict"

definition unavailable_health :: "string \<Rightarrow> pydict" where
  "unavailable_health err =
     [(''schema_v6'', PBool False), (''integrity'', PStr ''unavailable''), (''ready'', PBool False),
      (''error'', PStr err), (''report_delivery_attempts'', PInt 0), (''unresolved_delivery_attempts'', PInt 0)]"

definition dict_get :: "pydict \<Rightarrow> string \<Rightarrow> pyval \<Rightarrow> pyval" where
  "dict_get d k v = (case map_of d k of None \<Rightarrow> v | Some w \<Rightarrow> w)"

definition read_state_health :: "health_reader \<Rightarrow> string option \<Rightarrow> pydict result" where
  "read_state_health health state_db =
     (case state_db of None \<Rightarrow> Inr (unavailable_health ''state_db_not_provided'')
      | Some p \<Rightarrow>
          (case health p of Inl (cls, msg) \<Rightarrow> Inr (unavailable_health (cls @ '':'' @ msg))
           | Inr snapshot \<Rightarrow>
               bind_result (case dict_get snapshot ''counts'' PNone of
                     PDict counts \<Rightarrow> py_int_of (dict_get counts ''report_delivery_attempts'' (PInt 0))
                   | v \<Rightarrow> if truthy v then Inl (OtherError ''AttributeError'') else Inr 0) (\<lambda>attempts.
               bind_result (py_int_of (dict_get snapshot ''unresolved_delivery_attempts'' (PInt 0))) (\<lambda>unresolved.
                 Inr [(''schema_v6'', PBool (truthy (dict_get snapshot ''schema_v6'' PNone))),
                   (''integrity'', dict_get snapshot ''integrity'' (PStr ''unavailable'')),
                   (''foreign_key_errors'', dict_get snapshot ''foreign_key_errors'' (PList [])),
                   (''ready'', PBool (truthy (dict_get snapshot ''ready'' PNone))),
                   (''schema_versions'', dict_get snapshot ''schema_versions'' (PList [])),
                   (''report_delivery_attempts'', PInt attempts),
                   (''unresolved_delivery_attempts'', PInt unresolved),
                   (''schema_error'', dict_get snapshot ''schema_error'' PNone),
                   (''error'', dict_get snapshot ''error'' PNone)]))))"

definition py_or :: "pyval \<Rightarrow> pyval \<Rightarrow> pyval" where
  "py_or a b = (if truthy a then a else b)"

text \<open>Why a state database is refused.\<close>

definition health_reason :: "pylib \<Rightarrow> pydict \<Rightarrow> string" where
  "health_reason L h =
     (if \<not> truthy (dict_get h ''schema_v6'' PNone) then
        py_str L (py_or (dict_get h ''schema_error'' PNone)
          (py_or (dict_get h ''error'' PNone) (PStr ''state DB is not schema v6'')))
      else let reasons =
          (if dict_get h ''integrity'' PNone \<noteq> PStr ''ok'' then [''integrity check failed''] else []) @
          (if truthy (dict_get h ''foreign_key_errors'' PNone) then [''foreign-key check failed''] else []) @
          (if truthy (dict_get h ''unresolved_delivery_attempts'' (PInt 0)) then [''unresolved delivery attempts present''] else [])
        in if join ''; '' reasons = [] then ''state DB health check failed'' else join ''; '' reasons)"

definition failed_result :: "runtime \<Rightarrow> int \<Rightarrow> string \<Rightarrow> string option \<Rightarrow> string option \<Rightarrow> dispatch_result" where
  "failed_result R code out cls msg =
     \<lparr>d_exit_code = code, d_stdout_bytes = length out, d_stdout_hash = rt_hash_stdout R out, d_status = ''failed'',
      d_error_class = cls, d_error_message = msg\<rparr>"

text \<open>\<open>integrity\<close> and \<open>fk\<close> are what the two PRAGMAs of SQLite return.\<close>

definition run_validate ::
  "pylib \<Rightarrow> runtime \<Rightarrow> health_reader \<Rightarrow> string list result \<Rightarrow> (string \<times> int option \<times> string \<times> int) list \<Rightarrow>
     string option \<Rightarrow> control_db \<Rightarrow> dispatch_result result" where
  "run_validate L R health integrity fk state_db db =
     (case bind_result integrity (\<lambda>integrity. bind_result (foreign_key_check fk) (\<lambda>rows. Inr (integrity, rows))) of
        Inl e \<Rightarrow> Inr (failed_result R 1 [] (Some (exn_name e)) (sanitize_error_message (Some (rt_exc_str R e)) 4096))
      | Inr (integrity, fk_rows) \<Rightarrow>
          let ver = schema_version db; (delivery_count, delivery_kinds) = zero_delivery_check db;
              fk_json = map (\<lambda>(n, rowid, parent). [PInt n, PStr rowid, PStr parent]) fk_rows in
          bind_result (read_state_health health state_db) (\<lambda>h.
            let payload = utf8 (json_dumps L (PDict
                  [(''integrity'', PList (map PStr integrity)), (''foreign_key_violations'', PList (map PList fk_json)),
                   (''schema_version'', PInt ver), (''delivery_count'', PInt (int delivery_count)),
                   (''delivery_kinds'', PList (map PStr delivery_kinds)),
                   (''state_db'', (case state_db of None \<Rightarrow> PNone | Some p \<Rightarrow> PStr p)), (''state_health'', PDict h)])) in
            Inr (if integrity \<noteq> [''ok''] then
                failed_result R 1 payload (Some ''sqlite3.DatabaseError'')
                  (Some (''integrity_check reported '' @ container_str L (PList (map PStr integrity))))
              else if fk_rows \<noteq> [] then
                failed_result R 1 payload (Some ''sqlite3.IntegrityError'')
                  (Some (''foreign_key_check reported '' @ container_str L (PList (map PTuple fk_json))))
              else if delivery_count \<noteq> 0 then
                failed_result R 1 payload (Some ''DeliveryForbiddenError'')
                  (Some (''zero-delivery check failed: found '' @ container_str L (PList (map PStr delivery_kinds))))
              else if \<not> truthy (dict_get h ''schema_v6'' PNone) \<or> \<not> truthy (dict_get h ''ready'' PNone) then
                failed_result R 1 payload (Some ''sqlite3.DatabaseError'')
                  (Some (''state DB failed v6 check: '' @ health_reason L h))
              else \<lparr>d_exit_code = 0, d_stdout_bytes = length payload, d_stdout_hash = rt_hash_stdout R payload,
                d_status = ''completed'', d_error_class = None, d_error_message = None\<rparr>)))"

section \<open>The worker\<close>

record worker_config =
  w_kind :: string
  w_control_db :: path
  w_state_db :: path
  w_artifact_root :: path
  w_lock_path :: path
  w_owner :: string
  w_claim_ttl_seconds :: int
  w_canary_root :: "path option"
  w_max_iterations :: int
  w_lease_renew_seconds :: int

text \<open>\<open>_unique_owner\<close> and the counter behind it.\<close>

definition unique_owner :: "string \<Rightarrow> int \<Rightarrow> int \<Rightarrow> string" where
  "unique_owner role pid n = role @ ''@'' @ show_int pid @ ''#'' @ show_int n"

definition counter_next :: "int \<Rightarrow> int \<times> int" where
  "counter_next n = (n + 1, n + 1)"

record worker_outcome =
  wo_processed :: int
  wo_failed :: int
  wo_fence_lost :: int

definition had_failures :: "worker_outcome \<Rightarrow> bool" where
  "had_failures w \<longleftrightarrow> wo_failed w \<noteq> 0 \<or> wo_fence_lost w \<noteq> 0"

datatype flock = Acquired | LockContended | LockError exn

text \<open>
  A tick of the lease renewer: what other processes did since the last one, and when it renews
  (\<open>None\<close> if its connection fails).
\<close>

type_synonym renew_tick = "control_op list \<times> instant option"

text \<open>The environment of one iteration of the worker's loop.\<close>

record visit =
  v_before :: "control_op list"
  v_select_at :: instant
  v_flock :: flock
  v_between :: "control_op list"
  v_claim_at :: instant
  v_ticks :: "renew_tick list"
  v_dispatch :: "string list \<Rightarrow> dispatch_result result"
  v_health :: health_reader
  v_integrity :: "string list result"
  v_fk_rows :: "(string \<times> int option \<times> string \<times> int) list"
  v_after :: "control_op list"
  v_complete_at :: instant

text \<open>
  \<open>_LeaseRenewer._run\<close>: it renews until a renewal fails; a lost claim or a failing connection
  sets the fence-lost event, any other exception just ends the thread. Without a renewer
  (\<open>active\<close> false from the start) only the other processes act.
\<close>

fun renewer_run :: "pylib \<Rightarrow> string \<Rightarrow> string \<Rightarrow> int \<Rightarrow> int \<Rightarrow> bool \<Rightarrow> renew_tick list \<Rightarrow> control_db \<Rightarrow> bool \<times> control_db" where
  "renewer_run L tid owner g ttl active [] db = (False, db)"
| "renewer_run L tid owner g ttl active ((ops, renew_at) # ticks) db =
     (let db = run_ops (control_exec L) ops db in
      if \<not> active then renewer_run L tid owner g ttl False ticks db
      else (case renew_at of
          None \<Rightarrow> (True, snd (renewer_run L tid owner g ttl False ticks db))
        | Some now \<Rightarrow>
            (case renew_claim L tid owner g ttl now db of
               (Inr _, db') \<Rightarrow> renewer_run L tid owner g ttl True ticks db'
             | (Inl e, db') \<Rightarrow>
                 (e = ClaimMismatchError, snd (renewer_run L tid owner g ttl False ticks db')))))"

definition select_next :: "string \<Rightarrow> instant \<Rightarrow> control_db \<Rightarrow> task_row option result" where
  "select_next kind now db =
     bind_result (selectable_tasks kind now (Some 1) db) (\<lambda>rows. Inr (case rows of [] \<Rightarrow> None | (t, c) # _ \<Rightarrow> Some t))"

definition task_payload :: "pylib \<Rightarrow> task_row \<Rightarrow> pyval result" where
  "task_payload L t =
     (if t_payload_json t = [] then Inr (PDict [])
      else (case json_loads L (t_payload_json t) of None \<Rightarrow> Inl (OtherError ''JSONDecodeError'') | Some v \<Rightarrow> Inr v))"

text \<open>What the worker runs for a claimed task, exceptions turned into failed results.\<close>

definition task_result ::
  "pylib \<Rightarrow> runtime \<Rightarrow> worker_config \<Rightarrow> string \<Rightarrow> visit \<Rightarrow> task_row \<Rightarrow> pyval \<Rightarrow> int \<Rightarrow> control_db \<Rightarrow> dispatch_result" where
  "task_result L R cfg owner v t payload g db =
     (case (if w_kind cfg = ''validate''
            then run_validate L R (v_health v) (v_integrity v) (v_fk_rows v) (Some (path_str (w_state_db cfg))) db
            else bind_result (argv_builder L (w_kind cfg)
              \<lparr>dc_db_path = path_str (w_state_db cfg), dc_artifact_root = path_str (w_artifact_root cfg),
               dc_task_id = t_task_id t, dc_due_slot_utc = t_due_slot_utc t, dc_payload = payload,
               dc_control_db = Some (path_str (w_control_db cfg)), dc_owner = Some owner, dc_generation = Some g\<rparr>)
              (v_dispatch v)) of
        Inr d \<Rightarrow> d
      | Inl e \<Rightarrow>
          if e = DeliveryForbiddenError
          then failed_result R 2 [] (Some (exn_name e)) (sanitize_error_message (Some (rt_exc_str R e)) 4096)
          else failed_result R 1 [] (sanitize_error_class (Some (exn_name e)))
            (sanitize_error_message (Some (rt_exc_str R e)) 4096))"

definition worker_outcome_of :: "worker_config \<Rightarrow> dispatch_result \<Rightarrow> outcome" where
  "worker_outcome_of cfg d =
     \<lparr>o_exit_code = Some (d_exit_code d), o_stdout_hash = Some (d_stdout_hash d), o_error_class = d_error_class d,
      o_error_message = d_error_message d, o_canary_root = map_option path_str (w_canary_root cfg)\<rparr>"

text \<open>One selected task, from the lock to the recorded outcome; the counters it adds to.\<close>

definition work_task ::
  "pylib \<Rightarrow> runtime \<Rightarrow> worker_config \<Rightarrow> string \<Rightarrow> visit \<Rightarrow> task_row \<Rightarrow> pyval \<Rightarrow> worker_outcome \<Rightarrow>
     (control_db, worker_outcome) tx" where
  "work_task L R cfg owner v t payload cnt db =
     (case v_flock v of
        LockContended \<Rightarrow> (Inr cnt, db)
      | LockError e \<Rightarrow> (Inl e, db)
      | Acquired \<Rightarrow>
          (case claim L (t_task_id t) owner (w_claim_ttl_seconds cfg) (v_claim_at v)
                  (run_ops (control_exec L) (v_between v) db) of
             (Inl e, db1) \<Rightarrow> if is_control_store_error e then (Inr cnt, db1) else (Inl e, db1)
           | (Inr (g, attempt, expires_at), db1) \<Rightarrow>
               let result = task_result L R cfg owner v t payload g db1;
                   (lost, db2) = renewer_run L (t_task_id t) owner g (w_claim_ttl_seconds cfg)
                     (w_lease_renew_seconds cfg > 0) (v_ticks v) db1;
                   db3 = run_ops (control_exec L) (v_after v) db2 in
               if lost then (Inr (cnt\<lparr>wo_fence_lost := wo_fence_lost cnt + 1\<rparr>), db3)
               else (case complete L (t_task_id t) owner g (d_status result) (worker_outcome_of cfg result)
                           (v_complete_at v) db3 of
                   (Inl e, db4) \<Rightarrow>
                     if is_control_store_error e then (Inr (cnt\<lparr>wo_failed := wo_failed cnt + 1\<rparr>), db4) else (Inl e, db4)
                 | (Inr _, db4) \<Rightarrow>
                     (Inr (cnt\<lparr>wo_failed := wo_failed cnt + (if d_status result = ''failed'' then 1 else 0),
                               wo_processed := wo_processed cnt + 1\<rparr>), db4))))"

text \<open>The loop; \<open>None\<close> while it is still running at the end of the given visits.\<close>

fun worker_loop ::
  "pylib \<Rightarrow> runtime \<Rightarrow> worker_config \<Rightarrow> string \<Rightarrow> int \<Rightarrow> worker_outcome \<Rightarrow> visit list \<Rightarrow> control_db \<Rightarrow>
     worker_outcome result option \<times> control_db" where
  "worker_loop L R cfg owner iterations cnt visits db =
     (if w_max_iterations cfg \<noteq> 0 \<and> iterations + 1 > w_max_iterations cfg then (Some (Inr cnt), db)
      else (case visits of [] \<Rightarrow> (None, db)
        | v # visits \<Rightarrow>
            let db = run_ops (control_exec L) (v_before v) db in
            (case select_next (w_kind cfg) (v_select_at v) db of
               Inl e \<Rightarrow> (Some (Inl e), db)
             | Inr None \<Rightarrow>
                 if w_max_iterations cfg \<noteq> 0 then (Some (Inr cnt), db)
                 else worker_loop L R cfg owner (iterations + 1) cnt visits db
             | Inr (Some t) \<Rightarrow>
                 (case task_payload L t of
                    Inl e \<Rightarrow> (Some (Inl e), db)
                  | Inr payload \<Rightarrow>
                      (case work_task L R cfg owner v t payload cnt db of
                         (Inl e, db') \<Rightarrow> (Some (Inl e), db')
                       | (Inr cnt', db') \<Rightarrow> worker_loop L R cfg owner (iterations + 1) cnt' visits db')))))"

declare worker_loop.simps [simp del]

definition run_worker ::
  "pylib \<Rightarrow> runtime \<Rightarrow> file_system \<Rightarrow> (string \<times> string) list \<Rightarrow> worker_config \<Rightarrow> int \<Rightarrow> int \<Rightarrow> visit list \<Rightarrow> control_db \<Rightarrow>
     worker_outcome result option \<times> control_db" where
  "run_worker L R fs env cfg pid n visits db =
     (if w_kind cfg \<notin> set ALLOWED_KINDS then (Some (Inl UnknownKindError), db)
      else (case bind_result (map_result (\<lambda>p. assert_path_within_canary fs p (w_canary_root cfg))
                   [w_control_db cfg, w_state_db cfg, w_artifact_root cfg, w_lock_path cfg])
                   (\<lambda>_. assert_canary_mode fs (w_canary_root cfg \<noteq> None) (w_canary_root cfg)) of
          Inl e \<Rightarrow> (Some (Inl e), db)
        | Inr _ \<Rightarrow>
            if map_of env ''NEWS_CONTAINER_PRODUCTION'' = Some ''1'' then (Some (Inl (OtherError ''RuntimeError'')), db)
            else if list_ex (\<lambda>part. part \<in> {''prod'', ''production''}) (path_parts (w_control_db cfg))
              then (Some (Inl (OtherError ''RuntimeError'')), db)
            else worker_loop L R cfg (unique_owner (w_owner cfg) pid n) 0
                   \<lparr>wo_processed = 0, wo_failed = 0, wo_fence_lost = 0\<rparr> visits db))"

section \<open>The runs an owner has written\<close>

definition owned :: "string \<Rightarrow> control_db \<Rightarrow> run_row list" where
  "owned owner db = filter (\<lambda>r. r_owner r = owner) (db_runs db)"

text \<open>Operations of other processes: they complete nothing in this worker's name.\<close>

fun foreign :: "string \<Rightarrow> control_op \<Rightarrow> bool" where
  "foreign owner (Complete tid owner' g status res now) = (owner' \<noteq> owner)"
| "foreign owner _ = True"

definition visit_foreign :: "string \<Rightarrow> visit \<Rightarrow> bool" where
  "visit_foreign owner v \<longleftrightarrow> list_all (foreign owner) (v_before v @ v_between v @ v_after v) \<and>
     list_all (\<lambda>(ops, renew_at). list_all (foreign owner) ops) (v_ticks v)"

lemma owned_complete:
  assumes "complete L tid owner' g status res now db = (Inr u, db')"
  shows "\<exists>r. owned owner db' = owned owner db @ (if owner' = owner then [r] else []) \<and>
    status_of status = Inr (r_status r)"
  using assms
proof (cases rule: complete_Inr_cases)
  case (1 c expiry st)
  let ?r = "run_entry tid owner' g st res (utc_now_iso now) (db_run_seq db + 1)"
  have "db_runs db' = db_runs db @ [?r]" by (simp add: 1(8) finish_def frame_simps)
  then show ?thesis using 1(1) by (intro exI [of _ ?r]) (simp add: owned_def run_entry_def)
qed

lemma owned_foreign:
  assumes "foreign owner c"
  shows "owned owner (snd (control_exec L c db)) = owned owner db"
proof (rule control_exec_inv_by_success [where P = "\<lambda>s. owned owner s = owned owner db"])
  fix y db' assume ex: "control_exec L c db = (Inr y, db')"
  show "owned owner db' = owned owner db"
  proof (cases c)
    case (Enqueue k slot payload now)
    with ex obtain i created where "enqueue L k slot payload now db = (Inr (i, created), db')"
      by (auto simp: as_result_Inr)
    then show ?thesis by (cases rule: enqueue_Inr_cases) (auto simp: owned_def)
  next
    case (Claim i ow ttl now)
    with ex obtain g a e where "claim L i ow ttl now db = (Inr (g, a, e), db')"
      by (auto simp: as_result_Inr)
    then show ?thesis
      by (cases rule: claim_Inr_cases) (auto simp: owned_def grant_new_def take_over_def frame_simps)
  next
    case (Renew i ow g ttl now)
    with ex obtain e where "renew_claim L i ow g ttl now db = (Inr e, db')"
      by (auto simp: as_result_Inr)
    then show ?thesis by (cases rule: renew_claim_Inr_cases) (auto simp: owned_def frame_simps)
  next
    case (Complete i ow g status res now)
    with ex have "complete L i ow g status res now db = (Inr (), db')"
      by (auto simp: as_result_Inr)
    then show ?thesis using owned_complete [of L i ow g status res now db _ db' owner] assms Complete by auto
  next
    case (Retry i payload)
    with ex have "retry_investigation L i payload db = (Inr (), db')"
      by (auto simp: as_result_Inr)
    then show ?thesis by (cases rule: retry_Inr_cases) (auto simp: owned_def frame_simps)
  qed
qed simp

lemma owned_run_ops: "list_all (foreign owner) ops \<Longrightarrow> owned owner (run_ops (control_exec L) ops db) = owned owner db"
  by (induction ops arbitrary: db) (simp_all add: owned_foreign)

lemma owned_claim: "owned owner (snd (claim L tid ow ttl now db)) = owned owner db"
  using owned_foreign [of owner "Claim tid ow ttl now" L db] by simp

lemma owned_renew: "owned owner (snd (renew_claim L tid ow g ttl now db)) = owned owner db"
  using owned_foreign [of owner "Renew tid ow g ttl now" L db] by simp

lemma owned_renewer:
  assumes "list_all (\<lambda>(ops, renew_at). list_all (foreign owner) ops) ticks"
  shows "owned owner (snd (renewer_run L tid ow g ttl active ticks db)) = owned owner db"
  using assms
proof (induction L tid ow g ttl active ticks db rule: renewer_run.induct)
  case (2 L tid ow g ttl active ops renew_at ticks db)
  let ?db = "run_ops (control_exec L) ops db"
  have o: "owned owner ?db = owned owner db" using 2(5) by (simp add: owned_run_ops)
  have rn: "owned owner db' = owned owner db" if "renew_claim L tid ow g ttl now ?db = (r, db')" for now r db'
    using owned_renew [of owner L tid ow g ttl now ?db] o that by simp
  show ?case
  proof (cases "active \<and> renew_at \<noteq> None")
    case True
    then obtain now r db' where r: "renew_at = Some now" "renew_claim L tid ow g ttl now ?db = (r, db')"
      by (cases "renew_claim L tid ow g ttl (the renew_at) ?db") auto
    then show ?thesis using True 2(3,4,5) rn [OF r(2)] by (cases r) (auto simp: Let_def)
  next
    case False
    then show ?thesis using 2(1,2,5) o by (auto simp: Let_def)
  qed
qed simp

lemma owned_complete_error: "complete L tid ow g st res now db = (Inl e, db') \<Longrightarrow> db' = db"
  using complete_rollback [of L tid ow g st res now db] by simp

section \<open>Truthful counters\<close>

text \<open>
  How a turn with a selected task ended, read off what the environment and the store answered and not off the
  counters: nothing was claimed, the lease was lost while the command ran, the outcome could not be recorded, or it
  was recorded with a status.
\<close>

datatype turn_end = Idle | LeaseLost | NotRecorded | Recorded task_state

definition turn ::
  "pylib \<Rightarrow> runtime \<Rightarrow> worker_config \<Rightarrow> string \<Rightarrow> visit \<Rightarrow> task_row \<Rightarrow> pyval \<Rightarrow> control_db \<Rightarrow> turn_end \<times> control_db" where
  "turn L R cfg owner v t payload db =
     (if v_flock v \<noteq> Acquired then (Idle, db)
      else (case claim L (t_task_id t) owner (w_claim_ttl_seconds cfg) (v_claim_at v)
                  (run_ops (control_exec L) (v_between v) db) of
             (Inl e, db1) \<Rightarrow> (Idle, db1)
           | (Inr (g, attempt, expires_at), db1) \<Rightarrow>
               let result = task_result L R cfg owner v t payload g db1;
                   (lost, db2) = renewer_run L (t_task_id t) owner g (w_claim_ttl_seconds cfg)
                     (w_lease_renew_seconds cfg > 0) (v_ticks v) db1;
                   db3 = run_ops (control_exec L) (v_after v) db2 in
               if lost then (LeaseLost, db3)
               else (case complete L (t_task_id t) owner g (d_status result) (worker_outcome_of cfg result)
                           (v_complete_at v) db3 of
                   (Inl e, db4) \<Rightarrow> (NotRecorded, db4)
                 | (Inr _, db4) \<Rightarrow> (Recorded (if d_status result = ''failed'' then Failed else Completed), db4))))"

text \<open>The ends of the turns of a whole loop, in order.\<close>

fun turn_ends ::
  "pylib \<Rightarrow> runtime \<Rightarrow> worker_config \<Rightarrow> string \<Rightarrow> int \<Rightarrow> visit list \<Rightarrow> control_db \<Rightarrow> turn_end list" where
  "turn_ends L R cfg owner n [] db = []"
| "turn_ends L R cfg owner n (v # visits) db =
     (if w_max_iterations cfg \<noteq> 0 \<and> n + 1 > w_max_iterations cfg then []
      else let db = run_ops (control_exec L) (v_before v) db in
        (case select_next (w_kind cfg) (v_select_at v) db of
           Inl e \<Rightarrow> []
         | Inr None \<Rightarrow> if w_max_iterations cfg \<noteq> 0 then [] else turn_ends L R cfg owner (n + 1) visits db
         | Inr (Some t) \<Rightarrow>
             (case task_payload L t of
                Inl e \<Rightarrow> []
              | Inr payload \<Rightarrow>
                  (case turn L R cfg owner v t payload db of
                     (x, db') \<Rightarrow> x # turn_ends L R cfg owner (n + 1) visits db'))))"

text \<open>What the counters owe to the ends of turns, and the statuses these have recorded.\<close>

definition counted :: "worker_outcome \<Rightarrow> turn_end list \<Rightarrow> worker_outcome \<Rightarrow> bool" where
  "counted cnt ends cnt' \<longleftrightarrow>
     wo_processed cnt' = wo_processed cnt + int (count_list ends (Recorded Completed) + count_list ends (Recorded Failed)) \<and>
     wo_failed cnt' = wo_failed cnt + int (count_list ends (Recorded Failed) + count_list ends NotRecorded) \<and>
     wo_fence_lost cnt' = wo_fence_lost cnt + int (count_list ends LeaseLost)"

definition recorded :: "turn_end list \<Rightarrow> task_state list" where
  "recorded ends = List.map_filter (\<lambda>x. case x of Recorded st \<Rightarrow> Some st | _ \<Rightarrow> None) ends"

lemma recorded_simps [simp]:
  "recorded [] = []"
  "recorded (x # ends) = (case x of Recorded st \<Rightarrow> [st] | _ \<Rightarrow> []) @ recorded ends"
  by (simp_all add: recorded_def map_filter_simps split: turn_end.split)

lemma counted_Nil: "counted cnt [] cnt"
  by (simp add: counted_def)

lemma counted_Cons: "counted a [x] b \<Longrightarrow> counted b ends c \<Longrightarrow> counted a (x # ends) c"
  by (auto simp: counted_def split: if_splits)

lemma work_task_turn:
  assumes "work_task L R cfg owner v t payload cnt db = (Inr cnt', db')"
  shows "\<exists>x. turn L R cfg owner v t payload db = (x, db') \<and> counted cnt [x] cnt'"
proof (cases "v_flock v")
  case Acquired
  note task = assms [unfolded work_task_def Acquired flock.case Let_def]
  note turn = turn_def [of L R cfg owner v t payload db, unfolded Acquired simp_thms if_False Let_def]
  obtain c db1 where cl: "claim L (t_task_id t) owner (w_claim_ttl_seconds cfg) (v_claim_at v)
      (run_ops (control_exec L) (v_between v) db) = (c, db1)" by fastforce
  show ?thesis
  proof (cases c)
    case (Inl e)
    then show ?thesis using task cl unfolding turn by (auto simp: counted_def split: if_splits)
  next
    case (Inr p)
    obtain g a e where p: "p = (g, a, e)" by (cases p)
    define result where "result = task_result L R cfg owner v t payload g db1"
    obtain lost db2 where rn: "renewer_run L (t_task_id t) owner g (w_claim_ttl_seconds cfg)
        (w_lease_renew_seconds cfg > 0) (v_ticks v) db1 = (lost, db2)" by fastforce
    obtain r db4 where co: "complete L (t_task_id t) owner g (d_status result) (worker_outcome_of cfg result)
        (v_complete_at v) (run_ops (control_exec L) (v_after v) db2) = (r, db4)" by fastforce
    note eqs = cl Inr p rn prod.case sum.case result_def [symmetric] co
    show ?thesis
      using task unfolding turn eqs by (cases lost; cases r) (auto simp: counted_def split: if_splits)
  qed
qed (use assms in \<open>auto simp: work_task_def turn_def counted_def\<close>)

lemma turn_rows:
  assumes v: "visit_foreign owner v" and run: "turn L R cfg owner v t payload db = (x, db')"
  shows "\<exists>rs. owned owner db' = owned owner db @ rs \<and> map r_status rs = recorded [x]"
proof (cases "v_flock v = Acquired")
  case True
  let ?db0 = "run_ops (control_exec L) (v_between v) db"
  have o0: "owned owner ?db0 = owned owner db" using v by (simp add: visit_foreign_def owned_run_ops)
  obtain c db1 where cl: "claim L (t_task_id t) owner (w_claim_ttl_seconds cfg) (v_claim_at v) ?db0 = (c, db1)"
    by (cases "claim L (t_task_id t) owner (w_claim_ttl_seconds cfg) (v_claim_at v) ?db0")
  have o1: "owned owner db1 = owned owner db"
    using owned_claim [of owner L "t_task_id t" owner "w_claim_ttl_seconds cfg" "v_claim_at v" ?db0] cl o0 by simp
  show ?thesis
  proof (cases c)
    case (Inl e)
    then show ?thesis using cl True o1 run by (auto simp: turn_def)
  next
    case (Inr p)
    obtain g a e where p: "p = (g, a, e)" by (cases p)
    define result where "result = task_result L R cfg owner v t payload g db1"
    obtain lost db2 where rn: "renewer_run L (t_task_id t) owner g (w_claim_ttl_seconds cfg)
        (w_lease_renew_seconds cfg > 0) (v_ticks v) db1 = (lost, db2)" by fastforce
    have o2: "owned owner db2 = owned owner db"
      using owned_renewer [of owner "v_ticks v" L "t_task_id t" owner g "w_claim_ttl_seconds cfg"
          "w_lease_renew_seconds cfg > 0" db1] v rn o1 by (simp add: visit_foreign_def)
    define db3 where "db3 = run_ops (control_exec L) (v_after v) db2"
    have o3: "owned owner db3 = owned owner db"
      using v o2 by (simp add: db3_def visit_foreign_def owned_run_ops)
    obtain r db4 where co: "complete L (t_task_id t) owner g (d_status result) (worker_outcome_of cfg result)
        (v_complete_at v) db3 = (r, db4)" by fastforce
    note eqs = turn_def True simp_thms if_False cl Inr p rn prod.case sum.case Let_def result_def [symmetric]
      db3_def [symmetric] co
    show ?thesis
    proof (cases "lost \<or> (\<exists>e. r = Inl e)")
      case True
      then show ?thesis using run o3 owned_complete_error [of L "t_task_id t" owner g "d_status result"
          "worker_outcome_of cfg result" "v_complete_at v" db3 _ db4] co
        unfolding eqs by (auto split: if_splits)
    next
      case False
      then have r: "r = Inr ()" by (cases r) auto
      obtain row where row: "owned owner db4 = owned owner db3 @ [row]" "status_of (d_status result) = Inr (r_status row)"
        using owned_complete [OF co [unfolded r], of owner] by auto
      have "x = Recorded (if d_status result = ''failed'' then Failed else Completed)" "db' = db4"
        using run False r unfolding eqs by auto
      then show ?thesis using row o3 by (auto split: if_splits intro!: exI [of _ "[row]"])
    qed
  qed
qed (use run in \<open>auto simp: turn_def\<close>)

lemma worker_loop_turns:
  assumes "list_all (visit_foreign owner) visits"
    and "worker_loop L R cfg owner n cnt visits db = (Some (Inr out), db')"
  shows "(\<exists>rs. owned owner db' = owned owner db @ rs \<and> map r_status rs = recorded (turn_ends L R cfg owner n visits db)) \<and>
    counted cnt (turn_ends L R cfg owner n visits db) out"
  using assms
proof (induction visits arbitrary: n cnt db)
  case Nil
  then show ?case
    by (subst (asm) worker_loop.simps) (auto split: if_splits simp: counted_Nil)
next
  case (Cons v visits)
  let ?db = "run_ops (control_exec L) (v_before v) db"
  have o: "owned owner ?db = owned owner db" using Cons.prems(1) by (simp add: visit_foreign_def owned_run_ops)
  show ?case
  proof (cases "w_max_iterations cfg \<noteq> 0 \<and> n + 1 > w_max_iterations cfg")
    case True
    then show ?thesis using Cons.prems(2)
      by (subst (asm) worker_loop.simps) (auto simp: counted_Nil)
  next
    case False
    note loop = Cons.prems(2) [unfolded worker_loop.simps [of L R cfg owner n], unfolded if_not_P [OF False] list.case Let_def]
    note ends = turn_ends.simps(2) [of L R cfg owner n v visits db, unfolded if_not_P [OF False] Let_def]
    show ?thesis
    proof (cases "select_next (w_kind cfg) (v_select_at v) ?db")
      case (Inl e)
      then show ?thesis using loop by simp
    next
      case (Inr sel)
      show ?thesis
      proof (cases sel)
        case None
        then show ?thesis
          using loop Inr o Cons.IH [of "n + 1" cnt ?db] Cons.prems(1) unfolding ends
          by (auto split: if_splits simp: counted_Nil)
      next
        case (Some t)
        obtain payload where pl: "task_payload L t = Inr payload"
          using loop Inr Some by (cases "task_payload L t") auto
        obtain cnt1 db1 where wt: "work_task L R cfg owner v t payload cnt ?db = (Inr cnt1, db1)"
            and rest: "worker_loop L R cfg owner (n + 1) cnt1 visits db1 = (Some (Inr out), db')"
          using loop Inr Some pl by (auto split: prod.splits sum.splits)
        obtain x where x: "turn L R cfg owner v t payload ?db = (x, db1)" "counted cnt [x] cnt1"
          using work_task_turn [OF wt] by blast
        obtain rs where rs: "owned owner db1 = owned owner db @ rs" "map r_status rs = recorded [x]"
          using turn_rows [OF _ x(1)] o Cons.prems(1) by auto
        have e: "turn_ends L R cfg owner n (v # visits) db = x # turn_ends L R cfg owner (n + 1) visits db1"
          unfolding ends using Inr Some pl x by simp
        obtain rs' where rs': "owned owner db' = owned owner db1 @ rs'"
            "map r_status rs' = recorded (turn_ends L R cfg owner (n + 1) visits db1)"
            "counted cnt1 (turn_ends L R cfg owner (n + 1) visits db1) out"
          using Cons.IH [OF _ rest] Cons.prems(1) by auto
        show ?thesis
          unfolding e using rs rs' counted_Cons [OF x(2) rs'(3)] by (intro conjI exI [of _ "rs @ rs'"]) auto
      qed
    qed
  qed
qed

lemma run_worker_Inr:
  assumes "run_worker L R fs env cfg pid n visits db = (Some (Inr out), db')"
  shows "worker_loop L R cfg (unique_owner (w_owner cfg) pid n) 0
    \<lparr>wo_processed = 0, wo_failed = 0, wo_fence_lost = 0\<rparr> visits db = (Some (Inr out), db')"
  using assms unfolding run_worker_def by (auto split: if_splits sum.splits)

lemma turn_status: "turn L R cfg owner v t payload db = (Recorded st, db') \<Longrightarrow> st \<in> {Completed, Failed}"
  by (auto simp: turn_def Let_def split: if_splits prod.splits sum.splits)

lemma turn_ends_status: "Recorded st \<in> set (turn_ends L R cfg owner n visits db) \<Longrightarrow> st \<in> {Completed, Failed}"
  by (induction visits arbitrary: n db)
    (auto simp: Let_def dest: turn_status turn_status [OF sym] split: if_splits sum.splits option.splits prod.splits)

lemma count_recorded:
  "\<forall>st. Recorded st \<in> set ends \<longrightarrow> st \<in> {Completed, Failed} \<Longrightarrow>
     length (recorded ends) = count_list ends (Recorded Completed) + count_list ends (Recorded Failed)"
  by (induction ends) (auto split: turn_end.splits)

text \<open>
  C20: The worker's counters are truthful: whatever other processes do to the store in between (as
  long as they complete nothing in its name), when the worker returns, \<open>processed\<close> is exactly the
  number of run rows it has written, and these have the statuses its turns recorded, in order;
  \<open>failed\<close> counts exactly the failed runs it recorded and the outcomes the store did not take,
  \<open>fence_lost\<close> exactly the leases lost while the command ran; and it reports no failures if and
  only if every turn that claimed a task recorded a completed run.
\<close>

theorem worker_counts_truthful:
  assumes "list_all (visit_foreign (unique_owner (w_owner cfg) pid n)) visits"
    and "run_worker L R fs env cfg pid n visits db = (Some (Inr out), db')"
    and "ends = turn_ends L R cfg (unique_owner (w_owner cfg) pid n) 0 visits db"
  shows "(\<exists>rs. owned (unique_owner (w_owner cfg) pid n) db' = owned (unique_owner (w_owner cfg) pid n) db @ rs \<and>
      map r_status rs = recorded ends \<and> wo_processed out = int (length rs)) \<and>
    wo_failed out = int (count_list ends (Recorded Failed) + count_list ends NotRecorded) \<and>
    wo_fence_lost out = int (count_list ends LeaseLost) \<and>
    (\<not> had_failures out \<longleftrightarrow> set ends \<subseteq> {Idle, Recorded Completed})"
proof -
  obtain rs where rs: "owned (unique_owner (w_owner cfg) pid n) db' = owned (unique_owner (w_owner cfg) pid n) db @ rs"
      "map r_status rs = recorded ends"
    and c: "counted \<lparr>wo_processed = 0, wo_failed = 0, wo_fence_lost = 0\<rparr> ends out"
    using worker_loop_turns [OF assms(1) run_worker_Inr [OF assms(2)]] assms(3) by blast
  have st: "\<forall>st. Recorded st \<in> set ends \<longrightarrow> st \<in> {Completed, Failed}"
    unfolding assms(3) using turn_ends_status by blast
  have "length rs = length (recorded ends)" using rs(2) by (metis length_map)
  then have len: "length rs = count_list ends (Recorded Completed) + count_list ends (Recorded Failed)"
    using count_recorded [OF st] by simp
  have "\<not> had_failures out \<longleftrightarrow> Recorded Failed \<notin> set ends \<and> NotRecorded \<notin> set ends \<and> LeaseLost \<notin> set ends"
    using c unfolding count_list_0_iff [symmetric] by (simp add: counted_def had_failures_def) linarith
  moreover have "x \<in> {Idle, Recorded Completed} \<longleftrightarrow> x \<noteq> Recorded Failed \<and> x \<noteq> NotRecorded \<and> x \<noteq> LeaseLost" if "x \<in> set ends" for x
    using st that by (cases x) auto
  then have "set ends \<subseteq> {Idle, Recorded Completed} \<longleftrightarrow> Recorded Failed \<notin> set ends \<and> NotRecorded \<notin> set ends \<and> LeaseLost \<notin> set ends"
    by blast
  ultimately show ?thesis using rs c len by (intro conjI exI [of _ rs]) (simp_all add: counted_def)
qed

text \<open>
  C34: A bounded worker returns: with a positive iteration limit it ends, with an
  outcome or an exception, within that many turns of its loop, whatever its environment does.
\<close>

theorem worker_returns:
  assumes "0 < w_max_iterations cfg" "w_max_iterations cfg \<le> int (length visits)"
  shows "\<exists>res db'. run_worker L R fs env cfg pid n visits db = (Some res, db')"
proof -
  have "\<exists>res db'. worker_loop L R cfg owner k cnt vs db = (Some res, db')"
    if "w_max_iterations cfg \<le> k + int (length vs)" for owner k cnt vs db
    using that
  proof (induction vs arbitrary: k cnt db)
    case Nil
    then show ?case using assms(1) by (subst worker_loop.simps) auto
  next
    case (Cons v vs)
    have IH: "\<exists>res db'. worker_loop L R cfg owner (k + 1) cnt' vs s = (Some res, db')" for cnt' s
      by (rule Cons.IH) (use Cons.prems in simp)
    show ?case
      by (subst worker_loop.simps) (auto simp: Let_def split: sum.splits option.splits prod.splits intro: IH)
  qed
  then show ?thesis using assms(2) unfolding run_worker_def by (auto split: sum.splits)
qed

section \<open>A worker on its own drains its queue\<close>

definition unfinished :: "string \<Rightarrow> control_db \<Rightarrow> nat" where
  "unfinished kind db = length (filter (\<lambda>t. t_kind t = kind \<and> t_state t \<in> {Pending, Claimed}) (db_tasks db))"

text \<open>A turn of the loop no one interferes with, in which the command ends before the lease.\<close>

definition prompt_visit :: "worker_config \<Rightarrow> visit \<Rightarrow> bool" where
  "prompt_visit cfg v \<longleftrightarrow>
     v_before v = [] \<and> v_between v = [] \<and> v_ticks v = [] \<and> v_after v = [] \<and> v_flock v = Acquired \<and>
     v_select_at v \<in> text_range \<and> v_claim_at v \<in> text_range \<and> v_select_at v \<le> v_claim_at v \<and>
     (\<exists>later. shift_seconds (v_claim_at v) (w_claim_ttl_seconds cfg) = Inr later \<and> v_complete_at v < later) \<and>
     (\<forall>argv d. v_dispatch v argv = Inr d \<longrightarrow> d_status d \<in> {''completed'', ''failed''})"

definition payloads_parse :: "pylib \<Rightarrow> control_db \<Rightarrow> bool" where
  "payloads_parse L db \<longleftrightarrow> (\<forall>t \<in> set (db_tasks db). \<exists>p. task_payload L t = Inr p)"

lemma filter_map_shrinks:
  assumes "\<And>x. P (g x) \<Longrightarrow> P x"
  shows "length (filter P (map g xs)) \<le> length (filter P xs)"
    and "\<exists>x \<in> set xs. P x \<and> \<not> P (g x) \<Longrightarrow> length (filter P (map g xs)) < length (filter P xs)"
proof -
  show le: "length (filter P (map g xs)) \<le> length (filter P xs)" for xs
    using assms by (induction xs) (auto intro: le_SucI)
  show "\<exists>x \<in> set xs. P x \<and> \<not> P (g x) \<Longrightarrow> length (filter P (map g xs)) < length (filter P xs)"
  proof (induction xs)
    case (Cons a xs)
    then show ?case using le [of xs] assms [of a]
      by (cases "\<exists>x \<in> set xs. P x \<and> \<not> P (g x)") (auto simp: less_Suc_eq_le less_imp_le simp del: filter_map)
  qed simp
qed

lemma complete_ok:
  assumes "find_claim tid db = Some c" "c_owner c = owner" "c_generation c = g"
    and "parse_utc_iso L (c_expires_at_utc c) = Inr expiry" "now < expiry" "find_task tid db \<noteq> None"
    and "status_of status = Inr st"
  shows "complete L tid owner g status res now db = (Inr (), finish tid owner g st res (utc_now_iso now) db)"
  using assms
  by (simp add: complete_def immediate_tx_def insert_run_def Let_def finish_def run_entry_def not_le del: status_of.simps)

lemma task_result_status:
  assumes "\<And>argv d. v_dispatch v argv = Inr d \<Longrightarrow> d_status d \<in> {''completed'', ''failed''}"
  shows "d_status (task_result L R cfg owner v t payload g db) \<in> {''completed'', ''failed''}"
proof -
  have validate: "d_status d \<in> {''completed'', ''failed''}" if "run_validate L R h i fk s db = Inr d" for h i fk s d
    using that unfolding run_validate_def
    by (auto simp: failed_result_def Let_def simp del: json_dumps.simps split: sum.splits prod.splits if_splits)
  define res where "res = (if w_kind cfg = ''validate''
            then run_validate L R (v_health v) (v_integrity v) (v_fk_rows v) (Some (path_str (w_state_db cfg))) db
            else bind_result (argv_builder L (w_kind cfg)
              \<lparr>dc_db_path = path_str (w_state_db cfg), dc_artifact_root = path_str (w_artifact_root cfg),
               dc_task_id = t_task_id t, dc_due_slot_utc = t_due_slot_utc t, dc_payload = payload,
               dc_control_db = Some (path_str (w_control_db cfg)), dc_owner = Some owner, dc_generation = Some g\<rparr>)
              (v_dispatch v))"
  have "d_status d \<in> {''completed'', ''failed''}" if "res = Inr d" for d
    using that validate assms by (cases "w_kind cfg = ''validate''") (force simp: res_def)+
  then show ?thesis
    by (cases res) (simp_all add: task_result_def res_def [symmetric] failed_result_def)
qed

text \<open>What the selector picks is a task of the kind that its next claimant gets.\<close>

lemma select_next_Some:
  assumes "select_next kind now db = Inr (Some t)"
  shows "t \<in> set (db_tasks db)" "t_kind t = kind"
    "t_state t = Pending \<or> t_state t = Claimed \<and> (\<exists>c. find_claim (t_task_id t) db = Some c \<and> c_expires_at_utc c \<le> utc_now_iso now)"
proof -
  obtain rows where rows: "selectable_tasks kind now (Some 1) db = Inr rows"
      "(case rows of [] \<Rightarrow> None | (t, c) # _ \<Rightarrow> Some t) = Some t"
    using assms by (auto simp: select_next_def)
  then obtain c rest where "rows = (t, c) # rest" by (cases rows) auto
  note rows = rows(1) this
  have "(t, c) \<in> set rows" by (simp add: rows(2))
  then show "t \<in> set (db_tasks db)" "t_kind t = kind"
    "t_state t = Pending \<or> t_state t = Claimed \<and> (\<exists>c. find_claim (t_task_id t) db = Some c \<and> c_expires_at_utc c \<le> utc_now_iso now)"
    using rows(1) by (auto simp: selectable_tasks_def slice_to_def Let_def split: option.splits dest!: in_set_takeD)
qed

lemma claim_selected:
  assumes inv: "store_inv db" and ex: "expiries_ok db" and iso: "iso_contract L"
    and sel: "select_next kind s db = Inr (Some t)" and times: "s \<in> text_range" "s \<le> now"
    and ttl: "0 < ttl" "shift_seconds now ttl = Inr later"
  obtains g a db1 c where "claim L (t_task_id t) owner ttl now db = (Inr (g, a, utc_now_iso later), db1)"
    "find_claim (t_task_id t) db1 = Some c" "c_owner c = owner" "c_generation c = g"
    "c_expires_at_utc c = utc_now_iso later" "find_task (t_task_id t) db1 \<noteq> None"
    "db_tasks db1 = tbl_update t_task_id (t_task_id t) (\<lambda>t. t\<lparr>t_state := Claimed, t_generation := g\<rparr>) (db_tasks db)"
proof -
  note picked = select_next_Some [OF sel]
  have ft: "find_task (t_task_id t) db = Some t"
    using inv picked(1) by (auto simp: store_inv_def tasks_ok_def find_task_def tbl_find_Some)
  show ?thesis
  proof (cases "find_claim (t_task_id t) db")
    case None
    then have "t_state t = Pending" using picked(3) by auto
    then show ?thesis
      using None ft ttl
      by (intro that [of "t_generation t + 1" 1 "grant_new (t_task_id t) owner (t_generation t + 1) (utc_now_iso later)
            (utc_now_iso now) db" "\<lparr>c_task_id = t_task_id t, c_owner = owner, c_generation = t_generation t + 1,
              c_attempt = 1, c_expires_at_utc = utc_now_iso later, c_claimed_at_utc = utc_now_iso now\<rparr>"])
        (simp_all add: claim_def immediate_tx_def Let_def insert_claim_def grant_new_def find_other_table find_task_update,
         simp_all add: find_claim_def find_task_def tbl_find_insert update_task_def)
  next
    case (Some c)
    then obtain x where x: "x \<in> text_range" "c_expires_at_utc c = utc_now_iso x"
      using ex by (auto simp: expiries_ok_def)
    have st: "t_state t = Claimed" using inv ft Some by (auto simp: store_inv_def elim!: leases_okD)
    then have "x \<le> s" using picked(3) Some x times by (auto simp: us_clock.fmt_le_iff)
    then have "x \<le> now" using times by simp
    then show ?thesis
      using Some ft ttl x st parse_utc_now_iso [OF iso x(1)]
      by (intro that [of "c_generation c + 1" "c_attempt c + 1" "take_over (t_task_id t) owner (c_generation c + 1)
            (c_attempt c + 1) (utc_now_iso later) (utc_now_iso now) db"])
        (simp_all add: claim_def immediate_tx_def Let_def take_over_def find_other_table find_task_update find_claim_update,
         simp_all add: update_task_def update_claim_def)
  qed
qed

lemma prompt_work:
  assumes inv: "store_inv db" and ex: "expiries_ok db" and iso: "iso_contract L"
    and sel: "select_next (w_kind cfg) (v_select_at v) db = Inr (Some t)"
    and v: "prompt_visit cfg v" and ttl: "0 < w_claim_ttl_seconds cfg"
  obtains cnt' db' where "work_task L R cfg owner v t payload cnt db = (Inr cnt', db')"
    "wo_fence_lost cnt' = wo_fence_lost cnt" "wo_processed cnt' = wo_processed cnt + 1"
    "store_inv db'" "expiries_ok db'"
    "unfinished (w_kind cfg) db' < unfinished (w_kind cfg) db"
    "payloads_parse L db \<Longrightarrow> payloads_parse L db'"
proof -
  let ?tid = "t_task_id t" and ?ttl = "w_claim_ttl_seconds cfg"
  obtain later where later: "shift_seconds (v_claim_at v) ?ttl = Inr later" "v_complete_at v < later"
    using v by (auto simp: prompt_visit_def)
  have times: "v_select_at v \<in> text_range" "v_select_at v \<le> v_claim_at v" "v_claim_at v \<in> text_range"
    using v by (simp_all add: prompt_visit_def)
  obtain g a db1 c where cl: "claim L ?tid owner ?ttl (v_claim_at v) db = (Inr (g, a, utc_now_iso later), db1)"
    "find_claim ?tid db1 = Some c" "c_owner c = owner" "c_generation c = g"
    "c_expires_at_utc c = utc_now_iso later" "find_task ?tid db1 \<noteq> None"
    "db_tasks db1 = tbl_update t_task_id ?tid (\<lambda>t. t\<lparr>t_state := Claimed, t_generation := g\<rparr>) (db_tasks db)"
    using claim_selected [OF inv ex iso sel times(1,2) ttl later(1)] by blast
  have s1: "store_inv db1" "expiries_ok db1"
    using control_exec_inv [OF inv, of L "Claim ?tid owner ?ttl (v_claim_at v)"]
      expiries_ok_exec [OF ex, of "Claim ?tid owner ?ttl (v_claim_at v)" L] cl(1) times(3) by simp_all
  define result where "result = task_result L R cfg owner v t payload g db1"
  obtain st where st: "status_of (d_status result) = Inr st" "st \<in> {Completed, Failed}"
    using task_result_status [of v L R cfg owner t payload g db1] v by (auto simp: result_def prompt_visit_def)
  define db2 where "db2 = finish ?tid owner g st (worker_outcome_of cfg result) (utc_now_iso (v_complete_at v)) db1"
  have range: "later \<in> text_range" by (rule shift_seconds_range [OF times(3) ttl later(1)])
  have co: "complete L ?tid owner g (d_status result) (worker_outcome_of cfg result) (v_complete_at v) db1 = (Inr (), db2)"
    unfolding db2_def
    by (rule complete_ok [OF cl(2-4) _ later(2) cl(6) st(1)]) (simp add: cl(5) parse_utc_now_iso [OF iso range])
  have s2: "store_inv db2" "expiries_ok db2"
    using control_exec_inv [OF s1(1), of L "Complete ?tid owner g (d_status result) (worker_outcome_of cfg result) (v_complete_at v)"]
      expiries_ok_exec [OF s1(2), of "Complete ?tid owner g (d_status result) (worker_outcome_of cfg result) (v_complete_at v)" L] co
    by simp_all
  have rn: "renewer_run L ?tid owner g ?ttl b (v_ticks v) db1 = (False, db1)" for b
    using v by (simp add: prompt_visit_def)
  have w: "work_task L R cfg owner v t payload cnt db =
      (Inr (cnt\<lparr>wo_failed := wo_failed cnt + (if d_status result = ''failed'' then 1 else 0),
                wo_processed := wo_processed cnt + 1\<rparr>), db2)"
    using v cl(1) co rn by (simp add: work_task_def prompt_visit_def result_def [symmetric])
  let ?g = "\<lambda>x. if t_task_id x = ?tid then x\<lparr>t_generation := g, t_state := st\<rparr> else x"
  have tasks: "db_tasks db2 = map ?g (db_tasks db)"
    by (simp add: db2_def finish_def frame_simps cl(7) tbl_update_def o_def)
  have "unfinished (w_kind cfg) db2 < unfinished (w_kind cfg) db"
    unfolding unfinished_def tasks using select_next_Some [OF sel] st(2)
    by (intro filter_map_shrinks(2)) (auto split: if_splits intro!: bexI [of _ t])
  moreover have "payloads_parse L db \<Longrightarrow> payloads_parse L db2"
    unfolding payloads_parse_def tasks by (auto simp: task_payload_def)
  ultimately show ?thesis using that [OF w] s2 by simp
qed

text \<open>
  C21: A worker that is left alone empties its queue: with a positive iteration limit above the
  number of unfinished tasks of its kind and with payloads that parse, if nobody else uses the store
  or the lock, every command ends before its lease and reports \<open>completed\<close> or \<open>failed\<close>, then the worker
  returns without losing a lease, and at the reading of its last turn no task of its kind is left to
  select. (With the limit 0 a worker never returns: it waits on an empty queue.)
\<close>

theorem worker_drains_queue:
  assumes inv: "store_inv db" and ex: "expiries_ok db" and iso: "iso_contract L" and pl: "payloads_parse L db"
    and kind: "w_kind cfg \<in> set ALLOWED_KINDS" and ttl: "0 < w_claim_ttl_seconds cfg"
    and visits: "list_all (prompt_visit cfg) visits" "unfinished (w_kind cfg) db < length visits"
    and limit: "int (unfinished (w_kind cfg) db) < w_max_iterations cfg"
  shows "\<exists>out db' v. worker_loop L R cfg owner 0 \<lparr>wo_processed = 0, wo_failed = 0, wo_fence_lost = 0\<rparr> visits db = (Some (Inr out), db') \<and>
    wo_fence_lost out = 0 \<and> v \<in> set visits \<and> select_next (w_kind cfg) (v_select_at v) db' = Inr None"
proof -
  have "\<exists>out db' v. worker_loop L R cfg owner k cnt vs s = (Some (Inr out), db') \<and>
      wo_fence_lost out = wo_fence_lost cnt \<and> v \<in> set vs \<and> select_next (w_kind cfg) (v_select_at v) db' = Inr None"
    if "store_inv s" "expiries_ok s" "payloads_parse L s" "list_all (prompt_visit cfg) vs"
      "unfinished (w_kind cfg) s < length vs" "k + int (unfinished (w_kind cfg) s) < w_max_iterations cfg" "0 \<le> k"
    for k cnt vs s
    using that
  proof (induction vs arbitrary: k cnt s)
    case (Cons v vs)
    have go: "\<not> (w_max_iterations cfg \<noteq> 0 \<and> k + 1 > w_max_iterations cfg)" "w_max_iterations cfg \<noteq> 0"
      using Cons.prems(6,7) by auto
    have v: "prompt_visit cfg v" "v_before v = []" using Cons.prems(4) by (auto simp: prompt_visit_def)
    have "validate_kind (w_kind cfg) = Inr (w_kind cfg)"
      using kind by (auto simp: validate_kind_def ALLOWED_KINDS_def DELIVERY_KIND_FORBIDDEN_def)
    then obtain sel where sel: "select_next (w_kind cfg) (v_select_at v) s = Inr sel"
      by (auto simp: select_next_def selectable_tasks_def Let_def)
    show ?case
    proof (cases sel)
      case None
      then have "worker_loop L R cfg owner k cnt (v # vs) s = (Some (Inr cnt), s)"
        using go v sel by (simp add: worker_loop.simps [of L R cfg owner k] Let_def)
      then show ?thesis using sel None by (intro exI conjI) (auto intro: list.set_intros(1))
    next
      case (Some t)
      obtain p where p: "task_payload L t = Inr p"
        using Cons.prems(3) select_next_Some(1) [OF sel [unfolded Some]] by (auto simp: payloads_parse_def)
      obtain cnt' s' where w: "work_task L R cfg owner v t p cnt s = (Inr cnt', s')"
          "wo_fence_lost cnt' = wo_fence_lost cnt" "store_inv s'" "expiries_ok s'"
          "unfinished (w_kind cfg) s' < unfinished (w_kind cfg) s" "payloads_parse L s'"
        using prompt_work [OF Cons.prems(1,2) iso sel [unfolded Some] v(1) ttl] Cons.prems(3) by metis
      have loop: "worker_loop L R cfg owner k cnt (v # vs) s = worker_loop L R cfg owner (k + 1) cnt' vs s'"
        using go v sel Some p w(1) by (subst worker_loop.simps) (simp add: Let_def)
      have "\<exists>out db' u. worker_loop L R cfg owner (k + 1) cnt' vs s' = (Some (Inr out), db') \<and>
          wo_fence_lost out = wo_fence_lost cnt' \<and> u \<in> set vs \<and> select_next (w_kind cfg) (v_select_at u) db' = Inr None"
        by (rule Cons.IH [OF w(3,4,6)]) (use Cons.prems w(5) in auto)
      then show ?thesis unfolding loop using w(2) by auto
    qed
  qed simp
  from this [OF inv ex pl visits, of 0 "\<lparr>wo_processed = 0, wo_failed = 0, wo_fence_lost = 0\<rparr>"] limit
  show ?thesis by simp
qed

section \<open>Live delivery is never started\<close>

text \<open>
  No task starts a live delivery: whatever the payload holds, a command line with the live
  delivery flag is refused before \<open>jobs.main\<close> could run (the result is the same for every
  \<open>jobs.main\<close>), and the worker records such a task as failed with exit code 2.
\<close>

theorem live_delivery_refused:
  assumes "w_kind cfg \<noteq> ''validate''"
    and "argv_builder L (w_kind cfg)
      \<lparr>dc_db_path = path_str (w_state_db cfg), dc_artifact_root = path_str (w_artifact_root cfg),
       dc_task_id = t_task_id t, dc_due_slot_utc = t_due_slot_utc t, dc_payload = payload,
       dc_control_db = Some (path_str (w_control_db cfg)), dc_owner = Some owner, dc_generation = Some g\<rparr> = Inr argv"
    and "''--enable-live-delivery'' \<in> set argv" and "v_dispatch v = dispatch R jobs_main"
  shows "dispatch R jobs_main argv = Inl DeliveryForbiddenError \<and>
    d_status (task_result L R cfg owner v t payload g db) = ''failed'' \<and>
    d_exit_code (task_result L R cfg owner v t payload g db) = 2"
  using assms by (simp add: dispatch_def LIVE_DELIVERY_FLAG_def task_result_def failed_result_def)

section \<open>A worker by example\<close>

definition wk_lib :: pylib where
  "wk_lib = demo_lib0\<lparr>json_loads := (\<lambda>s. Some (PDict []))\<rparr>"

definition wk_runtime :: runtime where
  "wk_runtime = \<lparr>rt_hash_stdout = (\<lambda>s. s), rt_decode_replace = (\<lambda>s. s), rt_exc_str = exn_name\<rparr>"

definition wk_config :: "string \<Rightarrow> int \<Rightarrow> worker_config" where
  "wk_config kind limit = \<lparr>w_kind = kind, w_control_db = Path ''/'' [''srv'', ''control.db''], w_state_db = Path ''/'' [''srv'', ''news.db''],
     w_artifact_root = Path ''/'' [''srv''], w_lock_path = Path ''/'' [''srv'', ''lock''], w_owner = ''ingest'',
     w_claim_ttl_seconds = 60, w_canary_root = None, w_max_iterations = limit, w_lease_renew_seconds = 0\<rparr>"

definition quiet_jobs :: "string list \<Rightarrow> jobs_run" where
  "quiet_jobs argv = \<lparr>jr_stdout = [''ok''], jr_stderr = [], jr_end = JobsReturn 0\<rparr>"

definition wk_visit :: visit where
  "wk_visit = \<lparr>v_before = [], v_select_at = demo_now, v_flock = Acquired, v_between = [], v_claim_at = demo_now,
     v_ticks = [], v_dispatch = dispatch wk_runtime quiet_jobs, v_health = (\<lambda>p. Inl ([], [])), v_integrity = Inr [''ok''],
     v_fk_rows = [], v_after = [], v_complete_at = demo_now\<rparr>"

lemma wk_iso: "iso_contract wk_lib"
  by (rule iso_contract_strict) (simp add: wk_lib_def demo_lib0_def)

lemma dispatch_status: "dispatch R jobs_main argv = Inr d \<Longrightarrow> d_status d \<in> {''completed'', ''failed''}"
  by (auto simp: dispatch_def Let_def split: if_splits jobs_end.splits option.splits)

lemma wk_prompt: "prompt_visit (wk_config kind limit) wk_visit"
proof -
  have "\<exists>later. shift_seconds demo_now 60 = Inr later \<and> demo_now < later" by simp
  then show ?thesis
    using dispatch_status by (auto simp: prompt_visit_def wk_visit_def wk_config_def)
qed

lemma wk_store: "expiries_ok demo_db" "payloads_parse wk_lib demo_db" "unfinished ''ingest'' demo_db = 1"
  by (simp_all add: expiries_ok_def payloads_parse_def task_payload_def wk_lib_def unfinished_def demo_db_def demo_task_def
      find_claim_def empty_file_def)

lemma wk_select: "select_next ''ingest'' demo_now demo_db = Inr (Some demo_task)"
  by (simp add: select_next_def selectable_tasks_def validate_kind_def ALLOWED_KINDS_def DELIVERY_KIND_FORBIDDEN_def
      demo_db_def demo_task_def empty_file_def Let_def slice_to_def)

lemma wk_run:
  obtains out db' where "run_worker wk_lib wk_runtime plain_fs [] (wk_config ''ingest'' 1) 7 1 [wk_visit] demo_db = (Some (Inr out), db')"
    "wo_processed out = 1"
proof -
  let ?cnt = "\<lparr>wo_processed = 0, wo_failed = 0, wo_fence_lost = 0\<rparr>"
  obtain p where p: "task_payload wk_lib demo_task = Inr p" by (simp add: task_payload_def wk_lib_def)
  obtain cnt' db' where w: "work_task wk_lib wk_runtime (wk_config ''ingest'' 1) (unique_owner ''ingest'' 7 1) wk_visit demo_task p ?cnt demo_db =
      (Inr cnt', db')" "wo_processed cnt' = 1"
    using prompt_work [OF demo_db_inv wk_store(1) wk_iso _ wk_prompt [of "''ingest''" 1], of demo_task wk_runtime
        "unique_owner ''ingest'' 7 1" p ?cnt] wk_select
    by (simp add: wk_config_def wk_visit_def) blast
  have "run_worker wk_lib wk_runtime plain_fs [] (wk_config ''ingest'' 1) 7 1 [wk_visit] demo_db = (Some (Inr cnt'), db')"
    using w(1) p wk_select
    by (simp add: run_worker_def worker_loop.simps wk_config_def assert_path_within_canary_def normpath_def norm_step_def
        plain_fs_def assert_canary_mode_def ALLOWED_KINDS_def wk_visit_def list_ex_iff)
  then show ?thesis using that w(2) by blast
qed

theorem worker_counts_truthful_witness:
  "\<exists>out db' rs. run_worker wk_lib wk_runtime plain_fs [] (wk_config ''ingest'' 1) 7 1 [wk_visit] demo_db = (Some (Inr out), db') \<and>
     owned (unique_owner ''ingest'' 7 1) db' = owned (unique_owner ''ingest'' 7 1) demo_db @ rs \<and> length rs = 1"
proof -
  obtain out db' where r: "run_worker wk_lib wk_runtime plain_fs [] (wk_config ''ingest'' 1) 7 1 [wk_visit] demo_db = (Some (Inr out), db')"
    "wo_processed out = 1" by (rule wk_run)
  have "list_all (visit_foreign (unique_owner (w_owner (wk_config ''ingest'' 1)) 7 1)) [wk_visit]"
    by (simp add: visit_foreign_def wk_visit_def)
  from worker_counts_truthful [OF this r(1) refl] show ?thesis using r by (auto simp: wk_config_def)
qed

theorem worker_returns_witness:
  "\<exists>res db'. run_worker wk_lib wk_runtime plain_fs [] (wk_config ''ingest'' 1) 7 1 [wk_visit] demo_db = (Some res, db')"
  by (rule worker_returns) (simp_all add: wk_config_def)

theorem worker_drains_queue_witness:
  "\<exists>out db' v. worker_loop wk_lib wk_runtime (wk_config ''ingest'' 2) ''me'' 0 \<lparr>wo_processed = 0, wo_failed = 0, wo_fence_lost = 0\<rparr>
     [wk_visit, wk_visit] demo_db = (Some (Inr out), db') \<and> wo_fence_lost out = 0 \<and> v \<in> set [wk_visit, wk_visit] \<and>
     select_next ''ingest'' (v_select_at v) db' = Inr None"
proof -
  have "w_kind (wk_config ''ingest'' 2) = ''ingest''" "w_max_iterations (wk_config ''ingest'' 2) = 2"
    "w_claim_ttl_seconds (wk_config ''ingest'' 2) = 60" by (simp_all add: wk_config_def)
  then show ?thesis
    using worker_drains_queue [OF demo_db_inv wk_store(1) wk_iso wk_store(2), of "wk_config ''ingest'' 2" "[wk_visit, wk_visit]"
        wk_runtime "''me''"] wk_prompt [of "''ingest''" 2] wk_store(3)
    by (simp add: ALLOWED_KINDS_def)
qed

theorem live_delivery_refused_witness:
  "dispatch wk_runtime quiet_jobs [''process'', ''--db'', ''/srv/news.db'', ''--evaluated-at'', ''slot'', ''--max-items'', ''500'',
     ''--enable-network'', ''--history-db'', ''--enable-live-delivery''] = Inl DeliveryForbiddenError"
proof -
  have "argv_builder wk_lib (w_kind (wk_config ''process'' 1))
      \<lparr>dc_db_path = path_str (w_state_db (wk_config ''process'' 1)), dc_artifact_root = path_str (w_artifact_root (wk_config ''process'' 1)),
       dc_task_id = t_task_id demo_task, dc_due_slot_utc = t_due_slot_utc demo_task,
       dc_payload = PDict [(''history_db'', PStr ''--enable-live-delivery'')],
       dc_control_db = Some (path_str (w_control_db (wk_config ''process'' 1))), dc_owner = Some ''me'', dc_generation = Some 1\<rparr> =
     Inr [''process'', ''--db'', ''/srv/news.db'', ''--evaluated-at'', ''slot'', ''--max-items'', ''500'',
       ''--enable-network'', ''--history-db'', ''--enable-live-delivery'']"
    by (simp add: argv_builder_def process_argv_def wk_config_def path_str_def demo_task_def py_int_of_def optional_payload_def
        payload_get_def show_int_def show_nat.simps digit_def) code_simp
  from live_delivery_refused [OF _ this, where v = wk_visit and R = wk_runtime and jobs_main = quiet_jobs] show ?thesis
    by (simp add: wk_config_def wk_visit_def)
qed

end
