(* ===== verification/LeaseRefinement.thy ===== *)
theory LeaseRefinement
  imports ControlProperties
begin

text \<open>
  What the control store promises, without tables or transactions: a task is absent, ready, held by an
  owner until an instant, or over, and it has the submission that created it, with the payload of its
  last round; each operation is a partial function on that state. What can be submitted is said without
  the validators of the code. The store of \<open>control_store.py\<close> refines this machine: it accepts an
  operation exactly when the machine does, and moves as the machine moves.
\<close>

section \<open>The lease machine\<close>

datatype lease =
    Absent
  | Ready int
  | Held string int instant
  | Over task_state int

type_synonym lease_map = "string \<Rightarrow> lease"

text \<open>The end of a lease granted now; there is none for a term that is not positive or out of range.\<close>

definition deadline :: "instant \<Rightarrow> int \<Rightarrow> instant option" where
  "deadline now ttl =
     (if ttl \<le> 0 then None else case shift_seconds now ttl of Inl e \<Rightarrow> None | Inr later \<Rightarrow> Some later)"

fun spec_claim :: "string \<Rightarrow> instant \<Rightarrow> instant \<Rightarrow> lease \<Rightarrow> lease option" where
  "spec_claim owner now until (Ready g) = Some (Held owner (g + 1) until)"
| "spec_claim owner now until (Held holder g expiry) =
     (if expiry \<le> now then Some (Held owner (g + 1) until)
      else if holder = owner then Some (Held holder g expiry) else None)"
| "spec_claim owner now until _ = None"

text \<open>The fence: the caller still holds the lease it names.\<close>

fun fenced :: "string \<Rightarrow> int \<Rightarrow> instant \<Rightarrow> lease \<Rightarrow> bool" where
  "fenced owner g now (Held holder g' expiry) \<longleftrightarrow> holder = owner \<and> g' = g \<and> now < expiry"
| "fenced owner g now _ \<longleftrightarrow> False"

definition move :: "string \<Rightarrow> lease option \<Rightarrow> lease_map \<Rightarrow> lease_map option" where
  "move tid l S = map_option (\<lambda>l. S(tid := l)) l"

text \<open>What a task was submitted for: its kind, slot and job key, and the text of its payload.\<close>

datatype submitted_job = SubmittedJob (sj_kind: string) (sj_slot: string) (sj_key: string) (sj_payload: string)

type_synonym job_map = "string \<rightharpoonup> submitted_job"

type_synonym machine = "lease_map \<times> job_map"

text \<open>A slot is a text in UTC; the payload of an investigation has exactly its six fields, each in its range.\<close>

definition slot_text :: "pylib \<Rightarrow> string \<Rightarrow> bool" where
  "slot_text L slot \<longleftrightarrow> ends_with ''Z'' slot \<and> fromisoformat_utc L (butlast slot @ ''+00:00'') \<noteq> None"

definition investigation_request :: "pylib \<Rightarrow> pydict \<Rightarrow> bool" where
  "investigation_request L d \<longleftrightarrow>
     fst ` set d = set payload_text_fields \<union> {''round_number''} \<and>
     (\<forall>k \<in> set payload_text_fields. \<exists>s. map_of d k = Some (PStr s) \<and> \<not> blank s) \<and>
     text_of d ''category'' \<in> set CATEGORY_VALUES \<and>
     map_of d ''round_number'' \<in> {Some (PInt 0), Some (PInt 1)} \<and>
     text_of d ''investigation_id'' = investigation_id L (text_of d ''candidate_id'') (text_of d ''feed_lane_id'')
       (text_of d ''query_plan_id'')"

text \<open>A submission that may be queued, with its job key and the id it gets.\<close>

definition submission :: "pylib \<Rightarrow> string \<Rightarrow> string \<Rightarrow> pydict \<Rightarrow> string \<Rightarrow> string \<Rightarrow> bool" where
  "submission L kind slot payload key tid \<longleftrightarrow>
     kind \<in> set ALLOWED_KINDS \<and> slot_text L slot \<and>
     \<not> (\<exists>u. subvalue u (PDict payload) \<and> mentions_delivery u) \<and>
     (kind = ''investigate'' \<longrightarrow> investigation_request L payload) \<and>
     key = (if kind = ''investigate'' then text_of payload ''investigation_id'' else []) \<and>
     tid = take 16 (sha256_hexdigest L (kind @ ''|'' @ slot @ (if key = [] then [] else ''|'' @ key)))"

text \<open>
  Enqueueing: a repeated submission with the same payload changes nothing, one with another payload is refused, and
  so is a second task for the same kind, slot and key under another id.
\<close>

definition enqueue_to :: "pylib \<Rightarrow> string \<Rightarrow> string \<Rightarrow> pydict \<Rightarrow> machine \<Rightarrow> machine \<Rightarrow> bool" where
  "enqueue_to L kind slot payload M M' \<longleftrightarrow>
     (\<exists>key tid. submission L kind slot payload key tid \<and>
        (case snd M tid of
           Some j \<Rightarrow> sj_payload j = json_dumps L (PDict payload) \<and> M' = M
         | None \<Rightarrow>
             (\<forall>k j. snd M k = Some j \<longrightarrow> (sj_kind j, sj_slot j, sj_key j) \<noteq> (kind, slot, key)) \<and>
             M' = ((fst M)(tid := Ready 0), (snd M)(tid \<mapsto> SubmittedJob kind slot key (json_dumps L (PDict payload))))))"

text \<open>
  Retrying: a failed investigation gets the payload of its next round, which may differ from the last one in the round
  only and must be a submission for the same slot and id.
\<close>

definition retry_to :: "pylib \<Rightarrow> string \<Rightarrow> pydict \<Rightarrow> machine \<Rightarrow> machine \<Rightarrow> bool" where
  "retry_to L tid payload M M' \<longleftrightarrow>
     (\<exists>slot key pj g previous.
        fst M tid = Over Failed g \<and> snd M tid = Some (SubmittedJob ''investigate'' slot key pj) \<and>
        submission L ''investigate'' slot payload (text_of payload ''investigation_id'') tid \<and>
        json_loads L pj = Some (PDict previous) \<and> investigation_request L previous \<and>
        (\<forall>k \<in> set payload_text_fields. map_of payload k = map_of previous k) \<and>
        map_of previous ''round_number'' = Some (PInt 0) \<and> map_of payload ''round_number'' = Some (PInt 1) \<and>
        M' = ((fst M)(tid := Ready g),
          (snd M)(tid \<mapsto> SubmittedJob ''investigate'' slot key (json_dumps L (PDict payload)))))"

text \<open>
  One operation of the machine: whether it is accepted, and the state after it. Claims, renewals and completions move
  the leases only.
\<close>

definition lease_next :: "control_op \<Rightarrow> bool \<Rightarrow> lease_map \<Rightarrow> lease_map \<Rightarrow> bool" where
  "lease_next c accepted S S' \<longleftrightarrow>
     (case c of
        Claim tid owner ttl now \<Rightarrow>
          (case Option.bind (deadline now ttl) (\<lambda>until. move tid (spec_claim owner now until (S tid)) S) of
             Some T \<Rightarrow> accepted \<and> S' = T | None \<Rightarrow> \<not> accepted \<and> S' = S)
      | Renew tid owner g ttl now \<Rightarrow>
          (case (if fenced owner g now (S tid) then deadline now ttl else None) of
             Some until \<Rightarrow> accepted \<and> S' = S(tid := Held owner g until) | None \<Rightarrow> \<not> accepted \<and> S' = S)
      | Complete tid owner g status res now \<Rightarrow>
          (case (if fenced owner g now (S tid) then status_of status else Inl ClaimMismatchError) of
             Inr st \<Rightarrow> accepted \<and> S' = S(tid := Over st g) | Inl e \<Rightarrow> \<not> accepted \<and> S' = S)
      | _ \<Rightarrow> False)"

definition spec_next :: "pylib \<Rightarrow> control_op \<Rightarrow> bool \<Rightarrow> machine \<Rightarrow> machine \<Rightarrow> bool" where
  "spec_next L c accepted M M' \<longleftrightarrow>
     (case c of
        Enqueue kind slot payload now \<Rightarrow>
          if accepted then enqueue_to L kind slot payload M M' else M' = M \<and> (\<nexists>T. enqueue_to L kind slot payload M T)
      | Retry tid payload \<Rightarrow>
          if accepted then retry_to L tid payload M M' else M' = M \<and> (\<nexists>T. retry_to L tid payload M T)
      | _ \<Rightarrow> lease_next c accepted (fst M) (fst M') \<and> snd M' = snd M)"

fun spec_run :: "pylib \<Rightarrow> control_op list \<Rightarrow> machine \<Rightarrow> machine \<Rightarrow> bool" where
  "spec_run L [] M M' \<longleftrightarrow> M' = M"
| "spec_run L (c # cs) M M' \<longleftrightarrow> (\<exists>accepted T. spec_next L c accepted M T \<and> spec_run L cs T M')"

section \<open>The abstraction\<close>

definition leases :: "pylib \<Rightarrow> control_db \<Rightarrow> lease_map" where
  "leases L db tid =
     (case find_task tid db of
        None \<Rightarrow> Absent
      | Some t \<Rightarrow>
          (case find_claim tid db of
             Some c \<Rightarrow> Held (c_owner c) (c_generation c)
               (case parse_utc_iso L (c_expires_at_utc c) of Inl e \<Rightarrow> 0 | Inr expiry \<Rightarrow> expiry)
           | None \<Rightarrow> if t_state t = Pending then Ready (t_generation t) else Over (t_state t) (t_generation t)))"

definition jobs :: "control_db \<Rightarrow> job_map" where
  "jobs db tid = map_option (\<lambda>t. SubmittedJob (t_kind t) (t_due_slot_utc t) (t_job_key t) (t_payload_json t)) (find_task tid db)"

definition machine_of :: "pylib \<Rightarrow> control_db \<Rightarrow> machine" where
  "machine_of L db = (leases L db, jobs db)"

definition accepts :: "control_result result \<Rightarrow> bool" where
  "accepts r \<longleftrightarrow> (case r of Inl e \<Rightarrow> False | Inr x \<Rightarrow> True)"

lemma accepts_simps [simp]: "accepts (Inl e) = False" "accepts (Inr x) = True"
  by (simp_all add: accepts_def)

text \<open>What the store knows in each state of the machine.\<close>

lemma lease_cases:
  assumes "store_inv db" "expiries_ok db" "iso_contract L"
  obtains
    (absent) "leases L db tid = Absent" "find_task tid db = None" "find_claim tid db = None"
  | (ready) t where "leases L db tid = Ready (t_generation t)" "find_task tid db = Some t" "t_state t = Pending" "find_claim tid db = None"
  | (held) t c x where "leases L db tid = Held (c_owner c) (c_generation c) x" "find_task tid db = Some t" "t_state t = Claimed"
      "find_claim tid db = Some c" "parse_utc_iso L (c_expires_at_utc c) = Inr x" "t_generation t = c_generation c"
  | (over) t where "leases L db tid = Over (t_state t) (t_generation t)" "find_task tid db = Some t"
      "t_state t \<in> {Completed, Failed}" "find_claim tid db = None"
proof (cases "find_claim tid db")
  case (Some c)
  then obtain t where t: "find_task tid db = Some t" "t_state t = Claimed" "t_generation t = c_generation c"
    using assms(1) by (auto simp: store_inv_def elim!: leases_okD)
  obtain x where "parse_utc_iso L (c_expires_at_utc c) = Inr x"
    using assms(2,3) Some parse_utc_now_iso unfolding expiries_ok_def by metis
  then show ?thesis using held Some t by (simp add: leases_def)
next
  case None
  show ?thesis
  proof (cases "find_task tid db")
    case None
    then show ?thesis using absent \<open>find_claim tid db = None\<close> by (simp add: leases_def)
  next
    case (Some t)
    then have "t_state t \<noteq> Claimed" using assms(1) None leases_ok_claimed unfolding store_inv_def by blast
    then have "t_state t = Pending \<or> t_state t \<in> {Completed, Failed}" by (cases "t_state t") simp_all
    then show ?thesis using ready [of t] over [of t] Some None by (auto simp: leases_def)
  qed
qed

section \<open>The validators accept the submissions\<close>

lemma slot_text_iff: "validate_due_slot L slot = (if slot_text L slot then Inr slot else Inl ValueError)"
  by (auto simp: validate_due_slot_def slot_text_def parse_utc_iso_def split: option.splits)

lemma investigation_request_iff:
  "validate_investigation_payload L d = (if investigation_request L d then Inr d else Inl ValueError)"
proof -
  have keys: "(\<forall>k \<in> set (map fst d). k \<in> set payload_fields) \<and> (\<forall>k \<in> set payload_fields. map_of d k \<noteq> None) \<longleftrightarrow>
      fst ` set d = set payload_text_fields \<union> {''round_number''}"
    by (auto simp: payload_fields_def map_of_eq_None_iff subset_iff)
  have texts: "(\<forall>k \<in> set payload_text_fields. \<not> (case map_of d k of Some (PStr s) \<Rightarrow> blank s | _ \<Rightarrow> True)) \<longleftrightarrow>
      (\<forall>k \<in> set payload_text_fields. \<exists>s. map_of d k = Some (PStr s) \<and> \<not> blank s)"
    by (intro ball_cong refl) (auto split: option.splits pyval.splits)
  have round: "\<not> (case map_of d ''round_number'' of Some (PInt n) \<Rightarrow> \<not> (0 \<le> n \<and> n < MAX_INVESTIGATION_ROUNDS) | _ \<Rightarrow> True) \<longleftrightarrow>
      map_of d ''round_number'' \<in> {Some (PInt 0), Some (PInt 1)}"
    by (auto simp: MAX_INVESTIGATION_ROUNDS_def split: option.splits pyval.splits)
  show ?thesis
    unfolding validate_investigation_payload_def investigation_request_def keys [symmetric] texts [symmetric] round [symmetric]
    by auto
qed

lemma validate_kind_iff:
  "validate_kind kind =
     (if kind \<in> set ALLOWED_KINDS then Inr kind
      else Inl (if kind = DELIVERY_KIND_FORBIDDEN then DeliveryForbiddenError else UnknownKindError))"
  by (auto simp: validate_kind_def ALLOWED_KINDS_def DELIVERY_KIND_FORBIDDEN_def)

lemma deterministic_task_id_iff:
  "deterministic_task_id L kind slot job_key = Inr tid \<longleftrightarrow>
     kind \<in> set ALLOWED_KINDS \<and> slot_text L slot \<and> (\<forall>k. job_key = Some k \<longrightarrow> \<not> blank k) \<and>
     tid = take 16 (sha256_hexdigest L (kind @ ''|'' @ slot @ (case job_key of None \<Rightarrow> [] | Some k \<Rightarrow> ''|'' @ k)))"
  by (cases job_key) (auto simp: deterministic_task_id_def slot_text_iff validate_kind_iff)

lemma submission_iff:
  "enqueue_args L kind slot payload = Inr (p, key, tid) \<longleftrightarrow> p = payload \<and> submission L kind slot payload key tid"
proof -
  define m where "m \<longleftrightarrow> (\<exists>u. subvalue u (PDict payload) \<and> mentions_delivery u)"
  have payload: "validate_payload payload = (if m then Inl DeliveryForbiddenError else Inr payload)"
    by (simp only: validate_payload_exact m_def)
  have key: "text_of payload ''investigation_id'' \<noteq> [] \<and> \<not> blank (text_of payload ''investigation_id'')"
    if "investigation_request L payload"
  proof -
    have "\<exists>s. map_of payload ''investigation_id'' = Some (PStr s) \<and> \<not> blank s"
      using that unfolding investigation_request_def by (simp add: payload_text_fields_def)
    then show ?thesis by (auto simp: text_of_def)
  qed
  show ?thesis
  proof (cases "kind \<in> set ALLOWED_KINDS \<and> slot_text L slot \<and> \<not> m")
    case True
    then show ?thesis
      using key unfolding submission_def m_def [symmetric]
      by (cases "kind = ''investigate''"; cases "investigation_request L payload")
        (auto simp: enqueue_args_def slot_text_iff payload investigation_request_iff validate_kind_iff deterministic_task_id_iff
          deterministic_task_id_def)
  next
    case False
    then show ?thesis
      unfolding submission_def m_def [symmetric]
      by (cases "kind \<in> set ALLOWED_KINDS"; cases "slot_text L slot")
        (simp_all add: enqueue_args_def slot_text_iff payload validate_kind_iff)
  qed
qed

lemma retry_args_iff:
  "retry_args L payload = Inr p \<longleftrightarrow>
     p = payload \<and> \<not> (\<exists>u. subvalue u (PDict payload) \<and> mentions_delivery u) \<and> investigation_request L payload"
proof -
  define m where "m \<longleftrightarrow> (\<exists>u. subvalue u (PDict payload) \<and> mentions_delivery u)"
  have "validate_payload payload = (if m then Inl DeliveryForbiddenError else Inr payload)"
    by (simp only: validate_payload_exact m_def)
  moreover have "validate_kind ''investigate'' = Inr ''investigate''" by (simp add: validate_kind_iff ALLOWED_KINDS_def)
  ultimately show ?thesis
    unfolding m_def [symmetric] by (auto simp: retry_args_def investigation_request_iff)
qed

section \<open>The simulation\<close>

lemma leases_grant:
  assumes "find_task tid db = Some t" "find_claim tid db = None" "iso_contract L" "x \<in> text_range"
  shows "leases L (grant_new tid owner g (utc_now_iso x) ts db) = (leases L db)(tid := Held owner g x)"
proof
  fix k
  have "find_task k (grant_new tid owner g (utc_now_iso x) ts db) =
      (if k = tid then map_option (\<lambda>t. t\<lparr>t_state := Claimed, t_generation := g\<rparr>) (find_task tid db) else find_task k db)"
    by (simp add: grant_new_def find_task_update) (simp add: find_task_def)
  then show "leases L (grant_new tid owner g (utc_now_iso x) ts db) k = ((leases L db)(tid := Held owner g x)) k"
    using assms by (cases "k = tid"; cases "find_task k db"; cases "find_claim k db")
      (simp_all add: leases_def find_claim_grant parse_utc_now_iso)
qed

lemma leases_take_over:
  assumes "find_task tid db = Some t" "find_claim tid db = Some c" "iso_contract L" "x \<in> text_range"
  shows "leases L (take_over tid owner g a (utc_now_iso x) ts db) = (leases L db)(tid := Held owner g x)"
proof
  fix k
  have "find_task k (take_over tid owner g a (utc_now_iso x) ts db) =
      (if k = tid then map_option (\<lambda>t. t\<lparr>t_state := Claimed, t_generation := g\<rparr>) (find_task tid db) else find_task k db)"
    by (simp add: take_over_def find_task_update find_other_table)
  then show "leases L (take_over tid owner g a (utc_now_iso x) ts db) k = ((leases L db)(tid := Held owner g x)) k"
    using assms by (cases "k = tid"; cases "find_task k db") (simp_all add: leases_def find_claim_take_over parse_utc_now_iso)
qed

lemma leases_extend:
  assumes "find_task tid db = Some t" "find_claim tid db = Some c" "iso_contract L" "x \<in> text_range"
  shows "leases L (update_claim tid (\<lambda>c. c\<lparr>c_expires_at_utc := utc_now_iso x, c_claimed_at_utc := ts\<rparr>) db) =
    (leases L db)(tid := Held (c_owner c) (c_generation c) x)"
proof
  fix k
  show "leases L (update_claim tid (\<lambda>c. c\<lparr>c_expires_at_utc := utc_now_iso x, c_claimed_at_utc := ts\<rparr>) db) k =
      ((leases L db)(tid := Held (c_owner c) (c_generation c) x)) k"
    using assms by (cases "k = tid"; cases "find_task k db") (simp_all add: leases_def find_claim_update find_other_table parse_utc_now_iso)
qed

lemma leases_finish:
  assumes "find_task tid db = Some t" "st \<noteq> Pending"
  shows "leases L (finish tid owner g st res ts db) = (leases L db)(tid := Over st (t_generation t))"
proof
  fix k
  show "leases L (finish tid owner g st res ts db) k = ((leases L db)(tid := Over st (t_generation t))) k"
    using assms by (cases "k = tid"; cases "find_task k db") (simp_all add: leases_def find_finish)
qed

lemma sim_claim:
  assumes inv: "store_inv db" "expiries_ok db" "iso_contract L" and now: "now \<in> text_range"
  shows "lease_next (Claim tid owner ttl now) (accepts (fst (control_exec L (Claim tid owner ttl now) db)))
    (leases L db) (leases L (snd (control_exec L (Claim tid owner ttl now) db)))"
proof (cases "deadline now ttl")
  case None
  then show ?thesis
    by (auto simp: lease_next_def deadline_def claim_def as_result_def split: if_splits sum.splits)
next
  case (Some until)
  then have d: "0 < ttl" "shift_seconds now ttl = Inr until" by (auto simp: deadline_def split: if_splits sum.splits)
  then have range: "until \<in> text_range" using shift_seconds_range now by blast
  from inv show ?thesis
  proof (cases rule: lease_cases [where tid = tid])
    case absent
    then show ?thesis using d by (simp add: lease_next_def Some move_def claim_def as_result_def immediate_tx_def Let_def)
  next
    case (ready t)
    have "claim L tid owner ttl now db = (Inr (t_generation t + 1, 1, utc_now_iso until),
        grant_new tid owner (t_generation t + 1) (utc_now_iso until) (utc_now_iso now) db)"
      using ready d by (simp add: claim_def immediate_tx_def Let_def insert_claim_def grant_new_def)
    then show ?thesis using ready leases_grant [OF ready(2,4) inv(3) range]
      by (simp add: lease_next_def Some move_def as_result_def)
  next
    case (held t c x)
    show ?thesis
    proof (cases "x \<le> now")
      case True
      have "claim L tid owner ttl now db = (Inr (c_generation c + 1, c_attempt c + 1, utc_now_iso until),
          take_over tid owner (c_generation c + 1) (c_attempt c + 1) (utc_now_iso until) (utc_now_iso now) db)"
        using held d True by (simp add: claim_def immediate_tx_def Let_def take_over_def)
      then show ?thesis using held True leases_take_over [OF held(2,4) inv(3) range]
        by (simp add: lease_next_def Some move_def as_result_def)
    next
      case False
      then show ?thesis using held d
        by (auto simp: lease_next_def Some move_def claim_def as_result_def immediate_tx_def Let_def)
    qed
  next
    case (over t)
    then show ?thesis using d by (auto simp: lease_next_def Some move_def claim_def as_result_def immediate_tx_def Let_def)
  qed
qed

lemma sim_renew:
  assumes inv: "store_inv db" "expiries_ok db" "iso_contract L" and now: "now \<in> text_range"
  shows "lease_next (Renew tid owner g ttl now) (accepts (fst (control_exec L (Renew tid owner g ttl now) db)))
    (leases L db) (leases L (snd (control_exec L (Renew tid owner g ttl now) db)))"
proof (cases "deadline now ttl")
  case None
  then show ?thesis
    by (auto simp: lease_next_def deadline_def renew_claim_def as_result_def split: if_splits sum.splits)
next
  case (Some until)
  then have d: "0 < ttl" "shift_seconds now ttl = Inr until" by (auto simp: deadline_def split: if_splits sum.splits)
  then have range: "until \<in> text_range" using shift_seconds_range now by blast
  from inv show ?thesis
  proof (cases rule: lease_cases [where tid = tid])
    case (held t c x)
    show ?thesis using held d leases_extend [OF held(2,4) inv(3) range]
      by (auto simp: lease_next_def Some renew_claim_def as_result_def immediate_tx_def Let_def)
  qed (use d in \<open>simp_all add: lease_next_def Some renew_claim_def as_result_def immediate_tx_def Let_def\<close>)
qed

lemma status_of_cases: "status_of s = Inr st \<Longrightarrow> st \<noteq> Pending"
  by (auto split: if_splits)

lemma sim_complete:
  assumes inv: "store_inv db" "expiries_ok db" "iso_contract L"
  shows "lease_next (Complete tid owner g status res now) (accepts (fst (control_exec L (Complete tid owner g status res now) db)))
    (leases L db) (leases L (snd (control_exec L (Complete tid owner g status res now) db)))"
proof (cases "status_of status")
  case (Inl e)
  then show ?thesis by (simp add: lease_next_def complete_def as_result_def del: status_of.simps)
next
  case (Inr st)
  note st = status_of_cases [OF Inr]
  from inv show ?thesis
  proof (cases rule: lease_cases [where tid = tid])
    case (held t c x)
    have "complete L tid owner g status res now db = (Inr (), finish tid owner g st res (utc_now_iso now) db)"
      if "c_owner c = owner" "c_generation c = g" "now < x"
      using that held Inr by (simp add: complete_def immediate_tx_def Let_def insert_run_def finish_def run_entry_def del: status_of.simps)
    moreover have "\<exists>e. complete L tid owner g status res now db = (Inl e, db)"
      if "\<not> (c_owner c = owner \<and> c_generation c = g \<and> now < x)"
      using that held Inr by (auto simp: complete_def immediate_tx_def Let_def simp del: status_of.simps)
    ultimately show ?thesis using held Inr leases_finish [OF held(2) st]
      by (cases "c_owner c = owner \<and> c_generation c = g \<and> now < x")
        (auto simp: lease_next_def as_result_def simp del: status_of.simps)
  qed (use Inr in \<open>simp_all add: lease_next_def complete_def as_result_def immediate_tx_def Let_def del: status_of.simps\<close>)
qed

text \<open>The submissions stay as they are.\<close>

lemma jobs_frame:
  assumes "\<And>k. map_option (\<lambda>t. (t_kind t, t_due_slot_utc t, t_job_key t, t_payload_json t)) (find_task k db') =
    map_option (\<lambda>t. (t_kind t, t_due_slot_utc t, t_job_key t, t_payload_json t)) (find_task k db)"
  shows "jobs db' = jobs db"
proof
  fix k show "jobs db' k = jobs db k"
    using assms [of k] by (auto simp: jobs_def map_option_case split: option.splits)
qed

lemma jobs_exec:
  assumes "case c of Enqueue kind slot payload now \<Rightarrow> False | Retry tid payload \<Rightarrow> False | _ \<Rightarrow> True"
  shows "jobs (snd (control_exec L c db)) = jobs db"
proof (rule control_exec_inv_by_success [where P = "\<lambda>d. jobs d = jobs db", OF refl])
  fix y db' assume ex: "control_exec L c db = (Inr y, db')"
  show "jobs db' = jobs db"
  proof (cases c)
    case (Claim i owner ttl now)
    with ex obtain g a e where "claim L i owner ttl now db = (Inr (g, a, e), db')" by (auto simp: as_result_Inr)
    then show ?thesis
      by (cases rule: claim_Inr_cases)
        (auto simp: grant_new_def take_over_def find_task_def frame_simps table_simps
          option.map_comp comp_def split: option.splits if_splits intro!: jobs_frame)
  next
    case (Renew i owner g ttl now)
    with ex obtain e where "renew_claim L i owner g ttl now db = (Inr e, db')" by (auto simp: as_result_Inr)
    then show ?thesis
      by (cases rule: renew_claim_Inr_cases) (auto simp: table_simps intro!: jobs_frame)
  next
    case (Complete i owner g status res now)
    with ex have "complete L i owner g status res now db = (Inr (), db')" by (auto simp: as_result_Inr)
    then show ?thesis
      by (cases rule: complete_Inr_cases) (auto simp: find_finish option.map_comp comp_def intro!: jobs_frame)
  qed (use assms in simp_all)
qed

lemma slot_taken:
  "(\<forall>k j. jobs db k = Some j \<longrightarrow> (sj_kind j, sj_slot j, sj_key j) \<noteq> p) \<longleftrightarrow> p \<notin> set (map task_slot (db_tasks db))"
  if "tbl_keyed t_task_id (db_tasks db)"
proof -
  have "p \<in> set (map task_slot (db_tasks db)) \<longleftrightarrow> (\<exists>k t. find_task k db = Some t \<and> task_slot t = p)"
    using that by (auto simp: find_task_def tbl_find_Some)
  moreover have "jobs db k = Some j \<longleftrightarrow> (\<exists>t. find_task k db = Some t \<and> j = SubmittedJob (t_kind t) (t_due_slot_utc t) (t_job_key t) (t_payload_json t))" for k j
    by (auto simp: jobs_def)
  ultimately show ?thesis by (simp add: task_slot_def) (metis submitted_job.sel)
qed

lemma jobs_None: "jobs db tid = None \<longleftrightarrow> find_task tid db = None"
  by (simp add: jobs_def)

lemma enqueue_to_accepts:
  assumes inv: "store_inv db" and to: "enqueue_to L kind slot payload (machine_of L db) M'"
  shows "fst (enqueue L kind slot payload now db) \<noteq> Inl e"
proof -
  obtain key tid where sub: "submission L kind slot payload key tid"
    and step: "case jobs db tid of
           Some j \<Rightarrow> sj_payload j = json_dumps L (PDict payload) \<and> M' = (leases L db, jobs db)
         | None \<Rightarrow>
             (\<forall>k j. jobs db k = Some j \<longrightarrow> (sj_kind j, sj_slot j, sj_key j) \<noteq> (kind, slot, key)) \<and>
             M' = ((leases L db)(tid := Ready 0), (jobs db)(tid \<mapsto> SubmittedJob kind slot key (json_dumps L (PDict payload))))"
    using to unfolding enqueue_to_def machine_of_def fst_conv snd_conv by blast
  from sub have args: "enqueue_args L kind slot payload = Inr (payload, key, tid)" by (simp add: submission_iff)
  show ?thesis
  proof (cases "find_task tid db")
    case (Some t)
    then have "t_payload_json t = json_dumps L (PDict payload)" using step by (auto simp: jobs_def)
    then show ?thesis using args Some by (simp add: enqueue_def immediate_tx_def)
  next
    case None
    then have "\<forall>k j. jobs db k = Some j \<longrightarrow> (sj_kind j, sj_slot j, sj_key j) \<noteq> (kind, slot, key)"
      using step unfolding jobs_None [THEN iffD2, OF None] option.case by blast
    moreover have "tbl_keyed t_task_id (db_tasks db)" using inv by (simp add: store_inv_def tasks_ok_def)
    ultimately have "(kind, slot, key) \<notin> set (map task_slot (db_tasks db))" using slot_taken by blast
    then show ?thesis using args None
      by (auto simp: enqueue_def immediate_tx_def Let_def insert_task_def task_slot_def)
  qed
qed

lemma enqueue_accepted:
  assumes inv: "store_inv db" and run: "enqueue L kind slot payload now db = (Inr (tid, created), db')"
  shows "enqueue_to L kind slot payload (machine_of L db) (machine_of L db')"
  using run
proof (cases rule: enqueue_Inr_cases)
  case (old key t)
  then have "submission L kind slot payload key tid" by (simp add: submission_iff)
  moreover have "jobs db tid = Some (SubmittedJob (t_kind t) (t_due_slot_utc t) (t_job_key t) (t_payload_json t))"
    by (simp add: jobs_def old(2))
  ultimately show ?thesis
    unfolding enqueue_to_def machine_of_def fst_conv snd_conv old(5)
    by - (rule exI [of _ key], rule exI [of _ tid], simp add: old(3))
next
  case (fresh key t)
  have claim: "find_claim tid db = None"
  proof (rule ccontr)
    assume "find_claim tid db \<noteq> None"
    then obtain c where "find_claim tid db = Some c" by blast
    then show False using inv fresh(2) by (auto simp: store_inv_def elim!: leases_okD)
  qed
  have id: "t_task_id t = tid" "t_state t = Pending" "t_generation t = 0" by (simp_all add: fresh(4))
  have found: "find_task k db' = (if k = tid then Some t else find_task k db)" for k
    using fresh(2) by (simp add: fresh(6) find_task_def tbl_find_insert id eq_commute [of tid] split: option.splits)
  moreover have "find_claim k db' = find_claim k db" for k by (simp add: fresh(6) find_claim_def)
  ultimately have leases': "leases L db' = (leases L db)(tid := Ready 0)"
    using fresh(2) claim id by (auto simp: fun_eq_iff leases_def split: option.splits)
  have jobs': "jobs db' = (jobs db)(tid \<mapsto> SubmittedJob kind slot key (json_dumps L (PDict payload)))"
    using found fresh(4) by (auto simp: fun_eq_iff jobs_def)
  have sub: "submission L kind slot payload key tid" using fresh(1) by (simp add: submission_iff)
  have "task_slot t = (kind, slot, key)" by (simp add: fresh(4) task_slot_def)
  then have "(kind, slot, key) \<notin> set (map task_slot (db_tasks db))" using fresh(5) by simp
  moreover have "tbl_keyed t_task_id (db_tasks db)" using inv by (simp add: store_inv_def tasks_ok_def)
  ultimately have unused: "\<forall>k j. jobs db k = Some j \<longrightarrow> (sj_kind j, sj_slot j, sj_key j) \<noteq> (kind, slot, key)"
    using slot_taken by blast
  have "jobs db tid = None" using fresh(2) by (simp add: jobs_None)
  then show ?thesis
    unfolding enqueue_to_def machine_of_def fst_conv snd_conv
    using sub unused by - (rule exI [of _ key], rule exI [of _ tid], simp add: leases' jobs')
qed

lemma sim_enqueue:
  assumes inv: "store_inv db"
  shows "spec_next L (Enqueue kind slot payload now) (accepts (fst (control_exec L (Enqueue kind slot payload now) db)))
    (machine_of L db) (machine_of L (snd (control_exec L (Enqueue kind slot payload now) db)))"
proof (cases "enqueue L kind slot payload now db")
  case (Pair r db')
  show ?thesis
  proof (cases r)
    case (Inl e)
    then have "db' = db" using Pair enqueue_rollback [of L kind slot payload now db e] by simp
    moreover have "\<not> enqueue_to L kind slot payload (machine_of L db) T" for T
      using enqueue_to_accepts [OF inv, of L kind slot payload T now] Pair Inl by auto
    ultimately show ?thesis using Pair Inl by (simp add: spec_next_def as_result_def)
  next
    case (Inr x)
    then show ?thesis
      using Pair enqueue_accepted [OF inv, of L kind slot payload now "fst x" "snd x" db']
      by (auto simp: spec_next_def as_result_def split: prod.splits)
  qed
qed

lemma retry_effect:
  assumes "retry_investigation L tid payload db = (Inr u, db')"
  obtains t previous where "find_task tid db = Some t" "t_kind t = ''investigate''" "t_state t = Failed"
    "retry_args L payload = Inr payload"
    "deterministic_task_id L ''investigate'' (t_due_slot_utc t) (Some (text_of payload ''investigation_id'')) = Inr tid"
    "json_loads L (t_payload_json t) = Some (PDict previous)" "investigation_request L previous"
    "\<forall>k \<in> set payload_text_fields. map_of previous k = map_of payload k"
    "int_of payload ''round_number'' = int_of previous ''round_number'' + 1"
    "db' = update_task tid (\<lambda>t. t\<lparr>t_state := Pending, t_payload_json := json_dumps L (PDict payload)\<rparr>) db"
proof -
  obtain p where p: "retry_args L payload = Inr p" using assms by (cases "retry_args L payload") (simp_all add: retry_investigation_def)
  have "p = payload" using retry_args_iff p by blast
  with assms p that show ?thesis
    by (auto simp: retry_investigation_def immediate_tx_Inr Let_def investigation_request_iff
        split: if_splits sum.splits option.splits pyval.splits)
qed

text \<open>The rounds of two requests that follow each other.\<close>

lemma rounds:
  assumes "investigation_request L previous" "investigation_request L payload"
  shows "int_of payload ''round_number'' = int_of previous ''round_number'' + 1 \<longleftrightarrow>
    map_of previous ''round_number'' = Some (PInt 0) \<and> map_of payload ''round_number'' = Some (PInt 1)"
  using assms by (auto simp: investigation_request_def int_of_def)

lemma request_id: "investigation_request L d \<Longrightarrow> \<not> blank (text_of d ''investigation_id'')"
proof -
  assume "investigation_request L d"
  then have "\<exists>s. map_of d ''investigation_id'' = Some (PStr s) \<and> \<not> blank s"
    unfolding investigation_request_def by (simp add: payload_text_fields_def)
  then show ?thesis by (auto simp: text_of_def)
qed

lemma investigate_submission:
  "submission L ''investigate'' slot payload (text_of payload ''investigation_id'') tid \<longleftrightarrow>
     retry_args L payload = Inr payload \<and>
     deterministic_task_id L ''investigate'' slot (Some (text_of payload ''investigation_id'')) = Inr tid"
proof (cases "investigation_request L payload")
  case True
  note id = request_id [OF this]
  then have "text_of payload ''investigation_id'' \<noteq> []" by auto
  with id show ?thesis by (simp only: submission_def retry_args_iff deterministic_task_id_iff option.case simp_thms True) auto
qed (simp_all add: submission_def retry_args_iff)

lemma retry_accepted:
  assumes inv: "store_inv db" and run: "retry_investigation L tid payload db = (Inr u, db')"
  shows "retry_to L tid payload (machine_of L db) (machine_of L db')"
  using run
proof (cases rule: retry_effect)
  case (1 t previous)
  have claim: "find_claim tid db = None"
  proof (rule ccontr)
    assume "find_claim tid db \<noteq> None"
    then obtain c where "find_claim tid db = Some c" by blast
    then show False using inv 1(1,3) by (auto simp: store_inv_def elim!: leases_okD)
  qed
  have "leases L db' k = ((leases L db)(tid := Ready (t_generation t))) k" for k
    using 1(1,3) claim by (cases "k = tid"; cases "find_task k db") (simp_all add: 1(10) leases_def find_task_update find_other_table)
  then have leases': "leases L db' = (leases L db)(tid := Ready (t_generation t))" by blast
  have "jobs db' k = ((jobs db)(tid \<mapsto> SubmittedJob ''investigate'' (t_due_slot_utc t) (t_job_key t) (json_dumps L (PDict payload)))) k" for k
    using 1(1,2) by (cases "k = tid"; cases "find_task k db") (simp_all add: 1(10) jobs_def find_task_update)
  then have jobs': "jobs db' = (jobs db)(tid \<mapsto> SubmittedJob ''investigate'' (t_due_slot_utc t) (t_job_key t) (json_dumps L (PDict payload)))"
    by blast
  have over: "leases L db tid = Over Failed (t_generation t)" using 1(1,3) claim by (simp add: leases_def)
  have job: "jobs db tid = Some (SubmittedJob ''investigate'' (t_due_slot_utc t) (t_job_key t) (t_payload_json t))"
    using 1(1,2) by (simp add: jobs_def)
  have sub: "submission L ''investigate'' (t_due_slot_utc t) payload (text_of payload ''investigation_id'') tid"
    unfolding investigate_submission using 1(4,5) by blast
  have request: "investigation_request L payload" using 1(4) unfolding retry_args_iff by blast
  note round = rounds [OF 1(7) request, THEN iffD1, OF 1(9)]
  show ?thesis
    unfolding retry_to_def machine_of_def fst_conv snd_conv
    by (intro exI [where x = "t_due_slot_utc t"] exI [of _ "t_job_key t"] exI [of _ "t_payload_json t"] exI [of _ "t_generation t"]
        exI [of _ previous] conjI over job sub 1(6,7) round [THEN conjunct1] round [THEN conjunct2])
      (use 1(8) in \<open>simp_all add: leases' jobs'\<close>)
qed

lemma retry_to_accepts:
  assumes inv: "store_inv db" and to: "retry_to L tid payload (machine_of L db) M'"
  shows "fst (retry_investigation L tid payload db) \<noteq> Inl e"
proof -
  obtain slot key pj g previous where *:
      "leases L db tid = Over Failed g" "jobs db tid = Some (SubmittedJob ''investigate'' slot key pj)"
      "submission L ''investigate'' slot payload (text_of payload ''investigation_id'') tid"
      "json_loads L pj = Some (PDict previous)" "investigation_request L previous"
      "\<forall>k \<in> set payload_text_fields. map_of payload k = map_of previous k"
      "map_of previous ''round_number'' = Some (PInt 0)" "map_of payload ''round_number'' = Some (PInt 1)"
    using to unfolding retry_to_def machine_of_def by auto
  obtain t where t: "find_task tid db = Some t" "t_kind t = ''investigate''" "t_due_slot_utc t = slot" "t_payload_json t = pj"
    using *(2) by (auto simp: jobs_def)
  have failed: "t_state t = Failed" using *(1) t(1) by (auto simp: leases_def split: option.splits if_splits)
  note sub = *(3) [unfolded investigate_submission]
  have "int_of payload ''round_number'' = int_of previous ''round_number'' + 1" using *(7,8) by (simp add: int_of_def)
  moreover have "\<not> (\<exists>k \<in> set payload_text_fields. map_of previous k \<noteq> map_of payload k)" using *(6) by auto
  ultimately show ?thesis
    using sub t failed *(4,5) by (simp add: retry_investigation_def immediate_tx_def Let_def investigation_request_iff)
qed

lemma sim_retry:
  assumes inv: "store_inv db"
  shows "spec_next L (Retry tid payload) (accepts (fst (control_exec L (Retry tid payload) db)))
    (machine_of L db) (machine_of L (snd (control_exec L (Retry tid payload) db)))"
proof (cases "retry_investigation L tid payload db")
  case (Pair r db')
  show ?thesis
  proof (cases r)
    case (Inl e)
    then have "db' = db" using Pair retry_rollback [of L tid payload db e] by simp
    moreover have "\<not> retry_to L tid payload (machine_of L db) T" for T
      using retry_to_accepts [OF inv, of L tid payload T] Pair Inl by auto
    ultimately show ?thesis using Pair Inl by (simp add: spec_next_def as_result_def)
  next
    case (Inr u)
    then show ?thesis
      using Pair retry_accepted [OF inv, of L tid payload u db'] by (simp add: spec_next_def as_result_def)
  qed
qed

text \<open>Claims, renewals and completions: the leases move as the machine says and the submissions stay.\<close>

lemma sim_lease:
  assumes "lease_next c (accepts (fst (control_exec L c db))) (leases L db) (leases L (snd (control_exec L c db)))"
    and "case c of Enqueue kind slot payload now \<Rightarrow> False | Retry tid payload \<Rightarrow> False | _ \<Rightarrow> True"
  shows "spec_next L c (accepts (fst (control_exec L c db))) (machine_of L db) (machine_of L (snd (control_exec L c db)))"
  using assms jobs_exec [OF assms(2), of L db] by (cases c) (simp_all add: spec_next_def machine_of_def del: control_exec.simps)

lemma control_simulates:
  assumes inv: "store_inv db" "expiries_ok db" "iso_contract L" and clock: "op_clock_ok c"
  shows "spec_next L c (accepts (fst (control_exec L c db))) (machine_of L db) (machine_of L (snd (control_exec L c db)))"
proof (cases c)
  case (Claim tid owner ttl now)
  then show ?thesis using clock sim_lease [OF sim_claim [OF inv]] by (simp only: op_clock_ok.simps control_op.case)
next
  case (Renew tid owner g ttl now)
  then show ?thesis using clock sim_lease [OF sim_renew [OF inv]] by (simp only: op_clock_ok.simps control_op.case)
next
  case (Complete tid owner g status res now)
  then show ?thesis using sim_lease [OF sim_complete [OF inv]] by (simp only: control_op.case)
qed (simp_all only: sim_enqueue [OF inv(1)] sim_retry [OF inv(1)])

lemma control_run_simulates:
  assumes "store_inv db" "expiries_ok db" "iso_contract L" "list_all op_clock_ok cs"
  shows "spec_run L cs (machine_of L db) (machine_of L (run_ops (control_exec L) cs db))"
  using assms
proof (induction cs arbitrary: db)
  case (Cons c cs)
  let ?db = "snd (control_exec L c db)"
  have "store_inv ?db" "expiries_ok ?db" using Cons.prems control.preserves expiries_ok_exec by simp_all
  then have "spec_run L cs (machine_of L ?db) (machine_of L (run_ops (control_exec L) cs ?db))" using Cons by simp
  moreover have "spec_next L c (accepts (fst (control_exec L c db))) (machine_of L db) (machine_of L ?db)"
    using Cons.prems by (intro control_simulates) simp_all
  ultimately show ?case unfolding spec_run.simps run_ops.simps by blast
qed simp

text \<open>
  C1: the control store refines the task machine. With clock readings in the years 1000 to 9999, every
  history of operations from an empty file takes the machine from no tasks to the leases and submissions
  the store then shows, and any further operation is accepted exactly when the machine accepts it and
  moves the store as the machine moves: a submission succeeds if it is well formed and new, or repeats
  the stored payload; a claim on a ready task or an expired lease with the next generation (or returns
  the caller's own live lease); a renewal and a completion only for the holder of the live lease of that
  generation; a retry only for a failed investigation with the payload of its next round.
\<close>

theorem control_refines_leases:
  assumes "iso_contract L" and "list_all op_clock_ok (cs @ [c])"
    and "db = run_ops (control_exec L) cs empty_file"
  shows "spec_run L cs ((\<lambda>tid. Absent), Map.empty) (machine_of L db) \<and>
    spec_next L c (accepts (fst (control_exec L c db))) (machine_of L db) (machine_of L (snd (control_exec L c db)))"
proof -
  have empty: "store_inv empty_file" "expiries_ok empty_file" "machine_of L empty_file = ((\<lambda>tid. Absent), Map.empty)"
    by (rule store_inv_empty)
      (simp_all add: expiries_ok_def find_claim_def find_task_def empty_file_def leases_def jobs_def machine_of_def fun_eq_iff)
  have "store_inv db" unfolding assms(3) by (rule control.run_inv [OF empty(1)])
  moreover have "expiries_ok db" unfolding assms(3) using assms(2) by (intro expiries_ok_run empty(2)) simp
  ultimately show ?thesis
    using control_run_simulates [OF empty(1,2) assms(1)] assms control_simulates [of db L c] empty(3) by simp
qed

lemma control_refines_leases_witness:
  "\<exists>db. db = run_ops (control_exec demo_lib) [Enqueue ''ingest'' demo_slot [] demo_now] empty_file \<and>
     leases demo_lib (snd (control_exec demo_lib (Claim (take 16 (''ingest|'' @ demo_slot)) ''w1'' 60 demo_now) db))
       (take 16 (''ingest|'' @ demo_slot)) = Held ''w1'' 1 (demo_now + 60000000)"
proof -
  let ?tid = "take 16 (''ingest|'' @ demo_slot)"
  obtain db where e: "enqueue demo_lib ''ingest'' demo_slot [] demo_now empty_file = (Inr (?tid, True), db)"
    using demo_enqueue by blast
  then have run: "db = run_ops (control_exec demo_lib) [Enqueue ''ingest'' demo_slot [] demo_now] empty_file"
    by (simp add: as_result_def)
  from e have ready: "leases demo_lib db ?tid = Ready 0"
  proof (cases rule: enqueue_Inr_cases)
    case (fresh job_key t)
    then show ?thesis by (simp add: leases_def find_task_def find_claim_def tbl_insert_def empty_file_def)
  qed simp
  have clock: "list_all op_clock_ok ([Enqueue ''ingest'' demo_slot [] demo_now] @ [Claim ?tid ''w1'' 60 demo_now])" by simp
  have "deadline demo_now 60 = Some (demo_now + 60000000)" by (simp add: deadline_def)
  then have "leases demo_lib (snd (control_exec demo_lib (Claim ?tid ''w1'' 60 demo_now) db)) =
      (leases demo_lib db)(?tid := Held ''w1'' 1 (demo_now + 60000000))"
    using control_refines_leases [OF demo_iso clock run] ready unfolding spec_next_def lease_next_def control_op.case machine_of_def fst_conv
    by (simp add: move_def del: take_append control_exec.simps)
  then show ?thesis using run by (intro exI [of _ db]) (simp only: fun_upd_same simp_thms)
qed

end
