(* ===== verification/UnionFind.thy ===== *)
theory UnionFind
  imports Prelude
begin

text \<open>
  The union-find of \<open>verify_evidence\<close> (\<open>news_pipeline/verification.py\<close>): a dict of parents, \<open>find\<close>
  with path compression that enters unknown keys as their own parents, and \<open>union\<close>. A dict is a
  map; \<open>find\<close> follows parents, which ends on forests and is \<open>None\<close> where Python would recurse for ever.

  The locale \<open>partition\<close> is what the client uses: a state with an equivalence, to which \<open>union\<close>
  adds a pair. The client's lemma is the equivalence after any sequence of unions.
\<close>

section \<open>Partitions\<close>

definition linked :: "('k \<times> 'k) set \<Rightarrow> ('k \<times> 'k) set" where
  "linked E = (E \<union> E\<inverse>)\<^sup>*"

lemma linked_mono: "E \<subseteq> F \<Longrightarrow> linked E \<subseteq> linked F"
  unfolding linked_def by (rule rtrancl_mono) auto

lemma linked_base: "E \<subseteq> linked E"
  unfolding linked_def by auto

lemma linked_linked_Un: "linked (linked E \<union> F) = linked (E \<union> F)"
proof
  have sym: "(linked X)\<inverse> = linked X" for X :: "('k \<times> 'k) set"
    by (simp add: linked_def rtrancl_converse [symmetric] converse_Un Un_commute)
  have "linked E \<union> F \<subseteq> linked (E \<union> F)" using linked_mono [of E "E \<union> F"] linked_base [of "E \<union> F"] by blast
  then have "(linked E \<union> F) \<union> (linked E \<union> F)\<inverse> \<subseteq> linked (E \<union> F)"
    using sym [of "E \<union> F"] by (metis Un_least converse_mono)
  then have "linked (linked E \<union> F) \<subseteq> (linked (E \<union> F))\<^sup>*" unfolding linked_def [of "linked E \<union> F"] by (rule rtrancl_mono)
  then show "linked (linked E \<union> F) \<subseteq> linked (E \<union> F)" by (simp add: linked_def)
  show "linked (E \<union> F) \<subseteq> linked (linked E \<union> F)" using linked_base [of E] by (intro linked_mono) auto
qed

lemma linked_refl [simp]: "(x, x) \<in> linked E"
  by (simp add: linked_def)

lemma linked_sym: "(x, y) \<in> linked E \<Longrightarrow> (y, x) \<in> linked E"
proof -
  assume "(x, y) \<in> linked E"
  then have "(y, x) \<in> ((E \<union> E\<inverse>)\<inverse>)\<^sup>*" unfolding linked_def by (rule rtrancl_converseI)
  then show ?thesis by (simp add: linked_def converse_Un Un_commute)
qed

lemma linked_trans: "(x, y) \<in> linked E \<Longrightarrow> (y, z) \<in> linked E \<Longrightarrow> (x, z) \<in> linked E"
  unfolding linked_def by (rule rtrancl_trans)

fun run_unions :: "('p \<Rightarrow> 'k \<Rightarrow> 'k \<Rightarrow> 'p option) \<Rightarrow> ('k \<times> 'k) list \<Rightarrow> 'p \<Rightarrow> 'p option" where
  "run_unions join_op [] p = Some p"
| "run_unions join_op ((x, y) # es) p = Option.bind (join_op p x y) (run_unions join_op es)"

lemma run_unions_append:
  "run_unions join_op (es @ es') p = Option.bind (run_unions join_op es p) (run_unions join_op es')"
  by (induction es arbitrary: p) (auto split: Option.bind_splits)

locale partition =
  fixes ok :: "'p \<Rightarrow> bool" and same :: "'p \<Rightarrow> ('k \<times> 'k) set" and join_op :: "'p \<Rightarrow> 'k \<Rightarrow> 'k \<Rightarrow> 'p option"
  assumes equivalence: "ok p \<Longrightarrow> linked (same p) = same p"
    and join_total: "ok p \<Longrightarrow> \<exists>p'. join_op p x y = Some p' \<and> ok p' \<and> same p' = linked (insert (x, y) (same p))"
begin

lemma unions:
  assumes "ok p"
  shows "\<exists>p'. run_unions join_op es p = Some p' \<and> ok p' \<and> same p' = linked (set es \<union> same p)"
  using assms
proof (induction es arbitrary: p)
  case Nil
  then show ?case by (simp add: equivalence)
next
  case (Cons e es)
  obtain x y where e: "e = (x, y)" by (cases e)
  obtain p1 where p1: "join_op p x y = Some p1" "ok p1" "same p1 = linked (insert (x, y) (same p))"
    using join_total [OF Cons.prems] by blast
  obtain p2 where p2: "run_unions join_op es p1 = Some p2" "ok p2" "same p2 = linked (set es \<union> same p1)"
    using Cons.IH [OF p1(2)] by blast
  have "same p2 = linked (set (e # es) \<union> same p)"
    using linked_linked_Un [of "insert (x, y) (same p)" "set es"] by (simp add: p2(3) p1(3) e Un_commute Un_left_commute)
  then show ?case using p1 p2 by (simp add: e)
qed

end

section \<open>The dict of parents\<close>

type_synonym parent_map = "string \<rightharpoonup> string"

partial_function (option) uf_find :: "parent_map \<Rightarrow> string \<Rightarrow> (string \<times> parent_map) option" where
  "uf_find p k =
     (case p k of
        None \<Rightarrow> Some (k, p(k \<mapsto> k))
      | Some v \<Rightarrow>
          if v = k then Some (k, p)
          else Option.bind (uf_find p v) (\<lambda>(r, p'). Some (r, p'(k \<mapsto> r))))"

declare uf_find.simps [code]

definition uf_union :: "parent_map \<Rightarrow> string \<Rightarrow> string \<Rightarrow> parent_map option" where
  "uf_union p left right =
     Option.bind (uf_find p left) (\<lambda>(left_root, p).
     Option.bind (uf_find p right) (\<lambda>(right_root, p).
       Some (if left_root \<noteq> right_root then p(right_root \<mapsto> left_root) else p)))"

section \<open>Roots\<close>

inductive uf_root :: "parent_map \<Rightarrow> string \<Rightarrow> string \<Rightarrow> bool" for p where
  root_self: "p k = Some k \<Longrightarrow> uf_root p k k"
| root_up: "p k = Some v \<Longrightarrow> v \<noteq> k \<Longrightarrow> uf_root p v r \<Longrightarrow> uf_root p k r"

definition forest :: "parent_map \<Rightarrow> bool" where
  "forest p \<longleftrightarrow> (\<forall>k \<in> dom p. \<exists>r. uf_root p k r)"

lemma root_dom: "uf_root p k r \<Longrightarrow> k \<in> dom p"
  by (cases rule: uf_root.cases) auto

lemma root_root: "uf_root p k r \<Longrightarrow> p r = Some r"
  by (induction rule: uf_root.induct) auto

lemma root_at: "p k = Some v \<Longrightarrow> uf_root p k r \<longleftrightarrow> (if v = k then r = k else uf_root p v r)"
  by (auto intro: uf_root.intros elim: uf_root.cases)

lemma root_det: "uf_root p k r \<Longrightarrow> uf_root p k s \<Longrightarrow> s = r"
  by (induction arbitrary: s rule: uf_root.induct) (simp_all add: root_at)

lemma root_new:
  assumes "forest p" "p k = None"
  shows "uf_root (p(k \<mapsto> k)) z s \<longleftrightarrow> uf_root p z s \<or> z = k \<and> s = k"
proof
  assume "uf_root (p(k \<mapsto> k)) z s"
  then show "uf_root p z s \<or> z = k \<and> s = k"
  proof (induction rule: uf_root.induct)
    case (root_up z v r)
    then have z: "p z = Some v" "z \<noteq> k" by (auto split: if_splits)
    then obtain t where "uf_root p z t" using assms(1) by (auto simp: forest_def)
    then have "uf_root p v t" using z(1) root_up(2) by (simp add: root_at)
    then have "v \<noteq> k" using assms(2) by (auto dest: root_dom)
    then show ?case using root_up z by (simp add: root_at)
  qed (auto split: if_splits intro: uf_root.intros)
next
  assume "uf_root p z s \<or> z = k \<and> s = k"
  then show "uf_root (p(k \<mapsto> k)) z s"
  proof
    assume "uf_root p z s"
    then show ?thesis
    proof (induction rule: uf_root.induct)
      case (root_self x)
      then show ?case using assms(2) by (intro uf_root.root_self) (cases "x = k", simp_all)
    next
      case (root_up x v r)
      then show ?case using assms(2) by (intro uf_root.root_up [of _ x v]) (cases "x = k", simp_all)
    qed
  qed (auto intro: uf_root.root_self)
qed

lemma root_compress:
  assumes k: "uf_root p k r"
  shows "uf_root (p(k \<mapsto> r)) z s \<longleftrightarrow> uf_root p z s"
proof (cases "k = r")
  case True
  then show ?thesis using root_root [OF k] by (simp add: fun_upd_idem)
next
  case False
  have r: "p r = Some r" by (rule root_root [OF k])
  show ?thesis
  proof
    assume "uf_root (p(k \<mapsto> r)) z s"
    then show "uf_root p z s"
    proof (induction rule: uf_root.induct)
      case (root_self x)
      then show ?case using False by (auto split: if_splits intro: uf_root.root_self)
    next
      case (root_up x v s)
      show ?case
      proof (cases "x = k")
        case True
        then have "uf_root p r s" using root_up by simp
        then have "s = r" using r by (simp add: root_at)
        then show ?thesis using True k by simp
      qed (use root_up in \<open>simp add: root_at\<close>)
    qed
  next
    assume "uf_root p z s"
    then show "uf_root (p(k \<mapsto> r)) z s"
    proof (induction rule: uf_root.induct)
      case (root_self x)
      then have "x \<noteq> k" using k False by (auto simp: root_at)
      then show ?case using root_self by (simp add: root_at)
    next
      case (root_up x v s)
      show ?case
      proof (cases "x = k")
        case True
        then have "uf_root p v r" using root_up k by (simp add: root_at)
        then have "s = r" using root_up(3) by (rule root_det [symmetric, rotated])
        then show ?thesis using True False r by (simp add: root_at)
      qed (use root_up in \<open>simp add: root_at\<close>)
    qed
  qed
qed

lemma root_link:
  assumes r: "p a = Some a" "p b = Some b" "a \<noteq> b"
  shows "uf_root (p(b \<mapsto> a)) z s \<longleftrightarrow> (\<exists>t. uf_root p z t \<and> s = (if t = b then a else t))"
proof
  assume "uf_root (p(b \<mapsto> a)) z s"
  then show "\<exists>t. uf_root p z t \<and> s = (if t = b then a else t)"
  proof (induction rule: uf_root.induct)
    case (root_self x)
    then show ?case using r by (intro exI [of _ x]) (auto split: if_splits intro: uf_root.root_self)
  next
    case (root_up x v s)
    then obtain t where t: "uf_root p v t" "s = (if t = b then a else t)" by blast
    show ?case
    proof (cases "x = b")
      case True
      then have "t = a" using root_up t r by (auto simp: root_at)
      then show ?thesis using True t r by (intro exI [of _ b]) (simp add: root_at)
    next
      case False
      then show ?thesis using root_up t by (intro exI [of _ t]) (simp add: root_at)
    qed
  qed
next
  assume "\<exists>t. uf_root p z t \<and> s = (if t = b then a else t)"
  then obtain t where "uf_root p z t" and s: "s = (if t = b then a else t)" by blast
  then have "uf_root (p(b \<mapsto> a)) z (if t = b then a else t)"
  proof (induction rule: uf_root.induct)
    case (root_self x)
    have "uf_root (p(b \<mapsto> a)) a a" using r by (intro uf_root.root_self) simp
    then show ?case using r root_self by (cases "x = b") (simp_all add: root_at)
  next
    case (root_up x v t)
    then have "x \<noteq> b" using r by auto
    then show ?case using root_up by (simp add: root_at)
  qed
  then show "uf_root (p(b \<mapsto> a)) z s" by (simp only: s)
qed

section \<open>Correctness\<close>

definition uf_same :: "parent_map \<Rightarrow> (string \<times> string) set" where
  "uf_same p = {(x, y). x = y \<or> (\<exists>r. uf_root p x r \<and> uf_root p y r)}"

lemma uf_find_known:
  "uf_root p k r \<Longrightarrow> \<exists>p'. uf_find p k = Some (r, p') \<and> dom p' = dom p \<and> (\<forall>z s. uf_root p' z s \<longleftrightarrow> uf_root p z s)"
proof (induction rule: uf_root.induct)
  case (root_self k)
  then show ?case by (subst uf_find.simps) simp
next
  case (root_up k v r)
  then obtain p' where p': "uf_find p v = Some (r, p')" "dom p' = dom p" "\<forall>z s. uf_root p' z s \<longleftrightarrow> uf_root p z s" by blast
  have "uf_root p' k r" using p'(3) root_up by (simp add: root_at)
  then show ?case using root_up p' root_compress [of p' k r] by (subst uf_find.simps) auto
qed

lemma uf_find_ok:
  assumes "forest p"
  obtains r p' where "uf_find p k = Some (r, p')" "forest p'" "uf_root p' k r" "uf_same p' = uf_same p"
    "\<And>z s. uf_root p z s \<Longrightarrow> uf_root p' z s"
proof (cases "p k")
  case None
  have new: "uf_root (p(k \<mapsto> k)) z s \<longleftrightarrow> uf_root p z s \<or> z = k \<and> s = k" for z s
    by (rule root_new [OF assms None])
  have "\<not> uf_root p z k" for z using None root_root [of p z k] by auto
  then have "uf_same (p(k \<mapsto> k)) = uf_same p" by (auto simp: uf_same_def new)
  moreover have "forest (p(k \<mapsto> k))" using assms by (fastforce simp: forest_def new)
  moreover have "uf_find p k = Some (k, p(k \<mapsto> k))" using None by (subst uf_find.simps) simp
  ultimately show ?thesis by (intro that [of k "p(k \<mapsto> k)"]) (simp_all add: new)
next
  case (Some v)
  then obtain r where r: "uf_root p k r" using assms by (auto simp: forest_def)
  then obtain p' where p': "uf_find p k = Some (r, p')" "dom p' = dom p" "\<forall>z s. uf_root p' z s \<longleftrightarrow> uf_root p z s"
    using uf_find_known by blast
  then show ?thesis using that [of r p'] r assms by (simp add: forest_def uf_same_def)
qed

lemma uf_same_trans: "(a, b) \<in> uf_same p \<Longrightarrow> (b, c) \<in> uf_same p \<Longrightarrow> (a, c) \<in> uf_same p"
  unfolding uf_same_def using root_det [of p b] by blast

lemma linked_same: "linked (uf_same p) = uf_same p"
proof
  have "(x, y) \<in> uf_same p" if "(x, y) \<in> (uf_same p \<union> (uf_same p)\<inverse>)\<^sup>*" for x y
    using that
  proof (induction rule: rtrancl_induct)
    case base
    show ?case by (simp add: uf_same_def)
  next
    case (step y z)
    then have "(y, z) \<in> uf_same p" unfolding uf_same_def by blast
    then show ?case using step(3) uf_same_trans by blast
  qed
  then show "linked (uf_same p) \<subseteq> uf_same p" by (auto simp: linked_def)
qed (rule linked_base)

lemma uf_union_ok:
  assumes "forest p"
  shows "\<exists>p'. uf_union p x y = Some p' \<and> forest p' \<and> uf_same p' = linked (insert (x, y) (uf_same p))"
proof -
  obtain rx p1 where p1: "uf_find p x = Some (rx, p1)" "forest p1" "uf_root p1 x rx" "uf_same p1 = uf_same p"
    by (rule uf_find_ok [OF assms, of x])
  obtain ry p2 where p2: "uf_find p1 y = Some (ry, p2)" "forest p2" "uf_root p2 y ry" "uf_same p2 = uf_same p1"
    and up: "\<And>z s. uf_root p1 z s \<Longrightarrow> uf_root p2 z s"
    using uf_find_ok [OF p1(2), of y] by metis
  have x: "uf_root p2 x rx" by (rule up [OF p1(3)])
  have same2: "uf_same p2 = uf_same p" using p1(4) p2(4) by simp
  show ?thesis
  proof (cases "rx = ry")
    case True
    then have "(x, y) \<in> uf_same p2" using x p2(3) by (auto simp: uf_same_def)
    then have "linked (insert (x, y) (uf_same p)) = uf_same p2" using same2 linked_same [of p2] by (simp add: insert_absorb)
    then show ?thesis using p1(1) p2 True by (simp add: uf_union_def)
  next
    case False
    let ?p3 = "p2(ry \<mapsto> rx)"
    have link: "uf_root ?p3 z s \<longleftrightarrow> (\<exists>t. uf_root p2 z t \<and> s = (if t = ry then rx else t))" for z s
      using False root_root [OF x] root_root [OF p2(3)] by (intro root_link) auto
    have "ry \<in> dom p2" using root_root [OF p2(3)] by auto
    then have forest: "forest ?p3" using p2(2) by (auto simp: forest_def link insert_absorb)
    have xy: "(x, y) \<in> uf_same ?p3" using x p2(3) False by (auto simp: uf_same_def link)
    have "uf_root ?p3 a (if r = ry then rx else r)" if "uf_root p2 a r" for a r using that link by blast
    then have "uf_same p2 \<subseteq> uf_same ?p3" unfolding uf_same_def by blast
    with xy have "linked (insert (x, y) (uf_same p2)) \<subseteq> uf_same ?p3"
      using linked_mono [of "insert (x, y) (uf_same p2)" "uf_same ?p3"] linked_same by blast
    moreover have "uf_same ?p3 \<subseteq> linked (insert (x, y) (uf_same p2))"
    proof clarify
      fix u v assume "(u, v) \<in> uf_same ?p3"
      then consider "u = v" | s t where "uf_root p2 u s" "uf_root p2 v t" "(if s = ry then rx else s) = (if t = ry then rx else t)"
        by (auto simp: uf_same_def link)
      then show "(u, v) \<in> linked (insert (x, y) (uf_same p2))"
      proof cases
        case 2
        let ?E = "insert (x, y) (uf_same p2)"
        have in_E: "(a, b) \<in> linked ?E" if "uf_root p2 a r" "uf_root p2 b r" for a b r
          using that linked_base [of ?E] by (auto simp: uf_same_def)
        have xy: "(x, y) \<in> linked ?E" using linked_base [of ?E] by auto
        consider "s = t" | "s = ry" "t = rx" | "s = rx" "t = ry" using 2(3) by (auto split: if_splits)
        then show ?thesis
        proof cases
          case 1
          then show ?thesis using 2 in_E by blast
        next
          case 2
          have "(u, y) \<in> linked ?E" "(x, v) \<in> linked ?E"
            using in_E \<open>uf_root p2 u s\<close> \<open>uf_root p2 v t\<close> 2 x p2(3) by blast+
          then show ?thesis using linked_trans linked_sym xy by metis
        next
          case 3
          have "(u, x) \<in> linked ?E" "(y, v) \<in> linked ?E"
            using in_E \<open>uf_root p2 u s\<close> \<open>uf_root p2 v t\<close> 3 x p2(3) by blast+
          then show ?thesis using linked_trans xy by metis
        qed
      qed simp
    qed
    ultimately have "uf_same ?p3 = linked (insert (x, y) (uf_same p))" by (simp add: same2)
    then show ?thesis using p1(1) p2(1) False forest by (simp add: uf_union_def)
  qed
qed

interpretation uf: partition forest uf_same uf_union
  by unfold_locales (simp_all add: linked_same uf_union_ok)

lemma uf_empty: "forest Map.empty" "uf_same Map.empty = Id"
  by (auto simp: forest_def uf_same_def elim: uf_root.cases)

end
