(* ===== verification/Provenance.thy ===== *)
theory Provenance
  imports QueryPlanner "HOL-Library.Product_Lexorder"
begin

text \<open>
  \<open>news_pipeline/provenance.py\<close>: the reviewed publisher rules, their validation when a configuration
  is loaded, and the registry that classifies a URL by its most specific rule. The URL splitter and
  the IDNA codec of the standard library are parameters, as is the TOML parser (a configuration is
  the parsed document).
\<close>

section \<open>Hosts\<close>

text \<open>
  \<^item> \<open>url_hostname u\<close>: \<open>urlsplit(u).hostname\<close>, \<open>Inl ValueError\<close> where \<open>urlsplit\<close> raises.
  \<^item> \<open>idna_ascii h\<close>: \<open>h.encode("idna").decode("ascii")\<close>, \<open>None\<close> where it raises \<open>UnicodeError\<close>.
\<close>

record netlib =
  url_hostname :: "string \<Rightarrow> string option result"
  idna_ascii :: "string \<Rightarrow> string option"

definition normalize_publisher_host :: "netlib \<Rightarrow> pyval \<Rightarrow> string result" where
  "normalize_publisher_host N value =
     (case value of
        PStr s \<Rightarrow>
          if blank s then Inl ValueError
          else let raw = strip s in
            bind_result (url_hostname N (if contains ''://'' raw then raw else ''https://'' @ raw)) (\<lambda>host.
              case host of
                None \<Rightarrow> Inl ValueError
              | Some h \<Rightarrow>
                  if blank h then Inl ValueError
                  else (case idna_ascii N (rstrip_char (CHR ''.'') h) of
                      None \<Rightarrow> Inl ValueError
                    | Some a \<Rightarrow> if a = [] \<or> list_ex is_space (lower a) then Inl ValueError else Inr (lower a)))
      | _ \<Rightarrow> Inl ValueError)"

definition publisher_host_matches :: "string \<Rightarrow> string \<Rightarrow> bool" where
  "publisher_host_matches host rule_host \<longleftrightarrow>
     rule_host \<noteq> [] \<and> (host = rule_host \<or> ends_with (''.'' @ rule_host) host)"

section \<open>Rules\<close>

datatype source_role = DISCOVERY | PRIMARY | NEUTRAL | SPECIALIST

definition source_role_of :: "pyval \<Rightarrow> source_role result" where
  "source_role_of v =
     (if v = PStr ''discovery'' then Inr DISCOVERY
      else if v = PStr ''primary'' then Inr PRIMARY
      else if v = PStr ''neutral'' then Inr NEUTRAL
      else if v = PStr ''specialist'' then Inr SPECIALIST
      else Inl ValueError)"

definition prov_text :: "pyval \<Rightarrow> string result" where
  "prov_text v = (case v of PStr s \<Rightarrow> if blank s then Inl ValueError else Inr (strip s) | _ \<Rightarrow> Inl ValueError)"

definition prov_optional_text :: "pyval \<Rightarrow> unit result" where
  "prov_optional_text v = (if v = PNone then Inr () else bind_result (prov_text v) (\<lambda>_. Inr ()))"

definition text_values :: "pyval list \<Rightarrow> string list result" where
  "text_values vs =
     bind_result (map_result prov_text vs) (\<lambda>ss. if distinct ss then Inr ss else Inl ValueError)"

record publisher_rule =
  p_rule_id :: string
  p_host :: string
  p_source_role :: source_role
  p_group :: string
  p_categories :: "string list"
  p_entities :: "string list"
  p_allow_fetch :: bool
  p_enabled :: bool
  p_audit_note :: "string option"

text \<open>The constructor's \<open>__post_init__\<close>; fields are kept as given, except host and the two tuples.\<close>

definition as_bool :: "pyval \<Rightarrow> bool result" where
  "as_bool v = (case v of PBool b \<Rightarrow> Inr b | _ \<Rightarrow> Inl ValueError)"

definition make_rule ::
  "netlib \<Rightarrow> pyval \<Rightarrow> pyval \<Rightarrow> source_role \<Rightarrow> pyval \<Rightarrow> pyval list \<Rightarrow> pyval list \<Rightarrow> pyval \<Rightarrow> pyval \<Rightarrow> pyval \<Rightarrow>
     publisher_rule result" where
  "make_rule N rule_id host role grp categories entities allow enabled note =
     bind_result (prov_text rule_id) (\<lambda>_.
     bind_result (normalize_publisher_host N host) (\<lambda>host.
     bind_result (prov_text grp) (\<lambda>_.
     bind_result (text_values categories) (\<lambda>categories.
     bind_result (guard (set categories \<subseteq> set CATEGORY_VALUES) ValueError) (\<lambda>_.
     bind_result (text_values entities) (\<lambda>entities.
     bind_result (as_bool enabled) (\<lambda>enabled.
     bind_result (as_bool allow) (\<lambda>allow.
     bind_result (prov_optional_text note) (\<lambda>_.
       Inr \<lparr>p_rule_id = the (as_str rule_id), p_host = host, p_source_role = role, p_group = the (as_str grp),
         p_categories = categories, p_entities = entities, p_allow_fetch = allow, p_enabled = enabled,
         p_audit_note = as_str note\<rparr>)))))))))"

section \<open>Loading a configuration\<close>

definition required_keys :: "string list" where
  "required_keys = [''rule_id'', ''host'', ''source_role'', ''independence_group'', ''categories'']"

definition optional_keys :: "string list" where
  "optional_keys = [''authority_entities'', ''allow_article_fetch'', ''enabled'', ''audit_note'']"

definition exact_keys :: "pydict \<Rightarrow> unit result" where
  "exact_keys d = guard (set required_keys \<subseteq> fst ` set d \<and> fst ` set d \<subseteq> set (required_keys @ optional_keys)) ValueError"

definition entry_get :: "pydict \<Rightarrow> string \<Rightarrow> pyval \<Rightarrow> pyval" where
  "entry_get d k v = (case map_of d k of None \<Rightarrow> v | Some w \<Rightarrow> w)"

text \<open>\<open>_toml_strings\<close>: an array of non-empty strings without duplicates, stripped.\<close>

definition toml_strings :: "pyval \<Rightarrow> pyval list result" where
  "toml_strings v =
     (case v of PList vs \<Rightarrow> bind_result (text_values vs) (\<lambda>ss. Inr (map PStr ss)) | _ \<Rightarrow> Inl ValueError)"

definition load_rule :: "netlib \<Rightarrow> pyval \<Rightarrow> publisher_rule result" where
  "load_rule N entry =
     (case entry of
        PDict d \<Rightarrow>
          bind_result (exact_keys d) (\<lambda>_.
          bind_result (source_role_of (entry_get d ''source_role'' PNone)) (\<lambda>role.
          bind_result (toml_strings (entry_get d ''categories'' PNone)) (\<lambda>categories.
          bind_result (toml_strings (entry_get d ''authority_entities'' (PList []))) (\<lambda>entities.
            make_rule N (entry_get d ''rule_id'' PNone) (entry_get d ''host'' PNone) role
              (entry_get d ''independence_group'' PNone) categories entities
              (entry_get d ''allow_article_fetch'' (PBool False)) (entry_get d ''enabled'' (PBool True))
              (entry_get d ''audit_note'' (PStr []))))))
      | _ \<Rightarrow> Inl ValueError)"

definition load_provenance :: "netlib \<Rightarrow> pyval \<Rightarrow> publisher_rule list result" where
  "load_provenance N raw =
     (case raw of
        PDict d \<Rightarrow>
          if fst ` set d \<noteq> {''version'', ''publishers''} then Inl ValueError
          else if map_of d ''version'' \<noteq> Some (PInt 1) then Inl ValueError
          else (case map_of d ''publishers'' of
              Some (PList entries) \<Rightarrow>
                if entries = [] then Inl ValueError
                else bind_result (map_result (load_rule N) entries) (\<lambda>rules.
                  if distinct (map p_rule_id rules) then Inr rules else Inl ValueError)
            | _ \<Rightarrow> Inl ValueError)
      | _ \<Rightarrow> Inl ValueError)"

section \<open>The registry\<close>

record publisher_provenance =
  pp_host :: string
  pp_role :: source_role
  pp_group :: string
  pp_rule_id :: "string option"
  pp_authority_match :: bool
  pp_classified_at :: string
  pp_reason :: string

definition make_provenance :: "netlib \<Rightarrow> publisher_provenance \<Rightarrow> publisher_provenance result" where
  "make_provenance N p =
     bind_result (normalize_publisher_host N (PStr (pp_host p))) (\<lambda>host.
       if blank (pp_group p) \<or> blank (pp_classified_at p) \<or> blank (pp_reason p) then Inl ValueError
       else Inr (p\<lparr>pp_host := host\<rparr>))"

definition rank :: "string \<Rightarrow> publisher_rule \<Rightarrow> bool \<times> nat" where
  "rank host r = (host = p_host r, length (p_host r))"

definition candidates :: "publisher_rule list \<Rightarrow> string \<Rightarrow> string \<Rightarrow> publisher_rule list" where
  "candidates rules category host =
     filter (\<lambda>r. p_enabled r \<and> category \<in> set (p_categories r) \<and> publisher_host_matches host (p_host r)) rules"

text \<open>\<open>sorted(..., reverse=True)\<close> keeps the order of rules of the same rank.\<close>

definition ranked :: "string \<Rightarrow> publisher_rule list \<Rightarrow> publisher_rule list" where
  "ranked host rs = rev (sort_key (rank host) (rev rs))"

definition authority_of :: "publisher_rule \<Rightarrow> string option \<Rightarrow> bool result" where
  "authority_of r subject =
     (case subject of
        None \<Rightarrow> Inr False
      | Some s \<Rightarrow> bind_result (prov_text (PStr s)) (\<lambda>s. Inr (list_ex (\<lambda>e. casefold s = casefold e) (p_entities r))))"

definition classify ::
  "netlib \<Rightarrow> publisher_rule list \<Rightarrow> string \<Rightarrow> string \<Rightarrow> string \<Rightarrow> string option \<Rightarrow> publisher_provenance result" where
  "classify N rules url category classified_at subject =
     (if category \<notin> set CATEGORY_VALUES then Inl ValueError
      else bind_result (normalize_publisher_host N (PStr url)) (\<lambda>host.
        case ranked host (candidates rules category host) of
          [] \<Rightarrow> make_provenance N \<lparr>pp_host = host, pp_role = DISCOVERY, pp_group = ''unknown'', pp_rule_id = None,
                  pp_authority_match = False, pp_classified_at = classified_at, pp_reason = ''unknown_publisher''\<rparr>
        | r # rs \<Rightarrow>
            if length (filter (\<lambda>s. rank host s = rank host r) (r # rs)) \<noteq> 1 then Inl ValueError
            else bind_result (authority_of r subject) (\<lambda>authority.
              make_provenance N \<lparr>pp_host = host, pp_role = p_source_role r, pp_group = p_group r,
                pp_rule_id = Some (p_rule_id r), pp_authority_match = authority, pp_classified_at = classified_at,
                pp_reason = ''matched_rule''\<rparr>)))"

definition article_fetch_allowed :: "netlib \<Rightarrow> publisher_rule list \<Rightarrow> string \<Rightarrow> string \<Rightarrow> bool result" where
  "article_fetch_allowed N rules url category =
     bind_result (normalize_publisher_host N (PStr url)) (\<lambda>host.
       Inr (list_ex (\<lambda>r. p_enabled r \<and> p_allow_fetch r \<and> p_source_role r = PRIMARY \<and> category \<in> set (p_categories r) \<and>
         p_entities r \<noteq> [] \<and> p_host r = host) rules))"

section \<open>Classification\<close>

lemma ends_with_length: "ends_with p s \<Longrightarrow> length p \<le> length s"
  by (auto simp: ends_with_def starts_with_def dest: arg_cong [where f = length])

lemma matches_length:
  "publisher_host_matches host h \<Longrightarrow> length h \<le> length host \<and> (length h = length host \<longrightarrow> h = host)"
  by (auto simp: publisher_host_matches_def dest: ends_with_length)

lemma rank_less:
  assumes "publisher_host_matches host (p_host s)" "publisher_host_matches host (p_host r)" "rank host s < rank host r"
  shows "length (p_host s) < length (p_host r)"
  using assms matches_length [OF assms(1)] matches_length [OF assms(2)] by (auto simp: rank_def less_prod_def)

lemma ranked_first:
  assumes "ranked host cs = r # rs"
  shows "set (r # rs) = set cs" "\<And>s. s \<in> set cs \<Longrightarrow> rank host s \<le> rank host r" "length (r # rs) = length cs"
proof -
  have xs: "sort_key (rank host) (rev cs) = rev rs @ [r]" using assms by (simp add: ranked_def rev_eq_Cons_iff)
  show set: "set (r # rs) = set cs" using arg_cong [OF xs, of set] by auto
  show "length (r # rs) = length cs" using arg_cong [OF xs, of length] by simp
  have "sorted (map (rank host) (rev rs @ [r]))" unfolding xs [symmetric] by simp
  then show "rank host s \<le> rank host r" if "s \<in> set cs" for s using that set by (auto simp: sorted_append)
qed

lemma single_best:
  assumes "length (filter P (r # rs)) = 1" "P r" "s \<in> set (r # rs)" "s \<noteq> r"
  shows "\<not> P s"
  using assms by (auto simp: filter_empty_conv)

lemma make_provenance_Inr:
  "make_provenance N p = Inr q \<longleftrightarrow> (\<exists>host. normalize_publisher_host N (PStr (pp_host p)) = Inr host \<and>
     \<not> blank (pp_group p) \<and> \<not> blank (pp_classified_at p) \<and> \<not> blank (pp_reason p) \<and> q = p\<lparr>pp_host := host\<rparr>)"
  by (auto simp: make_provenance_def)

text \<open>
  C30: a successful classification is the most specific one. Without a candidate (an enabled rule of the
  category for the host or a parent domain of it) the publisher is unknown and only a discovery
  source; otherwise role, group and rule id are those of the candidate with the longest host, which
  is the only candidate for that host, and authority is granted only for a subject that is one of its
  entities up to case.
\<close>

theorem classify_most_specific:
  assumes "classify N rules url category classified_at subject = Inr p"
  shows "\<exists>host cs. normalize_publisher_host N (PStr url) = Inr host \<and> cs = candidates rules category host \<and>
    (case pp_rule_id p of
       None \<Rightarrow> cs = [] \<and> pp_role p = DISCOVERY \<and> pp_group p = ''unknown'' \<and> \<not> pp_authority_match p
     | Some i \<Rightarrow> \<exists>r \<in> set cs. p_rule_id r = i \<and> pp_role p = p_source_role r \<and> pp_group p = p_group r \<and>
         (\<forall>s \<in> set cs. s \<noteq> r \<longrightarrow> length (p_host s) < length (p_host r)) \<and>
         (pp_authority_match p \<longleftrightarrow> (\<exists>s. subject = Some s \<and> (\<exists>e \<in> set (p_entities r). casefold (strip s) = casefold e))))"
proof -
  obtain host where host: "normalize_publisher_host N (PStr url) = Inr host"
    using assms by (auto simp: classify_def split: if_splits)
  let ?cs = "candidates rules category host"
  show ?thesis
  proof (cases "ranked host ?cs")
    case Nil
    then have "?cs = []" by (simp add: ranked_def) (metis length_0_conv length_rev length_sort)
    then show ?thesis using assms host Nil
      by (auto simp: classify_def make_provenance_Inr split: if_splits)
  next
    case (Cons r rs)
    note first = ranked_first [OF Cons]
    from assms host Cons obtain authority where
      one: "length (filter (\<lambda>s. rank host s = rank host r) (r # rs)) = 1" and
      authority: "authority_of r subject = Inr authority" and
      p: "pp_rule_id p = Some (p_rule_id r)" "pp_role p = p_source_role r" "pp_group p = p_group r" "pp_authority_match p = authority"
      by (auto simp: classify_def make_provenance_Inr split: if_splits)
    have r: "r \<in> set ?cs" using first(1) by auto
    have "length (p_host s) < length (p_host r)" if s: "s \<in> set ?cs" "s \<noteq> r" for s
    proof (rule rank_less)
      show "publisher_host_matches host (p_host s)" "publisher_host_matches host (p_host r)"
        using s r by (auto simp: candidates_def)
      have "rank host s \<noteq> rank host r" using single_best [OF one, of s] s first(1) by auto
      then show "rank host s < rank host r" using first(2) [OF s(1)] by simp
    qed
    moreover have "authority \<longleftrightarrow> (\<exists>s. subject = Some s \<and> (\<exists>e \<in> set (p_entities r). casefold (strip s) = casefold e))"
      using authority by (auto simp: authority_of_def prov_text_def list_ex_iff split: option.splits if_splits)
    ultimately show ?thesis using host r p by (intro exI [of _ host] exI [of _ ?cs]) auto
  qed
qed

section \<open>Configurations\<close>

lemma load_rule_note:
  assumes "load_rule N (PDict d) = Inr r"
  shows "map_of d ''audit_note'' \<noteq> None"
proof
  assume "map_of d ''audit_note'' = None"
  then have "entry_get d ''audit_note'' (PStr []) = PStr []" by (simp add: entry_get_def)
  moreover have "prov_optional_text (entry_get d ''audit_note'' (PStr [])) = Inr ()"
    using assms by (auto simp: load_rule_def make_rule_def)
  ultimately show False by (simp add: prov_optional_text_def prov_text_def)
qed

text \<open>
  The configuration format lists \<open>audit_note\<close> as optional, with the empty string as its default, but
  the constructor refuses an empty note: an entry without one cannot be loaded.
\<close>

lemma audit_note_required:
  assumes "load_provenance N (PDict d) = Inr rules" "map_of d ''publishers'' = Some (PList entries)" "PDict f \<in> set entries"
  shows "map_of f ''audit_note'' \<noteq> None"
proof -
  have "\<exists>rs. map_result (load_rule N) entries = Inr rs" using assms(1,2) by (auto simp: load_provenance_def split: if_splits)
  then obtain r where "load_rule N (PDict f) = Inr r" using assms(3)
    by (induction entries) (auto split: sum.splits)
  then show ?thesis by (rule load_rule_note)
qed


section \<open>A registry\<close>

definition pv_lib :: netlib where
  "pv_lib = \<lparr>url_hostname = (\<lambda>u. Inr (Some (takeWhile (\<lambda>c. c \<noteq> CHR ''/'') (drop 8 u)))), idna_ascii = Some\<rparr>"

definition pv_rule :: "string \<Rightarrow> string \<Rightarrow> source_role \<Rightarrow> publisher_rule" where
  "pv_rule i host role = \<lparr>p_rule_id = i, p_host = host, p_source_role = role, p_group = i, p_categories = [''ai''],
     p_entities = [''Acme''], p_allow_fetch = False, p_enabled = True, p_audit_note = Some ''n''\<rparr>"

lemma classify_most_specific_witness:
  "\<exists>p. classify pv_lib [pv_rule ''net'' ''b.c'' NEUTRAL, pv_rule ''sub'' ''a.b.c'' PRIMARY] ''https://x.a.b.c/1'' ''ai'' ''t'' (Some ''acme'') = Inr p \<and>
     pp_rule_id p = Some ''sub'' \<and> pp_role p = PRIMARY \<and> pp_authority_match p"
proof -
  have c: "classify pv_lib [pv_rule ''net'' ''b.c'' NEUTRAL, pv_rule ''sub'' ''a.b.c'' PRIMARY] ''https://x.a.b.c/1'' ''ai'' ''t'' (Some ''acme'') =
      Inr \<lparr>pp_host = ''x.a.b.c'', pp_role = PRIMARY, pp_group = ''sub'', pp_rule_id = Some ''sub'', pp_authority_match = True,
        pp_classified_at = ''t'', pp_reason = ''matched_rule''\<rparr>" by code_simp
  show ?thesis using classify_most_specific [OF c] c by simp
qed

end
