(* ===== verification/Verification.thy ===== *)
theory Verification
  imports UnionFind Provenance
begin

text \<open>
  \<open>news_pipeline/verification.py\<close>: the rule that decides whether the evidence of a claim verifies
  it. Evidence rows that share a publisher group, a URL, a text hash or a wire parent count as one
  source; the sources are the components of a union-find.
\<close>

section \<open>Evidence rows\<close>

datatype verification_state = Unverified | Watchlist | Verified | Rejected

definition value_of :: "pyval option \<Rightarrow> string" where
  "value_of v = (case v of Some (PStr s) \<Rightarrow> strip s | _ \<Rightarrow> [])"

text \<open>A row after normalisation, as far as the rule reads it.\<close>

record evidence_row =
  ev_role :: string
  ev_source_role :: string
  ev_group :: string
  ev_authority :: "bool option"
  ev_registry_matched :: bool
  ev_tokens :: "string list"

definition has_key :: "pydict \<Rightarrow> string \<Rightarrow> bool" where
  "has_key d k \<longleftrightarrow> map_of d k \<noteq> None"

definition evidence_tokens :: "pydict \<Rightarrow> string \<Rightarrow> string list" where
  "evidence_tokens row grp = (''group:'' @ grp) # concat (map (\<lambda>field.
     case map_of row field of
       Some (PStr s) \<Rightarrow> if strip s = [] then [] else [field @ '':'' @ casefold (strip s)]
     | _ \<Rightarrow> [])
     [''canonical_url'', ''text_hash'', ''raw_content_hash'', ''syndicated_parent'', ''wire_parent''])"

definition normalize_row :: "pydict \<Rightarrow> evidence_row" where
  "normalize_row row =
     (let source_role_key = (if has_key row ''effective_source_role'' then ''effective_source_role'' else ''source_role'');
          source_role = value_of (map_of row source_role_key);
          grp = value_of (map_of row ''independence_group'');
          authority = (case map_of row ''authority_match'' of Some (PBool b) \<Rightarrow> Some b | _ \<Rightarrow> None) in
      \<lparr>ev_role = value_of (map_of row ''role''), ev_source_role = source_role, ev_group = grp,
       ev_authority = (if source_role_key = ''source_role'' \<and> \<not> has_key row ''authority_match''
                       then Some (source_role = ''primary'') else authority),
       ev_registry_matched = (map_of row ''registry_matched'' = Some (PBool True)),
       ev_tokens = evidence_tokens row grp\<rparr>)"

definition eligible :: "evidence_row \<Rightarrow> bool" where
  "eligible e \<longleftrightarrow> ev_role e \<noteq> ''contradicts'' \<and> ev_role e = ''supports'' \<and>
     ev_source_role e \<in> {''primary'', ''neutral'', ''specialist''} \<and> ev_group e \<noteq> [] \<and> ev_authority e \<noteq> None"

section \<open>The rule\<close>

definition row_key :: "nat \<Rightarrow> string" where
  "row_key i = ''row:'' @ show_nat i"

text \<open>The loop over the rows: candidates enter the union-find with their tokens.\<close>

fun gather :: "nat \<Rightarrow> evidence_row list \<Rightarrow> parent_map \<Rightarrow> ((evidence_row \<times> string) list \<times> parent_map) option" where
  "gather i [] p = Some ([], p)"
| "gather i (e # es) p =
     (if \<not> eligible e then gather (i + 1) es p
      else Option.bind (uf_find p (row_key i)) (\<lambda>(_, p).
        Option.bind (run_unions uf_union (map (Pair (row_key i)) (ev_tokens e)) p) (\<lambda>p.
        Option.bind (gather (i + 1) es p) (\<lambda>(cands, p). Some ((e, row_key i) # cands, p)))))"

text \<open>\<open>components.setdefault(root, set()).add(role)\<close>: the roles per root.\<close>

fun add_role :: "string \<Rightarrow> string \<Rightarrow> (string \<times> string list) list \<Rightarrow> (string \<times> string list) list" where
  "add_role r role [] = [(r, [role])]"
| "add_role r role ((r', roles) # cs) =
     (if r' = r then (r', if role \<in> set roles then roles else roles @ [role]) # cs else (r', roles) # add_role r role cs)"

fun components :: "(evidence_row \<times> string) list \<Rightarrow> parent_map \<Rightarrow> (string \<times> string list) list \<Rightarrow> (string \<times> string list) list option" where
  "components [] p cs = Some cs"
| "components ((e, key) # cands) p cs =
     Option.bind (uf_find p key) (\<lambda>(r, p). components cands p (add_role r (ev_source_role e) cs))"

text \<open>\<open>None\<close> stands for a search for a root that does not end.\<close>

definition verify_rows :: "evidence_row list \<Rightarrow> bool \<Rightarrow> verification_state option" where
  "verify_rows rows allow_single_outlet =
     Option.bind (gather 0 rows Map.empty) (\<lambda>(cands, p).
       if list_ex (\<lambda>e. ev_role e = ''contradicts'') rows then Some Watchlist
       else if list_ex (\<lambda>(e, _). ev_source_role e = ''primary'' \<and> ev_authority e = Some True) cands then Some Verified
       else Option.bind (components cands p []) (\<lambda>cs.
         Some (if 2 \<le> length cs \<and> list_ex (\<lambda>(_, roles). list_ex (\<lambda>r. r \<in> {''neutral'', ''specialist''}) roles) cs then Verified
           else if allow_single_outlet \<and> length cs = 1 \<and> list_ex (\<lambda>(e, _). ev_registry_matched e) cands then Verified
           else Unverified)))"

text \<open>The operator switch \<open>NEWS_SINGLE_OUTLET_ENABLED\<close>.\<close>

definition single_outlet_enabled :: "string option \<Rightarrow> bool result" where
  "single_outlet_enabled raw =
     (case raw of None \<Rightarrow> Inr True
      | Some s \<Rightarrow>
          if casefold (strip s) \<in> {''1'', ''true'', ''yes'', ''on''} then Inr True
          else if casefold (strip s) \<in> {''0'', ''false'', ''no'', ''off''} then Inr False
          else Inl ValueError)"

definition verify_evidence :: "pydict list \<Rightarrow> bool option \<Rightarrow> string option \<Rightarrow> verification_state option result" where
  "verify_evidence evidence allow_single_outlet env =
     bind_result (case allow_single_outlet of Some b \<Rightarrow> Inr b | None \<Rightarrow> single_outlet_enabled env) (\<lambda>allow.
       Inr (verify_rows (map normalize_row evidence) allow))"

section \<open>The specification\<close>

text \<open>Two pieces of evidence share a source if they share a token; sources spread along chains.\<close>

definition shares :: "evidence_row list \<Rightarrow> (nat \<times> nat) set" where
  "shares cs = {(i, j). i < length cs \<and> j < length cs \<and> set (ev_tokens (cs ! i)) \<inter> set (ev_tokens (cs ! j)) \<noteq> {}}"

definition independent :: "evidence_row list \<Rightarrow> bool" where
  "independent cs \<longleftrightarrow> (\<exists>i < length cs. \<exists>j < length cs. (i, j) \<notin> (shares cs)\<^sup>*)"

definition verify_spec :: "evidence_row list \<Rightarrow> bool \<Rightarrow> verification_state" where
  "verify_spec rows allow =
     (let cs = filter eligible rows in
      if \<exists>e \<in> set rows. ev_role e = ''contradicts'' then Watchlist
      else if \<exists>e \<in> set cs. ev_source_role e = ''primary'' \<and> ev_authority e = Some True then Verified
      else if independent cs \<and> (\<exists>e \<in> set cs. ev_source_role e \<in> {''neutral'', ''specialist''}) then Verified
      else if allow \<and> cs \<noteq> [] \<and> \<not> independent cs \<and> (\<exists>e \<in> set cs. ev_registry_matched e) then Verified
      else Unverified)"

section \<open>From tokens to components\<close>

definition token_edges :: "(evidence_row \<times> string) list \<Rightarrow> (string \<times> string) set" where
  "token_edges cands = {(k, t). \<exists>e. (e, k) \<in> set cands \<and> t \<in> set (ev_tokens e)}"

text \<open>Keys are nodes of their own: following shared tokens between keys is following \<open>shares\<close>.\<close>

lemma linked_tokens:
  assumes keys: "distinct (map snd cands)" "\<And>e k t. (e, k) \<in> set cands \<Longrightarrow> t \<in> \<Union> (set ` ev_tokens ` fst ` set cands) \<Longrightarrow> k \<noteq> t"
    and i: "i < length cands" and j: "j < length cands"
  shows "(snd (cands ! i), snd (cands ! j)) \<in> linked (token_edges cands) \<longleftrightarrow> (i, j) \<in> (shares (map fst cands))\<^sup>*"
proof
  let ?key = "\<lambda>m. snd (cands ! m)" and ?tok = "\<lambda>m. set (ev_tokens (fst (cands ! m)))"
  have edge: "(x, t) \<in> token_edges cands \<longleftrightarrow> (\<exists>m < length cands. x = ?key m \<and> t \<in> ?tok m)" for x t
    by (force simp: token_edges_def in_set_conv_nth)
  have key_inj: "m = m'" if "?key m = ?key m'" "m < length cands" "m' < length cands" for m m'
    using that keys(1) nth_eq_iff_index_eq [of "map snd cands" m m'] by simp
  have key_tok: "?key m \<notin> ?tok m'" if "m < length cands" "m' < length cands" for m m'
  proof
    assume t: "?key m \<in> ?tok m'"
    have "(fst (cands ! m), ?key m) \<in> set cands" "cands ! m' \<in> set cands" using that by simp_all
    then show False using keys(2) t by blast
  qed
  have share: "(m, m') \<in> shares (map fst cands) \<longleftrightarrow> m < length cands \<and> m' < length cands \<and> ?tok m \<inter> ?tok m' \<noteq> {}" for m m'
    by (auto simp: shares_def)
  {
    assume "(?key i, ?key j) \<in> linked (token_edges cands)"
    moreover have "\<exists>m < length cands. (i, m) \<in> (shares (map fst cands))\<^sup>* \<and> (x = ?key m \<or> x \<in> ?tok m)"
      if "(?key i, x) \<in> (token_edges cands \<union> (token_edges cands)\<inverse>)\<^sup>*" for x
      using that
    proof (induction rule: rtrancl_induct)
      case base
      then show ?case using i by blast
    next
      case (step x y)
      then obtain m where m: "m < length cands" "(i, m) \<in> (shares (map fst cands))\<^sup>*" "x = ?key m \<or> x \<in> ?tok m" by blast
      from step(2) consider (down) n where "n < length cands" "x = ?key n" "y \<in> ?tok n"
        | (up) n where "n < length cands" "y = ?key n" "x \<in> ?tok n" by (auto simp: edge)
      then show ?case
      proof cases
        case down
        then have "n = m" using m key_inj key_tok by metis
        then show ?thesis using m down by blast
      next
        case up
        then have "x \<in> ?tok m" using m key_tok by metis
        then have "(m, n) \<in> shares (map fst cands)" using up m share by blast
        then have "(i, n) \<in> (shares (map fst cands))\<^sup>*" using m(2) by (rule rtrancl.rtrancl_into_rtrancl [rotated])
        then show ?thesis using up by blast
      qed
    qed
    ultimately obtain m where "m < length cands" "(i, m) \<in> (shares (map fst cands))\<^sup>*" "?key j = ?key m \<or> ?key j \<in> ?tok m"
      unfolding linked_def by blast
    then show "(i, j) \<in> (shares (map fst cands))\<^sup>*" using key_inj [of j] key_tok [of j] j by blast
  }
  assume "(i, j) \<in> (shares (map fst cands))\<^sup>*"
  then show "(?key i, ?key j) \<in> linked (token_edges cands)"
  proof (induction rule: rtrancl_induct)
    case (step m n)
    then obtain t where "t \<in> ?tok m" "t \<in> ?tok n" "m < length cands" "n < length cands" using share by blast
    then have "(?key m, t) \<in> token_edges cands" "(?key n, t) \<in> token_edges cands" using edge by blast+
    then have "(?key m, ?key n) \<in> linked (token_edges cands)"
      by (meson linked_base linked_sym linked_trans subsetD)
    then show ?case by (rule linked_trans [OF step(3)])
  qed simp
qed

declare show_nat_inject [simp]

lemma gather_ok:
  assumes "forest p"
  shows "\<exists>cands p'. gather i es p = Some (cands, p') \<and> forest p' \<and> map fst cands = filter eligible es \<and>
    uf_same p' = linked (token_edges cands \<union> uf_same p) \<and>
    (\<forall>(e, k) \<in> set cands. \<exists>m \<ge> i. k = row_key m) \<and> distinct (map snd cands)"
  using assms
proof (induction es arbitrary: i p)
  case Nil
  then show ?case by (simp add: token_edges_def linked_same)
next
  case (Cons e es)
  show ?case
  proof (cases "eligible e")
    case False
    obtain cands p' where IH: "gather (i + 1) es p = Some (cands, p')" "forest p'" "map fst cands = filter eligible es"
        "uf_same p' = linked (token_edges cands \<union> uf_same p)"
        "\<forall>(e, k) \<in> set cands. \<exists>m \<ge> i + 1. k = row_key m" "distinct (map snd cands)"
      using Cons.IH [OF Cons.prems, of "i + 1"] by blast
    have "\<forall>(e, k) \<in> set cands. \<exists>m \<ge> i. k = row_key m" using IH(5) add_leD1 [of i 1] by blast
    then show ?thesis using False IH by auto
  next
    case True
    obtain r p1 where p1: "uf_find p (row_key i) = Some (r, p1)" "forest p1" "uf_same p1 = uf_same p"
      using uf_find_ok [OF Cons.prems, of "row_key i"] by metis
    let ?es = "map (Pair (row_key i)) (ev_tokens e)"
    obtain p2 where p2: "run_unions uf_union ?es p1 = Some p2" "forest p2" "uf_same p2 = linked (set ?es \<union> uf_same p1)"
      using uf.unions [OF p1(2), of ?es] by blast
    obtain cands p' where IH: "gather (i + 1) es p2 = Some (cands, p')" "forest p'" "map fst cands = filter eligible es"
        "uf_same p' = linked (token_edges cands \<union> uf_same p2)"
        "\<forall>(e, k) \<in> set cands. \<exists>m \<ge> i + 1. k = row_key m" "distinct (map snd cands)"
      using Cons.IH [OF p2(2), of "i + 1"] by blast
    have "token_edges ((e, row_key i) # cands) = set ?es \<union> token_edges cands" by (auto simp: token_edges_def)
    then have "uf_same p' = linked (token_edges ((e, row_key i) # cands) \<union> uf_same p)"
      using linked_linked_Un [of "set ?es \<union> uf_same p" "token_edges cands"] by (simp add: IH(4) p2(3) p1(3) Un_ac)
    moreover have "row_key i \<notin> snd ` set cands" using IH(5) by (force simp: row_key_def)
    moreover have "\<forall>(e, k) \<in> set cands. \<exists>m \<ge> i. k = row_key m" using IH(5) add_leD1 [of i 1] by blast
    ultimately show ?thesis using True p1 p2 IH by auto
  qed
qed

lemma add_role_props:
  "set (map fst (add_role r role cs)) = insert r (set (map fst cs))"
  "distinct (map fst cs) \<Longrightarrow> distinct (map fst (add_role r role cs))"
  "\<Union> (set ` snd ` set (add_role r role cs)) = insert role (\<Union> (set ` snd ` set cs))"
proof -
  show k: "set (map fst (add_role r role cs)) = insert r (set (map fst cs))" for r role cs
    by (induction r role cs rule: add_role.induct) auto
  show "distinct (map fst cs) \<Longrightarrow> distinct (map fst (add_role r role cs))"
    by (induction r role cs rule: add_role.induct) (use k in auto)
  show "\<Union> (set ` snd ` set (add_role r role cs)) = insert role (\<Union> (set ` snd ` set cs))"
    by (induction r role cs rule: add_role.induct) auto
qed

lemma components_ok:
  assumes "forest p" "\<forall>k \<in> snd ` set cands. uf_root p k (f k)" "distinct (map fst cs)"
  shows "\<exists>cs'. components cands p cs = Some cs' \<and> distinct (map fst cs') \<and>
    set (map fst cs') = set (map fst cs) \<union> f ` snd ` set cands \<and>
    \<Union> (set ` snd ` set cs') = \<Union> (set ` snd ` set cs) \<union> (\<lambda>(e, k). ev_source_role e) ` set cands"
  using assms
proof (induction cands arbitrary: p cs)
  case (Cons c cands)
  obtain e k where c: "c = (e, k)" by (cases c)
  obtain r p' where p': "uf_find p k = Some (r, p')" "forest p'" "uf_root p' k r" "\<And>z s. uf_root p z s \<Longrightarrow> uf_root p' z s"
    using uf_find_ok [OF Cons.prems(1), of k] by metis
  have "uf_root p' k (f k)" using Cons.prems(2) c p'(4) by simp
  then have r: "r = f k" using root_det p'(3) by blast
  have "\<forall>k \<in> snd ` set cands. uf_root p' k (f k)" using Cons.prems(2) p'(4) by auto
  from Cons.IH [OF p'(2) this add_role_props(2) [OF Cons.prems(3), where r = r and role = "ev_source_role e"]]
  obtain cs' where cs': "components cands p' (add_role r (ev_source_role e) cs) = Some cs'" "distinct (map fst cs')"
      "set (map fst cs') = set (map fst (add_role r (ev_source_role e) cs)) \<union> f ` snd ` set cands"
      "\<Union> (set ` snd ` set cs') = \<Union> (set ` snd ` set (add_role r (ev_source_role e) cs)) \<union> (\<lambda>(e, k). ev_source_role e) ` set cands"
    by (elim exE conjE) (rule that)
  show ?case
    using cs'(1,2) cs'(3) [unfolded add_role_props(1)] cs'(4) [unfolded add_role_props(3)]
    by (intro exI [of _ cs'] conjI) (auto simp: c p'(1) r)
qed simp

section \<open>The rule meets its specification\<close>

lemma normalize_tokens:
  assumes "t \<in> set (ev_tokens (normalize_row row))"
  shows "t \<noteq> row_key i"
proof -
  have "t \<in> set (evidence_tokens row g)" if "g = value_of (map_of row ''independence_group'')" for g
    using assms that by (simp add: normalize_row_def Let_def)
  then show ?thesis
    by (auto simp: evidence_tokens_def row_key_def split: option.splits pyval.splits if_splits)
qed

lemma two_roots:
  assumes "distinct (map fst cs)" "set (map fst cs) = A"
  shows "2 \<le> length cs \<longleftrightarrow> (\<exists>a \<in> A. \<exists>b \<in> A. a \<noteq> b)" "length cs = 1 \<longleftrightarrow> A \<noteq> {} \<and> \<not> (\<exists>a \<in> A. \<exists>b \<in> A. a \<noteq> b)"
proof -
  have card: "card A = length cs" "finite A" using assms distinct_card [OF assms(1)] by auto
  have eq: "(\<exists>a \<in> A. \<exists>b \<in> A. a \<noteq> b) \<longleftrightarrow> \<not> card A \<le> 1"
    using card(2) card_le_Suc0_iff_eq [of A] by auto
  show "2 \<le> length cs \<longleftrightarrow> (\<exists>a \<in> A. \<exists>b \<in> A. a \<noteq> b)" using eq card by auto
  have "A \<noteq> {} \<longleftrightarrow> card A \<noteq> 0" using card(2) by simp
  then show "length cs = 1 \<longleftrightarrow> A \<noteq> {} \<and> \<not> (\<exists>a \<in> A. \<exists>b \<in> A. a \<noteq> b)"
    unfolding eq card(1) [symmetric] by linarith
qed

lemma verify_rows_ok:
  assumes tok: "\<And>e t i. e \<in> set rows \<Longrightarrow> t \<in> set (ev_tokens e) \<Longrightarrow> t \<noteq> row_key i"
    and some: "\<And>e. e \<in> set rows \<Longrightarrow> ev_tokens e \<noteq> []"
  shows "verify_rows rows allow = Some (verify_spec rows allow)"
proof -
  obtain cands p where g: "gather 0 rows Map.empty = Some (cands, p)" "forest p" "map fst cands = filter eligible rows"
      "uf_same p = linked (token_edges cands \<union> Id)" "\<forall>(e, k) \<in> set cands. \<exists>m \<ge> 0. k = row_key m" "distinct (map snd cands)"
    using gather_ok [OF uf_empty(1), of 0 rows, unfolded uf_empty(2)] by (elim exE conjE) (rule that)
  let ?cs = "filter eligible rows"
  have len: "length ?cs = length cands" by (simp add: g(3) [symmetric])
  have same: "uf_same p = linked (token_edges cands)"
    using g(4) linked_linked_Un [of "{}" "token_edges cands"] by (simp add: linked_def Un_commute)
  have fst_mem: "fst ` set cands = set ?cs" using g(3) by (metis list.set_map)
  have keys: "k \<noteq> t" if ek: "(e, k) \<in> set cands" and t: "t \<in> \<Union> (set ` ev_tokens ` fst ` set cands)" for e k t
  proof -
    obtain e' where "e' \<in> set rows" "t \<in> set (ev_tokens e')" using t fst_mem by auto
    moreover obtain m where "k = row_key m" using g(5) ek by blast
    ultimately show ?thesis using tok by metis
  qed
  have rooted: "\<exists>r. uf_root p k r" if ek: "(e, k) \<in> set cands" for e k
  proof -
    have "e \<in> set rows" using ek fst_mem by force
    then obtain t where t: "t \<in> set (ev_tokens e)" using some [of e] by (cases "ev_tokens e") auto
    then have "(k, t) \<in> uf_same p" using ek linked_base [of "token_edges cands"] by (auto simp: same token_edges_def)
    moreover have "k \<noteq> t"
    proof (rule keys [OF ek])
      show "t \<in> \<Union> (set ` ev_tokens ` fst ` set cands)" using t ek by force
    qed
    ultimately show ?thesis by (auto simp: uf_same_def)
  qed
  define f where "f k = (SOME r. uf_root p k r)" for k
  have f: "\<forall>k \<in> snd ` set cands. uf_root p k (f k)" using someI_ex [OF rooted] by (auto simp: f_def)
  obtain cs where cs: "components cands p [] = Some cs" "distinct (map fst cs)" "set (map fst cs) = f ` snd ` set cands"
      "\<Union> (set ` snd ` set cs) = (\<lambda>(e, k). ev_source_role e) ` set cands"
    using components_ok [OF g(2) f, of "[]"] by auto
  have f_nth: "f (snd (cands ! i)) = f (snd (cands ! j)) \<longleftrightarrow> (i, j) \<in> (shares ?cs)\<^sup>*"
    if "i < length cands" "j < length cands" for i j
  proof -
    have r: "uf_root p (snd (cands ! i)) (f (snd (cands ! i)))" "uf_root p (snd (cands ! j)) (f (snd (cands ! j)))"
      using f that by auto
    have "f (snd (cands ! i)) = f (snd (cands ! j)) \<longleftrightarrow> (snd (cands ! i), snd (cands ! j)) \<in> uf_same p"
    proof
      assume "(snd (cands ! i), snd (cands ! j)) \<in> uf_same p"
      then consider "snd (cands ! i) = snd (cands ! j)"
        | t where "uf_root p (snd (cands ! i)) t" "uf_root p (snd (cands ! j)) t" by (auto simp: uf_same_def)
      then show "f (snd (cands ! i)) = f (snd (cands ! j))"
        by cases (simp, metis r root_det)
    qed (use r in \<open>auto simp: uf_same_def\<close>)
    then show ?thesis using linked_tokens [OF g(6) keys that] by (simp add: same g(3))
  qed
  have two: "(\<exists>a \<in> f ` snd ` set cands. \<exists>b \<in> f ` snd ` set cands. a \<noteq> b) \<longleftrightarrow> independent ?cs"
  proof -
    have "f ` snd ` set cands = (\<lambda>c. f (snd c)) ` ((!) cands ` {..<length cands})"
      by (simp add: image_image set_conv_nth setcompr_eq_image lessThan_def)
    then have img: "f ` snd ` set cands = (\<lambda>i. f (snd (cands ! i))) ` {..<length cands}" by (simp add: image_image)
    have "(\<exists>a \<in> f ` snd ` set cands. \<exists>b \<in> f ` snd ` set cands. a \<noteq> b) \<longleftrightarrow>
        (\<exists>i < length cands. \<exists>j < length cands. f (snd (cands ! i)) \<noteq> f (snd (cands ! j)))"
      unfolding img by blast
    also have "\<dots> \<longleftrightarrow> (\<exists>i < length cands. \<exists>j < length cands. (i, j) \<notin> (shares ?cs)\<^sup>*)"
      using f_nth by metis
    finally show ?thesis by (simp only: independent_def len)
  qed
  note lens = two_roots [OF cs(2,3), unfolded two]
  have empty: "f ` snd ` set cands \<noteq> {} \<longleftrightarrow> ?cs \<noteq> []" using len by auto
  have ex: "list_ex (\<lambda>(e, _). P e) cands \<longleftrightarrow> (\<exists>e \<in> set ?cs. P e)" for P
    unfolding fst_mem [symmetric] by (force simp: list_ex_iff)
  have roles: "list_ex (\<lambda>(_, roles). list_ex Q roles) cs \<longleftrightarrow> (\<exists>e \<in> set ?cs. Q (ev_source_role e))" for Q
  proof -
    have "list_ex (\<lambda>(_, roles). list_ex Q roles) cs \<longleftrightarrow> (\<exists>r \<in> \<Union> (set ` snd ` set cs). Q r)"
      by (simp add: list_ex_iff split_beta)
    also have "\<dots> \<longleftrightarrow> (\<exists>e \<in> fst ` set cands. Q (ev_source_role e))" unfolding cs(4) by force
    finally show ?thesis unfolding fst_mem .
  qed
  let ?primary = "\<lambda>e. ev_source_role e = ''primary'' \<and> ev_authority e = Some True"
  have primary: "list_ex (\<lambda>(e, _). ?primary e) cands = (\<exists>e \<in> set ?cs. ?primary e)" by (rule ex)
  have matched: "list_ex (\<lambda>(e, _). ev_registry_matched e) cands = (\<exists>e \<in> set ?cs. ev_registry_matched e)" by (rule ex)
  have contra: "list_ex (\<lambda>e. ev_role e = ''contradicts'') rows = (\<exists>e \<in> set rows. ev_role e = ''contradicts'')"
    by (rule list_ex_iff)
  have role: "list_ex (\<lambda>(_, roles). list_ex (\<lambda>r. r \<in> {''neutral'', ''specialist''}) roles) cs =
      (\<exists>e \<in> set ?cs. ev_source_role e \<in> {''neutral'', ''specialist''})" by (rule roles)
  show ?thesis
    unfolding verify_rows_def verify_spec_def Let_def g(1) bind.bind_lunit prod.case contra primary cs(1) role lens empty matched
    by auto
qed

lemma verify_rows_normalized:
  "verify_rows (map normalize_row evidence) allow = Some (verify_spec (map normalize_row evidence) allow)"
proof (rule verify_rows_ok)
  show "t \<noteq> row_key i" if "e \<in> set (map normalize_row evidence)" "t \<in> set (ev_tokens e)" for e t i
    using that normalize_tokens by auto
  show "ev_tokens e \<noteq> []" if "e \<in> set (map normalize_row evidence)" for e
    using that by (auto simp: normalize_row_def evidence_tokens_def Let_def)
qed

text \<open>
  C11: the rule with its union-find decides exactly as the declarative rule: contradicting evidence
  puts a claim on the watchlist; a primary authority verifies it; otherwise two supporting rows that
  no chain of shared tokens connects verify it if some row is neutral or specialist, and one source
  does if the single-outlet switch is on and a row matched the registry. In particular the search for
  roots always ends. A malformed switch is the error of the call, whatever the evidence.
\<close>

theorem verify_evidence_meets_spec:
  "verify_evidence evidence allow env =
     bind_result (case allow of Some b \<Rightarrow> Inr b | None \<Rightarrow> single_outlet_enabled env) (\<lambda>allow.
       Inr (Some (verify_spec (map normalize_row evidence) allow)))"
  by (simp add: verify_evidence_def verify_rows_normalized)

section \<open>Provenance of a row\<close>

text \<open>
  A subject that is only a number (\<open>_NUMERIC_AUTHORITY_SUBJECT\<close>, matched in full): a sign, digits
  with a fraction, an exponent, a per cent sign. Each part is followed by a character the part
  before cannot take, so the match needs no backtracking.
\<close>

definition skip_sign :: "string \<Rightarrow> string" where
  "skip_sign s = (case s of c # r \<Rightarrow> if c = CHR ''+'' \<or> c = CHR ''-'' then r else s | [] \<Rightarrow> [])"

definition skip_mantissa :: "string \<Rightarrow> string option" where
  "skip_mantissa s =
     (case dropWhile is_digit s of
        CHR ''.'' # r \<Rightarrow>
          if takeWhile is_digit s = [] \<and> takeWhile is_digit r = [] then None else Some (dropWhile is_digit r)
      | r \<Rightarrow> if takeWhile is_digit s = [] then None else Some r)"

definition skip_exponent :: "string \<Rightarrow> string" where
  "skip_exponent s =
     (case s of
        c # r \<Rightarrow>
          if (c = CHR ''e'' \<or> c = CHR ''E'') \<and> takeWhile is_digit (skip_sign r) \<noteq> []
          then dropWhile is_digit (skip_sign r) else s
      | [] \<Rightarrow> [])"

definition numeric_subject :: "string \<Rightarrow> bool" where
  "numeric_subject s =
     (case skip_mantissa (skip_sign s) of
        None \<Rightarrow> False
      | Some r \<Rightarrow> skip_exponent r \<in> {[], ''%''})"

definition authority_entity_matches :: "string \<Rightarrow> pyval list option \<Rightarrow> bool" where
  "authority_entity_matches subject entities =
     (case entities of
        None \<Rightarrow> False
      | Some es \<Rightarrow>
          \<not> blank subject \<and> \<not> numeric_subject (strip subject) \<and>
          list_ex (\<lambda>e. case e of
              PStr t \<Rightarrow> \<not> blank t \<and> casefold (strip subject) = casefold (strip t)
            | _ \<Rightarrow> False) es)"

text \<open>\<open>v in vs\<close>, where Python compares numbers and truth values by their value.\<close>

definition num_value :: "pyval \<Rightarrow> rat option" where
  "num_value v =
     (case v of
        PBool b \<Rightarrow> Some (if b then 1 else 0)
      | PInt i \<Rightarrow> Some (of_int i)
      | PFloat (Finite q) \<Rightarrow> Some q
      | PFloat NegZero \<Rightarrow> Some 0
      | _ \<Rightarrow> None)"

definition py_in :: "pyval \<Rightarrow> pyval list \<Rightarrow> bool" where
  "py_in v vs = list_ex (\<lambda>w. v = w \<or> num_value v \<noteq> None \<and> num_value v = num_value w) vs"

definition known_text :: "pyval \<Rightarrow> bool" where
  "known_text v = (case v of PStr s \<Rightarrow> \<not> blank s \<and> strip s \<noteq> ''unknown'' | _ \<Rightarrow> False)"

definition text_list :: "pyval list \<Rightarrow> bool" where
  "text_list vs = list_all (\<lambda>v. case v of PStr s \<Rightarrow> \<not> blank s | _ \<Rightarrow> False) vs"

definition loads_list :: "pylib \<Rightarrow> pyval \<Rightarrow> pyval option" where
  "loads_list L v = (case v of PStr s \<Rightarrow> json_loads L s | _ \<Rightarrow> None)"

definition roles3 :: "pyval set" where
  "roles3 = {PStr ''primary'', PStr ''neutral'', PStr ''specialist''}"

text \<open>The current registry entry of the source, all \<open>None\<close> where the caller has none.\<close>

record registry_entry =
  reg_enabled :: pyval
  reg_role :: pyval
  reg_group :: pyval
  reg_host :: pyval
  reg_categories :: pyval

definition registry_identity_valid :: "pylib \<Rightarrow> registry_entry \<Rightarrow> pyval \<Rightarrow> pyval \<Rightarrow> bool" where
  "registry_identity_valid L reg host category =
     (reg_enabled reg = PBool True \<and> reg_role reg \<in> roles3 \<and> known_text (reg_group reg) \<and>
      (case (host, reg_host reg) of (PStr h, PStr r) \<Rightarrow> publisher_host_matches h r | _ \<Rightarrow> False) \<and>
      (case (case reg_categories reg of PStr _ \<Rightarrow> loads_list L (reg_categories reg) | v \<Rightarrow> Some v) of
         Some (PList scope) \<Rightarrow> py_in category scope | _ \<Rightarrow> False))"

definition identity_valid :: "pyval \<Rightarrow> pyval \<Rightarrow> pyval \<Rightarrow> pyval \<Rightarrow> pyval option \<Rightarrow> pyval option \<Rightarrow> pyval \<Rightarrow> bool" where
  "identity_valid role grp rule_id host scopes entities category =
     (role \<in> roles3 \<and> known_text grp \<and>
      (case rule_id of PStr r \<Rightarrow> \<not> blank r | _ \<Rightarrow> False) \<and> known_text host \<and>
      (case scopes of Some (PList ss) \<Rightarrow> text_list ss \<and> py_in category ss | _ \<Rightarrow> False) \<and>
      (case entities of Some (PList es) \<Rightarrow> text_list es | _ \<Rightarrow> False))"

definition strip_val :: "pyval \<Rightarrow> pyval" where
  "strip_val v = (case v of PStr s \<Rightarrow> PStr (strip s) | _ \<Rightarrow> v)"

definition json_fails :: "pylib \<Rightarrow> pyval \<Rightarrow> bool" where
  "json_fails L v = (case v of PStr s \<Rightarrow> json_loads L s = None | _ \<Rightarrow> False)"

definition evidence_dict :: "pyval \<Rightarrow> pyval \<Rightarrow> pyval \<Rightarrow> pyval \<Rightarrow> bool \<Rightarrow> pydict" where
  "evidence_dict role source_role grp authority matched =
     [(''role'', role), (''effective_source_role'', source_role), (''independence_group'', grp),
      (''authority_match'', authority), (''registry_matched'', PBool matched)]"

definition claim_specific_evidence_row :: "pylib \<Rightarrow> pyval list \<Rightarrow> string \<Rightarrow> registry_entry \<Rightarrow> pydict" where
  "claim_specific_evidence_row L row subject reg =
     (if length row \<noteq> 9 \<or> blank subject then
        evidence_dict (if row = [] then PStr [] else row ! 0) (PStr []) (PStr []) PNone False
      else
        let stored_authority = row ! 3; host = row ! 5; category = row ! 8;
            failed = (json_fails L (row ! 6) \<or> json_fails L (row ! 7));
            scopes = (if failed then None else loads_list L (row ! 6));
            entities = (if failed then None else loads_list L (row ! 7));
            registered = registry_identity_valid L reg host category;
            role = (if registered then reg_role reg else row ! 1);
            grp = (if registered then reg_group reg else row ! 2);
            valid = identity_valid role grp (row ! 4) host scopes entities category;
            calculated = (valid \<and> role = PStr ''primary'' \<and>
              authority_entity_matches subject (case entities of Some (PList es) \<Rightarrow> Some es | _ \<Rightarrow> Some []));
            authority = ((case stored_authority of PBool b \<Rightarrow> b | PInt i \<Rightarrow> i \<noteq> 0 | _ \<Rightarrow> False) \<and> calculated) in
        evidence_dict (row ! 0) (if valid then role else PStr []) (if valid then strip_val grp else PStr [])
          (PBool authority) (registered \<and> \<not> numeric_subject (strip subject)))"

section \<open>Only known publishers count\<close>

lemma value_of_simps [simp]: "value_of (Some (PStr s)) = strip s" "value_of None = []"
  by (simp_all add: value_of_def)

lemma normalize_evidence_dict:
  "ev_role (normalize_row (evidence_dict r s g a m)) = value_of (Some r)"
  "ev_source_role (normalize_row (evidence_dict r s g a m)) = value_of (Some s)"
  "ev_authority (normalize_row (evidence_dict r s g a m)) = (case a of PBool b \<Rightarrow> Some b | _ \<Rightarrow> None)"
  "ev_registry_matched (normalize_row (evidence_dict r s g a m)) = m"
  by (simp_all add: normalize_row_def evidence_dict_def has_key_def Let_def split: pyval.splits)

definition claim_rows :: "pylib \<Rightarrow> string \<Rightarrow> (pyval list \<times> registry_entry) list \<Rightarrow> evidence_row list" where
  "claim_rows L subject rows = map (\<lambda>(row, reg). normalize_row (claim_specific_evidence_row L row subject reg)) rows"

lemma claim_row_eligible:
  assumes "eligible (normalize_row (claim_specific_evidence_row L row subject reg))"
  shows "length row = 9 \<and> value_of (Some (row ! 0)) = ''supports'' \<and> known_text (row ! 5)"
proof -
  have "length row = 9 \<and> \<not> blank subject" using assms
    by (rule contrapos_pp) (auto simp: claim_specific_evidence_row_def eligible_def normalize_evidence_dict)
  then show ?thesis using assms
    by (auto simp: claim_specific_evidence_row_def eligible_def normalize_evidence_dict Let_def identity_valid_def strip_def
      split: if_splits)
qed

lemma numeric_claim_row:
  assumes "numeric_subject (strip subject)"
  shows "\<not> ev_registry_matched (normalize_row (claim_specific_evidence_row L row subject reg))"
    "ev_authority (normalize_row (claim_specific_evidence_row L row subject reg)) \<noteq> Some True"
  using assms
  by (auto simp: claim_specific_evidence_row_def normalize_evidence_dict Let_def authority_entity_matches_def
    split: option.splits pyval.splits)

text \<open>
  a claim comes out verified only if no row contradicts it and some supporting row is a full
  nine-column snapshot with a known publisher host (never a blank or \<open>unknown\<close> one); a claim about a
  bare number is verified only by two sources that no chain of shared tokens connects, never by a
  primary authority or by the single-outlet rule.
\<close>

theorem verified_needs_provenance:
  assumes "verify_evidence (map (\<lambda>(row, reg). claim_specific_evidence_row L row subject reg) rows) allow env = Inr (Some Verified)"
  shows "(\<exists>(row, reg) \<in> set rows. length row = 9 \<and> value_of (Some (row ! 0)) = ''supports'' \<and> known_text (row ! 5)) \<and>
    (\<forall>e \<in> set (claim_rows L subject rows). ev_role e \<noteq> ''contradicts'') \<and>
    (numeric_subject (strip subject) \<longrightarrow> independent (filter eligible (claim_rows L subject rows)))"
proof -
  let ?ev = "map (\<lambda>(row, reg). claim_specific_evidence_row L row subject reg) rows"
  have rows: "map normalize_row ?ev = claim_rows L subject rows" by (simp add: claim_rows_def split_beta)
  obtain b where "verify_rows (map normalize_row ?ev) b = Some Verified"
    using assms by (auto simp: verify_evidence_def)
  then have spec: "verify_spec (claim_rows L subject rows) b = Verified"
    using verify_rows_normalized [of ?ev b] unfolding rows by simp
  have "\<exists>e \<in> set (claim_rows L subject rows). eligible e"
    using spec by (auto simp: verify_spec_def Let_def filter_empty_conv split: if_splits)
  then have "\<exists>(row, reg) \<in> set rows. length row = 9 \<and> value_of (Some (row ! 0)) = ''supports'' \<and> known_text (row ! 5)"
    using claim_row_eligible by (fastforce simp: claim_rows_def)
  moreover have "\<forall>e \<in> set (claim_rows L subject rows). ev_role e \<noteq> ''contradicts''"
    using spec by (auto simp: verify_spec_def Let_def split: if_splits)
  moreover have "independent (filter eligible (claim_rows L subject rows))" if "numeric_subject (strip subject)"
    using spec numeric_claim_row [OF that] by (auto simp: verify_spec_def Let_def claim_rows_def split: if_splits)
  ultimately show ?thesis by blast
qed


definition vf_lib :: pylib where
  "vf_lib = \<lparr>sha256_hexdigest = (\<lambda>s. []), fromisoformat_utc = (\<lambda>s. None),
     json_loads = (\<lambda>s. Some (PList (if s = [] then [] else [PStr s]))), float_repr = (\<lambda>f. []), container_str = (\<lambda>v. [])\<rparr>"

definition vf_row :: "string \<Rightarrow> pyval list" where
  "vf_row grp = [PStr ''supports'', PStr ''neutral'', PStr grp, PInt 0, PStr ''r1'', PStr ''a.example'', PStr ''tech'',
     PStr [], PStr ''tech'']"

definition vf_entry :: registry_entry where
  "vf_entry = \<lparr>reg_enabled = PBool False, reg_role = PNone, reg_group = PNone, reg_host = PNone, reg_categories = PNone\<rparr>"

lemma verified_needs_provenance_witness:
  "numeric_subject (strip ''42%'') \<and>
   independent (filter eligible (claim_rows vf_lib ''42%'' [(vf_row ''g1'', vf_entry), (vf_row ''g2'', vf_entry)]))"
proof -
  have num: "numeric_subject (strip ''42%'')" by code_simp
  have rows: "verify_evidence (map (\<lambda>(row, reg). claim_specific_evidence_row vf_lib row ''42%'' reg)
      [(vf_row ''g1'', vf_entry), (vf_row ''g2'', vf_entry)]) (Some True) None = Inr (Some Verified)"
    by (code_simp)
  show ?thesis using verified_needs_provenance [OF rows] num by blast
qed

end
