(* ===== verification/Phase6Recovery.thy ===== *)
theory Phase6Recovery
  imports Timestamps
begin

text \<open>
  Recovery evaluation of the observation sandbox (\<open>news_pipeline/phase6/time_inputs.py\<close> and
  \<open>recovery.py\<close>): the caller's clock, the validation of job inputs, the calendar arithmetic behind
  it, the age bands, and the batch that stores the inputs of observable jobs. The session database
  is its tables as row lists in insertion order, with the constraints of \<open>schema.py\<close>.
\<close>

section \<open>Errors\<close>

datatype p6_error =
    Phase6IdentityError
  | RecoveryIdentityError | RecoveryConsistencyError | RecoveryBatchError | RecoveryDuplicateError | RecoverySchemaError
  | AuditIdentityError | AuditConsistencyError | AuditMissingInputError | AuditBatchError | AuditConflictError
  | AuditSchemaError
  | OutboxIdentityError | OutboxConsistencyError | OutboxMissingInputError | OutboxBatchError | OutboxConflictError
  | OutboxSchemaError

type_synonym 'a p6_result = "p6_error + 'a"

section \<open>Texts\<close>

text \<open>
  \<open>re.match\<close> with a pattern \<open>^[...]{lo,hi}$\<close>: the dollar sign also matches before a final newline.
\<close>

definition line_body :: "string \<Rightarrow> string" where
  "line_body s = (if s \<noteq> [] \<and> last s = char_of (10 :: nat) then butlast s else s)"

definition class_match :: "(char \<Rightarrow> bool) \<Rightarrow> nat \<Rightarrow> nat \<Rightarrow> string \<Rightarrow> bool" where
  "class_match cls lo hi s =
     (lo \<le> length (line_body s) \<and> length (line_body s) \<le> hi \<and> list_all cls (line_body s))"

definition is_upper :: "char \<Rightarrow> bool" where
  "is_upper c = (let n = (of_char c :: nat) in 65 \<le> n \<and> n \<le> 90)"

definition is_alnum :: "char \<Rightarrow> bool" where
  "is_alnum c = (let n = (of_char c :: nat) in 65 \<le> n \<and> n \<le> 90 \<or> 97 \<le> n \<and> n \<le> 122 \<or> 48 \<le> n \<and> n \<le> 57)"

definition job_id_char :: "char \<Rightarrow> bool" where
  "job_id_char c = (is_alnum c \<or> c \<in> {CHR ''.'', CHR ''_'', CHR ''-''})"

definition source_state_char :: "char \<Rightarrow> bool" where
  "source_state_char c = (is_upper c \<or> is_digit c \<or> c \<in> {CHR ''_'', CHR '':'', CHR ''-''})"

definition hex64 :: "string \<Rightarrow> bool" where
  "hex64 s = (length s = 64 \<and> list_all is_hex s)"

definition INT64_MAX :: int where
  "INT64_MAX = 2 ^ 63 - 1"

section \<open>The caller's clock\<close>

record external_context =
  now_utc_iso :: string
  context_timezone :: "string option"
  clock_drift_seconds :: "int option"

fun zulu_tail :: "string \<Rightarrow> bool" where
  "zulu_tail (c # ds) =
     (if c = CHR ''.'' then
        ds \<noteq> [] \<and> last ds = CHR ''Z'' \<and> 1 \<le> length (butlast ds) \<and> length (butlast ds) \<le> 6 \<and> list_all is_digit (butlast ds)
      else c = CHR ''Z'' \<and> ds = [])"
| "zulu_tail [] = False"

definition ISO8601_ZULU :: "string \<Rightarrow> bool" where
  "ISO8601_ZULU s =
     (unrender layout_s (take 19 (line_body s)) \<noteq> None \<and> zulu_tail (drop 19 (line_body s)))"

definition is_leap_year :: "int \<Rightarrow> bool" where
  "is_leap_year year = (year mod 4 = 0 \<and> year mod 100 \<noteq> 0 \<or> year mod 400 = 0)"

definition days_in_month :: "int \<Rightarrow> int \<Rightarrow> int" where
  "days_in_month year month =
     (if month \<in> {1, 3, 5, 7, 8, 10, 12} then 31
      else if month \<in> {4, 6, 9, 11} then 30
      else if is_leap_year year then 29 else 28)"

definition slice :: "nat \<Rightarrow> nat \<Rightarrow> string \<Rightarrow> string" where
  "slice a b s = take (b - a) (drop a s)"

definition int_at :: "nat \<Rightarrow> nat \<Rightarrow> string \<Rightarrow> int" where
  "int_at a b s = int (num (slice a b s))"

definition calendar_ok :: "int \<Rightarrow> int \<Rightarrow> int \<Rightarrow> int \<Rightarrow> int \<Rightarrow> int \<Rightarrow> bool" where
  "calendar_ok year month day hour minute second \<longleftrightarrow>
     1 \<le> month \<and> month \<le> 12 \<and> 1 \<le> day \<and> day \<le> days_in_month year month \<and>
     0 \<le> hour \<and> hour \<le> 23 \<and> 0 \<le> minute \<and> minute \<le> 59 \<and> 0 \<le> second \<and> second \<le> 60"

definition validate_iso8601_utc :: "string \<Rightarrow> string p6_result" where
  "validate_iso8601_utc value =
     (if \<not> ISO8601_ZULU value then Inl Phase6IdentityError
      else if \<not> calendar_ok (int_at 0 4 value) (int_at 5 7 value) (int_at 8 10 value)
                (int_at 11 13 value) (int_at 14 16 value) (int_at 17 19 value) then Inl Phase6IdentityError
      else Inr value)"

definition validate_external_context :: "external_context \<Rightarrow> string p6_result" where
  "validate_external_context ctx =
     bind_result (validate_iso8601_utc (now_utc_iso ctx)) (\<lambda>canonical.
       case clock_drift_seconds ctx of
         None \<Rightarrow> Inr canonical
       | Some drift \<Rightarrow> if drift < 0 \<or> 86400 < drift then Inl Phase6IdentityError else Inr canonical)"

section \<open>Calendar arithmetic\<close>

definition seconds_from_utc_calendar :: "int \<Rightarrow> int \<Rightarrow> int \<Rightarrow> int \<Rightarrow> int \<Rightarrow> int \<Rightarrow> int p6_result" where
  "seconds_from_utc_calendar year month day hour minute second =
     (if \<not> calendar_ok year month day hour minute second then Inl RecoveryIdentityError
      else
        let y = year - (if month \<le> 2 then 1 else 0);
            era = (if 0 \<le> y then y div 400 else (y - 399) div 400);
            yoe = y - era * 400;
            m = month + (if month \<le> 2 then 9 else - 3);
            doy = (153 * m + 2) div 5 + day - 1;
            doe = yoe * 365 + yoe div 4 - yoe div 100 + doy;
            days = era * 146097 + doe - 719468 in
        Inr (((days * 24 + hour) * 60 + minute) * 60 + second))"

definition parse_canonical_utc_to_seconds :: "string \<Rightarrow> int p6_result" where
  "parse_canonical_utc_to_seconds value =
     (case validate_iso8601_utc value of
        Inl _ \<Rightarrow> Inl RecoveryIdentityError
      | Inr _ \<Rightarrow>
          let main = takeWhile (\<lambda>c. c \<noteq> CHR ''.'') (butlast value) in
          seconds_from_utc_calendar (int_at 0 4 main) (int_at 5 7 main) (int_at 8 10 main)
            (int_at 11 13 main) (int_at 14 16 main) (int_at 17 19 main))"

section \<open>Job inputs\<close>

record job_input =
  j_job_id :: string
  j_reference_utc :: string
  j_evaluation_utc :: string
  j_age_seconds :: int
  j_source_state :: string

text \<open>The field checks, with the error classes of the module that applies them.\<close>

definition check_job_id :: "p6_error \<Rightarrow> string \<Rightarrow> unit p6_result" where
  "check_job_id e s = guard (s \<noteq> [] \<and> length s \<le> 128 \<and> class_match job_id_char 1 128 s) e"

definition check_source_state :: "p6_error \<Rightarrow> string \<Rightarrow> unit p6_result" where
  "check_source_state e s = guard (s \<noteq> [] \<and> length s \<le> 64 \<and> class_match source_state_char 1 64 s) e"

definition check_age :: "p6_error \<Rightarrow> p6_error \<Rightarrow> int \<Rightarrow> unit p6_result" where
  "check_age identity consistency n =
     (if n < 0 then Inl consistency else guard (n \<le> INT64_MAX) identity)"

definition check_timestamp_field :: "string \<Rightarrow> unit p6_result" where
  "check_timestamp_field s = guard (length s \<le> 32) RecoveryIdentityError"

definition validate_job_input :: "job_input \<Rightarrow> job_input p6_result" where
  "validate_job_input job =
     bind_result (check_job_id RecoveryIdentityError (j_job_id job)) (\<lambda>_.
     bind_result (check_timestamp_field (j_reference_utc job)) (\<lambda>_.
     bind_result (check_timestamp_field (j_evaluation_utc job)) (\<lambda>_.
     bind_result (check_age RecoveryIdentityError RecoveryConsistencyError (j_age_seconds job)) (\<lambda>_.
     bind_result (check_source_state RecoveryIdentityError (j_source_state job)) (\<lambda>_.
     bind_result (parse_canonical_utc_to_seconds (j_reference_utc job)) (\<lambda>reference_seconds.
     bind_result (parse_canonical_utc_to_seconds (j_evaluation_utc job)) (\<lambda>evaluation_seconds.
       if evaluation_seconds < reference_seconds then Inl RecoveryConsistencyError
       else if evaluation_seconds - reference_seconds \<noteq> j_age_seconds job then Inl RecoveryConsistencyError
       else Inr job)))))))"

definition canonical_input_json :: "pylib \<Rightarrow> job_input \<Rightarrow> string" where
  "canonical_input_json L job = json_dumps L (PDict
     [(''job_id'', PStr (j_job_id job)), (''reference_utc'', PStr (j_reference_utc job)),
      (''evaluation_utc'', PStr (j_evaluation_utc job)), (''age_seconds'', PInt (j_age_seconds job)),
      (''source_state'', PStr (j_source_state job))])"

definition band_for_age :: "int \<Rightarrow> string \<times> string" where
  "band_for_age age =
     (if age < 300 then (''BAND_NO_OBSERVATION'', ''NO_OBSERVATION'')
      else if age < 600 then (''BAND_EXPIRED'', ''EXPIRED'')
      else (''BAND_STALE'', ''STALE''))"

section \<open>The session database\<close>

text \<open>
  Rows carry the columns of \<open>schema.py\<close>. \<open>columns\<close> is what \<open>PRAGMA table_info\<close> lists for a
  table, nothing for a missing one; \<open>foreign_keys\<close> is the connection's setting (off unless set).
\<close>

record input_row =
  ir_job_id :: string
  ir_reference_utc :: string
  ir_age_seconds :: int
  ir_source_state :: string
  ir_canonical_json :: string
  ir_sha256 :: string

record audit_row =
  ar_event_sha256 :: string
  ar_job_id :: string
  ar_event_kind :: string
  ar_result_value :: string
  ar_evaluation_utc :: string
  ar_age_seconds :: int
  ar_input_sha256 :: string
  ar_canonical_json :: string

record dry_run_row =
  or_payload_sha256 :: string
  or_event_sha256 :: string
  or_job_id :: string
  or_result_value :: string
  or_age_seconds :: int
  or_state :: string
  or_template_id :: string
  or_canonical_json :: string
  or_session_id :: string
  or_evaluation_utc :: string
  or_credential_free :: int
  or_delivery_evidence :: int

record session_db =
  user_version :: int
  columns :: "string \<Rightarrow> string list"
  foreign_keys :: bool
  evaluation_inputs :: "input_row list"
  audit_events :: "audit_row list"
  dry_run_outbox :: "dry_run_row list"

text \<open>The constraints of \<open>evaluation_inputs\<close>; \<open>None\<close> is \<open>sqlite3.IntegrityError\<close>.\<close>

definition input_row_ok :: "input_row \<Rightarrow> bool" where
  "input_row_ok r \<longleftrightarrow> 0 \<le> ir_age_seconds r \<and>
     1 \<le> length (ir_source_state r) \<and> length (ir_source_state r) \<le> 64 \<and> list_all source_state_char (ir_source_state r) \<and>
     hex64 (ir_sha256 r)"

definition insert_input :: "input_row \<Rightarrow> session_db \<Rightarrow> session_db option" where
  "insert_input r db =
     (if tbl_find ir_job_id (ir_job_id r) (evaluation_inputs db) \<noteq> None \<or> \<not> input_row_ok r then None
      else Some (db\<lparr>evaluation_inputs := tbl_insert r (evaluation_inputs db)\<rparr>))"

section \<open>Evaluating a batch\<close>

record evaluation_result =
  r_job_id :: string
  r_result :: string
  r_age_band :: string
  r_age_seconds :: int
  r_reference_utc :: string
  r_evaluation_utc :: string
  r_source_state :: string
  r_input_sha256 :: string
  r_persisted :: bool

definition has_columns :: "session_db \<Rightarrow> string \<Rightarrow> string list \<Rightarrow> bool" where
  "has_columns db table required \<longleftrightarrow> list_all (\<lambda>c. c \<in> set (columns db table)) required"

definition input_columns :: "string list" where
  "input_columns = [''job_id'', ''reference_utc'', ''age_seconds'', ''source_state'', ''canonical_input_json'', ''input_sha256'']"

definition verify_recovery_db :: "session_db \<Rightarrow> unit p6_result" where
  "verify_recovery_db db =
     guard (user_version db = 1 \<and> has_columns db ''evaluation_inputs'' input_columns) RecoverySchemaError"

definition batch_size_ok :: "'a list \<Rightarrow> p6_error \<Rightarrow> unit p6_result" where
  "batch_size_ok xs e = guard (xs \<noteq> [] \<and> length xs \<le> 1024) e"

definition input_row_of :: "pylib \<Rightarrow> job_input \<Rightarrow> input_row" where
  "input_row_of L job =
     \<lparr>ir_job_id = j_job_id job, ir_reference_utc = j_reference_utc job, ir_age_seconds = j_age_seconds job,
      ir_source_state = j_source_state job, ir_canonical_json = canonical_input_json L job,
      ir_sha256 = sha256_hexdigest L (canonical_input_json L job)\<rparr>"

definition will_persist :: "job_input \<Rightarrow> bool" where
  "will_persist job \<longleftrightarrow> snd (band_for_age (j_age_seconds job)) \<noteq> ''NO_OBSERVATION''"

fun insert_inputs :: "pylib \<Rightarrow> job_input list \<Rightarrow> session_db \<Rightarrow> unit p6_result \<times> session_db" where
  "insert_inputs L [] db = (Inr (), db)"
| "insert_inputs L (job # jobs) db =
     (if \<not> will_persist job then insert_inputs L jobs db
      else case insert_input (input_row_of L job) db of
          None \<Rightarrow> (Inl RecoveryDuplicateError, db)
        | Some db' \<Rightarrow> insert_inputs L jobs db')"

definition evaluation_of :: "pylib \<Rightarrow> job_input \<Rightarrow> evaluation_result" where
  "evaluation_of L job =
     \<lparr>r_job_id = j_job_id job, r_result = snd (band_for_age (j_age_seconds job)),
      r_age_band = fst (band_for_age (j_age_seconds job)), r_age_seconds = j_age_seconds job,
      r_reference_utc = j_reference_utc job, r_evaluation_utc = j_evaluation_utc job,
      r_source_state = j_source_state job,
      r_input_sha256 = (if will_persist job then sha256_hexdigest L (canonical_input_json L job) else []),
      r_persisted = will_persist job\<rparr>"

text \<open>The checks before the transaction, in the order of the code.\<close>

definition evaluation_plan :: "pylib \<Rightarrow> external_context \<Rightarrow> job_input list \<Rightarrow> session_db \<Rightarrow> job_input list p6_result" where
  "evaluation_plan L ctx inputs db =
     bind_result (batch_size_ok inputs RecoveryBatchError) (\<lambda>_.
     bind_result (guard (distinct (map j_job_id inputs)) RecoveryBatchError) (\<lambda>_.
     bind_result (map_result validate_job_input inputs) (\<lambda>validated.
     bind_result (case validate_external_context ctx of Inl _ \<Rightarrow> Inl RecoveryIdentityError | Inr _ \<Rightarrow> Inr ()) (\<lambda>_.
     bind_result (verify_recovery_db db) (\<lambda>_.
     bind_result (guard (list_all (\<lambda>j. tbl_find ir_job_id (j_job_id j) (evaluation_inputs db) = None) validated)
       RecoveryDuplicateError) (\<lambda>_.
     bind_result (guard (list_all (\<lambda>j. length (canonical_input_json L j) \<le> 1024) validated) RecoveryIdentityError) (\<lambda>_.
       Inr validated)))))))"

definition evaluate_batch ::
  "pylib \<Rightarrow> external_context \<Rightarrow> job_input list \<Rightarrow> session_db \<Rightarrow> evaluation_result list p6_result \<times> session_db" where
  "evaluate_batch L ctx inputs db =
     (case evaluation_plan L ctx inputs db of
        Inl e \<Rightarrow> (Inl e, db)
      | Inr validated \<Rightarrow>
          (case immediate_tx (insert_inputs L validated) db of
             (Inl e, db) \<Rightarrow> (Inl e, db)
           | (Inr _, db) \<Rightarrow> (Inr (map (evaluation_of L) validated), db)))"

section \<open>What each operation appends\<close>

lemma insert_inputs_Inr:
  assumes "insert_inputs L jobs db = (Inr (), db')"
  shows "db' = db\<lparr>evaluation_inputs := evaluation_inputs db @ map (input_row_of L) (filter will_persist jobs)\<rparr>"
    and "tbl_keyed ir_job_id (evaluation_inputs db) \<Longrightarrow> tbl_keyed ir_job_id (evaluation_inputs db')"
    and "list_all (\<lambda>j. input_row_ok (input_row_of L j)) (filter will_persist jobs)"
proof -
  have "db' = db\<lparr>evaluation_inputs := evaluation_inputs db @ map (input_row_of L) (filter will_persist jobs)\<rparr> \<and>
      (tbl_keyed ir_job_id (evaluation_inputs db) \<longrightarrow> tbl_keyed ir_job_id (evaluation_inputs db')) \<and>
      list_all (\<lambda>j. input_row_ok (input_row_of L j)) (filter will_persist jobs)"
    using assms
  proof (induction jobs arbitrary: db)
    case (Cons job jobs)
    show ?case
    proof (cases "will_persist job")
      case True
      then obtain db1 where db1: "insert_input (input_row_of L job) db = Some db1" "insert_inputs L jobs db1 = (Inr (), db')"
        using Cons.prems by (auto split: option.splits)
      then show ?thesis using True Cons.IH [OF db1(2)]
        by (auto simp: insert_input_def tbl_insert_def tbl_keyed_def tbl_find_None split: if_splits)
    qed (use Cons in simp)
  qed simp
  then show "db' = db\<lparr>evaluation_inputs := evaluation_inputs db @ map (input_row_of L) (filter will_persist jobs)\<rparr>"
    "tbl_keyed ir_job_id (evaluation_inputs db) \<Longrightarrow> tbl_keyed ir_job_id (evaluation_inputs db')"
    "list_all (\<lambda>j. input_row_ok (input_row_of L j)) (filter will_persist jobs)" by blast+
qed

lemma insert_inputs_total:
  assumes "distinct (map j_job_id jobs)" "list_all (\<lambda>j. j_job_id j \<notin> ir_job_id ` set (evaluation_inputs db)) jobs"
    "list_all (\<lambda>j. input_row_ok (input_row_of L j)) (filter will_persist jobs)"
  shows "\<exists>db'. insert_inputs L jobs db = (Inr (), db')"
  using assms
proof (induction jobs arbitrary: db)
  case (Cons job jobs)
  show ?case
  proof (cases "will_persist job")
    case True
    let ?db1 = "db\<lparr>evaluation_inputs := tbl_insert (input_row_of L job) (evaluation_inputs db)\<rparr>"
    have job: "insert_input (input_row_of L job) db = Some ?db1"
      using Cons.prems True by (auto simp: insert_input_def tbl_find_None input_row_of_def)
    have "list_all (\<lambda>j. j_job_id j \<notin> ir_job_id ` set (evaluation_inputs ?db1)) jobs"
      using Cons.prems(1,2) by (auto simp: list_all_iff input_row_of_def image_iff)
    then show ?thesis using Cons.IH [of ?db1] Cons.prems True job by simp
  qed (use Cons in simp)
qed simp

lemma evaluation_plan_Inr:
  assumes "evaluation_plan L ctx inputs db = Inr validated"
  shows "validated = inputs" "inputs \<noteq> []" "length inputs \<le> 1024" "distinct (map j_job_id inputs)"
    "\<And>j. j \<in> set inputs \<Longrightarrow> validate_job_input j = Inr j"
    "\<And>j. j \<in> set inputs \<Longrightarrow> j_job_id j \<notin> ir_job_id ` set (evaluation_inputs db)"
    "\<And>j. j \<in> set inputs \<Longrightarrow> length (canonical_input_json L j) \<le> 1024"
    "user_version db = 1" "\<exists>now. validate_external_context ctx = Inr now"
proof -
  have val: "validate_job_input j = Inr k \<Longrightarrow> k = j" for j k
    by (auto simp: validate_job_input_def split: if_splits)
  from assms have m: "map_result validate_job_input inputs = Inr validated"
    and rest: "inputs \<noteq> []" "length inputs \<le> 1024" "distinct (map j_job_id inputs)"
      "list_all (\<lambda>j. tbl_find ir_job_id (j_job_id j) (evaluation_inputs db) = None) validated"
      "list_all (\<lambda>j. length (canonical_input_json L j) \<le> 1024) validated"
      "user_version db = 1" "\<exists>now. validate_external_context ctx = Inr now"
    by (auto simp: evaluation_plan_def batch_size_ok_def verify_recovery_db_def split: sum.splits)
  from m have all2: "list_all2 (\<lambda>j k. validate_job_input j = Inr k) inputs validated" by (simp add: map_result_Inr_iff)
  show eq: "validated = inputs"
    using all2 by (induction rule: list_all2_induct) (auto dest: val)
  show "validate_job_input j = Inr j" if "j \<in> set inputs" for j
    using m that unfolding eq by (simp add: map_result_same)
  show "inputs \<noteq> []" "length inputs \<le> 1024" "distinct (map j_job_id inputs)"
    "user_version db = 1" "\<exists>now. validate_external_context ctx = Inr now" by fact+
  show "j_job_id j \<notin> ir_job_id ` set (evaluation_inputs db)" "length (canonical_input_json L j) \<le> 1024"
    if "j \<in> set inputs" for j
    using rest(4,5) that unfolding eq by (auto simp: list_all_iff tbl_find_None)
qed

lemma evaluate_batch_Inr:
  assumes "evaluate_batch L ctx inputs db = (Inr results, db')"
  shows "evaluation_plan L ctx inputs db = Inr inputs" "insert_inputs L inputs db = (Inr (), db')"
    "results = map (evaluation_of L) inputs"
proof -
  obtain v where v: "evaluation_plan L ctx inputs db = Inr v" using assms
    by (auto simp: evaluate_batch_def split: sum.splits)
  then have "v = inputs" by (rule evaluation_plan_Inr)
  with v show "evaluation_plan L ctx inputs db = Inr inputs" "insert_inputs L inputs db = (Inr (), db')"
    "results = map (evaluation_of L) inputs"
    using assms by (auto simp: evaluate_batch_def immediate_tx_Inr split: sum.splits prod.splits)
qed

lemma evaluate_batch_Inl: "evaluate_batch L ctx inputs db = (Inl e, db') \<Longrightarrow> db' = db"
  by (auto simp: evaluate_batch_def immediate_tx_def split: sum.splits prod.splits)

section \<open>The calendar arithmetic\<close>

lemma months_1_12:
  assumes "1 \<le> m" "m \<le> (12::int)"
  obtains "m = 1" | "m = 2" | "m = 3" | "m = 4" | "m = 5" | "m = 6" | "m = 7" | "m = 8" | "m = 9" | "m = 10" | "m = 11" | "m = 12"
proof -
  have "m \<in> set [1..12]" using assms by simp
  then show ?thesis using that by (auto simp: upto.simps)
qed

lemma is_leap_year_spec: "is_leap_year y = is_leap y"
  using mod_400_100 [of y] mod_100_4 [of y] by (auto simp: is_leap_year_def is_leap_def)

lemma days_in_month_spec:
  assumes "1 \<le> m" "m \<le> 12"
  shows "days_in_month y m = month_lengths y ! nat (m - 1)"
  using assms by (cases rule: months_1_12) (simp_all add: days_in_month_def month_lengths_def is_leap_year_spec)

definition day_number :: "int \<Rightarrow> int \<Rightarrow> int \<Rightarrow> int" where
  "day_number y m d = days_before_year y + sum_list (take (nat (m - 1)) (month_lengths y)) + d - 1"

text \<open>The era of a year and the years of it count days like the years since year 1.\<close>

lemma era_days:
  fixes y :: int
  assumes era: "era = y div 400"
  shows "era * 146097 + ((y - era * 400) * 365 + (y - era * 400) div 4 - (y - era * 400) div 100) = days_before_year (y + 1)"
proof -
  have "(y - era * 400) div 4 = y div 4 - era * 100" using div_mult_self1 [of 4 y "- era * 100"] by simp
  moreover have "(y - era * 400) div 100 = y div 100 - era * 4" using div_mult_self1 [of 100 y "- era * 4"] by simp
  ultimately show ?thesis unfolding days_before_year_def by (simp add: era)
qed

text \<open>Counting the days of a year from March is counting them from January.\<close>

lemma march_days:
  assumes "1 \<le> m" "m \<le> 12"
  shows "days_before_year (y - (if m \<le> 2 then 1 else 0) + 1) + (153 * (m + (if m \<le> 2 then 9 else - 3)) + 2) div 5 - 306 =
    days_before_year y + sum_list (take (nat (m - 1)) (month_lengths y))"
  using assms
  by (cases rule: months_1_12) (simp_all add: month_lengths_def days_before_year_next [unfolded month_lengths_def])

lemma seconds_arith:
  assumes "0 \<le> year" "calendar_ok year month day hour minute second"
  shows "seconds_from_utc_calendar year month day hour minute second =
    Inr ((day_number year month day - 719162) * 86400 + hour * 3600 + minute * 60 + second)"
proof -
  have m: "1 \<le> month" "month \<le> 12" using assms(2) by (simp_all add: calendar_ok_def)
  define y where "y = year - (if month \<le> 2 then 1 else 0)"
  define era where "era = (if 0 \<le> y then y div 400 else (y - 399) div 400)"
  have "- 1 \<le> y" using assms(1) by (simp add: y_def)
  then have "y = - 1 \<or> 0 \<le> y" by linarith
  then have era: "era = y div 400" by (auto simp: era_def)
  have "(era * 146097 + ((y - era * 400) * 365 + (y - era * 400) div 4 - (y - era * 400) div 100 +
      ((153 * (month + (if month \<le> 2 then 9 else - 3)) + 2) div 5 + day - 1)) - 719468) = day_number year month day - 719162"
    using era_days [OF era] march_days [OF m, of year] unfolding day_number_def y_def [symmetric] by linarith
  then show ?thesis using assms(2)
    unfolding seconds_from_utc_calendar_def Let_def y_def [symmetric] era_def [symmetric] by (simp add: algebra_simps)
qed

text \<open>
  C33: the calendar arithmetic of the sandbox (days from March, in eras of 400 years) gives the seconds
  since 1970 that counting whole years, months and days gives, for every date of the years 0 to
  9999 that passes the range checks, and refuses every other one.
\<close>

theorem seconds_from_utc_calendar_exact:
  assumes "0 \<le> year"
  shows "seconds_from_utc_calendar year month day hour minute second =
    (if calendar_ok year month day hour minute second
     then Inr ((day_number year month day - 719162) * 86400 + hour * 3600 + minute * 60 + second)
     else Inl RecoveryIdentityError)"
  using seconds_arith [OF assms] by (simp add: seconds_from_utc_calendar_def)

lemma seconds_from_utc_calendar_exact_witness:
  "seconds_from_utc_calendar 2024 2 29 23 59 60 = Inr 1709251200"
  using seconds_from_utc_calendar_exact [of 2024 2 29 23 59 60]
  by (simp add: calendar_ok_def days_in_month_def is_leap_year_def day_number_def days_before_year_def month_lengths_def is_leap_def)

section \<open>Timestamps order like the seconds they stand for\<close>

declare num_snoc [simp]

lemma is_digit_val: "is_digit c \<Longrightarrow> digit_val c < 10 \<and> digit (digit_val c) = c"
  by (auto simp: is_digit_def digit_val_def digit_def Let_def)

lemma pad_num:
  "list_all is_digit ds \<Longrightarrow> pad (length ds) (num ds) = ds \<and> num ds < 10 ^ length ds"
proof (induction ds rule: rev_induct)
  case (snoc c ds)
  then have "digit_val c < 10" "digit (digit_val c) = c" "pad (length ds) (num ds) = ds" "num ds < 10 ^ length ds"
    using is_digit_val by auto
  then show ?case by simp
qed (simp add: num_def)

lemma unrender_Some:
  "unrender ws s = Some vs \<Longrightarrow> s = render ws vs \<and> fits ws vs"
proof (induction ws arbitrary: s vs)
  case (Cons wsep ws)
  obtain w sep where wsep: "wsep = (w, sep)" by (cases wsep)
  from Cons.prems obtain vs' where a: "w \<le> length s" "list_all is_digit (take w s)" "starts_with sep (drop w s)"
      "unrender ws (drop (length sep) (drop w s)) = Some vs'" "vs = int (num (take w s)) # vs'"
    by (auto simp: wsep split: if_splits)
  have "length (take w s) = w" using a(1) by simp
  then have p: "pad w (num (take w s)) = take w s" "num (take w s) < 10 ^ w" using pad_num [OF a(2)] by simp_all
  have "drop w s = sep @ drop (length sep) (drop w s)" using a(3) unfolding starts_with_def by (metis append_take_drop_id)
  then have "s = take w s @ sep @ drop (length sep) (drop w s)" by (metis append_take_drop_id)
  moreover have "int (num (take w s)) < 10 ^ w" using p(2) by (metis of_nat_less_iff of_nat_numeral of_nat_power)
  ultimately show ?case using Cons.IH [OF a(4)] p a(5) by (simp add: wsep fits_def)
qed (auto simp: fits_def split: if_splits)

definition date_time :: "string \<Rightarrow> int list" where
  "date_time s = [int_at 0 4 s, int_at 5 7 s, int_at 8 10 s, int_at 11 13 s, int_at 14 16 s, int_at 17 19 s]"

lemma int_at_take: "b \<le> n \<Longrightarrow> int_at a b (take n s) = int_at a b s"
  by (simp add: int_at_def slice_def drop_take)

lemma date_time_take: "date_time (take 19 s) = date_time s"
  by (simp add: date_time_def int_at_take)

lemma unrender_date_time:
  assumes "unrender layout_s s = Some vs"
  shows "vs = date_time s"
  using assms by (auto simp: layout_s_def date_time_def int_at_def slice_def num_def split: if_splits)

lemma line_body_prefix: "20 \<le> length (line_body s) \<Longrightarrow> take 19 s = take 19 (line_body s) \<and> take 19 (butlast s) = take 19 s"
  by (auto simp: line_body_def take_butlast split: if_splits)

lemma zulu_date_time:
  assumes "ISO8601_ZULU s"
  shows "take 19 s = render layout_s (date_time s) \<and> fits layout_s (date_time s) \<and> 20 \<le> length (line_body s)"
proof -
  let ?t = "line_body s"
  obtain vs where vs: "unrender layout_s (take 19 ?t) = Some vs" and tail: "zulu_tail (drop 19 ?t)"
    using assms by (auto simp: ISO8601_ZULU_def)
  have "drop 19 ?t \<noteq> []" using tail by (cases "drop 19 ?t") auto
  then have len: "20 \<le> length ?t" by simp
  have "vs = date_time s"
    using unrender_date_time [OF vs] line_body_prefix [OF len] date_time_take [of s] date_time_take [of ?t] by simp
  then show ?thesis using unrender_Some [OF vs] len line_body_prefix [OF len] by simp
qed


definition calendar_seconds :: "int list \<Rightarrow> int" where
  "calendar_seconds vs = (day_number (vs ! 0) (vs ! 1) (vs ! 2) - 719162) * 86400 + vs ! 3 * 3600 + vs ! 4 * 60 + vs ! 5"

definition calendar_fields :: "int list \<Rightarrow> bool" where
  "calendar_fields vs \<longleftrightarrow> calendar_ok (vs ! 0) (vs ! 1) (vs ! 2) (vs ! 3) (vs ! 4) (vs ! 5)"

lemma seconds_exact: "0 \<le> y \<Longrightarrow> calendar_ok y mo d h mi s \<Longrightarrow>
    seconds_from_utc_calendar y mo d h mi s = Inr (calendar_seconds [y, mo, d, h, mi, s])"
  using seconds_arith [of y mo d h mi s] by (simp add: calendar_seconds_def)

lemma no_dot: "fits layout_s (date_time s) \<Longrightarrow> CHR ''.'' \<notin> set (render layout_s (date_time s))"
proof -
  have "CHR ''.'' \<notin> set (pad w n)" for w n
    using digits_pad [of w n] by (auto simp: list_all_iff is_digit_def)
  then show ?thesis by (simp add: layout_s_def date_time_def)
qed

lemma takeWhile_take_19:
  "takeWhile P (take 19 s) = take 19 s \<Longrightarrow> take 19 (butlast s) = take 19 s \<Longrightarrow> take 19 (takeWhile P (butlast s)) = take 19 s"
proof -
  assume all: "takeWhile P (take 19 s) = take 19 s" and eq: "take 19 (butlast s) = take 19 s"
  have "takeWhile P (take 19 (butlast s) @ drop 19 (butlast s)) = take 19 s @ takeWhile P (drop 19 (butlast s))"
    using all unfolding eq by (subst takeWhile_append2) (auto simp: takeWhile_eq_all_conv)
  then have "take 19 (takeWhile P (butlast s)) = take 19 (take 19 s @ takeWhile P (drop 19 (butlast s)))" by simp
  also have "\<dots> = take 19 s" unfolding eq [symmetric] by (cases "19 \<le> length (butlast s)") simp_all
  finally show ?thesis .
qed

lemma parse_seconds_Inr:
  assumes "parse_canonical_utc_to_seconds s = Inr n"
  shows "take 19 s = render layout_s (date_time s) \<and> fits layout_s (date_time s) \<and> calendar_fields (date_time s) \<and>
    n = calendar_seconds (date_time s) \<and> 20 \<le> length s"
proof -
  have z: "ISO8601_ZULU s" and c: "calendar_fields (date_time s)"
    using assms by (auto simp: parse_canonical_utc_to_seconds_def validate_iso8601_utc_def calendar_fields_def date_time_def
        split: if_splits)
  note d = zulu_date_time [OF z]
  let ?main = "takeWhile (\<lambda>c. c \<noteq> CHR ''.'') (butlast s)"
  have len: "20 \<le> length s" using d by (auto simp: line_body_def split: if_splits)
  have "takeWhile (\<lambda>c. c \<noteq> CHR ''.'') (take 19 s) = take 19 s"
    unfolding takeWhile_eq_all_conv using no_dot d by auto
  then have "take 19 ?main = take 19 s"
    using line_body_prefix [of s] d by (metis takeWhile_take_19)
  then have "date_time ?main = date_time s" using date_time_take by metis
  then have at: "int_at 0 4 ?main = int_at 0 4 s" "int_at 5 7 ?main = int_at 5 7 s" "int_at 8 10 ?main = int_at 8 10 s"
    "int_at 11 13 ?main = int_at 11 13 s" "int_at 14 16 ?main = int_at 14 16 s" "int_at 17 19 ?main = int_at 17 19 s"
    by (simp_all add: date_time_def)
  have "calendar_ok (int_at 0 4 s) (int_at 5 7 s) (int_at 8 10 s) (int_at 11 13 s) (int_at 14 16 s) (int_at 17 19 s)"
    using c by (simp add: calendar_fields_def date_time_def)
  moreover have "0 \<le> int_at 0 4 s" by (simp add: int_at_def)
  ultimately have "n = calendar_seconds (date_time s)"
    using assms by (simp add: parse_canonical_utc_to_seconds_def Let_def at seconds_exact date_time_def split: sum.splits)
  then show ?thesis using d c len by simp
qed

lemma sum_take_Suc: "n < length xs \<Longrightarrow> sum_list (take (Suc n) xs) = sum_list (take n xs) + xs ! n" for xs :: "int list"
  by (simp add: take_Suc_conv_app_nth)

lemma sum_take_mono: "\<forall>x \<in> set xs. 0 \<le> x \<Longrightarrow> m \<le> n \<Longrightarrow> sum_list (take m xs) \<le> sum_list (take n xs)" for xs :: "int list"
proof (induction n)
  case (Suc n)
  show ?case
  proof (cases "m = Suc n")
    case False
    then have "sum_list (take m xs) \<le> sum_list (take n xs)" using Suc by simp
    also have "\<dots> \<le> sum_list (take (Suc n) xs)"
      using Suc.prems(1) by (cases "n < length xs") (simp_all add: sum_take_Suc)
    finally show ?thesis .
  qed simp
qed simp

lemma month_lengths_props: "length (month_lengths y) = 12" "\<forall>x \<in> set (month_lengths y). 0 \<le> x"
  by (auto simp: month_lengths_def)

text \<open>A day is at most the last of its month, which is before the first of the next.\<close>

lemma day_number_bounds:
  assumes "1 \<le> m" "m \<le> 12" "1 \<le> d" "d \<le> days_in_month y m"
  shows "days_before_year y + sum_list (take (nat (m - 1)) (month_lengths y)) \<le> day_number y m d"
    "day_number y m d < days_before_year y + sum_list (take (nat m) (month_lengths y))"
    "day_number y m d < days_before_year (y + 1)"
proof -
  have "nat m = Suc (nat (m - 1))" "nat (m - 1) < length (month_lengths y)"
    using assms(1,2) by (simp_all add: month_lengths_props)
  then have "sum_list (take (nat m) (month_lengths y)) = sum_list (take (nat (m - 1)) (month_lengths y)) + days_in_month y m"
    using sum_take_Suc [of "nat (m - 1)" "month_lengths y"] days_in_month_spec [OF assms(1,2)] by simp
  then show upper: "day_number y m d < days_before_year y + sum_list (take (nat m) (month_lengths y))"
    using assms(4) by (simp add: day_number_def)
  show "days_before_year y + sum_list (take (nat (m - 1)) (month_lengths y)) \<le> day_number y m d"
    using assms(3) by (simp add: day_number_def)
  have "sum_list (take (nat m) (month_lengths y)) \<le> sum_list (take 12 (month_lengths y))"
    using assms(2) by (intro sum_take_mono month_lengths_props) simp
  then show "day_number y m d < days_before_year (y + 1)"
    using upper days_before_year_next [of y] by (simp add: month_lengths_props)
qed

lemma day_number_less:
  assumes ok: "calendar_ok y m d h mi s" "calendar_ok y' m' d' h' mi' s'" and less: "[y, m, d] < [y', m', d']"
  shows "day_number y m d < day_number y' m' d'"
proof -
  have b: "1 \<le> m" "m \<le> 12" "1 \<le> d" "d \<le> days_in_month y m" "1 \<le> m'" "m' \<le> 12" "1 \<le> d'" "d' \<le> days_in_month y' m'"
    using ok by (simp_all add: calendar_ok_def)
  note lo = day_number_bounds [OF b(1-4)] and hi = day_number_bounds [OF b(5-8)]
  consider "y < y'" | "y = y'" "m < m'" | "y = y'" "m = m'" "d < d'" using less by auto
  then show ?thesis
  proof cases
    case 1
    have "0 \<le> sum_list (take (nat (m' - 1)) (month_lengths y'))"
      using sum_take_mono [OF month_lengths_props(2), of 0] by simp
    moreover have "days_before_year (y + 1) \<le> days_before_year y'" using 1 by (intro days_before_year_mono) simp
    ultimately show ?thesis using lo hi by linarith
  next
    case 2
    have "sum_list (take (nat m) (month_lengths y)) \<le> sum_list (take (nat (m' - 1)) (month_lengths y))"
      using 2(2) b(1) by (intro sum_take_mono month_lengths_props) simp
    then show ?thesis using lo hi 2 by simp
  qed (simp add: day_number_def)
qed

lemma calendar_seconds_mono:
  assumes ok: "calendar_ok y m d h mi s" "calendar_ok y' m' d' h' mi' s'"
    and less: "[y, m, d, h, mi, s] < [y', m', d', h', mi', s']"
  shows "calendar_seconds [y, m, d, h, mi, s] \<le> calendar_seconds [y', m', d', h', mi', s']"
proof -
  have b: "0 \<le> h" "h \<le> 23" "0 \<le> mi" "mi \<le> 59" "0 \<le> s" "s \<le> 60" "0 \<le> h'" "h' \<le> 23" "0 \<le> mi'" "mi' \<le> 59" "0 \<le> s'" "s' \<le> 60"
    using ok by (simp_all add: calendar_ok_def)
  consider "[y, m, d] < [y', m', d']" | "[y, m, d] = [y', m', d']" "h < h'" | "[y, m, d] = [y', m', d']" "h = h'" "mi < mi'"
    | "[y, m, d] = [y', m', d']" "h = h'" "mi = mi'" "s < s'" using less by auto
  then show ?thesis
  proof cases
    case 1
    then have "day_number y m d + 1 \<le> day_number y' m' d'" using day_number_less [OF ok] by linarith
    then show ?thesis using b by (simp add: calendar_seconds_def)
  qed (use b in \<open>simp_all add: calendar_seconds_def\<close>)
qed

lemma earlier_text:
  assumes "parse_canonical_utc_to_seconds s = Inr a" "parse_canonical_utc_to_seconds t = Inr b" "a < b"
  shows "s < t"
proof -
  note s = parse_seconds_Inr [OF assms(1)] and t = parse_seconds_Inr [OF assms(2)]
  have "\<not> date_time t < date_time s"
  proof
    assume "date_time t < date_time s"
    then have "calendar_seconds (date_time t) \<le> calendar_seconds (date_time s)"
      using s t unfolding date_time_def calendar_fields_def by (intro calendar_seconds_mono) simp_all
    then show False using s t assms(3) by simp
  qed
  moreover have "date_time t \<noteq> date_time s" using s t assms(3) by auto
  ultimately have "date_time s < date_time t" by simp
  then have "take 19 s < take 19 t" using s t by (simp add: render_less_iff)
  moreover have "length (take 19 s) = length (take 19 t)"
  proof -
    from s t have "20 \<le> length s" "20 \<le> length t" by blast+
    then show ?thesis by simp
  qed
  ultimately have "take 19 s @ drop 19 s < take 19 t @ drop 19 t" by (simp only: less_append_iff simp_thms)
  then show ?thesis by simp
qed

end
