(* ===== verification/Phase6Audit.thy ===== *)
theory Phase6Audit
  imports Phase6Recovery
begin

text \<open>
  The append-only observation audit (\<open>news_pipeline/phase6/audit.py\<close>): evaluated results become
  audit events, checked against the stored inputs, appended in one transaction, or recognised as
  already there.
\<close>

section \<open>Events\<close>

record audit_event =
  e_job_id :: string
  e_event_kind :: string
  e_result_value :: string
  e_evaluation_utc :: string
  e_age_seconds :: int
  e_input_sha256 :: string
  e_canonical_json :: string
  e_sha256 :: string
  e_persisted :: bool
  e_duplicate :: bool

definition check_hex64 :: "p6_error \<Rightarrow> string \<Rightarrow> unit p6_result" where
  "check_hex64 e s = guard (class_match is_hex 64 64 s) e"

definition check_timestamp :: "p6_error \<Rightarrow> string \<Rightarrow> unit p6_result" where
  "check_timestamp e s = guard (s \<noteq> [] \<and> length s \<le> 32) e"

definition canonical_event_json :: "pylib \<Rightarrow> audit_event \<Rightarrow> string" where
  "canonical_event_json L e = json_dumps L (PDict
     [(''age_seconds'', PInt (e_age_seconds e)), (''event_kind'', PStr (e_event_kind e)),
      (''evaluation_utc'', PStr (e_evaluation_utc e)), (''input_sha256'', PStr (e_input_sha256 e)),
      (''job_id'', PStr (e_job_id e)), (''result_value'', PStr (e_result_value e))])"

definition expected_event_kind_and_value :: "int \<Rightarrow> (string \<times> string) p6_result" where
  "expected_event_kind_and_value age =
     (if 600 \<le> age then Inr (''STALE_OBSERVED'', ''STALE'')
      else if 300 \<le> age then Inr (''EXPIRED_OBSERVED'', ''EXPIRED'')
      else Inl AuditIdentityError)"

definition build_audit_event :: "evaluation_result \<Rightarrow> audit_event p6_result" where
  "build_audit_event r =
     bind_result (guard (r_result r \<noteq> ''NO_OBSERVATION'') AuditIdentityError) (\<lambda>_.
     bind_result (check_job_id AuditIdentityError (r_job_id r)) (\<lambda>_.
     bind_result (check_timestamp AuditIdentityError (r_reference_utc r)) (\<lambda>_.
     bind_result (check_timestamp AuditIdentityError (r_evaluation_utc r)) (\<lambda>_.
     bind_result (check_age AuditIdentityError AuditConsistencyError (r_age_seconds r)) (\<lambda>_.
     bind_result (check_source_state AuditIdentityError (r_source_state r)) (\<lambda>_.
     bind_result (check_hex64 AuditIdentityError (r_input_sha256 r)) (\<lambda>_.
     bind_result (guard (r_reference_utc r \<le> r_evaluation_utc r) AuditConsistencyError) (\<lambda>_.
     bind_result (expected_event_kind_and_value (r_age_seconds r)) (\<lambda>(kind, val).
       Inr \<lparr>e_job_id = r_job_id r, e_event_kind = kind, e_result_value = val, e_evaluation_utc = r_evaluation_utc r,
         e_age_seconds = r_age_seconds r, e_input_sha256 = r_input_sha256 r, e_canonical_json = [], e_sha256 = [],
         e_persisted = False, e_duplicate = False\<rparr>)))))))))"

definition finalise_event :: "pylib \<Rightarrow> audit_event \<Rightarrow> audit_event p6_result" where
  "finalise_event L e =
     (let canonical = canonical_event_json L e in
      if 2048 < length canonical then Inl AuditIdentityError
      else Inr (e\<lparr>e_canonical_json := canonical, e_sha256 := sha256_hexdigest L canonical\<rparr>))"

section \<open>The session database\<close>

definition audit_columns :: "string list" where
  "audit_columns = [''event_sha256'', ''job_id'', ''event_kind'', ''result_value'', ''evaluation_utc'', ''age_seconds'',
     ''input_sha256'', ''canonical_event_json'']"

definition verify_audit_db :: "session_db \<Rightarrow> unit p6_result" where
  "verify_audit_db db =
     guard (user_version db = 1 \<and> has_columns db ''evaluation_inputs'' input_columns \<and>
       has_columns db ''audit_events'' audit_columns) AuditSchemaError"

definition audit_row_ok :: "audit_row \<Rightarrow> bool" where
  "audit_row_ok r \<longleftrightarrow> 0 \<le> ar_age_seconds r \<and>
     (ar_event_kind r, ar_result_value r) \<in> {(''EXPIRED_OBSERVED'', ''EXPIRED''), (''STALE_OBSERVED'', ''STALE'')} \<and>
     hex64 (ar_event_sha256 r) \<and> hex64 (ar_input_sha256 r)"

definition audit_key :: "audit_row \<Rightarrow> string \<times> string" where
  "audit_key r = (ar_event_sha256 r, ar_job_id r)"

definition insert_audit :: "audit_row \<Rightarrow> session_db \<Rightarrow> session_db option" where
  "insert_audit r db =
     (if tbl_find audit_key (audit_key r) (audit_events db) \<noteq> None \<or> \<not> audit_row_ok r \<or>
        foreign_keys db \<and> tbl_find ir_job_id (ar_job_id r) (evaluation_inputs db) = None then None
      else Some (db\<lparr>audit_events := tbl_insert r (audit_events db)\<rparr>))"

definition audit_row_of :: "audit_event \<Rightarrow> audit_row" where
  "audit_row_of e =
     \<lparr>ar_event_sha256 = e_sha256 e, ar_job_id = e_job_id e, ar_event_kind = e_event_kind e,
      ar_result_value = e_result_value e, ar_evaluation_utc = e_evaluation_utc e, ar_age_seconds = e_age_seconds e,
      ar_input_sha256 = e_input_sha256 e, ar_canonical_json = e_canonical_json e\<rparr>"

section \<open>Auditing a batch\<close>

text \<open>The result's fields as a job input (\<open>_JobInputShim\<close>).\<close>

definition job_of_result :: "evaluation_result \<Rightarrow> job_input" where
  "job_of_result r =
     \<lparr>j_job_id = r_job_id r, j_reference_utc = r_reference_utc r, j_evaluation_utc = r_evaluation_utc r,
      j_age_seconds = r_age_seconds r, j_source_state = r_source_state r\<rparr>"

text \<open>The loop that plans the events, with the job ids seen so far.\<close>

fun plan_events :: "pylib \<Rightarrow> string set \<Rightarrow> evaluation_result list \<Rightarrow> (evaluation_result \<times> audit_event) list p6_result" where
  "plan_events L seen [] = Inr []"
| "plan_events L seen (r # rs) =
     (if r_result r = ''NO_OBSERVATION'' then plan_events L seen rs
      else if r_job_id r \<in> seen then Inl AuditBatchError
      else bind_result (build_audit_event r) (\<lambda>e.
        bind_result (finalise_event L e) (\<lambda>e.
        bind_result (plan_events L (insert (r_job_id r) seen) rs) (\<lambda>planned.
          Inr ((r, e) # planned)))))"

definition check_input :: "pylib \<Rightarrow> session_db \<Rightarrow> evaluation_result \<times> audit_event \<Rightarrow> unit p6_result" where
  "check_input L db = (\<lambda>(r, e).
     case tbl_find ir_job_id (e_job_id e) (evaluation_inputs db) of
       None \<Rightarrow> Inl AuditMissingInputError
     | Some row \<Rightarrow>
         guard (ir_canonical_json row = canonical_input_json L (job_of_result r) \<and> ir_sha256 row = e_input_sha256 e \<and>
           ir_age_seconds row = e_age_seconds e \<and> ir_reference_utc row = r_reference_utc r \<and>
           ir_source_state row = r_source_state r) AuditConsistencyError)"

text \<open>
  \<open>{row[0]: row[1] for row in existing_rows}\<close>: the last row of a job wins. The dict is read before
  the transaction; the connection is the only one to its in-memory database.
\<close>

definition existing_event :: "session_db \<Rightarrow> string \<Rightarrow> string option" where
  "existing_event db job = map_option ar_event_sha256 (tbl_find ar_job_id job (rev (audit_events db)))"

fun write_events ::
  "(string \<Rightarrow> string option) \<Rightarrow> audit_event list \<Rightarrow> session_db \<Rightarrow> audit_event list p6_result \<times> session_db" where
  "write_events existing [] db = (Inr [], db)"
| "write_events existing (e # es) db =
     (case existing (e_job_id e) of
        Some sha \<Rightarrow>
          if sha \<noteq> e_sha256 e then (Inl AuditConflictError, db)
          else (case write_events existing es db of
              (Inl err, db) \<Rightarrow> (Inl err, db)
            | (Inr written, db) \<Rightarrow> (Inr (e\<lparr>e_persisted := False, e_duplicate := True\<rparr> # written), db))
      | None \<Rightarrow>
          (case insert_audit (audit_row_of e) db of
             None \<Rightarrow> (Inl AuditConflictError, db)
           | Some db \<Rightarrow>
               (case write_events existing es db of
                  (Inl err, db) \<Rightarrow> (Inl err, db)
                | (Inr written, db) \<Rightarrow> (Inr (e\<lparr>e_persisted := True\<rparr> # written), db))))"

definition audit_plan ::
  "pylib \<Rightarrow> external_context \<Rightarrow> evaluation_result list \<Rightarrow> session_db \<Rightarrow> (evaluation_result \<times> audit_event) list p6_result" where
  "audit_plan L ctx results db =
     bind_result (batch_size_ok results AuditBatchError) (\<lambda>_.
     bind_result (case validate_external_context ctx of Inl _ \<Rightarrow> Inl AuditIdentityError | Inr _ \<Rightarrow> Inr ()) (\<lambda>_.
     bind_result (verify_audit_db db) (\<lambda>_.
     bind_result (plan_events L {} results) (\<lambda>planned.
     bind_result (map_result (check_input L db) planned) (\<lambda>_.
       Inr planned)))))"

definition audit_observations ::
  "pylib \<Rightarrow> external_context \<Rightarrow> evaluation_result list \<Rightarrow> session_db \<Rightarrow> audit_event list p6_result \<times> session_db" where
  "audit_observations L ctx results db =
     (case audit_plan L ctx results db of
        Inl e \<Rightarrow> (Inl e, db)
      | Inr planned \<Rightarrow> immediate_tx (write_events (existing_event db) (map snd planned)) db)"

definition observable :: "evaluation_result \<Rightarrow> bool" where
  "observable r \<longleftrightarrow> r_result r \<noteq> ''NO_OBSERVATION''"

definition event_base :: "evaluation_result \<Rightarrow> audit_event" where
  "event_base r =
     \<lparr>e_job_id = r_job_id r, e_event_kind = (if 600 \<le> r_age_seconds r then ''STALE_OBSERVED'' else ''EXPIRED_OBSERVED''),
      e_result_value = (if 600 \<le> r_age_seconds r then ''STALE'' else ''EXPIRED''), e_evaluation_utc = r_evaluation_utc r,
      e_age_seconds = r_age_seconds r, e_input_sha256 = r_input_sha256 r, e_canonical_json = [], e_sha256 = [],
      e_persisted = False, e_duplicate = False\<rparr>"

definition event_of :: "pylib \<Rightarrow> evaluation_result \<Rightarrow> audit_event" where
  "event_of L r = (event_base r)\<lparr>e_canonical_json := canonical_event_json L (event_base r),
     e_sha256 := sha256_hexdigest L (canonical_event_json L (event_base r))\<rparr>"

lemma event_of_simps [simp]:
  "e_job_id (event_of L r) = r_job_id r" "e_age_seconds (event_of L r) = r_age_seconds r"
  "e_input_sha256 (event_of L r) = r_input_sha256 r" "e_evaluation_utc (event_of L r) = r_evaluation_utc r"
  "e_event_kind (event_of L r) = (if 600 \<le> r_age_seconds r then ''STALE_OBSERVED'' else ''EXPIRED_OBSERVED'')"
  "e_result_value (event_of L r) = (if 600 \<le> r_age_seconds r then ''STALE'' else ''EXPIRED'')"
  "e_sha256 (event_of L r) = sha256_hexdigest L (e_canonical_json (event_of L r))"
  by (simp_all add: event_of_def event_base_def)

lemma build_audit_event_Inr:
  assumes "build_audit_event r = Inr e"
  shows "e = event_base r" "300 \<le> r_age_seconds r" "observable r"
  using assms
  by (auto simp: build_audit_event_def expected_event_kind_and_value_def event_base_def observable_def split: if_splits)

lemma finalise_base: "finalise_event L (event_base r) = Inr e \<Longrightarrow> e = event_of L r"
  by (auto simp: finalise_event_def event_of_def Let_def split: if_splits)

lemma plan_events_Inr:
  assumes "plan_events L seen rs = Inr planned"
  shows "planned = map (\<lambda>r. (r, event_of L r)) (filter observable rs) \<and> distinct (map r_job_id (filter observable rs)) \<and>
    (\<forall>r \<in> set (filter observable rs). 300 \<le> r_age_seconds r \<and> r_job_id r \<notin> seen)"
  using assms
proof (induction L seen rs arbitrary: planned rule: plan_events.induct)
  case (2 L seen r rs)
  show ?case
  proof (cases "observable r")
    case False
    then show ?thesis using 2 by (simp add: observable_def)
  next
    case True
    then have nr: "r_result r \<noteq> ''NO_OBSERVATION''" by (simp add: observable_def)
    then obtain b e ps where p: "r_job_id r \<notin> seen" "build_audit_event r = Inr b" "finalise_event L b = Inr e"
        "plan_events L (insert (r_job_id r) seen) rs = Inr ps" "planned = (r, e) # ps"
      using 2(3) by (auto split: if_splits)
    note b = build_audit_event_Inr [OF p(2)]
    have e: "e = event_of L r" using p(3) b(1) finalise_base by simp
    have "ps = map (\<lambda>r. (r, event_of L r)) (filter observable rs) \<and> distinct (map r_job_id (filter observable rs)) \<and>
        (\<forall>q \<in> set (filter observable rs). 300 \<le> r_age_seconds q \<and> r_job_id q \<notin> insert (r_job_id r) seen)"
      using 2(2) p nr by simp
    then show ?thesis using True p(1,5) b(2) e by auto
  qed
qed simp

definition matches_input :: "pylib \<Rightarrow> session_db \<Rightarrow> evaluation_result \<Rightarrow> bool" where
  "matches_input L db r \<longleftrightarrow> (\<exists>row. tbl_find ir_job_id (r_job_id r) (evaluation_inputs db) = Some row \<and>
     ir_canonical_json row = canonical_input_json L (job_of_result r) \<and> ir_sha256 row = r_input_sha256 r \<and>
     ir_age_seconds row = r_age_seconds r \<and> ir_reference_utc row = r_reference_utc r \<and> ir_source_state row = r_source_state r)"

lemma check_input_Inr: "check_input L db (r, event_of L r) = Inr u \<longleftrightarrow> matches_input L db r"
  by (auto simp: check_input_def matches_input_def split: option.splits)

lemma map_result_unit: "(\<exists>us. map_result f xs = Inr us) \<longleftrightarrow> (\<forall>x \<in> set xs. \<exists>u. f x = Inr u)"
  by (induction xs) (auto split: sum.splits)

lemma audit_plan_Inr:
  assumes "audit_plan L ctx results db = Inr planned"
  shows "planned = map (\<lambda>r. (r, event_of L r)) (filter observable results)" "distinct (map r_job_id (filter observable results))"
    "\<And>r. r \<in> set (filter observable results) \<Longrightarrow> 300 \<le> r_age_seconds r \<and> matches_input L db r"
proof -
  have plan: "plan_events L {} results = Inr planned" and check: "\<exists>us. map_result (check_input L db) planned = Inr us"
    using assms by (auto simp: audit_plan_def)
  note p = plan_events_Inr [OF plan]
  show "planned = map (\<lambda>r. (r, event_of L r)) (filter observable results)" "distinct (map r_job_id (filter observable results))"
    using p by blast+
  show "300 \<le> r_age_seconds r \<and> matches_input L db r" if "r \<in> set (filter observable results)" for r
    using p check that by (auto simp: map_result_unit check_input_Inr)
qed

lemma write_events_Inr:
  assumes "write_events existing es db = (Inr written, db')"
  shows "db' = db\<lparr>audit_events := audit_events db @ map audit_row_of (filter (\<lambda>e. existing (e_job_id e) = None) es)\<rparr>"
    "list_all (\<lambda>e. audit_row_ok (audit_row_of e)) (filter (\<lambda>e. existing (e_job_id e) = None) es)"
    "list_all (\<lambda>e. existing (e_job_id e) \<in> {None, Some (e_sha256 e)}) es"
    "written = map (\<lambda>e. if existing (e_job_id e) = None then e\<lparr>e_persisted := True\<rparr> else e\<lparr>e_persisted := False, e_duplicate := True\<rparr>) es"
proof -
  have "db' = db\<lparr>audit_events := audit_events db @ map audit_row_of (filter (\<lambda>e. existing (e_job_id e) = None) es)\<rparr> \<and>
      list_all (\<lambda>e. audit_row_ok (audit_row_of e)) (filter (\<lambda>e. existing (e_job_id e) = None) es) \<and>
      list_all (\<lambda>e. existing (e_job_id e) \<in> {None, Some (e_sha256 e)}) es \<and>
      written = map (\<lambda>e. if existing (e_job_id e) = None then e\<lparr>e_persisted := True\<rparr> else e\<lparr>e_persisted := False, e_duplicate := True\<rparr>) es"
    using assms
  proof (induction es arbitrary: db written)
    case (Cons e es)
    show ?case
    proof (cases "existing (e_job_id e)")
      case None
      then obtain db1 w where w: "insert_audit (audit_row_of e) db = Some db1" "write_events existing es db1 = (Inr w, db')"
          "written = e\<lparr>e_persisted := True\<rparr> # w"
        using Cons.prems by (auto split: option.splits prod.splits sum.splits)
      then show ?thesis using None Cons.IH [OF w(2)]
        by (auto simp: insert_audit_def tbl_insert_def split: if_splits)
    next
      case (Some sha)
      then obtain w where w: "sha = e_sha256 e" "write_events existing es db = (Inr w, db')"
          "written = e\<lparr>e_persisted := False, e_duplicate := True\<rparr> # w"
        using Cons.prems by (auto split: if_splits prod.splits sum.splits)
      then show ?thesis using Some Cons.IH [OF w(2)] by auto
    qed
  qed simp
  then show "db' = db\<lparr>audit_events := audit_events db @ map audit_row_of (filter (\<lambda>e. existing (e_job_id e) = None) es)\<rparr>"
    "list_all (\<lambda>e. audit_row_ok (audit_row_of e)) (filter (\<lambda>e. existing (e_job_id e) = None) es)"
    "list_all (\<lambda>e. existing (e_job_id e) \<in> {None, Some (e_sha256 e)}) es"
    "written = map (\<lambda>e. if existing (e_job_id e) = None then e\<lparr>e_persisted := True\<rparr> else e\<lparr>e_persisted := False, e_duplicate := True\<rparr>) es"
    by blast+
qed

lemma audit_observations_Inr:
  assumes "audit_observations L ctx results db = (Inr written, db')"
  shows "audit_plan L ctx results db = Inr (map (\<lambda>r. (r, event_of L r)) (filter observable results))"
    "write_events (existing_event db) (map (event_of L) (filter observable results)) db = (Inr written, db')"
proof -
  obtain planned where p: "audit_plan L ctx results db = Inr planned" using assms
    by (auto simp: audit_observations_def split: sum.splits)
  note eq = audit_plan_Inr(1) [OF p]
  show "audit_plan L ctx results db = Inr (map (\<lambda>r. (r, event_of L r)) (filter observable results))" using p eq by simp
  show "write_events (existing_event db) (map (event_of L) (filter observable results)) db = (Inr written, db')"
    using assms p eq by (auto simp: audit_observations_def immediate_tx_Inr comp_def)
qed

lemma audit_observations_Inl: "audit_observations L ctx results db = (Inl e, db') \<Longrightarrow> db' = db"
  by (auto simp: audit_observations_def immediate_tx_Inl split: sum.splits)

section \<open>The size of an event\<close>

lemma length_show_age: "0 \<le> n \<Longrightarrow> n \<le> INT64_MAX \<Longrightarrow> length (show_int n) \<le> 19"
  using length_show_nat [of "nat n" 18] by (simp add: show_int_def INT64_MAX_def)

lemma length_event_json:
  assumes "length (e_job_id e) \<le> 128" "length (e_evaluation_utc e) \<le> 32" "length (e_input_sha256 e) \<le> 65"
    "length (e_event_kind e) \<le> 16" "length (e_result_value e) \<le> 7" "0 \<le> e_age_seconds e" "e_age_seconds e \<le> INT64_MAX"
  shows "length (canonical_event_json L e) \<le> 2048"
proof -
  note keys = length_json_str [of "''age_seconds''"] length_json_str [of "''event_kind''"] length_json_str [of "''evaluation_utc''"]
    length_json_str [of "''input_sha256''"] length_json_str [of "''job_id''"] length_json_str [of "''result_value''"]
  note vals = length_show_age [OF assms(6,7)] length_json_str [of "e_event_kind e"] length_json_str [of "e_evaluation_utc e"]
    length_json_str [of "e_input_sha256 e"] length_json_str [of "e_job_id e"] length_json_str [of "e_result_value e"]
  show ?thesis using keys vals assms(1-5) unfolding canonical_event_json_def by (simp add: length_json_dict del: json_dumps.simps(8))
qed

end
