(* ===== verification/Phase6Outbox.thy ===== *)
theory Phase6Outbox
  imports Phase6Audit
begin

text \<open>
  The inert dry-run outbox (\<open>news_pipeline/phase6/outbox.py\<close>): audited events become preview rows,
  checked against the persisted event and its input, appended in one transaction. Nothing is ever
  delivered.
\<close>

section \<open>Previews\<close>

record preview_row =
  p_row :: dry_run_row
  p_persisted :: bool
  p_duplicate :: bool

definition session_id_char :: "char \<Rightarrow> bool" where
  "session_id_char c = (is_alnum c \<or> c \<in> {CHR ''.'', CHR ''_'', CHR '':'', CHR ''-''})"

definition check_session_id :: "string \<Rightarrow> unit p6_result" where
  "check_session_id s = guard (s \<noteq> [] \<and> length s \<le> 32 \<and> class_match session_id_char 1 32 s) OutboxIdentityError"

definition canonical_payload_json :: "pylib \<Rightarrow> audit_event \<Rightarrow> string \<Rightarrow> string" where
  "canonical_payload_json L e session_id = json_dumps L (PDict
     [(''age_seconds'', PInt (e_age_seconds e)), (''credential_free'', PInt 1), (''delivery_evidence'', PInt 0),
      (''evaluation_utc'', PStr (e_evaluation_utc e)), (''event_sha256'', PStr (e_sha256 e)),
      (''input_sha256'', PStr (e_input_sha256 e)), (''job_id'', PStr (e_job_id e)),
      (''result_value'', PStr (e_result_value e)), (''session_id'', PStr session_id),
      (''state'', PStr ''PREVIEW_ONLY''), (''template_id'', PStr ''recovery-observation.v1'')])"

definition outbox_columns :: "string list" where
  "outbox_columns = [''payload_sha256'', ''event_sha256'', ''job_id'', ''result_value'', ''age_seconds'', ''state'',
     ''template_id'', ''canonical_payload_json'', ''session_id'', ''evaluation_utc'', ''credential_free'', ''delivery_evidence'']"

definition verify_outbox_db :: "session_db \<Rightarrow> unit p6_result" where
  "verify_outbox_db db =
     guard (user_version db = 1 \<and> has_columns db ''evaluation_inputs'' input_columns \<and>
       has_columns db ''audit_events'' (butlast audit_columns) \<and> has_columns db ''dry_run_outbox'' outbox_columns) OutboxSchemaError"

definition build_preview_row :: "pylib \<Rightarrow> audit_event \<Rightarrow> string \<Rightarrow> dry_run_row p6_result" where
  "build_preview_row L e session_id =
     (let canonical = canonical_payload_json L e session_id in
      if 4096 < length canonical then Inl OutboxIdentityError
      else Inr \<lparr>or_payload_sha256 = sha256_hexdigest L canonical, or_event_sha256 = e_sha256 e, or_job_id = e_job_id e,
        or_result_value = e_result_value e, or_age_seconds = e_age_seconds e, or_state = ''PREVIEW_ONLY'',
        or_template_id = ''recovery-observation.v1'', or_canonical_json = canonical, or_session_id = session_id,
        or_evaluation_utc = e_evaluation_utc e, or_credential_free = 1, or_delivery_evidence = 0\<rparr>)"

section \<open>Checks against the database\<close>

definition audit_row_to_event :: "audit_row \<Rightarrow> audit_event" where
  "audit_row_to_event r =
     \<lparr>e_job_id = ar_job_id r, e_event_kind = ar_event_kind r, e_result_value = ar_result_value r,
      e_evaluation_utc = ar_evaluation_utc r, e_age_seconds = ar_age_seconds r, e_input_sha256 = ar_input_sha256 r,
      e_canonical_json = ar_canonical_json r, e_sha256 = ar_event_sha256 r, e_persisted = True, e_duplicate = False\<rparr>"

definition load_persisted_audit_event :: "session_db \<Rightarrow> audit_event \<Rightarrow> audit_event p6_result" where
  "load_persisted_audit_event db caller =
     (case tbl_find audit_key (e_sha256 caller, e_job_id caller) (audit_events db) of
        None \<Rightarrow> Inl OutboxConsistencyError
      | Some row \<Rightarrow>
          if audit_row_of caller \<noteq> row then Inl OutboxConsistencyError else Inr (audit_row_to_event row))"

definition load_persisted_evaluation_input :: "pylib \<Rightarrow> session_db \<Rightarrow> audit_event \<Rightarrow> input_row p6_result" where
  "load_persisted_evaluation_input L db e =
     (case tbl_find ir_job_id (e_job_id e) (evaluation_inputs db) of
        None \<Rightarrow> Inl OutboxMissingInputError
      | Some row \<Rightarrow>
          bind_result (guard (ir_job_id row = e_job_id e \<and> ir_age_seconds row = e_age_seconds e \<and> ir_sha256 row = e_input_sha256 e \<and>
            sha256_hexdigest L (ir_canonical_json row) = ir_sha256 row \<and>
            ir_canonical_json row = canonical_input_json L
              \<lparr>j_job_id = ir_job_id row, j_reference_utc = ir_reference_utc row, j_evaluation_utc = e_evaluation_utc e,
               j_age_seconds = ir_age_seconds row, j_source_state = ir_source_state row\<rparr>) OutboxConsistencyError) (\<lambda>_.
            Inr row))"

definition validate_audit_event :: "audit_event \<Rightarrow> unit p6_result" where
  "validate_audit_event e =
     bind_result (check_job_id OutboxIdentityError (e_job_id e)) (\<lambda>_.
     bind_result (check_timestamp OutboxIdentityError (e_evaluation_utc e)) (\<lambda>_.
     bind_result (check_age OutboxIdentityError OutboxConsistencyError (e_age_seconds e)) (\<lambda>_.
     bind_result (check_hex64 OutboxIdentityError (e_input_sha256 e)) (\<lambda>_.
     bind_result (check_hex64 OutboxIdentityError (e_sha256 e)) (\<lambda>_.
       guard ((e_event_kind e, e_result_value e) \<in> {(''EXPIRED_OBSERVED'', ''EXPIRED''), (''STALE_OBSERVED'', ''STALE'')})
         OutboxIdentityError)))))"

text \<open>The loop that plans the rows, inside the transaction, with the job ids seen so far.\<close>

fun plan_previews ::
  "pylib \<Rightarrow> string \<Rightarrow> session_db \<Rightarrow> string set \<Rightarrow> audit_event list \<Rightarrow> dry_run_row list p6_result" where
  "plan_previews L session_id db seen [] = Inr []"
| "plan_previews L session_id db seen (raw # events) =
     bind_result (validate_audit_event raw) (\<lambda>_.
       if e_job_id raw \<in> seen then Inl OutboxBatchError
       else bind_result (load_persisted_audit_event db raw) (\<lambda>persisted.
         bind_result (load_persisted_evaluation_input L db persisted) (\<lambda>_.
         bind_result (build_preview_row L persisted session_id) (\<lambda>preview.
         bind_result (plan_previews L session_id db (insert (e_job_id raw) seen) events) (\<lambda>planned.
           Inr (preview # planned))))))"

section \<open>Queueing previews\<close>

definition dry_run_row_ok :: "dry_run_row \<Rightarrow> bool" where
  "dry_run_row_ok r \<longleftrightarrow> hex64 (or_payload_sha256 r) \<and> or_result_value r \<in> {''EXPIRED'', ''STALE''} \<and> 0 \<le> or_age_seconds r \<and>
     or_state r = ''PREVIEW_ONLY'' \<and> or_template_id r = ''recovery-observation.v1'' \<and>
     or_credential_free r = 1 \<and> or_delivery_evidence r = 0"

definition insert_preview :: "dry_run_row \<Rightarrow> session_db \<Rightarrow> session_db option" where
  "insert_preview r db =
     (if tbl_find or_payload_sha256 (or_payload_sha256 r) (dry_run_outbox db) \<noteq> None \<or> \<not> dry_run_row_ok r \<or>
        foreign_keys db \<and> tbl_find audit_key (or_event_sha256 r, or_job_id r) (audit_events db) = None then None
      else Some (db\<lparr>dry_run_outbox := tbl_insert r (dry_run_outbox db)\<rparr>))"

text \<open>
  One planned row. Once the lookup by primary key has found nothing, an integrity error cannot be a
  collision on that key, so of the handlers for a failed insert only the schema error is reachable.
\<close>

definition write_preview :: "dry_run_row \<Rightarrow> session_db \<Rightarrow> preview_row p6_result \<times> session_db" where
  "write_preview r db =
     (case tbl_find or_payload_sha256 (or_payload_sha256 r) (dry_run_outbox db) of
        Some existing \<Rightarrow>
          if existing \<noteq> r then (Inl OutboxSchemaError, db)
          else (Inr \<lparr>p_row = r, p_persisted = False, p_duplicate = True\<rparr>, db)
      | None \<Rightarrow>
          if (case tbl_find or_job_id (or_job_id r) (dry_run_outbox db) of
                None \<Rightarrow> False | Some other \<Rightarrow> or_payload_sha256 other \<noteq> or_payload_sha256 r)
          then (Inl OutboxConflictError, db)
          else (case insert_preview r db of
              None \<Rightarrow> (Inl OutboxSchemaError, db)
            | Some db \<Rightarrow> (Inr \<lparr>p_row = r, p_persisted = True, p_duplicate = False\<rparr>, db)))"

fun write_previews :: "dry_run_row list \<Rightarrow> session_db \<Rightarrow> preview_row list p6_result \<times> session_db" where
  "write_previews [] db = (Inr [], db)"
| "write_previews (r # rs) db =
     (case write_preview r db of
        (Inl e, db) \<Rightarrow> (Inl e, db)
      | (Inr p, db) \<Rightarrow>
          (case write_previews rs db of
             (Inl e, db) \<Rightarrow> (Inl e, db)
           | (Inr ps, db) \<Rightarrow> (Inr (p # ps), db)))"

definition queue_body ::
  "pylib \<Rightarrow> string \<Rightarrow> audit_event list \<Rightarrow> session_db \<Rightarrow> preview_row list p6_result \<times> session_db" where
  "queue_body L session_id events db =
     (case plan_previews L session_id db {} events of
        Inl e \<Rightarrow> (Inl e, db)
      | Inr planned \<Rightarrow> write_previews planned db)"

definition queue_checks :: "external_context \<Rightarrow> string \<Rightarrow> audit_event list \<Rightarrow> session_db \<Rightarrow> unit p6_result" where
  "queue_checks ctx session_id events db =
     bind_result (batch_size_ok events OutboxBatchError) (\<lambda>_.
     bind_result (case validate_external_context ctx of Inl _ \<Rightarrow> Inl OutboxIdentityError | Inr _ \<Rightarrow> Inr ()) (\<lambda>_.
     bind_result (check_session_id session_id) (\<lambda>_.
       verify_outbox_db db)))"

definition queue_previews ::
  "pylib \<Rightarrow> external_context \<Rightarrow> string \<Rightarrow> audit_event list \<Rightarrow> session_db \<Rightarrow> preview_row list p6_result \<times> session_db" where
  "queue_previews L ctx session_id events db =
     (case queue_checks ctx session_id events db of
        Inl e \<Rightarrow> (Inl e, db)
      | Inr _ \<Rightarrow> immediate_tx (queue_body L session_id events) db)"

definition preview_of :: "pylib \<Rightarrow> string \<Rightarrow> audit_event \<Rightarrow> dry_run_row" where
  "preview_of L session_id e =
     \<lparr>or_payload_sha256 = sha256_hexdigest L (canonical_payload_json L e session_id), or_event_sha256 = e_sha256 e,
      or_job_id = e_job_id e, or_result_value = e_result_value e, or_age_seconds = e_age_seconds e,
      or_state = ''PREVIEW_ONLY'', or_template_id = ''recovery-observation.v1'',
      or_canonical_json = canonical_payload_json L e session_id, or_session_id = session_id,
      or_evaluation_utc = e_evaluation_utc e, or_credential_free = 1, or_delivery_evidence = 0\<rparr>"

lemma build_preview_Inr:
  "build_preview_row L (audit_row_to_event (audit_row_of e)) s = Inr r \<longleftrightarrow>
     length (canonical_payload_json L e s) \<le> 4096 \<and> r = preview_of L s e"
proof -
  have "canonical_payload_json L (audit_row_to_event (audit_row_of e)) s = canonical_payload_json L e s"
    by (simp add: canonical_payload_json_def audit_row_to_event_def audit_row_of_def)
  then show ?thesis
    by (auto simp: build_preview_row_def preview_of_def Let_def audit_row_to_event_def audit_row_of_def)
qed

definition known_event :: "session_db \<Rightarrow> audit_event \<Rightarrow> bool" where
  "known_event db e \<longleftrightarrow> tbl_find audit_key (e_sha256 e, e_job_id e) (audit_events db) = Some (audit_row_of e)"

lemma load_persisted_Inr:
  "load_persisted_audit_event db e = Inr p \<longleftrightarrow> known_event db e \<and> p = audit_row_to_event (audit_row_of e)"
  by (auto simp: load_persisted_audit_event_def known_event_def split: option.splits if_splits)

lemma plan_previews_Inr:
  assumes "plan_previews L s db seen events = Inr planned"
  shows "planned = map (preview_of L s) events \<and> list_all (known_event db) events \<and>
    distinct (map e_job_id events) \<and> (\<forall>e \<in> set events. e_job_id e \<notin> seen \<and> validate_audit_event e = Inr ())"
  using assms
proof (induction L s db seen events arbitrary: planned rule: plan_previews.induct)
  case (2 L s db seen raw events)
  then obtain r ps where p: "e_job_id raw \<notin> seen" "validate_audit_event raw = Inr ()" "known_event db raw"
      "r = preview_of L s raw" "plan_previews L s db (insert (e_job_id raw) seen) events = Inr ps" "planned = r # ps"
    by (auto simp: load_persisted_Inr build_preview_Inr split: if_splits)
  show ?case using 2(1) [OF p(1,5)] p by auto
qed simp

lemma write_preview_Inr:
  assumes "write_preview r db = (Inr p, db')"
  shows "p_row p = r \<and> r \<in> set (dry_run_outbox db') \<and>
    (db' = db \<or> db' = db\<lparr>dry_run_outbox := dry_run_outbox db @ [r]\<rparr> \<and> dry_run_row_ok r \<and> or_job_id r \<notin> or_job_id ` set (dry_run_outbox db))"
proof (cases "tbl_find or_payload_sha256 (or_payload_sha256 r) (dry_run_outbox db)")
  case None
  have "tbl_find or_job_id (or_job_id r) (dry_run_outbox db) = None"
  proof (rule ccontr)
    assume "tbl_find or_job_id (or_job_id r) (dry_run_outbox db) \<noteq> None"
    then obtain q where q: "tbl_find or_job_id (or_job_id r) (dry_run_outbox db) = Some q" by blast
    then have "or_payload_sha256 q = or_payload_sha256 r" using assms None by (auto simp: write_preview_def split: if_splits)
    then show False using None tbl_find_SomeD [OF q] by (auto simp: tbl_find_None image_iff)
  qed
  then show ?thesis using assms None
    by (auto simp: write_preview_def insert_preview_def tbl_insert_def tbl_find_None split: option.splits if_splits)
next
  case (Some q)
  then show ?thesis using assms tbl_find_SomeD [OF Some] by (auto simp: write_preview_def split: if_splits)
qed

lemma write_previews_Inr:
  assumes "write_previews rs db = (Inr ps, db')"
  shows "\<exists>new. db' = db\<lparr>dry_run_outbox := dry_run_outbox db @ new\<rparr> \<and> set new \<subseteq> set rs \<and> list_all dry_run_row_ok new \<and>
    set rs \<subseteq> set (dry_run_outbox db') \<and> map p_row ps = rs \<and>
    (tbl_keyed or_job_id (dry_run_outbox db) \<longrightarrow> tbl_keyed or_job_id (dry_run_outbox db'))"
  using assms
proof (induction rs arbitrary: db ps)
  case (Cons r rs)
  then obtain p db1 qs where w: "write_preview r db = (Inr p, db1)" "write_previews rs db1 = (Inr qs, db')" "ps = p # qs"
    by (auto split: prod.splits sum.splits)
  obtain new where new: "db' = db1\<lparr>dry_run_outbox := dry_run_outbox db1 @ new\<rparr>" "set new \<subseteq> set rs" "list_all dry_run_row_ok new"
      "set rs \<subseteq> set (dry_run_outbox db')" "map p_row qs = rs"
      "tbl_keyed or_job_id (dry_run_outbox db1) \<longrightarrow> tbl_keyed or_job_id (dry_run_outbox db')"
    using Cons.IH [OF w(2)] by (elim exE conjE) (rule that)
  note r = write_preview_Inr [OF w(1)]
  then consider "db1 = db"
    | "db1 = db\<lparr>dry_run_outbox := dry_run_outbox db @ [r]\<rparr>" "dry_run_row_ok r" "or_job_id r \<notin> or_job_id ` set (dry_run_outbox db)"
    by blast
  then show ?case
  proof cases
    case 1
    then show ?thesis using new r w(3) by (intro exI [of _ new]) auto
  next
    case 2
    then show ?thesis using new r w(3) by (intro exI [of _ "r # new"]) (auto simp: tbl_keyed_def)
  qed
qed simp

lemma queue_previews_Inr:
  assumes "queue_previews L ctx s events db = (Inr ps, db')"
  shows "plan_previews L s db {} events = Inr (map (preview_of L s) events)" "write_previews (map (preview_of L s) events) db = (Inr ps, db')"
    "list_all (known_event db) events"
proof -
  obtain planned where p: "plan_previews L s db {} events = Inr planned" "write_previews planned db = (Inr ps, db')"
    using assms by (auto simp: queue_previews_def queue_body_def immediate_tx_Inr split: sum.splits)
  note eq = plan_previews_Inr [OF p(1)]
  show "plan_previews L s db {} events = Inr (map (preview_of L s) events)" "write_previews (map (preview_of L s) events) db = (Inr ps, db')"
    "list_all (known_event db) events" using p eq by auto
qed

lemma queue_previews_Inl: "queue_previews L ctx s events db = (Inl e, db') \<Longrightarrow> db' = db"
  by (auto simp: queue_previews_def immediate_tx_Inl split: sum.splits)

end
