(* ===== verification/Phase6Session.thy ===== *)
theory Phase6Session
  imports Phase6Outbox
begin

text \<open>
  A session of the observation sandbox: the operations of recovery, audit and outbox against one
  database, as a transactional store. The invariant is the chain of evidence from every preview back
  to a validated job; the properties are that histories keep it, that tables are append-only, and
  that what an evaluation returns can be audited and queued.
\<close>

section \<open>The operations of a session\<close>

datatype p6_op =
    Evaluate external_context "job_input list"
  | Audit external_context "evaluation_result list"
  | Queue external_context string "audit_event list"

datatype p6_answer = Evaluated "evaluation_result list" | Audited "audit_event list" | Queued "preview_row list"

definition answer :: "('a \<Rightarrow> 'b) \<Rightarrow> ('e + 'a) \<times> 's \<Rightarrow> ('e + 'b) \<times> 's" where
  "answer f = (\<lambda>(r, s). (case r of Inl e \<Rightarrow> Inl e | Inr x \<Rightarrow> Inr (f x), s))"

fun p6_exec :: "pylib \<Rightarrow> p6_op \<Rightarrow> session_db \<Rightarrow> p6_answer p6_result \<times> session_db" where
  "p6_exec L (Evaluate ctx inputs) db = answer Evaluated (evaluate_batch L ctx inputs db)"
| "p6_exec L (Audit ctx results) db = answer Audited (audit_observations L ctx results db)"
| "p6_exec L (Queue ctx session_id events) db = answer Queued (queue_previews L ctx session_id events db)"

section \<open>The chain of evidence\<close>

text \<open>An input row is a validated job in an observable age band, with the digest of its own text.\<close>

definition input_traced :: "pylib \<Rightarrow> input_row \<Rightarrow> bool" where
  "input_traced L i \<longleftrightarrow> input_row_ok i \<and> 300 \<le> ir_age_seconds i \<and> (\<exists>j. validate_job_input j = Inr j \<and> i = input_row_of L j)"

definition event_traced :: "session_db \<Rightarrow> audit_row \<Rightarrow> bool" where
  "event_traced db a \<longleftrightarrow> audit_row_ok a \<and> ar_result_value a = snd (band_for_age (ar_age_seconds a)) \<and>
     (\<exists>i \<in> set (evaluation_inputs db). ir_job_id i = ar_job_id a \<and> ir_sha256 i = ar_input_sha256 a \<and>
       ir_age_seconds i = ar_age_seconds a)"

definition preview_traced :: "session_db \<Rightarrow> dry_run_row \<Rightarrow> bool" where
  "preview_traced db p \<longleftrightarrow> dry_run_row_ok p \<and>
     (\<exists>a \<in> set (audit_events db). ar_event_sha256 a = or_event_sha256 p \<and> ar_job_id a = or_job_id p \<and>
       ar_result_value a = or_result_value p \<and> ar_age_seconds a = or_age_seconds p \<and>
       ar_evaluation_utc a = or_evaluation_utc p)"

definition p6_inv :: "pylib \<Rightarrow> session_db \<Rightarrow> bool" where
  "p6_inv L db \<longleftrightarrow>
     tbl_keyed ir_job_id (evaluation_inputs db) \<and> tbl_keyed ar_job_id (audit_events db) \<and> tbl_keyed or_job_id (dry_run_outbox db) \<and>
     (\<forall>i \<in> set (evaluation_inputs db). input_traced L i) \<and> (\<forall>a \<in> set (audit_events db). event_traced db a) \<and>
     (\<forall>p \<in> set (dry_run_outbox db). preview_traced db p)"

lemma traced_mono:
  "set (evaluation_inputs db) \<subseteq> set (evaluation_inputs db') \<Longrightarrow> event_traced db a \<Longrightarrow> event_traced db' a"
  "set (audit_events db) \<subseteq> set (audit_events db') \<Longrightarrow> preview_traced db p \<Longrightarrow> preview_traced db' p"
  unfolding event_traced_def preview_traced_def by blast+

lemma will_persist_iff: "will_persist j \<longleftrightarrow> 300 \<le> j_age_seconds j"
  by (simp add: will_persist_def band_for_age_def)

lemma evaluate_inv:
  assumes inv: "p6_inv L db" and run: "evaluate_batch L ctx inputs db = (Inr results, db')"
  shows "p6_inv L db'"
proof -
  note e = evaluate_batch_Inr [OF run] and plan = evaluation_plan_Inr [OF evaluate_batch_Inr(1) [OF run]]
  note ins = insert_inputs_Inr [OF e(2)]
  have new: "input_traced L (input_row_of L j)" if "j \<in> set (filter will_persist inputs)" for j
    using that ins(3) plan(5) by (auto simp: input_traced_def list_all_iff will_persist_iff) (simp add: input_row_of_def)
  have tables: "evaluation_inputs db' = evaluation_inputs db @ map (input_row_of L) (filter will_persist inputs)"
    "audit_events db' = audit_events db" "dry_run_outbox db' = dry_run_outbox db" using ins(1) by simp_all
  have "event_traced db' a" if "event_traced db a" for a by (rule traced_mono(1) [OF _ that]) (simp add: tables)
  moreover have "preview_traced db' p" if "preview_traced db p" for p by (rule traced_mono(2) [OF _ that]) (simp add: tables)
  moreover have "tbl_keyed ir_job_id (evaluation_inputs db')" using inv by (intro ins(2)) (simp add: p6_inv_def)
  moreover have "\<forall>i \<in> set (evaluation_inputs db'). input_traced L i" using inv new by (auto simp: tables p6_inv_def)
  ultimately show ?thesis using inv unfolding p6_inv_def by (simp add: tables)
qed

lemma existing_event_None: "existing_event db job = None \<longleftrightarrow> job \<notin> ar_job_id ` set (audit_events db)"
  by (simp add: existing_event_def tbl_find_None)

lemma audit_inv:
  assumes inv: "p6_inv L db" and run: "audit_observations L ctx results db = (Inr written, db')"
  shows "p6_inv L db'"
proof -
  note a = audit_observations_Inr [OF run]
  note plan = audit_plan_Inr [OF a(1)] and w = write_events_Inr [OF a(2)]
  let ?new = "filter (\<lambda>e. existing_event db (e_job_id e) = None) (map (event_of L) (filter observable results))"
  have tables: "audit_events db' = audit_events db @ map audit_row_of ?new" "evaluation_inputs db' = evaluation_inputs db"
    "dry_run_outbox db' = dry_run_outbox db" using w(1) by simp_all
  have "distinct (map (\<lambda>e. e_job_id e) (map (event_of L) (filter observable results)))" using plan(2) by (simp add: comp_def)
  then have "distinct (map e_job_id ?new)" by (rule distinct_map_filter)
  moreover have "ar_job_id ` set (map audit_row_of ?new) \<inter> ar_job_id ` set (audit_events db) = {}"
    unfolding existing_event_None by (auto simp: audit_row_of_def image_iff)
  moreover have "distinct (map ar_job_id (audit_events db))" using inv by (simp add: p6_inv_def tbl_keyed_def)
  moreover have "map ar_job_id (map audit_row_of es) = map e_job_id es" for es by (simp add: audit_row_of_def)
  ultimately have keyed: "tbl_keyed ar_job_id (audit_events db')"
    unfolding tables tbl_keyed_def map_append distinct_append set_map by (simp only: Int_commute simp_thms)
  have "event_traced db' (audit_row_of e)" if e: "e \<in> set ?new" for e
  proof -
    obtain r where r: "r \<in> set (filter observable results)" "e = event_of L r" using e by auto
    then obtain row where row: "tbl_find ir_job_id (r_job_id r) (evaluation_inputs db) = Some row" "ir_sha256 row = r_input_sha256 r"
        "ir_age_seconds row = r_age_seconds r" "300 \<le> r_age_seconds r" using plan(3) [OF r(1)] by (auto simp: matches_input_def)
    have "audit_row_ok (audit_row_of e)" using w(2) e by (simp add: list_all_iff)
    then show ?thesis unfolding event_traced_def
      using row tbl_find_SomeD [OF row(1)] r(2) by (auto simp: tables audit_row_of_def band_for_age_def)
  qed
  moreover have "event_traced db' a" if "event_traced db a" for a by (rule traced_mono(1) [OF _ that]) (simp add: tables)
  moreover have "preview_traced db' p" if "preview_traced db p" for p by (rule traced_mono(2) [OF _ that]) (simp add: tables)
  ultimately show ?thesis using inv keyed unfolding p6_inv_def by (auto simp: tables)
qed

lemma queue_inv:
  assumes inv: "p6_inv L db" and run: "queue_previews L ctx s events db = (Inr ps, db')"
  shows "p6_inv L db'"
proof -
  note q = queue_previews_Inr [OF run]
  obtain new where new: "db' = db\<lparr>dry_run_outbox := dry_run_outbox db @ new\<rparr>" "set new \<subseteq> set (map (preview_of L s) events)"
      "list_all dry_run_row_ok new" "tbl_keyed or_job_id (dry_run_outbox db) \<longrightarrow> tbl_keyed or_job_id (dry_run_outbox db')"
    using write_previews_Inr [OF q(2)] by blast
  have tables: "audit_events db' = audit_events db" "evaluation_inputs db' = evaluation_inputs db"
    "dry_run_outbox db' = dry_run_outbox db @ new" using new(1) by simp_all
  have "preview_traced db' p" if p: "p \<in> set new" for p
  proof -
    obtain e where e: "e \<in> set events" "p = preview_of L s e" using p new(2) by auto
    then have "audit_row_of e \<in> set (audit_events db)"
      using q(3) tbl_find_SomeD by (fastforce simp: list_all_iff known_event_def)
    then show ?thesis using p new(3) e(2)
      by (auto simp: preview_traced_def tables list_all_iff preview_of_def audit_row_of_def intro!: bexI [of _ "audit_row_of e"])
  qed
  moreover have "event_traced db' a" if "event_traced db a" for a by (rule traced_mono(1) [OF _ that]) (simp add: tables)
  moreover have "preview_traced db' p" if "preview_traced db p" for p by (rule traced_mono(2) [OF _ that]) (simp add: tables)
  moreover have "tbl_keyed or_job_id (dry_run_outbox db')" using inv new(4) by (simp add: p6_inv_def)
  ultimately show ?thesis using inv unfolding p6_inv_def tables by (auto simp del: new(1))
qed

text \<open>Rollback and the invariant are the store's contract; histories follow from it.\<close>

lemma p6_exec_cases:
  "p6_exec L c db = (Inr x, db') \<Longrightarrow>
     (\<exists>ctx inputs rs. evaluate_batch L ctx inputs db = (Inr rs, db')) \<or> (\<exists>ctx results es. audit_observations L ctx results db = (Inr es, db')) \<or>
     (\<exists>ctx s events ps. queue_previews L ctx s events db = (Inr ps, db'))"
  by (cases c) (auto simp: answer_def split: prod.splits sum.splits)

lemma p6_exec_Inl: "p6_exec L c db = (Inl e, db') \<Longrightarrow> db' = db"
  by (cases c) (auto simp: answer_def split: prod.splits sum.splits
      dest: evaluate_batch_Inl audit_observations_Inl queue_previews_Inl)

interpretation p6: transactional_store "p6_exec L" "p6_inv L" for L
proof
  show "snd (p6_exec L c db) = db" if "fst (p6_exec L c db) = Inl e" for c db e
    using that p6_exec_Inl [of L c db e "snd (p6_exec L c db)"] by (cases "p6_exec L c db") simp
  show "p6_inv L (snd (p6_exec L c db))" if "p6_inv L db" for c db
  proof (cases "p6_exec L c db")
    case (Pair r db')
    show ?thesis
    proof (cases r)
      case (Inl e)
      then show ?thesis using Pair p6_exec_Inl [of L c db e db'] that by simp
    next
      case (Inr x)
      then have "p6_inv L db'" using Pair p6_exec_cases [of L c db x db'] that evaluate_inv audit_inv queue_inv by blast
      then show ?thesis using Pair by simp
    qed
  qed
qed

section \<open>From evaluation to audit\<close>

lemma hex_text:
  assumes "hex64 s"
  shows "line_body s = s" "class_match is_hex 64 64 s" "s \<noteq> []"
proof -
  show ne: "s \<noteq> []" using assms by (auto simp: hex64_def)
  have "is_hex (last s)" using assms ne by (simp add: hex64_def list_all_iff)
  then have "last s \<noteq> char_of (10 :: nat)" by (auto simp: is_hex_def)
  then show body: "line_body s = s" by (simp add: line_body_def)
  show "class_match is_hex 64 64 s" using assms by (simp add: class_match_def body hex64_def)
qed

lemma validated_job:
  assumes "validate_job_input j = Inr j"
  shows "check_job_id AuditIdentityError (j_job_id j) = Inr ()" "check_source_state AuditIdentityError (j_source_state j) = Inr ()"
    "check_timestamp AuditIdentityError (j_reference_utc j) = Inr ()" "check_timestamp AuditIdentityError (j_evaluation_utc j) = Inr ()"
    "check_age AuditIdentityError AuditConsistencyError (j_age_seconds j) = Inr ()"
    "0 < j_age_seconds j \<Longrightarrow> j_reference_utc j < j_evaluation_utc j"
    "length (j_job_id j) \<le> 128" "length (j_evaluation_utc j) \<le> 32" "0 \<le> j_age_seconds j" "j_age_seconds j \<le> INT64_MAX"
proof -
  from assms obtain a b where
    ab: "parse_canonical_utc_to_seconds (j_reference_utc j) = Inr a" "parse_canonical_utc_to_seconds (j_evaluation_utc j) = Inr b"
      "b - a = j_age_seconds j" and
    checks: "check_job_id RecoveryIdentityError (j_job_id j) = Inr ()" "check_timestamp_field (j_reference_utc j) = Inr ()"
      "check_timestamp_field (j_evaluation_utc j) = Inr ()"
      "check_age RecoveryIdentityError RecoveryConsistencyError (j_age_seconds j) = Inr ()"
      "check_source_state RecoveryIdentityError (j_source_state j) = Inr ()"
    by (auto simp: validate_job_input_def split: if_splits)
  show "check_job_id AuditIdentityError (j_job_id j) = Inr ()" "check_source_state AuditIdentityError (j_source_state j) = Inr ()"
    "length (j_job_id j) \<le> 128"
    using checks by (simp_all add: check_job_id_def check_source_state_def)
  show "check_age AuditIdentityError AuditConsistencyError (j_age_seconds j) = Inr ()" "0 \<le> j_age_seconds j" "j_age_seconds j \<le> INT64_MAX"
    using checks by (auto simp: check_age_def split: if_splits)
  have "20 \<le> length (j_reference_utc j)" "20 \<le> length (j_evaluation_utc j)"
    using parse_seconds_Inr [OF ab(1)] parse_seconds_Inr [OF ab(2)] by blast+
  then show "check_timestamp AuditIdentityError (j_reference_utc j) = Inr ()" "check_timestamp AuditIdentityError (j_evaluation_utc j) = Inr ()"
    "length (j_evaluation_utc j) \<le> 32"
    using checks by (auto simp: check_timestamp_def check_timestamp_field_def)
  show "j_reference_utc j < j_evaluation_utc j" if "0 < j_age_seconds j"
    using earlier_text [OF ab(1,2)] that ab(3) by simp
qed

lemma evaluation_of_simps [simp]:
  "r_job_id (evaluation_of L j) = j_job_id j" "r_age_seconds (evaluation_of L j) = j_age_seconds j"
  "r_reference_utc (evaluation_of L j) = j_reference_utc j" "r_evaluation_utc (evaluation_of L j) = j_evaluation_utc j"
  "r_source_state (evaluation_of L j) = j_source_state j" "job_of_result (evaluation_of L j) = j"
  "observable (evaluation_of L j) \<longleftrightarrow> will_persist j"
  by (simp_all add: evaluation_of_def job_of_result_def observable_def will_persist_def)

lemma evaluated_event:
  assumes "validate_job_input j = Inr j" "will_persist j" "hex64 (sha256_hexdigest L (canonical_input_json L j))"
  shows "build_audit_event (evaluation_of L j) = Inr (event_base (evaluation_of L j))"
    "finalise_event L (event_base (evaluation_of L j)) = Inr (event_of L (evaluation_of L j))"
proof -
  note v = validated_job [OF assms(1)]
  have age: "300 \<le> j_age_seconds j" using assms(2) by (simp add: will_persist_iff)
  have sha: "r_input_sha256 (evaluation_of L j) = sha256_hexdigest L (canonical_input_json L j)"
    using assms(2) by (simp add: evaluation_of_def)
  have "r_result (evaluation_of L j) \<noteq> ''NO_OBSERVATION''" using assms(2) by (simp add: evaluation_of_def will_persist_def)
  then show "build_audit_event (evaluation_of L j) = Inr (event_base (evaluation_of L j))"
    using v age hex_text(2) [OF assms(3)]
    by (simp add: build_audit_event_def event_base_def sha check_hex64_def expected_event_kind_and_value_def)
  have "length (canonical_event_json L (event_base (evaluation_of L j))) \<le> 2048"
    using v assms(3) by (intro length_event_json) (simp_all add: event_base_def sha hex64_def)
  then show "finalise_event L (event_base (evaluation_of L j)) = Inr (event_of L (evaluation_of L j))"
    by (simp add: finalise_event_def event_of_def Let_def)
qed

lemma plan_events_total:
  assumes "list_all (\<lambda>j. validate_job_input j = Inr j) jobs" "distinct (map j_job_id jobs)" "list_all (\<lambda>j. j_job_id j \<notin> seen) jobs"
    "list_all (\<lambda>j. hex64 (sha256_hexdigest L (canonical_input_json L j))) (filter will_persist jobs)"
  shows "plan_events L seen (map (evaluation_of L) jobs) =
    Inr (map (\<lambda>r. (r, event_of L r)) (filter observable (map (evaluation_of L) jobs)))"
  using assms
proof (induction jobs arbitrary: seen)
  case (Cons j jobs)
  show ?case
  proof (cases "will_persist j")
    case True
    have "r_result (evaluation_of L j) \<noteq> ''NO_OBSERVATION''" using True by (simp add: evaluation_of_def will_persist_def)
    moreover have "list_all (\<lambda>i. j_job_id i \<notin> insert (j_job_id j) seen) jobs"
      using Cons.prems(2,3) by (auto simp: list_all_iff image_iff)
    ultimately show ?thesis using Cons True evaluated_event [of j L] by simp
  next
    case False
    then have "r_result (evaluation_of L j) = ''NO_OBSERVATION''" by (simp add: evaluation_of_def will_persist_def)
    then show ?thesis using Cons False by simp
  qed
qed simp

lemma write_events_total:
  assumes "list_all (\<lambda>e. existing (e_job_id e) = None \<and> audit_row_ok (audit_row_of e) \<and>
      e_job_id e \<notin> ar_job_id ` set (audit_events db) \<and> e_job_id e \<in> ir_job_id ` set (evaluation_inputs db)) es"
    "distinct (map e_job_id es)"
  shows "\<exists>db'. write_events existing es db = (Inr (map (\<lambda>e. e\<lparr>e_persisted := True\<rparr>) es), db')"
  using assms
proof (induction es arbitrary: db)
  case (Cons e es)
  let ?db = "db\<lparr>audit_events := tbl_insert (audit_row_of e) (audit_events db)\<rparr>"
  have key: "ar_job_id (audit_row_of e) = e_job_id e" by (simp add: audit_row_of_def)
  have "audit_key (audit_row_of e) \<notin> audit_key ` set (audit_events db)"
    using Cons.prems(1) key by (auto simp: audit_key_def image_iff)
  moreover have "tbl_find ir_job_id (e_job_id e) (evaluation_inputs db) \<noteq> None" using Cons.prems(1) by (simp add: tbl_find_None)
  ultimately have ins: "insert_audit (audit_row_of e) db = Some ?db"
    using Cons.prems(1) by (simp add: insert_audit_def tbl_find_None key)
  have "list_all (\<lambda>e. existing (e_job_id e) = None \<and> audit_row_ok (audit_row_of e) \<and>
      e_job_id e \<notin> ar_job_id ` set (audit_events ?db) \<and> e_job_id e \<in> ir_job_id ` set (evaluation_inputs ?db)) es"
    using Cons.prems by (auto simp: list_all_iff key image_iff)
  then obtain db' where "write_events existing es ?db = (Inr (map (\<lambda>e. e\<lparr>e_persisted := True\<rparr>) es), db')"
    using Cons.IH [of ?db] Cons.prems(2) by auto
  then show ?case using Cons.prems(1) ins by simp
qed simp

definition fresh_session :: "session_db \<Rightarrow> bool" where
  "fresh_session db \<longleftrightarrow> user_version db = 1 \<and> has_columns db ''evaluation_inputs'' input_columns \<and>
     has_columns db ''audit_events'' audit_columns \<and> has_columns db ''dry_run_outbox'' outbox_columns \<and>
     evaluation_inputs db = [] \<and> audit_events db = [] \<and> dry_run_outbox db = []"

lemma fresh_inv: "fresh_session db \<Longrightarrow> p6_inv L db"
  by (simp add: fresh_session_def p6_inv_def)

text \<open>Every operation leaves the schema alone and only appends rows.\<close>

definition extends :: "session_db \<Rightarrow> session_db \<Rightarrow> bool" where
  "extends db db' \<longleftrightarrow> (\<exists>is as ps. db' = db\<lparr>evaluation_inputs := evaluation_inputs db @ is,
     audit_events := audit_events db @ as, dry_run_outbox := dry_run_outbox db @ ps\<rparr>)"

lemma extendsI:
  "db' = db\<lparr>evaluation_inputs := evaluation_inputs db @ is\<rparr> \<Longrightarrow> extends db db'"
  "db' = db\<lparr>audit_events := audit_events db @ as\<rparr> \<Longrightarrow> extends db db'"
  "db' = db\<lparr>dry_run_outbox := dry_run_outbox db @ ps\<rparr> \<Longrightarrow> extends db db'"
  unfolding extends_def
  by (rule exI [of _ "is"], rule exI [of _ "[]"], rule exI [of _ "[]"], simp)
    (rule exI [of _ "[]"], rule exI [of _ as], rule exI [of _ "[]"], simp,
     rule exI [of _ "[]"], rule exI [of _ "[]"], rule exI [of _ ps], simp)

lemma extends_refl: "extends db db"
  by (rule extendsI(1) [of _ _ "[]"]) simp

lemma extends_trans: "extends a b \<Longrightarrow> extends b c \<Longrightarrow> extends a c"
  unfolding extends_def
proof (elim exE)
  fix i1 a1 p1 i2 a2 p2
  assume b: "b = a\<lparr>evaluation_inputs := evaluation_inputs a @ i1, audit_events := audit_events a @ a1, dry_run_outbox := dry_run_outbox a @ p1\<rparr>"
    and c: "c = b\<lparr>evaluation_inputs := evaluation_inputs b @ i2, audit_events := audit_events b @ a2, dry_run_outbox := dry_run_outbox b @ p2\<rparr>"
  show "\<exists>is as ps. c = a\<lparr>evaluation_inputs := evaluation_inputs a @ is, audit_events := audit_events a @ as, dry_run_outbox := dry_run_outbox a @ ps\<rparr>"
    by (rule exI [of _ "i1 @ i2"], rule exI [of _ "a1 @ a2"], rule exI [of _ "p1 @ p2"]) (simp add: b c)
qed

lemma exec_extends: "extends db (snd (p6_exec L c db))"
proof (cases "p6_exec L c db")
  case (Pair r db')
  show ?thesis
  proof (cases r)
    case (Inl e)
    then show ?thesis using Pair p6_exec_Inl extends_refl by fastforce
  next
    case (Inr x)
    then consider (eval) ctx inputs rs where "evaluate_batch L ctx inputs db = (Inr rs, db')"
      | (audit) ctx results es where "audit_observations L ctx results db = (Inr es, db')"
      | (queue) ctx s events ps where "queue_previews L ctx s events db = (Inr ps, db')"
      using Pair p6_exec_cases by metis
    then have "extends db db'"
    proof cases
      case eval
      then show ?thesis using insert_inputs_Inr(1) evaluate_batch_Inr(2) extendsI(1) by metis
    next
      case audit
      then show ?thesis using write_events_Inr(1) audit_observations_Inr(2) extendsI(2) by metis
    next
      case queue
      then show ?thesis using write_previews_Inr [OF queue_previews_Inr(2) [OF queue]] extendsI(3) by metis
    qed
    then show ?thesis using Pair by simp
  qed
qed

lemma run_extends: "extends db (run_ops (p6_exec L) ops db)"
proof (induction ops arbitrary: db)
  case (Cons c ops)
  then show ?case using exec_extends [of db L c] extends_trans by (metis run_ops.simps(2))
qed (simp add: extends_refl)

lemma extends_schema: "extends db db' \<Longrightarrow> user_version db' = user_version db \<and> columns db' = columns db"
  by (auto simp: extends_def)

lemma audit_plan_total:
  assumes plan: "evaluation_plan L ctx jobs db = Inr jobs" and ins: "insert_inputs L jobs db = (Inr (), db')"
    and inv: "p6_inv L db'" and cols: "user_version db = 1" "has_columns db ''evaluation_inputs'' input_columns"
      "has_columns db ''audit_events'' audit_columns"
    and same: "evaluation_inputs dx = evaluation_inputs db'" "user_version dx = user_version db'" "columns dx = columns db'"
  shows "audit_plan L ctx (map (evaluation_of L) jobs) dx =
    Inr (map (\<lambda>r. (r, event_of L r)) (filter observable (map (evaluation_of L) jobs)))"
proof -
  note p = evaluation_plan_Inr [OF plan] and i = insert_inputs_Inr [OF ins]
  have sha: "hex64 (sha256_hexdigest L (canonical_input_json L j))" if "j \<in> set (filter will_persist jobs)" for j
    using i(3) that by (auto simp: list_all_iff input_row_ok_def input_row_of_def)
  have plan': "plan_events L {} (map (evaluation_of L) jobs) =
      Inr (map (\<lambda>r. (r, event_of L r)) (filter observable (map (evaluation_of L) jobs)))"
    using p sha by (intro plan_events_total) (auto simp: list_all_iff)
  have "matches_input L dx (evaluation_of L j)" if "j \<in> set (filter will_persist jobs)" for j
  proof -
    have "input_row_of L j \<in> set (evaluation_inputs db')" using i(1) that by simp
    then have "tbl_find ir_job_id (j_job_id j) (evaluation_inputs dx) = Some (input_row_of L j)"
      using inv by (simp add: same tbl_find_Some p6_inv_def) (simp add: input_row_of_def)
    moreover have "r_input_sha256 (evaluation_of L j) = sha256_hexdigest L (canonical_input_json L j)"
      using that by (simp add: evaluation_of_def)
    ultimately show ?thesis by (auto simp: matches_input_def input_row_of_def)
  qed
  then have "\<exists>us. map_result (check_input L dx) (map (\<lambda>r. (r, event_of L r)) (filter observable (map (evaluation_of L) jobs))) = Inr us"
    by (auto simp: map_result_unit check_input_Inr comp_def)
  moreover have "verify_audit_db dx = Inr ()"
    using cols same i(1) by (simp add: verify_audit_db_def has_columns_def)
  ultimately show ?thesis
    using p plan' by (auto simp: audit_plan_def batch_size_ok_def)
qed

lemma map_prod_snd: "map snd (map (\<lambda>r. (r, f r)) xs) = map f xs"
  by (simp add: comp_def)

lemma audited_jobs: "p6_inv L db \<Longrightarrow> ar_job_id ` set (audit_events db) \<subseteq> ir_job_id ` set (evaluation_inputs db)"
proof
  fix k assume inv: "p6_inv L db" and "k \<in> ar_job_id ` set (audit_events db)"
  then obtain a where a: "a \<in> set (audit_events db)" "k = ar_job_id a" by blast
  then have "event_traced db a" using inv by (simp add: p6_inv_def)
  then show "k \<in> ir_job_id ` set (evaluation_inputs db)" using a(2) unfolding event_traced_def by (metis image_eqI)
qed

lemma audit_after_evaluate:
  assumes inv: "p6_inv L db" and cols: "has_columns db ''evaluation_inputs'' input_columns" "has_columns db ''audit_events'' audit_columns"
    and digest: "digest_contract L" and run: "evaluate_batch L ctx jobs db = (Inr results, db')"
  shows "\<exists>db''. audit_observations L ctx results db' = (Inr (map (\<lambda>r. (event_of L r)\<lparr>e_persisted := True\<rparr>) (filter observable results)), db'') \<and>
    audit_observations L ctx results db'' =
      (Inr (map (\<lambda>r. (event_of L r)\<lparr>e_persisted := False, e_duplicate := True\<rparr>) (filter observable results)), db'')"
proof -
  note e = evaluate_batch_Inr [OF run]
  note p = evaluation_plan_Inr [OF e(1)] and i = insert_inputs_Inr [OF e(2)]
  have inv': "p6_inv L db'" by (rule evaluate_inv [OF inv run])
  let ?es = "map (event_of L) (filter observable results)"
  have plan: "audit_plan L ctx results dx = Inr (map (\<lambda>r. (r, event_of L r)) (filter observable results))"
    if "evaluation_inputs dx = evaluation_inputs db'" "user_version dx = user_version db'" "columns dx = columns db'" for dx
    using audit_plan_total [OF e(1,2) inv' p(8) cols that] by (simp add: e(3))
  have events: "audit_events db' = audit_events db" using i(1) by simp
  have job_new: "j_job_id j \<notin> ar_job_id ` set (audit_events db')" if "j \<in> set jobs" for j
    using p(6) [OF that] audited_jobs [OF inv] by (auto simp: events)
  have stored: "j_job_id j \<in> ir_job_id ` set (evaluation_inputs db')" if "j \<in> set (filter will_persist jobs)" for j
    using that i(1) by (force simp: input_row_of_def)
  have row_ok: "audit_row_ok (audit_row_of (event_of L (evaluation_of L j)))" if j: "j \<in> set (filter will_persist jobs)" for j
  proof -
    have "hex64 (sha256_hexdigest L (canonical_input_json L j))" using i(3) j
      by (auto simp: list_all_iff input_row_ok_def input_row_of_def)
    then show ?thesis using j digest by (simp add: audit_row_ok_def audit_row_of_def digest_contract_def hex64_def will_persist_iff evaluation_of_def)
  qed
  have "list_all (\<lambda>e. existing_event db' (e_job_id e) = None \<and> audit_row_ok (audit_row_of e) \<and>
      e_job_id e \<notin> ar_job_id ` set (audit_events db') \<and> e_job_id e \<in> ir_job_id ` set (evaluation_inputs db')) ?es"
    by (simp add: list_all_iff e(3) existing_event_None) (clarsimp simp: job_new stored row_ok)
  moreover have distinct: "distinct (map e_job_id ?es)" using p(4) by (simp add: e(3) comp_def filter_map distinct_map_filter)
  ultimately obtain db'' where w: "write_events (existing_event db') ?es db' = (Inr (map (\<lambda>e. e\<lparr>e_persisted := True\<rparr>) ?es), db'')"
    using write_events_total by blast
  have first: "audit_observations L ctx results db' = (Inr (map (\<lambda>r. (event_of L r)\<lparr>e_persisted := True\<rparr>) (filter observable results)), db'')"
    using w by (simp add: audit_observations_def plan immediate_tx_Inr comp_def)
  have inv'': "p6_inv L db''" by (rule audit_inv [OF inv' first])
  note written = write_events_Inr(1) [OF w]
  have known: "existing_event db'' (e_job_id e) = Some (e_sha256 e)" if "e \<in> set ?es" for e
  proof -
    obtain j where j: "j \<in> set jobs" "e_job_id e = j_job_id j" using \<open>e \<in> set ?es\<close> by (auto simp: e(3))
    have "existing_event db' (e_job_id e) = None" unfolding existing_event_None j(2) by (rule job_new [OF j(1)])
    then have "audit_row_of e \<in> set (audit_events db'')" using that written by simp
    then have "tbl_find ar_job_id (e_job_id e) (rev (audit_events db'')) = Some (audit_row_of e)"
      using inv'' by (subst tbl_find_Some) (auto simp: p6_inv_def tbl_keyed_def rev_map [symmetric] audit_row_of_def)
    then show ?thesis by (simp add: existing_event_def audit_row_of_def)
  qed
  have again: "write_events ex es dx = (Inr (map (\<lambda>e. e\<lparr>e_persisted := False, e_duplicate := True\<rparr>) es), dx)"
    if "\<forall>e \<in> set es. ex (e_job_id e) = Some (e_sha256 e)" for ex es dx
    using that by (induction es) simp_all
  have "audit_observations L ctx results db'' =
      (Inr (map (\<lambda>r. (event_of L r)\<lparr>e_persisted := False, e_duplicate := True\<rparr>) (filter observable results)), db'')"
    using again [of ?es "existing_event db''" db''] known written
    by (simp add: audit_observations_def plan immediate_tx_Inr comp_def del: event_of_simps)
  with first show ?thesis by blast
qed

section \<open>From audit to preview\<close>

lemma length_payload_json:
  assumes "length (e_job_id e) \<le> 128" "length (e_evaluation_utc e) \<le> 32" "length (e_input_sha256 e) \<le> 65" "length (e_sha256 e) \<le> 65"
    "length (e_result_value e) \<le> 7" "0 \<le> e_age_seconds e" "e_age_seconds e \<le> INT64_MAX" "length s \<le> 32"
  shows "length (canonical_payload_json L e s) \<le> 4096"
proof -
  note keys = length_json_str [of "''age_seconds''"] length_json_str [of "''credential_free''"] length_json_str [of "''delivery_evidence''"]
    length_json_str [of "''evaluation_utc''"] length_json_str [of "''event_sha256''"]
    length_json_str [of "''input_sha256''"] length_json_str [of "''job_id''"] length_json_str [of "''result_value''"]
    length_json_str [of "''session_id''"] length_json_str [of "''state''"] length_json_str [of "''template_id''"]
  note vals = length_show_age [OF assms(6,7)] length_json_str [of "e_sha256 e"] length_json_str [of "e_evaluation_utc e"]
    length_json_str [of "e_input_sha256 e"] length_json_str [of "e_job_id e"] length_json_str [of "e_result_value e"]
    length_json_str [of s] length_json_str [of "''PREVIEW_ONLY''"] length_json_str [of "''recovery-observation.v1''"]
  have one: "length (show_int 0) = 1" "length (show_int 1) = 1" by code_simp+
  show ?thesis using keys vals one assms(1-5,8) unfolding canonical_payload_json_def
    by (simp add: length_json_dict del: json_dumps.simps(8))
qed

text \<open>What an event must meet for its preview to be built.\<close>

definition previewable :: "pylib \<Rightarrow> string \<Rightarrow> session_db \<Rightarrow> audit_event \<Rightarrow> bool" where
  "previewable L s db e \<longleftrightarrow> validate_audit_event e = Inr () \<and> known_event db e \<and>
     (\<exists>row. load_persisted_evaluation_input L db (audit_row_to_event (audit_row_of e)) = Inr row) \<and>
     length (canonical_payload_json L e s) \<le> 4096"

lemma plan_previews_total:
  assumes "list_all (previewable L s db) es" "distinct (map e_job_id es)" "list_all (\<lambda>e. e_job_id e \<notin> seen) es"
  shows "plan_previews L s db seen es = Inr (map (preview_of L s) es)"
  using assms
proof (induction es arbitrary: seen)
  case (Cons e es)
  have "list_all (\<lambda>e'. e_job_id e' \<notin> insert (e_job_id e) seen) es"
    using Cons.prems(2,3) by (auto simp: list_all_iff image_iff)
  then have rest: "plan_previews L s db (insert (e_job_id e) seen) es = Inr (map (preview_of L s) es)"
    using Cons by simp
  have "load_persisted_audit_event db e = Inr (audit_row_to_event (audit_row_of e))"
    "build_preview_row L (audit_row_to_event (audit_row_of e)) s = Inr (preview_of L s e)"
    using Cons.prems(1) by (simp_all add: previewable_def load_persisted_Inr build_preview_Inr)
  then show ?case using Cons.prems rest by (auto simp: previewable_def)
qed simp

lemma write_previews_total:
  assumes "list_all (\<lambda>r. dry_run_row_ok r \<and> or_job_id r \<notin> or_job_id ` set (dry_run_outbox db) \<and>
      or_payload_sha256 r \<notin> or_payload_sha256 ` set (dry_run_outbox db) \<and>
      (or_event_sha256 r, or_job_id r) \<in> audit_key ` set (audit_events db)) rs"
    "distinct (map or_job_id rs)" "distinct (map or_payload_sha256 rs)"
  shows "\<exists>db'. write_previews rs db = (Inr (map (\<lambda>r. \<lparr>p_row = r, p_persisted = True, p_duplicate = False\<rparr>) rs), db')"
  using assms
proof (induction rs arbitrary: db)
  case (Cons r rs)
  let ?db = "db\<lparr>dry_run_outbox := tbl_insert r (dry_run_outbox db)\<rparr>"
  have none: "tbl_find or_payload_sha256 (or_payload_sha256 r) (dry_run_outbox db) = None"
    "tbl_find or_job_id (or_job_id r) (dry_run_outbox db) = None"
    "tbl_find audit_key (or_event_sha256 r, or_job_id r) (audit_events db) \<noteq> None"
    using Cons.prems(1) unfolding tbl_find_None list.pred_inject by blast+
  have first: "write_preview r db = (Inr \<lparr>p_row = r, p_persisted = True, p_duplicate = False\<rparr>, ?db)"
    using none Cons.prems(1) by (simp add: write_preview_def insert_preview_def)
  have "list_all (\<lambda>r. dry_run_row_ok r \<and> or_job_id r \<notin> or_job_id ` set (dry_run_outbox ?db) \<and>
      or_payload_sha256 r \<notin> or_payload_sha256 ` set (dry_run_outbox ?db) \<and>
      (or_event_sha256 r, or_job_id r) \<in> audit_key ` set (audit_events ?db)) rs"
    using Cons.prems by (auto simp: list_all_iff image_iff)
  then obtain db' where "write_previews rs ?db = (Inr (map (\<lambda>r. \<lparr>p_row = r, p_persisted = True, p_duplicate = False\<rparr>) rs), db')"
    using Cons.IH [of ?db] Cons.prems(2,3) by auto
  then show ?case using first by simp
qed simp

lemma keyed_by_job: "tbl_keyed ar_job_id rows \<Longrightarrow> tbl_keyed audit_key rows"
  by (auto simp: tbl_keyed_def audit_key_def distinct_map inj_on_def)

lemma previewed_jobs: "p6_inv L db \<Longrightarrow> or_job_id ` set (dry_run_outbox db) \<subseteq> ir_job_id ` set (evaluation_inputs db)"
proof
  fix k assume inv: "p6_inv L db" and "k \<in> or_job_id ` set (dry_run_outbox db)"
  then obtain p where p: "p \<in> set (dry_run_outbox db)" "k = or_job_id p" by blast
  then have "preview_traced db p" using inv by (simp add: p6_inv_def)
  then have "k \<in> ar_job_id ` set (audit_events db)" using p(2) unfolding preview_traced_def by (metis image_eqI)
  then show "k \<in> ir_job_id ` set (evaluation_inputs db)" using audited_jobs [OF inv] by blast
qed

lemma audited_previewable:
  assumes j: "validate_job_input j = Inr j" "will_persist j" and sha: "hex64 (sha256_hexdigest L (canonical_input_json L j))"
    and digest: "digest_contract L" and s: "length s \<le> 32" and inv: "p6_inv L db"
    and stored: "input_row_of L j \<in> set (evaluation_inputs db)" "audit_row_of (event_of L (evaluation_of L j)) \<in> set (audit_events db)"
  shows "previewable L s db (event_of L (evaluation_of L j))"
proof -
  let ?e = "event_of L (evaluation_of L j)"
  note v = validated_job [OF j(1)]
  have in_sha: "r_input_sha256 (evaluation_of L j) = sha256_hexdigest L (canonical_input_json L j)"
    using j(2) by (simp add: evaluation_of_def)
  have e_sha: "hex64 (sha256_hexdigest L x)" for x using digest by (simp add: digest_contract_def hex64_def)
  have "validate_audit_event ?e = Inr ()"
    using v(1,4,5) hex_text(2) [OF e_sha] hex_text(2) [OF sha]
    by (simp add: validate_audit_event_def in_sha check_hex64_def check_job_id_def check_timestamp_def check_age_def split: if_splits)
  moreover have "known_event db ?e"
    unfolding known_event_def using inv stored(2) keyed_by_job
    by (subst tbl_find_Some) (auto simp: p6_inv_def audit_key_def audit_row_of_def)
  moreover have "tbl_find ir_job_id (j_job_id j) (evaluation_inputs db) = Some (input_row_of L j)"
    using inv stored(1) by (subst tbl_find_Some) (auto simp: p6_inv_def input_row_of_def)
  then have "\<exists>row. load_persisted_evaluation_input L db (audit_row_to_event (audit_row_of ?e)) = Inr row"
    by (simp add: load_persisted_evaluation_input_def audit_row_to_event_def audit_row_of_def in_sha)
      (simp add: input_row_of_def canonical_input_json_def)
  moreover have "length (canonical_payload_json L ?e s) \<le> 4096"
    using v sha e_sha s by (intro length_payload_json) (simp_all add: in_sha hex64_def)
  ultimately show ?thesis by (simp add: previewable_def)
qed

lemma flag_simps [simp]:
  "preview_of L s (e\<lparr>e_persisted := b\<rparr>) = preview_of L s e" "audit_row_of (e\<lparr>e_persisted := b\<rparr>) = audit_row_of e"
  "previewable L s db (e\<lparr>e_persisted := b\<rparr>) = previewable L s db e"
proof -
  show row: "audit_row_of (e\<lparr>e_persisted := b\<rparr>) = audit_row_of e" by (simp add: audit_row_of_def)
  have json: "canonical_payload_json L (e\<lparr>e_persisted := b\<rparr>) s = canonical_payload_json L e s" by (simp add: canonical_payload_json_def)
  show "preview_of L s (e\<lparr>e_persisted := b\<rparr>) = preview_of L s e" by (simp add: preview_of_def json)
  show "previewable L s db (e\<lparr>e_persisted := b\<rparr>) = previewable L s db e"
    by (simp add: previewable_def json row validate_audit_event_def known_event_def)
qed

lemma queue_after_audit:
  assumes inv: "p6_inv L db" and cols: "has_columns db ''evaluation_inputs'' input_columns" "has_columns db ''audit_events'' audit_columns"
      "has_columns db ''dry_run_outbox'' outbox_columns"
    and digest: "digest_contract L" and run: "evaluate_batch L ctx jobs db = (Inr results, db')"
    and audit: "audit_observations L ctx results db' = (Inr written, db'')"
    and w: "written = map (\<lambda>r. (event_of L r)\<lparr>e_persisted := True\<rparr>) (filter observable results)" "written \<noteq> []"
    and s: "check_session_id s = Inr ()"
    and fresh: "distinct (map (\<lambda>e. or_payload_sha256 (preview_of L s e)) written)"
      "or_payload_sha256 ` preview_of L s ` set written \<inter> or_payload_sha256 ` set (dry_run_outbox db) = {}"
  shows "\<exists>db3. queue_previews L ctx s written db'' =
    (Inr (map (\<lambda>e. \<lparr>p_row = preview_of L s e, p_persisted = True, p_duplicate = False\<rparr>) written), db3)"
proof -
  note e = evaluate_batch_Inr [OF run]
  note p = evaluation_plan_Inr [OF e(1)] and i = insert_inputs_Inr [OF e(2)]
  have inv': "p6_inv L db'" and inv'': "p6_inv L db''" using evaluate_inv [OF inv run] audit_inv audit by blast+
  note a = audit_observations_Inr [OF audit]
  note we = write_events_Inr [OF a(2)]
  have tables: "evaluation_inputs db'' = evaluation_inputs db'" "dry_run_outbox db'' = dry_run_outbox db"
    "user_version db'' = 1" "columns db'' = columns db" using we(1) i(1) p(8) by simp_all
  have job_of: "\<exists>j \<in> set (filter will_persist jobs). v = (event_of L (evaluation_of L j))\<lparr>e_persisted := True\<rparr>" if "v \<in> set written" for v
    using that by (auto simp: w(1) e(3))
  have row: "audit_row_of v \<in> set (audit_events db'')" if v: "v \<in> set written" for v
  proof -
    obtain j where j: "j \<in> set (filter will_persist jobs)" "v = (event_of L (evaluation_of L j))\<lparr>e_persisted := True\<rparr>" using job_of [OF v] by blast
    have jobs: "j \<in> set jobs" using j(1) by simp
    have events: "audit_events db' = audit_events db" using i(1) by simp
    have "existing_event db' (j_job_id j) = None"
      unfolding existing_event_None events using p(6) [OF jobs] audited_jobs [OF inv] by blast
    then show ?thesis using we(1) j by (simp add: e(3))
  qed
  have ok: "list_all (previewable L s db'') written"
    unfolding list_all_iff
  proof
    fix v assume v: "v \<in> set written"
    then obtain j where j: "j \<in> set (filter will_persist jobs)" "v = (event_of L (evaluation_of L j))\<lparr>e_persisted := True\<rparr>" using job_of by blast
    have "input_row_ok (input_row_of L j)" using i(3) j(1) by (simp add: list_all_iff)
    then have sha: "hex64 (sha256_hexdigest L (canonical_input_json L j))" by (simp add: input_row_ok_def) (simp add: input_row_of_def)
    have "previewable L s db'' (event_of L (evaluation_of L j))"
      using j p(5) sha digest s inv'' row [OF v] i(1)
      by (intro audited_previewable) (auto simp: check_session_id_def tables)
    then show "previewable L s db'' v" by (simp add: j(2))
  qed
  have jobs: "distinct (map e_job_id written)" using p(4) by (simp add: w(1) e(3) comp_def filter_map distinct_map_filter)
  have plan: "plan_previews L s db'' {} written = Inr (map (preview_of L s) written)"
    by (rule plan_previews_total [OF ok jobs]) (simp add: list_all_iff)
  have row_ok: "dry_run_row_ok (preview_of L s v)" if "v \<in> set written" for v
  proof -
    have "validate_audit_event v = Inr ()" using ok that by (simp add: list_all_iff previewable_def)
    then show ?thesis using digest
      by (auto simp: validate_audit_event_def dry_run_row_ok_def preview_of_def digest_contract_def hex64_def check_age_def split: if_splits)
  qed
  have job_new: "e_job_id v \<notin> or_job_id ` set (dry_run_outbox db)" if v: "v \<in> set written" for v
  proof -
    obtain j where j: "j \<in> set jobs" "e_job_id v = j_job_id j" using job_of [OF v] by auto
    show ?thesis unfolding j(2) using p(6) [OF j(1)] previewed_jobs [OF inv] by blast
  qed
  have "\<exists>db3. write_previews (map (preview_of L s) written) db'' =
      (Inr (map (\<lambda>r. \<lparr>p_row = r, p_persisted = True, p_duplicate = False\<rparr>) (map (preview_of L s) written)), db3)"
  proof (rule write_previews_total)
    have key: "(or_event_sha256 (preview_of L s v), or_job_id (preview_of L s v)) = audit_key (audit_row_of v)" for v
      by (simp add: preview_of_def audit_key_def audit_row_of_def)
    have id: "or_job_id (preview_of L s v) = e_job_id v" for v by (simp add: preview_of_def)
    show "list_all (\<lambda>r. dry_run_row_ok r \<and> or_job_id r \<notin> or_job_id ` set (dry_run_outbox db'') \<and>
      or_payload_sha256 r \<notin> or_payload_sha256 ` set (dry_run_outbox db'') \<and>
      (or_event_sha256 r, or_job_id r) \<in> audit_key ` set (audit_events db'')) (map (preview_of L s) written)"
      unfolding list_all_iff tables
    proof
      fix r assume "r \<in> set (map (preview_of L s) written)"
      then obtain v where v: "v \<in> set written" "r = preview_of L s v" by auto
      have "or_payload_sha256 r \<notin> or_payload_sha256 ` set (dry_run_outbox db)" using fresh(2) v by blast
      moreover have "(or_event_sha256 r, or_job_id r) \<in> audit_key ` set (audit_events db'')"
        unfolding v(2) key using row [OF v(1)] by (rule imageI)
      moreover have "or_job_id r \<notin> or_job_id ` set (dry_run_outbox db)" unfolding v(2) id by (rule job_new [OF v(1)])
      ultimately show "dry_run_row_ok r \<and> or_job_id r \<notin> or_job_id ` set (dry_run_outbox db) \<and>
        or_payload_sha256 r \<notin> or_payload_sha256 ` set (dry_run_outbox db) \<and>
        (or_event_sha256 r, or_job_id r) \<in> audit_key ` set (audit_events db'')"
        using row_ok [OF v(1)] v(2) by blast
    qed
    show "distinct (map or_job_id (map (preview_of L s) written))" using jobs by (simp add: comp_def preview_of_def)
    show "distinct (map or_payload_sha256 (map (preview_of L s) written))" using fresh(1) by (simp add: comp_def)
  qed
  moreover have "queue_checks ctx s written db'' = Inr ()"
    using p w cols s tables by (auto simp: queue_checks_def batch_size_ok_def verify_outbox_db_def has_columns_def e(3) list_all_iff
      dest: in_set_butlastD intro: order_trans [OF length_filter_le])
  ultimately show ?thesis using plan by (auto simp: queue_previews_def queue_body_def immediate_tx_Inr comp_def)
qed

lemma filter_key_unique: "distinct (map f xs) \<Longrightarrow> x \<in> set xs \<Longrightarrow> filter (\<lambda>y. f y = f x) xs = [x]"
  by (induction xs) (auto simp: filter_empty_conv image_iff)

section \<open>Properties\<close>

text \<open>
  C9: whatever operations a fresh session runs, in whatever order, every preview in the outbox is
  inert (preview only, free of credentials, no delivery evidence), is the only one of its job, and
  traces back over an audit event and a stored input to a validated job that was at least five
  minutes old, whose age band is the preview's result.
\<close>

theorem sandbox_traceable:
  assumes "fresh_session db0" and "db = run_ops (p6_exec L) ops db0" and "p \<in> set (dry_run_outbox db)"
  shows "\<exists>a \<in> set (audit_events db). \<exists>j. input_row_of L j \<in> set (evaluation_inputs db) \<and> validate_job_input j = Inr j \<and>
    300 \<le> j_age_seconds j \<and> ar_input_sha256 a = sha256_hexdigest L (canonical_input_json L j) \<and>
    ar_event_sha256 a = or_event_sha256 p \<and> ar_job_id a = j_job_id j \<and> or_job_id p = j_job_id j \<and>
    or_age_seconds p = j_age_seconds j \<and> or_result_value p = snd (band_for_age (j_age_seconds j)) \<and>
    or_state p = ''PREVIEW_ONLY'' \<and> or_credential_free p = 1 \<and> or_delivery_evidence p = 0 \<and>
    filter (\<lambda>q. or_job_id q = or_job_id p) (dry_run_outbox db) = [p]"
proof -
  have inv: "p6_inv L db" unfolding assms(2) by (intro p6.run_inv fresh_inv assms(1))
  obtain a where a: "a \<in> set (audit_events db)" "ar_event_sha256 a = or_event_sha256 p" "ar_job_id a = or_job_id p"
      "ar_result_value a = or_result_value p" "ar_age_seconds a = or_age_seconds p" and p: "dry_run_row_ok p"
    using inv assms(3) by (auto simp: p6_inv_def preview_traced_def)
  obtain i where i: "i \<in> set (evaluation_inputs db)" "ir_job_id i = ar_job_id a" "ir_sha256 i = ar_input_sha256 a"
      "ir_age_seconds i = ar_age_seconds a" "ar_result_value a = snd (band_for_age (ar_age_seconds a))"
    using inv a(1) unfolding p6_inv_def event_traced_def by blast
  obtain j where j: "validate_job_input j = Inr j" "i = input_row_of L j" "300 \<le> ir_age_seconds i"
    using inv i(1) unfolding p6_inv_def input_traced_def by blast
  have "distinct (map or_job_id (dry_run_outbox db))" using inv by (simp add: p6_inv_def tbl_keyed_def)
  then have "filter (\<lambda>q. or_job_id q = or_job_id p) (dry_run_outbox db) = [p]"
    using assms(3) by (intro filter_key_unique)
  then show ?thesis
    using a i j p by (intro bexI [of _ a] exI [of _ j]) (auto simp: dry_run_row_ok_def input_row_of_def)
qed

text \<open>
  the three tables are append-only under every sequence of operations: rows that are there stay,
  unchanged and in place, the schema stays, and an operation that fails leaves the database as it was.
\<close>

theorem sandbox_append_only:
  "(\<exists>is as ps. run_ops (p6_exec L) ops db = db\<lparr>evaluation_inputs := evaluation_inputs db @ is,
      audit_events := audit_events db @ as, dry_run_outbox := dry_run_outbox db @ ps\<rparr>) \<and>
   (case p6_exec L c db of (Inl e, db') \<Rightarrow> db' = db | (Inr x, db') \<Rightarrow> True)"
  using run_extends [of db L ops] p6_exec_Inl [of L c db]
  by (auto simp: extends_def split: prod.splits sum.splits)

text \<open>
  what an evaluation returns reaches the outbox. In any session that started fresh, the results of
  a successful batch can be audited, with one new event for each observable result, in order; auditing
  them again changes nothing and reports each as a duplicate; and the audited events, if there are any,
  can be queued, with one new preview for each, provided the digests of the preview texts collide
  neither with each other nor with a stored one. (The audit compares times as texts where the
  evaluation compared seconds; the two agree.)
\<close>

theorem evaluated_reaches_outbox:
  assumes "fresh_session db0" and "db = run_ops (p6_exec L) ops db0" and "digest_contract L"
    and "evaluate_batch L ctx jobs db = (Inr results, db1)"
    and "events = map (\<lambda>r. (event_of L r)\<lparr>e_persisted := True\<rparr>) (filter observable results)"
    and "events \<noteq> []" and "check_session_id s = Inr ()"
    and "distinct (map (\<lambda>e. or_payload_sha256 (preview_of L s e)) events)"
    and "or_payload_sha256 ` preview_of L s ` set events \<inter> or_payload_sha256 ` set (dry_run_outbox db) = {}"
  shows "\<exists>db2 db3. audit_observations L ctx results db1 = (Inr events, db2) \<and>
    audit_observations L ctx results db2 =
      (Inr (map (\<lambda>r. (event_of L r)\<lparr>e_persisted := False, e_duplicate := True\<rparr>) (filter observable results)), db2) \<and>
    queue_previews L ctx s events db2 =
      (Inr (map (\<lambda>e. \<lparr>p_row = preview_of L s e, p_persisted = True, p_duplicate = False\<rparr>) events), db3)"
proof -
  have inv: "p6_inv L db" unfolding assms(2) by (intro p6.run_inv fresh_inv assms(1))
  have "columns db = columns db0" unfolding assms(2) using run_extends extends_schema by blast
  then have cols: "has_columns db ''evaluation_inputs'' input_columns" "has_columns db ''audit_events'' audit_columns"
      "has_columns db ''dry_run_outbox'' outbox_columns"
    using assms(1) by (simp_all add: fresh_session_def has_columns_def)
  obtain db2 where db2: "audit_observations L ctx results db1 = (Inr events, db2)"
      "audit_observations L ctx results db2 =
        (Inr (map (\<lambda>r. (event_of L r)\<lparr>e_persisted := False, e_duplicate := True\<rparr>) (filter observable results)), db2)"
    using audit_after_evaluate [OF inv cols(1,2) assms(3,4)] unfolding assms(5) by blast
  show ?thesis using queue_after_audit [OF inv cols assms(3,4) db2(1) assms(5-9)] db2 by blast
qed

section \<open>A session\<close>

definition p6_lib :: pylib where
  "p6_lib = \<lparr>sha256_hexdigest = (\<lambda>s. replicate 64 (CHR ''a'')), fromisoformat_utc = (\<lambda>s. None), json_loads = (\<lambda>s. None),
     float_repr = (\<lambda>f. []), container_str = (\<lambda>v. [])\<rparr>"

definition p6_ctx :: external_context where
  "p6_ctx = \<lparr>now_utc_iso = ''2024-01-01T01:00:00Z'', context_timezone = None, clock_drift_seconds = Some 0\<rparr>"

definition p6_db :: session_db where
  "p6_db = \<lparr>user_version = 1, columns = (\<lambda>t. input_columns @ audit_columns @ outbox_columns), foreign_keys = True,
     evaluation_inputs = [], audit_events = [], dry_run_outbox = []\<rparr>"

definition p6_job :: job_input where
  "p6_job = \<lparr>j_job_id = ''job-1'', j_reference_utc = ''2023-12-31T23:55:00.5Z'', j_evaluation_utc = ''2024-01-01T00:05:00Z'',
     j_age_seconds = 600, j_source_state = ''RUNNING''\<rparr>"

lemma p6_fresh: "fresh_session p6_db" by code_simp

lemma p6_digest: "digest_contract p6_lib"
proof -
  have "is_hex (CHR ''a'')" by code_simp
  then show ?thesis by (simp add: digest_contract_def p6_lib_def list_all_iff)
qed

definition p6_events :: "audit_event list" where
  "p6_events = [(event_of p6_lib (evaluation_of p6_lib p6_job))\<lparr>e_persisted := True\<rparr>]"

lemma p6_evaluated: "fst (evaluate_batch p6_lib p6_ctx [p6_job] p6_db) = Inr [evaluation_of p6_lib p6_job]"
  by code_simp

lemma p6_observable: "filter observable [evaluation_of p6_lib p6_job] = [evaluation_of p6_lib p6_job]"
  by code_simp

lemma evaluated_reaches_outbox_witness:
  "\<exists>results db1 events db2 previews db3. evaluate_batch p6_lib p6_ctx [p6_job] p6_db = (Inr results, db1) \<and>
     audit_observations p6_lib p6_ctx results db1 = (Inr events, db2) \<and>
     queue_previews p6_lib p6_ctx ''s1'' events db2 = (Inr previews, db3) \<and> length previews = 1"
proof -
  obtain db1 where e: "evaluate_batch p6_lib p6_ctx [p6_job] p6_db = (Inr [evaluation_of p6_lib p6_job], db1)"
    using p6_evaluated by (cases "evaluate_batch p6_lib p6_ctx [p6_job] p6_db") simp
  have run: "p6_db = run_ops (p6_exec p6_lib) [] p6_db" by simp
  have events: "p6_events = map (\<lambda>r. (event_of p6_lib r)\<lparr>e_persisted := True\<rparr>) (filter observable [evaluation_of p6_lib p6_job])"
    by (simp add: p6_observable p6_events_def del: filter.simps)
  have s: "check_session_id ''s1'' = Inr ()" by code_simp
  have one: "p6_events \<noteq> []" "distinct (map (\<lambda>e. or_payload_sha256 (preview_of p6_lib ''s1'' e)) p6_events)"
    "or_payload_sha256 ` preview_of p6_lib ''s1'' ` set p6_events \<inter> or_payload_sha256 ` set (dry_run_outbox p6_db) = {}"
    by (simp_all add: p6_events_def p6_db_def)
  show ?thesis
    using evaluated_reaches_outbox [OF p6_fresh run p6_digest e events one(1) s one(2,3)] e by (auto simp: p6_events_def)
qed

lemma p6_outbox:
  "\<exists>db. run_ops (p6_exec p6_lib) [Evaluate p6_ctx [p6_job], Audit p6_ctx [evaluation_of p6_lib p6_job], Queue p6_ctx ''s1'' p6_events] p6_db = db \<and>
     preview_of p6_lib ''s1'' (event_of p6_lib (evaluation_of p6_lib p6_job)) \<in> set (dry_run_outbox db)"
proof -
  obtain db1 where e: "evaluate_batch p6_lib p6_ctx [p6_job] p6_db = (Inr [evaluation_of p6_lib p6_job], db1)"
    using p6_evaluated by (cases "evaluate_batch p6_lib p6_ctx [p6_job] p6_db") simp
  have inv: "p6_inv p6_lib p6_db" by (rule fresh_inv [OF p6_fresh])
  have cols: "has_columns p6_db ''evaluation_inputs'' input_columns" "has_columns p6_db ''audit_events'' audit_columns"
    "has_columns p6_db ''dry_run_outbox'' outbox_columns" using p6_fresh by (simp_all add: fresh_session_def)
  have events: "p6_events = map (\<lambda>r. (event_of p6_lib r)\<lparr>e_persisted := True\<rparr>) (filter observable [evaluation_of p6_lib p6_job])"
    by (simp add: p6_observable p6_events_def del: filter.simps)
  obtain db2 where a: "audit_observations p6_lib p6_ctx [evaluation_of p6_lib p6_job] db1 = (Inr p6_events, db2)"
    using audit_after_evaluate [OF inv cols(1,2) p6_digest e] unfolding events by blast
  have s: "check_session_id ''s1'' = Inr ()" by code_simp
  have one: "p6_events \<noteq> []" "distinct (map (\<lambda>e. or_payload_sha256 (preview_of p6_lib ''s1'' e)) p6_events)"
    "or_payload_sha256 ` preview_of p6_lib ''s1'' ` set p6_events \<inter> or_payload_sha256 ` set (dry_run_outbox p6_db) = {}"
    by (simp_all add: p6_events_def p6_db_def)
  obtain ps db3 where q: "queue_previews p6_lib p6_ctx ''s1'' p6_events db2 = (Inr ps, db3)"
    using queue_after_audit [OF inv cols p6_digest e a events one(1) s one(2,3)] by blast
  have "preview_of p6_lib ''s1'' (event_of p6_lib (evaluation_of p6_lib p6_job)) \<in> set (dry_run_outbox db3)"
    using write_previews_Inr [OF queue_previews_Inr(2) [OF q]] by (auto simp: p6_events_def)
  then show ?thesis by (simp add: answer_def e a q)
qed

lemma sandbox_traceable_witness:
  "\<exists>db p j. db = run_ops (p6_exec p6_lib) [Evaluate p6_ctx [p6_job], Audit p6_ctx [evaluation_of p6_lib p6_job], Queue p6_ctx ''s1'' p6_events] p6_db \<and>
     p \<in> set (dry_run_outbox db) \<and> validate_job_input j = Inr j \<and> 300 \<le> j_age_seconds j \<and> or_job_id p = j_job_id j"
proof -
  obtain db where db: "db = run_ops (p6_exec p6_lib) [Evaluate p6_ctx [p6_job], Audit p6_ctx [evaluation_of p6_lib p6_job], Queue p6_ctx ''s1'' p6_events] p6_db"
      "preview_of p6_lib ''s1'' (event_of p6_lib (evaluation_of p6_lib p6_job)) \<in> set (dry_run_outbox db)"
    using p6_outbox by blast
  from sandbox_traceable [OF p6_fresh db] db show ?thesis by blast
qed

text \<open>
  The patterns end in a dollar sign, which also matches before a final newline: an identifier with one
  is accepted although the pattern names no such character, and a source state with one passes the
  validation only to violate the table's constraint, which is reported as a duplicate job.
\<close>

lemma newline_job_id: "validate_job_input (p6_job\<lparr>j_job_id := ''job-1'' @ [char_of (10 :: nat)]\<rparr>) =
    Inr (p6_job\<lparr>j_job_id := ''job-1'' @ [char_of (10 :: nat)]\<rparr>)"
  by code_simp

lemma newline_source_state: "fst (evaluate_batch p6_lib p6_ctx [p6_job\<lparr>j_source_state := ''RUNNING'' @ [char_of (10 :: nat)]\<rparr>] p6_db) =
    Inl RecoveryDuplicateError"
  by code_simp

end
