(* ===== verification/BriefingLedger.thy ===== *)
theory BriefingLedger
  imports BrokerProtocol Scheduler QueryPlanner "HOL-Library.Sublist"
begin

text \<open>
  The shadow ledger of the briefings (\<open>briefing_ledger.py\<close>): which candidates a briefing run has already told, in
  three SQLite tables, runs, candidates seen, and the events of each run. The operations validate their
  arguments, then do their work in one \<open>BEGIN IMMEDIATE\<close> transaction that another process can keep from
  beginning or from committing. \<open>complete_run\<close> records a run's events and says which of its candidates are new;
  a repeated call must get the same answer.

  Modelled with it: \<open>contracts.validate_utc_iso\<close>, \<open>event_contracts.event_version_identity\<close>, the constructors of
  \<open>ShadowEvent\<close> and \<open>CompleteRunResult\<close>, and the canonical payloads. Shown here: the invariant of the
  tables, that every operation keeps it or changes nothing, and that the ledger only ever goes forward.

  Left out: the probing of the connection by the constructor, and errors of SQLite other than a busy or locked
  database. They raise before anything is written or roll back.
\<close>

section \<open>Errors and parameters\<close>

text \<open>
  The errors of the ledger; \<open>Escapes\<close> is an exception of another class that passes through it.
\<close>

datatype ledger_error =
    LedgerContractError | LedgerStateError | PayloadValidationError | LockTimeoutError
  | RunConflictError | RunStateError | Escapes exn

type_synonym 'a ledger_result = "ledger_error + 'a"

text \<open>
  \<^item> \<open>utf8_text b\<close>: \<open>b.decode("utf-8")\<close>, \<open>None\<close> where it raises.
  \<^item> \<open>json_pairs s\<close>: what \<open>json.loads(s, object_pairs_hook=...)\<close> sees; a \<open>PDict\<close> lists the pairs of an
    object as they stand in the text, repeated keys included. \<open>NotJson\<close> is a \<open>JSONDecodeError\<close>, \<open>JsonRaises\<close>
    any other exception (an integer of too many digits, too deep a nesting).
  \<^item> \<open>iso_instant s\<close>: \<open>datetime.fromisoformat(s)\<close> as its instant and its UTC offset, which a
    naive datetime has not; \<open>None\<close> where it raises \<open>ValueError\<close>.
\<close>

datatype json_outcome = NotJson | JsonRaises exn | Parsed pyval

record ledger_lib =
  ll_py :: pylib
  utf8_text :: "string \<Rightarrow> string option"
  json_pairs :: "string \<Rightarrow> json_outcome"
  iso_instant :: "string \<Rightarrow> (instant \<times> int option) option"

section \<open>Validators\<close>

text \<open>\<open>contracts.validate_utc_iso\<close> on a string.\<close>

definition validate_utc_iso :: "(string \<Rightarrow> (instant \<times> int option) option) \<Rightarrow> string \<Rightarrow> string result" where
  "validate_utc_iso fromiso v =
     (let tail_part = drop 10 v;
          candidate =
            (if ends_with ''Z'' v then Some (butlast v @ ''+00:00'')
             else if CHR ''+'' \<in> set tail_part \<or> count_list v (CHR ''-'') > 2 then
               (if CHR ''+'' \<notin> set tail_part \<and> CHR ''-'' \<notin> set tail_part then None else Some v)
             else None) in
      if v = [] then Inl ValueError
      else (case candidate of
          None \<Rightarrow> Inl ValueError
        | Some s \<Rightarrow> (case fromiso s of Some (t, Some offset) \<Rightarrow> if offset = 0 then Inr (iso_z t) else Inl ValueError
            | _ \<Rightarrow> Inl ValueError)))"

definition ID_LIMIT :: nat where
  "ID_LIMIT = 256"

text \<open>\<open>_C0_C1_BIDI_RE\<close> and \<open>_IDENTITY_CONTROL_RE\<close> on code points below 256.\<close>

definition id_control_char :: "char \<Rightarrow> bool" where
  "id_control_char c = (let n = (of_char c :: nat) in n < 32 \<or> 127 \<le> n \<and> n \<le> 159)"

definition check_candidate_id :: "pyval \<Rightarrow> string ledger_result" where
  "check_candidate_id v =
     (case v of PStr s \<Rightarrow>
        if s = [] then Inl LedgerContractError
        else if length s > ID_LIMIT then Inl LedgerContractError
        else if list_ex id_control_char s then Inl LedgerContractError
        else Inr s
      | _ \<Rightarrow> Inl LedgerContractError)"

definition check_event_version :: "pyval \<Rightarrow> int ledger_result" where
  "check_event_version v = (case v of PInt n \<Rightarrow> if n \<le> 0 then Inl LedgerContractError else Inr n | _ \<Rightarrow> Inl LedgerContractError)"

definition validate_run_id :: "pyval \<Rightarrow> string ledger_result" where
  "validate_run_id v =
     (case v of PStr s \<Rightarrow> if s = [] then Inl LedgerContractError else if length s > ID_LIMIT then Inl LedgerContractError else Inr s
      | _ \<Rightarrow> Inl LedgerContractError)"

definition error_code_char :: "char \<Rightarrow> bool" where
  "error_code_char c = (let n = (of_char c :: nat) in 65 \<le> n \<and> n \<le> 90 \<or> 48 \<le> n \<and> n \<le> 57 \<or> n = 95 \<or> n = 46 \<or> n = 45)"

definition validate_error_code :: "pyval \<Rightarrow> string ledger_result" where
  "validate_error_code v =
     (case v of PStr s \<Rightarrow> if s = [] \<or> length s > 128 then Inl LedgerContractError
        else if \<not> list_all error_code_char s then Inl LedgerContractError else Inr s
      | _ \<Rightarrow> Inl LedgerContractError)"

text \<open>The last check of the code, that the text ends in \<open>Z\<close>, cannot fail.\<close>

definition validate_timestamp :: "ledger_lib \<Rightarrow> pyval \<Rightarrow> string ledger_result" where
  "validate_timestamp L v =
     (case v of PStr s \<Rightarrow>
        if s = [] then Inl LedgerContractError
        else (case validate_utc_iso (iso_instant L) s of Inl e \<Rightarrow> Inl LedgerContractError | Inr z \<Rightarrow> Inr z)
      | _ \<Rightarrow> Inl LedgerContractError)"

section \<open>Shadow events\<close>

text \<open>\<open>event_contracts.event_version_identity\<close>.\<close>

definition clean_identity :: "pyval \<Rightarrow> string result" where
  "clean_identity v =
     (case v of PStr s \<Rightarrow> if s = [] \<or> length s > 256 \<or> list_ex id_control_char s then Inl ValueError else Inr s
      | _ \<Rightarrow> Inl ValueError)"

definition event_version_identity :: "pylib \<Rightarrow> pyval \<Rightarrow> pyval \<Rightarrow> pyval \<Rightarrow> string result" where
  "event_version_identity L subject_id event_id version =
     bind_result (clean_identity subject_id) (\<lambda>s.
     bind_result (clean_identity event_id) (\<lambda>e.
       case version of PInt n \<Rightarrow>
         if n \<le> 0 then Inl ValueError
         else Inr (''evv1:'' @ sha256_hexdigest L (json_dumps L (PTuple [PStr s, PStr e, PInt n])))
       | _ \<Rightarrow> Inl ValueError))"

datatype category = AI | WORLD | AUDIO_ENGINEERING | HARDWARE | FANTASY_NOVEL | AUDIOVISUAL | AV_CORPORATE | OUR_SETUP

datatype semantic_decision =
    distinct_event | material_update | rewrite | bypass_phase2_terminal | pending_review | pending_model_error

record shadow_event =
  ev_candidate_id :: string
  ev_category :: category
  ev_decision :: semantic_decision
  ev_payload_json :: string
  ev_recorded_at :: string

text \<open>A payload that is given: bytes, a mutable buffer, or something else.\<close>

datatype payload_arg = Bytes string | ByteArray string | NoBytes

text \<open>
  \<open>ShadowEvent.__post_init__\<close>. A field of the wrong enum type is \<open>None\<close>; an identity that is not given is \<open>PNone\<close>.
\<close>

definition resolve_candidate_id :: "ledger_lib \<Rightarrow> pyval \<Rightarrow> pyval \<Rightarrow> pyval \<Rightarrow> pyval \<Rightarrow> pyval ledger_result" where
  "resolve_candidate_id L candidate_id subject_id event_id version =
     (let identity = (case event_version_identity (ll_py L) subject_id event_id version of Inl e \<Rightarrow> Inl (Escapes e) | Inr s \<Rightarrow> Inr (PStr s));
          missing = (subject_id = PNone \<or> event_id = PNone \<or> version = PNone);
          given = (subject_id \<noteq> PNone \<or> event_id \<noteq> PNone \<or> version \<noteq> PNone) in
      if candidate_id = PStr [] then (if missing then Inl LedgerContractError else identity)
      else if given then
        (if missing then Inl LedgerContractError
         else bind_result identity (\<lambda>expected. if candidate_id \<noteq> expected then Inl LedgerContractError else Inr candidate_id))
      else Inr candidate_id)"

definition check_event_fields ::
  "ledger_lib \<Rightarrow> category option \<Rightarrow> semantic_decision option \<Rightarrow> payload_arg \<Rightarrow> (category \<times> semantic_decision \<times> string) ledger_result" where
  "check_event_fields L cat decision payload =
     (case (cat, decision, payload) of
        (Some c, Some d, Bytes b) \<Rightarrow>
          if d \<notin> {distinct_event, material_update} then Inl LedgerContractError
          else if b = [] then Inl LedgerContractError
          else if utf8_text L b = None then Inl LedgerContractError
          else Inr (c, d, b)
      | _ \<Rightarrow> Inl LedgerContractError)"

definition make_shadow_event ::
  "ledger_lib \<Rightarrow> pyval \<Rightarrow> category option \<Rightarrow> semantic_decision option \<Rightarrow> payload_arg \<Rightarrow> pyval \<Rightarrow>
   pyval \<Rightarrow> pyval \<Rightarrow> pyval \<Rightarrow> shadow_event ledger_result" where
  "make_shadow_event L candidate_id cat decision payload recorded_at subject_id event_id version =
     bind_result (resolve_candidate_id L candidate_id subject_id event_id version) (\<lambda>cid.
     bind_result (if subject_id = PNone then Inr [] else check_candidate_id subject_id) (\<lambda>_.
     bind_result (if event_id = PNone then Inr [] else check_candidate_id event_id) (\<lambda>_.
     bind_result (if version = PNone then Inr 0 else check_event_version version) (\<lambda>_.
     bind_result (check_candidate_id cid) (\<lambda>cid.
     bind_result (check_event_fields L cat decision payload) (\<lambda>(c, d, b).
     bind_result (validate_timestamp L recorded_at) (\<lambda>z.
       Inr \<lparr>ev_candidate_id = cid, ev_category = c, ev_decision = d, ev_payload_json = b, ev_recorded_at = z\<rparr>)))))))"

section \<open>Canonical payloads\<close>

definition PAYLOAD_BYTE_LIMIT :: nat where
  "PAYLOAD_BYTE_LIMIT = 16384"

definition SENSITIVE_KEY_TOKENS :: "string list" where
  "SENSITIVE_KEY_TOKENS = [''token'', ''secret'', ''password'', ''authorization'']"

definition sensitive_key :: "string \<Rightarrow> bool" where
  "sensitive_key k = list_ex (\<lambda>tok. contains tok (casefold k)) SENSITIVE_KEY_TOKENS"

fun no_sensitive_keys :: "pyval \<Rightarrow> bool" where
  "no_sensitive_keys (PDict kvs) = list_all (\<lambda>(k, v). \<not> sensitive_key k \<and> no_sensitive_keys v) kvs"
| "no_sensitive_keys (PList vs) = list_all no_sensitive_keys vs"
| "no_sensitive_keys (PTuple vs) = False"
| "no_sensitive_keys _ = True"

text \<open>The hook of the parser sees the pairs of every object, however deep.\<close>

fun keys_unique :: "pyval \<Rightarrow> bool" where
  "keys_unique (PDict kvs) = (distinct (map fst kvs) \<and> list_all (\<lambda>(k, v). keys_unique v) kvs)"
| "keys_unique (PList vs) = list_all keys_unique vs"
| "keys_unique _ = True"

definition parse_strict_json_object :: "ledger_lib \<Rightarrow> string \<Rightarrow> pyval ledger_result" where
  "parse_strict_json_object L text_in =
     (case json_pairs L text_in of
        NotJson \<Rightarrow> Inl PayloadValidationError
      | JsonRaises e \<Rightarrow> Inl (Escapes e)
      | Parsed v \<Rightarrow>
          if \<not> keys_unique v then Inl PayloadValidationError
          else (case v of PDict kvs \<Rightarrow> if json_finite v then Inr v else Inl PayloadValidationError
            | _ \<Rightarrow> Inl PayloadValidationError))"

datatype payload_in = PayloadBytes string | PayloadText string | PayloadMapping pydict | PayloadOther

text \<open>\<open>json.dumps(v, ensure_ascii=False, separators=(",", ":"))\<close>: insertion order.\<close>

fun json_compact :: "pylib \<Rightarrow> pyval \<Rightarrow> string" where
  "json_compact L (PList vs) = ''['' @ join '','' (map (json_compact L) vs) @ '']''"
| "json_compact L (PTuple vs) = ''['' @ join '','' (map (json_compact L) vs) @ '']''"
| "json_compact L (PDict kvs) = ''{'' @ join '','' (map (\<lambda>(k, v). json_str k @ '':'' @ json_compact L v) kvs) @ ''}''"
| "json_compact L v = json_dumps L v"

text \<open>\<open>normalize_canonical_payload\<close>: what is parsed, and the bytes it has to equal.\<close>

definition payload_source :: "ledger_lib \<Rightarrow> payload_in \<Rightarrow> (string option \<times> string) ledger_result" where
  "payload_source L payload =
     (case payload of
        PayloadBytes b \<Rightarrow> (case utf8_text L b of None \<Rightarrow> Inl PayloadValidationError | Some s \<Rightarrow> Inr (Some b, s))
      | PayloadText s \<Rightarrow> Inr (Some (utf8_encode s), s)
      | PayloadMapping d \<Rightarrow>
          if json_finite (PDict d) then Inr (None, json_compact (ll_py L) (PDict d)) else Inl PayloadValidationError
      | PayloadOther \<Rightarrow> Inl PayloadValidationError)"

text \<open>The checks of the parsed object.\<close>

definition canonical_payload :: "pylib \<Rightarrow> string option \<Rightarrow> pyval \<Rightarrow> string ledger_result" where
  "canonical_payload L raw v =
     (let canonical = utf8_encode (json_dumps L v) in
      if \<not> no_sensitive_keys v then Inl PayloadValidationError
      else if raw \<noteq> None \<and> raw \<noteq> Some canonical then Inl PayloadValidationError
      else if length canonical > PAYLOAD_BYTE_LIMIT then Inl PayloadValidationError
      else Inr canonical)"

definition normalize_canonical_payload :: "ledger_lib \<Rightarrow> payload_in \<Rightarrow> string ledger_result" where
  "normalize_canonical_payload L payload =
     bind_result (payload_source L payload) (\<lambda>(raw, s).
     bind_result (parse_strict_json_object L s) (\<lambda>v. canonical_payload (ll_py L) raw v))"

section \<open>The tables\<close>

datatype run_status = RunRunning | RunCompleted | RunFailed | RunStale

datatype event_status = Recorded | AlreadySeen

record shadow_run =
  rn_run_id :: string
  rn_window_lower :: string
  rn_window_upper :: string
  rn_started_at :: string
  rn_updated_at :: string
  rn_status :: run_status
  rn_error_code :: "string option"

record seen_row =
  se_candidate_id :: string
  se_first_run_id :: string
  se_first_seen_at :: string
  se_category :: category
  se_decision :: semantic_decision
  se_payload_json :: string

record run_event =
  re_run_id :: string
  re_candidate_id :: string
  re_status :: event_status
  re_payload_json :: string
  re_ordinal :: nat

text \<open>The ledger object and its three tables; \<open>lg_ready\<close> is \<open>_initialized\<close>.\<close>

record ledger =
  lg_ready :: bool
  lg_runs :: "shadow_run list"
  lg_seen :: "seen_row list"
  lg_events :: "run_event list"

definition find_run :: "string \<Rightarrow> ledger \<Rightarrow> shadow_run option" where
  "find_run k s = tbl_find rn_run_id k (lg_runs s)"

definition find_seen :: "string \<Rightarrow> ledger \<Rightarrow> seen_row option" where
  "find_seen k s = tbl_find se_candidate_id k (lg_seen s)"

interpretation run_table: keyed_table "tbl_find rn_run_id" tbl_insert "tbl_update rn_run_id" rn_run_id "tbl_keyed rn_run_id"
  by (rule keyed_table_rows)

interpretation seen_table: keyed_table "tbl_find se_candidate_id" tbl_insert "tbl_update se_candidate_id" se_candidate_id "tbl_keyed se_candidate_id"
  by (rule keyed_table_rows)

section \<open>Transactions under a lock\<close>

text \<open>
  Another process may hold the lock when the transaction begins, or keep it from committing; both are a
  \<open>LockTimeoutError\<close> after which nothing has changed.
\<close>

datatype lock = LockFree | BusyAtBegin | BusyAtCommit

definition locked_tx :: "lock \<Rightarrow> (ledger \<Rightarrow> 'a ledger_result \<times> ledger) \<Rightarrow> ledger \<Rightarrow> 'a ledger_result \<times> ledger" where
  "locked_tx lock body s =
     (if lock = BusyAtBegin then (Inl LockTimeoutError, s)
      else immediate_tx (\<lambda>s. case body s of
          (Inl e, s') \<Rightarrow> (Inl e, s')
        | (Inr x, s') \<Rightarrow> if lock = BusyAtCommit then (Inl LockTimeoutError, s') else (Inr x, s')) s)"

lemma locked_tx_Inr: "locked_tx lock body s = (Inr x, t) \<longleftrightarrow> lock = LockFree \<and> body s = (Inr x, t)"
  by (cases lock) (auto simp: locked_tx_def immediate_tx_Inr split: prod.splits sum.splits)

lemma locked_tx_Inl: "locked_tx lock body s = (Inl e, t) \<Longrightarrow> t = s"
  by (auto simp: locked_tx_def immediate_tx_Inl split: if_splits)

definition initialize_schema :: "lock \<Rightarrow> ledger \<Rightarrow> unit ledger_result \<times> ledger" where
  "initialize_schema lock s = locked_tx lock (\<lambda>s. (Inr (), s\<lparr>lg_ready := True\<rparr>)) s"

definition require_initialized :: "ledger \<Rightarrow> unit ledger_result" where
  "require_initialized s = guard (lg_ready s) LedgerStateError"

section \<open>Beginning a run\<close>

text \<open>The row asked for.\<close>

definition begin_input ::
  "ledger_lib \<Rightarrow> pyval \<Rightarrow> pyval \<Rightarrow> pyval \<Rightarrow> pyval \<Rightarrow> ledger \<Rightarrow> shadow_run ledger_result" where
  "begin_input L run_id lower_arg upper_arg started s =
     bind_result (validate_run_id run_id) (\<lambda>rid.
     bind_result (validate_timestamp L lower_arg) (\<lambda>lower_z.
     bind_result (validate_timestamp L upper_arg) (\<lambda>upper_z.
       if lower_z \<ge> upper_z then Inl LedgerContractError
       else bind_result (validate_timestamp L started) (\<lambda>started_z.
         bind_result (require_initialized s) (\<lambda>_.
           Inr \<lparr>rn_run_id = rid, rn_window_lower = lower_z, rn_window_upper = upper_z, rn_started_at = started_z,
             rn_updated_at = started_z, rn_status = RunRunning, rn_error_code = None\<rparr>)))))"

definition begin_run ::
  "ledger_lib \<Rightarrow> lock \<Rightarrow> pyval \<Rightarrow> pyval \<Rightarrow> pyval \<Rightarrow> pyval \<Rightarrow> ledger \<Rightarrow> unit ledger_result \<times> ledger" where
  "begin_run L lock run_id lower_arg upper_arg started s =
     (case begin_input L run_id lower_arg upper_arg started s of
        Inl e \<Rightarrow> (Inl e, s)
      | Inr row \<Rightarrow> locked_tx lock (\<lambda>s.
          case find_run (rn_run_id row) s of
            Some persisted \<Rightarrow> if persisted \<noteq> row then (Inl RunConflictError, s) else (Inr (), s)
          | None \<Rightarrow> (Inr (), s\<lparr>lg_runs := tbl_insert row (lg_runs s)\<rparr>)) s)"

section \<open>What has been seen\<close>

fun check_ids :: "string set \<Rightarrow> pyval list \<Rightarrow> string list ledger_result" where
  "check_ids known [] = Inr []"
| "check_ids known (v # vs) =
     bind_result (check_candidate_id v) (\<lambda>cid.
       if cid \<in> known then Inl LedgerContractError
       else bind_result (check_ids (insert cid known) vs) (\<lambda>cids. Inr (cid # cids)))"

definition seen_candidate_ids :: "pyval \<Rightarrow> ledger \<Rightarrow> string list ledger_result" where
  "seen_candidate_ids ids s =
     bind_result (require_initialized s) (\<lambda>_.
       case ids of PTuple vs \<Rightarrow>
         bind_result (check_ids {} vs) (\<lambda>cids. Inr (filter (\<lambda>cid. find_seen cid s \<noteq> None) cids))
       | _ \<Rightarrow> Inl LedgerContractError)"

section \<open>Completing a run\<close>

record complete_run_result =
  cr_new_ids :: "string list"
  cr_already_seen_ids :: "string list"

text \<open>The constructor of \<open>CompleteRunResult\<close>.\<close>

definition validate_complete_run_result :: "string list \<Rightarrow> string list \<Rightarrow> complete_run_result ledger_result" where
  "validate_complete_run_result new_ids already_seen_ids =
     bind_result (check_ids {} (map PStr new_ids)) (\<lambda>n.
     bind_result (check_ids {} (map PStr already_seen_ids)) (\<lambda>a.
       if set n \<inter> set a \<noteq> {} then Inl LedgerContractError
       else Inr \<lparr>cr_new_ids = n, cr_already_seen_ids = a\<rparr>))"

text \<open>
  The checks before the transaction: the events with their canonical payloads. An element that is no
  \<open>ShadowEvent\<close> is \<open>None\<close>.
\<close>

fun preflight :: "ledger_lib \<Rightarrow> string set \<Rightarrow> shadow_event option list \<Rightarrow> (shadow_event \<times> string) list ledger_result" where
  "preflight L known [] = Inr []"
| "preflight L known (None # evs) = Inl LedgerContractError"
| "preflight L known (Some ev # evs) =
     (if ev_candidate_id ev \<in> known then Inl LedgerContractError
      else (case normalize_canonical_payload L (PayloadBytes (ev_payload_json ev)) of
          Inl e \<Rightarrow> Inl (if e = PayloadValidationError then LedgerContractError else e)
        | Inr canonical \<Rightarrow>
            bind_result (preflight L (insert (ev_candidate_id ev) known) evs) (\<lambda>rest. Inr ((ev, canonical) # rest))))"

definition events_of :: "string \<Rightarrow> ledger \<Rightarrow> run_event list" where
  "events_of rid s = filter (\<lambda>e. re_run_id e = rid) (lg_events s)"

text \<open>
  The retry of a completed run. The rows of a run are keyed by their ordinal, so as many rows as there are
  events, each found at its ordinal, is what the code compares. A payload is stored as the text of its bytes.
\<close>

definition event_at :: "string \<Rightarrow> nat \<Rightarrow> ledger \<Rightarrow> run_event option" where
  "event_at rid n s = tbl_find re_ordinal n (events_of rid s)"

fun same_events :: "string \<Rightarrow> nat \<Rightarrow> (shadow_event \<times> string) list \<Rightarrow> ledger \<Rightarrow> bool" where
  "same_events rid n [] s = True"
| "same_events rid n ((ev, canonical) # evs) s =
     ((case event_at rid n s of
         None \<Rightarrow> False
       | Some e \<Rightarrow> ev_candidate_id ev = re_candidate_id e \<and> canonical = utf8_encode (re_payload_json e)) \<and>
      same_events rid (Suc n) evs s)"

definition status_in :: "string \<Rightarrow> string \<Rightarrow> ledger \<Rightarrow> event_status option" where
  "status_in rid cid s = map_option re_status (tbl_find re_candidate_id cid (events_of rid s))"

definition retry_completed ::
  "string \<Rightarrow> (shadow_event \<times> string) list \<Rightarrow> ledger \<Rightarrow> (string list \<times> string list) ledger_result" where
  "retry_completed rid evs s =
     (let ids = map (ev_candidate_id \<circ> fst) evs in
      if length (events_of rid s) \<noteq> length evs then Inl RunConflictError
      else if \<not> same_events rid 0 evs s then Inl RunConflictError
      else Inr (filter (\<lambda>cid. status_in rid cid s = Some Recorded) ids, filter (\<lambda>cid. status_in rid cid s = Some AlreadySeen) ids))"

text \<open>
  \<open>INSERT OR IGNORE\<close> into the seen table, with \<open>changes()\<close>; the foreign key of a new row is the one constraint
  that is not ignored.
\<close>

definition insert_seen :: "seen_row \<Rightarrow> ledger \<Rightarrow> (bool \<times> ledger) option" where
  "insert_seen r s =
     (if find_seen (se_candidate_id r) s \<noteq> None \<or> se_decision r \<notin> {distinct_event, material_update} then Some (False, s)
      else if find_run (se_first_run_id r) s = None then None
      else Some (True, s\<lparr>lg_seen := tbl_insert r (lg_seen s)\<rparr>))"

definition insert_run_event :: "run_event \<Rightarrow> ledger \<Rightarrow> ledger option" where
  "insert_run_event r s =
     (if tbl_find re_candidate_id (re_candidate_id r) (events_of (re_run_id r) s) \<noteq> None \<or>
         event_at (re_run_id r) (re_ordinal r) s \<noteq> None \<or>
         find_run (re_run_id r) s = None \<or> find_seen (re_candidate_id r) s = None
      then None else Some (s\<lparr>lg_events := tbl_insert r (lg_events s)\<rparr>))"

text \<open>One turn of the loop: whether the candidate was new.\<close>

definition record_event :: "string \<Rightarrow> nat \<Rightarrow> shadow_event \<Rightarrow> string \<Rightarrow> ledger \<Rightarrow> (bool \<times> ledger) option" where
  "record_event rid n ev payload s =
     (case insert_seen \<lparr>se_candidate_id = ev_candidate_id ev, se_first_run_id = rid, se_first_seen_at = ev_recorded_at ev,
             se_category = ev_category ev, se_decision = ev_decision ev, se_payload_json = payload\<rparr> s of
        None \<Rightarrow> None
      | Some (new, s1) \<Rightarrow>
          map_option (Pair new)
            (insert_run_event \<lparr>re_run_id = rid, re_candidate_id = ev_candidate_id ev,
               re_status = (if new then Recorded else AlreadySeen), re_payload_json = payload, re_ordinal = n\<rparr> s1))"

text \<open>The payload column holds the decoded text of the canonical bytes.\<close>

fun record_events ::
  "ledger_lib \<Rightarrow> string \<Rightarrow> nat \<Rightarrow> (shadow_event \<times> string) list \<Rightarrow> ledger \<Rightarrow> (string list \<times> string list) ledger_result \<times> ledger" where
  "record_events L rid n [] s = (Inr ([], []), s)"
| "record_events L rid n ((ev, canonical) # evs) s =
     (case utf8_text L canonical of
        None \<Rightarrow> (Inl (Escapes ValueError), s)
      | Some payload \<Rightarrow>
          (case record_event rid n ev payload s of
             None \<Rightarrow> (Inl LedgerContractError, s)
           | Some (new, s1) \<Rightarrow>
               (case record_events L rid (Suc n) evs s1 of
                  (Inl e, s2) \<Rightarrow> (Inl e, s2)
                | (Inr (ns, olds), s2) \<Rightarrow>
                    (Inr (if new then (ev_candidate_id ev # ns, olds) else (ns, ev_candidate_id ev # olds)), s2))))"

definition set_status :: "string \<Rightarrow> run_status \<Rightarrow> string option \<Rightarrow> string \<Rightarrow> ledger \<Rightarrow> ledger" where
  "set_status rid status code updated_z s =
     s\<lparr>lg_runs := tbl_update rn_run_id rid
         (\<lambda>r. if rn_status r = RunRunning then r\<lparr>rn_status := status, rn_updated_at := updated_z, rn_error_code := code\<rparr> else r)
         (lg_runs s)\<rparr>"

definition completion_tx ::
  "ledger_lib \<Rightarrow> string \<Rightarrow> string \<Rightarrow> (shadow_event \<times> string) list \<Rightarrow> ledger \<Rightarrow> (string list \<times> string list) ledger_result \<times> ledger" where
  "completion_tx L rid updated_z evs s =
     (case find_run rid s of
        None \<Rightarrow> (Inl RunConflictError, s)
      | Some row \<Rightarrow>
          (case rn_status row of
             RunCompleted \<Rightarrow> (retry_completed rid evs s, s)
           | RunRunning \<Rightarrow>
               (case record_events L rid 0 evs s of
                  (Inl e, s') \<Rightarrow> (Inl e, s')
                | (Inr ids, s') \<Rightarrow> (Inr ids, set_status rid RunCompleted None updated_z s'))
           | _ \<Rightarrow> (Inl RunStateError, s)))"

text \<open>What is checked before the transaction. Events that are no list or tuple are \<open>None\<close>.\<close>

definition completion_input ::
  "ledger_lib \<Rightarrow> pyval \<Rightarrow> pyval \<Rightarrow> shadow_event option list option \<Rightarrow> ledger \<Rightarrow>
   (string \<times> string \<times> (shadow_event \<times> string) list) ledger_result" where
  "completion_input L run_id updated events s =
     bind_result (validate_run_id run_id) (\<lambda>rid.
     bind_result (validate_timestamp L updated) (\<lambda>updated_z.
       case events of None \<Rightarrow> Inl LedgerContractError
       | Some evs \<Rightarrow>
           bind_result (require_initialized s) (\<lambda>_.
           bind_result (preflight L {} evs) (\<lambda>checked. Inr (rid, updated_z, checked)))))"

definition complete_run ::
  "ledger_lib \<Rightarrow> lock \<Rightarrow> pyval \<Rightarrow> pyval \<Rightarrow> shadow_event option list option \<Rightarrow> ledger \<Rightarrow>
   complete_run_result ledger_result \<times> ledger" where
  "complete_run L lock run_id updated events s =
     (case completion_input L run_id updated events s of
        Inl e \<Rightarrow> (Inl e, s)
      | Inr (rid, updated_z, checked) \<Rightarrow>
          (case locked_tx lock (completion_tx L rid updated_z checked) s of
             (Inl e, s') \<Rightarrow> (Inl e, s')
           | (Inr (ns, olds), s') \<Rightarrow> (validate_complete_run_result ns olds, s')))"

section \<open>Failing and recovering\<close>

definition fail_run :: "ledger_lib \<Rightarrow> lock \<Rightarrow> pyval \<Rightarrow> pyval \<Rightarrow> pyval \<Rightarrow> ledger \<Rightarrow> unit ledger_result \<times> ledger" where
  "fail_run L lock run_id updated error_code s =
     (case bind_result (validate_run_id run_id) (\<lambda>rid.
           bind_result (validate_timestamp L updated) (\<lambda>updated_z.
           bind_result (validate_error_code error_code) (\<lambda>code.
           bind_result (require_initialized s) (\<lambda>_. Inr (rid, updated_z, code))))) of
        Inl e \<Rightarrow> (Inl e, s)
      | Inr (rid, updated_z, code) \<Rightarrow> locked_tx lock (\<lambda>s.
          case find_run rid s of
            None \<Rightarrow> (Inl RunConflictError, s)
          | Some row \<Rightarrow>
              if rn_status row \<noteq> RunRunning then (Inl RunStateError, s)
              else (Inr (), set_status rid RunFailed (Some code) updated_z s)) s)"

text \<open>
  The cutoff is a datetime: its instant, and its UTC offset if it is aware. \<open>strftime\<close> writes the year
  without padding, so the text is the usual one only from the year 1000 on.
\<close>

definition strftime_z :: "instant \<Rightarrow> string" where
  "strftime_z t = (case date_fields t of
       y # rest \<Rightarrow> show_int y @ drop 4 (iso_z t)
     | [] \<Rightarrow> [])"

definition aware_utc_to_z :: "instant \<times> int option \<Rightarrow> string ledger_result" where
  "aware_utc_to_z dt = (case dt of (t, Some offset) \<Rightarrow> if offset = 0 then Inr (strftime_z t) else Inl LedgerContractError
     | _ \<Rightarrow> Inl LedgerContractError)"

definition is_stale :: "string \<Rightarrow> shadow_run \<Rightarrow> bool" where
  "is_stale cutoff r \<longleftrightarrow> rn_status r = RunRunning \<and> rn_updated_at r < cutoff"

definition recover_row :: "string \<Rightarrow> string \<Rightarrow> shadow_run \<Rightarrow> shadow_run" where
  "recover_row cutoff u r = (if is_stale cutoff r then r\<lparr>rn_status := RunStale, rn_updated_at := u\<rparr> else r)"

definition recover_stale_runs ::
  "ledger_lib \<Rightarrow> lock \<Rightarrow> instant \<times> int option \<Rightarrow> pyval \<Rightarrow> ledger \<Rightarrow> string list ledger_result \<times> ledger" where
  "recover_stale_runs L lock cutoff updated s =
     (case bind_result (aware_utc_to_z cutoff) (\<lambda>cutoff_iso.
           bind_result (validate_timestamp L updated) (\<lambda>updated_z.
           bind_result (require_initialized s) (\<lambda>_. Inr (cutoff_iso, updated_z)))) of
        Inl e \<Rightarrow> (Inl e, s)
      | Inr (cutoff_iso, updated_z) \<Rightarrow> locked_tx lock (\<lambda>s.
          (Inr (sort (map rn_run_id (filter (is_stale cutoff_iso) (lg_runs s)))),
           s\<lparr>lg_runs := map (recover_row cutoff_iso updated_z) (lg_runs s)\<rparr>)) s)"

definition last_completed_upper_utc :: "ledger_lib \<Rightarrow> ledger \<Rightarrow> instant option ledger_result" where
  "last_completed_upper_utc L s =
     bind_result (require_initialized s) (\<lambda>_.
       case sort (map rn_window_upper (filter (\<lambda>r. rn_status r = RunCompleted) (lg_runs s))) of
         [] \<Rightarrow> Inr None
       | us \<Rightarrow>
           (case validate_utc_iso (iso_instant L) (last us) of
              Inl e \<Rightarrow> Inl (Escapes e)
            | Inr z \<Rightarrow> (case iso_instant L (butlast z @ ''+00:00'') of
                 Some (t, _) \<Rightarrow> Inr (Some t)
               | None \<Rightarrow> Inl (Escapes ValueError))))"

section \<open>Histories\<close>

text \<open>
  The operations of a caller, who builds its events with the constructor: what it hands to \<open>complete_run\<close> are
  the constructor's arguments.
\<close>

record event_args =
  ea_candidate_id :: pyval
  ea_category :: "category option"
  ea_decision :: "semantic_decision option"
  ea_payload :: payload_arg
  ea_recorded_at :: pyval
  ea_subject_id :: pyval
  ea_event_id :: pyval
  ea_version :: pyval

definition build_event :: "ledger_lib \<Rightarrow> event_args \<Rightarrow> shadow_event ledger_result" where
  "build_event L a = make_shadow_event L (ea_candidate_id a) (ea_category a) (ea_decision a) (ea_payload a)
     (ea_recorded_at a) (ea_subject_id a) (ea_event_id a) (ea_version a)"

definition build_and_complete ::
  "ledger_lib \<Rightarrow> lock \<Rightarrow> pyval \<Rightarrow> pyval \<Rightarrow> event_args list \<Rightarrow> ledger \<Rightarrow> complete_run_result ledger_result \<times> ledger" where
  "build_and_complete L lock run_id updated as s =
     (case map_result (build_event L) as of
        Inl e \<Rightarrow> (Inl e, s)
      | Inr evs \<Rightarrow> complete_run L lock run_id updated (Some (map Some evs)) s)"

datatype ledger_op =
    Initialize lock
  | BeginRun lock pyval pyval pyval pyval
  | CompleteRun lock pyval pyval "event_args list"
  | FailRun lock pyval pyval pyval
  | RecoverStale lock "instant \<times> int option" pyval

datatype ledger_answer = Nothing | Partition complete_run_result | RunIds "string list"

definition ledger_reply :: "('a \<Rightarrow> ledger_answer) \<Rightarrow> 'a ledger_result \<times> ledger \<Rightarrow> ledger_answer ledger_result \<times> ledger" where
  "ledger_reply f p = (map_sum id f (fst p), snd p)"

fun ledger_exec :: "ledger_lib \<Rightarrow> ledger_op \<Rightarrow> ledger \<Rightarrow> ledger_answer ledger_result \<times> ledger" where
  "ledger_exec L (Initialize lock) s = ledger_reply (\<lambda>_. Nothing) (initialize_schema lock s)"
| "ledger_exec L (BeginRun lock rid lo up st) s = ledger_reply (\<lambda>_. Nothing) (begin_run L lock rid lo up st s)"
| "ledger_exec L (CompleteRun lock rid upd as) s = ledger_reply Partition (build_and_complete L lock rid upd as s)"
| "ledger_exec L (FailRun lock rid upd code) s = ledger_reply (\<lambda>_. Nothing) (fail_run L lock rid upd code s)"
| "ledger_exec L (RecoverStale lock cutoff upd) s = ledger_reply RunIds (recover_stale_runs L lock cutoff upd s)"

section \<open>The invariant\<close>

text \<open>
  While \<open>complete_run\<close> runs, the run it writes events for is open; a committed ledger has no open run.
\<close>

definition settled :: "string set \<Rightarrow> ledger \<Rightarrow> string \<Rightarrow> bool" where
  "settled opened s rid \<longleftrightarrow> (\<exists>r. find_run rid s = Some r \<and> (rid \<in> opened \<or> rn_status r = RunCompleted))"

definition shadow_run_ok :: "shadow_run \<Rightarrow> bool" where
  "shadow_run_ok r \<longleftrightarrow> rn_window_lower r < rn_window_upper r \<and> (rn_error_code r \<noteq> None \<longleftrightarrow> rn_status r = RunFailed) \<and>
     (rn_status r = RunRunning \<longrightarrow> rn_updated_at r = rn_started_at r)"

definition first_run :: "string \<Rightarrow> ledger \<Rightarrow> string option" where
  "first_run cid s = map_option se_first_run_id (find_seen cid s)"

definition event_ok :: "string set \<Rightarrow> ledger \<Rightarrow> run_event \<Rightarrow> bool" where
  "event_ok opened s e \<longleftrightarrow> settled opened s (re_run_id e) \<and>
     (\<exists>x. find_seen (re_candidate_id e) s = Some x \<and> (re_status e = Recorded \<longleftrightarrow> se_first_run_id x = re_run_id e) \<and>
       (re_status e = Recorded \<longrightarrow> re_payload_json e = se_payload_json x))"

definition seen_ok :: "ledger \<Rightarrow> seen_row \<Rightarrow> bool" where
  "seen_ok s x \<longleftrightarrow> (\<exists>e \<in> set (lg_events s). re_run_id e = se_first_run_id x \<and> re_candidate_id e = se_candidate_id x)"

definition numbered :: "run_event list \<Rightarrow> bool" where
  "numbered es \<longleftrightarrow> map re_ordinal es = [0..<length es] \<and> distinct (map re_candidate_id es)"

definition ledger_inv :: "string set \<Rightarrow> ledger \<Rightarrow> bool" where
  "ledger_inv opened s \<longleftrightarrow>
     tbl_keyed rn_run_id (lg_runs s) \<and> tbl_keyed se_candidate_id (lg_seen s) \<and>
     (\<forall>r \<in> set (lg_runs s). shadow_run_ok r) \<and> (\<forall>e \<in> set (lg_events s). event_ok opened s e) \<and>
     (\<forall>x \<in> set (lg_seen s). seen_ok s x) \<and> (\<forall>rid. numbered (events_of rid s))"

definition ledger_ok :: "ledger \<Rightarrow> bool" where
  "ledger_ok s \<longleftrightarrow> ledger_inv {} s"

lemma settled_mono: "settled O1 s rid \<Longrightarrow> O1 \<subseteq> O2 \<Longrightarrow> settled O2 s rid"
  by (auto simp: settled_def)

lemma ledger_inv_mono: "ledger_inv O1 s \<Longrightarrow> O1 \<subseteq> O2 \<Longrightarrow> ledger_inv O2 s"
  by (auto simp: ledger_inv_def event_ok_def dest: settled_mono)

text \<open>Changing the runs alone.\<close>

lemma ledger_inv_runs:
  assumes "ledger_inv O1 s" "tbl_keyed rn_run_id rs" "\<And>r. r \<in> set rs \<Longrightarrow> shadow_run_ok r"
    "\<And>rid. settled O1 s rid \<Longrightarrow> settled O2 (s\<lparr>lg_runs := rs\<rparr>) rid"
  shows "ledger_inv O2 (s\<lparr>lg_runs := rs\<rparr>)"
  using assms by (auto simp: ledger_inv_def event_ok_def seen_ok_def find_seen_def events_of_def)

lemma settled_runs: "settled opened s rid \<longleftrightarrow> (\<exists>r. tbl_find rn_run_id rid (lg_runs s) = Some r \<and> (rid \<in> opened \<or> rn_status r = RunCompleted))"
  by (simp add: settled_def find_run_def)

lemma find_seen_insert:
  "find_seen c (s\<lparr>lg_seen := tbl_insert x (lg_seen s)\<rparr>) =
     (case find_seen c s of Some q \<Rightarrow> Some q | None \<Rightarrow> if se_candidate_id x = c then Some x else None)"
  by (simp add: find_seen_def tbl_find_insert)

lemma events_of_insert:
  "events_of rid (s\<lparr>lg_events := tbl_insert e (lg_events s)\<rparr>) = events_of rid s @ (if re_run_id e = rid then [e] else [])"
  by (simp add: events_of_def tbl_insert_def)

lemma set_events_of: "e \<in> set (events_of rid s) \<longleftrightarrow> e \<in> set (lg_events s) \<and> re_run_id e = rid"
  by (auto simp: events_of_def)

lemma record_event_Some:
  assumes "record_event rid n ev p s = Some (new, t)"
  obtains e sn where
    "re_run_id e = rid" "re_candidate_id e = ev_candidate_id ev" "re_ordinal e = n" "re_payload_json e = p"
    "re_status e = (if new then Recorded else AlreadySeen)"
    "ev_candidate_id ev \<notin> re_candidate_id ` set (events_of rid s)" "find_run rid s \<noteq> None"
    "t = s\<lparr>lg_seen := sn, lg_events := tbl_insert e (lg_events s)\<rparr>"
    "if new then find_seen (ev_candidate_id ev) s = None \<and> (\<exists>x. sn = tbl_insert x (lg_seen s) \<and>
        se_candidate_id x = ev_candidate_id ev \<and> se_first_run_id x = rid \<and> se_payload_json x = p)
     else find_seen (ev_candidate_id ev) s \<noteq> None \<and> sn = lg_seen s"
proof -
  let ?e = "\<lparr>re_run_id = rid, re_candidate_id = ev_candidate_id ev,
               re_status = (if new then Recorded else AlreadySeen), re_payload_json = p, re_ordinal = n\<rparr>"
  let ?x = "\<lparr>se_candidate_id = ev_candidate_id ev, se_first_run_id = rid, se_first_seen_at = ev_recorded_at ev,
             se_category = ev_category ev, se_decision = ev_decision ev, se_payload_json = p\<rparr>"
  from assms obtain s1 where 1: "insert_seen ?x s = Some (new, s1)" and 2: "insert_run_event ?e s1 = Some t"
    by (auto simp: record_event_def split: option.splits)
  have ev: "lg_events s1 = lg_events s" "lg_runs s1 = lg_runs s"
    using 1 by (auto simp: insert_seen_def split: if_splits)
  have t: "t = s\<lparr>lg_seen := lg_seen s1, lg_events := tbl_insert ?e (lg_events s)\<rparr>"
    using 1 2 by (auto simp: insert_seen_def insert_run_event_def split: if_splits)
  show thesis
  proof (rule that [of ?e "lg_seen s1"])
    show "ev_candidate_id ev \<notin> re_candidate_id ` set (events_of rid s)" "find_run rid s \<noteq> None"
      using 2 ev by (auto simp: insert_run_event_def events_of_def find_run_def tbl_find_None split: if_splits)
    show "if new then find_seen (ev_candidate_id ev) s = None \<and> (\<exists>x. lg_seen s1 = tbl_insert x (lg_seen s) \<and>
        se_candidate_id x = ev_candidate_id ev \<and> se_first_run_id x = rid \<and> se_payload_json x = p)
     else find_seen (ev_candidate_id ev) s \<noteq> None \<and> lg_seen s1 = lg_seen s"
      using 1 2 by (auto simp: insert_seen_def insert_run_event_def split: if_splits)
  qed (use t in auto)
qed

text \<open>What is never undone: rows are only appended to the two tables of a committed run.\<close>

definition grows :: "ledger \<Rightarrow> ledger \<Rightarrow> bool" where
  "grows s t \<longleftrightarrow> prefix (lg_seen s) (lg_seen t) \<and> prefix (lg_events s) (lg_events t)"

lemma grows_refl [simp]: "grows s s"
  by (simp add: grows_def)

lemma grows_trans: "grows s t \<Longrightarrow> grows t u \<Longrightarrow> grows s u"
  by (auto simp: grows_def dest: prefix_order.trans)

lemma tbl_find_prefix: "prefix xs ys \<Longrightarrow> tbl_find key k xs = Some r \<Longrightarrow> tbl_find key k ys = Some r"
  by (induction xs arbitrary: ys) (auto simp: prefix_def split: if_splits)

lemma grows_find_seen: "grows s t \<Longrightarrow> find_seen c s = Some x \<Longrightarrow> find_seen c t = Some x"
  by (auto simp: grows_def find_seen_def intro: tbl_find_prefix)

lemma grows_first_run: "grows s t \<Longrightarrow> first_run c s = Some rid \<Longrightarrow> first_run c t = Some rid"
  by (auto simp: first_run_def dest: grows_find_seen)

lemma numbered_snoc:
  "numbered es \<Longrightarrow> re_ordinal e = length es \<Longrightarrow> re_candidate_id e \<notin> re_candidate_id ` set es \<Longrightarrow> numbered (es @ [e])"
  by (simp add: numbered_def)

lemma first_run_seen:
  "ledger_inv opened s \<Longrightarrow> first_run c s = Some rid \<Longrightarrow> c \<in> re_candidate_id ` set (events_of rid s)"
proof -
  assume inv: "ledger_inv opened s" and "first_run c s = Some rid"
  then obtain x where "x \<in> set (lg_seen s)" "se_candidate_id x = c" "se_first_run_id x = rid"
    by (auto simp: first_run_def find_seen_def dest: tbl_find_SomeD)
  then obtain e where "e \<in> set (lg_events s)" "re_run_id e = rid" "re_candidate_id e = c"
    using inv unfolding ledger_inv_def seen_ok_def by blast
  then have "e \<in> set (events_of rid s)" by (simp add: set_events_of)
  then show ?thesis using \<open>re_candidate_id e = c\<close> by blast
qed

lemma last_tbl_insert [simp]: "last (tbl_insert x rows) = x"
  by (simp add: tbl_insert_def)

lemma event_ok_grows:
  "event_ok opened s e \<Longrightarrow> grows s t \<Longrightarrow> lg_runs t = lg_runs s \<Longrightarrow> event_ok opened t e"
  by (auto simp: event_ok_def settled_runs dest: grows_find_seen)

lemma seen_ok_grows: "seen_ok s x \<Longrightarrow> grows s t \<Longrightarrow> seen_ok t x"
  by (auto simp: seen_ok_def grows_def dest: set_mono_prefix)

lemma record_event_keeps:
  assumes inv: "ledger_inv {rid} s" and n: "n = length (events_of rid s)" and r: "record_event rid n ev p s = Some (new, t)"
  shows "ledger_inv {rid} t" "grows s t" "lg_runs t = lg_runs s" "lg_ready t = lg_ready s"
    "\<exists>e. lg_events t = lg_events s @ [e] \<and> re_run_id e = rid \<and> re_candidate_id e = ev_candidate_id ev \<and> re_payload_json e = p"
    "first_run (ev_candidate_id ev) t = Some rid \<longleftrightarrow> new"
    "find_seen (ev_candidate_id ev) t \<noteq> None"
proof -
  let ?c = "ev_candidate_id ev"
  obtain e sn where e: "re_run_id e = rid" "re_candidate_id e = ?c" "re_ordinal e = n" "re_payload_json e = p"
      "re_status e = (if new then Recorded else AlreadySeen)"
    and fresh: "?c \<notin> re_candidate_id ` set (events_of rid s)" and run: "find_run rid s \<noteq> None"
    and t: "t = s\<lparr>lg_seen := sn, lg_events := tbl_insert e (lg_events s)\<rparr>"
    and sn: "if new then find_seen ?c s = None \<and> (\<exists>x. sn = tbl_insert x (lg_seen s) \<and>
        se_candidate_id x = ?c \<and> se_first_run_id x = rid \<and> se_payload_json x = p)
     else find_seen ?c s \<noteq> None \<and> sn = lg_seen s"
    by (rule record_event_Some [OF r])
  show ext: "grows s t" using sn by (cases new) (auto simp: t grows_def tbl_insert_def)
  show runs: "lg_runs t = lg_runs s" and "lg_ready t = lg_ready s" by (simp_all add: t)
  show "\<exists>e. lg_events t = lg_events s @ [e] \<and> re_run_id e = rid \<and> re_candidate_id e = ?c \<and> re_payload_json e = p"
    using e by (auto simp: t tbl_insert_def)
  have old: "first_run ?c s \<noteq> Some rid" using first_run_seen [OF inv] fresh by blast
  have seen: "find_seen c t = (if new \<and> c = ?c then Some (last sn) else find_seen c s)" for c
    using sn by (cases new) (auto simp: t find_seen_def tbl_find_insert split: option.splits)
  show fr: "first_run ?c t = Some rid \<longleftrightarrow> new"
    using sn old by (cases new) (auto simp: first_run_def seen tbl_insert_def)
  show "find_seen ?c t \<noteq> None" using sn by (cases new) (auto simp: seen)
  have evs: "events_of k t = events_of k s @ (if re_run_id e = k then [e] else [])" for k
    by (simp add: t events_of_def tbl_insert_def)
  have eok: "event_ok {rid} t e"
  proof -
    have "settled {rid} t rid" using run by (auto simp: settled_def find_run_def t)
    moreover have "\<exists>x. find_seen ?c t = Some x \<and> (new \<longleftrightarrow> se_first_run_id x = rid) \<and> (new \<longrightarrow> se_payload_json x = p)"
      using sn old by (cases new) (auto simp: seen tbl_insert_def first_run_def)
    ultimately show ?thesis using e by (auto simp: event_ok_def)
  qed
  show "ledger_inv {rid} t"
    unfolding ledger_inv_def
  proof (intro conjI ballI allI)
    show "tbl_keyed rn_run_id (lg_runs t)" using inv runs by (simp add: ledger_inv_def)
    show "tbl_keyed se_candidate_id (lg_seen t)"
      using inv sn by (cases new) (auto simp: t ledger_inv_def find_seen_def intro: tbl_keyed_insert)
    show "shadow_run_ok r" if "r \<in> set (lg_runs t)" for r using inv runs that by (simp add: ledger_inv_def)
    show "event_ok {rid} t e'" if "e' \<in> set (lg_events t)" for e'
      using inv that eok event_ok_grows [OF _ ext runs] by (auto simp: t ledger_inv_def)
    show "seen_ok t x" if "x \<in> set (lg_seen t)" for x
    proof (cases "x \<in> set (lg_seen s)")
      case True
      then show ?thesis using inv seen_ok_grows [OF _ ext] by (auto simp: ledger_inv_def)
    next
      case False
      then have "se_candidate_id x = ?c \<and> se_first_run_id x = rid" using that sn by (cases new) (auto simp: t)
      then show ?thesis using e by (auto simp: seen_ok_def t)
    qed
    show "numbered (events_of k t)" for k
    proof (cases "re_run_id e = k")
      case True
      moreover have "numbered (events_of rid s)" using inv by (simp add: ledger_inv_def)
      ultimately show ?thesis using fresh e n numbered_snoc [of "events_of rid s" e] by (simp add: evs)
    next
      case False
      then show ?thesis using inv by (simp add: evs ledger_inv_def)
    qed
  qed
qed

definition same_row :: "ledger_lib \<Rightarrow> string \<Rightarrow> shadow_event \<times> string \<Rightarrow> run_event \<Rightarrow> bool" where
  "same_row L rid p e \<longleftrightarrow> re_run_id e = rid \<and> re_candidate_id e = ev_candidate_id (fst p) \<and> utf8_text L (snd p) = Some (re_payload_json e)"

lemma record_events_keeps:
  assumes "ledger_inv {rid} s" "n = length (events_of rid s)" "record_events L rid n evs s = (Inr (ns, olds), t)"
  shows "ledger_inv {rid} t \<and> grows s t \<and> lg_runs t = lg_runs s \<and> lg_ready t = lg_ready s \<and>
    (\<exists>E. lg_events t = lg_events s @ E \<and> list_all2 (same_row L rid) evs E) \<and>
    ns = filter (\<lambda>c. first_run c t = Some rid) (map (ev_candidate_id \<circ> fst) evs) \<and>
    olds = filter (\<lambda>c. first_run c t \<noteq> Some rid) (map (ev_candidate_id \<circ> fst) evs)"
  using assms
proof (induction evs arbitrary: n s ns olds)
  case Nil
  then show ?case by simp
next
  case (Cons evc evs)
  obtain ev canonical where evc: "evc = (ev, canonical)" by (cases evc)
  let ?c = "ev_candidate_id ev"
  from Cons.prems(3) obtain p new s1 ns' olds' where
      p: "utf8_text L canonical = Some p" and r: "record_event rid n ev p s = Some (new, s1)"
      and rest: "record_events L rid (Suc n) evs s1 = (Inr (ns', olds'), t)"
      and out: "ns = (if new then ?c # ns' else ns')" "olds = (if new then olds' else ?c # olds')"
    by (auto simp: evc split: option.splits prod.splits sum.splits if_splits)
  note k = record_event_keeps [OF Cons.prems(1,2) r]
  obtain e where e: "lg_events s1 = lg_events s @ [e]" "re_run_id e = rid" "re_candidate_id e = ?c" "re_payload_json e = p"
    using k(5) by blast
  have n: "Suc n = length (events_of rid s1)" using Cons.prems(2) e by (simp add: events_of_def)
  note IH = Cons.IH [OF k(1) n rest]
  obtain E where E: "lg_events t = lg_events s1 @ E" "list_all2 (same_row L rid) evs E" using IH by blast
  have "lg_events t = lg_events s @ e # E" "list_all2 (same_row L rid) (evc # evs) (e # E)"
    using E e p by (simp_all add: evc same_row_def)
  moreover have "first_run ?c t = Some rid \<longleftrightarrow> new"
  proof (cases new)
    case True
    then show ?thesis using k(6) IH grows_first_run by blast
  next
    case False
    obtain k' where "first_run ?c s1 = Some k'" "k' \<noteq> rid" using k(6,7) False by (auto simp: first_run_def)
    then have "first_run ?c t = Some k'" using IH grows_first_run by blast
    then show ?thesis using False \<open>k' \<noteq> rid\<close> by simp
  qed
  ultimately show ?case using IH k(2,3,4) out grows_trans by (auto simp: evc)
qed

lemma find_run_set_status:
  "find_run k (set_status rid st code u s) =
     (if k = rid then map_option (\<lambda>r. if rn_status r = RunRunning
          then r\<lparr>rn_status := st, rn_updated_at := u, rn_error_code := code\<rparr> else r) (find_run rid s)
      else find_run k s)"
  by (simp add: find_run_def set_status_def tbl_find_update)

lemma set_status_simps [simp]:
  "lg_seen (set_status rid st code u s) = lg_seen s" "lg_events (set_status rid st code u s) = lg_events s"
  "lg_ready (set_status rid st code u s) = lg_ready s" "events_of k (set_status rid st code u s) = events_of k s"
  "first_run c (set_status rid st code u s) = first_run c s"
  by (simp_all add: set_status_def events_of_def first_run_def find_seen_def)

lemma set_status_inv:
  assumes inv: "ledger_inv opened s" and row: "find_run rid s = Some r" "rn_status r = RunRunning"
    and st: "st = RunCompleted \<and> code = None \<and> opened = {rid} \<or> st = RunFailed \<and> code \<noteq> None \<and> opened = {}"
  shows "ledger_ok (set_status rid st code u s)"
proof -
  let ?f = "\<lambda>r. if rn_status r = RunRunning then r\<lparr>rn_status := st, rn_updated_at := u, rn_error_code := code\<rparr> else r"
  let ?rs = "tbl_update rn_run_id rid ?f (lg_runs s)"
  have "ledger_inv {} (s\<lparr>lg_runs := ?rs\<rparr>)"
  proof (rule ledger_inv_runs [OF inv])
    show "tbl_keyed rn_run_id ?rs" using inv by (auto simp: ledger_inv_def tbl_keyed_update)
    show "shadow_run_ok q" if "q \<in> set ?rs" for q
    proof -
      obtain r0 where r0: "r0 \<in> set (lg_runs s)" and q: "q = r0 \<or> q = ?f r0"
        using \<open>q \<in> set ?rs\<close> by (auto simp: set_tbl_update split: if_splits)
      have "shadow_run_ok r0" using inv r0 by (auto simp: ledger_inv_def)
      then show ?thesis using q st by (auto simp: shadow_run_ok_def split: if_splits)
    qed
    show "settled {} (s\<lparr>lg_runs := ?rs\<rparr>) k" if "settled opened s k" for k
      using that st row unfolding settled_runs find_run_def
      by (cases "k = rid") (auto simp: tbl_find_update)
  qed
  then show ?thesis by (simp add: ledger_ok_def set_status_def)
qed

text \<open>A run that is not committed yet has no events.\<close>

lemma events_of_unsettled: "ledger_ok s \<Longrightarrow> \<not> settled {} s rid \<Longrightarrow> events_of rid s = []"
  unfolding ledger_ok_def ledger_inv_def event_ok_def events_of_def filter_empty_conv by blast

text \<open>
  One state later than another: seen rows and run events are only added, a run keeps its window and its start,
  and a run that has ended never changes again, nor do its events.
\<close>

definition advances :: "ledger \<Rightarrow> ledger \<Rightarrow> bool" where
  "advances s t \<longleftrightarrow> prefix (lg_seen s) (lg_seen t) \<and> prefix (lg_events s) (lg_events t) \<and> (lg_ready s \<longrightarrow> lg_ready t) \<and>
     (\<forall>k r. find_run k s = Some r \<longrightarrow> (\<exists>r'. find_run k t = Some r' \<and>
        rn_window_lower r' = rn_window_lower r \<and> rn_window_upper r' = rn_window_upper r \<and> rn_started_at r' = rn_started_at r \<and>
        (rn_status r \<noteq> RunRunning \<longrightarrow> r' = r \<and> events_of k t = events_of k s)))"

lemma advances_refl [simp]: "advances s s"
  by (simp add: advances_def)

lemma advances_grows: "advances s t \<Longrightarrow> grows s t"
  by (simp add: advances_def grows_def)

lemma advances_run:
  assumes "advances s t" "find_run k s = Some r"
  obtains r' where "find_run k t = Some r'" "rn_window_lower r' = rn_window_lower r" "rn_window_upper r' = rn_window_upper r"
    "rn_started_at r' = rn_started_at r" "rn_status r \<noteq> RunRunning \<Longrightarrow> r' = r \<and> events_of k t = events_of k s"
  using assms unfolding advances_def by blast

lemma advances_trans:
  assumes "advances s t" "advances t u"
  shows "advances s u"
proof -
  have "\<exists>r'. find_run k u = Some r' \<and>
        rn_window_lower r' = rn_window_lower r \<and> rn_window_upper r' = rn_window_upper r \<and> rn_started_at r' = rn_started_at r \<and>
        (rn_status r \<noteq> RunRunning \<longrightarrow> r' = r \<and> events_of k u = events_of k s)" if row: "find_run k s = Some r" for k r
  proof -
    obtain r1 where 1: "find_run k t = Some r1" "rn_window_lower r1 = rn_window_lower r" "rn_window_upper r1 = rn_window_upper r"
      "rn_started_at r1 = rn_started_at r" "rn_status r \<noteq> RunRunning \<Longrightarrow> r1 = r \<and> events_of k t = events_of k s"
      by (rule advances_run [OF assms(1) row]) blast
    obtain r2 where 2: "find_run k u = Some r2" "rn_window_lower r2 = rn_window_lower r1" "rn_window_upper r2 = rn_window_upper r1"
      "rn_started_at r2 = rn_started_at r1" "rn_status r1 \<noteq> RunRunning \<Longrightarrow> r2 = r1 \<and> events_of k u = events_of k t"
      by (rule advances_run [OF assms(2) 1(1)]) blast
    show ?thesis using 1 2 by auto
  qed
  then show ?thesis using assms unfolding advances_def by (auto intro: prefix_order.trans)
qed

lemma advances_keep:
  assumes "lg_seen t = lg_seen s" "lg_events t = lg_events s" "lg_ready s \<longrightarrow> lg_ready t"
    "\<And>k r. find_run k s = Some r \<Longrightarrow> \<exists>r'. find_run k t = Some r' \<and>
        rn_window_lower r' = rn_window_lower r \<and> rn_window_upper r' = rn_window_upper r \<and> rn_started_at r' = rn_started_at r \<and>
        (rn_status r \<noteq> RunRunning \<longrightarrow> r' = r)"
  shows "advances s t"
  using assms unfolding advances_def events_of_def by simp

lemma set_status_advances: "advances s (set_status rid st code u s)"
proof (rule advances_keep)
  show "\<exists>r'. find_run k (set_status rid st code u s) = Some r' \<and> rn_window_lower r' = rn_window_lower r \<and>
      rn_window_upper r' = rn_window_upper r \<and> rn_started_at r' = rn_started_at r \<and> (rn_status r \<noteq> RunRunning \<longrightarrow> r' = r)"
    if "find_run k s = Some r" for k r
    using that by (cases "k = rid"; cases "rn_status r = RunRunning") (simp_all add: find_run_set_status)
qed simp_all

lemma status_in_numbered:
  assumes "numbered (events_of rid s)" "e \<in> set (events_of rid s)"
  shows "status_in rid (re_candidate_id e) s = Some (re_status e)"
proof -
  have "tbl_keyed re_candidate_id (events_of rid s)" using assms(1) by (simp add: tbl_keyed_def numbered_def)
  then have "tbl_find re_candidate_id (re_candidate_id e) (events_of rid s) = Some e" using assms(2) by (simp add: tbl_find_Some)
  then show ?thesis by (simp add: status_in_def)
qed

lemma event_at_numbered:
  assumes "numbered (events_of rid s)"
  shows "event_at rid n s = (if n < length (events_of rid s) then Some (events_of rid s ! n) else None)"
proof -
  let ?es = "events_of rid s"
  have m: "map re_ordinal ?es = [0..<length ?es]" using assms by (simp add: numbered_def)
  then have "tbl_keyed re_ordinal ?es" by (simp add: tbl_keyed_def)
  moreover have "re_ordinal (?es ! n) = n" if "n < length ?es"
    using arg_cong [OF m, of "\<lambda>xs. xs ! n"] that by simp
  moreover have "n \<notin> re_ordinal ` set ?es" if "\<not> n < length ?es"
    using arg_cong [OF m, of set] that by simp
  ultimately show ?thesis by (auto simp: event_at_def tbl_find_Some tbl_find_None)
qed

definition same_payload :: "shadow_event \<times> string \<Rightarrow> run_event \<Rightarrow> bool" where
  "same_payload p e \<longleftrightarrow> re_candidate_id e = ev_candidate_id (fst p) \<and> snd p = utf8_encode (re_payload_json e)"

lemma same_events_numbered:
  assumes "numbered (events_of rid s)"
  shows "n + length evs = length (events_of rid s) \<Longrightarrow>
    same_events rid n evs s \<longleftrightarrow> list_all2 same_payload evs (drop n (events_of rid s))"
proof (induction evs arbitrary: n)
  case Nil
  then show ?case by simp
next
  case (Cons p evs)
  obtain ev c where p: "p = (ev, c)" by (cases p)
  have "n < length (events_of rid s)" using Cons.prems by simp
  then have "drop n (events_of rid s) = events_of rid s ! n # drop (Suc n) (events_of rid s)"
    and "event_at rid n s = Some (events_of rid s ! n)"
    by (simp_all add: event_at_numbered [OF assms] Cons_nth_drop_Suc)
  then show ?case using Cons.IH [of "Suc n"] Cons.prems by (auto simp: p same_payload_def)
qed

lemma retry_completed_iff:
  assumes "numbered (events_of rid s)"
  shows "retry_completed rid evs s = Inr (ns, olds) \<longleftrightarrow> list_all2 same_payload evs (events_of rid s) \<and>
    ns = filter (\<lambda>c. status_in rid c s = Some Recorded) (map (ev_candidate_id \<circ> fst) evs) \<and>
    olds = filter (\<lambda>c. status_in rid c s = Some AlreadySeen) (map (ev_candidate_id \<circ> fst) evs)"
  using same_events_numbered [OF assms, of 0 evs]
  by (auto simp: retry_completed_def Let_def dest: list_all2_lengthD)

lemma retry_completed_Inl: "retry_completed rid evs s = Inl e \<Longrightarrow> e = RunConflictError"
  by (auto simp: retry_completed_def Let_def split: if_splits)

text \<open>What a completed run stands for: its rows are the events it was given, and it split them by who saw them first.\<close>

definition partition_of :: "string \<Rightarrow> string list \<Rightarrow> ledger \<Rightarrow> string list \<times> string list" where
  "partition_of rid ids s = (filter (\<lambda>c. first_run c s = Some rid) ids, filter (\<lambda>c. first_run c s \<noteq> Some rid) ids)"

lemma recorded_first_run:
  assumes "ledger_inv opened s" "e \<in> set (events_of rid s)"
  shows "re_status e = Recorded \<longleftrightarrow> first_run (re_candidate_id e) s = Some rid"
proof -
  have "event_ok opened s e" "re_run_id e = rid" using assms by (auto simp: ledger_inv_def set_events_of)
  then show ?thesis by (auto simp: event_ok_def first_run_def)
qed

lemma same_payload_ids:
  "list_all2 same_payload evs es \<Longrightarrow> map (ev_candidate_id \<circ> fst) evs = map re_candidate_id es"
  by (induction evs es rule: list_all2_induct) (auto simp: same_payload_def)

lemma statuses:
  assumes inv: "ledger_inv opened s" and ids: "ids = map re_candidate_id (events_of rid s)"
  shows "filter (\<lambda>c. status_in rid c s = Some Recorded) ids = fst (partition_of rid ids s)"
    "filter (\<lambda>c. status_in rid c s = Some AlreadySeen) ids = snd (partition_of rid ids s)"
proof -
  have n: "numbered (events_of rid s)" using inv by (simp add: ledger_inv_def)
  have "status_in rid c s = Some (if first_run c s = Some rid then Recorded else AlreadySeen)" if c: "c \<in> set ids" for c
  proof -
    obtain e where e: "e \<in> set (events_of rid s)" "c = re_candidate_id e" using c ids by auto
    then show ?thesis
      using status_in_numbered [OF n e(1)] recorded_first_run [OF inv e(1)] by (cases "re_status e") auto
  qed
  then show "filter (\<lambda>c. status_in rid c s = Some Recorded) ids = fst (partition_of rid ids s)"
    "filter (\<lambda>c. status_in rid c s = Some AlreadySeen) ids = snd (partition_of rid ids s)"
    by (auto simp: partition_of_def intro!: filter_cong split: if_splits)
qed

lemma completion_tx_keeps:
  assumes ok: "ledger_ok s" and tx: "completion_tx L rid u evs s = (Inr p, t)"
  shows "ledger_ok t" "advances s t" "p = partition_of rid (map (ev_candidate_id \<circ> fst) evs) t"
    "map (ev_candidate_id \<circ> fst) evs = map re_candidate_id (events_of rid t)"
    "\<exists>row. find_run rid t = Some row \<and> rn_status row = RunCompleted"
    "list_all2 same_payload evs (events_of rid t) \<or> list_all2 (same_row L rid) evs (events_of rid t)"
proof -
  obtain row where row: "find_run rid s = Some row" and st: "rn_status row = RunCompleted \<or> rn_status row = RunRunning"
    using tx by (auto simp: completion_tx_def split: option.splits run_status.splits)
  obtain ns olds where p: "p = (ns, olds)" by (cases p)
  have inv: "ledger_inv {} s" using ok by (simp add: ledger_ok_def)
  have num: "numbered (events_of rid s)" using inv by (simp add: ledger_inv_def)
  have "ledger_ok t \<and> advances s t \<and> p = partition_of rid (map (ev_candidate_id \<circ> fst) evs) t \<and>
    map (ev_candidate_id \<circ> fst) evs = map re_candidate_id (events_of rid t) \<and>
    (\<exists>row. find_run rid t = Some row \<and> rn_status row = RunCompleted) \<and>
    (list_all2 same_payload evs (events_of rid t) \<or> list_all2 (same_row L rid) evs (events_of rid t))"
  proof (cases "rn_status row = RunCompleted")
    case True
    then have r: "retry_completed rid evs s = Inr (ns, olds)" and t: "t = s"
      using tx row by (auto simp: completion_tx_def p)
    note r = r [unfolded retry_completed_iff [OF num]]
    have ids: "map (ev_candidate_id \<circ> fst) evs = map re_candidate_id (events_of rid s)" using r same_payload_ids by blast
    show ?thesis using r ids statuses [OF inv ids] ok row True by (simp add: t p)
  next
    case False
    then have run: "rn_status row = RunRunning" using st by simp
    then obtain s1 where rec: "record_events L rid 0 evs s = (Inr (ns, olds), s1)" and t: "t = set_status rid RunCompleted None u s1"
      using tx row by (auto simp: completion_tx_def p split: prod.splits sum.splits)
    have none: "events_of rid s = []" using events_of_unsettled [OF ok] row run by (auto simp: settled_def)
    have "ledger_inv {rid} s" using ledger_inv_mono [OF inv] by simp
    note k = record_events_keeps [OF this _ rec, simplified none, simplified]
    obtain E where E: "lg_events s1 = lg_events s @ E" "list_all2 (same_row L rid) evs E" using k by blast
    have runs: "find_run k s1 = find_run k s" for k using k by (simp add: find_run_def)
    have allE: "\<forall>e \<in> set E. re_run_id e = rid" using E(2) by (auto simp: list_all2_conv_all_nth same_row_def in_set_conv_nth)
    have evE: "events_of rid s1 = E" using none allE by (simp add: events_of_def E(1) filter_empty_conv)
    have other: "events_of k s1 = events_of k s" if "k \<noteq> rid" for k
      using allE that by (auto simp: events_of_def E(1) filter_empty_conv)
    have "ledger_ok t"
      using k row run unfolding t by (intro set_status_inv [of "{rid}" s1 rid row]) (simp_all add: runs)
    moreover have "advances s s1"
      using k run row other unfolding advances_def grows_def runs by (metis option.inject)
    then have "advances s t" unfolding t by (rule advances_trans) (rule set_status_advances)
    moreover have "map (ev_candidate_id \<circ> fst) evs = map re_candidate_id E"
      using E(2) by (induction evs E rule: list_all2_induct) (auto simp: same_row_def)
    ultimately show ?thesis
      using k E(2) row run by (simp add: p partition_of_def t evE find_run_set_status runs)
  qed
  then show "ledger_ok t" "advances s t" "p = partition_of rid (map (ev_candidate_id \<circ> fst) evs) t"
    "map (ev_candidate_id \<circ> fst) evs = map re_candidate_id (events_of rid t)"
    "\<exists>row. find_run rid t = Some row \<and> rn_status row = RunCompleted"
    "list_all2 same_payload evs (events_of rid t) \<or> list_all2 (same_row L rid) evs (events_of rid t)"
    by blast+
qed

section \<open>Every operation keeps the invariant\<close>

lemma check_candidate_id_iff: "check_candidate_id v = Inr s \<longleftrightarrow> v = PStr s \<and> s \<noteq> [] \<and> length s \<le> ID_LIMIT \<and> \<not> list_ex id_control_char s"
  by (cases v) (auto simp: check_candidate_id_def)

lemma check_ids_ok:
  "(\<And>c. c \<in> set cs \<Longrightarrow> check_candidate_id (PStr c) = Inr c) \<Longrightarrow> distinct cs \<Longrightarrow> known \<inter> set cs = {} \<Longrightarrow>
   check_ids known (map PStr cs) = Inr cs"
  by (induction cs arbitrary: known) auto

lemma check_event_fields_Inr:
  "check_event_fields L cat dec p = Inr (c, d, b) \<Longrightarrow> d \<in> {distinct_event, material_update} \<and> b \<noteq> [] \<and> utf8_text L b \<noteq> None"
  by (cases p) (auto simp: check_event_fields_def split: option.splits if_splits)

lemma make_shadow_event_ok:
  assumes "make_shadow_event L cid cat dec p at_time sid eid ver = Inr ev"
  shows "check_candidate_id (PStr (ev_candidate_id ev)) = Inr (ev_candidate_id ev)"
    "ev_decision ev \<in> {distinct_event, material_update}"
proof -
  from assms obtain v c d b where v: "check_candidate_id v = Inr (ev_candidate_id ev)"
      and f: "check_event_fields L cat dec p = Inr (c, d, b)" and d: "ev_decision ev = d"
    by (auto simp: make_shadow_event_def)
  show "ev_decision ev \<in> {distinct_event, material_update}" using check_event_fields_Inr [OF f] d by simp
  show "check_candidate_id (PStr (ev_candidate_id ev)) = Inr (ev_candidate_id ev)" using v by (auto simp: check_candidate_id_iff)
qed

lemma preflight_Inr:
  "preflight L known evs = Inr checked \<Longrightarrow>
     evs = map (Some \<circ> fst) checked \<and> distinct (map (ev_candidate_id \<circ> fst) checked) \<and>
     known \<inter> ev_candidate_id ` fst ` set checked = {} \<and>
     (\<forall>p \<in> set checked. normalize_canonical_payload L (PayloadBytes (ev_payload_json (fst p))) = Inr (snd p))"
proof (induction evs arbitrary: known checked)
  case Nil
  then show ?case by simp
next
  case (Cons ev evs)
  then obtain e where ev: "ev = Some e" by (cases ev) auto
  then obtain c rest where c: "ev_candidate_id e \<notin> known" "normalize_canonical_payload L (PayloadBytes (ev_payload_json e)) = Inr c"
      "preflight L (insert (ev_candidate_id e) known) evs = Inr rest" "checked = (e, c) # rest"
    using Cons.prems by (auto split: if_splits sum.splits)
  then show ?case using Cons.IH [OF c(3)] by (auto simp: ev)
qed

text \<open>The ledger_reply of a transaction passes the checks of \<open>CompleteRunResult\<close>, whatever the tables hold.\<close>

definition splits :: "string list \<Rightarrow> string list \<Rightarrow> string list \<Rightarrow> bool" where
  "splits ids ns olds \<longleftrightarrow> distinct (ns @ olds) \<and> set (ns @ olds) \<subseteq> set ids"

lemma record_events_splits:
  "record_events L rid n evs s = (Inr (ns, olds), t) \<Longrightarrow> distinct (map (ev_candidate_id \<circ> fst) evs) \<Longrightarrow>
   splits (map (ev_candidate_id \<circ> fst) evs) ns olds"
proof (induction evs arbitrary: n s ns olds)
  case Nil
  then show ?case by (simp add: splits_def)
next
  case (Cons p evs)
  obtain ev c where p: "p = (ev, c)" by (cases p)
  let ?c = "ev_candidate_id ev"
  from Cons.prems(1) obtain s1 ns' olds' where "record_events L rid (Suc n) evs s1 = (Inr (ns', olds'), t)"
      "ns = ?c # ns' \<and> olds = olds' \<or> ns = ns' \<and> olds = ?c # olds'"
    by (auto simp: p split: option.splits prod.splits sum.splits if_splits)
  with Cons.IH [OF this(1)] Cons.prems(2) show ?case by (auto simp: splits_def p)
qed

lemma retry_completed_splits:
  "retry_completed rid evs s = Inr (ns, olds) \<Longrightarrow> distinct (map (ev_candidate_id \<circ> fst) evs) \<Longrightarrow>
   splits (map (ev_candidate_id \<circ> fst) evs) ns olds"
  by (auto simp: retry_completed_def Let_def splits_def simp del: map_map split: if_splits)

lemma completion_tx_splits:
  "completion_tx L rid u evs s = (Inr (ns, olds), t) \<Longrightarrow> distinct (map (ev_candidate_id \<circ> fst) evs) \<Longrightarrow>
   splits (map (ev_candidate_id \<circ> fst) evs) ns olds"
  by (auto simp: completion_tx_def intro: retry_completed_splits record_events_splits
      split: option.splits run_status.splits prod.splits sum.splits)

lemma splits_valid:
  assumes "splits ids ns olds" "\<And>c. c \<in> set ids \<Longrightarrow> check_candidate_id (PStr c) = Inr c"
  shows "validate_complete_run_result ns olds = Inr \<lparr>cr_new_ids = ns, cr_already_seen_ids = olds\<rparr>"
proof -
  have "check_ids {} (map PStr ns) = Inr ns" "check_ids {} (map PStr olds) = Inr olds"
    using assms by (auto simp: splits_def intro!: check_ids_ok)
  then show ?thesis using assms(1) by (auto simp: splits_def validate_complete_run_result_def)
qed

definition valid_ids :: "shadow_event list \<Rightarrow> bool" where
  "valid_ids evs \<longleftrightarrow> list_all (\<lambda>ev. check_candidate_id (PStr (ev_candidate_id ev)) = Inr (ev_candidate_id ev)) evs"

lemma built_valid_ids: "map_result (build_event L) as = Inr evs \<Longrightarrow> valid_ids evs"
  by (auto simp: map_result_Inr_iff valid_ids_def build_event_def list_all_length list_all2_conv_all_nth
      dest!: make_shadow_event_ok(1))

lemma completion_input_Inr:
  "completion_input L run_id updated events s = Inr (rid, u, checked) \<Longrightarrow>
     run_id = PStr rid \<and> lg_ready s \<and> events = Some (map (Some \<circ> fst) checked) \<and> preflight L {} (map (Some \<circ> fst) checked) = Inr checked"
  by (cases run_id) (auto simp: completion_input_def validate_run_id_def require_initialized_def
      dest: preflight_Inr split: option.splits if_splits)

lemma completion_valid:
  assumes valid: "valid_ids evs"
    and i: "completion_input L run_id updated (Some (map Some evs)) s = Inr (rid, u, checked)"
    and tx: "completion_tx L rid u checked s = (Inr (ns, olds), t)"
  shows "evs = map fst checked" "distinct (map (ev_candidate_id \<circ> fst) checked)"
    "\<forall>p \<in> set checked. normalize_canonical_payload L (PayloadBytes (ev_payload_json (fst p))) = Inr (snd p)"
    "validate_complete_run_result ns olds = Inr \<lparr>cr_new_ids = ns, cr_already_seen_ids = olds\<rparr>"
proof -
  note i = completion_input_Inr [OF i]
  show evs: "evs = map fst checked"
    using i by (metis (no_types, lifting) comp_apply list.inj_map_strong map_map option.inject)
  note pre = preflight_Inr [OF i [THEN conjunct2, THEN conjunct2, THEN conjunct2]]
  show d: "distinct (map (ev_candidate_id \<circ> fst) checked)"
    and "\<forall>p \<in> set checked. normalize_canonical_payload L (PayloadBytes (ev_payload_json (fst p))) = Inr (snd p)"
    using pre by blast+
  show "validate_complete_run_result ns olds = Inr \<lparr>cr_new_ids = ns, cr_already_seen_ids = olds\<rparr>"
    by (rule splits_valid [OF completion_tx_splits [OF tx d]]) (use valid in \<open>auto simp: valid_ids_def list_all_iff evs\<close>)
qed

lemma complete_run_Inr:
  assumes valid: "valid_ids evs"
    and run: "complete_run L lock run_id updated (Some (map Some evs)) s = (Inr res, t)"
  obtains rid u checked where "run_id = PStr rid" "evs = map fst checked" "distinct (map (ev_candidate_id \<circ> fst) checked)"
    "\<forall>p \<in> set checked. normalize_canonical_payload L (PayloadBytes (ev_payload_json (fst p))) = Inr (snd p)"
    "completion_tx L rid u checked s = (Inr (cr_new_ids res, cr_already_seen_ids res), t)"
proof -
  from run obtain rid u checked ns olds where
      i: "completion_input L run_id updated (Some (map Some evs)) s = Inr (rid, u, checked)"
      and tx: "completion_tx L rid u checked s = (Inr (ns, olds), t)" and v: "validate_complete_run_result ns olds = Inr res"
    by (auto simp: complete_run_def locked_tx_Inr split: sum.splits prod.splits)
  note c = completion_valid [OF valid i tx]
  have "res = \<lparr>cr_new_ids = ns, cr_already_seen_ids = olds\<rparr>" using v c(4) by simp
  with completion_input_Inr [OF i] c tx show thesis by (intro that [of rid checked u]) auto
qed

lemma complete_run_Inl:
  assumes valid: "valid_ids evs"
    and run: "complete_run L lock run_id updated (Some (map Some evs)) s = (Inl e, t)"
  shows "t = s"
proof (cases "completion_input L run_id updated (Some (map Some evs)) s")
  case (Inl e')
  then show ?thesis using run by (simp add: complete_run_def)
next
  case (Inr i)
  obtain rid u checked where i: "completion_input L run_id updated (Some (map Some evs)) s = Inr (rid, u, checked)"
    using Inr by (cases i) auto
  obtain r t' where r: "locked_tx lock (completion_tx L rid u checked) s = (r, t')" by fastforce
  show ?thesis
  proof (cases r)
    case (Inl e')
    then show ?thesis using run r i locked_tx_Inl [of lock "completion_tx L rid u checked" s e' t'] by (simp add: complete_run_def)
  next
    case (Inr p)
    obtain ns olds where p: "p = (ns, olds)" by (cases p)
    then have "completion_tx L rid u checked s = (Inr (ns, olds), t')" using r Inr by (simp add: locked_tx_Inr)
    from completion_valid(4) [OF valid i this] show ?thesis using run r i Inr p by (simp add: complete_run_def)
  qed
qed

text \<open>An operation that raises changes nothing; one that answers keeps the invariant and goes forward.\<close>

definition keeps :: "ledger \<Rightarrow> 'a ledger_result \<times> ledger \<Rightarrow> bool" where
  "keeps s p \<longleftrightarrow> (case fst p of Inl _ \<Rightarrow> snd p = s | Inr _ \<Rightarrow> ledger_ok (snd p) \<and> advances s (snd p))"

lemma keeps_Inl [simp]: "keeps s (Inl e, t) \<longleftrightarrow> t = s"
  and keeps_Inr [simp]: "keeps s (Inr x, t) \<longleftrightarrow> ledger_ok t \<and> advances s t"
  by (simp_all add: keeps_def)

lemma keepsI:
  "(\<And>e t. p = (Inl e, t) \<Longrightarrow> t = s) \<Longrightarrow> (\<And>x t. p = (Inr x, t) \<Longrightarrow> ledger_ok t \<and> advances s t) \<Longrightarrow> keeps s p"
  by (cases p; cases "fst p") auto

lemma keeps_tx:
  assumes "\<And>x t. body s = (Inr x, t) \<Longrightarrow> ledger_ok t \<and> advances s t"
  shows "keeps s (locked_tx lock body s)"
proof (rule keepsI)
  show "t = s" if "locked_tx lock body s = (Inl e, t)" for e t using that by (rule locked_tx_Inl)
  show "ledger_ok t \<and> advances s t" if "locked_tx lock body s = (Inr x, t)" for x t
    using that assms by (simp add: locked_tx_Inr)
qed

lemma keeps_reply [simp]: "keeps s (ledger_reply f p) \<longleftrightarrow> keeps s p"
  by (cases p; cases "fst p") (auto simp: ledger_reply_def keeps_def)

lemma initialize_keeps: "ledger_ok s \<Longrightarrow> keeps s (initialize_schema lock s)"
  unfolding initialize_schema_def
  by (rule keeps_tx) (auto simp: ledger_ok_def ledger_inv_def event_ok_def seen_ok_def settled_runs find_seen_def events_of_def
      find_run_def intro!: advances_keep)

text \<open>A new run row.\<close>

lemma insert_run_keeps:
  assumes ok: "ledger_ok s" and new: "find_run (rn_run_id row) s = None" and row: "shadow_run_ok row"
  shows "ledger_ok (s\<lparr>lg_runs := tbl_insert row (lg_runs s)\<rparr>)" "advances s (s\<lparr>lg_runs := tbl_insert row (lg_runs s)\<rparr>)"
proof -
  let ?t = "s\<lparr>lg_runs := tbl_insert row (lg_runs s)\<rparr>"
  have run: "find_run k ?t = Some r" if "find_run k s = Some r" for k r
    using that by (simp add: find_run_def tbl_find_insert)
  have inv: "ledger_inv {} s" using ok by (simp add: ledger_ok_def)
  have "ledger_inv {} ?t"
  proof (rule ledger_inv_runs [OF inv])
    show "tbl_keyed rn_run_id (tbl_insert row (lg_runs s))"
      using inv new by (intro tbl_keyed_insert) (simp_all add: ledger_inv_def find_run_def)
    show "shadow_run_ok r" if "r \<in> set (tbl_insert row (lg_runs s))" for r using that inv row by (auto simp: ledger_inv_def)
    show "settled {} ?t k" if "settled {} s k" for k using that run by (auto simp: settled_def)
  qed
  then show "ledger_ok ?t" by (simp add: ledger_ok_def)
  show "advances s ?t" using run by (intro advances_keep) auto
qed

lemma begin_input_Inr: "begin_input L run_id lo up st s = Inr row \<Longrightarrow> shadow_run_ok row \<and> rn_status row = RunRunning"
  by (auto simp: begin_input_def shadow_run_ok_def split: if_splits)

lemma begin_keeps:
  assumes "ledger_ok s"
  shows "keeps s (begin_run L lock run_id lo up st s)"
proof (cases "begin_input L run_id lo up st s")
  case (Inl e)
  then show ?thesis by (simp add: begin_run_def)
next
  case (Inr row)
  have "keeps s (locked_tx lock (\<lambda>s. case find_run (rn_run_id row) s of
            Some persisted \<Rightarrow> if persisted \<noteq> row then (Inl RunConflictError, s) else (Inr (), s)
          | None \<Rightarrow> (Inr (), s\<lparr>lg_runs := tbl_insert row (lg_runs s)\<rparr>)) s)"
    using assms insert_run_keeps [OF assms, of row] begin_input_Inr [OF Inr]
    by (intro keeps_tx) (auto split: option.splits if_splits)
  then show ?thesis using Inr by (simp add: begin_run_def)
qed

lemma complete_keeps:
  assumes "ledger_ok s" "valid_ids evs"
  shows "keeps s (complete_run L lock run_id updated (Some (map Some evs)) s)"
proof (rule keepsI)
  show "t = s" if "complete_run L lock run_id updated (Some (map Some evs)) s = (Inl e, t)" for e t
    by (rule complete_run_Inl [OF assms(2) that])
  show "ledger_ok t \<and> advances s t" if c: "complete_run L lock run_id updated (Some (map Some evs)) s = (Inr res, t)" for res t
  proof -
    obtain rid u checked where "completion_tx L rid u checked s = (Inr (cr_new_ids res, cr_already_seen_ids res), t)"
      by (rule complete_run_Inr [OF assms(2) c])
    from completion_tx_keeps(1,2) [OF assms(1) this] show ?thesis by blast
  qed
qed

lemma build_and_complete_keeps: "ledger_ok s \<Longrightarrow> keeps s (build_and_complete L lock run_id updated as s)"
  using built_valid_ids [of L as]
  by (cases "map_result (build_event L) as") (auto simp: build_and_complete_def complete_keeps)

lemma fail_keeps:
  assumes "ledger_ok s"
  shows "keeps s (fail_run L lock run_id updated code s)"
proof -
  have "keeps s (locked_tx lock (\<lambda>s. case find_run rid s of
            None \<Rightarrow> (Inl RunConflictError, s)
          | Some row \<Rightarrow>
              if rn_status row \<noteq> RunRunning then (Inl RunStateError, s)
              else (Inr (), set_status rid RunFailed (Some c) u s)) s)" for rid c u
    using assms set_status_inv [of "{}" s rid _ RunFailed "Some c" u] set_status_advances
    by (intro keeps_tx) (auto simp: ledger_ok_def split: option.splits if_splits)
  then show ?thesis by (auto simp: fail_run_def split: sum.splits)
qed

lemma recover_tx_keeps:
  assumes ok: "ledger_ok s"
  shows "ledger_ok (s\<lparr>lg_runs := map (recover_row cutoff u) (lg_runs s)\<rparr>)"
    "advances s (s\<lparr>lg_runs := map (recover_row cutoff u) (lg_runs s)\<rparr>)"
proof -
  let ?t = "s\<lparr>lg_runs := map (recover_row cutoff u) (lg_runs s)\<rparr>"
  have run: "find_run k ?t = Some (recover_row cutoff u r)" if "find_run k s = Some r" for k r
    using that by (simp add: find_run_def tbl_find_map recover_row_def)
  have id: "rn_run_id \<circ> recover_row cutoff u = rn_run_id" by (auto simp: recover_row_def)
  have inv: "ledger_inv {} s" using ok by (simp add: ledger_ok_def)
  have "ledger_inv {} ?t"
  proof (rule ledger_inv_runs [OF inv])
    show "tbl_keyed rn_run_id (map (recover_row cutoff u) (lg_runs s))" using inv by (simp add: ledger_inv_def tbl_keyed_def id)
    show "shadow_run_ok r" if "r \<in> set (map (recover_row cutoff u) (lg_runs s))" for r
      using that inv by (auto simp: ledger_inv_def recover_row_def shadow_run_ok_def is_stale_def)
    show "settled {} ?t k" if "settled {} s k" for k
      using that by (auto simp: settled_def run recover_row_def is_stale_def)
  qed
  then show "ledger_ok ?t" by (simp add: ledger_ok_def)
  show "advances s ?t" by (intro advances_keep) (auto simp: run recover_row_def is_stale_def)
qed

lemma recover_keeps:
  assumes "ledger_ok s"
  shows "keeps s (recover_stale_runs L lock cutoff updated s)"
proof -
  have "keeps s (locked_tx lock (\<lambda>s.
          (Inr (sort (map rn_run_id (filter (is_stale c) (lg_runs s)))),
           s\<lparr>lg_runs := map (recover_row c u) (lg_runs s)\<rparr>)) s)" for c u
    using recover_tx_keeps [OF assms] by (intro keeps_tx) auto
  then show ?thesis by (auto simp: recover_stale_runs_def split: sum.splits)
qed

lemma exec_keeps: "ledger_ok s \<Longrightarrow> keeps s (ledger_exec L c s)"
  by (cases c) (simp_all add: initialize_keeps begin_keeps build_and_complete_keeps fail_keeps recover_keeps)

lemma begin_rollback: "begin_run L lock run_id lo up st s = (Inl e, t) \<Longrightarrow> t = s"
  by (auto simp: begin_run_def dest: locked_tx_Inl split: sum.splits)

lemma fail_rollback: "fail_run L lock run_id updated code s = (Inl e, t) \<Longrightarrow> t = s"
  by (auto simp: fail_run_def dest: locked_tx_Inl split: sum.splits)

lemma recover_rollback: "recover_stale_runs L lock cutoff updated s = (Inl e, t) \<Longrightarrow> t = s"
  by (auto simp: recover_stale_runs_def dest: locked_tx_Inl split: sum.splits)

lemma build_and_complete_rollback: "build_and_complete L lock run_id updated as s = (Inl e, t) \<Longrightarrow> t = s"
  by (auto simp: build_and_complete_def dest: complete_run_Inl [OF built_valid_ids] split: sum.splits)

lemma ledger_reply_Inl: "ledger_reply f p = (Inl e, t) \<longleftrightarrow> p = (Inl e, t)"
  by (cases p; cases "fst p") (auto simp: ledger_reply_def)

lemma ledger_exec_rollback:
  assumes "fst (ledger_exec L c s) = Inl e"
  shows "snd (ledger_exec L c s) = s"
proof -
  have "ledger_exec L c s = (Inl e, snd (ledger_exec L c s))" using assms by (metis prod.collapse)
  then show ?thesis
    by (cases c) (auto simp: ledger_reply_Inl initialize_schema_def dest!: begin_rollback fail_rollback recover_rollback
        build_and_complete_rollback locked_tx_Inl)
qed

interpretation ledger_store: transactional_store "ledger_exec L" ledger_ok for L
proof
  show "snd (ledger_exec L c s) = s" if "fst (ledger_exec L c s) = Inl e" for c s e using that by (rule ledger_exec_rollback)
  show "ledger_ok (snd (ledger_exec L c s))" if "ledger_ok s" for c s
    using exec_keeps [OF that, of L c] that by (cases "ledger_exec L c s"; cases "fst (ledger_exec L c s)") auto
qed

lemma exec_advances: "ledger_ok s \<Longrightarrow> advances s (snd (ledger_exec L c s))"
  using exec_keeps [of s L c] by (cases "ledger_exec L c s"; cases "fst (ledger_exec L c s)") auto

lemma run_advances: "ledger_ok s \<Longrightarrow> advances s (run_ops (ledger_exec L) ops s)"
  by (rule ledger_store.run_stable [where P = "advances s"]) (auto intro: advances_trans exec_advances)

end
