(* ===== verification/LedgerProperties.thy ===== *)
theory LedgerProperties
  imports BriefingLedger "HOL-Library.Multiset"
begin

text \<open>
  What the briefing ledger guarantees its caller: canonical payloads are fixed points, a candidate is new to one
  run, a repeated completion gets the same answer, the tables are append-only over any history, and recovery ends
  exactly the runs that are overdue. The examples at the end evaluate the operations on two runs over one candidate.
\<close>

section \<open>Payloads\<close>

lemma parse_strict_Inr:
  "parse_strict_json_object L s = Inr v \<longleftrightarrow>
     json_pairs L s = Parsed v \<and> keys_unique v \<and> json_finite v \<and> (\<exists>kvs. v = PDict kvs)"
  by (auto simp: parse_strict_json_object_def split: json_outcome.splits pyval.splits)

lemma canonical_payload_Inr:
  "canonical_payload L raw v = Inr c \<longleftrightarrow> no_sensitive_keys v \<and> c = utf8_encode (json_dumps L v) \<and>
     (raw = None \<or> raw = Some c) \<and> length c \<le> PAYLOAD_BYTE_LIMIT"
  by (auto simp: canonical_payload_def Let_def)

lemma normalize_Inr:
  "normalize_canonical_payload L p = Inr c \<longleftrightarrow>
     (\<exists>raw s v. payload_source L p = Inr (raw, s) \<and> parse_strict_json_object L s = Inr v \<and> no_sensitive_keys v \<and>
        c = utf8_encode (json_dumps (ll_py L) v) \<and> (raw = None \<or> raw = Some c) \<and> length c \<le> PAYLOAD_BYTE_LIMIT)"
  by (auto simp: normalize_canonical_payload_def canonical_payload_Inr)

lemma normalize_bytes:
  "normalize_canonical_payload L (PayloadBytes b) = Inr c \<Longrightarrow> c = b \<and> (\<exists>j. b = utf8_encode j)"
  by (auto simp: normalize_Inr payload_source_def split: option.splits)

text \<open>The value with the keys of every object in order.\<close>

fun sorted_value :: "pyval \<Rightarrow> pyval" where
  "sorted_value (PDict kvs) = PDict (sort_key fst (map (\<lambda>(k, v). (k, sorted_value v)) kvs))"
| "sorted_value (PList vs) = PList (map sorted_value vs)"
| "sorted_value (PTuple vs) = PTuple (map sorted_value vs)"
| "sorted_value v = v"

lemma map_sort_key_fst: "map (\<lambda>(k, v). (k, f v)) (sort_key fst kvs) = sort_key fst (map (\<lambda>(k, v). (k, f v)) kvs)"
proof -
  have ins: "map (\<lambda>(k, v). (k, f v)) (insort_key fst x xs) = insort_key fst ((\<lambda>(k, v). (k, f v)) x) (map (\<lambda>(k, v). (k, f v)) xs)" for x xs
    by (induction xs) (auto split: prod.splits)
  show ?thesis by (induction kvs) (simp_all add: ins)
qed

lemma sort_key_idem: "sort_key f (sort_key f xs) = sort_key f xs"
  by (rule properties_for_sort_key) simp_all

lemma json_dumps_sorted_value: "json_dumps L (sorted_value v) = json_dumps L v"
proof (induction v rule: sorted_value.induct)
  case (1 kvs)
  have "map (\<lambda>(k, v). (k, json_dumps L v)) (map (\<lambda>(k, v). (k, sorted_value v)) kvs) = map (\<lambda>(k, v). (k, json_dumps L v)) kvs"
    using 1 by auto
  then have "sort_key fst (map (\<lambda>(k, v). (k, json_dumps L v)) (sort_key fst (map (\<lambda>(k, v). (k, sorted_value v)) kvs))) =
      sort_key fst (map (\<lambda>(k, v). (k, json_dumps L v)) kvs)"
    by (simp only: map_sort_key_fst sort_key_idem)
  then show ?case by simp
next
  case (2 vs)
  then show ?case by (simp add: comp_def cong: map_cong)
next
  case (3 vs)
  then show ?case by (simp add: comp_def cong: map_cong)
qed simp_all

lemma set_sorted_pairs: "set (sort_key fst (map (\<lambda>(k, v). (k, f v)) kvs)) = (\<lambda>(k, v). (k, f v)) ` set kvs"
  by simp

lemma json_finite_sorted_value: "json_finite (sorted_value v) = json_finite v"
  by (induction v rule: sorted_value.induct) (auto simp: list_all_iff)

lemma no_sensitive_sorted_value: "no_sensitive_keys (sorted_value v) = no_sensitive_keys v"
  by (induction v rule: sorted_value.induct) (auto simp: list_all_iff)

lemma distinct_sort_key_map: "distinct (map f (sort_key g xs)) = distinct (map f xs)"
proof -
  have "mset (map f (sort_key g xs)) = mset (map f xs)" by simp
  then show ?thesis by (rule mset_eq_imp_distinct_iff)
qed

lemma keys_unique_sorted_value: "keys_unique (sorted_value v) = keys_unique v"
proof (induction v rule: sorted_value.induct)
  case (1 kvs)
  have fsts: "fst \<circ> (\<lambda>(k, v). (k, sorted_value v)) = fst" by auto
  show ?case using 1 by (auto simp: distinct_sort_key_map list_all_iff fsts)
qed (auto simp: list_all_iff)

section \<open>Recovery and time\<close>

lemma strftime_z_padded:
  assumes "t \<in> text_range"
  shows "strftime_z t = iso_z t"
proof -
  obtain y m d where c: "civil (t div us_per_day) = (y, m, d)" by (cases "civil (t div us_per_day)")
  have "1000 \<le> y" "y \<le> 9999" using year_in_range [OF assms] civil_valid(1) [OF c] by auto
  then have "show_int y = pad 4 (nat y)" using pad_show_nat [of "nat y"] by (simp add: show_int_def)
  then show ?thesis
    by (simp add: strftime_z_def date_fields_def c iso_z_def iso_s_def layout_s_def)
qed

definition second_of :: "instant \<Rightarrow> instant" where
  "second_of t = t - t mod 1000000"

lemma second_of:
  assumes "t \<in> text_range"
  shows "second_of t \<in> whole_seconds" "iso_z t = iso_z (second_of t)"
proof -
  have e: "second_of t = t div 1000000 * 1000000" by (simp add: second_of_def minus_mod_eq_div_mult)
  have le: "second_of t \<le> t" by (simp add: second_of_def)
  have mod: "second_of t mod 1000000 = 0" by (simp add: e)
  have "min_text_instant \<le> second_of t"
  proof -
    have "min_text_instant div 1000000 \<le> t div 1000000" using assms by (intro zdiv_mono1) (simp_all add: text_range_def)
    then show ?thesis by (simp add: e min_text_instant_def)
  qed
  then show "second_of t \<in> whole_seconds"
    using assms mod le by (auto simp: whole_seconds_def text_range_def)
  have day: "second_of t div us_per_day = t div us_per_day"
  proof -
    have "t div us_per_day = t div 1000000 div 86400" "second_of t div us_per_day = second_of t div 1000000 div 86400"
      by (simp_all add: us_per_day_def flip: zdiv_zmult2_eq)
    then show ?thesis by (simp add: e)
  qed
  have part: "second_of t mod us_per_day div k = t mod us_per_day div k" if "k = 1000000 * j" "0 < j" for k j
  proof -
    have m: "x mod us_per_day div 1000000 = x div 1000000 mod 86400" for x :: int
      using zmod_zmult2_eq [of 86400 x 1000000] by (simp add: us_per_day_def)
    have "x mod us_per_day div k = x div 1000000 mod 86400 div j" for x
      using that by (simp add: zdiv_zmult2_eq m)
    then show ?thesis by (simp add: e)
  qed
  have "time_fields (second_of t) = time_fields t"
    unfolding time_fields_def Let_def by (simp only: part [of 3600000000 3600] part [of 60000000 60] part [of 1000000 1])
  then show "iso_z t = iso_z (second_of t)"
    by (simp add: iso_z_def iso_s_def date_fields_def day)
qed

lemma stale_iff:
  assumes "t \<in> text_range" "u \<in> whole_seconds" "rn_updated_at r = iso_z u"
  shows "is_stale (strftime_z t) r \<longleftrightarrow> rn_status r = RunRunning \<and> u < second_of t"
proof -
  have "strftime_z t = iso_z (second_of t)" using second_of(2) [OF assms(1)] strftime_z_padded [OF assms(1)] by simp
  then show ?thesis using assms(2,3) second_of(1) [OF assms(1)] by (simp add: is_stale_def sec_clock.fmt_less_iff)
qed

lemma aware_utc_to_z_Inr: "aware_utc_to_z dt = Inr z \<longleftrightarrow> (\<exists>t. dt = (t, Some 0) \<and> z = strftime_z t)"
  by (cases dt; cases "snd dt") (auto simp: aware_utc_to_z_def)

lemma recover_Inr:
  assumes "recover_stale_runs L lock cutoff updated s = (Inr ids, s')"
  obtains t z where "cutoff = (t, Some 0)" "validate_timestamp L updated = Inr z"
    "ids = sort (map rn_run_id (filter (is_stale (strftime_z t)) (lg_runs s)))"
    "s' = s\<lparr>lg_runs := map (recover_row (strftime_z t) z) (lg_runs s)\<rparr>"
proof -
  let ?input = "bind_result (aware_utc_to_z cutoff) (\<lambda>c. bind_result (validate_timestamp L updated) (\<lambda>z.
      bind_result (require_initialized s) (\<lambda>_. Inr (c, z))))"
  obtain c z where i: "?input = Inr (c, z)" and
      tx: "locked_tx lock (\<lambda>s. (Inr (sort (map rn_run_id (filter (is_stale c) (lg_runs s)))),
           s\<lparr>lg_runs := map (recover_row c z) (lg_runs s)\<rparr>)) s = (Inr ids, s')"
  proof (cases ?input)
    case (Inl e)
    then show ?thesis using assms by (simp only: recover_stale_runs_def) simp
  next
    case (Inr p)
    obtain c z where "p = (c, z)" by (cases p)
    with assms Inr show ?thesis by (intro that [of c z]) (simp_all only: recover_stale_runs_def sum.case prod.case)
  qed
  obtain t where "cutoff = (t, Some 0)" "c = strftime_z t" "validate_timestamp L updated = Inr z"
    using i by (auto simp: aware_utc_to_z_Inr)
  moreover have "ids = sort (map rn_run_id (filter (is_stale c) (lg_runs s)))"
      "s' = s\<lparr>lg_runs := map (recover_row c z) (lg_runs s)\<rparr>"
    using tx by (auto simp: locked_tx_Inr)
  ultimately show thesis using that by simp
qed

section \<open>Retries\<close>

text \<open>Decoding what was encoded gives it back; both directions of what the codec is documented to do.\<close>

definition utf8_inverse :: "ledger_lib \<Rightarrow> bool" where
  "utf8_inverse L \<longleftrightarrow> (\<forall>j. utf8_text L (utf8_encode j) = Some j)"

definition sent :: "shadow_event list \<Rightarrow> (string \<times> string) list" where
  "sent evs = map (\<lambda>ev. (ev_candidate_id ev, ev_payload_json ev)) evs"

definition stored :: "run_event list \<Rightarrow> (string \<times> string) list" where
  "stored es = map (\<lambda>e. (re_candidate_id e, utf8_encode (re_payload_json e))) es"

lemma same_payload_stored:
  assumes "\<forall>p \<in> set checked. normalize_canonical_payload L (PayloadBytes (ev_payload_json (fst p))) = Inr (snd p)"
  shows "list_all2 same_payload checked es \<longleftrightarrow> sent (map fst checked) = stored es"
  using assms
proof (induction checked arbitrary: es)
  case Nil
  then show ?case by (cases es) (auto simp: sent_def stored_def)
next
  case (Cons p checked)
  have "snd p = ev_payload_json (fst p)" using Cons.prems normalize_bytes by force
  then show ?case using Cons by (cases es) (auto simp: sent_def stored_def same_payload_def)
qed

lemma same_row_payload:
  assumes "utf8_inverse L" "list_all2 (same_row L rid) checked es"
    "\<forall>p \<in> set checked. normalize_canonical_payload L (PayloadBytes (ev_payload_json (fst p))) = Inr (snd p)"
  shows "list_all2 same_payload checked es"
  using assms(2,3)
proof (induction checked es rule: list_all2_induct)
  case Nil
  then show ?case by simp
next
  case (Cons p checked e es)
  obtain j where "snd p = utf8_encode j" using Cons.prems normalize_bytes by force
  then have "same_payload p e" using Cons.hyps(1) assms(1) by (auto simp: same_row_def same_payload_def utf8_inverse_def)
  then show ?case using Cons by simp
qed

text \<open>A completed run, as it stands from its completion on.\<close>

definition completed_as :: "string \<Rightarrow> (string \<times> string) list \<Rightarrow> complete_run_result \<Rightarrow> ledger \<Rightarrow> bool" where
  "completed_as rid evs res s \<longleftrightarrow> (\<exists>row. find_run rid s = Some row \<and> rn_status row = RunCompleted) \<and>
     map fst evs = map re_candidate_id (events_of rid s) \<and>
     (cr_new_ids res, cr_already_seen_ids res) = partition_of rid (map fst evs) s"

lemma completed_as_complete:
  assumes "ledger_ok s" "valid_ids evs" "complete_run L lock (PStr rid) updated (Some (map Some evs)) s = (Inr res, t)"
  shows "completed_as rid (sent evs) res t" "ledger_ok t" "utf8_inverse L \<Longrightarrow> sent evs = stored (events_of rid t)"
proof -
  obtain u checked where evs: "evs = map fst checked"
    and n: "\<forall>p \<in> set checked. normalize_canonical_payload L (PayloadBytes (ev_payload_json (fst p))) = Inr (snd p)"
    and tx: "completion_tx L rid u checked s = (Inr (cr_new_ids res, cr_already_seen_ids res), t)"
    by (rule complete_run_Inr [OF assms(2,3)]) auto
  note k = completion_tx_keeps [OF assms(1) tx]
  have ids: "map fst (sent evs) = map (ev_candidate_id \<circ> fst) checked" by (simp add: sent_def evs comp_def)
  show "completed_as rid (sent evs) res t" using k by (simp add: completed_as_def ids)
  show "ledger_ok t" by (rule k(1))
  show "sent evs = stored (events_of rid t)" if "utf8_inverse L"
    using k(6) same_row_payload [OF that _ n] same_payload_stored [OF n] by (auto simp: evs)
qed

lemma completed_as_advances:
  assumes "ledger_ok s" "completed_as rid evs res s" "advances s t"
  shows "completed_as rid evs res t" "events_of rid t = events_of rid s"
proof -
  obtain row where row: "find_run rid s = Some row" "rn_status row = RunCompleted" using assms(2) by (auto simp: completed_as_def)
  obtain r' where r': "find_run rid t = Some r'" "rn_status row \<noteq> RunRunning \<Longrightarrow> r' = row \<and> events_of rid t = events_of rid s"
    by (rule advances_run [OF assms(3) row(1)]) blast
  then show ev: "events_of rid t = events_of rid s" using row by simp
  have "first_run c t = Some rid \<longleftrightarrow> first_run c s = Some rid" if c: "c \<in> set (map fst evs)" for c
  proof -
    obtain e where e: "e \<in> set (events_of rid s)" "c = re_candidate_id e" proof -
      have "c \<in> re_candidate_id ` set (events_of rid s)"
        using c assms(2) by (metis completed_as_def list.set_map)
      then show thesis using that by blast
    qed
    then have "event_ok {} s e" using assms(1) by (auto simp: ledger_ok_def ledger_inv_def set_events_of)
    then obtain k where "first_run c s = Some k" using e by (auto simp: event_ok_def first_run_def)
    then show ?thesis using grows_first_run [OF advances_grows [OF assms(3)]] by force
  qed
  then have "partition_of rid (map fst evs) t = partition_of rid (map fst evs) s"
    by (auto simp: partition_of_def intro!: filter_cong)
  then show "completed_as rid evs res t" using assms(2) r' row ev by (simp add: completed_as_def)
qed

lemma retry_answer:
  assumes ok: "ledger_ok s" and c: "completed_as rid old res s" and old: "old = stored (events_of rid s)"
    and valid: "valid_ids evs" and input: "completion_input L (PStr rid) updated (Some (map Some evs)) s = Inr i"
  shows "complete_run L LockFree (PStr rid) updated (Some (map Some evs)) s =
    (if sent evs = old then (Inr res, s) else (Inl RunConflictError, s))"
proof -
  obtain u checked where i: "completion_input L (PStr rid) updated (Some (map Some evs)) s = Inr (rid, u, checked)"
    using input completion_input_Inr [of L "PStr rid" updated "Some (map Some evs)" s] by (cases i) fastforce
  have inv: "ledger_inv {} s" using ok by (simp add: ledger_ok_def)
  then have num: "numbered (events_of rid s)" by (simp add: ledger_inv_def)
  obtain row where row: "find_run rid s = Some row" "rn_status row = RunCompleted" using c by (auto simp: completed_as_def)
  then have tx: "completion_tx L rid u checked s = (retry_completed rid checked s, s)" by (simp add: completion_tx_def)
  have "evs = map fst checked \<and> (\<forall>p \<in> set checked. normalize_canonical_payload L (PayloadBytes (ev_payload_json (fst p))) = Inr (snd p))"
  proof -
    note j = completion_input_Inr [OF i]
    have "evs = map fst checked" using j by (metis (no_types, lifting) comp_apply list.inj_map_strong map_map option.inject)
    then show ?thesis using preflight_Inr [OF j [THEN conjunct2, THEN conjunct2, THEN conjunct2]] by blast
  qed
  then have same: "list_all2 same_payload checked (events_of rid s) \<longleftrightarrow> sent evs = old" using same_payload_stored old by metis
  show ?thesis
  proof (cases "sent evs = old")
    case True
    have ids: "map (ev_candidate_id \<circ> fst) checked = map re_candidate_id (events_of rid s)" using same True same_payload_ids by blast
    have "retry_completed rid checked s = Inr (cr_new_ids res, cr_already_seen_ids res)"
      unfolding retry_completed_iff [OF num]
      using same True ids statuses [OF inv ids] c by (simp add: completed_as_def) (metis fst_conv snd_conv)
    moreover from this have "validate_complete_run_result (cr_new_ids res) (cr_already_seen_ids res) = Inr res"
      using completion_valid(4) [OF valid i, of _ _ s] tx by simp
    ultimately show ?thesis using i tx True by (simp add: complete_run_def locked_tx_def immediate_tx_def)
  next
    case False
    then have "retry_completed rid checked s = Inl RunConflictError"
      using retry_completed_iff [OF num, of checked] same retry_completed_Inl by (cases "retry_completed rid checked s") auto
    then show ?thesis using i tx False by (simp add: complete_run_def locked_tx_def immediate_tx_def)
  qed
qed

section \<open>Properties\<close>

lemma partition_new: "c \<in> set (fst (partition_of rid ids s)) \<Longrightarrow> first_run c s = Some rid"
  by (simp add: partition_of_def)

text \<open>
  C6: A candidate is new to at most one run: after a completed run, whatever the ledger is asked to do next, the
  completion of another run never reports one of its new candidates as new again.
\<close>

theorem candidate_new_once:
  assumes "ledger_ok s" "valid_ids evs1" "valid_ids evs2" "rid1 \<noteq> rid2"
    and one: "complete_run L lock1 (PStr rid1) updated1 (Some (map Some evs1)) s = (Inr res1, s1)"
    and two: "complete_run L lock2 (PStr rid2) updated2 (Some (map Some evs2)) (run_ops (ledger_exec L) ops s1) = (Inr res2, s2)"
  shows "set (cr_new_ids res1) \<inter> set (cr_new_ids res2) = {}"
proof -
  let ?t = "run_ops (ledger_exec L) ops s1"
  note c1 = completed_as_complete [OF assms(1,2) one]
  have t: "ledger_ok ?t" "advances s1 ?t" using c1(2) ledger_store.run_inv run_advances by blast+
  note c2 = completed_as_complete [OF t(1) assms(3) two]
  have "keeps ?t (Inr res2, s2)" using complete_keeps [OF t(1) assms(3), of L lock2 "PStr rid2" updated2] two by simp
  then have "advances s1 s2" using t(2) advances_trans by simp
  from completed_as_advances(1) [OF c1(2,1) this] c2(1) show ?thesis
    using assms(4) unfolding completed_as_def by (metis disjoint_iff fst_conv option.inject partition_new)
qed

text \<open>
  C13: Repeating a completion is idempotent and nothing else: later in the history, complete_run with the same run
  id answers the same partition and changes nothing when the candidates and payload bytes are the same in the same
  order, and raises RunConflictError, again changing nothing, when they are not.
\<close>

theorem completion_idempotent:
  assumes "utf8_inverse L" "ledger_ok s" "valid_ids evs1" "valid_ids evs2"
    and one: "complete_run L lock (PStr rid) updated1 (Some (map Some evs1)) s = (Inr res, s1)"
    and input: "completion_input L (PStr rid) updated2 (Some (map Some evs2)) (run_ops (ledger_exec L) ops s1) = Inr i"
  shows "complete_run L LockFree (PStr rid) updated2 (Some (map Some evs2)) (run_ops (ledger_exec L) ops s1) =
    (if map (\<lambda>ev. (ev_candidate_id ev, ev_payload_json ev)) evs2 = map (\<lambda>ev. (ev_candidate_id ev, ev_payload_json ev)) evs1
     then Inr res else Inl RunConflictError, run_ops (ledger_exec L) ops s1)"
proof -
  let ?t = "run_ops (ledger_exec L) ops s1"
  note c1 = completed_as_complete [OF assms(2,3) one]
  have t: "ledger_ok ?t" "advances s1 ?t" using c1(2) ledger_store.run_inv run_advances by blast+
  note c2 = completed_as_advances [OF c1(2,1) t(2)]
  show ?thesis
    using retry_answer [OF t(1) c2(1) _ assms(4) input] c1(3) [OF assms(1)] c2(2) by (simp add: sent_def)
qed

text \<open>
  C36: Over any history of operations the ledger stays consistent and append-only: seen candidates and run events
  are only added, a run keeps its window and start, and a completed, failed or stale run and its events never
  change again.
\<close>

theorem ledger_append_only:
  assumes "ledger_ok s" "t = run_ops (ledger_exec L) ops s"
  shows "ledger_ok t \<and> prefix (lg_seen s) (lg_seen t) \<and> prefix (lg_events s) (lg_events t) \<and>
    (\<forall>k r. find_run k s = Some r \<longrightarrow>
      (rn_status r \<noteq> RunRunning \<longrightarrow> find_run k t = Some r \<and> events_of k t = events_of k s) \<and>
      (\<exists>r'. find_run k t = Some r' \<and> rn_window_lower r' = rn_window_lower r \<and>
         rn_window_upper r' = rn_window_upper r \<and> rn_started_at r' = rn_started_at r))"
proof -
  have "ledger_ok t" unfolding assms(2) by (rule ledger_store.run_inv [OF assms(1)])
  moreover have "advances s t" unfolding assms(2) by (rule run_advances [OF assms(1)])
  ultimately show ?thesis unfolding advances_def by blast
qed

text \<open>
  C37: Recovery ends exactly the runs it should: the ids it answers, in order, are those of the running runs whose last
  update is before the second of the cutoff; these become stale with the given update time and every other run stays
  as it is.
\<close>

theorem recover_exact:
  assumes "ledger_ok s" "t \<in> text_range" "list_all (\<lambda>r. upd r \<in> whole_seconds \<and> rn_updated_at r = iso_z (upd r)) (lg_runs s)"
    and run: "recover_stale_runs L lock (t, Some 0) updated s = (Inr ids, s')"
  shows "ids = sort (map rn_run_id (filter (\<lambda>r. rn_status r = RunRunning \<and> upd r < t - t mod 1000000) (lg_runs s))) \<and>
    (\<exists>z. validate_timestamp L updated = Inr z \<and> (\<forall>k. find_run k s' = map_option (\<lambda>r.
       if rn_status r = RunRunning \<and> upd r < t - t mod 1000000 then r\<lparr>rn_status := RunStale, rn_updated_at := z\<rparr> else r) (find_run k s)))"
proof -
  have stale: "is_stale (strftime_z t) r \<longleftrightarrow> rn_status r = RunRunning \<and> upd r < t - t mod 1000000" if "r \<in> set (lg_runs s)" for r
    using assms(3) that stale_iff [OF assms(2), of "upd r" r] by (auto simp: list_all_iff second_of_def)
  obtain z where z: "validate_timestamp L updated = Inr z"
      and ids: "ids = sort (map rn_run_id (filter (is_stale (strftime_z t)) (lg_runs s)))"
      and s': "s' = s\<lparr>lg_runs := map (recover_row (strftime_z t) z) (lg_runs s)\<rparr>"
    by (rule recover_Inr [OF run]) auto
  have same: "ids = sort (map rn_run_id (filter (\<lambda>r. rn_status r = RunRunning \<and> upd r < t - t mod 1000000) (lg_runs s)))"
    unfolding ids by (intro arg_cong [of _ _ sort] arg_cong [of _ _ "map rn_run_id"] filter_cong refl) (rule stale)
  have "find_run k s' = map_option (\<lambda>r.
       if rn_status r = RunRunning \<and> upd r < t - t mod 1000000 then r\<lparr>rn_status := RunStale, rn_updated_at := z\<rparr> else r) (find_run k s)" for k
  proof -
    have found: "find_run k s' = map_option (recover_row (strftime_z t) z) (find_run k s)"
      by (simp add: s' find_run_def tbl_find_map recover_row_def)
    show ?thesis
    proof (cases "find_run k s")
      case None
      then show ?thesis using found by simp
    next
      case (Some r)
      then have "r \<in> set (lg_runs s)" by (auto simp: find_run_def dest: tbl_find_SomeD)
      then show ?thesis using Some found by (simp add: recover_row_def stale)
    qed
  qed
  with same z show ?thesis by blast
qed

text \<open>
  A payload the ledger accepts is at most 16,384 bytes, carries no key with a credential word in it at any
  depth, and is a fixed point: the canonical bytes, given back as bytes, are accepted unchanged.
\<close>

theorem canonical_payload_fixed:
  assumes "normalize_canonical_payload L p = Inr c" "payload_source L p = Inr (raw, s)" "json_pairs L s = Parsed v"
    and parser: "json_pairs L (json_dumps (ll_py L) v) = Parsed (sorted_value v)"
    and codec: "utf8_text L (utf8_encode (json_dumps (ll_py L) v)) = Some (json_dumps (ll_py L) v)"
  shows "length c \<le> 16384" "no_sensitive_keys v" "normalize_canonical_payload L (PayloadBytes c) = Inr c"
proof -
  obtain kvs where v: "keys_unique v" "json_finite v" "v = PDict kvs" "no_sensitive_keys v"
    and c: "c = utf8_encode (json_dumps (ll_py L) v)" "length c \<le> PAYLOAD_BYTE_LIMIT"
    using assms(1-3) by (auto simp: normalize_Inr parse_strict_Inr)
  show "length c \<le> 16384" using c(2) by (simp add: PAYLOAD_BYTE_LIMIT_def)
  show "no_sensitive_keys v" by (rule v(4))
  have "parse_strict_json_object L (json_dumps (ll_py L) v) = Inr (sorted_value v)"
    using parser v by (simp add: parse_strict_Inr keys_unique_sorted_value json_finite_sorted_value)
      (metis (no_types, lifting) json_finite_sorted_value keys_unique_sorted_value json_finite.simps(4) keys_unique.simps(1) sorted_value.simps(1))
  then show "normalize_canonical_payload L (PayloadBytes c) = Inr c"
    using codec c v(4)
    by (auto simp: normalize_Inr payload_source_def no_sensitive_sorted_value json_dumps_sorted_value)
qed

section \<open>An example\<close>

definition eg_value :: pyval where
  "eg_value = PDict [(''a'', PInt 1)]"

definition eg_payload :: string where
  "eg_payload = ''{'' @ json_str ''a'' @ '':1}''"

text \<open>Every text but \<open>eg_payload\<close> is no JSON; every timestamp is the first instant of the year 1000.\<close>

definition eg_ledger_lib :: ledger_lib where
  "eg_ledger_lib =
     \<lparr>ll_py = \<lparr>sha256_hexdigest = (\<lambda>s. s), fromisoformat_utc = (\<lambda>s. None), json_loads = (\<lambda>s. None), float_repr = (\<lambda>f. []),
        container_str = (\<lambda>v. [])\<rparr>,
      utf8_text = narrow_utf8_decode,
      json_pairs = (\<lambda>s. if s = eg_payload then Parsed eg_value else NotJson),
      iso_instant = (\<lambda>s. Some (min_text_instant, Some 0))\<rparr>"

definition eg_event :: "string \<Rightarrow> shadow_event" where
  "eg_event c = \<lparr>ev_candidate_id = c, ev_category = AI, ev_decision = distinct_event, ev_payload_json = eg_payload,
     ev_recorded_at = iso_z min_text_instant\<rparr>"

definition eg_row :: "string \<Rightarrow> shadow_run" where
  "eg_row rid = \<lparr>rn_run_id = rid, rn_window_lower = ''0'', rn_window_upper = ''1'', rn_started_at = iso_z min_text_instant,
     rn_updated_at = iso_z min_text_instant, rn_status = RunRunning, rn_error_code = None\<rparr>"

definition eg_ledger :: ledger where
  "eg_ledger = \<lparr>lg_ready = True, lg_runs = [eg_row ''r1'', eg_row ''r2''], lg_seen = [], lg_events = []\<rparr>"

lemma eg_ledger_ok: "ledger_ok eg_ledger"
  by (simp add: ledger_ok_def ledger_inv_def eg_ledger_def eg_row_def tbl_keyed_def shadow_run_ok_def numbered_def events_of_def)

lemma eg_utf8: "utf8_inverse eg_ledger_lib"
  by (simp add: utf8_inverse_def eg_ledger_lib_def)

lemma eg_payload_json: "json_dumps L eg_value = eg_payload"
proof -
  have "digit 1 = CHR ''1''" by code_simp
  then show ?thesis by (simp add: eg_value_def eg_payload_def show_int_def show_nat.simps)
qed

lemma eg_payload_utf8: "utf8_encode eg_payload = eg_payload" "length eg_payload = 7" "narrow_utf8_decode eg_payload = Some eg_payload"
proof -
  show 1: "utf8_encode eg_payload = eg_payload" by code_simp
  show "length eg_payload = 7" by code_simp
  show "narrow_utf8_decode eg_payload = Some eg_payload" using narrow_utf8 [of eg_payload] 1 by simp
qed

lemma eg_normalize: "normalize_canonical_payload eg_ledger_lib (PayloadBytes eg_payload) = Inr eg_payload"
proof -
  have "parse_strict_json_object eg_ledger_lib eg_payload = Inr eg_value"
    by (simp add: parse_strict_Inr eg_ledger_lib_def eg_value_def)
  moreover have "no_sensitive_keys eg_value" by code_simp
  ultimately show ?thesis
    by (simp add: normalize_canonical_payload_def canonical_payload_def Let_def payload_source_def eg_payload_json eg_payload_utf8
        PAYLOAD_BYTE_LIMIT_def eg_ledger_lib_def [THEN arg_cong, of utf8_text])
qed

lemma eg_timestamp: "validate_timestamp eg_ledger_lib (PStr ''Z'') = Inr (iso_z min_text_instant)"
  by (simp add: validate_timestamp_def validate_utc_iso_def eg_ledger_lib_def ends_with_def starts_with_def)

lemma eg_valid: "valid_ids [eg_event ''c1'']"
  by code_simp

lemma eg_input:
  "rid \<in> {''r1'', ''r2''} \<Longrightarrow> lg_ready s \<Longrightarrow>
   completion_input eg_ledger_lib (PStr rid) (PStr ''Z'') (Some (map Some [eg_event ''c1''])) s =
     Inr (rid, iso_z min_text_instant, [(eg_event ''c1'', eg_payload)])"
  by (auto simp: completion_input_def validate_run_id_def ID_LIMIT_def eg_timestamp require_initialized_def eg_event_def eg_normalize)

definition eg_ledger1 :: ledger where
  "eg_ledger1 = snd (completion_tx eg_ledger_lib ''r1'' (iso_z min_text_instant) [(eg_event ''c1'', eg_payload)] eg_ledger)"

lemma eg_tx:
  "completion_tx eg_ledger_lib ''r1'' (iso_z min_text_instant) [(eg_event ''c1'', eg_payload)] eg_ledger = (Inr ([''c1''], []), eg_ledger1)"
  "fst (completion_tx eg_ledger_lib ''r2'' (iso_z min_text_instant) [(eg_event ''c1'', eg_payload)] eg_ledger1) = Inr ([], [''c1''])"
  "lg_ready eg_ledger1"
  by (simp_all add: eg_ledger1_def eg_ledger_def completion_tx_def find_run_def eg_row_def eg_event_def eg_ledger_lib_def eg_payload_utf8
      record_event_def insert_seen_def insert_run_event_def find_seen_def event_at_def events_of_def set_status_def tbl_update_def tbl_insert_def)

lemma eg_result: "validate_complete_run_result [''c1''] [] = Inr \<lparr>cr_new_ids = [''c1''], cr_already_seen_ids = []\<rparr>"
  "validate_complete_run_result [] [''c1''] = Inr \<lparr>cr_new_ids = [], cr_already_seen_ids = [''c1'']\<rparr>"
  by (auto simp: validate_complete_run_result_def check_candidate_id_def ID_LIMIT_def id_control_char_def)

lemma eg_complete1:
  "complete_run eg_ledger_lib LockFree (PStr ''r1'') (PStr ''Z'') (Some (map Some [eg_event ''c1''])) eg_ledger =
     (Inr \<lparr>cr_new_ids = [''c1''], cr_already_seen_ids = []\<rparr>, eg_ledger1)"
  using eg_input [of "''r1''" eg_ledger]
  by (simp add: complete_run_def eg_tx locked_tx_def immediate_tx_def eg_result eg_ledger_def [THEN arg_cong, of lg_ready])

lemma eg_complete2:
  "\<exists>s2. complete_run eg_ledger_lib LockFree (PStr ''r2'') (PStr ''Z'') (Some (map Some [eg_event ''c1''])) eg_ledger1 =
     (Inr \<lparr>cr_new_ids = [], cr_already_seen_ids = [''c1'']\<rparr>, s2)"
proof -
  obtain s2 where "completion_tx eg_ledger_lib ''r2'' (iso_z min_text_instant) [(eg_event ''c1'', eg_payload)] eg_ledger1 = (Inr ([], [''c1'']), s2)"
    using eg_tx(2) by (metis prod.collapse)
  then show ?thesis
    using eg_input [of "''r2''" eg_ledger1] eg_tx(3) by (simp add: complete_run_def locked_tx_def immediate_tx_def eg_result)
qed

theorem candidate_new_once_witness:
  "\<exists>res2 s2. complete_run eg_ledger_lib LockFree (PStr ''r2'') (PStr ''Z'') (Some (map Some [eg_event ''c1'']))
      (run_ops (ledger_exec eg_ledger_lib) [] eg_ledger1) = (Inr res2, s2) \<and> set [''c1''] \<inter> set (cr_new_ids res2) = {}"
proof -
  obtain res2 s2 where two: "complete_run eg_ledger_lib LockFree (PStr ''r2'') (PStr ''Z'') (Some (map Some [eg_event ''c1'']))
      (run_ops (ledger_exec eg_ledger_lib) [] eg_ledger1) = (Inr res2, s2)"
    using eg_complete2 by auto
  have "set [''c1''] \<inter> set (cr_new_ids res2) = {}"
    using candidate_new_once [OF eg_ledger_ok eg_valid eg_valid _ eg_complete1 two] by simp
  with two show ?thesis by blast
qed

theorem completion_idempotent_witness:
  "complete_run eg_ledger_lib LockFree (PStr ''r1'') (PStr ''Z'') (Some (map Some [eg_event ''c1'']))
     (run_ops (ledger_exec eg_ledger_lib) [Initialize LockFree] eg_ledger1) =
   (Inr \<lparr>cr_new_ids = [''c1''], cr_already_seen_ids = []\<rparr>, run_ops (ledger_exec eg_ledger_lib) [Initialize LockFree] eg_ledger1)"
proof -
  have "lg_ready (run_ops (ledger_exec eg_ledger_lib) [Initialize LockFree] eg_ledger1)"
    by (simp add: initialize_schema_def locked_tx_def immediate_tx_def ledger_reply_def)
  from completion_idempotent [OF eg_utf8 eg_ledger_ok eg_valid eg_valid eg_complete1 eg_input [OF _ this]]
  show ?thesis by simp
qed

theorem ledger_append_only_witness:
  "find_run ''r1'' (run_ops (ledger_exec eg_ledger_lib) [Initialize LockFree] eg_ledger1) = find_run ''r1'' eg_ledger1"
proof -
  have ok: "ledger_ok eg_ledger1" by (rule completion_tx_keeps(1) [OF eg_ledger_ok eg_tx(1)])
  obtain row where "find_run ''r1'' eg_ledger1 = Some row" "rn_status row = RunCompleted"
    using completion_tx_keeps(5) [OF eg_ledger_ok eg_tx(1)] by blast
  then show ?thesis
    using ledger_append_only [OF ok refl, of eg_ledger_lib "[Initialize LockFree]"] by (simp del: run_ops.simps)
qed

theorem recover_exact_witness:
  "fst (recover_stale_runs eg_ledger_lib LockFree (min_text_instant + 1000000, Some 0) (PStr ''Z'') eg_ledger) = Inr [''r1'', ''r2'']"
proof -
  have range: "min_text_instant + 1000000 \<in> text_range" "min_text_instant \<in> whole_seconds"
    by (simp_all add: text_range_def whole_seconds_def min_text_instant_def max_instant_def)
  obtain ids s' where run: "recover_stale_runs eg_ledger_lib LockFree (min_text_instant + 1000000, Some 0) (PStr ''Z'') eg_ledger = (Inr ids, s')"
    by (simp add: recover_stale_runs_def aware_utc_to_z_def eg_timestamp require_initialized_def locked_tx_def immediate_tx_def eg_ledger_def)
  have stamps: "list_all (\<lambda>r. min_text_instant \<in> whole_seconds \<and> rn_updated_at r = iso_z min_text_instant) (lg_runs eg_ledger)"
    using range by (simp add: eg_ledger_def eg_row_def)
  have "ids = [''r1'', ''r2'']"
    using recover_exact [OF eg_ledger_ok range(1), of "\<lambda>r. min_text_instant", OF stamps run]
    by (simp add: eg_ledger_def eg_row_def min_text_instant_def)
  with run show ?thesis by simp
qed

theorem canonical_payload_fixed_witness:
  "normalize_canonical_payload eg_ledger_lib (PayloadBytes eg_payload) = Inr eg_payload \<and> length eg_payload \<le> 16384"
proof -
  have e: "payload_source eg_ledger_lib (PayloadBytes eg_payload) = Inr (Some eg_payload, eg_payload)"
    by (simp add: payload_source_def eg_ledger_lib_def eg_payload_utf8)
  have p: "json_pairs eg_ledger_lib eg_payload = Parsed eg_value" by (simp add: eg_ledger_lib_def)
  have "sorted_value eg_value = eg_value" by (simp add: eg_value_def)
  then have 1: "json_pairs eg_ledger_lib (json_dumps (ll_py eg_ledger_lib) eg_value) = Parsed (sorted_value eg_value)"
    using p by (simp only: eg_payload_json)
  have 2: "utf8_text eg_ledger_lib (utf8_encode (json_dumps (ll_py eg_ledger_lib) eg_value)) = Some (json_dumps (ll_py eg_ledger_lib) eg_value)"
    by (simp add: eg_ledger_lib_def)
  show ?thesis using canonical_payload_fixed [OF eg_normalize e p 1 2] by blast
qed

end
