(* ===== verification/SourcePolicy.thy ===== *)
theory SourcePolicy
  imports BriefingLedger BrokerPolicy CanaryPaths
begin

text \<open>
  The declarative policies of the candidate filter: canonical URLs and the routes that are no articles
  (\<open>canonicalization.py\<close>), the source rules with their precedence and the query policies of the categories
  (\<open>policies.py\<close>, \<open>models.py\<close>). URL splitting and quoting, query parsing and the IDNA codec of the standard
  library are the fields of \<open>weblib\<close>; \<open>posixpath.normpath\<close> is written out.
\<close>

section \<open>Canonical URLs\<close>

text \<open>
  \<^item> \<open>w_split u\<close>: \<open>urlsplit(u)\<close>, \<open>Inl ValueError\<close> where it raises; \<open>w_unsplit\<close>: \<open>urlunsplit\<close> of the five parts.
  \<^item> \<open>w_idna h\<close>: \<open>h.encode("idna").decode("ascii")\<close>, \<open>None\<close> where it raises \<open>UnicodeError\<close>.
  \<^item> \<open>w_quote p\<close>: \<open>quote(p, safe="/%:@!$&'()*+,;=-._~")\<close>.
  \<^item> \<open>w_query q\<close>: \<open>parse_qsl(q, keep_blank_values=True)\<close>; \<open>w_urlencode\<close>: \<open>urlencode(items, doseq=True)\<close>.
\<close>

record weblib =
  w_split :: "string \<Rightarrow> url_parts result"
  w_unsplit :: "string \<times> string \<times> string \<times> string \<times> string \<Rightarrow> string"
  w_idna :: "string \<Rightarrow> string option"
  w_quote :: "string \<Rightarrow> string"
  w_query :: "string \<Rightarrow> (string \<times> string) list"
  w_urlencode :: "(string \<times> string) list \<Rightarrow> string"

definition TRACKING_NAMES :: "string list" where
  "TRACKING_NAMES = [''fbclid'', ''gclid'', ''ref'', ''ref_src'', ''mc_cid'', ''mc_eid'']"

text \<open>\<open>posixpath.normpath\<close>; two leading slashes are kept, more become one.\<close>

definition posix_normpath :: "string \<Rightarrow> string" where
  "posix_normpath p =
     (let slashes = (if \<not> starts_with ''/'' p then 0 else if starts_with ''//'' p \<and> \<not> starts_with ''///'' p then 2 else 1);
          comps = foldl (norm_step (slashes \<noteq> 0)) [] (filter (\<lambda>c. c \<noteq> [] \<and> c \<noteq> ''.'') (split_on (CHR ''/'') p));
          out = replicate slashes (CHR ''/'') @ join ''/'' comps in
      if p = [] \<or> out = [] then ''.'' else out)"

definition remove_dot_segments :: "string \<Rightarrow> string" where
  "remove_dot_segments path =
     (if path = [] then []
      else let leading_slash = starts_with ''/'' path;
               trailing_slash = (ends_with ''/'' path \<or> ends_with ''/.'' path \<or> ends_with ''/..'' path);
               n0 = posix_normpath path;
               n1 = (if n0 = ''.'' then [] else n0);
               n2 = (if leading_slash \<and> \<not> starts_with ''/'' n1 then ''/'' @ n1 else n1) in
           if trailing_slash \<and> n2 \<noteq> [] \<and> \<not> ends_with ''/'' n2 then n2 @ ''/'' else n2)"

definition tracking_key :: "string \<Rightarrow> bool" where
  "tracking_key k = (starts_with ''utm_'' (lower k) \<or> lower k \<in> set TRACKING_NAMES)"

text \<open>The host of a split URL, in its canonical form with a port that is not the default one.\<close>

definition canonical_authority :: "weblib \<Rightarrow> string \<Rightarrow> url_parts \<Rightarrow> string result" where
  "canonical_authority W scheme p =
     (case u_hostname p of
        None \<Rightarrow> Inl ValueError
      | Some h \<Rightarrow>
          if h = [] then Inl ValueError
          else (case w_idna W (rstrip_char (CHR ''.'') (lower h)) of
              None \<Rightarrow> Inl ValueError
            | Some host \<Rightarrow>
                if host = [] then Inl ValueError
                else bind_result (u_port p) (\<lambda>port.
                  let bracketed = (if CHR '':'' \<in> set host \<and> \<not> starts_with ''['' host then ''['' @ host @ '']'' else host) in
                  Inr (case port of
                      None \<Rightarrow> bracketed
                    | Some n \<Rightarrow> if scheme = ''http'' \<and> n = 80 \<or> scheme = ''https'' \<and> n = 443 then bracketed
                        else bracketed @ '':'' @ show_int n))))"

text \<open>The username of a split URL is there when its network location has an at sign.\<close>

definition canonicalize_url :: "weblib \<Rightarrow> string option \<Rightarrow> string option result" where
  "canonicalize_url W url =
     (case url of
        None \<Rightarrow> Inr None
      | Some u \<Rightarrow>
          if u = [] then Inr None
          else bind_result (w_split W u) (\<lambda>p.
            let scheme = lower (u_scheme p) in
            if scheme \<notin> {''http'', ''https''} then Inl ValueError
            else bind_result (canonical_authority W scheme p) (\<lambda>host.
              if CHR ''@'' \<in> set (u_netloc p) then Inl ValueError
              else let path = w_quote W (remove_dot_segments (u_path p));
                       query = w_urlencode W (sort (filter (\<lambda>(k, v). \<not> tracking_key k) (w_query W (u_query p)))) in
                   Inr (Some (w_unsplit W (scheme, host, path, query, []))))))"

definition INDEX_BASENAMES :: "string list" where
  "INDEX_BASENAMES = [''index'', ''index.htm'', ''index.html'', ''index.php'']"

definition HOME_PATHS :: "string list" where
  "HOME_PATHS = [''/home'', ''/home/'']"

definition route_reason :: "string \<Rightarrow> string option" where
  "route_reason p =
     (let path = (if p = [] then ''/'' else p);
          segments = map casefold (filter (\<lambda>x. x \<noteq> []) (split_on (CHR ''/'') path)) in
      if path = ''/'' \<or> path \<in> set HOME_PATHS then Some ''home_page''
      else if segments \<noteq> [] \<and> hd segments \<in> {''search'', ''tag'', ''tags''} then
        Some (if hd segments \<noteq> ''tags'' then hd segments @ ''_page'' else ''tag_page'')
      else if segments \<noteq> [] \<and> last segments \<in> set INDEX_BASENAMES then Some ''index_page''
      else None)"

definition non_article_url_reason :: "weblib \<Rightarrow> string option \<Rightarrow> string option result" where
  "non_article_url_reason W url =
     bind_result (canonicalize_url W url) (\<lambda>canonical.
       case canonical of
         None \<Rightarrow> Inr (Some ''missing_url'')
       | Some c \<Rightarrow> bind_result (w_split W c) (\<lambda>p. Inr (route_reason (u_path p))))"

section \<open>Source rules\<close>

datatype trust_tier = Blocked | Allowed | Trusted | UnknownTier

datatype reason_code =
    OK_KEEP | OK_BLOCKED_SOURCE | OK_OBSERVED_FALLBACK | OK_TITLE_ONLY_LOW_CONFIDENCE | OK_TRUSTED_SOURCE | OK_UNKNOWN_SOURCE
  | BLOCKED_SOURCE_EXACT | BLOCKED_SOURCE_SUBDOMAIN | STALE | MISSING_DATE | INVALID_DATE | FUTURE_DATE | FUTURE_DATE_CLAMPED
  | WITHIN_BATCH_EXACT | HISTORY_EXACT_URL | HISTORY_EXACT_IDENTITY | HISTORY_RECENT_TITLE | HISTORY_URL_CHANGED_CONTENT
  | HISTORY_TITLE_CHANGED_SNIPPET | UNKNOWN_QUERY_GROUP | MALFORMED_CANONICAL_URL | CANONICAL_MISMATCH | MISSING_URL
  | NON_ARTICLE_URL | HISTORY_UNAVAILABLE | CROSS_CATEGORY_PASSTHROUGH

record source_rule =
  sr_label :: string
  sr_host :: string
  sr_scope :: string
  sr_action :: string

definition normalize_rule_host :: "weblib \<Rightarrow> string \<Rightarrow> string result" where
  "normalize_rule_host W host =
     (let h = rstrip_char (CHR ''.'') (lower (strip host)) in
      if h = [] then Inl ValueError
      else (case w_idna W h of None \<Rightarrow> Inl ValueError | Some a \<Rightarrow> Inr a))"

definition make_source_rule :: "weblib \<Rightarrow> string \<Rightarrow> string \<Rightarrow> string \<Rightarrow> string \<Rightarrow> source_rule result" where
  "make_source_rule W label host scope action =
     (if label = [] then Inl ValueError
      else if scope \<notin> {''exact'', ''subdomain''} then Inl ValueError
      else if action \<notin> {''block'', ''allow'', ''trusted''} then Inl ValueError
      else bind_result (normalize_rule_host W host) (\<lambda>h.
        Inr \<lparr>sr_label = label, sr_host = h, sr_scope = scope, sr_action = action\<rparr>))"

record source_match =
  sm_tier :: trust_tier
  sm_reason :: reason_code
  sm_rule :: "string option"

fun after_first :: "string \<Rightarrow> string \<Rightarrow> string option" where
  "after_first p [] = (if p = [] then Some [] else None)"
| "after_first p (c # s) = (if starts_with p (c # s) then Some (drop (length p) (c # s)) else after_first p s)"

text \<open>The text after the last at sign.\<close>

definition after_at :: "string \<Rightarrow> string" where
  "after_at s = rev (takeWhile (\<lambda>c. c \<noteq> CHR ''@'') (rev s))"

definition authority_host :: "string \<Rightarrow> string" where
  "authority_host a =
     (if starts_with ''['' a then (if CHR '']'' \<in> set a then takeWhile (\<lambda>c. c \<noteq> CHR '']'') (tl a) else a)
      else takeWhile (\<lambda>c. c \<noteq> CHR '':'') a)"

definition canonical_host :: "weblib \<Rightarrow> string option \<Rightarrow> string option" where
  "canonical_host W url =
     (case canonicalize_url W url of
        Inl _ \<Rightarrow> None
      | Inr None \<Rightarrow> None
      | Inr (Some c) \<Rightarrow>
          (case after_first ''://'' c of
             None \<Rightarrow> None
           | Some rest \<Rightarrow>
               let authority = after_at (takeWhile (\<lambda>x. x \<notin> {CHR ''/'', CHR ''?'', CHR ''#''}) rest);
                   host = lower (strip (authority_host authority)) in
               if host = [] then None else w_idna W host))"

definition host_matches :: "string \<Rightarrow> string \<Rightarrow> string \<Rightarrow> bool" where
  "host_matches host rule_host scope =
     (if scope = ''exact'' then host = rule_host else host = rule_host \<or> ends_with (''.'' @ rule_host) host)"

definition PRECEDENCE :: "(string \<times> string \<times> trust_tier \<times> reason_code) list" where
  "PRECEDENCE =
     [(''block'', ''exact'', Blocked, BLOCKED_SOURCE_EXACT),
      (''block'', ''subdomain'', Blocked, BLOCKED_SOURCE_SUBDOMAIN),
      (''allow'', ''exact'', Allowed, OK_KEEP),
      (''allow'', ''subdomain'', Allowed, OK_KEEP),
      (''trusted'', ''exact'', Trusted, OK_TRUSTED_SOURCE),
      (''trusted'', ''subdomain'', Trusted, OK_TRUSTED_SOURCE)]"

definition rule_applies :: "string \<Rightarrow> string \<Rightarrow> string \<Rightarrow> source_rule \<Rightarrow> bool" where
  "rule_applies host action scope r \<longleftrightarrow> sr_action r = action \<and> sr_scope r = scope \<and> host_matches host (sr_host r) (sr_scope r)"

fun first_match :: "source_rule list \<Rightarrow> string \<Rightarrow> (string \<times> string \<times> trust_tier \<times> reason_code) list \<Rightarrow> source_match" where
  "first_match rules host [] = \<lparr>sm_tier = UnknownTier, sm_reason = OK_UNKNOWN_SOURCE, sm_rule = None\<rparr>"
| "first_match rules host ((action, scope, tier, reason) # rest) =
     (case find (rule_applies host action scope) rules of
        Some r \<Rightarrow> \<lparr>sm_tier = tier, sm_reason = reason, sm_rule = Some (sr_label r)\<rparr>
      | None \<Rightarrow> first_match rules host rest)"

definition classify_source :: "weblib \<Rightarrow> source_rule list \<Rightarrow> string option \<Rightarrow> source_match" where
  "classify_source W rules url =
     (if url = None \<or> url = Some [] then \<lparr>sm_tier = UnknownTier, sm_reason = MISSING_URL, sm_rule = None\<rparr>
      else (case canonical_host W url of
          None \<Rightarrow> \<lparr>sm_tier = UnknownTier, sm_reason = MALFORMED_CANONICAL_URL, sm_rule = None\<rparr>
        | Some host \<Rightarrow> first_match rules host PRECEDENCE))"

section \<open>Query policies\<close>

text \<open>Durations are in microseconds.\<close>

definition hours :: "int \<Rightarrow> int" where
  "hours n = n * 3600000000"

definition days :: "int \<Rightarrow> int" where
  "days n = n * us_per_day"

datatype news_subject = S_AI | S_WORLD | S_AUDIO_ENGINEERING | S_PROFESSIONAL_AV | S_HARDWARE | S_FANTASY_NOVEL | S_OUR_SETUP

fun category_value :: "category \<Rightarrow> string" where
  "category_value AI = ''ai''"
| "category_value WORLD = ''world''"
| "category_value AUDIO_ENGINEERING = ''audio_engineering''"
| "category_value HARDWARE = ''hardware''"
| "category_value FANTASY_NOVEL = ''fantasy_novel''"
| "category_value AUDIOVISUAL = ''audiovisual''"
| "category_value AV_CORPORATE = ''av_corporate''"
| "category_value OUR_SETUP = ''our_setup''"

definition CATEGORIES :: "category list" where
  "CATEGORIES = [AI, WORLD, AUDIO_ENGINEERING, HARDWARE, FANTASY_NOVEL, AUDIOVISUAL, AV_CORPORATE, OUR_SETUP]"

definition category_of :: "string \<Rightarrow> category result" where
  "category_of v = (case find (\<lambda>c. category_value c = v) CATEGORIES of Some c \<Rightarrow> Inr c | None \<Rightarrow> Inl ValueError)"

fun category_subject :: "category \<Rightarrow> news_subject" where
  "category_subject AI = S_AI"
| "category_subject WORLD = S_WORLD"
| "category_subject AUDIO_ENGINEERING = S_AUDIO_ENGINEERING"
| "category_subject HARDWARE = S_HARDWARE"
| "category_subject FANTASY_NOVEL = S_FANTASY_NOVEL"
| "category_subject AUDIOVISUAL = S_PROFESSIONAL_AV"
| "category_subject AV_CORPORATE = S_PROFESSIONAL_AV"
| "category_subject OUR_SETUP = S_OUR_SETUP"

fun subject_value :: "news_subject \<Rightarrow> string" where
  "subject_value S_AI = ''ai''"
| "subject_value S_WORLD = ''world''"
| "subject_value S_AUDIO_ENGINEERING = ''audio_engineering''"
| "subject_value S_PROFESSIONAL_AV = ''professional_av''"
| "subject_value S_HARDWARE = ''hardware''"
| "subject_value S_FANTASY_NOVEL = ''fantasy_novel''"
| "subject_value S_OUR_SETUP = ''our_setup''"

definition NEWS_SUBJECTS :: "news_subject list" where
  "NEWS_SUBJECTS = [S_AI, S_WORLD, S_AUDIO_ENGINEERING, S_PROFESSIONAL_AV, S_HARDWARE, S_FANTASY_NOVEL, S_OUR_SETUP]"

definition subject_named :: "string \<Rightarrow> news_subject result" where
  "subject_named v = (case find (\<lambda>s. subject_value s = v) NEWS_SUBJECTS of Some s \<Rightarrow> Inr s | None \<Rightarrow> Inl ValueError)"

record query_policy =
  qp_category :: category
  qp_groups :: "string list"
  qp_recency :: int
  qp_missing_date_fallback :: bool
  qp_title_lookback :: int
  qp_url_lookback :: int
  qp_identity_lookback :: int
  qp_cross_category :: bool
  qp_subject :: "news_subject option"

definition check_query_policy :: "query_policy \<Rightarrow> query_policy result" where
  "check_query_policy p = (if qp_groups p = [] \<or> [] \<in> set (qp_groups p) then Inl ValueError else Inr p)"

text \<open>
  \<open>query_policies_from_subject_policies\<close> over the entries of the loaded mapping: the name of a subject and its
  \<open>recency_days\<close>. A later entry of a subject overwrites an earlier one.
\<close>

fun recency_by_subject :: "(string \<times> pyval) list \<Rightarrow> (news_subject \<rightharpoonup> int) \<Rightarrow> (news_subject \<rightharpoonup> int) result" where
  "recency_by_subject [] m = Inr m"
| "recency_by_subject ((name, recency_days) # entries) m =
     bind_result (subject_named name) (\<lambda>s.
       case recency_days of
         PInt n \<Rightarrow> if n < 1 then Inl ValueError else recency_by_subject entries (m(s \<mapsto> n))
       | _ \<Rightarrow> Inl ValueError)"

definition subject_query_policy :: "category \<Rightarrow> int \<Rightarrow> query_policy" where
  "subject_query_policy c n =
     \<lparr>qp_category = c, qp_groups = [category_value c], qp_recency = days n, qp_missing_date_fallback = True,
      qp_title_lookback = min (days n) (hours 72), qp_url_lookback = days n, qp_identity_lookback = days n,
      qp_cross_category = True, qp_subject = Some (category_subject c)\<rparr>"

text \<open>A duration is bounded; \<open>timedelta\<close> raises \<open>OverflowError\<close> from a thousand million days on.\<close>

definition policy_window :: "int \<Rightarrow> int result" where
  "policy_window n = (if n < 1000000000 then Inr n else Inl OverflowError)"

definition query_policies_from_subject_policies :: "(string \<times> pyval) list \<Rightarrow> (category \<rightharpoonup> query_policy) result" where
  "query_policies_from_subject_policies entries =
     bind_result (recency_by_subject entries (\<lambda>_. None)) (\<lambda>m.
       if list_ex (\<lambda>c. m (category_subject c) = None) CATEGORIES then Inl ValueError
       else bind_result (map_result (\<lambda>c. bind_result (policy_window (the (m (category_subject c)))) (\<lambda>n.
            check_query_policy (subject_query_policy c n))) CATEGORIES) (\<lambda>ps.
         Inr (map_of (zip CATEGORIES ps))))"

definition default_recency :: "category \<Rightarrow> int" where
  "default_recency c =
     (case c of AI \<Rightarrow> hours 72 | WORLD \<Rightarrow> hours 48 | AUDIO_ENGINEERING \<Rightarrow> days 14 | HARDWARE \<Rightarrow> days 7
      | FANTASY_NOVEL \<Rightarrow> days 14 | AUDIOVISUAL \<Rightarrow> days 7 | AV_CORPORATE \<Rightarrow> days 7 | OUR_SETUP \<Rightarrow> days 30)"

definition default_query_policies :: "category \<rightharpoonup> query_policy" where
  "default_query_policies c = Some
     \<lparr>qp_category = c, qp_groups = [category_value c], qp_recency = default_recency c, qp_missing_date_fallback = True,
      qp_title_lookback = hours 72, qp_url_lookback = days 7, qp_identity_lookback = days 7, qp_cross_category = True,
      qp_subject = None\<rparr>"

end
