(* ===== verification/CandidateFilter.thy ===== *)
theory CandidateFilter
  imports SourcePolicy
begin

text \<open>
  The deterministic filter of candidate articles (\<open>filtering.py\<close>) over the read-only history (\<open>history.py\<close>): one
  result per candidate, decided by its policy, its URL, its source, its time, the batch before it and what the
  history has of its URL and title. What the database does, failures included, is the environment of the model.
  Shown: that every candidate gets its result, what a kept candidate has passed, that no URL is kept twice, that a
  history that fails decides nothing from then on, and the precedence of the source rules.
\<close>

section \<open>History\<close>

text \<open>
  The two tables the history reads; a text that is \<open>NULL\<close> is \<open>None\<close>. Each query sees the tables as they are when
  it runs.
\<close>

record article_row =
  ar_id :: string
  ar_title :: "string option"
  ar_snippet :: "string option"
  ar_url :: "string option"
  ar_basis :: "string option"
  ar_normalized :: "string option"

record observation_row =
  or_id :: string
  or_article :: string
  or_category :: string
  or_occurred_at :: string
  or_kind :: string
  or_event :: "string option"

record history_tables =
  ht_articles :: "article_row list"
  ht_observations :: "observation_row list"
  ht_versions :: "(string \<times> int) list"

datatype history_error = HistoryUnavailable | HistoryRaises exn

type_synonym 'a history_result = "history_error + 'a"

text \<open>
  What the outside does while candidate \<open>n\<close> is evaluated. \<open>he_open n\<close>: whether the database can be opened and
  probed; its last query, for the table of event versions, is not guarded and its exception escapes. \<open>he_query n q\<close>:
  the tables query \<open>q\<close> sees, \<open>None\<close> where SQLite raises.
\<close>

datatype history_open = OpenFails | ProbeRaises exn | Opened bool

datatype history_query = QUrl | QUrlVersion | QFetch | QFetchVersion | QIdentity | QIdentityVersion | QTitle | QTitleVersion

record history_env =
  he_open :: "nat \<Rightarrow> history_open"
  he_query :: "nat \<Rightarrow> history_query \<Rightarrow> history_tables option"

record filter_lib =
  fl_web :: weblib
  fl_iso :: "string \<Rightarrow> (instant \<times> int option) option"
  fl_local :: "instant \<Rightarrow> instant"

record history_match =
  hm_article_id :: string
  hm_observation_id :: string
  hm_category :: category
  hm_occurred_at :: string
  hm_title :: string
  hm_snippet :: string
  hm_url :: "string option"
  hm_basis :: string
  hm_event_id :: "string option"
  hm_event_version :: "int option"

definition or_empty :: "string option \<Rightarrow> string" where
  "or_empty s = (case s of Some t \<Rightarrow> t | None \<Rightarrow> [])"

definition max_version :: "(string \<times> int) list \<Rightarrow> string \<Rightarrow> int option" where
  "max_version vs k = (case map snd (filter (\<lambda>(e, n). e = k) vs) of [] \<Rightarrow> None | n # ns \<Rightarrow> Some (fold max ns n))"

text \<open>\<open>_history_match\<close>; the version of the event is one more query, if there is a table of versions.\<close>

definition event_version_of :: "bool \<Rightarrow> history_tables option \<Rightarrow> string option \<Rightarrow> int option history_result" where
  "event_version_of versions env event_id =
     (if or_empty event_id \<noteq> [] \<and> versions then
        (case env of
           None \<Rightarrow> Inl HistoryUnavailable
         | Some t \<Rightarrow> Inr (Some (case max_version (ht_versions t) (or_empty event_id) of Some n \<Rightarrow> n | None \<Rightarrow> 1)))
      else Inr None)"

definition make_history_match ::
  "bool \<Rightarrow> history_tables option \<Rightarrow> article_row \<times> observation_row \<Rightarrow> history_match history_result" where
  "make_history_match versions env row =
     (case row of (a, b) \<Rightarrow>
        bind_result (event_version_of versions env (or_event b)) (\<lambda>version.
          case category_of (or_category b) of
            Inl e \<Rightarrow> Inl (HistoryRaises e)
          | Inr c \<Rightarrow> Inr
              \<lparr>hm_article_id = ar_id a, hm_observation_id = or_id b, hm_category = c, hm_occurred_at = or_occurred_at b,
               hm_title = or_empty (ar_title a), hm_snippet = or_empty (ar_snippet a), hm_url = ar_url a,
               hm_basis = (if or_empty (ar_basis a) = [] then ''legacy'' else or_empty (ar_basis a)),
               hm_event_id = or_event b, hm_event_version = version\<rparr>))"

text \<open>The join of articles with their parsed observations, and the latest row of a selection.\<close>

definition joined :: "history_tables \<Rightarrow> (article_row \<times> observation_row) list" where
  "joined t = concat (map (\<lambda>a. map (Pair a)
     (filter (\<lambda>b. or_article b = ar_id a \<and> or_kind b = ''parsed_article'') (ht_observations t))) (ht_articles t))"

definition latest_row :: "(article_row \<times> observation_row) list \<Rightarrow> (article_row \<times> observation_row) option" where
  "latest_row rows =
     (case sort_key (\<lambda>(a, b). (or_occurred_at b, or_id b)) rows of [] \<Rightarrow> None | rs \<Rightarrow> Some (last rs))"

definition in_window :: "string \<times> string \<Rightarrow> observation_row \<Rightarrow> bool" where
  "in_window window b \<longleftrightarrow> fst window \<le> or_occurred_at b \<and> or_occurred_at b \<le> snd window"

text \<open>
  The window of a query, as texts. \<open>_parse_iso\<close> of the history reads a naive timestamp in the zone of the host; the
  subtraction raises before the year 1.
\<close>

definition history_instant :: "filter_lib \<Rightarrow> string \<Rightarrow> instant result" where
  "history_instant L ts =
     (case fl_iso L (if ends_with ''Z'' ts then butlast ts @ ''+00:00'' else ts) of
        None \<Rightarrow> Inl ValueError
      | Some (t, Some offset) \<Rightarrow> Inr t
      | Some (t, None) \<Rightarrow> Inr (fl_local L t))"

definition lookback_window :: "filter_lib \<Rightarrow> string \<Rightarrow> int \<Rightarrow> (string \<times> string) history_result" where
  "lookback_window L evaluated_at lookback =
     (case history_instant L evaluated_at of
        Inl e \<Rightarrow> Inl (HistoryRaises e)
      | Inr t \<Rightarrow> if t - lookback < 0 \<or> max_instant < t - lookback then Inl (HistoryRaises OverflowError)
          else Inr (iso_z (t - lookback), iso_z t))"

text \<open>One of the three searches: the query, its selection, and the match of its latest row.\<close>

definition search_history ::
  "filter_lib \<Rightarrow> bool \<Rightarrow> (history_query \<Rightarrow> history_tables option) \<Rightarrow> history_query \<Rightarrow> history_query \<Rightarrow>
   (article_row \<times> observation_row \<Rightarrow> bool) \<Rightarrow> string \<Rightarrow> int \<Rightarrow> history_match option history_result" where
  "search_history L versions env q qv select evaluated_at lookback =
     bind_result (lookback_window L evaluated_at lookback) (\<lambda>window.
       case env q of
         None \<Rightarrow> Inl HistoryUnavailable
       | Some t \<Rightarrow>
           (case latest_row (filter (\<lambda>r. select r \<and> in_window window (snd r)) (joined t)) of
              None \<Rightarrow> Inr None
            | Some row \<Rightarrow> bind_result (make_history_match versions (env qv) row) (\<lambda>m. Inr (Some m))))"

definition find_exact_url ::
  "filter_lib \<Rightarrow> bool \<Rightarrow> (history_query \<Rightarrow> history_tables option) \<Rightarrow> string \<Rightarrow> string \<Rightarrow> int \<Rightarrow> bool \<Rightarrow> string option \<Rightarrow>
   history_match option history_result" where
  "find_exact_url L versions env url evaluated_at lookback cross_category cat =
     (case lookback_window L evaluated_at lookback of
        Inl e \<Rightarrow> Inl e
      | Inr _ \<Rightarrow>
          if \<not> cross_category \<and> cat = None then Inl HistoryUnavailable
          else search_history L versions env QUrl QUrlVersion
            (\<lambda>(a, b). ar_url a = Some url \<and> (cross_category \<or> Some (or_category b) = cat)) evaluated_at lookback)"

definition find_exact_identity ::
  "filter_lib \<Rightarrow> bool \<Rightarrow> (history_query \<Rightarrow> history_tables option) \<Rightarrow> string \<Rightarrow> string \<Rightarrow> string \<Rightarrow> int \<Rightarrow>
   history_match option history_result" where
  "find_exact_identity L versions env identity cat evaluated_at lookback =
     search_history L versions env QIdentity QIdentityVersion
       (\<lambda>(a, b). ar_id a = identity \<and> or_category b = cat) evaluated_at lookback"

text \<open>\<open>lower(trim(...))\<close> of SQLite: spaces and ASCII letters only.\<close>

definition sql_lower_trim :: "string \<Rightarrow> string" where
  "sql_lower_trim s =
     map (\<lambda>c. let n = (of_char c :: nat) in if 65 \<le> n \<and> n \<le> 90 then char_of (n + 32) else c)
       (rev (dropWhile (\<lambda>c. c = CHR '' '') (rev (dropWhile (\<lambda>c. c = CHR '' '') s))))"

definition find_exact_title ::
  "filter_lib \<Rightarrow> bool \<Rightarrow> (history_query \<Rightarrow> history_tables option) \<Rightarrow> string \<Rightarrow> string \<Rightarrow> string \<Rightarrow> int \<Rightarrow>
   history_match option history_result" where
  "find_exact_title L versions env title cat evaluated_at lookback =
     search_history L versions env QTitle QTitleVersion
       (\<lambda>(a, b). map_option sql_lower_trim (ar_normalized a) = Some title \<and> or_category b = cat) evaluated_at lookback"

definition fetch_history_match ::
  "bool \<Rightarrow> (history_query \<Rightarrow> history_tables option) \<Rightarrow> string \<Rightarrow> string \<Rightarrow> history_match option history_result" where
  "fetch_history_match versions env article_id observation_id =
     (case env QFetch of
        None \<Rightarrow> Inl HistoryUnavailable
      | Some t \<Rightarrow>
          (case find (\<lambda>(a, b). ar_id a = article_id \<and> or_id b = observation_id) (joined t) of
             None \<Rightarrow> Inr None
           | Some row \<Rightarrow> bind_result (make_history_match versions (env QFetchVersion) row) (\<lambda>m. Inr (Some m))))"

section \<open>Candidates and results\<close>

datatype published_evidence = FromSource | FromMetadata | Missing | Unparseable

record candidate =
  ca_id :: string
  ca_category :: category
  ca_group :: string
  ca_title :: string
  ca_snippet :: string
  ca_original_url :: "string option"
  ca_canonical_url :: "string option"
  ca_published_at :: "string option"
  ca_evidence :: published_evidence
  ca_observed_at :: "string option"
  ca_evaluated_at :: string

datatype decision_code =
    KEEP | SUPPRESS_BATCH_EXACT | SUPPRESS_EXACT_URL | SUPPRESS_EXACT_IDENTITY | SUPPRESS_RECENT_TITLE | DROP_STALE
  | DROP_BLOCKED_SOURCE | DROP_NON_ARTICLE_URL | PENDING_MISSING_EVIDENCE | PENDING_INVALID_EVIDENCE
  | PENDING_POSSIBLE_UPDATE | PENDING_HISTORY_UNAVAILABLE

record filter_result =
  fr_candidate :: candidate
  fr_decision :: decision_code
  fr_reasons :: "reason_code list"
  fr_articles :: "string list"
  fr_observations :: "string list"
  fr_tier :: trust_tier
  fr_time :: "string option"
  fr_ordinal :: nat
  fr_date_evidence :: string
  fr_recency :: string
  fr_audit_only :: bool

definition FUTURE_TOLERANCE :: int where
  "FUTURE_TOLERANCE = hours 6"

text \<open>\<open>_normalize_text\<close>: folded, runs of white space as one space, stripped.\<close>

fun squeeze :: "bool \<Rightarrow> string \<Rightarrow> string" where
  "squeeze in_space [] = []"
| "squeeze in_space (c # s) =
     (if is_space c then (if in_space then squeeze True s else CHR '' '' # squeeze True s) else c # squeeze False s)"

definition normalize_text :: "string \<Rightarrow> string" where
  "normalize_text s = strip (squeeze False (casefold s))"

definition parse_iso :: "filter_lib \<Rightarrow> string \<Rightarrow> instant result" where
  "parse_iso L v =
     bind_result (validate_utc_iso (fl_iso L) v) (\<lambda>z.
       case fl_iso L (butlast z @ ''+00:00'') of Some (t, _) \<Rightarrow> Inr t | None \<Rightarrow> Inl ValueError)"

fun unique_reasons :: "reason_code list \<Rightarrow> reason_code list \<Rightarrow> reason_code list" where
  "unique_reasons known [] = []"
| "unique_reasons known (r # rs) = (if r \<in> set known then unique_reasons known rs else r # unique_reasons (r # known) rs)"

abbreviation unique :: "reason_code list \<Rightarrow> reason_code list" where
  "unique rs \<equiv> unique_reasons [] rs"

text \<open>\<open>_result\<close>, with the four values the call leaves at their defaults.\<close>

definition make_result ::
  "candidate \<Rightarrow> nat \<Rightarrow> decision_code \<Rightarrow> reason_code list \<Rightarrow> trust_tier \<Rightarrow> string option \<Rightarrow> history_match option \<Rightarrow>
   string \<Rightarrow> string \<Rightarrow> bool \<Rightarrow> filter_result" where
  "make_result c n decision reasons tier time m date_evidence recency audit_only =
     \<lparr>fr_candidate = c, fr_decision = decision, fr_reasons = unique reasons,
      fr_articles = (case m of Some h \<Rightarrow> [hm_article_id h] | None \<Rightarrow> []),
      fr_observations = (case m of Some h \<Rightarrow> [hm_observation_id h] | None \<Rightarrow> []),
      fr_tier = tier, fr_time = time, fr_ordinal = n, fr_date_evidence = date_evidence, fr_recency = recency, fr_audit_only = audit_only\<rparr>"

definition early_result :: "candidate \<Rightarrow> nat \<Rightarrow> decision_code \<Rightarrow> reason_code list \<Rightarrow> trust_tier \<Rightarrow> filter_result" where
  "early_result c n decision reasons tier = make_result c n decision reasons tier None None ''unknown'' ''unknown'' False"

record filter_context =
  fc_evaluated :: instant
  fc_url :: "string option"
  fc_title :: string
  fc_snippet :: string
  fc_identity :: "string option"

text \<open>\<open>_context\<close>: a context, or the result that ends the evaluation of the candidate.\<close>

definition none_if_empty :: "string option \<Rightarrow> string option" where
  "none_if_empty u = (if u = Some [] then None else u)"

definition candidate_url :: "filter_lib \<Rightarrow> candidate \<Rightarrow> (decision_code \<times> reason_code) + string option" where
  "candidate_url L c =
     (case bind_result (canonicalize_url (fl_web L) (none_if_empty (ca_canonical_url c))) (\<lambda>supplied.
           bind_result (canonicalize_url (fl_web L) (none_if_empty (ca_original_url c))) (\<lambda>original. Inr (supplied, original))) of
        Inl e \<Rightarrow> Inl (PENDING_INVALID_EVIDENCE, MALFORMED_CANONICAL_URL)
      | Inr (supplied, original) \<Rightarrow>
          if supplied \<noteq> None \<and> original \<noteq> None \<and> supplied \<noteq> original then Inl (PENDING_INVALID_EVIDENCE, CANONICAL_MISMATCH)
          else Inr (if none_if_empty supplied \<noteq> None then supplied else original))"

definition make_context :: "filter_lib \<Rightarrow> candidate \<Rightarrow> ((decision_code \<times> reason_code) + filter_context) result" where
  "make_context L c =
     (case parse_iso L (ca_evaluated_at c) of
        Inl e \<Rightarrow> Inr (Inl (PENDING_INVALID_EVIDENCE, INVALID_DATE))
      | Inr t \<Rightarrow>
          (case candidate_url L c of
             Inl p \<Rightarrow> Inr (Inl p)
           | Inr url \<Rightarrow>
               bind_result (case url of None \<Rightarrow> Inr None | Some u \<Rightarrow> non_article_url_reason (fl_web L) (Some u)) (\<lambda>route.
                 if route \<noteq> None then Inr (Inl (DROP_NON_ARTICLE_URL, NON_ARTICLE_URL))
                 else Inr (Inr \<lparr>fc_evaluated = t, fc_url = url, fc_title = normalize_text (ca_title c),
                     fc_snippet = normalize_text (ca_snippet c), fc_identity = None\<rparr>))))"

section \<open>Recency\<close>

record recency_outcome =
  ro_decision :: "decision_code option"
  ro_reasons :: "reason_code list"
  ro_time :: "string option"
  ro_date_evidence :: string
  ro_status :: string

definition invalid_date :: recency_outcome where
  "invalid_date = \<lparr>ro_decision = Some PENDING_INVALID_EVIDENCE, ro_reasons = [INVALID_DATE], ro_time = None,
     ro_date_evidence = ''unparseable'', ro_status = ''invalid''\<rparr>"

text \<open>The part of \<open>_recency\<close> that compares the chosen time with the time of evaluation.\<close>

definition judge_time :: "query_policy \<Rightarrow> instant \<Rightarrow> instant \<Rightarrow> reason_code list \<Rightarrow> string \<Rightarrow> recency_outcome" where
  "judge_time p evaluated chosen reasons date_evidence =
     (let time = Some (iso_z chosen); future = chosen - evaluated in
      if future > FUTURE_TOLERANCE then
        \<lparr>ro_decision = Some PENDING_INVALID_EVIDENCE, ro_reasons = [FUTURE_DATE, INVALID_DATE], ro_time = time,
         ro_date_evidence = date_evidence, ro_status = ''invalid''\<rparr>
      else
        let reasons = (if future > 0 then reasons @ [FUTURE_DATE_CLAMPED] else reasons);
            status = (if future > 0 then ''future_clamped'' else ''fresh'') in
        if evaluated - min chosen evaluated > qp_recency p then
          \<lparr>ro_decision = Some DROP_STALE, ro_reasons = unique (reasons @ [STALE]), ro_time = time,
           ro_date_evidence = date_evidence, ro_status = ''stale''\<rparr>
        else \<lparr>ro_decision = None, ro_reasons = reasons, ro_time = time, ro_date_evidence = date_evidence, ro_status = status\<rparr>)"

definition optional_iso :: "filter_lib \<Rightarrow> string option \<Rightarrow> instant option result" where
  "optional_iso L v = (case none_if_empty v of None \<Rightarrow> Inr None | Some s \<Rightarrow> bind_result (parse_iso L s) (\<lambda>t. Inr (Some t)))"

definition recency :: "filter_lib \<Rightarrow> query_policy \<Rightarrow> instant \<Rightarrow> candidate \<Rightarrow> recency_outcome" where
  "recency L p evaluated c =
     (if ca_evidence c = Unparseable then invalid_date
      else if ca_evidence c = Missing \<and> none_if_empty (ca_published_at c) \<noteq> None then invalid_date
      else (case bind_result (optional_iso L (ca_published_at c)) (\<lambda>published.
                 bind_result (optional_iso L (ca_observed_at c)) (\<lambda>observed. Inr (published, observed))) of
          Inl e \<Rightarrow> invalid_date
        | Inr (Some published, observed) \<Rightarrow>
            judge_time p evaluated published [] (if ca_evidence c = FromSource then ''source'' else ''metadata'')
        | Inr (None, observed) \<Rightarrow>
            (case observed of
               Some seen \<Rightarrow>
                 if qp_missing_date_fallback p then judge_time p evaluated seen [OK_OBSERVED_FALLBACK] ''observed_fallback''
                 else \<lparr>ro_decision = Some PENDING_MISSING_EVIDENCE, ro_reasons = [MISSING_DATE], ro_time = None,
                   ro_date_evidence = ''missing'', ro_status = ''missing''\<rparr>
             | None \<Rightarrow> \<lparr>ro_decision = Some PENDING_MISSING_EVIDENCE, ro_reasons = [MISSING_DATE], ro_time = None,
                 ro_date_evidence = ''missing'', ro_status = ''missing''\<rparr>)))"

section \<open>Evaluation\<close>

text \<open>What the loop keeps: the first signature of each URL and title of the batch, and the state of the history.\<close>

type_synonym signature = "string \<times> string"

record batch =
  ba_urls :: "string \<rightharpoonup> signature"
  ba_category_urls :: "category \<times> string \<rightharpoonup> signature"
  ba_titles :: "category \<times> string \<rightharpoonup> signature"
  ba_history :: "bool option"
  ba_failed :: bool

definition empty_batch :: batch where
  "empty_batch = \<lparr>ba_urls = (\<lambda>_. None), ba_category_urls = (\<lambda>_. None), ba_titles = (\<lambda>_. None), ba_history = None, ba_failed = False\<rparr>"

definition set_default :: "('k \<rightharpoonup> 'v) \<Rightarrow> 'k \<Rightarrow> 'v \<Rightarrow> ('k \<rightharpoonup> 'v)" where
  "set_default m k v = (case m k of Some _ \<Rightarrow> m | None \<Rightarrow> m(k \<mapsto> v))"

definition batch_match :: "batch \<Rightarrow> query_policy \<Rightarrow> category \<Rightarrow> filter_context \<Rightarrow> signature option" where
  "batch_match b p cat x =
     (case fc_url x of
        Some u \<Rightarrow> if qp_cross_category p then ba_urls b u else ba_category_urls b (cat, u)
      | None \<Rightarrow> ba_titles b (cat, fc_title x))"

definition remember :: "batch \<Rightarrow> category \<Rightarrow> filter_context \<Rightarrow> batch" where
  "remember b cat x =
     (let sig = (fc_title x, fc_snippet x) in
      case fc_url x of
        Some u \<Rightarrow> b\<lparr>ba_urls := set_default (ba_urls b) u sig, ba_category_urls := set_default (ba_category_urls b) (cat, u) sig\<rparr>
      | None \<Rightarrow> b\<lparr>ba_titles := set_default (ba_titles b) (cat, fc_title x) sig\<rparr>)"

text \<open>The history of the batch, opened when it is first needed; a failure is remembered.\<close>

definition open_for_batch :: "history_env \<Rightarrow> nat \<Rightarrow> batch \<Rightarrow> batch result" where
  "open_for_batch env n b =
     (if ba_history b = None \<and> \<not> ba_failed b then
        (case he_open env n of
           OpenFails \<Rightarrow> Inr (b\<lparr>ba_failed := True\<rparr>)
         | ProbeRaises e \<Rightarrow> Inl e
         | Opened versions \<Rightarrow> Inr (b\<lparr>ba_history := Some versions\<rparr>))
      else Inr b)"

text \<open>What the history says: the decision, its reasons and the match. \<close>

definition url_verdict ::
  "bool \<Rightarrow> (history_query \<Rightarrow> history_tables option) \<Rightarrow> filter_context \<Rightarrow> history_match \<Rightarrow>
   (decision_code \<times> reason_code list \<times> history_match option) history_result" where
  "url_verdict versions env x m =
     bind_result (fetch_history_match versions env (hm_article_id m) (hm_observation_id m)) (\<lambda>fetched.
       let latest = (case fetched of Some h \<Rightarrow> h | None \<Rightarrow> m);
           same = (normalize_text (hm_title latest) = fc_title x \<and> normalize_text (hm_snippet latest) = fc_snippet x) in
       Inr (if same then SUPPRESS_EXACT_URL else PENDING_POSSIBLE_UPDATE,
            [if same then HISTORY_EXACT_URL else HISTORY_URL_CHANGED_CONTENT], Some latest))"

definition identity_verdict ::
  "filter_lib \<Rightarrow> bool \<Rightarrow> (history_query \<Rightarrow> history_tables option) \<Rightarrow> query_policy \<Rightarrow> candidate \<Rightarrow> filter_context \<Rightarrow>
   history_match option history_result" where
  "identity_verdict L versions env p c x =
     (case fc_identity x of
        None \<Rightarrow> Inr None
      | Some i \<Rightarrow> find_exact_identity L versions env i (category_value (ca_category c)) (ca_evaluated_at c) (qp_identity_lookback p))"

definition title_verdict :: "filter_context \<Rightarrow> history_match \<Rightarrow> decision_code \<times> reason_code list \<times> history_match option" where
  "title_verdict x m =
     (if normalize_text (hm_snippet m) = fc_snippet x then (SUPPRESS_RECENT_TITLE, [HISTORY_RECENT_TITLE], Some m)
      else (PENDING_POSSIBLE_UPDATE,
            (if hm_basis m = ''title_only'' then [OK_TITLE_ONLY_LOW_CONFIDENCE] else []) @ [HISTORY_TITLE_CHANGED_SNIPPET], Some m))"

definition consult_history ::
  "filter_lib \<Rightarrow> bool \<Rightarrow> (history_query \<Rightarrow> history_tables option) \<Rightarrow> query_policy \<Rightarrow> candidate \<Rightarrow> filter_context \<Rightarrow> string \<Rightarrow>
   (decision_code \<times> reason_code list \<times> history_match option) history_result" where
  "consult_history L versions env p c x u =
     bind_result (find_exact_url L versions env u (ca_evaluated_at c) (qp_url_lookback p) (qp_cross_category p)
         (if qp_cross_category p then None else Some (category_value (ca_category c)))) (\<lambda>url_match.
       case url_match of
         Some m \<Rightarrow> url_verdict versions env x m
       | None \<Rightarrow>
           bind_result (identity_verdict L versions env p c x) (\<lambda>identity_match.
             case identity_match of
               Some m \<Rightarrow> Inr (SUPPRESS_EXACT_IDENTITY, [HISTORY_EXACT_IDENTITY], Some m)
             | None \<Rightarrow>
                 bind_result (find_exact_title L versions env (fc_title x) (category_value (ca_category c)) (ca_evaluated_at c)
                     (qp_title_lookback p)) (\<lambda>title_match.
                   Inr (case title_match of Some m \<Rightarrow> title_verdict x m | None \<Rightarrow> (KEEP, [], None)))))"

text \<open>A candidate whose source and time passed, from the comparison with the batch on.\<close>

definition settle ::
  "filter_lib \<Rightarrow> history_env \<Rightarrow> nat \<Rightarrow> query_policy \<Rightarrow> candidate \<Rightarrow> filter_context \<Rightarrow> trust_tier \<Rightarrow> reason_code list \<Rightarrow>
   recency_outcome \<Rightarrow> batch \<Rightarrow> (filter_result \<times> batch) result" where
  "settle L env n p c x tier base r b =
     (let res = (\<lambda>decision reasons m audit. make_result c n decision (base @ reasons) tier (ro_time r) m (ro_date_evidence r) (ro_status r) audit) in
      case batch_match b p (ca_category c) x of
        Some winner \<Rightarrow>
          Inr (res (if winner = (fc_title x, fc_snippet x) then SUPPRESS_BATCH_EXACT else PENDING_POSSIBLE_UPDATE)
            [WITHIN_BATCH_EXACT] None (fc_url x = None), b)
      | None \<Rightarrow>
          let b1 = remember b (ca_category c) x in
          (case fc_url x of
             None \<Rightarrow> Inr (res PENDING_MISSING_EVIDENCE [MISSING_URL] None True, b1)
           | Some u \<Rightarrow>
               bind_result (open_for_batch env n b1) (\<lambda>b2.
                 case (if ba_failed b2 then None else ba_history b2) of
                   None \<Rightarrow> Inr (res PENDING_HISTORY_UNAVAILABLE [HISTORY_UNAVAILABLE] None False, b2)
                 | Some versions \<Rightarrow>
                     (case consult_history L versions (he_query env n) p c x u of
                        Inl HistoryUnavailable \<Rightarrow>
                          Inr (res PENDING_HISTORY_UNAVAILABLE [HISTORY_UNAVAILABLE] None False, b2\<lparr>ba_failed := True\<rparr>)
                      | Inl (HistoryRaises e) \<Rightarrow> Inl e
                      | Inr (decision, reasons, m) \<Rightarrow> Inr (res decision reasons m False, b2)))))"

definition evaluate_candidate ::
  "filter_lib \<Rightarrow> history_env \<Rightarrow> source_rule list \<Rightarrow> (category \<rightharpoonup> query_policy) \<Rightarrow> nat \<Rightarrow> candidate \<Rightarrow> batch \<Rightarrow>
   (filter_result \<times> batch) result" where
  "evaluate_candidate L env rules policies n c b =
     (case policies (ca_category c) of
        None \<Rightarrow> Inr (early_result c n PENDING_INVALID_EVIDENCE [UNKNOWN_QUERY_GROUP] UnknownTier, b)
      | Some p \<Rightarrow>
          bind_result (make_context L c) (\<lambda>ctx.
            case ctx of
              Inl (decision, reason) \<Rightarrow> Inr (early_result c n decision [reason] UnknownTier, b)
            | Inr x \<Rightarrow>
                if ca_group c \<notin> set (qp_groups p)
                then Inr (early_result c n PENDING_INVALID_EVIDENCE [UNKNOWN_QUERY_GROUP] UnknownTier, b)
                else
                  let source = classify_source (fl_web L) rules (fc_url x) in
                  if sm_tier source = Blocked
                  then Inr (early_result c n DROP_BLOCKED_SOURCE [sm_reason source, OK_BLOCKED_SOURCE] (sm_tier source), b)
                  else
                    let r = recency L p (fc_evaluated x) c; base = unique (sm_reason source # ro_reasons r) in
                    (case ro_decision r of
                       Some decision \<Rightarrow>
                         Inr (make_result c n decision base (sm_tier source) (ro_time r) None (ro_date_evidence r) (ro_status r)
                           (fc_url x = None), b)
                     | None \<Rightarrow> settle L env n p c x (sm_tier source) base r b)))"

text \<open>The loop of \<open>evaluate_candidates\<close>; the ordinals count from one.\<close>

fun evaluate_loop ::
  "filter_lib \<Rightarrow> history_env \<Rightarrow> source_rule list \<Rightarrow> (category \<rightharpoonup> query_policy) \<Rightarrow> nat \<Rightarrow> candidate list \<Rightarrow> batch \<Rightarrow>
   filter_result list result" where
  "evaluate_loop L env rules policies n [] b = Inr []"
| "evaluate_loop L env rules policies n (c # cs) b =
     bind_result (evaluate_candidate L env rules policies n c b) (\<lambda>(r, b').
     bind_result (evaluate_loop L env rules policies (Suc n) cs b') (\<lambda>rs. Inr (r # rs)))"

definition evaluate_candidates ::
  "filter_lib \<Rightarrow> history_env \<Rightarrow> source_rule list \<Rightarrow> (category \<rightharpoonup> query_policy) \<Rightarrow> candidate list \<Rightarrow> filter_result list result" where
  "evaluate_candidates L env rules policies cs = evaluate_loop L env rules policies 1 cs empty_batch"

section \<open>Source classification\<close>

text \<open>The documented precedence: a block rule wins over everything, then allow, then trusted rules.\<close>

definition action_applies :: "source_rule list \<Rightarrow> string \<Rightarrow> string \<Rightarrow> bool" where
  "action_applies rules host action \<longleftrightarrow>
     list_ex (\<lambda>r. sr_action r = action \<and> (host = sr_host r \<or> sr_scope r = ''subdomain'' \<and> ends_with (''.'' @ sr_host r) host)) rules"

lemma find_None_list_ex: "find P xs = None \<longleftrightarrow> \<not> list_ex P xs"
  by (induction xs) auto

lemma first_match_tier:
  assumes "list_all (\<lambda>r. sr_scope r \<in> {''exact'', ''subdomain''}) rules"
  shows "sm_tier (first_match rules host PRECEDENCE) =
    (if action_applies rules host ''block'' then Blocked
     else if action_applies rules host ''allow'' then Allowed
     else if action_applies rules host ''trusted'' then Trusted else UnknownTier)"
proof -
  have a: "action_applies rules host action \<longleftrightarrow>
      find (rule_applies host action ''exact'') rules \<noteq> None \<or> find (rule_applies host action ''subdomain'') rules \<noteq> None" for action
    using assms unfolding action_applies_def find_None_list_ex
    by (induction rules) (auto simp: rule_applies_def host_matches_def)
  show ?thesis unfolding a PRECEDENCE_def by (auto split: option.splits)
qed

section \<open>The loop\<close>

lemma make_result_simps [simp]:
  "fr_decision (make_result c n d rs t ti m de st au) = d" "fr_candidate (make_result c n d rs t ti m de st au) = c"
  "fr_ordinal (make_result c n d rs t ti m de st au) = n" "fr_tier (make_result c n d rs t ti m de st au) = t"
  "fr_articles (make_result c n d rs t ti m de st au) = (case m of Some h \<Rightarrow> [hm_article_id h] | None \<Rightarrow> [])"
  by (simp_all add: make_result_def)

lemma early_result_simps [simp]:
  "fr_decision (early_result c n d rs t) = d" "fr_candidate (early_result c n d rs t) = c"
  "fr_ordinal (early_result c n d rs t) = n" "fr_tier (early_result c n d rs t) = t" "fr_articles (early_result c n d rs t) = []"
  by (simp_all add: early_result_def)

text \<open>Where a candidate's result comes from: before the batch is compared, or from it on.\<close>

definition passed_on ::
  "filter_lib \<Rightarrow> source_rule list \<Rightarrow> (category \<rightharpoonup> query_policy) \<Rightarrow> candidate \<Rightarrow> query_policy \<Rightarrow> filter_context \<Rightarrow> recency_outcome \<Rightarrow> bool" where
  "passed_on L rules policies c p x r \<longleftrightarrow> policies (ca_category c) = Some p \<and> make_context L c = Inr (Inr x) \<and> ca_group c \<in> set (qp_groups p) \<and>
     sm_tier (classify_source (fl_web L) rules (fc_url x)) \<noteq> Blocked \<and> r = recency L p (fc_evaluated x) c \<and> ro_decision r = None"

definition history_decision :: "decision_code \<Rightarrow> bool" where
  "history_decision d \<longleftrightarrow> d \<in> {KEEP, SUPPRESS_EXACT_URL, SUPPRESS_EXACT_IDENTITY, SUPPRESS_RECENT_TITLE}"

lemma judge_time_decision: "ro_decision (judge_time p e t rs de) = Some d \<Longrightarrow> d \<in> {PENDING_INVALID_EVIDENCE, DROP_STALE}"
  by (auto simp: judge_time_def Let_def split: if_splits)

lemma recency_decision: "ro_decision (recency L p e c) = Some d \<Longrightarrow> d \<in> {PENDING_INVALID_EVIDENCE, DROP_STALE, PENDING_MISSING_EVIDENCE}"
  by (auto simp: recency_def invalid_date_def split: if_splits sum.splits option.splits prod.splits dest: judge_time_decision)

lemma candidate_url_decision: "candidate_url L c = Inl (d, r) \<Longrightarrow> d = PENDING_INVALID_EVIDENCE"
  by (auto simp: candidate_url_def split: sum.splits prod.splits if_splits)

lemma context_decision: "make_context L c = Inr (Inl (d, r)) \<Longrightarrow> d \<in> {PENDING_INVALID_EVIDENCE, DROP_NON_ARTICLE_URL}"
  by (auto simp: make_context_def split: sum.splits if_splits dest: candidate_url_decision)

lemma evaluate_candidate_cases:
  assumes "evaluate_candidate L env rules policies n c b = Inr (res, b')"
  obtains (early) "b' = b" "\<not> history_decision (fr_decision res)" "fr_articles res = []" "fr_decision res \<noteq> PENDING_HISTORY_UNAVAILABLE"
    "fr_candidate res = c" "fr_ordinal res = n"
  | (settled) p x r where "passed_on L rules policies c p x r"
    "settle L env n p c x (sm_tier (classify_source (fl_web L) rules (fc_url x)))
       (unique (sm_reason (classify_source (fl_web L) rules (fc_url x)) # ro_reasons r)) r b = Inr (res, b')"
proof (cases "policies (ca_category c)")
  case None
  then show thesis using assms by (intro early) (auto simp: evaluate_candidate_def history_decision_def)
next
  case (Some p)
  then obtain ctx where ctx: "make_context L c = Inr ctx" using assms by (auto simp: evaluate_candidate_def)
  show thesis
  proof (cases ctx)
    case (Inl dr)
    obtain d r where dr: "dr = (d, r)" by (cases dr)
    have "res = early_result c n d [r] UnknownTier" "b' = b" using assms Some ctx by (simp_all add: evaluate_candidate_def Inl dr)
    then show thesis using context_decision [of L c d r] ctx by (intro early) (auto simp: Inl dr history_decision_def)
  next
    case (Inr x)
    let ?s = "classify_source (fl_web L) rules (fc_url x)" and ?r = "recency L p (fc_evaluated x) c"
    note eq = assms [unfolded evaluate_candidate_def Some option.case ctx bind_result.simps Inr sum.case Let_def]
    consider "ca_group c \<notin> set (qp_groups p) \<or> sm_tier ?s = Blocked"
      | d where "ca_group c \<in> set (qp_groups p)" "sm_tier ?s \<noteq> Blocked" "ro_decision ?r = Some d"
      | "ca_group c \<in> set (qp_groups p)" "sm_tier ?s \<noteq> Blocked" "ro_decision ?r = None"
      by (cases "ro_decision ?r") blast+
    then show thesis
    proof cases
      case 1
      then show thesis using eq by (intro early) (auto simp: history_decision_def split: if_splits)
    next
      case 2
      then show thesis using eq recency_decision [OF 2(3)] by (intro early) (auto simp: history_decision_def)
    next
      case 3
      then show thesis using eq Some ctx Inr by (intro settled [of p x ?r]) (simp_all add: passed_on_def)
    qed
  qed
qed

text \<open>The batch only grows: no signature is replaced, and a history that failed stays failed.\<close>

definition batch_le :: "batch \<Rightarrow> batch \<Rightarrow> bool" where
  "batch_le b b' \<longleftrightarrow> ba_urls b \<subseteq>\<^sub>m ba_urls b' \<and> ba_category_urls b \<subseteq>\<^sub>m ba_category_urls b' \<and> (ba_failed b \<longrightarrow> ba_failed b')"

lemma batch_le_refl [simp]: "batch_le b b"
  by (simp add: batch_le_def)

lemma batch_le_trans: "batch_le b c \<Longrightarrow> batch_le c d \<Longrightarrow> batch_le b d"
  unfolding batch_le_def by (elim conjE, intro conjI impI) (erule (1) map_le_trans, erule (1) map_le_trans, simp)

lemma set_default_le: "m \<subseteq>\<^sub>m set_default m k v"
  by (auto simp: set_default_def map_le_def split: option.splits)

lemma set_default_at: "set_default m k v k \<noteq> None"
  by (auto simp: set_default_def split: option.splits)

lemma remember_simps [simp]:
  "ba_history (remember b cat x) = ba_history b" "ba_failed (remember b cat x) = ba_failed b"
  by (auto simp: remember_def Let_def split: option.splits)

lemma remember_le: "batch_le b (remember b cat x)"
  by (auto simp: batch_le_def remember_def Let_def set_default_le split: option.splits)

lemma remember_at:
  "fc_url x = Some u \<Longrightarrow> ba_urls (remember b cat x) u \<noteq> None \<and> ba_category_urls (remember b cat x) (cat, u) \<noteq> None"
  by (simp add: remember_def Let_def set_default_at)

lemma open_for_batch_keeps:
  assumes "open_for_batch env n b = Inr b'"
  shows "ba_urls b' = ba_urls b" "ba_category_urls b' = ba_category_urls b" "ba_failed b \<Longrightarrow> ba_failed b'"
    "ba_failed b' \<or> ba_history b' \<noteq> None"
  using assms by (auto simp: open_for_batch_def split: if_splits history_open.splits)

lemma open_for_batch_le: "open_for_batch env n b = Inr b' \<Longrightarrow> batch_le b b'"
  using open_for_batch_keeps [of env n b b'] by (simp add: batch_le_def)

lemma url_verdict_decision:
  "url_verdict v env x m = Inr (d, rs, h) \<Longrightarrow> d \<in> {SUPPRESS_EXACT_URL, PENDING_POSSIBLE_UPDATE}"
  by (auto simp: url_verdict_def Let_def split: if_splits)

lemma title_verdict_decision: "fst (title_verdict x m) \<in> {SUPPRESS_RECENT_TITLE, PENDING_POSSIBLE_UPDATE}"
  by (simp add: title_verdict_def)

text \<open>The outcomes of the second part.\<close>

lemma settle_cases:
  assumes s: "settle L env n p c x tier base r b = Inr (res, b')"
  obtains (undecided) "batch_le b b'" "\<not> history_decision (fr_decision res)" "fr_articles res = []"
      "fr_decision res = PENDING_HISTORY_UNAVAILABLE \<Longrightarrow> ba_failed b'" "fr_candidate res = c" "fr_ordinal res = n"
    | (decided) u versions d reasons m where "fc_url x = Some u" "batch_match b p (ca_category c) x = None" "\<not> ba_failed b'"
      "batch_le (remember b (ca_category c) x) b'" "consult_history L versions (he_query env n) p c x u = Inr (d, reasons, m)"
      "fr_decision res = d" "fr_candidate res = c" "fr_ordinal res = n" "fr_tier res = tier"
proof -
  let ?b1 = "remember b (ca_category c) x"
  let ?res = "\<lambda>d rs m audit. make_result c n d (base @ rs) tier (ro_time r) m (ro_date_evidence r) (ro_status r) audit"
  note eq = s [unfolded settle_def Let_def]
  show thesis
  proof (cases "batch_match b p (ca_category c) x")
    case (Some winner)
    then show thesis using eq by (intro undecided) (auto simp: history_decision_def split: if_splits)
  next
    case None
    note eq = eq [unfolded None option.case]
    show thesis
    proof (cases "fc_url x")
      case None
      then show thesis using eq remember_le [of b "ca_category c" x] by (intro undecided) (auto simp: history_decision_def)
    next
      case (Some u)
      then obtain b2 where o: "open_for_batch env n ?b1 = Inr b2" using eq by auto
      have le: "batch_le ?b1 b2" "batch_le b b2" using open_for_batch_le [OF o] batch_le_trans [OF remember_le] by blast+
      note eq = eq [unfolded Some option.case o bind_result.simps]
      show thesis
      proof (cases "if ba_failed b2 then None else ba_history b2")
        case None
        then have "ba_failed b2" using open_for_batch_keeps(4) [OF o] by (auto split: if_splits)
        then show thesis using eq le by (intro undecided) (auto simp: history_decision_def)
      next
        case (Some versions)
        then have nf: "\<not> ba_failed b2" by (auto split: if_splits)
        note eq = eq [unfolded Some option.case]
        show thesis
        proof (cases "consult_history L versions (he_query env n) p c x u")
          case (Inl e)
          have "b' = b2\<lparr>ba_failed := True\<rparr>" "res = ?res PENDING_HISTORY_UNAVAILABLE [HISTORY_UNAVAILABLE] None False"
            using eq Inl by (cases e; simp)+
          then show thesis using le by (intro undecided) (auto simp: history_decision_def batch_le_def)
        next
          case (Inr drm)
          obtain d rs m where drm: "drm = (d, rs, m)" by (cases drm)
          have "b' = b2" "res = ?res d rs m False" using eq Inr by (simp_all add: drm)
          then show thesis using nf le Inr None \<open>fc_url x = Some u\<close> \<open>batch_match b p (ca_category c) x = None\<close>
            by (intro decided [of u versions d rs m]) (simp_all add: drm)
        qed
      qed
    qed
  qed
qed

text \<open>One candidate in terms of the batch.\<close>

lemma evaluate_candidate_le:
  assumes "evaluate_candidate L env rules policies n c b = Inr (res, b')"
  shows "batch_le b b'" "fr_candidate res = c" "fr_ordinal res = n"
proof -
  have "batch_le b b' \<and> fr_candidate res = c \<and> fr_ordinal res = n"
    using assms
  proof (cases rule: evaluate_candidate_cases)
    case (settled p x r)
    from settled(2) show ?thesis
    proof (cases rule: settle_cases)
      case (decided u versions d reasons m)
      then show ?thesis using batch_le_trans [OF remember_le] by blast
    qed simp
  qed simp
  then show "batch_le b b'" "fr_candidate res = c" "fr_ordinal res = n" by blast+
qed

lemma evaluate_loop_results:
  "evaluate_loop L env rules policies n cs b = Inr rs \<Longrightarrow> map fr_candidate rs = cs \<and> map fr_ordinal rs = [n..<n + length cs]"
proof (induction cs arbitrary: n b rs)
  case Nil
  then show ?case by simp
next
  case (Cons c cs)
  then obtain r b' rs' where "evaluate_candidate L env rules policies n c b = Inr (r, b')"
      "evaluate_loop L env rules policies (Suc n) cs b' = Inr rs'" "rs = r # rs'"
    by auto
  then show ?case using Cons.IH evaluate_candidate_le by (auto simp: upt_conv_Cons simp del: upt_Suc)
qed

text \<open>The state before the candidate at a position.\<close>

lemma evaluate_loop_ex:
  assumes "evaluate_loop L env rules policies n cs b = Inr rs" "i < length rs"
  shows "\<exists>bi bi'. batch_le b bi \<and> evaluate_candidate L env rules policies (n + i) (fr_candidate (rs ! i)) bi = Inr (rs ! i, bi') \<and>
     (\<forall>j. i < j \<longrightarrow> j < length rs \<longrightarrow> (\<exists>bj bj'. batch_le bi' bj \<and>
       evaluate_candidate L env rules policies (n + j) (fr_candidate (rs ! j)) bj = Inr (rs ! j, bj')))"
  using assms
proof (induction cs arbitrary: n b rs i)
  case Nil
  then show ?case by simp
next
  case (Cons c cs)
  from Cons.prems(1) obtain r b' rs' where e: "evaluate_candidate L env rules policies n c b = Inr (r, b')"
      and l: "evaluate_loop L env rules policies (Suc n) cs b' = Inr rs'" and rs: "rs = r # rs'"
    by auto
  note el = evaluate_candidate_le [OF e]
  show ?case
  proof (cases i)
    case 0
    have "\<exists>bj bj'. batch_le b' bj \<and> evaluate_candidate L env rules policies (n + j) (fr_candidate (rs ! j)) bj = Inr (rs ! j, bj')"
      if j: "0 < j" "j < length rs" for j
    proof -
      obtain k where k: "j = Suc k" "k < length rs'" using j rs by (cases j) auto
      from Cons.IH [OF l k(2)] show ?thesis by (auto simp: rs k(1))
    qed
    then show ?thesis using e el by (intro exI [of _ b] exI [of _ b']) (simp add: 0 rs)
  next
    case (Suc k)
    then have "k < length rs'" using Cons.prems(2) rs by simp
    from Cons.IH [OF l this] obtain bi bi' where k: "batch_le b' bi"
        "evaluate_candidate L env rules policies (Suc n + k) (fr_candidate (rs' ! k)) bi = Inr (rs' ! k, bi')"
        "\<forall>j. k < j \<longrightarrow> j < length rs' \<longrightarrow> (\<exists>bj bj'. batch_le bi' bj \<and>
           evaluate_candidate L env rules policies (Suc n + j) (fr_candidate (rs' ! j)) bj = Inr (rs' ! j, bj'))"
      by blast
    have "\<exists>bj bj'. batch_le bi' bj \<and> evaluate_candidate L env rules policies (n + j) (fr_candidate (rs ! j)) bj = Inr (rs ! j, bj')"
      if j: "i < j" "j < length rs" for j
    proof -
      obtain j' where j': "j = Suc j'" "k < j'" "j' < length rs'" using j rs Suc by (cases j) auto
      then show ?thesis using k(3) by (auto simp: rs)
    qed
    then show ?thesis using k(1,2) batch_le_trans [OF el(1)] by (intro exI [of _ bi] exI [of _ bi']) (auto simp: Suc rs)
  qed
qed

lemma evaluate_loop_nth:
  assumes "evaluate_loop L env rules policies n cs b = Inr rs" "i < length rs"
  obtains bi bi' where "evaluate_candidate L env rules policies (n + i) (cs ! i) bi = Inr (rs ! i, bi')"
proof -
  have "fr_candidate (rs ! i) = cs ! i" using evaluate_loop_results [OF assms(1)] assms(2) by (metis nth_map)
  then show thesis using evaluate_loop_ex [OF assms] that by metis
qed

lemma evaluate_loop_pair:
  assumes "evaluate_loop L env rules policies n cs b = Inr rs" "i < j" "j < length rs"
  obtains bi bi' bj bj' where "evaluate_candidate L env rules policies (n + i) (cs ! i) bi = Inr (rs ! i, bi')"
    "batch_le bi' bj" "evaluate_candidate L env rules policies (n + j) (cs ! j) bj = Inr (rs ! j, bj')"
proof -
  have i: "i < length rs" using assms(2,3) by simp
  have c: "fr_candidate (rs ! i) = cs ! i" "fr_candidate (rs ! j) = cs ! j"
    using evaluate_loop_results [OF assms(1)] i assms(3) by (metis nth_map)+
  obtain bi bi' where b: "evaluate_candidate L env rules policies (n + i) (fr_candidate (rs ! i)) bi = Inr (rs ! i, bi')"
      "\<forall>k. i < k \<longrightarrow> k < length rs \<longrightarrow> (\<exists>bj bj'. batch_le bi' bj \<and>
         evaluate_candidate L env rules policies (n + k) (fr_candidate (rs ! k)) bj = Inr (rs ! k, bj'))"
    using evaluate_loop_ex [OF assms(1) i] by (elim exE conjE) rule
  from b(2) [rule_format, OF assms(2,3)] obtain bj bj' where "batch_le bi' bj"
      "evaluate_candidate L env rules policies (n + j) (fr_candidate (rs ! j)) bj = Inr (rs ! j, bj')"
    by (elim exE conjE) rule
  with b(1) c show thesis using that by simp
qed

section \<open>What a kept candidate has passed\<close>

text \<open>The time a candidate is judged by, and the window it has to be in.\<close>

definition judged_time :: "filter_lib \<Rightarrow> query_policy \<Rightarrow> candidate \<Rightarrow> instant \<Rightarrow> bool" where
  "judged_time L p c t \<longleftrightarrow> optional_iso L (ca_published_at c) = Inr (Some t) \<or>
     optional_iso L (ca_published_at c) = Inr None \<and> optional_iso L (ca_observed_at c) = Inr (Some t) \<and> qp_missing_date_fallback p"

lemma judge_time_None:
  "ro_decision (judge_time p e t rs de) = None \<Longrightarrow> t \<le> e + FUTURE_TOLERANCE \<and> e - min t e \<le> qp_recency p"
  by (auto simp: judge_time_def Let_def split: if_splits)

lemma recency_None:
  assumes "ro_decision (recency L p e c) = None"
  obtains t where "judged_time L p c t" "t \<le> e + FUTURE_TOLERANCE" "e - min t e \<le> qp_recency p"
proof -
  let ?dates = "bind_result (optional_iso L (ca_published_at c)) (\<lambda>published.
                 bind_result (optional_iso L (ca_observed_at c)) (\<lambda>observed. Inr (published, observed)))"
  have ev: "\<not> (ca_evidence c = Unparseable)" "\<not> (ca_evidence c = Missing \<and> none_if_empty (ca_published_at c) \<noteq> None)"
    using assms by (auto simp: recency_def invalid_date_def split: if_splits)
  have eq: "recency L p e c = (case ?dates of
          Inl e \<Rightarrow> invalid_date
        | Inr (Some published, observed) \<Rightarrow>
            judge_time p e published [] (if ca_evidence c = FromSource then ''source'' else ''metadata'')
        | Inr (None, observed) \<Rightarrow>
            (case observed of
               Some seen \<Rightarrow>
                 if qp_missing_date_fallback p then judge_time p e seen [OK_OBSERVED_FALLBACK] ''observed_fallback''
                 else \<lparr>ro_decision = Some PENDING_MISSING_EVIDENCE, ro_reasons = [MISSING_DATE], ro_time = None,
                   ro_date_evidence = ''missing'', ro_status = ''missing''\<rparr>
             | None \<Rightarrow> \<lparr>ro_decision = Some PENDING_MISSING_EVIDENCE, ro_reasons = [MISSING_DATE], ro_time = None,
                 ro_date_evidence = ''missing'', ro_status = ''missing''\<rparr>))"
    unfolding recency_def if_not_P [OF ev(1)] if_not_P [OF ev(2)] ..
  show thesis
  proof (cases ?dates)
    case (Inl e')
    then show thesis using assms eq by (simp add: invalid_date_def)
  next
    case (Inr po)
    obtain pu ob where po: "po = (pu, ob)" by (cases po)
    have d: "optional_iso L (ca_published_at c) = Inr pu" "optional_iso L (ca_observed_at c) = Inr ob"
      using Inr by (auto simp: po)
    note eq = eq [unfolded Inr po sum.case prod.case]
    show thesis
    proof (cases pu)
      case (Some t)
      then show thesis using assms eq d judge_time_None by (intro that [of t]) (auto simp: judged_time_def)
    next
      case None
      then obtain t where "ob = Some t" "qp_missing_date_fallback p"
        using assms eq by (cases ob) (auto split: if_splits)
      then show thesis using assms eq d None judge_time_None by (intro that [of t]) (auto simp: judged_time_def)
    qed
  qed
qed

text \<open>No row of a table in the window of a lookup that found nothing.\<close>

definition no_row :: "filter_lib \<Rightarrow> history_tables \<Rightarrow> (article_row \<times> observation_row \<Rightarrow> bool) \<Rightarrow> string \<Rightarrow> int \<Rightarrow> bool" where
  "no_row L t select evaluated_at lookback \<longleftrightarrow>
     (\<exists>w. lookback_window L evaluated_at lookback = Inr w \<and> (\<forall>r \<in> set (joined t). \<not> (select r \<and> in_window w (snd r))))"

lemma latest_row_None: "latest_row rows = None \<longleftrightarrow> rows = []"
proof -
  have "sort_key (\<lambda>(a, b). (or_occurred_at b, or_id b)) rows = [] \<longleftrightarrow> rows = []" by (metis length_0_conv length_sort)
  then show ?thesis by (auto simp: latest_row_def split: list.splits)
qed

lemma search_history_None:
  assumes "search_history L versions env q qv select evaluated_at lookback = Inr None"
  obtains t where "env q = Some t" "no_row L t select evaluated_at lookback"
proof -
  from assms obtain w where w0: "lookback_window L evaluated_at lookback = Inr w"
    by (cases "lookback_window L evaluated_at lookback") (auto simp: search_history_def)
  with assms obtain t where w: "lookback_window L evaluated_at lookback = Inr w" and t: "env q = Some t"
      and n: "latest_row (filter (\<lambda>r. select r \<and> in_window w (snd r)) (joined t)) = None"
    by (cases "env q"; cases "latest_row (filter (\<lambda>r. select r \<and> in_window w (snd r)) (joined (the (env q))))") (auto simp: search_history_def)
  then show thesis using that [of t] by (auto simp: no_row_def latest_row_None filter_empty_conv)
qed

lemma find_exact_url_None:
  assumes "find_exact_url L versions env u at_time lookback cross (if cross then None else Some k) = Inr None"
  obtains t where "env QUrl = Some t" "no_row L t (\<lambda>(a, b). ar_url a = Some u \<and> (cross \<or> or_category b = k)) at_time lookback"
proof -
  have "search_history L versions env QUrl QUrlVersion
      (\<lambda>(a, b). ar_url a = Some u \<and> (cross \<or> Some (or_category b) = (if cross then None else Some k))) at_time lookback = Inr None"
    using assms by (cases cross) (auto simp: find_exact_url_def split: sum.splits)
  then obtain t where "env QUrl = Some t" "no_row L t
      (\<lambda>(a, b). ar_url a = Some u \<and> (cross \<or> Some (or_category b) = (if cross then None else Some k))) at_time lookback"
    by (rule search_history_None)
  then show thesis using that [of t] by (cases cross) simp_all
qed

text \<open>The verdict \<open>KEEP\<close>: neither search found anything.\<close>

lemma consult_history_KEEP:
  assumes "consult_history L versions env p c x u = Inr (KEEP, rs, m)"
  shows "find_exact_url L versions env u (ca_evaluated_at c) (qp_url_lookback p) (qp_cross_category p)
      (if qp_cross_category p then None else Some (category_value (ca_category c))) = Inr None"
    "find_exact_title L versions env (fc_title x) (category_value (ca_category c)) (ca_evaluated_at c) (qp_title_lookback p) = Inr None"
proof -
  let ?url = "find_exact_url L versions env u (ca_evaluated_at c) (qp_url_lookback p) (qp_cross_category p)
      (if qp_cross_category p then None else Some (category_value (ca_category c)))"
  let ?title = "find_exact_title L versions env (fc_title x) (category_value (ca_category c)) (ca_evaluated_at c) (qp_title_lookback p)"
  obtain um where um: "?url = Inr um" using assms by (cases ?url) (auto simp: consult_history_def)
  have "um = None"
  proof (cases um)
    case (Some h)
    then have "url_verdict versions env x h = Inr (KEEP, rs, m)" using assms um by (simp add: consult_history_def)
    then show ?thesis using url_verdict_decision by force
  qed simp
  then obtain i where i: "identity_verdict L versions env p c x = Inr i" and "i = None"
    using assms um by (cases "identity_verdict L versions env p c x") (auto simp: consult_history_def split: option.splits)
  then obtain tm where tm: "?title = Inr tm" and "(case tm of Some m \<Rightarrow> title_verdict x m | None \<Rightarrow> (KEEP, [], None)) = (KEEP, rs, m)"
    using assms um \<open>um = None\<close> by (cases ?title) (auto simp: consult_history_def)
  moreover have "tm = None"
  proof (cases tm)
    case (Some h)
    then have "fst (title_verdict x h) = KEEP" using calculation(2) by simp
    then show ?thesis using title_verdict_decision [of x h] by simp
  qed simp
  ultimately show "?url = Inr None" "?title = Inr None" using um \<open>um = None\<close> by simp_all
qed

lemma evaluate_candidate_KEEP:
  assumes e: "evaluate_candidate L env rules policies n c b = Inr (res, b')" and keep: "fr_decision res = KEEP"
  obtains p x r u versions where "passed_on L rules policies c p x r" "fc_url x = Some u" "\<not> ba_failed b'"
    "batch_match b p (ca_category c) x = None" "batch_le (remember b (ca_category c) x) b'"
    "find_exact_url L versions (he_query env n) u (ca_evaluated_at c) (qp_url_lookback p) (qp_cross_category p)
      (if qp_cross_category p then None else Some (category_value (ca_category c))) = Inr None"
    "find_exact_title L versions (he_query env n) (fc_title x) (category_value (ca_category c)) (ca_evaluated_at c) (qp_title_lookback p) = Inr None"
    "fr_tier res = sm_tier (classify_source (fl_web L) rules (fc_url x))"
  using e
proof (cases rule: evaluate_candidate_cases)
  case early
  then show thesis using keep by (simp add: history_decision_def)
next
  case (settled p x r)
  from settled(2) show thesis
  proof (cases rule: settle_cases)
    case undecided
    then show thesis using keep by (simp add: history_decision_def)
  next
    case (decided u versions d reasons m)
    then have k: "consult_history L versions (he_query env n) p c x u = Inr (KEEP, reasons, m)" using keep by simp
    show thesis
      by (rule that [OF settled(1) decided(1,3,2,4) consult_history_KEEP(1) [OF k] consult_history_KEEP(2) [OF k] decided(9)])
  qed
qed

lemma context_article:
  assumes "make_context L c = Inr (Inr x)" "fc_url x = Some u"
  shows "non_article_url_reason (fl_web L) (Some u) = Inr None" "fc_identity x = None"
proof -
  obtain t where t: "parse_iso L (ca_evaluated_at c) = Inr t" using assms(1) by (cases "parse_iso L (ca_evaluated_at c)") (auto simp: make_context_def)
  obtain url where url: "candidate_url L c = Inr url" using assms(1) t by (cases "candidate_url L c") (auto simp: make_context_def)
  then have "url = Some u" "non_article_url_reason (fl_web L) (Some u) = Inr None \<and> fc_identity x = None"
    using assms t by (cases url; auto simp: make_context_def split: if_splits)+
  then show "non_article_url_reason (fl_web L) (Some u) = Inr None" "fc_identity x = None" by blast+
qed

text \<open>Nothing sets the identity of a candidate, so a result is never suppressed by identity.\<close>

lemma identity_never_decides:
  assumes e: "evaluate_candidate L env rules policies n c b = Inr (res, b')"
  shows "fr_decision res \<noteq> SUPPRESS_EXACT_IDENTITY"
  using e
proof (cases rule: evaluate_candidate_cases)
  case early
  then show ?thesis by (auto simp: history_decision_def)
next
  case (settled p x r)
  from settled(2) show ?thesis
  proof (cases rule: settle_cases)
    case undecided
    then show ?thesis by (auto simp: history_decision_def)
  next
    case (decided u versions d reasons m)
    have "fc_identity x = None" using settled(1) decided(1) context_article(2) by (auto simp: passed_on_def)
    then have "d \<noteq> SUPPRESS_EXACT_IDENTITY"
      using decided(5) url_verdict_decision [of versions "he_query env n" x _ d reasons m] title_verdict_decision [of x]
      by (auto simp: consult_history_def identity_verdict_def split: option.splits) (metis fst_conv decision_code.simps insertE singletonD)+
    then show ?thesis using decided(6) by simp
  qed
qed

section \<open>Properties\<close>

text \<open>
  Every candidate gets one result, in the order of the input, with its position counted from one; whatever is
  dropped, suppressed or pending stays in the answer.
\<close>

theorem results_complete:
  assumes "evaluate_candidates L env rules policies cs = Inr rs"
  shows "map fr_candidate rs = cs" "map fr_ordinal rs = [1..<Suc (length cs)]"
  using evaluate_loop_results [OF assms [unfolded evaluate_candidates_def]] by auto

text \<open>
  C8: A kept candidate has passed every check: its category has a policy that knows its query group, it has a canonical
  article URL whose source is not blocked, it was published (or, where the policy allows it, observed) no more than
  six hours after and no longer than the policy's window before the time of evaluation, and neither its URL nor its
  title was in the history within the lookbacks.
\<close>

theorem kept_is_checked:
  assumes "evaluate_candidates L env rules policies cs = Inr rs" "i < length rs" "fr_decision (rs ! i) = KEEP"
  shows "\<exists>p x u t T T'. policies (ca_category (cs ! i)) = Some p \<and> ca_group (cs ! i) \<in> set (qp_groups p) \<and>
     make_context L (cs ! i) = Inr (Inr x) \<and> fc_url x = Some u \<and> non_article_url_reason (fl_web L) (Some u) = Inr None \<and>
     sm_tier (classify_source (fl_web L) rules (Some u)) \<noteq> Blocked \<and>
     judged_time L p (cs ! i) t \<and> t \<le> fc_evaluated x + hours 6 \<and> fc_evaluated x - min t (fc_evaluated x) \<le> qp_recency p \<and>
     he_query env (Suc i) QUrl = Some T \<and>
     no_row L T (\<lambda>(a, b). ar_url a = Some u \<and> (qp_cross_category p \<or> or_category b = category_value (ca_category (cs ! i))))
       (ca_evaluated_at (cs ! i)) (qp_url_lookback p) \<and>
     he_query env (Suc i) QTitle = Some T' \<and>
     no_row L T' (\<lambda>(a, b). map_option sql_lower_trim (ar_normalized a) = Some (fc_title x) \<and>
         or_category b = category_value (ca_category (cs ! i))) (ca_evaluated_at (cs ! i)) (qp_title_lookback p)"
proof -
  note loop = assms(1) [unfolded evaluate_candidates_def]
  let ?c = "cs ! i"
  obtain bi bi' where e: "evaluate_candidate L env rules policies (1 + i) ?c bi = Inr (rs ! i, bi')"
    by (rule evaluate_loop_nth [OF loop assms(2)])
  then obtain p x r u versions where pass: "passed_on L rules policies ?c p x r" and u: "fc_url x = Some u"
    and url: "find_exact_url L versions (he_query env (1 + i)) u (ca_evaluated_at ?c) (qp_url_lookback p) (qp_cross_category p)
      (if qp_cross_category p then None else Some (category_value (ca_category ?c))) = Inr None"
    and title: "find_exact_title L versions (he_query env (1 + i)) (fc_title x) (category_value (ca_category ?c)) (ca_evaluated_at ?c)
      (qp_title_lookback p) = Inr None"
    by (rule evaluate_candidate_KEEP [OF _ assms(3)]) blast
  obtain T where T: "he_query env (Suc i) QUrl = Some T" "no_row L T (\<lambda>(a, b). ar_url a = Some u \<and>
      (qp_cross_category p \<or> or_category b = category_value (ca_category ?c))) (ca_evaluated_at ?c) (qp_url_lookback p)"
    using find_exact_url_None [OF url] by auto
  obtain T' where T': "he_query env (Suc i) QTitle = Some T'" "no_row L T' (\<lambda>(a, b). map_option sql_lower_trim (ar_normalized a) = Some (fc_title x) \<and>
         or_category b = category_value (ca_category ?c)) (ca_evaluated_at ?c) (qp_title_lookback p)"
    using search_history_None [OF title [unfolded find_exact_title_def]] by auto
  have "ro_decision (recency L p (fc_evaluated x) ?c) = None" using pass by (auto simp: passed_on_def)
  then obtain t where t: "judged_time L p ?c t" "t \<le> fc_evaluated x + FUTURE_TOLERANCE" "fc_evaluated x - min t (fc_evaluated x) \<le> qp_recency p"
    by (rule recency_None)
  have ctx: "policies (ca_category ?c) = Some p" "ca_group ?c \<in> set (qp_groups p)" "make_context L ?c = Inr (Inr x)"
      "sm_tier (classify_source (fl_web L) rules (Some u)) \<noteq> Blocked" using pass u by (auto simp: passed_on_def)
  show ?thesis
    by (rule exI [of _ p], rule exI [of _ x], rule exI [of _ u], rule exI [of _ t], rule exI [of _ T], rule exI [of _ T'])
      (use ctx u context_article(1) [OF ctx(3) u] t T T' in \<open>simp add: FUTURE_TOLERANCE_def\<close>)
qed

text \<open>
  C38: Of two kept candidates of one category in a batch the canonical URLs differ, and of two of different categories
  when the policy of the later one compares across categories (\<open>cross_category_exact_url\<close>). Without that setting a
  URL may be kept once per category.
\<close>

theorem kept_urls_distinct:
  assumes "evaluate_candidates L env rules policies cs = Inr rs" "i < j" "j < length rs"
    "fr_decision (rs ! i) = KEEP" "fr_decision (rs ! j) = KEEP"
    "make_context L (cs ! i) = Inr (Inr x)" "make_context L (cs ! j) = Inr (Inr y)" "policies (ca_category (cs ! j)) = Some p"
    "qp_cross_category p \<or> ca_category (cs ! i) = ca_category (cs ! j)"
  shows "fc_url x \<noteq> fc_url y"
proof
  assume same: "fc_url x = fc_url y"
  note loop = assms(1) [unfolded evaluate_candidates_def]
  obtain bi bi' bj bj' where ei: "evaluate_candidate L env rules policies (1 + i) (cs ! i) bi = Inr (rs ! i, bi')"
      and le: "batch_le bi' bj" and ej: "evaluate_candidate L env rules policies (1 + j) (cs ! j) bj = Inr (rs ! j, bj')"
    by (rule evaluate_loop_pair [OF loop assms(2,3)])
  obtain u where u: "fc_url x = Some u" "batch_le (remember bi (ca_category (cs ! i)) x) bi'"
    by (rule evaluate_candidate_KEEP [OF ei assms(4)]) (use assms(6) in \<open>auto simp: passed_on_def\<close>)
  have none: "batch_match bj p (ca_category (cs ! j)) y = None"
    by (rule evaluate_candidate_KEEP [OF ej assms(5)]) (use assms(7,8) in \<open>auto simp: passed_on_def\<close>)
  have "batch_le (remember bi (ca_category (cs ! i)) x) bj" using u(2) le batch_le_trans by blast
  then have "ba_urls bj u \<noteq> None" "ba_category_urls bj (ca_category (cs ! i), u) \<noteq> None"
    using remember_at [OF u(1), of bi "ca_category (cs ! i)"] unfolding batch_le_def map_le_def by (metis domIff)+
  moreover have "fc_url y = Some u" using same u(1) by simp
  ultimately show False using none assms(9) by (auto simp: batch_match_def split: if_splits)
qed

text \<open>
  C14: A history that cannot be read never decides: once a candidate is pending because the history is unavailable, no
  later candidate of the batch is kept or suppressed by history, and none is matched with an article.
\<close>

theorem history_failure_is_final:
  assumes "evaluate_candidates L env rules policies cs = Inr rs" "i < j" "j < length rs"
    "fr_decision (rs ! i) = PENDING_HISTORY_UNAVAILABLE"
  shows "fr_decision (rs ! j) \<notin> {KEEP, SUPPRESS_EXACT_URL, SUPPRESS_EXACT_IDENTITY, SUPPRESS_RECENT_TITLE} \<and> fr_articles (rs ! j) = []"
proof -
  note loop = assms(1) [unfolded evaluate_candidates_def]
  obtain bi bi' bj bj' where ei: "evaluate_candidate L env rules policies (1 + i) (cs ! i) bi = Inr (rs ! i, bi')"
      and le: "batch_le bi' bj" and ej: "evaluate_candidate L env rules policies (1 + j) (cs ! j) bj = Inr (rs ! j, bj')"
    by (rule evaluate_loop_pair [OF loop assms(2,3)])
  have "ba_failed bi'"
    using ei
  proof (cases rule: evaluate_candidate_cases)
    case early
    then show ?thesis using assms(4) by simp
  next
    case (settled p x r)
    from settled(2) show ?thesis
    proof (cases rule: settle_cases)
      case undecided
      then show ?thesis using assms(4) by simp
    next
      case (decided u versions d reasons m)
      have "d \<noteq> PENDING_HISTORY_UNAVAILABLE"
        using decided(5) url_verdict_decision [of versions "he_query env (1 + i)" x _ d reasons m] title_verdict_decision [of x]
        by (auto simp: consult_history_def split: option.splits) (metis fst_conv decision_code.simps insertE singletonD)+
      then show ?thesis using decided(6) assms(4) by simp
    qed
  qed
  then have failed: "ba_failed bj" using le by (simp add: batch_le_def)
  have "\<not> history_decision (fr_decision (rs ! j)) \<and> fr_articles (rs ! j) = []"
    using ej
  proof (cases rule: evaluate_candidate_cases)
    case (settled p x r)
    from settled(2) show ?thesis
    proof (cases rule: settle_cases)
      case (decided u versions d reasons m)
      then have "ba_failed bj'" using failed remember_le [of bj] by (simp add: batch_le_def)
      then show ?thesis using decided(3) by simp
    qed simp
  qed simp
  then show ?thesis by (simp add: history_decision_def)
qed

text \<open>
  C39: The tier of a source follows the documented precedence: a block rule for the host or a parent domain wins over
  everything else, then allow rules, then trusted rules; a host is matched exactly or at a label boundary.
\<close>

theorem classify_source_precedence:
  assumes "canonical_host W (Some url) = Some host" "url \<noteq> []" "list_all (\<lambda>r. sr_scope r \<in> {''exact'', ''subdomain''}) rules"
  shows "sm_tier (classify_source W rules (Some url)) =
    (if action_applies rules host ''block'' then Blocked
     else if action_applies rules host ''allow'' then Allowed
     else if action_applies rules host ''trusted'' then Trusted else UnknownTier)"
  using assms first_match_tier [OF assms(3)] by (simp add: classify_source_def)

section \<open>An example\<close>

text \<open>URLs on one host, their path everything after it; every timestamp is the first instant of the year 1000.\<close>

definition cf_origin :: string where
  "cf_origin = ''http://a.example''"

definition cf_parts :: "string \<Rightarrow> url_parts" where
  "cf_parts u = \<lparr>u_scheme = ''http'', u_netloc = ''a.example'', u_path = drop 16 u, u_query = [], u_fragment = [],
     u_hostname = Some ''a.example'', u_port = Inr None\<rparr>"

definition cf_web :: weblib where
  "cf_web = \<lparr>w_split = (\<lambda>u. Inr (cf_parts u)), w_unsplit = (\<lambda>(sc, h, p, q, f). sc @ ''://'' @ h @ p), w_idna = Some, w_quote = (\<lambda>p. p),
     w_query = (\<lambda>q. []), w_urlencode = (\<lambda>kvs. [])\<rparr>"

definition cf_lib :: filter_lib where
  "cf_lib = \<lparr>fl_web = cf_web, fl_iso = (\<lambda>s. Some (min_text_instant, Some 0)), fl_local = (\<lambda>t. t)\<rparr>"

definition cf_env :: "(nat \<Rightarrow> history_open) \<Rightarrow> history_env" where
  "cf_env opens = \<lparr>he_open = opens, he_query = (\<lambda>n q. Some \<lparr>ht_articles = [], ht_observations = [], ht_versions = []\<rparr>)\<rparr>"

definition cf_candidate :: "string \<Rightarrow> candidate" where
  "cf_candidate path = \<lparr>ca_id = path, ca_category = AI, ca_group = ''ai'', ca_title = path, ca_snippet = path,
     ca_original_url = Some (cf_origin @ path), ca_canonical_url = None, ca_published_at = Some ''Z'', ca_evidence = FromSource,
     ca_observed_at = None, ca_evaluated_at = ''Z''\<rparr>"

definition cf_rules :: "source_rule list" where
  "cf_rules = [\<lparr>sr_label = ''r'', sr_host = ''example'', sr_scope = ''subdomain'', sr_action = ''allow''\<rparr>]"

lemma cf_iso: "parse_iso cf_lib ''Z'' = Inr min_text_instant"
  by (simp add: parse_iso_def validate_utc_iso_def cf_lib_def ends_with_def starts_with_def)

lemma cf_window: "0 \<le> d \<Longrightarrow> d \<le> days 14 \<Longrightarrow> \<exists>w. lookback_window cf_lib ''Z'' d = Inr w"
  by (simp add: lookback_window_def history_instant_def cf_lib_def min_text_instant_def max_instant_def days_def us_per_day_def)

lemma cf_search:
  assumes "0 \<le> d" "d \<le> days 14"
  shows "search_history cf_lib v (he_query (cf_env opens) n) q qv sel ''Z'' d = Inr None"
  using cf_window [OF assms] by (auto simp: search_history_def cf_env_def joined_def latest_row_def)

lemma cf_url:
  assumes "path \<in> {''/x'', ''/y''}"
  shows "canonicalize_url cf_web (Some (cf_origin @ path)) = Inr (Some (cf_origin @ path))"
    "non_article_url_reason cf_web (Some (cf_origin @ path)) = Inr None"
    "classify_source cf_web cf_rules (Some (cf_origin @ path)) = \<lparr>sm_tier = Allowed, sm_reason = OK_KEEP, sm_rule = Some ''r''\<rparr>"
  using assms by (elim insertE emptyE; clarify; code_simp)+

lemma cf_context:
  assumes "path \<in> {''/x'', ''/y''}"
  shows "make_context cf_lib (cf_candidate path) = Inr (Inr \<lparr>fc_evaluated = min_text_instant, fc_url = Some (cf_origin @ path),
    fc_title = normalize_text path, fc_snippet = normalize_text path, fc_identity = None\<rparr>)"
proof -
  have "fl_web cf_lib = cf_web" by (simp add: cf_lib_def)
  moreover have "cf_origin \<noteq> []" by (simp add: cf_origin_def)
  moreover have "canonicalize_url cf_web None = Inr None" by (simp add: canonicalize_url_def)
  ultimately show ?thesis
    using cf_iso cf_url [OF assms] by (simp add: make_context_def candidate_url_def cf_candidate_def none_if_empty_def)
qed

definition cf_policy :: query_policy where
  "cf_policy = the (default_query_policies AI)"

lemma cf_policy: "default_query_policies AI = Some cf_policy" "qp_groups cf_policy = [''ai'']" "qp_cross_category cf_policy"
  "qp_url_lookback cf_policy = days 7" "qp_title_lookback cf_policy = hours 72" "qp_recency cf_policy = hours 72"
  by (simp_all add: cf_policy_def default_query_policies_def default_recency_def)

lemma cf_recency: "recency cf_lib cf_policy min_text_instant (cf_candidate path) =
   \<lparr>ro_decision = None, ro_reasons = [], ro_time = Some (iso_z min_text_instant), ro_date_evidence = ''source'', ro_status = ''fresh''\<rparr>"
  by (simp add: recency_def cf_candidate_def optional_iso_def none_if_empty_def cf_iso judge_time_def FUTURE_TOLERANCE_def hours_def
      cf_policy)

lemma cf_consult:
  assumes "fc_identity x = None"
  shows "consult_history cf_lib v (he_query (cf_env opens) n) cf_policy (cf_candidate path) x u = Inr (KEEP, [], None)"
proof -
  have w: "\<exists>w. lookback_window cf_lib ''Z'' (days 7) = Inr w" by (rule cf_window) (simp_all add: days_def us_per_day_def)
  have s: "search_history cf_lib v (he_query (cf_env opens) n) q qv sel ''Z'' (days 7) = Inr None"
    "search_history cf_lib v (he_query (cf_env opens) n) q qv sel ''Z'' (hours 72) = Inr None" for q qv sel
    by (rule cf_search; simp add: days_def hours_def us_per_day_def)+
  show ?thesis
    using w s assms by (auto simp: consult_history_def find_exact_url_def find_exact_title_def identity_verdict_def cf_candidate_def
        cf_policy)
qed

lemma cf_candidate_simps [simp]: "ca_category (cf_candidate path) = AI" "ca_group (cf_candidate path) = ''ai''"
  by (simp_all add: cf_candidate_def)

lemma cf_evaluate:
  assumes p: "path \<in> {''/x'', ''/y''}" and b: "ba_urls b (cf_origin @ path) = None"
    and o: "open_for_batch (cf_env opens) n (remember b AI \<lparr>fc_evaluated = min_text_instant, fc_url = Some (cf_origin @ path),
      fc_title = normalize_text path, fc_snippet = normalize_text path, fc_identity = None\<rparr>) = Inr b2"
  shows "\<exists>res b'. evaluate_candidate cf_lib (cf_env opens) cf_rules default_query_policies n (cf_candidate path) b = Inr (res, b') \<and>
     fr_decision res = (if ba_failed b2 \<or> ba_history b2 = None then PENDING_HISTORY_UNAVAILABLE else KEEP) \<and> b' = b2"
proof -
  let ?x = "\<lparr>fc_evaluated = min_text_instant, fc_url = Some (cf_origin @ path),
      fc_title = normalize_text path, fc_snippet = normalize_text path, fc_identity = None\<rparr>"
  let ?r = "\<lparr>ro_decision = None, ro_reasons = [], ro_time = Some (iso_z min_text_instant), ro_date_evidence = ''source'', ro_status = ''fresh''\<rparr>"
  have "fl_web cf_lib = cf_web" by (simp add: cf_lib_def)
  then have e: "evaluate_candidate cf_lib (cf_env opens) cf_rules default_query_policies n (cf_candidate path) b =
      settle cf_lib (cf_env opens) n cf_policy (cf_candidate path) ?x Allowed [OK_KEEP] ?r b"
    by (simp add: evaluate_candidate_def cf_policy cf_context [OF p] cf_url(3) [OF p] cf_recency)
  have m: "batch_match b cf_policy AI ?x = None" using b by (simp add: batch_match_def cf_policy)
  show ?thesis
  proof (cases "ba_failed b2 \<or> ba_history b2 = None")
    case True
    then show ?thesis unfolding e using o m by (auto simp: settle_def Let_def)
  next
    case False
    then obtain v where "ba_history b2 = Some v" "\<not> ba_failed b2" by auto
    then show ?thesis unfolding e using o m cf_consult [of ?x v opens n path] by (simp add: settle_def Let_def)
  qed
qed

definition cf_opened :: "nat \<Rightarrow> history_open" where
  "cf_opened n = Opened False"

lemma cf_keeps:
  obtains rs where "evaluate_candidates cf_lib (cf_env cf_opened) cf_rules default_query_policies [cf_candidate ''/x'', cf_candidate ''/y''] = Inr rs"
    "length rs = 2" "fr_decision (rs ! 0) = KEEP" "fr_decision (rs ! 1) = KEEP"
proof -
  let ?ev = "evaluate_candidate cf_lib (cf_env cf_opened) cf_rules default_query_policies"
  let ?x = "\<lambda>path. \<lparr>fc_evaluated = min_text_instant, fc_url = Some (cf_origin @ path),
      fc_title = normalize_text path, fc_snippet = normalize_text path, fc_identity = None\<rparr>"
  let ?b1 = "(remember empty_batch AI (?x ''/x''))\<lparr>ba_history := Some False\<rparr>"
  have 1: "open_for_batch (cf_env cf_opened) 1 (remember empty_batch AI (?x ''/x'')) = Inr ?b1"
    by (simp add: open_for_batch_def cf_env_def cf_opened_def) (simp add: empty_batch_def)
  have 2: "open_for_batch (cf_env cf_opened) 2 (remember ?b1 AI (?x ''/y'')) = Inr (remember ?b1 AI (?x ''/y''))"
    by (simp add: open_for_batch_def)
  obtain r1 where r1: "?ev 1 (cf_candidate ''/x'') empty_batch = Inr (r1, ?b1)" "fr_decision r1 = KEEP"
    using cf_evaluate [OF _ _ 1] by (auto simp: empty_batch_def)
  have "ba_urls ?b1 (cf_origin @ ''/y'') = None"
    by (simp add: remember_def empty_batch_def set_default_def Let_def)
  then obtain r2 b2 where r2: "?ev 2 (cf_candidate ''/y'') ?b1 = Inr (r2, b2)" "fr_decision r2 = KEEP"
    using cf_evaluate [OF _ _ 2] by (auto simp: empty_batch_def)
  have "evaluate_candidates cf_lib (cf_env cf_opened) cf_rules default_query_policies [cf_candidate ''/x'', cf_candidate ''/y''] = Inr [r1, r2]"
    using r1 r2 by (simp add: evaluate_candidates_def numeral_2_eq_2)
  then show thesis using r1(2) r2(2) by (intro that [of "[r1, r2]"]) simp_all
qed

definition cf_closed :: "nat \<Rightarrow> history_open" where
  "cf_closed n = OpenFails"

lemma cf_pending:
  obtains rs where "evaluate_candidates cf_lib (cf_env cf_closed) cf_rules default_query_policies [cf_candidate ''/x'', cf_candidate ''/y''] = Inr rs"
    "length rs = 2" "fr_decision (rs ! 0) = PENDING_HISTORY_UNAVAILABLE" "fr_decision (rs ! 1) = PENDING_HISTORY_UNAVAILABLE"
proof -
  let ?ev = "evaluate_candidate cf_lib (cf_env cf_closed) cf_rules default_query_policies"
  let ?x = "\<lambda>path. \<lparr>fc_evaluated = min_text_instant, fc_url = Some (cf_origin @ path),
      fc_title = normalize_text path, fc_snippet = normalize_text path, fc_identity = None\<rparr>"
  let ?b1 = "(remember empty_batch AI (?x ''/x''))\<lparr>ba_failed := True\<rparr>"
  have 1: "open_for_batch (cf_env cf_closed) 1 (remember empty_batch AI (?x ''/x'')) = Inr ?b1"
    by (simp add: open_for_batch_def cf_env_def cf_closed_def) (simp add: empty_batch_def)
  have 2: "open_for_batch (cf_env cf_closed) 2 (remember ?b1 AI (?x ''/y'')) = Inr (remember ?b1 AI (?x ''/y''))"
    by (simp add: open_for_batch_def)
  obtain r1 where r1: "?ev 1 (cf_candidate ''/x'') empty_batch = Inr (r1, ?b1)" "fr_decision r1 = PENDING_HISTORY_UNAVAILABLE"
    using cf_evaluate [OF _ _ 1] by (auto simp: empty_batch_def)
  have "ba_urls ?b1 (cf_origin @ ''/y'') = None"
    by (simp add: remember_def empty_batch_def set_default_def Let_def)
  then obtain r2 b2 where r2: "?ev 2 (cf_candidate ''/y'') ?b1 = Inr (r2, b2)" "fr_decision r2 = PENDING_HISTORY_UNAVAILABLE"
    using cf_evaluate [OF _ _ 2] by (auto simp: empty_batch_def)
  have "evaluate_candidates cf_lib (cf_env cf_closed) cf_rules default_query_policies [cf_candidate ''/x'', cf_candidate ''/y''] = Inr [r1, r2]"
    using r1 r2 by (simp add: evaluate_candidates_def numeral_2_eq_2)
  then show thesis using r1(2) r2(2) by (intro that [of "[r1, r2]"]) simp_all
qed

theorem results_complete_witness:
  "\<exists>rs. evaluate_candidates cf_lib (cf_env cf_opened) cf_rules default_query_policies [cf_candidate ''/x'', cf_candidate ''/y''] = Inr rs \<and>
     map fr_ordinal rs = [1, 2]"
proof -
  obtain rs where rs: "evaluate_candidates cf_lib (cf_env cf_opened) cf_rules default_query_policies [cf_candidate ''/x'', cf_candidate ''/y''] = Inr rs"
    by (rule cf_keeps)
  have "map fr_ordinal rs = [1, 2]" using results_complete(2) [OF rs] by (simp add: numeral_2_eq_2)
  with rs show ?thesis by (intro exI conjI)
qed

theorem kept_is_checked_witness:
  "\<exists>p x u. make_context cf_lib (cf_candidate ''/x'') = Inr (Inr x) \<and> fc_url x = Some u \<and>
     non_article_url_reason (fl_web cf_lib) (Some u) = Inr None \<and> default_query_policies AI = Some p \<and> ''ai'' \<in> set (qp_groups p)"
proof -
  obtain rs where rs: "evaluate_candidates cf_lib (cf_env cf_opened) cf_rules default_query_policies [cf_candidate ''/x'', cf_candidate ''/y''] = Inr rs"
      "length rs = 2" "fr_decision (rs ! 0) = KEEP" "fr_decision (rs ! 1) = KEEP"
    by (rule cf_keeps)
  then have k: "0 < length rs" "fr_decision (rs ! 0) = KEEP" by simp_all
  from kept_is_checked [OF rs(1) k] show ?thesis by auto
qed

theorem kept_urls_distinct_witness:
  "\<exists>rs. evaluate_candidates cf_lib (cf_env cf_opened) cf_rules default_query_policies [cf_candidate ''/x'', cf_candidate ''/y''] = Inr rs \<and>
     map fr_decision rs = [KEEP, KEEP] \<and> cf_origin @ ''/x'' \<noteq> cf_origin @ ''/y''"
proof -
  obtain rs where rs: "evaluate_candidates cf_lib (cf_env cf_opened) cf_rules default_query_policies [cf_candidate ''/x'', cf_candidate ''/y''] = Inr rs"
      "length rs = 2" "fr_decision (rs ! 0) = KEEP" "fr_decision (rs ! 1) = KEEP"
    by (rule cf_keeps)
  then have k: "(0::nat) < 1" "1 < length rs" "fr_decision (rs ! 0) = KEEP" "fr_decision (rs ! 1) = KEEP" by simp_all
  have "cf_origin @ ''/x'' \<noteq> cf_origin @ ''/y''"
    using kept_urls_distinct [OF rs(1) k, of _ _ cf_policy] cf_context [of "''/x''"] cf_context [of "''/y''"] cf_policy(1)
    by simp
  moreover have "map fr_decision rs = [KEEP, KEEP]"
    using rs(2-4) by (cases rs; cases "tl rs") (auto simp: numeral_2_eq_2)
  ultimately show ?thesis using rs(1) by (intro exI conjI)
qed

theorem history_failure_is_final_witness:
  "\<exists>rs. evaluate_candidates cf_lib (cf_env cf_closed) cf_rules default_query_policies [cf_candidate ''/x'', cf_candidate ''/y''] = Inr rs \<and>
     fr_articles (rs ! 1) = []"
proof -
  obtain rs where rs: "evaluate_candidates cf_lib (cf_env cf_closed) cf_rules default_query_policies [cf_candidate ''/x'', cf_candidate ''/y''] = Inr rs"
      "length rs = 2" "fr_decision (rs ! 0) = PENDING_HISTORY_UNAVAILABLE" "fr_decision (rs ! 1) = PENDING_HISTORY_UNAVAILABLE"
    by (rule cf_pending)
  then have k: "(0::nat) < 1" "1 < length rs" "fr_decision (rs ! 0) = PENDING_HISTORY_UNAVAILABLE" by simp_all
  from history_failure_is_final [OF rs(1) k] rs(1) show ?thesis by blast
qed

theorem classify_source_precedence_witness:
  "sm_tier (classify_source cf_web cf_rules (Some ''http://a.example/x'')) = Allowed"
proof -
  have h: "canonical_host cf_web (Some ''http://a.example/x'') = Some ''a.example''" by code_simp
  have "\<not> action_applies cf_rules ''a.example'' ''block''" "action_applies cf_rules ''a.example'' ''allow''" by code_simp+
  then show ?thesis using classify_source_precedence [OF h, of cf_rules] by (simp add: cf_rules_def)
qed

end
