(* ===== verification/LegacyDelivery.thy ===== *)
theory LegacyDelivery
  imports SubjectDelivery
begin

text \<open>
  The delivery of a combined report to Telegram (\<open>delivery.py\<close>): splitting the text, the configuration and the client,
  the receipts of schema v6, and \<open>deliver_report\<close> with its transactions in the order of the code. What the client
  answers, where SQLite raises and what other processes write between two transactions are the environment
  \<open>deliver_env\<close>; the second schema check of a run is taken to agree with the first. Shown: splitting keeps the text;
  with no other writer at most one run sends anything until a failure is retried; a run that reports success has sent
  the whole text; and the overtaking of a run between its check and its transaction, which sends a report twice.
\<close>

section \<open>Splitting\<close>

text \<open>The position of the last newline.\<close>

definition rfind_newline :: "string \<Rightarrow> nat option" where
  "rfind_newline s = (case filter (\<lambda>i. s ! i = char_of (10 :: nat)) [0..<length s] of [] \<Rightarrow> None | is \<Rightarrow> Some (last is))"

definition split_boundary :: "nat \<Rightarrow> string \<Rightarrow> nat" where
  "split_boundary limit s = (case rfind_newline (take (limit + 1) s) of Some i \<Rightarrow> if i = 0 then limit else i | None \<Rightarrow> limit)"

lemma rfind_newline_less: "rfind_newline s = Some i \<Longrightarrow> i < length s"
  using last_in_set [of "filter (\<lambda>i. s ! i = char_of (10 :: nat)) [0..<length s]"]
  by (auto simp: rfind_newline_def split: list.splits)

lemma split_boundary: "0 < limit \<Longrightarrow> 0 < split_boundary limit s \<and> split_boundary limit s \<le> limit"
  using rfind_newline_less [of "take (limit + 1) s"] by (auto simp: split_boundary_def split: option.splits)

function split_loop :: "nat \<Rightarrow> string \<Rightarrow> string list" where
  "split_loop limit s =
     (if 0 < limit \<and> limit < length s
      then take (split_boundary limit s) s # split_loop limit (drop (split_boundary limit s) s)
      else if s = [] then [] else [s])"
  by pat_completeness auto
termination by (relation "measure (\<lambda>(limit, s). length s)") (auto simp: split_boundary intro!: diff_less)

declare split_loop.simps [simp del]

definition MAX_TELEGRAM_CHARS :: nat where
  "MAX_TELEGRAM_CHARS = 4096"

definition split_telegram_text :: "string \<Rightarrow> int \<Rightarrow> string list result" where
  "split_telegram_text s max_chars =
     (if s = [] then Inl ValueError else if max_chars < 1 then Inl ValueError else Inr (split_loop (nat max_chars) s))"

section \<open>The Telegram client\<close>

text \<open>
  What the file system says of the configuration file, and what reading it as UTF-8 gives. A file that cannot be
  examined at all (\<open>lstat\<close> raises \<open>OSError\<close>) is \<open>None\<close> below.
\<close>

record config_file =
  cf_regular :: bool
  cf_owned :: bool
  cf_mode :: nat
  cf_text :: "string result"

text \<open>
  The two searches of the configuration: a word, then the tokens with white space between them, then a quoted text
  that is not empty.
\<close>

fun after_tokens :: "string list \<Rightarrow> string \<Rightarrow> string option" where
  "after_tokens [] s = Some s"
| "after_tokens (t # ts) s =
     (let s = dropWhile is_space s in if starts_with t s then after_tokens ts (drop (length t) s) else None)"

definition quoted :: "string \<Rightarrow> string option" where
  "quoted s =
     (let s = dropWhile is_space s; q = CHR 0x22; inside = takeWhile (\<lambda>c. c \<noteq> q) (tl s) in
      if s = [] \<or> hd s \<noteq> q \<or> inside = [] \<or> q \<notin> set (tl s) then None else Some inside)"

fun search_quoted :: "string \<Rightarrow> string list \<Rightarrow> string \<Rightarrow> string option" where
  "search_quoted word tokens [] = None"
| "search_quoted word tokens (c # s) =
     (case (if starts_with word (c # s) then Option.bind (after_tokens tokens (drop (length word) (c # s))) quoted else None) of
        Some v \<Rightarrow> Some v
      | None \<Rightarrow> search_quoted word tokens s)"

definition token_ok :: "string \<Rightarrow> bool" where
  "token_ok t =
     (let bot = takeWhile is_digit t; rest = dropWhile is_digit t in
      bot \<noteq> [] \<and> starts_with '':'' rest \<and> tl rest \<noteq> [] \<and>
      list_all (\<lambda>c. let n = (of_char c :: nat) in
        48 \<le> n \<and> n \<le> 57 \<or> 65 \<le> n \<and> n \<le> 90 \<or> 97 \<le> n \<and> n \<le> 122 \<or> n = 95 \<or> n = 45) (tl rest))"

definition chat_ok :: "string \<Rightarrow> bool" where
  "chat_ok c \<longleftrightarrow> c \<noteq> [] \<and> list_all is_digit c"

record telegram_config =
  tg_token :: string
  tg_chat_id :: string

definition load_telegram_config :: "config_file option \<Rightarrow> telegram_config result" where
  "load_telegram_config f =
     (case f of
        None \<Rightarrow> Inl DeliveryRejected
      | Some c \<Rightarrow>
          if \<not> cf_regular c \<or> \<not> cf_owned c \<or> cf_mode c \<noteq> 384 then Inl DeliveryRejected
          else (case cf_text c of
              Inl e \<Rightarrow> Inl (if e = OtherError ''OSError'' then DeliveryRejected else e)
            | Inr body \<Rightarrow>
                let token = (case search_quoted ''bot_token'' [''=''] body of Some v \<Rightarrow> v | None \<Rightarrow> []);
                    chat_id = (case search_quoted ''allowed_users'' [''='', ''[''] body of Some v \<Rightarrow> v | None \<Rightarrow> []) in
                if \<not> token_ok token \<or> \<not> chat_ok chat_id then Inl DeliveryRejected
                else Inr \<lparr>tg_token = token, tg_chat_id = chat_id\<rparr>))"

text \<open>What a request comes to: an HTTP error, no known outcome, or a status and the start of the body.\<close>

datatype http_outcome = HttpRefused | HttpUnknown | HttpReply int string

definition MAX_RESPONSE_BYTES :: nat where
  "MAX_RESPONSE_BYTES = 1048576"

definition message_id_of :: "pyval \<Rightarrow> string result" where
  "message_id_of body =
     (case body of
        PDict d \<Rightarrow>
          if map_of d ''ok'' \<noteq> Some (PBool True) then Inl DeliveryRejected
          else (case map_of d ''result'' of
              None \<Rightarrow> Inl DeliveryAmbiguous
            | Some (PDict r) \<Rightarrow>
                (case map_of r ''message_id'' of
                   Some (PInt n) \<Rightarrow> Inr (show_int n)
                 | Some (PStr s) \<Rightarrow> if s = [] then Inl DeliveryAmbiguous else Inr s
                 | _ \<Rightarrow> Inl DeliveryAmbiguous)
            | Some _ \<Rightarrow> Inl (OtherError ''AttributeError''))
      | _ \<Rightarrow> Inl (OtherError ''AttributeError''))"

text \<open>\<open>TelegramTransport.send\<close>; \<open>decode\<close> is \<open>raw.decode("utf-8")\<close>, \<open>json_loads\<close> the parser.\<close>

definition telegram_send :: "pylib \<Rightarrow> (string \<Rightarrow> string option) \<Rightarrow> (string \<Rightarrow> http_outcome) \<Rightarrow> string \<Rightarrow> string result" where
  "telegram_send L decode post message =
     (if message = [] \<or> length message > MAX_TELEGRAM_CHARS then Inl DeliveryRejected
      else (case post message of
          HttpRefused \<Rightarrow> Inl DeliveryRejected
        | HttpUnknown \<Rightarrow> Inl DeliveryAmbiguous
        | HttpReply status raw \<Rightarrow>
            if length raw > MAX_RESPONSE_BYTES then Inl DeliveryAmbiguous
            else if \<not> (200 \<le> status \<and> status < 300) then Inl DeliveryRejected
            else (case Option.bind (decode raw) (json_loads L) of
                None \<Rightarrow> Inl DeliveryAmbiguous
              | Some body \<Rightarrow> message_id_of body)))"

section \<open>The report and its receipt\<close>

record legacy_report =
  lr_report_id :: string
  lr_window_start :: string
  lr_window_end :: string
  lr_generation_status :: string
  lr_hashes :: "string option list"
  lr_delivery_state :: string
  lr_delivery_id :: "string option"

datatype receipt_state = RPrepared | RSent | RFailed | RAmbiguous | RDryRun | RSkipped

record legacy_receipt =
  rc_report_id :: string
  rc_key :: string
  rc_recipient :: string
  rc_content :: string
  rc_state :: receipt_state
  rc_attempt :: "string option"
  rc_updated_at :: string

record legacy_attempt =
  la_attempt_id :: string
  la_report_id :: string
  la_ordinal :: nat
  la_state :: receipt_state
  la_completed_at :: "string option"
  la_message_ids :: "string list option"
  la_error :: "string option"

record legacy_db =
  ld_reports :: "legacy_report list"
  ld_receipts :: "legacy_receipt list"
  ld_attempts :: "legacy_attempt list"

definition find_receipt :: "string \<Rightarrow> legacy_db \<Rightarrow> legacy_receipt option" where
  "find_receipt k db = tbl_find rc_report_id k (ld_receipts db)"

definition find_legacy_attempt :: "string \<Rightarrow> legacy_db \<Rightarrow> legacy_attempt option" where
  "find_legacy_attempt k db = tbl_find la_attempt_id k (ld_attempts db)"

text \<open>
  What a delivery takes from outside. \<open>dv_schema\<close>: the exception of the schema check, if it raises;
  \<open>dv_artifacts\<close>: the four artifact files of a window (JSON, JSONL, Markdown, manifest); \<open>dv_send n\<close>: the client's
  answer to the \<open>n\<close>th message; \<open>dv_fault\<close>: where SQLite raises; \<open>dv_others\<close>: what other processes do to the
  database before a step.
\<close>

datatype deliver_step = StepPrepare | StepPersistBegin nat | StepPersist nat | StepFinal | StepMark

record deliver_env =
  dv_schema :: "exn option"
  dv_artifacts :: "string \<Rightarrow> string \<Rightarrow> string list result"
  dv_decode :: "string \<Rightarrow> string option"
  dv_send :: "nat \<Rightarrow> string \<Rightarrow> string result"
  dv_fault :: "deliver_step \<Rightarrow> exn option"
  dv_others :: "deliver_step \<Rightarrow> legacy_db \<Rightarrow> legacy_db"

record report_material =
  rm_report_id :: string
  rm_markdown :: string
  rm_manifest_sha :: string
  rm_delivery_state :: string

definition idempotency_key :: "pylib \<Rightarrow> string \<Rightarrow> string \<Rightarrow> string result" where
  "idempotency_key L report_id manifest_sha =
     (if report_id = [] then Inl ValueError else if \<not> hash_ok manifest_sha then Inl ValueError
      else Inr (sha256_hexdigest L (utf8_encode (''phase6-telegram'' @ [char_of (0 :: nat)] @ report_id @ [char_of (0 :: nat)] @ manifest_sha))))"

text \<open>\<open>d.get(key, {})\<close> on a value that may be no dictionary.\<close>

definition sub_dict :: "string \<Rightarrow> pyval \<Rightarrow> pyval result" where
  "sub_dict k v = (case v of PDict d \<Rightarrow> Inr (case map_of d k of Some x \<Rightarrow> x | None \<Rightarrow> PDict []) | _ \<Rightarrow> Inl (OtherError ''AttributeError''))"

definition dict_value :: "string \<Rightarrow> pyval \<Rightarrow> pyval option result" where
  "dict_value k v = (case v of PDict d \<Rightarrow> Inr (map_of d k) | _ \<Rightarrow> Inl (OtherError ''AttributeError''))"

definition check_manifest :: "pylib \<Rightarrow> (string \<Rightarrow> string option) \<Rightarrow> string \<Rightarrow> string \<Rightarrow> string \<Rightarrow> unit result" where
  "check_manifest L decode raw report_id markdown_hash =
     (case Option.bind (decode raw) (json_loads L) of
        None \<Rightarrow> Inl DeliveryRejected
      | Some manifest \<Rightarrow>
          bind_result (sub_dict ''artifacts'' manifest) (\<lambda>artifacts.
          bind_result (sub_dict ''markdown'' artifacts) (\<lambda>md.
          bind_result (dict_value ''sha256'' md) (\<lambda>sha.
          bind_result (dict_value ''report_id'' manifest) (\<lambda>rid.
            guard (rid = Some (PStr report_id) \<and> sha = Some (PStr markdown_hash)) DeliveryRejected)))))"

definition load_report_material :: "pylib \<Rightarrow> deliver_env \<Rightarrow> string \<Rightarrow> legacy_db \<Rightarrow> report_material result" where
  "load_report_material L E report_id db =
     (case dv_schema E of
        Some e \<Rightarrow> Inl e
      | None \<Rightarrow>
     (case tbl_find lr_report_id report_id (ld_reports db) of
        None \<Rightarrow> Inl DeliveryRejected
      | Some r \<Rightarrow>
          if lr_generation_status r \<noteq> ''complete'' then Inl DeliveryRejected
          else if lr_delivery_state r \<notin> {''dry_run'', ''not_attempted'', ''failed'', ''sent''} then Inl DeliveryRejected
          else if lr_delivery_state r = ''sent'' \<and> lr_delivery_id r = None then Inl DeliveryConflict
          else if \<not> list_all (\<lambda>h. case h of Some s \<Rightarrow> hash_ok s | None \<Rightarrow> False) (lr_hashes r) then Inl DeliveryRejected
          else bind_result (dv_artifacts E (lr_window_start r) (lr_window_end r)) (\<lambda>files.
            if map (\<lambda>b. Some (sha256_hexdigest L b)) files \<noteq> lr_hashes r then Inl DeliveryRejected
            else (case (lr_hashes r, files) of
                ([_, _, Some markdown_hash, Some manifest_hash], [_, _, markdown, manifest]) \<Rightarrow>
                  bind_result (check_manifest L (dv_decode E) manifest (lr_report_id r) markdown_hash) (\<lambda>_.
                    (case dv_decode E markdown of
                       None \<Rightarrow> Inl ValueError
                     | Some body \<Rightarrow> Inr \<lparr>rm_report_id = lr_report_id r, rm_markdown = body, rm_manifest_sha = manifest_hash,
                         rm_delivery_state = lr_delivery_state r\<rparr>))
              | _ \<Rightarrow> Inl DeliveryRejected))))"

section \<open>Delivery\<close>

record delivery_result =
  dr_report_id :: string
  dr_attempt_id :: string
  dr_key :: string
  dr_state :: receipt_state
  dr_message_ids :: "string list"
  dr_network_used :: bool
  dr_replayed :: bool

text \<open>A stored list of message ids is kept as the list; one that is no list of texts cannot have been stored.\<close>

definition result_from_row :: "legacy_receipt \<Rightarrow> legacy_db \<Rightarrow> delivery_result result" where
  "result_from_row r db =
     (case rc_attempt r of
        None \<Rightarrow> Inl DeliveryConflict
      | Some a \<Rightarrow>
          if a = [] then Inl DeliveryConflict
          else Inr \<lparr>dr_report_id = rc_report_id r, dr_attempt_id = a, dr_key = rc_key r, dr_state = rc_state r,
            dr_message_ids = (case find_legacy_attempt a db of Some t \<Rightarrow> (case la_message_ids t of Some ids \<Rightarrow> ids | None \<Rightarrow> []) | None \<Rightarrow> []),
            dr_network_used = False, dr_replayed = True\<rparr>)"

text \<open>The decision on the receipt that was read: an answer, an error, or to go on.\<close>

datatype ('a, 'e) verdict = Answered 'a | Refused 'e | GoOn

definition check_receipt ::
  "bool \<Rightarrow> bool \<Rightarrow> string \<Rightarrow> string \<Rightarrow> string \<Rightarrow> report_material \<Rightarrow> legacy_db \<Rightarrow> (delivery_result, exn) verdict" where
  "check_receipt live retry_failed key content recipient m db =
     (case find_receipt (rm_report_id m) db of
        None \<Rightarrow> if rm_delivery_state m = ''sent'' then Refused DeliveryConflict else GoOn
      | Some r \<Rightarrow>
          let replay = (case result_from_row r db of Inl e \<Rightarrow> Refused e | Inr x \<Rightarrow> Answered x) in
          if rc_key r \<noteq> key \<or> rc_content r \<noteq> content then Refused DeliveryConflict
          else if live \<and> rc_state r \<noteq> RDryRun \<and> rc_recipient r \<noteq> recipient then Refused DeliveryConflict
          else if rc_state r = RSent then replay
          else if rc_state r \<in> {RPrepared, RAmbiguous} then Refused DeliveryAmbiguous
          else if rc_state r = RSkipped then Refused DeliveryRejected
          else if rc_state r = RFailed \<and> (\<not> retry_failed \<or> \<not> live) then Refused DeliveryRejected
          else if rc_state r = RDryRun \<and> \<not> live then replay
          else GoOn)"

text \<open>The constraints of the two tables.\<close>

definition insert_receipt :: "legacy_receipt \<Rightarrow> legacy_db \<Rightarrow> legacy_db result" where
  "insert_receipt r db =
     (if tbl_find lr_report_id (rc_report_id r) (ld_reports db) = None \<or> find_receipt (rc_report_id r) db \<noteq> None \<or> rc_key r \<in> rc_key ` set (ld_receipts db) \<or>
         length (rc_recipient r) \<noteq> 64 \<or> length (rc_content r) \<noteq> 64 then Inl IntegrityError
      else Inr (db\<lparr>ld_receipts := tbl_insert r (ld_receipts db)\<rparr>))"

definition insert_legacy_attempt :: "legacy_attempt \<Rightarrow> legacy_db \<Rightarrow> legacy_db result" where
  "insert_legacy_attempt a db =
     (if find_legacy_attempt (la_attempt_id a) db \<noteq> None \<or> find_receipt (la_report_id a) db = None \<or>
         (la_report_id a, la_ordinal a) \<in> (\<lambda>x. (la_report_id x, la_ordinal x)) ` set (ld_attempts db) then Inl IntegrityError
      else Inr (db\<lparr>ld_attempts := tbl_insert a (ld_attempts db)\<rparr>))"

definition attempt_hash :: "pylib \<Rightarrow> string \<Rightarrow> string \<Rightarrow> string" where
  "attempt_hash L key tag = sha256_hexdigest L (utf8_encode (key @ [char_of (0 :: nat)] @ tag))"

definition new_attempt :: "string \<Rightarrow> string \<Rightarrow> nat \<Rightarrow> receipt_state \<Rightarrow> string option \<Rightarrow> legacy_attempt" where
  "new_attempt a report_id n state completed =
     \<lparr>la_attempt_id = a, la_report_id = report_id, la_ordinal = n, la_state = state, la_completed_at = completed,
      la_message_ids = Some [], la_error = None\<rparr>"

text \<open>The receipt of a dry run. The row is the one read before the transaction.\<close>

definition dry_run_tx ::
  "pylib \<Rightarrow> report_material \<Rightarrow> string \<Rightarrow> string \<Rightarrow> string \<Rightarrow> string \<Rightarrow> legacy_receipt option \<Rightarrow> legacy_db \<Rightarrow> string result \<times> legacy_db" where
  "dry_run_tx L m key content recipient timestamp row db =
     (case row of
        None \<Rightarrow>
          let a = attempt_hash L key ''dry-run'' in
          (case bind_result (insert_receipt \<lparr>rc_report_id = rm_report_id m, rc_key = key, rc_recipient = recipient, rc_content = content,
                     rc_state = RDryRun, rc_attempt = Some a, rc_updated_at = timestamp\<rparr> db)
                 (insert_legacy_attempt (new_attempt a (rm_report_id m) 1 RDryRun (Some timestamp))) of
             Inl e \<Rightarrow> (Inl e, db)
           | Inr db' \<Rightarrow> (Inr a, db'))
      | Some r \<Rightarrow> (case rc_attempt r of None \<Rightarrow> (Inl DeliveryConflict, db) | Some a \<Rightarrow> if a = [] then (Inl DeliveryConflict, db) else (Inr a, db)))"

text \<open>The transaction before anything is sent. It reads the receipt again, but looks for unresolved attempts only.\<close>

definition next_legacy_ordinal :: "string \<Rightarrow> legacy_db \<Rightarrow> nat" where
  "next_legacy_ordinal report_id db = Suc (fold max (map la_ordinal (filter (\<lambda>a. la_report_id a = report_id) (ld_attempts db))) 0)"

definition prepare_delivery_tx ::
  "pylib \<Rightarrow> report_material \<Rightarrow> string \<Rightarrow> string \<Rightarrow> string \<Rightarrow> string \<Rightarrow> legacy_db \<Rightarrow> string result \<times> legacy_db" where
  "prepare_delivery_tx L m key content recipient timestamp db =
     (let row = find_receipt (rm_report_id m) db;
          n = next_legacy_ordinal (rm_report_id m) db;
          a = attempt_hash L key (show_nat n);
          stored = (case row of
              None \<Rightarrow> insert_receipt \<lparr>rc_report_id = rm_report_id m, rc_key = key, rc_recipient = recipient, rc_content = content,
                  rc_state = RPrepared, rc_attempt = Some a, rc_updated_at = timestamp\<rparr> db
            | Some r \<Rightarrow> Inr (db\<lparr>ld_receipts := tbl_update rc_report_id (rm_report_id m)
                (\<lambda>r. r\<lparr>rc_state := RPrepared, rc_attempt := Some a, rc_recipient := recipient, rc_updated_at := timestamp\<rparr>) (ld_receipts db)\<rparr>)) in
      if (case row of Some r \<Rightarrow> rc_state r \<in> {RPrepared, RAmbiguous} | None \<Rightarrow> False) then (Inl DeliveryAmbiguous, db)
      else (case bind_result stored (insert_legacy_attempt (new_attempt a (rm_report_id m) n RPrepared None)) of
          Inl e \<Rightarrow> (Inl e, db)
        | Inr db' \<Rightarrow> (Inr a, db')))"

text \<open>A transaction: others act before it, and SQLite may refuse it.\<close>

definition step_tx :: "deliver_env \<Rightarrow> deliver_step \<Rightarrow> (legacy_db \<Rightarrow> 'a result \<times> legacy_db) \<Rightarrow> legacy_db \<Rightarrow> 'a result \<times> legacy_db" where
  "step_tx E step body db =
     (let db1 = dv_others E step db in case dv_fault E step of Some e \<Rightarrow> (Inl e, db1) | None \<Rightarrow> immediate_tx body db1)"

definition store_ids :: "string \<Rightarrow> string list \<Rightarrow> legacy_db \<Rightarrow> legacy_db" where
  "store_ids a ids db = db\<lparr>ld_attempts := tbl_update la_attempt_id a (\<lambda>t. t\<lparr>la_message_ids := Some ids\<rparr>) (ld_attempts db)\<rparr>"

text \<open>
  The loop over the parts: the outcome, the ids so far, the database, and every text that was handed to the client.
  A transaction that cannot begin raises SQLite's error; one that fails inside is ambiguous.
\<close>

fun send_parts ::
  "deliver_env \<Rightarrow> string \<Rightarrow> nat \<Rightarrow> string list \<Rightarrow> string list \<Rightarrow> legacy_db \<Rightarrow> unit result \<times> string list \<times> legacy_db \<times> string list" where
  "send_parts E a n [] ids db = (Inr (), ids, db, [])"
| "send_parts E a n (part # parts) ids db =
     (case dv_send E n part of
        Inl e \<Rightarrow> (Inl e, ids, db, [part])
      | Inr mid \<Rightarrow>
          let ids' = ids @ [mid]; db1 = dv_others E (StepPersistBegin n) db in
          (case dv_fault E (StepPersistBegin n) of
             Some e \<Rightarrow> (Inl e, ids', db1, [part])
           | None \<Rightarrow>
               if dv_fault E (StepPersist n) \<noteq> None then (Inl DeliveryAmbiguous, ids', db1, [part])
               else (case send_parts E a (Suc n) parts ids' (store_ids a ids' db1) of
                   (r, ids'', db2, sent_log) \<Rightarrow> (r, ids'', db2, part # sent_log))))"

definition finalize_tx :: "string \<Rightarrow> string \<Rightarrow> string \<Rightarrow> string list \<Rightarrow> legacy_db \<Rightarrow> unit result \<times> legacy_db" where
  "finalize_tx report_id a timestamp ids db =
     (let receipt_matches = (\<lambda>r. rc_report_id r = report_id \<and> rc_attempt r = Some a \<and> rc_state r = RPrepared);
          report_matches = (\<lambda>r. lr_report_id r = report_id \<and> lr_generation_status r = ''complete'' \<and>
            lr_delivery_state r \<in> {''dry_run'', ''not_attempted'', ''failed''});
          db1 = db\<lparr>ld_attempts := map (\<lambda>t. if la_attempt_id t = a \<and> la_report_id t = report_id \<and> la_state t = RPrepared
              then t\<lparr>la_state := RSent, la_completed_at := Some timestamp, la_message_ids := Some ids\<rparr> else t) (ld_attempts db)\<rparr>;
          db2 = db1\<lparr>ld_receipts := map (\<lambda>r. if receipt_matches r then r\<lparr>rc_state := RSent, rc_updated_at := timestamp\<rparr> else r) (ld_receipts db)\<rparr>;
          db3 = db2\<lparr>ld_reports := map (\<lambda>r. if report_matches r then r\<lparr>lr_delivery_state := ''sent'', lr_delivery_id := Some a\<rparr> else r) (ld_reports db)\<rparr> in
      if length (filter receipt_matches (ld_receipts db)) \<noteq> 1 then (Inl DeliveryConflict, db1)
      else if length (filter report_matches (ld_reports db)) \<noteq> 1 then (Inl DeliveryConflict, db2)
      else (Inr (), db3))"

definition mark_attempt_tx :: "string \<Rightarrow> string \<Rightarrow> receipt_state \<Rightarrow> string \<Rightarrow> string list \<Rightarrow> string \<Rightarrow> legacy_db \<Rightarrow> unit result \<times> legacy_db" where
  "mark_attempt_tx a report_id state timestamp ids error db =
     (Inr (), db\<lparr>
        ld_attempts := map (\<lambda>t. if la_attempt_id t = a \<and> la_report_id t = report_id
          then t\<lparr>la_state := state, la_completed_at := Some timestamp, la_message_ids := Some ids, la_error := Some error\<rparr> else t) (ld_attempts db),
        ld_receipts := map (\<lambda>r. if rc_report_id r = report_id \<and> rc_attempt r = Some a
          then r\<lparr>rc_state := state, rc_updated_at := timestamp\<rparr> else r) (ld_receipts db),
        ld_reports := map (\<lambda>r. if lr_report_id r = report_id \<and> lr_generation_status r = ''complete''
          then r\<lparr>lr_delivery_state := ''failed'', lr_delivery_id := Some a\<rparr> else r) (ld_reports db)\<rparr>)"

text \<open>The handlers of the send: which state an exception leaves the attempt in, if any.\<close>

definition mark_of :: "exn \<Rightarrow> (receipt_state \<times> string) option" where
  "mark_of e =
     (if e = DeliveryRejected then Some (RFailed, ''rejected'')
      else if e = DeliveryAmbiguous then Some (RAmbiguous, ''ambiguous'')
      else if e = DeliveryConflict then Some (RAmbiguous, ''conflict'') else None)"

definition live_send ::
  "deliver_env \<Rightarrow> report_material \<Rightarrow> string \<Rightarrow> string \<Rightarrow> string \<Rightarrow> string list \<Rightarrow> legacy_db \<Rightarrow>
   delivery_result result \<times> legacy_db \<times> string list" where
  "live_send E m key timestamp a parts db =
     (case send_parts E a 0 parts [] db of
        (r, ids, db1, sent_log) \<Rightarrow>
          (case (case r of Inl e \<Rightarrow> (Inl e, db1) | Inr _ \<Rightarrow> step_tx E StepFinal (finalize_tx (rm_report_id m) a timestamp ids) db1) of
             (Inr _, db2) \<Rightarrow>
               (Inr \<lparr>dr_report_id = rm_report_id m, dr_attempt_id = a, dr_key = key, dr_state = RSent, dr_message_ids = ids,
                  dr_network_used = True, dr_replayed = False\<rparr>, db2, sent_log)
           | (Inl e, db2) \<Rightarrow>
               (case mark_of e of
                  None \<Rightarrow> (Inl e, db2, sent_log)
                | Some (state, error) \<Rightarrow>
                    (case step_tx E StepMark (mark_attempt_tx a (rm_report_id m) state timestamp ids error) db2 of
                       (Inl e', db3) \<Rightarrow> (Inl e', db3, sent_log)
                     | (Inr _, db3) \<Rightarrow> (Inl e, db3, sent_log)))))"

text \<open>
  The base address of the client, less its trailing slashes; the recipient of a delivery: that of a dry run, of the loaded configuration, or of the transport that was given
  (\<open>Some None\<close> where it has no hash).
\<close>

definition api_base_ok :: "string \<Rightarrow> bool" where
  "api_base_ok s =
     (let base = rev (dropWhile (\<lambda>c. c = CHR ''/'') (rev s)) in starts_with ''https://'' base \<or> starts_with ''http://'' base)"

definition recipient_of :: "pylib \<Rightarrow> bool \<Rightarrow> string option option \<Rightarrow> config_file option option \<Rightarrow> string \<Rightarrow> string result" where
  "recipient_of L live transport config api_base =
     (if \<not> live then (if transport \<noteq> None then Inl DeliveryRejected else Inr (sha256_hexdigest L ''phase6-dry-run''))
      else (case transport of
          Some h \<Rightarrow> (case h of Some s \<Rightarrow> if hash_ok s then Inr s else Inl DeliveryRejected | None \<Rightarrow> Inl DeliveryRejected)
        | None \<Rightarrow> (case config of
              None \<Rightarrow> Inl DeliveryRejected
            | Some f \<Rightarrow> bind_result (load_telegram_config f) (\<lambda>c.
                if \<not> api_base_ok api_base then Inl ValueError else Inr (sha256_hexdigest L (tg_chat_id c))))))"

record deliver_args =
  da_live :: bool
  da_retry_failed :: bool
  da_transport :: "string option option"
  da_config :: "config_file option option"
  da_api_base :: string
  da_timestamp :: string

definition deliver_input ::
  "pylib \<Rightarrow> deliver_env \<Rightarrow> deliver_args \<Rightarrow> string \<Rightarrow> legacy_db \<Rightarrow> (report_material \<times> string list \<times> string \<times> string \<times> string) result" where
  "deliver_input L E A report_id db =
     bind_result (load_report_material L E report_id db) (\<lambda>m.
     bind_result (split_telegram_text (rm_markdown m) (int MAX_TELEGRAM_CHARS)) (\<lambda>parts.
     bind_result (idempotency_key L (rm_report_id m) (rm_manifest_sha m)) (\<lambda>key.
     bind_result (recipient_of L (da_live A) (da_transport A) (da_config A) (da_api_base A)) (\<lambda>recipient.
       Inr (m, parts, key, sha256_hexdigest L (utf8_encode (rm_markdown m)), recipient)))))"

definition deliver_report ::
  "pylib \<Rightarrow> deliver_env \<Rightarrow> deliver_args \<Rightarrow> string \<Rightarrow> legacy_db \<Rightarrow> delivery_result result \<times> legacy_db \<times> string list" where
  "deliver_report L E A report_id db =
     (case deliver_input L E A report_id db of
        Inl e \<Rightarrow> (Inl e, db, [])
      | Inr (m, parts, key, content, recipient) \<Rightarrow>
          (case check_receipt (da_live A) (da_retry_failed A) key content recipient m db of
             Answered x \<Rightarrow> (Inr x, db, [])
           | Refused e \<Rightarrow> (Inl e, db, [])
           | GoOn \<Rightarrow>
               if \<not> da_live A then
                 (case step_tx E StepPrepare (dry_run_tx L m key content recipient (da_timestamp A) (find_receipt (rm_report_id m) db)) db of
                    (Inl e, db') \<Rightarrow> (Inl e, db', [])
                  | (Inr a, db') \<Rightarrow>
                      (Inr \<lparr>dr_report_id = rm_report_id m, dr_attempt_id = a, dr_key = key, dr_state = RDryRun, dr_message_ids = [],
                         dr_network_used = False, dr_replayed = (find_receipt (rm_report_id m) db \<noteq> None)\<rparr>, db', []))
               else
                 (case step_tx E StepPrepare (prepare_delivery_tx L m key content recipient (da_timestamp A)) db of
                    (Inl e, db') \<Rightarrow> (Inl e, db', [])
                  | (Inr a, db') \<Rightarrow> live_send E m key (da_timestamp A) a parts db')))"

section \<open>Splitting keeps the text\<close>

lemma split_loop_parts:
  "0 < limit \<Longrightarrow> concat (split_loop limit s) = s \<and> (\<forall>p \<in> set (split_loop limit s). p \<noteq> [] \<and> length p \<le> limit)"
proof (induction limit s rule: split_loop.induct)
  case (1 limit s)
  show ?case
  proof (cases "limit < length s")
    case True
    then show ?thesis
      using 1 split_boundary [of limit s] by (auto simp: split_loop.simps [of limit s])
  next
    case False
    then show ?thesis by (auto simp: split_loop.simps [of limit s])
  qed
qed

section \<open>The receipt through the steps\<close>

text \<open>The state of a report's receipt.\<close>

definition receipt_state_of :: "string \<Rightarrow> legacy_db \<Rightarrow> receipt_state option" where
  "receipt_state_of k db = map_option rc_state (find_receipt k db)"

definition receipt_attempt_of :: "string \<Rightarrow> legacy_db \<Rightarrow> string option" where
  "receipt_attempt_of k db = Option.bind (find_receipt k db) rc_attempt"

text \<open>An environment in which no other process writes.\<close>

definition quiet :: "deliver_env \<Rightarrow> bool" where
  "quiet E \<longleftrightarrow> dv_others E = (\<lambda>_ db. db)"

lemma step_tx_quiet:
  "quiet E \<Longrightarrow> step_tx E step body db =
     (case dv_fault E step of Some e \<Rightarrow> (Inl e, db) | None \<Rightarrow> immediate_tx body db)"
  by (simp add: step_tx_def quiet_def)

lemma step_tx_Inr:
  "quiet E \<Longrightarrow> step_tx E step body db = (Inr x, db') \<Longrightarrow> body db = (Inr x, db')"
  by (auto simp: step_tx_quiet immediate_tx_def split: option.splits prod.splits sum.splits)

lemma step_tx_Inl: "quiet E \<Longrightarrow> step_tx E step body db = (Inl e, db') \<Longrightarrow> db' = db"
  by (auto simp: step_tx_quiet immediate_tx_def split: option.splits prod.splits sum.splits)

lemma find_store_ids [simp]: "find_receipt k (store_ids a ids db) = find_receipt k db"
  by (simp add: store_ids_def find_receipt_def)

lemma send_parts_receipts:
  "quiet E \<Longrightarrow> send_parts E a n parts ids db = (r, ids', db', s) \<Longrightarrow> find_receipt k db' = find_receipt k db"
  by (induction E a n parts ids db arbitrary: r ids' db' s rule: send_parts.induct)
    (auto simp: quiet_def Let_def split: sum.splits option.splits prod.splits if_splits)

lemma send_parts_all:
  "send_parts E a n parts ids db = (Inr u, ids', db', s) \<Longrightarrow> s = parts \<and> length ids' = length ids + length parts"
  by (induction E a n parts ids db arbitrary: ids' db' s rule: send_parts.induct)
    (auto simp: Let_def split: sum.splits option.splits prod.splits if_splits)

lemma send_parts_prefix:
  "send_parts E a n parts ids db = (r, ids', db', s) \<Longrightarrow> s = take (length s) parts"
  by (induction E a n parts ids db arbitrary: r ids' db' s rule: send_parts.induct)
    (auto simp: Let_def split: sum.splits option.splits prod.splits if_splits)

lemma receipt_of:
  assumes "receipt_state_of rid db = Some st"
  obtains r where "tbl_find rc_report_id rid (ld_receipts db) = Some r" "rc_report_id r = rid" "rc_state r = st"
    "receipt_attempt_of rid db = rc_attempt r"
  using assms tbl_find_SomeD by (fastforce simp: receipt_state_of_def receipt_attempt_of_def find_receipt_def)

lemma prepare_delivery_tx_ok:
  assumes "prepare_delivery_tx L m key content recipient timestamp db = (Inr a, db')"
  shows "receipt_state_of (rm_report_id m) db' = Some RPrepared \<and> receipt_attempt_of (rm_report_id m) db' = Some a"
  using assms
  by (auto simp: prepare_delivery_tx_def Let_def receipt_state_of_def receipt_attempt_of_def find_receipt_def
      insert_receipt_def insert_legacy_attempt_def new_attempt_def tbl_find_insert tbl_find_update
      split: option.splits sum.splits if_splits)

lemma finalize_tx_ok:
  assumes fin: "finalize_tx rid a timestamp ids db = (Inr u, db')"
    and st: "receipt_state_of rid db = Some RPrepared" and att: "receipt_attempt_of rid db = Some a"
  shows "receipt_state_of rid db' = Some RSent"
proof -
  obtain r where "tbl_find rc_report_id rid (ld_receipts db) = Some r" "rc_report_id r = rid" "rc_state r = RPrepared"
    "rc_attempt r = Some a"
    using receipt_of [OF st] att by metis
  then show ?thesis
    using fin by (auto simp: finalize_tx_def Let_def receipt_state_of_def find_receipt_def tbl_find_map split: if_splits)
qed

lemma mark_attempt_tx_ok:
  assumes st: "receipt_state_of rid db = Some st" and att: "receipt_attempt_of rid db = Some a"
    and mark: "mark_attempt_tx a rid state timestamp ids error db = (r, db')"
  shows "receipt_state_of rid db' = Some state"
proof -
  obtain r where "tbl_find rc_report_id rid (ld_receipts db) = Some r" "rc_report_id r = rid" "rc_attempt r = Some a"
    using receipt_of [OF st] att by metis
  then show ?thesis
    using mark by (auto simp: mark_attempt_tx_def receipt_state_of_def find_receipt_def tbl_find_map)
qed

text \<open>What a live send leaves of the receipt.\<close>

lemma live_send_receipt:
  assumes q: "quiet E" and st: "receipt_state_of (rm_report_id m) db = Some RPrepared"
    and att: "receipt_attempt_of (rm_report_id m) db = Some a"
    and run: "live_send E m key timestamp a parts db = (r, db', s)"
  shows "(\<forall>x. r = Inr x \<longrightarrow> receipt_state_of (rm_report_id m) db' = Some RSent) \<and>
    (receipt_state_of (rm_report_id m) db' = Some RFailed \<longrightarrow> r = Inl DeliveryRejected) \<and>
    receipt_state_of (rm_report_id m) db' \<in> {Some RPrepared, Some RSent, Some RAmbiguous, Some RFailed}"
proof -
  obtain sr ids db1 s1 where parts: "send_parts E a 0 parts [] db = (sr, ids, db1, s1)" by (metis prod_cases4)
  have same: "find_receipt (rm_report_id m) db1 = find_receipt (rm_report_id m) db"
    by (rule send_parts_receipts [OF q parts])
  have st1: "receipt_state_of (rm_report_id m) db1 = Some RPrepared"
    and att1: "receipt_attempt_of (rm_report_id m) db1 = Some a"
    using st att same by (simp_all add: receipt_state_of_def receipt_attempt_of_def)
  obtain fr db2 where fin: "(case sr of Inl e \<Rightarrow> (Inl e, db1)
      | Inr _ \<Rightarrow> step_tx E StepFinal (finalize_tx (rm_report_id m) a timestamp ids) db1) = (fr, db2)" by fastforce
  show ?thesis
  proof (cases fr)
    case (Inr u)
    then obtain v where "sr = Inr v" using fin by (cases sr) auto
    then have "step_tx E StepFinal (finalize_tx (rm_report_id m) a timestamp ids) db1 = (Inr u, db2)" using fin Inr by simp
    then have "finalize_tx (rm_report_id m) a timestamp ids db1 = (Inr u, db2)" by (rule step_tx_Inr [OF q])
    then have "receipt_state_of (rm_report_id m) db2 = Some RSent" by (rule finalize_tx_ok [OF _ st1 att1])
    then show ?thesis using run parts fin Inr by (auto simp: live_send_def)
  next
    case (Inl e)
    then have db2: "db2 = db1" using fin step_tx_Inl [OF q] by (cases sr) auto
    show ?thesis
    proof (cases "mark_of e")
      case None
      then show ?thesis using run parts fin Inl db2 st1 by (auto simp: live_send_def)
    next
      case (Some se)
      obtain state error where se: "se = (state, error)" by (cases se)
      obtain mr db3 where mark: "step_tx E StepMark (mark_attempt_tx a (rm_report_id m) state timestamp ids error) db2 = (mr, db3)"
        by fastforce
      have res: "db' = db3" "r = (case mr of Inl e' \<Rightarrow> Inl e' | Inr _ \<Rightarrow> Inl e)"
        using run parts fin Inl Some se mark by (auto simp: live_send_def split: sum.splits)
      have state: "state = RFailed \<and> e = DeliveryRejected \<or> state = RAmbiguous"
        using Some se by (auto simp: mark_of_def split: if_splits)
      show ?thesis
      proof (cases mr)
        case (Inl e')
        then have "db3 = db2" using mark step_tx_Inl [OF q] by simp
        then show ?thesis using res Inl db2 st1 by simp
      next
        case (Inr u)
        then have "mark_attempt_tx a (rm_report_id m) state timestamp ids error db1 = (Inr u, db3)"
          using mark db2 by (auto intro: step_tx_Inr [OF q])
        then have "receipt_state_of (rm_report_id m) db3 = Some state" by (rule mark_attempt_tx_ok [OF st1 att1])
        then show ?thesis using res Inr state by auto
      qed
    qed
  qed
qed

lemma live_send_sent:
  assumes "live_send E m key timestamp a parts db = (Inr x, db', s)"
  shows "s = parts \<and> length (dr_message_ids x) = length parts \<and> dr_state x = RSent \<and> dr_network_used x \<and> dr_attempt_id x = a"
  using assms send_parts_all
  by (fastforce simp: live_send_def split: prod.splits sum.splits option.splits)

section \<open>What a delivery does\<close>

lemma load_report_id:
  "load_report_material L E rid db = Inr m \<Longrightarrow> rm_report_id m = rid"
  by (auto simp: load_report_material_def dest: tbl_find_SomeD split: option.splits if_splits list.splits sum.splits)

lemma deliver_input_ok:
  assumes "deliver_input L E A rid db = Inr (m, parts, key, content, recipient)"
  shows "load_report_material L E rid db = Inr m \<and> rm_report_id m = rid \<and>
    split_telegram_text (rm_markdown m) (int MAX_TELEGRAM_CHARS) = Inr parts"
  using assms load_report_id by (auto simp: deliver_input_def split: sum.splits)

text \<open>A delivery goes on only where the receipt is absent, of a dry run, or of a failure that is to be retried.\<close>

lemma check_receipt_GoOn:
  assumes "check_receipt live retry key content recipient m db = GoOn"
  shows "receipt_state_of (rm_report_id m) db \<in> {None, Some RDryRun, Some RFailed} \<and>
    (receipt_state_of (rm_report_id m) db = Some RFailed \<longrightarrow> retry \<and> live)"
proof (cases "find_receipt (rm_report_id m) db")
  case (Some r)
  then show ?thesis
    using assms by (cases "rc_state r") (auto simp: check_receipt_def receipt_state_of_def Let_def split: if_splits sum.splits)
qed (simp add: receipt_state_of_def)

text \<open>A run that sends nothing leaves a receipt in its state, unless it fails before anything is sent.\<close>

lemma dry_run_tx_receipt:
  assumes "dry_run_tx L m key content recipient timestamp row db = (Inr a, db')" "row = find_receipt (rm_report_id m) db"
  shows "receipt_state_of (rm_report_id m) db' = (case row of None \<Rightarrow> Some RDryRun | Some r \<Rightarrow> Some (rc_state r))"
  using assms
  by (auto simp: dry_run_tx_def Let_def receipt_state_of_def find_receipt_def
      insert_receipt_def insert_legacy_attempt_def new_attempt_def tbl_find_insert
      split: option.splits sum.splits if_splits)

lemma prepared_parts:
  "split_telegram_text s n = Inr ps \<Longrightarrow> s \<noteq> [] \<and> ps \<noteq> [] \<and> concat ps = s \<and> (\<forall>p \<in> set ps. p \<noteq> [] \<and> int (length p) \<le> n)"
  using split_loop_parts [of "nat n" s] by (auto simp: split_telegram_text_def split: if_splits)

text \<open>
  One run, seen from the receipt: what was sent is a prefix of the parts; something was sent only if the receipt
  allowed it; and afterwards the receipt says so.
\<close>

lemma deliver_report_cases:
  assumes q: "quiet E" and run: "deliver_report L E A rid db = (r, db', s)"
  shows "s = [] \<and> (receipt_state_of rid db \<in> {Some RPrepared, Some RSent, Some RAmbiguous, Some RSkipped} \<longrightarrow>
        receipt_state_of rid db' = receipt_state_of rid db) \<and>
      (receipt_state_of rid db = Some RFailed \<longrightarrow> receipt_state_of rid db' \<in> {Some RFailed, Some RPrepared}) \<or>
    s \<noteq> [] \<and> da_live A \<and> receipt_state_of rid db \<in> {None, Some RDryRun, Some RFailed} \<and>
      (receipt_state_of rid db = Some RFailed \<longrightarrow> da_retry_failed A) \<and>
      receipt_state_of rid db' \<in> {Some RPrepared, Some RSent, Some RAmbiguous, Some RFailed} \<and>
      (receipt_state_of rid db' = Some RFailed \<longrightarrow> r = Inl DeliveryRejected)"
proof (cases "deliver_input L E A rid db")
  case (Inl e)
  then show ?thesis using run by (auto simp: deliver_report_def)
next
  case (Inr v)
  obtain m parts key content recipient where v: "v = (m, parts, key, content, recipient)" by (cases v)
  note input = deliver_input_ok [OF Inr [unfolded v]]
  then have rid: "rm_report_id m = rid" by simp
  have parts: "parts \<noteq> []" using prepared_parts input by blast
  show ?thesis
  proof (cases "check_receipt (da_live A) (da_retry_failed A) key content recipient m db")
    case GoOn
    note go = check_receipt_GoOn [OF GoOn, unfolded rid]
    show ?thesis
    proof (cases "da_live A")
      case False
      obtain dr db1 where tx: "step_tx E StepPrepare (dry_run_tx L m key content recipient (da_timestamp A) (find_receipt rid db)) db = (dr, db1)"
        by fastforce
      have res: "db' = db1" "s = []"
        using run Inr v GoOn False tx rid by (auto simp: deliver_report_def split: sum.splits)
      show ?thesis
        using go False res by auto
    next
      case True
      obtain pr db1 where tx: "step_tx E StepPrepare (prepare_delivery_tx L m key content recipient (da_timestamp A)) db = (pr, db1)"
        by fastforce
      show ?thesis
      proof (cases pr)
        case (Inl e)
        then have "db1 = db" using step_tx_Inl [OF q] tx by blast
        then show ?thesis
          using run Inr v GoOn True tx Inl by (auto simp: deliver_report_def)
      next
        case (Inr a)
        have st: "receipt_state_of rid db1 = Some RPrepared \<and> receipt_attempt_of rid db1 = Some a"
          using prepare_delivery_tx_ok [OF step_tx_Inr [OF q tx [unfolded Inr]]] rid by simp
        have live: "live_send E m key (da_timestamp A) a parts db1 = (r, db', s)"
          using run \<open>deliver_input L E A rid db = Inr v\<close> v GoOn True tx Inr by (simp add: deliver_report_def)
        have "s \<noteq> [] " using parts live
          by (cases parts) (auto simp: live_send_def Let_def split: prod.splits sum.splits option.splits if_splits)
        moreover have "receipt_state_of rid db' \<in> {Some RPrepared, Some RSent, Some RAmbiguous, Some RFailed} \<and>
            (receipt_state_of rid db' = Some RFailed \<longrightarrow> r = Inl DeliveryRejected)"
          using live_send_receipt [OF q _ _ live, unfolded rid] st by blast
        ultimately show ?thesis using go True by blast
      qed
    qed
  qed (use run Inr v in \<open>auto simp: deliver_report_def\<close>)
qed

fun run_deliveries :: "(pylib \<times> deliver_env \<times> deliver_args) list \<Rightarrow> string \<Rightarrow> legacy_db \<Rightarrow> string list list" where
  "run_deliveries [] report_id db = []"
| "run_deliveries ((L, E, A) # runs) report_id db =
     (case deliver_report L E A report_id db of (r, db', s) \<Rightarrow> s # run_deliveries runs report_id db')"

text \<open>Once anything was sent, only a retry of a failure sends again.\<close>

lemma settled_sends_nothing:
  assumes "\<forall>x \<in> set runs. quiet (fst (snd x)) \<and> \<not> da_retry_failed (snd (snd x))"
    and "receipt_state_of rid db \<in> {Some RPrepared, Some RSent, Some RAmbiguous, Some RFailed}"
  shows "filter (\<lambda>s. s \<noteq> []) (run_deliveries runs rid db) = []"
  using assms
proof (induction runs arbitrary: db)
  case (Cons x runs)
  obtain L E A where x: "x = (L, E, A)" by (cases x)
  obtain r db' s where run: "deliver_report L E A rid db = (r, db', s)" by (cases "deliver_report L E A rid db")
  have "quiet E" "\<not> da_retry_failed A" using Cons.prems x by simp_all
  then have "s = []" "receipt_state_of rid db' \<in> {Some RPrepared, Some RSent, Some RAmbiguous, Some RFailed}"
    using deliver_report_cases [OF _ run] Cons.prems(2) by auto
  then show ?case using Cons x run by simp
qed simp

lemma at_most_one_sends:
  assumes "\<forall>x \<in> set runs. quiet (fst (snd x)) \<and> \<not> da_retry_failed (snd (snd x))"
  shows "length (filter (\<lambda>s. s \<noteq> []) (run_deliveries runs rid db)) \<le> 1"
  using assms
proof (induction runs arbitrary: db)
  case (Cons x runs)
  obtain L E A where x: "x = (L, E, A)" by (cases x)
  obtain r db' s where run: "deliver_report L E A rid db = (r, db', s)" by (cases "deliver_report L E A rid db")
  show ?case
  proof (cases "s = []")
    case False
    have "quiet E" using Cons.prems x by simp
    then have "receipt_state_of rid db' \<in> {Some RPrepared, Some RSent, Some RAmbiguous, Some RFailed}"
      using deliver_report_cases [OF _ run] False by blast
    then have "filter (\<lambda>s. s \<noteq> []) (run_deliveries runs rid db') = []"
      using settled_sends_nothing [of runs] Cons.prems by simp
    then show ?thesis using x run by simp
  qed (use Cons x run in simp)
qed simp

section \<open>A concrete report\<close>

definition dv_lib :: pylib where
  "dv_lib =
     \<lparr>sha256_hexdigest = (\<lambda>s. replicate 63 (CHR ''a'') @ [if s \<noteq> [] \<and> is_hex (last s) then last s else CHR ''f'']),
      fromisoformat_utc = (\<lambda>_. None),
      json_loads = (\<lambda>_. Some (PDict [(''report_id'', PStr ''r''),
        (''artifacts'', PDict [(''markdown'', PDict [(''sha256'', PStr (replicate 63 (CHR ''a'') @ ''d''))])])])),
      float_repr = (\<lambda>_. []), container_str = (\<lambda>_. [])\<rparr>"

definition dv_env :: deliver_env where
  "dv_env =
     \<lparr>dv_schema = None, dv_artifacts = (\<lambda>_ _. Inr [''a'', ''b'', ''read'', ''c'']), dv_decode = Some,
      dv_send = (\<lambda>n _. Inr (show_nat n)), dv_fault = (\<lambda>_. None), dv_others = (\<lambda>_ db. db)\<rparr>"

definition dv_args :: deliver_args where
  "dv_args =
     \<lparr>da_live = True, da_retry_failed = False, da_transport = Some (Some (replicate 64 (CHR ''e''))), da_config = None,
      da_api_base = [], da_timestamp = ''t''\<rparr>"

definition dv_db :: legacy_db where
  "dv_db =
     \<lparr>ld_reports = [\<lparr>lr_report_id = ''r'', lr_window_start = ''w'', lr_window_end = ''x'', lr_generation_status = ''complete'',
        lr_hashes = map (\<lambda>c. Some (replicate 63 (CHR ''a'') @ [c])) ''abdc'',
        lr_delivery_state = ''not_attempted'', lr_delivery_id = None\<rparr>],
      ld_receipts = [], ld_attempts = []\<rparr>"

section \<open>Properties\<close>

text \<open>
  C40: splitting drops and reorders nothing: the parts of a text put together are the text, and each part is not empty
  and fits a message.
\<close>

theorem split_keeps_text:
  "split_telegram_text s n = Inr ps \<Longrightarrow>
     concat ps = s \<and> list_all (\<lambda>p. p \<noteq> [] \<and> int (length p) \<le> n) ps"
  using prepared_parts [of s n ps] by (simp add: list_all_iff)

theorem split_keeps_text_witness:
  "split_telegram_text ''ab0123'' 3 = Inr [''ab0'', ''123''] \<and> concat [''ab0'', ''123''] = ''ab0123''"
proof -
  have "split_telegram_text ''ab0123'' 3 = Inr [''ab0'', ''123'']" by code_simp
  then show ?thesis using split_keeps_text [of "''ab0123''" 3] by blast
qed

text \<open>
  C7: in any sequence of runs for a report, live or dry, whatever the client answers and wherever SQLite fails, at most
  one hands anything to Telegram, as long as no other process writes the receipts during a run and no run was told to
  retry a failure.
\<close>

theorem delivered_at_most_once:
  assumes "list_all (\<lambda>(L, E, A). quiet E \<and> \<not> da_retry_failed A) runs"
  shows "length (filter (\<lambda>s. s \<noteq> []) (run_deliveries runs report_id db)) \<le> 1"
  using assms at_most_one_sends [of runs report_id db] by (auto simp: list_all_iff split_beta)

lemma dv_runs: "run_deliveries [(dv_lib, dv_env, dv_args), (dv_lib, dv_env, dv_args)] ''r'' dv_db = [[''read''], []]"
  by code_simp

theorem delivered_at_most_once_witness:
  "run_deliveries [(dv_lib, dv_env, dv_args), (dv_lib, dv_env, dv_args)] ''r'' dv_db = [[''read''], []] \<and>
   length (filter (\<lambda>s. s \<noteq> []) (run_deliveries [(dv_lib, dv_env, dv_args), (dv_lib, dv_env, dv_args)] ''r'' dv_db)) \<le> 1"
  using dv_runs delivered_at_most_once [of "[(dv_lib, dv_env, dv_args), (dv_lib, dv_env, dv_args)]" "''r''" dv_db]
  by (simp add: quiet_def dv_env_def dv_args_def)

text \<open>A stored receipt is answered without the network.\<close>

lemma answered_offline: "check_receipt live retry key content recipient m db = Answered x \<Longrightarrow> \<not> dr_network_used x"
  by (auto simp: check_receipt_def result_from_row_def Let_def split: option.splits if_splits sum.splits)

lemma networked_run:
  assumes run: "deliver_report L E A rid db = (Inr x, db', s)" and net: "dr_network_used x"
  obtains m parts key content recipient a db1
  where "deliver_input L E A rid db = Inr (m, parts, key, content, recipient)" "da_live A"
    "step_tx E StepPrepare (prepare_delivery_tx L m key content recipient (da_timestamp A)) db = (Inr a, db1)"
    "live_send E m key (da_timestamp A) a parts db1 = (Inr x, db', s)"
proof -
  obtain v where input: "deliver_input L E A rid db = Inr v"
    using run by (cases "deliver_input L E A rid db") (auto simp: deliver_report_def)
  obtain m parts key content recipient where v: "v = (m, parts, key, content, recipient)" by (cases v)
  have go: "check_receipt (da_live A) (da_retry_failed A) key content recipient m db = GoOn"
    using run net input v answered_offline
    by (cases "check_receipt (da_live A) (da_retry_failed A) key content recipient m db") (auto simp: deliver_report_def)
  have live: "da_live A"
    using run net input v go by (auto simp: deliver_report_def split: if_splits prod.splits sum.splits)
  obtain pr db1 where tx: "step_tx E StepPrepare (prepare_delivery_tx L m key content recipient (da_timestamp A)) db = (pr, db1)"
    by fastforce
  obtain a where a: "pr = Inr a"
    using run input v go live tx by (cases pr) (auto simp: deliver_report_def)
  have "live_send E m key (da_timestamp A) a parts db1 = (Inr x, db', s)"
    using run input v go live tx a by (simp add: deliver_report_def)
  then show thesis using that input v live tx a by blast
qed

text \<open>The row of the attempt: prepared for the report, kept by the loop, and completed with the ids.\<close>

definition attempt_row :: "string \<Rightarrow> string \<Rightarrow> receipt_state \<Rightarrow> legacy_db \<Rightarrow> bool" where
  "attempt_row rid a state db \<longleftrightarrow> (\<exists>t. find_legacy_attempt a db = Some t \<and> la_report_id t = rid \<and> la_state t = state)"

lemma prepare_attempt_row:
  "prepare_delivery_tx L m key content recipient timestamp db = (Inr a, db') \<Longrightarrow> attempt_row (rm_report_id m) a RPrepared db'"
  by (auto simp: prepare_delivery_tx_def Let_def attempt_row_def find_legacy_attempt_def insert_receipt_def
      insert_legacy_attempt_def new_attempt_def tbl_find_insert split: option.splits sum.splits if_splits)

lemma store_ids_row: "attempt_row rid a state db \<Longrightarrow> attempt_row rid a state (store_ids a' ids db)"
  by (auto simp: attempt_row_def find_legacy_attempt_def store_ids_def tbl_find_update)

lemma send_parts_row:
  "quiet E \<Longrightarrow> send_parts E a' n parts ids db = (r, ids', db', s) \<Longrightarrow> attempt_row rid a state db \<Longrightarrow> attempt_row rid a state db'"
  by (induction E a' n parts ids db arbitrary: r ids' db' s rule: send_parts.induct)
    (auto simp: quiet_def Let_def store_ids_row split: sum.splits option.splits prod.splits if_splits)

text \<open>The ids the loop collects are the answers of the client, part by part.\<close>

lemma send_parts_ids:
  "send_parts E a n parts ids db = (Inr u, ids', db', s) \<Longrightarrow>
     \<exists>ms. ids' = ids @ ms \<and> list_all2 (\<lambda>(i, part) mid. dv_send E i part = Inr mid) (enumerate n parts) ms"
proof (induction E a n parts ids db arbitrary: ids' db' s rule: send_parts.induct)
  case (2 E a n part parts ids db)
  obtain mid where mid: "dv_send E n part = Inr mid" using 2(2) by (cases "dv_send E n part") auto
  have "\<exists>ms. ids' = (ids @ [mid]) @ ms \<and> list_all2 (\<lambda>(i, part) mid. dv_send E i part = Inr mid) (enumerate (Suc n) parts) ms"
    using 2 mid by (auto simp: Let_def split: option.splits prod.splits if_splits)
  then obtain ms where "ids' = ids @ mid # ms" "list_all2 (\<lambda>(i, part) mid. dv_send E i part = Inr mid) (enumerate (Suc n) parts) ms"
    by auto
  then show ?case using mid by (intro exI [of _ "mid # ms"]) simp
qed simp

lemma finalize_row:
  assumes "finalize_tx rid a timestamp ids db = (Inr u, db')" "attempt_row rid a RPrepared db"
  shows "\<exists>t. find_legacy_attempt a db' = Some t \<and> la_report_id t = rid \<and> la_state t = RSent \<and> la_message_ids t = Some ids"
  using assms tbl_find_SomeD [of la_attempt_id a "ld_attempts db"]
  by (auto simp: finalize_tx_def Let_def attempt_row_def find_legacy_attempt_def tbl_find_map split: if_splits)

lemma finalize_receipt:
  "finalize_tx rid a timestamp ids db = (Inr u, db') \<Longrightarrow> receipt_attempt_of k db' = receipt_attempt_of k db"
  by (cases "tbl_find rc_report_id k (ld_receipts db)")
    (auto simp: finalize_tx_def Let_def receipt_attempt_of_def find_receipt_def tbl_find_map split: if_splits)

text \<open>What a completed live send leaves: the receipt names the attempt, and the attempt has the ids.\<close>

lemma live_send_rows:
  assumes q: "quiet E" and att: "receipt_attempt_of (rm_report_id m) db = Some a"
    and row: "attempt_row (rm_report_id m) a RPrepared db"
    and run: "live_send E m key timestamp a parts db = (Inr x, db', s)"
  shows "receipt_attempt_of (rm_report_id m) db' = Some a \<and>
    (\<exists>t. find_legacy_attempt a db' = Some t \<and> la_report_id t = rm_report_id m \<and> la_state t = RSent \<and>
       la_message_ids t = Some (dr_message_ids x)) \<and>
    list_all2 (\<lambda>(i, part) mid. dv_send E i part = Inr mid) (enumerate 0 parts) (dr_message_ids x)"
proof -
  obtain sr ids db1 s1 where parts: "send_parts E a 0 parts [] db = (sr, ids, db1, s1)" by (metis prod_cases4)
  then obtain v where sr: "sr = Inr v"
    using run by (cases sr) (auto simp: live_send_def split: option.splits prod.splits sum.splits)
  obtain u where fin: "step_tx E StepFinal (finalize_tx (rm_report_id m) a timestamp ids) db1 = (Inr u, db')"
    and ids: "dr_message_ids x = ids"
    using run parts sr by (auto simp: live_send_def split: option.splits prod.splits sum.splits)
  have f: "finalize_tx (rm_report_id m) a timestamp ids db1 = (Inr u, db')" by (rule step_tx_Inr [OF q fin])
  have "receipt_attempt_of (rm_report_id m) db1 = Some a"
    using att send_parts_receipts [OF q parts] by (simp add: receipt_attempt_of_def)
  then show ?thesis
    using finalize_receipt [OF f] finalize_row [OF f send_parts_row [OF q parts row]] send_parts_ids [OF parts [unfolded sr]] ids
    by auto
qed

text \<open>
  C15: a run that answers that it used the network has handed Telegram the whole text of the report, in order, and
  nothing else, as long as no other process writes during the run. Its receipt is then \<open>sent\<close> and names the attempt of
  the answer, and the row of that attempt is \<open>sent\<close> and holds one message id per part, the client's answer to it.
\<close>

theorem delivered_whole_text:
  assumes "quiet E" "deliver_report L E A report_id db = (Inr x, db', sent)" "dr_network_used x"
  shows "da_live A \<and> receipt_state_of report_id db' = Some RSent \<and> receipt_attempt_of report_id db' = Some (dr_attempt_id x) \<and>
    (\<exists>t. find_legacy_attempt (dr_attempt_id x) db' = Some t \<and> la_report_id t = report_id \<and> la_state t = RSent \<and>
       la_message_ids t = Some (dr_message_ids x)) \<and>
    length (dr_message_ids x) = length sent \<and>
    list_all2 (\<lambda>(i, part) mid. dv_send E i part = Inr mid) (enumerate 0 sent) (dr_message_ids x) \<and>
    (\<exists>m. load_report_material L E report_id db = Inr m \<and> concat sent = rm_markdown m)"
proof -
  obtain m parts key content recipient a db1
    where run: "deliver_input L E A report_id db = Inr (m, parts, key, content, recipient)" "da_live A"
      "step_tx E StepPrepare (prepare_delivery_tx L m key content recipient (da_timestamp A)) db = (Inr a, db1)"
      "live_send E m key (da_timestamp A) a parts db1 = (Inr x, db', sent)"
    using networked_run [OF assms(2,3)] .
  note input = deliver_input_ok [OF run(1)]
  note tx = step_tx_Inr [OF assms(1) run(3)]
  have "receipt_state_of report_id db1 = Some RPrepared" and att: "receipt_attempt_of report_id db1 = Some a"
    using prepare_delivery_tx_ok [OF tx] input by simp_all
  then have "receipt_state_of report_id db' = Some RSent"
    using live_send_receipt [OF assms(1) _ _ run(4)] input by simp
  moreover note live_send_rows [OF assms(1) _ prepare_attempt_row [OF tx] run(4)] 
  ultimately show ?thesis
    using run(2) live_send_sent [OF run(4)] prepared_parts input att by auto
qed

lemma dv_answer:
  "(case deliver_report dv_lib dv_env dv_args ''r'' dv_db of (r, db, s) \<Rightarrow> (map_sum id dr_network_used r, s)) = (Inr True, [''read''])"
  by code_simp

theorem delivered_whole_text_witness:
  "\<exists>x db. deliver_report dv_lib dv_env dv_args ''r'' dv_db = (Inr x, db, [''read'']) \<and> receipt_state_of ''r'' db = Some RSent"
proof -
  obtain r db s where run: "deliver_report dv_lib dv_env dv_args ''r'' dv_db = (r, db, s)" by (metis prod_cases3)
  then obtain x where "r = Inr x" "dr_network_used x" "s = [''read'']" using dv_answer by (cases r) auto
  then show ?thesis
    using run delivered_whole_text [of dv_env dv_lib dv_args "''r''" dv_db x db s] by (auto simp: quiet_def dv_env_def)
qed

section \<open>A receipt that changes between the check and the transaction\<close>

text \<open>
  The transaction that prepares a send reads the receipt again, but looks for unresolved attempts only. A receipt that
  another process took to \<open>sent\<close> after the first read is set back to \<open>prepared\<close>.
\<close>

lemma ordinal_fresh: "(report_id, next_legacy_ordinal report_id db) \<notin> (\<lambda>x. (la_report_id x, la_ordinal x)) ` set (ld_attempts db)"
proof
  assume "(report_id, next_legacy_ordinal report_id db) \<in> (\<lambda>x. (la_report_id x, la_ordinal x)) ` set (ld_attempts db)"
  then have "next_legacy_ordinal report_id db \<in> set (map la_ordinal (filter (\<lambda>a. la_report_id a = report_id) (ld_attempts db)))"
    (is "_ \<in> set ?ns")
    by auto
  then have "next_legacy_ordinal report_id db \<le> Max (set (0 # ?ns))" by (simp add: Max_ge)
  then show False by (simp only: Max.set_eq_fold next_legacy_ordinal_def)
qed

lemma prepare_forgets_sent:
  assumes "receipt_state_of (rm_report_id m) db = Some RSent"
    and "find_legacy_attempt (attempt_hash L key (show_nat (next_legacy_ordinal (rm_report_id m) db))) db = None"
  shows "\<exists>a db'. prepare_delivery_tx L m key content recipient timestamp db = (Inr a, db') \<and>
    receipt_state_of (rm_report_id m) db' = Some RPrepared"
proof -
  obtain r where "tbl_find rc_report_id (rm_report_id m) (ld_receipts db) = Some r" "rc_state r = RSent"
    using receipt_of [OF assms(1)] by metis
  then show ?thesis
    using assms(2) ordinal_fresh [of "rm_report_id m" db]
    by (auto simp: prepare_delivery_tx_def Let_def receipt_state_of_def find_receipt_def find_legacy_attempt_def
        insert_legacy_attempt_def new_attempt_def tbl_find_update)
qed

text \<open>
  Two live runs of the same report: the second has read the receipt before the first begins its transaction, and
  prepares after the first is done. Both hand the whole report to Telegram.
\<close>

definition dv_overtaken :: deliver_env where
  "dv_overtaken = dv_env\<lparr>dv_others :=
     (\<lambda>step db. if step = StepPrepare then fst (snd (deliver_report dv_lib dv_env dv_args ''r'' db)) else db)\<rparr>"

lemma overtaken_sends_twice:
  "snd (snd (deliver_report dv_lib dv_env dv_args ''r'' dv_db)) = [''read''] \<and>
   snd (snd (deliver_report dv_lib dv_overtaken dv_args ''r'' dv_db)) = [''read'']"
  by (rule conjI; code_simp)

end
